(* ===== verification/Prelude.thy ===== *)
theory Prelude
  imports Main "HOL-Library.Word" "HOL-Library.AList" "HOL-Library.Product_Lexorder"
    "HOL-Library.List_Lexorder" "HOL-Library.Char_ord" "HOL-Library.Multiset"
begin

unbundle bit_operations_syntax

text \<open>
  Shared vocabulary of the development: results with errors as values, Python dictionaries as
  association lists in insertion order, ranges, tilings of an interval by consecutive pieces and
  the lemmas on shifted and masked integers.
\<close>

section \<open>Results\<close>

text \<open>
  A Python function that may raise returns \<open>error + value\<close>: \<open>Inl\<close> is the exception, \<open>Inr\<close> the
  returned value.  \<open>bind_res\<close> sequences two such calls and \<open>map_res\<close> is a loop or comprehension
  that stops at the first exception.
\<close>

text \<open>
  The exceptions: one constructor per exception class of the source, with the message it is raised
  with (its fixed text, and the integers it formats).  \<open>ValueErr\<close>, \<open>KeyErr\<close>, \<open>IndexErr\<close>, \<open>RuntimeErr\<close> and
  \<open>TypeErr\<close> are Python's own.
\<close>

datatype py_error =
  ProtocolError string "int list"
| ScatterError string "int list"
| PieceError string "int list"
| BoundError string "int list"
| RouteError string "int list"
| BudgetError string "int list"
| FabricError string "int list"
| PlanError string "int list"
| TuningError string "int list"
| ValueErr string "int list"
| KeyErr string "int list"
| IndexErr "int list"
| RuntimeErr string "int list"
| TypeErr string "int list"
| Declined string "int list"
| NcclAcrossRelayError string "int list"
| SettingError string "int list"
| SirclSetupError string "int list"
| ServePlanError string "int list"

fun bind_res :: "'e + 'a \<Rightarrow> ('a \<Rightarrow> 'e + 'b) \<Rightarrow> 'e + 'b" where
  "bind_res (Inl e) f = Inl e"
| "bind_res (Inr x) f = f x"

lemma bind_res_cong [fundef_cong]:
  "x = y \<Longrightarrow> (\<And>a. y = Inr a \<Longrightarrow> f a = g a) \<Longrightarrow> bind_res x f = bind_res y g"
  by (cases y) auto

lemma bind_res_Inr: "bind_res x f = Inr b \<longleftrightarrow> (\<exists>a. x = Inr a \<and> f a = Inr b)"
  by (cases x) auto

fun map_res :: "('a \<Rightarrow> 'e + 'b) \<Rightarrow> 'a list \<Rightarrow> 'e + 'b list" where
  "map_res f [] = Inr []"
| "map_res f (x # xs) = bind_res (f x) (\<lambda>y. bind_res (map_res f xs) (\<lambda>ys. Inr (y # ys)))"

lemma map_res_cong [fundef_cong]:
  "xs = ys \<Longrightarrow> (\<And>x. x \<in> set ys \<Longrightarrow> f x = g x) \<Longrightarrow> map_res f xs = map_res g ys"
  by (induction ys arbitrary: xs) (auto intro: bind_res_cong)

lemma map_res_Inr: "map_res f xs = Inr ys \<longleftrightarrow> list_all2 (\<lambda>x y. f x = Inr y) xs ys"
  by (induction xs arbitrary: ys) (auto simp: bind_res_Inr list_all2_Cons1)

lemma map_res_total: "(\<And>x. x \<in> set xs \<Longrightarrow> f x = Inr (g x)) \<Longrightarrow> map_res f xs = Inr (map g xs)"
  by (induction xs) auto

lemma map_res_defined: "(\<And>x. x \<in> set xs \<Longrightarrow> \<exists>y. f x = Inr y) \<Longrightarrow> \<exists>ys. map_res f xs = Inr ys"
  by (induction xs) (auto, metis bind_res.simps(2))

lemma map_res_length: "map_res f xs = Inr ys \<Longrightarrow> length ys = length xs"
  by (simp add: map_res_Inr list_all2_lengthD)

lemma map_res_nth: "map_res f xs = Inr ys \<Longrightarrow> i < length xs \<Longrightarrow> f (xs ! i) = Inr (ys ! i)"
  by (simp add: map_res_Inr list_all2_conv_all_nth)

lemma map_res_in: "map_res f xs = Inr ys \<Longrightarrow> y \<in> set ys \<Longrightarrow> \<exists>x\<in>set xs. f x = Inr y"
  by (auto simp: map_res_Inr list_all2_conv_all_nth in_set_conv_nth) (metis nth_mem)

lemma map_res_each: "map_res f xs = Inr ys \<Longrightarrow> x \<in> set xs \<Longrightarrow> \<exists>y\<in>set ys. f x = Inr y"
  by (induction xs arbitrary: ys) (auto simp: bind_res_Inr)

text \<open>\<open>fold_res\<close> is a loop that updates a state and stops at the first exception.\<close>

fun fold_res :: "('a \<Rightarrow> 's \<Rightarrow> 'e + 's) \<Rightarrow> 'a list \<Rightarrow> 's \<Rightarrow> 'e + 's" where
  "fold_res f [] s = Inr s"
| "fold_res f (x # xs) s = bind_res (f x s) (fold_res f xs)"

lemma fold_res_invariant:
  "fold_res f xs s = Inr t \<Longrightarrow> P s \<Longrightarrow> (\<And>x s t. x \<in> set xs \<Longrightarrow> P s \<Longrightarrow> f x s = Inr t \<Longrightarrow> P t) \<Longrightarrow> P t"
  by (induction xs arbitrary: s) (auto simp: bind_res_Inr)

text \<open>A property that a step establishes and no later step breaks holds of every element at the end.\<close>

lemma fold_res_each:
  assumes "fold_res f xs s = Inr t" "x \<in> set xs"
    and "\<And>s t. f x s = Inr t \<Longrightarrow> Q t" "\<And>y s t. Q s \<Longrightarrow> f y s = Inr t \<Longrightarrow> Q t"
  shows "Q t"
  using assms(1,2)
proof (induction xs arbitrary: s)
  case (Cons y ys)
  obtain u where u: "f y s = Inr u" "fold_res f ys u = Inr t" using Cons.prems by (auto simp: bind_res_Inr)
  show ?case
  proof (cases "x = y")
    case True
    then have "Q u" using u(1) assms(3) by blast
    then show ?thesis using u(2) assms(4) by (rule_tac fold_res_invariant) auto
  next
    case False
    then show ?thesis using Cons u by auto
  qed
qed simp

text \<open>A loop whose steps each add to what a table stands for adds up over the loop.\<close>

lemma fold_res_collects:
  "fold_res f xs s = Inr t \<Longrightarrow> J D s \<Longrightarrow> (\<And>x D s t. x \<in> set xs \<Longrightarrow> J D s \<Longrightarrow> f x s = Inr t \<Longrightarrow> J (D \<union> S x) t)
    \<Longrightarrow> J (D \<union> (\<Union>x\<in>set xs. S x)) t"
proof (induction xs arbitrary: D s)
  case (Cons x xs)
  obtain u where u: "f x s = Inr u" "fold_res f xs u = Inr t" using Cons.prems(1) by (auto simp: bind_res_Inr)
  have "J (D \<union> S x) u" using Cons.prems(2,3) u(1) by simp
  then have "J (D \<union> S x \<union> (\<Union>x\<in>set xs. S x)) t" using Cons.IH [OF u(2)] Cons.prems(3) by simp
  then show ?case by (simp add: Un_assoc)
qed simp

definition is_ok :: "'e + 'a \<Rightarrow> bool" where
  "is_ok r = (case r of Inl _ \<Rightarrow> False | Inr _ \<Rightarrow> True)"

lemma is_ok_simps [simp]: "is_ok (Inl e) = False" "is_ok (Inr x) = True"
  by (simp_all add: is_ok_def)

lemma is_ok_iff: "is_ok r \<longleftrightarrow> (\<exists>x. r = Inr x)"
  by (cases r) auto

text \<open>A check that raises: \<open>guard c e\<close> is \<open>if not c: raise e\<close>.\<close>

definition guard :: "bool \<Rightarrow> 'e \<Rightarrow> 'e + unit" where
  "guard c e = (if c then Inr () else Inl e)"

lemma guard_Inr [simp]: "guard c e = Inr u \<longleftrightarrow> c"
  by (simp add: guard_def)

lemma guard_True [simp]: "guard True e = Inr ()"
  by (simp add: guard_def)

lemma guard_False [simp]: "guard False e = Inl e"
  by (simp add: guard_def)

section \<open>Ranges and indexing\<close>

definition py_range :: "int \<Rightarrow> int list" where
  "py_range n = [0..n - 1]"

lemma set_py_range [simp]: "set (py_range n) = {0..<n}"
  by (auto simp: py_range_def)

lemma distinct_py_range [simp]: "distinct (py_range n)"
  by (simp add: py_range_def)

lemma length_py_range [simp]: "length (py_range n) = nat n"
  by (simp add: py_range_def)

lemma nth_py_range [simp]: "i < nat n \<Longrightarrow> py_range n ! i = int i"
  by (simp add: py_range_def)

lemma py_range_snoc: "0 \<le> n \<Longrightarrow> py_range (n + 1) = py_range n @ [n]"
  by (simp add: py_range_def upto_rec2)

lemma py_range_nonpos [simp]: "n \<le> 0 \<Longrightarrow> py_range n = []"
  by (simp add: py_range_def)

lemma py_range_map: "py_range n = map int [0..<nat n]"
  by (rule nth_equalityI) simp_all

lemma sorted_py_range [simp]: "sorted (py_range n)"
  by (simp add: py_range_map sorted_map)

text \<open>\<open>range(start, stop, step)\<close> for a positive step.\<close>

definition cdiv :: "int \<Rightarrow> int \<Rightarrow> int" where
  "cdiv a b = - (- a div b)"

definition py_range_step :: "int \<Rightarrow> int \<Rightarrow> int \<Rightarrow> int list" where
  "py_range_step start stop step = map (\<lambda>j. start + j * step) (py_range (cdiv (stop - start) step))"

lemma cdiv_bounds: "0 < b \<Longrightarrow> a \<le> cdiv a b * b \<and> cdiv a b * b < a + b"
proof -
  assume b: "0 < b"
  have e: "(- a) div b * b + (- a) mod b = - a" by (rule div_mult_mod_eq)
  have "0 \<le> (- a) mod b" "(- a) mod b < b" using b by simp_all
  then have "a \<le> - ((- a) div b * b)" "- ((- a) div b * b) < a + b" using e by linarith+
  then show ?thesis by (simp add: cdiv_def)
qed

lemma cdiv_le_iff: "0 < b \<Longrightarrow> cdiv a b \<le> n \<longleftrightarrow> a \<le> n * b"
proof -
  assume b: "0 < b"
  have l: "a \<le> cdiv a b * b" and u: "cdiv a b * b < a + b" using cdiv_bounds [OF b] by auto
  show ?thesis
  proof
    assume "cdiv a b \<le> n"
    then have "cdiv a b * b \<le> n * b" using b by simp
    with l show "a \<le> n * b" by linarith
  next
    assume "a \<le> n * b"
    with u have "cdiv a b * b < (n + 1) * b" by (simp add: algebra_simps)
    with b show "cdiv a b \<le> n" by (simp add: mult_less_cancel_right)
  qed
qed

lemma cdiv_exact [simp]: "0 < b \<Longrightarrow> cdiv (a * b) b = a"
  by (metis cdiv_def minus_minus minus_mult_left nonzero_mult_div_cancel_right less_irrefl)

lemma cdiv_add: "0 < b \<Longrightarrow> (a + (b - 1)) div b = cdiv a b"
proof -
  assume b: "0 < b"
  let ?q = "cdiv a b"
  have "a \<le> ?q * b" "?q * b < a + b" using cdiv_bounds [OF b] by auto
  then show "(a + (b - 1)) div b = ?q"
    using b by (intro int_div_pos_eq [where r = "a + (b - 1) - ?q * b"]) (auto simp: algebra_simps)
qed

lemma cdiv_nonneg: "0 < b \<Longrightarrow> 0 \<le> a \<Longrightarrow> 0 \<le> cdiv a b"
  using cdiv_bounds [of b a] by (smt (verit) mult_less_0_iff)

lemma cdiv_pos: "0 < b \<Longrightarrow> 0 < a \<Longrightarrow> 0 < cdiv a b"
  using cdiv_le_iff [of b a 0] by simp

lemma cdiv_nonpos: "0 < b \<Longrightarrow> a \<le> 0 \<Longrightarrow> cdiv a b \<le> 0"
  by (simp add: cdiv_le_iff)

lemma cdiv_last: "0 < b \<Longrightarrow> j < cdiv a b \<Longrightarrow> j * b < a"
  using cdiv_le_iff [of b a j] by linarith

text \<open>\<open>xs[i]\<close>: a negative index counts from the end, any other index outside raises.\<close>

definition py_index :: "'a list \<Rightarrow> int \<Rightarrow> py_error + 'a" where
  "py_index xs i =
    (if 0 \<le> i \<and> i < int (length xs) then Inr (xs ! nat i)
     else if i < 0 \<and> 0 \<le> int (length xs) + i then Inr (xs ! nat (int (length xs) + i))
     else Inl (IndexErr [i]))"

lemma py_index_nth [simp]: "0 \<le> i \<Longrightarrow> i < int (length xs) \<Longrightarrow> py_index xs i = Inr (xs ! nat i)"
  by (simp add: py_index_def)

text \<open>\<open>list(dict.fromkeys(xs))\<close>: each value once, where it first occurs.\<close>

definition dedup :: "'a list \<Rightarrow> 'a list" where
  "dedup xs = rev (remdups (rev xs))"

lemma set_dedup [simp]: "set (dedup xs) = set xs"
  by (simp add: dedup_def)

lemma distinct_dedup [simp]: "distinct (dedup xs)"
  by (simp add: dedup_def)

lemma set_map_filter: "set (List.map_filter f xs) = {y. \<exists>x\<in>set xs. f x = Some y}"
  by (induction xs) (auto split: option.splits)

lemma takeWhile_less: "p \<in> set xs \<Longrightarrow> length (takeWhile (\<lambda>q. q \<noteq> p) xs) < length xs"
  by (induction xs) auto

section \<open>Mixed radix\<close>

lemma radix_div: "0 \<le> (b::int) \<Longrightarrow> b < n \<Longrightarrow> (a * n + b) div n = a"
  by simp

lemma radix_mod: "0 \<le> (b::int) \<Longrightarrow> b < n \<Longrightarrow> (a * n + b) mod n = b"
  by simp

text \<open>A mixed-radix number determines its digits.\<close>

lemma radix_unique:
  assumes "0 \<le> (b::int)" "b < n" "0 \<le> d" "d < n" "a * n + b = c * n + d"
  shows "a = c \<and> b = d"
  using radix_div [OF assms(1,2), of a] radix_div [OF assms(3,4), of c]
    radix_mod [OF assms(1,2), of a] radix_mod [OF assms(3,4), of c] assms(5)
  by simp

lemma radix_bound: "(a::int) < m \<Longrightarrow> b < n \<Longrightarrow> 0 \<le> n \<Longrightarrow> a * n + b < m * n"
proof -
  assume "a < m" "b < n" "0 \<le> n"
  then have "(a + 1) * n \<le> m * n" by (intro mult_right_mono) auto
  with \<open>b < n\<close> show ?thesis by (simp add: algebra_simps)
qed

section \<open>Tilings\<close>

text \<open>
  \<open>tiles lo ps hi\<close>: the pieces \<open>(offset, length)\<close> of \<open>ps\<close> lie one behind the other, without gap or
  overlap, from \<open>lo\<close> up to \<open>hi\<close>.  Stripes, chunks, pieces, items and arena regions are all tilings.
\<close>

fun tiles :: "int \<Rightarrow> (int \<times> int) list \<Rightarrow> int \<Rightarrow> bool" where
  "tiles lo [] hi \<longleftrightarrow> lo = hi"
| "tiles lo ((off, n) # ps) hi \<longleftrightarrow> off = lo \<and> 0 \<le> n \<and> tiles (lo + n) ps hi"

definition piece_set :: "int \<times> int \<Rightarrow> int set" where
  "piece_set p = {fst p..<fst p + snd p}"

lemma piece_set_mem [simp]: "x \<in> piece_set (off, n) \<longleftrightarrow> off \<le> x \<and> x < off + n"
  by (auto simp: piece_set_def)

lemma tiles_le: "tiles lo ps hi \<Longrightarrow> lo \<le> hi"
  by (induction lo ps hi rule: tiles.induct) auto

lemma tiles_append: "tiles lo (ps @ qs) hi \<longleftrightarrow> (\<exists>mid. tiles lo ps mid \<and> tiles mid qs hi)"
  by (induction lo ps hi rule: tiles.induct) auto

lemma tiles_sum: "tiles lo ps hi \<Longrightarrow> sum_list (map snd ps) = hi - lo"
  by (induction lo ps hi rule: tiles.induct) auto

lemma tiles_within: "tiles lo ps hi \<Longrightarrow> p \<in> set ps \<Longrightarrow> lo \<le> fst p \<and> 0 \<le> snd p \<and> fst p + snd p \<le> hi"
  by (induction lo ps hi rule: tiles.induct) (auto dest: tiles_le)

lemma tiles_cover: "tiles lo ps hi \<Longrightarrow> (\<Union>p\<in>set ps. piece_set p) = {lo..<hi}"
proof (induction lo ps hi rule: tiles.induct)
  case (1 lo hi)
  then show ?case by simp
next
  case (2 lo off n ps hi)
  then have "lo + n \<le> hi" by (auto dest: tiles_le)
  with 2 show ?case by (auto simp: piece_set_def)
qed

lemma tiles_disjoint:
  "tiles lo ps hi \<Longrightarrow> i < j \<Longrightarrow> j < length ps \<Longrightarrow> fst (ps ! i) + snd (ps ! i) \<le> fst (ps ! j)"
proof (induction lo ps hi arbitrary: i j rule: tiles.induct)
  case (1 lo hi)
  then show ?case by simp
next
  case (2 lo off n ps hi)
  show ?case
  proof (cases i)
    case 0
    with 2 have "ps ! (j - 1) \<in> set ps" by simp
    with 2 tiles_within [of "lo + n" ps hi "ps ! (j - 1)"] 0 show ?thesis by (simp add: nth_Cons')
  next
    case (Suc i')
    with 2 show ?thesis by (cases j) auto
  qed
qed

text \<open>Every point of a tiled interval lies in exactly one piece.\<close>

lemma tiles_unique:
  assumes "tiles lo ps hi" "lo \<le> x" "x < hi"
  shows "\<exists>!i. i < length ps \<and> x \<in> piece_set (ps ! i)"
proof -
  have "x \<in> (\<Union>p\<in>set ps. piece_set p)" using assms by (simp add: tiles_cover)
  then obtain i where i: "i < length ps" "x \<in> piece_set (ps ! i)"
    by (auto simp: in_set_conv_nth)
  show ?thesis
  proof (rule ex1I [of _ i])
    show "i < length ps \<and> x \<in> piece_set (ps ! i)" using i by simp
  next
    fix j
    assume j: "j < length ps \<and> x \<in> piece_set (ps ! j)"
    show "j = i"
    proof (rule ccontr)
      assume "j \<noteq> i"
      then consider "i < j" | "j < i" by linarith
      then show False
      proof cases
        case 1
        then show ?thesis using tiles_disjoint [OF assms(1), of i j] i j by (auto simp: piece_set_def)
      next
        case 2
        then show ?thesis using tiles_disjoint [OF assms(1), of j i] i j by (auto simp: piece_set_def)
      qed
    qed
  qed
qed

lemma tiles_unique_range:
  assumes "tiles lo (map (\<lambda>p. (f p, g p)) (py_range n)) hi" "lo \<le> x" "x < hi"
  shows "\<exists>!p. 0 \<le> p \<and> p < n \<and> f p \<le> x \<and> x < f p + g p"
proof -
  have ex: "\<exists>!i. i < nat n \<and> f (int i) \<le> x \<and> x < f (int i) + g (int i)"
    using tiles_unique [OF assms] by (simp cong: conj_cong)
  then obtain i where i: "i < nat n" "f (int i) \<le> x" "x < f (int i) + g (int i)" by blast
  show ?thesis
  proof (rule ex1I [of _ "int i"])
    show "0 \<le> int i \<and> int i < n \<and> f (int i) \<le> x \<and> x < f (int i) + g (int i)" using i by auto
    fix p
    assume p: "0 \<le> p \<and> p < n \<and> f p \<le> x \<and> x < f p + g p"
    then have "nat p < nat n \<and> f (int (nat p)) \<le> x \<and> x < f (int (nat p)) + g (int (nat p))" by simp
    with ex i have "nat p = i" by blast
    with p show "p = int i" by auto
  qed
qed

text \<open>Consecutive values of a monotone function are a tiling.\<close>

lemma tiles_steps:
  assumes "0 \<le> n" and "\<And>j. 0 \<le> j \<Longrightarrow> j < n \<Longrightarrow> f j \<le> f (j + 1)"
  shows "tiles (f 0) (map (\<lambda>j. (f j, f (j + 1) - f j)) (py_range n)) (f n)"
  using assms
proof (induction n rule: int_ge_induct)
  case base
  then show ?case by simp
next
  case (step n)
  then show ?case by (simp add: py_range_snoc tiles_append)
qed

text \<open>Cutting \<open>[lo, hi)\<close> every \<open>sz\<close> bytes, the last piece shorter.\<close>

definition cut_every :: "int \<Rightarrow> int \<Rightarrow> int \<Rightarrow> (int \<times> int) list" where
  "cut_every lo hi sz = map (\<lambda>off. (off, min sz (hi - off))) (py_range_step lo hi sz)"

lemma tiles_cut_every:
  assumes "0 < sz" "lo \<le> hi"
  shows "tiles lo (cut_every lo hi sz) hi"
proof -
  let ?n = "cdiv (hi - lo) sz"
  let ?f = "\<lambda>j. min hi (lo + j * sz)"
  have n: "0 \<le> ?n" using assms by (simp add: cdiv_nonneg)
  have t: "tiles (?f 0) (map (\<lambda>j. (?f j, ?f (j + 1) - ?f j)) (py_range ?n)) (?f ?n)"
    using n assms by (intro tiles_steps) (auto simp: min_def algebra_simps)
  have last: "?f ?n = hi" using cdiv_bounds [of sz "hi - lo"] assms by linarith
  have "map (\<lambda>j. (?f j, ?f (j + 1) - ?f j)) (py_range ?n) = cut_every lo hi sz"
    unfolding cut_every_def py_range_step_def map_map
  proof (rule map_cong [OF refl])
    fix j
    assume "j \<in> set (py_range ?n)"
    then have "j * sz < hi - lo" using cdiv_last [OF assms(1)] by simp
    then show "(?f j, ?f (j + 1) - ?f j) = ((\<lambda>off. (off, min sz (hi - off))) \<circ> (\<lambda>j. lo + j * sz)) j"
      using assms by (auto simp: min_def algebra_simps)
  qed
  with t last assms show ?thesis by simp
qed

lemma cut_every_size: "p \<in> set (cut_every lo hi sz) \<Longrightarrow> snd p \<le> sz"
  by (auto simp: cut_every_def)

lemma cut_every_pos: "0 < sz \<Longrightarrow> p \<in> set (cut_every lo hi sz) \<Longrightarrow> 0 < snd p"
  by (auto simp: cut_every_def py_range_step_def) (use cdiv_last in fastforce)

text \<open>
  The interface of a plan: whatever computes the pieces of a message promises that they tile it.  The
  consequences (each byte travels exactly once, the lengths add up) are proved once here and reused
  by every plan of the development.
\<close>

locale piece_plan =
  fixes valid :: "'a \<Rightarrow> bool"
    and pieces :: "'a \<Rightarrow> (int \<times> int) list"
    and size_of :: "'a \<Rightarrow> int"
  assumes plan_tiles: "valid x \<Longrightarrow> tiles 0 (pieces x) (size_of x)"
begin

lemma bytes_once:
  "valid x \<Longrightarrow> 0 \<le> b \<Longrightarrow> b < size_of x \<Longrightarrow> \<exists>!i. i < length (pieces x) \<and> b \<in> piece_set (pieces x ! i)"
  by (rule tiles_unique [OF plan_tiles])

lemma total_length: "valid x \<Longrightarrow> sum_list (map snd (pieces x)) = size_of x"
  using tiles_sum [OF plan_tiles] by simp

lemma piece_inside: "valid x \<Longrightarrow> p \<in> set (pieces x) \<Longrightarrow> 0 \<le> fst p \<and> fst p + snd p \<le> size_of x"
  using tiles_within [OF plan_tiles] by blast

lemma pieces_apart:
  "valid x \<Longrightarrow> i < j \<Longrightarrow> j < length (pieces x) \<Longrightarrow>
    fst (pieces x ! i) + snd (pieces x ! i) \<le> fst (pieces x ! j)"
  by (rule tiles_disjoint [OF plan_tiles])

end

section \<open>Areas of cells\<close>

text \<open>
  \<open>stacked lo rs hi\<close>: the regions \<open>(base, width, cells)\<close> of \<open>rs\<close>, each an array of cells of one width,
  lie one behind the other between \<open>lo\<close> and \<open>hi\<close>.  A cell is named by its region and its index.
\<close>

fun stacked :: "int \<Rightarrow> (int \<times> int \<times> int) list \<Rightarrow> int \<Rightarrow> bool" where
  "stacked lo [] hi \<longleftrightarrow> lo \<le> hi"
| "stacked lo ((b, w, n) # rs) hi \<longleftrightarrow> lo \<le> b \<and> 0 \<le> w \<and> 0 \<le> n \<and> stacked (b + w * n) rs hi"

definition cell_at :: "(int \<times> int \<times> int) list \<Rightarrow> nat \<times> int \<Rightarrow> int" where
  "cell_at rs c = (let (b, w, n) = rs ! fst c in b + w * snd c)"

definition cell_ok :: "(int \<times> int \<times> int) list \<Rightarrow> nat \<times> int \<Rightarrow> int \<Rightarrow> bool" where
  "cell_ok rs c len \<longleftrightarrow> fst c < length rs \<and> (let (b, w, n) = rs ! fst c in 0 \<le> snd c \<and> snd c < n \<and> 0 \<le> len \<and> len \<le> w)"

lemma stacked_le: "stacked lo rs hi \<Longrightarrow> lo \<le> hi"
proof (induction lo rs hi rule: stacked.induct)
  case (2 lo b w n rs hi)
  then have "0 \<le> w * n" "lo \<le> b" "b + w * n \<le> hi" by auto
  then show ?case by linarith
qed simp

lemma index_step: "0 \<le> (w::int) \<Longrightarrow> i < j \<Longrightarrow> len \<le> w \<Longrightarrow> w * i + len \<le> w * j"
proof -
  assume "0 \<le> w" "i < j" "len \<le> w"
  then have "w * (i + 1) \<le> w * j" by (intro mult_left_mono) auto
  with \<open>len \<le> w\<close> show ?thesis by (simp add: algebra_simps)
qed

lemma stacked_inside:
  "stacked lo rs hi \<Longrightarrow> cell_ok rs c len \<Longrightarrow> lo \<le> cell_at rs c \<and> cell_at rs c + len \<le> hi"
proof (induction lo rs hi arbitrary: c rule: stacked.induct)
  case (1 lo hi)
  then show ?case by (simp add: cell_ok_def)
next
  case (2 lo b w n rs hi)
  show ?case
  proof (cases "fst c")
    case 0
    with 2 have c: "0 \<le> snd c" "snd c < n" "len \<le> w" "0 \<le> w" by (auto simp: cell_ok_def)
    then have "w * snd c + len \<le> w * n" "0 \<le> w * snd c" by (auto intro: index_step)
    moreover have "b + w * n \<le> hi" using 2 by (auto dest: stacked_le)
    ultimately show ?thesis using 0 2 by (auto simp: cell_at_def)
  next
    case (Suc r)
    have "cell_ok rs (r, snd c) len" using 2 Suc by (auto simp: cell_ok_def)
    with 2 have "b + w * n \<le> cell_at rs (r, snd c) \<and> cell_at rs (r, snd c) + len \<le> hi" by auto
    moreover have "0 \<le> w * n" "lo \<le> b" using 2 by auto
    ultimately have "lo \<le> cell_at rs (r, snd c) \<and> cell_at rs (r, snd c) + len \<le> hi" by linarith
    then show ?thesis using Suc by (simp add: cell_at_def)
  qed
qed

lemma stacked_after:
  "stacked lo rs hi \<Longrightarrow> cell_ok rs (r, i) len \<Longrightarrow> cell_ok rs (s, j) len' \<Longrightarrow> r < s \<or> r = s \<and> i < j \<Longrightarrow>
    cell_at rs (r, i) + len \<le> cell_at rs (s, j)"
proof (induction lo rs hi arbitrary: r s rule: stacked.induct)
  case (1 lo hi)
  then show ?case by (simp add: cell_ok_def)
next
  case (2 lo b w n rs hi)
  show ?case
  proof (cases s)
    case 0
    with 2 show ?thesis by (auto simp: cell_ok_def cell_at_def intro: index_step)
  next
    case (Suc s')
    then have s: "cell_ok rs (s', j) len'" using 2 by (auto simp: cell_ok_def)
    show ?thesis
    proof (cases r)
      case 0
      with 2 have "w * i + len \<le> w * n" by (intro index_step) (auto simp: cell_ok_def)
      moreover have "b + w * n \<le> cell_at rs (s', j)" using 2 s stacked_inside by auto
      ultimately show ?thesis using 0 Suc by (simp add: cell_at_def)
    next
      case (Suc r')
      then have "cell_ok rs (r', i) len" using 2 by (auto simp: cell_ok_def)
      with 2 s Suc \<open>s = Suc s'\<close> have "cell_at rs (r', i) + len \<le> cell_at rs (s', j)" by auto
      then show ?thesis using Suc \<open>s = Suc s'\<close> by (simp add: cell_at_def)
    qed
  qed
qed

text \<open>
  The interface of a byte layout: its regions are stacked from 0 to its total, and every use of the
  area has a cell of its own.  Two uses then never share a byte.
\<close>

locale cell_area =
  fixes ok :: "'l \<Rightarrow> bool"
    and regions :: "'l \<Rightarrow> (int \<times> int \<times> int) list"
    and total :: "'l \<Rightarrow> int"
    and use_ok :: "'l \<Rightarrow> 'u \<Rightarrow> bool"
    and cell :: "'l \<Rightarrow> 'u \<Rightarrow> nat \<times> int"
    and span :: "'l \<Rightarrow> 'u \<Rightarrow> int \<times> int"
  assumes area_stacked: "ok l \<Longrightarrow> stacked 0 (regions l) (total l)"
    and area_cell: "ok l \<Longrightarrow> use_ok l u \<Longrightarrow> cell_ok (regions l) (cell l u) (snd (span l u))"
    and area_span: "ok l \<Longrightarrow> use_ok l u \<Longrightarrow> fst (span l u) = cell_at (regions l) (cell l u)"
    and area_inj: "ok l \<Longrightarrow> use_ok l u \<Longrightarrow> use_ok l v \<Longrightarrow> cell l u = cell l v \<Longrightarrow> u = v"
begin

lemma span_inside:
  "ok l \<Longrightarrow> use_ok l u \<Longrightarrow> 0 \<le> fst (span l u) \<and> fst (span l u) + snd (span l u) \<le> total l"
  using stacked_inside [OF area_stacked area_cell] by (simp add: area_span)

lemma spans_apart:
  assumes "ok l" "use_ok l u" "use_ok l v" "u \<noteq> v"
  shows "piece_set (span l u) \<inter> piece_set (span l v) = {}"
proof -
  obtain r i s j where c: "cell l u = (r, i)" "cell l v = (s, j)" by (metis prod.exhaust)
  have "cell l u \<noteq> cell l v" using assms area_inj by blast
  then consider "r < s \<or> r = s \<and> i < j" | "s < r \<or> s = r \<and> j < i" using c by force
  then show ?thesis
  proof cases
    case 1
    then have "fst (span l u) + snd (span l u) \<le> fst (span l v)"
      using stacked_after [OF area_stacked] area_cell area_span assms c by metis
    then show ?thesis by (auto simp: piece_set_def)
  next
    case 2
    then have "fst (span l v) + snd (span l v) \<le> fst (span l u)"
      using stacked_after [OF area_stacked] area_cell area_span assms c by metis
    then show ?thesis by (auto simp: piece_set_def)
  qed
qed

end

section \<open>Dictionaries\<close>

text \<open>
  A Python dictionary is an association list in insertion order: \<open>d[k] = v\<close> is \<open>AList.update\<close> (an
  existing key keeps its place), \<open>k in d\<close> and \<open>d.get(k)\<close> are \<open>map_of\<close>.
\<close>

type_synonym ('k, 'v) dict = "('k \<times> 'v) list"

definition dget :: "('k, 'v) dict \<Rightarrow> 'k \<Rightarrow> 'v option" where
  "dget d k = map_of d k"

definition dget_or :: "('k, 'v) dict \<Rightarrow> 'k \<Rightarrow> 'v \<Rightarrow> 'v" where
  "dget_or d k v = (case map_of d k of None \<Rightarrow> v | Some w \<Rightarrow> w)"

definition dset :: "'k \<Rightarrow> 'v \<Rightarrow> ('k, 'v) dict \<Rightarrow> ('k, 'v) dict" where
  "dset k v d = AList.update k v d"

text \<open>\<open>d.setdefault(k, []).append(x)\<close> and \<open>d[k] = d.get(k, 0) + n\<close>.\<close>

definition dappend :: "'k \<Rightarrow> 'v \<Rightarrow> ('k, 'v list) dict \<Rightarrow> ('k, 'v list) dict" where
  "dappend k x d = dset k (dget_or d k [] @ [x]) d"

definition dadd :: "'k \<Rightarrow> int \<Rightarrow> ('k, int) dict \<Rightarrow> ('k, int) dict" where
  "dadd k n d = dset k (dget_or d k 0 + n) d"

lemma dget_dset [simp]: "dget (dset k v d) k' = (if k' = k then Some v else dget d k')"
  by (simp add: dget_def dset_def update_conv')

lemma dget_or_dset [simp]: "dget_or (dset k v d) k' w = (if k' = k then v else dget_or d k' w)"
  by (simp add: dget_or_def dset_def update_conv')

lemma dget_or_dget: "dget_or d k v = (case dget d k of None \<Rightarrow> v | Some w \<Rightarrow> w)"
  by (simp add: dget_or_def dget_def)

lemma dget_Nil [simp]: "dget [] k = None"
  by (simp add: dget_def)

lemma dget_or_Nil [simp]: "dget_or [] k v = v"
  by (simp add: dget_or_def)

lemma distinct_dset [simp]: "distinct (map fst d) \<Longrightarrow> distinct (map fst (dset k v d))"
  by (simp add: dset_def distinct_update)

lemma keys_dset [simp]: "fst ` set (dset k v d) = insert k (fst ` set d)"
proof -
  have "dom (map_of (dset k v d)) = insert k (dom (map_of d))"
    by (simp add: dset_def update_conv')
  then show ?thesis by (simp add: dom_map_of_conv_image_fst)
qed

lemma dget_or_dappend [simp]:
  "dget_or (dappend k x d) k' [] = (if k' = k then dget_or d k [] @ [x] else dget_or d k' [])"
  by (simp add: dappend_def)

lemma dget_or_dadd [simp]: "dget_or (dadd k n d) k' 0 = (if k' = k then dget_or d k 0 + n else dget_or d k' 0)"
  by (simp add: dadd_def)

lemma distinct_dappend [simp]: "distinct (map fst d) \<Longrightarrow> distinct (map fst (dappend k x d))"
  by (simp add: dappend_def)

lemma keys_dappend [simp]: "fst ` set (dappend k x d) = insert k (fst ` set d)"
  by (simp add: dappend_def)

lemma keys_dadd [simp]: "fst ` set (dadd k n d) = insert k (fst ` set d)"
  by (simp add: dadd_def)

lemma dget_Some_in: "dget d k = Some v \<Longrightarrow> (k, v) \<in> set d"
  by (simp add: dget_def map_of_SomeD)

lemma dget_in: "distinct (map fst d) \<Longrightarrow> (k, v) \<in> set d \<Longrightarrow> dget d k = Some v"
  by (simp add: dget_def)

lemma dset_new: "k \<notin> fst ` set d \<Longrightarrow> dset k v d = d @ [(k, v)]"
  unfolding dset_def by (induction d) auto

text \<open>\<open>sorted(d.items())\<close> for a dictionary, whose keys are distinct.\<close>

definition ditems :: "('k::linorder, 'v) dict \<Rightarrow> ('k \<times> 'v) list" where
  "ditems d = sort_key fst d"

lemma set_ditems [simp]: "set (ditems d) = set d"
  by (simp add: ditems_def)

lemma keys_ditems: "distinct (map fst d) \<Longrightarrow> map fst (ditems d) = sorted_list_of_set (fst ` set d)"
proof -
  assume d: "distinct (map fst d)"
  have m: "mset (map fst (ditems d)) = mset (map fst d)"
    by (metis ditems_def mset_map mset_sort)
  then have "distinct (map fst (ditems d))"
    using d by (metis mset_eq_imp_distinct_iff)
  moreover have "sorted (map fst (ditems d))" by (simp add: ditems_def)
  moreover have "set (map fst (ditems d)) = fst ` set d" by simp
  ultimately show ?thesis by (metis sorted_list_of_set.idem_if_sorted_distinct)
qed

lemma ditems_sorted: "sorted (map fst d) \<Longrightarrow> ditems d = d"
  by (simp add: ditems_def sort_key_id_if_sorted)

lemma distinct_ditems [simp]: "distinct (map fst (ditems d)) \<longleftrightarrow> distinct (map fst d)"
  unfolding ditems_def by (metis mset_eq_imp_distinct_iff mset_map mset_sort)

section \<open>Shifts and masks of unbounded integers\<close>

lemma bit_above: "0 \<le> (b::int) \<Longrightarrow> b < 2 ^ n \<Longrightarrow> n \<le> m \<Longrightarrow> \<not> bit b m"
  by (metis bit_take_bit_iff not_le take_bit_int_eq_self_iff)

lemma or_shift: "0 \<le> (b::int) \<Longrightarrow> b < 2 ^ n \<Longrightarrow> push_bit n a OR b = a * 2 ^ n + b"
proof -
  assume b: "0 \<le> b" "b < 2 ^ n"
  have "push_bit n a + b = push_bit n a OR b"
    by (rule disjunctive_add_eq_or, rule bit_eqI)
       (auto simp: bit_and_iff bit_push_bit_iff dest: bit_above [OF b])
  then show ?thesis by (simp add: push_bit_eq_mult)
qed

lemma shift_right: "drop_bit n (a::int) = a div 2 ^ n"
  by (rule drop_bit_eq_div)

lemma and_low_mask: "(a::int) AND (2 ^ n - 1) = a mod 2 ^ n"
  by (simp add: mask_eq_exp_minus_1 [symmetric] take_bit_eq_mod [symmetric] take_bit_eq_mask)

text \<open>\<open>int.bit_length\<close> of a non-negative integer.\<close>

fun bit_len_nat :: "nat \<Rightarrow> nat" where
  "bit_len_nat n = (if n = 0 then 0 else Suc (bit_len_nat (n div 2)))"

declare bit_len_nat.simps [simp del]

definition bit_len :: "int \<Rightarrow> int" where
  "bit_len n = int (bit_len_nat (nat \<bar>n\<bar>))"

lemma bit_len_nat_numeral [simp]:
  "bit_len_nat 0 = 0" "bit_len_nat (Suc 0) = 1"
  "bit_len_nat (numeral (Num.Bit0 k)) = Suc (bit_len_nat (numeral k))"
  "bit_len_nat (numeral (Num.Bit1 k)) = Suc (bit_len_nat (numeral k))"
  by (subst bit_len_nat.simps; simp add: bit_len_nat.simps [of 0] numeral_Bit0_div_2 numeral_Bit1_div_2)+

lemma bit_len_numeral [simp]:
  "bit_len 0 = 0" "bit_len 1 = 1" "bit_len (numeral k) = int (bit_len_nat (numeral k))"
  by (simp_all add: bit_len_def)

lemma bit_len_nat_upper: "n < 2 ^ bit_len_nat n"
proof (induction n rule: bit_len_nat.induct)
  case (1 n)
  then show ?case by (subst bit_len_nat.simps) auto
qed

lemma bit_len_nat_lower: "0 < n \<Longrightarrow> 2 ^ (bit_len_nat n - 1) \<le> n"
proof (induction n rule: bit_len_nat.induct)
  case (1 n)
  show ?case
  proof (cases "n div 2 = 0")
    case True
    with 1 have "n = 1" by linarith
    then show ?thesis by (simp add: bit_len_nat.simps)
  next
    case False
    then have "bit_len_nat (n div 2) \<noteq> 0" by (subst bit_len_nat.simps) simp
    moreover have "2 ^ (bit_len_nat (n div 2) - 1) \<le> n div 2" using 1 False by auto
    ultimately have "2 ^ bit_len_nat (n div 2) \<le> 2 * (n div 2)"
      by (cases "bit_len_nat (n div 2)") auto
    then show ?thesis using 1 by (subst bit_len_nat.simps) auto
  qed
qed

lemma bit_len_bounds:
  "0 < n \<Longrightarrow> 0 < bit_len n \<and> 2 ^ nat (bit_len n - 1) \<le> n \<and> n < 2 ^ nat (bit_len n)"
proof -
  assume n: "0 < n"
  define m where "m = nat n"
  have m: "0 < m" "n = int m" using n by (auto simp: m_def)
  have "0 < bit_len_nat m" using m by (subst bit_len_nat.simps) simp
  moreover have "int (2 ^ (bit_len_nat m - 1)) \<le> int m" using bit_len_nat_lower m by (simp del: of_nat_power)
  moreover have "int m < int (2 ^ bit_len_nat m)" using bit_len_nat_upper by (simp del: of_nat_power)
  ultimately show ?thesis by (simp add: bit_len_def m nat_diff_distrib')
qed

text \<open>\<open>n & (n - 1) == 0\<close>: a power of two (or zero).\<close>

definition is_pow2 :: "int \<Rightarrow> bool" where
  "is_pow2 n \<longleftrightarrow> 1 \<le> n \<and> n AND (n - 1) = 0"

lemma is_pow2_pow [simp]: "is_pow2 (2 ^ k)"
  by (simp add: is_pow2_def and_low_mask)

lemma pow2_of_is_pow2:
  assumes "is_pow2 n"
  shows "n = 2 ^ nat (bit_len n - 1)"
proof (rule ccontr)
  let ?k = "nat (bit_len n - 1)"
  assume ne: "n \<noteq> 2 ^ ?k"
  have n: "0 < n" and z: "n AND (n - 1) = 0" using assms by (auto simp: is_pow2_def)
  have b: "2 ^ ?k \<le> n" "n < 2 ^ Suc ?k"
    using bit_len_bounds [OF n] by (auto simp: nat_diff_distrib' Suc_nat_eq_nat_zadd1 [symmetric] simp flip: power_Suc)
  have "n - 2 ^ ?k < 2 ^ ?k" "0 < n - 2 ^ ?k" using b ne by auto
  then have "n div 2 ^ ?k = 1" "(n - 1) div 2 ^ ?k = 1"
    using b by (auto intro: int_div_pos_eq [where r = "n - 2 ^ ?k"] int_div_pos_eq [where r = "n - 1 - 2 ^ ?k"])
  then have "bit n ?k" "bit (n - 1) ?k" by (simp_all add: bit_iff_odd)
  then have "bit (n AND (n - 1)) ?k" by (simp add: bit_and_iff)
  with z show False by simp
qed

end
