(* ===== verification/Wire.thy ===== *)
theory Wire
  imports Prelude
begin

unbundle bit_operations_syntax

text \<open>
  The wire protocol's words (\<open>spark_transport/sircl/sparkring_sircl/protocol.py\<close>): the control words
  of the device command ring, op words, phase descriptors, the split of a payload over lanes and
  over ranks, and the flag-line index.  A raised \<open>ProtocolError\<close> holds the
  values its message formats.
\<close>

section \<open>Constants and errors\<close>

abbreviation (input) PACK_BYTES :: int where "PACK_BYTES \<equiv> 16"
abbreviation (input) SLOTS :: int where "SLOTS \<equiv> 2"
abbreviation (input) FLAG_STRIDE :: int where "FLAG_STRIDE \<equiv> 128"
abbreviation (input) FLAG_LINES :: int where "FLAG_LINES \<equiv> 4"
abbreviation (input) MAX_LANES :: int where "MAX_LANES \<equiv> 2"
abbreviation (input) MAX_DEVICES :: int where "MAX_DEVICES \<equiv> 4"
abbreviation (input) MAX_PHASES :: int where "MAX_PHASES \<equiv> 8"
abbreviation (input) SLOT_ALIGNMENT :: int where "SLOT_ALIGNMENT \<equiv> 4096"
abbreviation (input) MAX_WORLD :: int where "MAX_WORLD \<equiv> 16"
abbreviation (input) OP_SHIFT :: nat where "OP_SHIFT \<equiv> 30"
abbreviation (input) OP_BYTES_MASK :: int where "OP_BYTES_MASK \<equiv> 2 ^ OP_SHIFT - 1"
abbreviation (input) CTRL_WORDS :: int where "CTRL_WORDS \<equiv> FLAG_STRIDE div 4"

record Descriptor =
  dfirst :: int
  dend :: int
  dpeer :: int
  dnamespace :: int

section \<open>Control words\<close>

datatype Op = ONESHOT | TWOSHOT | DESCRIBED | SCATTER

fun op_code :: "Op \<Rightarrow> int" where
  "op_code ONESHOT = 0"
| "op_code TWOSHOT = 1"
| "op_code DESCRIBED = 2"
| "op_code SCATTER = 3"

text \<open>\<open>Op(code)\<close>: the enumeration's constructor, which raises for an unknown code.\<close>

definition Op_of :: "int \<Rightarrow> py_error + Op" where
  "Op_of code = (if code = 0 then Inr ONESHOT else if code = 1 then Inr TWOSHOT
    else if code = 2 then Inr DESCRIBED else if code = 3 then Inr SCATTER else Inl (ValueErr ''not a valid Op'' [code]))"

datatype Ctrl =
  DOORBELL | NBYTES | ERROR_SEQ | MISSING_PEER | OP_WORD | MISSING_LANE | WAIT_LIMIT_US
| ERROR_KIND | PHASE | DESC | ECHO_SEEN | ECHO_POSTED | LANE_CHECK

fun ctrl_word :: "Ctrl \<Rightarrow> int" where
  "ctrl_word DOORBELL = 0"
| "ctrl_word NBYTES = 1"
| "ctrl_word ERROR_SEQ = 2"
| "ctrl_word MISSING_PEER = 3"
| "ctrl_word OP_WORD = 4"
| "ctrl_word MISSING_LANE = 6"
| "ctrl_word WAIT_LIMIT_US = 7"
| "ctrl_word ERROR_KIND = 8"
| "ctrl_word PHASE = 9"
| "ctrl_word DESC = 17"
| "ctrl_word ECHO_SEEN = 28"
| "ctrl_word ECHO_POSTED = 29"
| "ctrl_word LANE_CHECK = 31"

datatype ErrorKind = SLOT_OP | CHAIN_CHUNK | CHAIN_SLOT

fun error_kind_code :: "ErrorKind \<Rightarrow> int" where
  "error_kind_code SLOT_OP = 0"
| "error_kind_code CHAIN_CHUNK = 1"
| "error_kind_code CHAIN_SLOT = 2"

definition phase_doorbell_word :: "int \<Rightarrow> py_error + int" where
  "phase_doorbell_word phase =
    (if \<not> (1 \<le> phase \<and> phase < MAX_PHASES) then Inl (ProtocolError ''no doorbell for this phase'' [phase])
     else Inr (ctrl_word PHASE + phase))"

definition descriptor_word :: "int \<Rightarrow> py_error + int" where
  "descriptor_word phase =
    (if \<not> (0 \<le> phase \<and> phase < MAX_PHASES) then Inl (ProtocolError ''no descriptor for this phase'' [phase])
     else Inr (ctrl_word DESC + phase))"

text \<open>The purposes a control word can have, with the word each one lives in.\<close>

datatype ctrl_use = Fixed Ctrl | OpWordOf int | DoorbellOf int | DescriptorOf int

fun ctrl_use_word :: "ctrl_use \<Rightarrow> py_error + int" where
  "ctrl_use_word (Fixed c) = (if c = PHASE \<or> c = DESC \<or> c = OP_WORD then Inl (ProtocolError ''an array base is not a fixed word'' []) else Inr (ctrl_word c))"
| "ctrl_use_word (OpWordOf slot) = (if slot = 0 \<or> slot = 1 then Inr (ctrl_word OP_WORD + slot) else Inl (ProtocolError ''no such slot'' [slot]))"
| "ctrl_use_word (DoorbellOf k) = phase_doorbell_word k"
| "ctrl_use_word (DescriptorOf k) = descriptor_word k"

lemma ctrl_word_inj: "ctrl_word c = ctrl_word c' \<Longrightarrow> c = c'"
  by (cases c; cases c'; simp)

text \<open>Where each kind of control word lies.\<close>

lemma ctrl_use_place:
  "ctrl_use_word u = Inr i \<Longrightarrow>
    (case u of Fixed c \<Rightarrow> i = ctrl_word c \<and> (0 \<le> i \<and> i < 4 \<or> 6 \<le> i \<and> i < 9 \<or> 28 \<le> i \<and> i < 32)
     | OpWordOf k \<Rightarrow> i = 4 + k \<and> 4 \<le> i \<and> i < 6
     | DoorbellOf k \<Rightarrow> i = 9 + k \<and> 9 < i \<and> i < 17
     | DescriptorOf k \<Rightarrow> i = 17 + k \<and> 17 \<le> i \<and> i < 25)"
proof (cases u)
  case (Fixed c)
  assume "ctrl_use_word u = Inr i"
  with Fixed show ?thesis by (cases c) auto
qed (auto simp: phase_doorbell_word_def descriptor_word_def split: if_splits)

section \<open>Op words\<close>

definition op_word :: "int \<Rightarrow> int \<Rightarrow> py_error + int" where
  "op_word op nbytes =
    bind_res (Op_of op) (\<lambda>o'.
      if \<not> (0 < nbytes \<and> nbytes \<le> OP_BYTES_MASK) \<or> nbytes mod PACK_BYTES \<noteq> 0
      then Inl (ProtocolError ''op bytes'' [nbytes])
      else Inr (push_bit OP_SHIFT (op_code o') OR nbytes))"

definition decode_op_word :: "int \<Rightarrow> py_error + (Op \<times> int)" where
  "decode_op_word word =
    (if \<not> (0 \<le> word \<and> word < push_bit 32 1) then Inl (ProtocolError ''op word'' [word])
     else bind_res (Op_of (drop_bit OP_SHIFT word)) (\<lambda>o'. Inr (o', word AND OP_BYTES_MASK)))"

lemma Op_of_code [simp]: "Op_of (op_code o') = Inr o'"
  by (cases o') (simp_all add: Op_of_def)

lemma Op_of_Inr: "Op_of c = Inr o' \<longleftrightarrow> c = op_code o'"
  by (cases o') (auto simp: Op_of_def)

lemma op_code_range: "0 \<le> op_code o' \<and> op_code o' \<le> 3"
  by (cases o') auto

lemma op_word_Inr:
  "op_word op nbytes = Inr w \<longleftrightarrow>
    (\<exists>o'. op = op_code o' \<and> 0 < nbytes \<and> nbytes < 2 ^ 30 \<and> nbytes mod 16 = 0 \<and> w = op_code o' * 2 ^ 30 + nbytes)"
  by (auto simp: op_word_def bind_res_Inr Op_of_Inr or_shift)

section \<open>Phase descriptors\<close>

definition Descriptor_word :: "Descriptor \<Rightarrow> int option \<Rightarrow> py_error + int" where
  "Descriptor_word d world =
    (if \<not> (0 \<le> dfirst d \<and> dfirst d \<le> dend d \<and> dend d \<le> 31 \<and> 0 \<le> dpeer d \<and> dpeer d \<le> 15
           \<and> (dnamespace d = 0 \<or> dnamespace d = 1))
     then Inl (ProtocolError ''descriptor'' [dfirst d, dend d, dpeer d, dnamespace d])
     else (case world of
        Some w \<Rightarrow> if dend d > w \<or> dpeer d \<ge> w then Inl (ProtocolError ''descriptor leaves the group'' [w])
          else Inr (push_bit 31 1 OR push_bit 14 (dnamespace d) OR push_bit 10 (dpeer d)
                    OR push_bit 5 (dend d) OR dfirst d)
      | None \<Rightarrow> Inr (push_bit 31 1 OR push_bit 14 (dnamespace d) OR push_bit 10 (dpeer d)
                    OR push_bit 5 (dend d) OR dfirst d)))"

definition descriptor :: "int \<Rightarrow> int \<Rightarrow> int \<Rightarrow> int \<Rightarrow> py_error + int" where
  "descriptor f e p ns = Descriptor_word \<lparr>dfirst = f, dend = e, dpeer = p, dnamespace = ns\<rparr> None"

definition decode_descriptor :: "int \<Rightarrow> Descriptor option" where
  "decode_descriptor word =
    (if drop_bit 31 word AND 1 = 0 then None
     else Some \<lparr>dfirst = word AND 31, dend = drop_bit 5 word AND 31,
       dpeer = drop_bit 10 word AND 15, dnamespace = drop_bit 14 word AND 1\<rparr>)"

text \<open>The word of a descriptor as a sum of its fields.\<close>

lemma descriptor_sum:
  assumes "0 \<le> f" "f \<le> 31" "0 \<le> e" "e \<le> 31" "0 \<le> p" "p \<le> 15" "0 \<le> n" "n \<le> (1::int)"
  shows "push_bit 31 1 OR push_bit 14 n OR push_bit 10 p OR push_bit 5 e OR f
    = 2 ^ 31 + n * 2 ^ 14 + p * 2 ^ 10 + e * 2 ^ 5 + f"
proof -
  have a: "push_bit 5 e OR f = e * 2 ^ 5 + f" using assms by (intro or_shift) auto
  have b: "push_bit 10 p OR (e * 2 ^ 5 + f) = p * 2 ^ 10 + (e * 2 ^ 5 + f)"
    using assms by (intro or_shift) auto
  have c: "push_bit 14 n OR (p * 2 ^ 10 + (e * 2 ^ 5 + f)) = n * 2 ^ 14 + (p * 2 ^ 10 + (e * 2 ^ 5 + f))"
    using assms by (intro or_shift) auto
  have d: "push_bit 31 1 OR (n * 2 ^ 14 + (p * 2 ^ 10 + (e * 2 ^ 5 + f)))
      = 1 * 2 ^ 31 + (n * 2 ^ 14 + (p * 2 ^ 10 + (e * 2 ^ 5 + f)))"
    using assms by (intro or_shift) auto
  show ?thesis by (simp only: or.assoc a b c d)
qed

lemma mask_31: "(w::int) AND 31 = w mod 32"
  using and_low_mask [of w 5] by simp

lemma mask_15: "(w::int) AND 15 = w mod 16"
  using and_low_mask [of w 4] by simp

lemma mask_1: "(w::int) AND 1 = w mod 2"
  by (rule and_one_eq)

lemma decode_descriptor_sum:
  assumes "0 \<le> f" "f \<le> 31" "0 \<le> e" "e \<le> 31" "0 \<le> p" "p \<le> 15" "0 \<le> n" "n \<le> (1::int)"
    and w: "w = 2 ^ 31 + n * 2 ^ 14 + p * 2 ^ 10 + e * 2 ^ 5 + f"
  shows "decode_descriptor w = Some \<lparr>dfirst = f, dend = e, dpeer = p, dnamespace = n\<rparr>"
proof -
  have w5: "w = ((2 ^ 21 + n * 2 ^ 4 + p) * 2 ^ 5 + e) * 2 ^ 5 + f" using w by simp
  have q5: "w div 2 ^ 5 = (2 ^ 21 + n * 2 ^ 4 + p) * 2 ^ 5 + e"
    unfolding w5 by (rule radix_div) (use assms in auto)
  have q10: "w div 2 ^ 10 = (2 ^ 17 + n) * 2 ^ 4 + p"
    using assms by (intro int_div_pos_eq [where r = "e * 2 ^ 5 + f"]) auto
  have q14: "w div 2 ^ 14 = 2 ^ 16 * 2 + n"
    using assms by (intro int_div_pos_eq [where r = "p * 2 ^ 10 + e * 2 ^ 5 + f"]) auto
  have v: "w div 2 ^ 31 = 1"
    using assms by (intro int_div_pos_eq [where r = "n * 2 ^ 14 + p * 2 ^ 10 + e * 2 ^ 5 + f"]) auto
  have valid: "drop_bit 31 w AND 1 = 1" by (simp only: shift_right v mask_1) simp
  have "w mod 2 ^ 5 = f" unfolding w5 by (rule radix_mod) (use assms in auto)
  then have "w AND 31 = f" by (simp add: mask_31)
  moreover have "w div 2 ^ 5 mod 2 ^ 5 = e" unfolding q5 by (rule radix_mod) (use assms in auto)
  then have "drop_bit 5 w AND 31 = e" by (simp add: shift_right mask_31)
  moreover have "w div 2 ^ 10 mod 2 ^ 4 = p" unfolding q10 by (rule radix_mod) (use assms in auto)
  then have "drop_bit 10 w AND 15 = p" by (simp add: shift_right mask_15)
  moreover have "w div 2 ^ 14 mod 2 = n" unfolding q14 by (rule radix_mod) (use assms in auto)
  then have "drop_bit 14 w AND 1 = n" by (simp add: shift_right mask_1)
  ultimately show ?thesis
    unfolding decode_descriptor_def valid by (simp only: one_neq_zero if_False)
qed

section \<open>Stripes and chunks\<close>

definition stripe :: "int \<Rightarrow> int \<Rightarrow> int \<Rightarrow> py_error + (int \<times> int)" where
  "stripe packs lanes lane =
    (if \<not> (1 \<le> lanes \<and> lanes \<le> MAX_LANES) \<or> \<not> (0 \<le> lane \<and> lane < lanes) \<or> packs < 0
     then Inl (ProtocolError ''stripe'' [packs, lanes, lane])
     else let base = packs div lanes; rest = packs mod lanes
       in Inr (lane * base + min lane rest, base + (if lane < rest then 1 else 0)))"

definition stripes :: "int \<Rightarrow> int \<Rightarrow> py_error + (int \<times> int) list" where
  "stripes packs lanes = map_res (stripe packs lanes) (py_range lanes)"

definition chunk :: "int \<Rightarrow> int \<Rightarrow> int \<Rightarrow> py_error + (int \<times> int)" where
  "chunk packs world index =
    (if \<not> (2 \<le> world \<and> world \<le> MAX_WORLD) \<or> \<not> (0 \<le> index \<and> index < world) \<or> packs < 0
     then Inl (ProtocolError ''chunk'' [index, packs, world])
     else let lo = index * packs div world; hi = (index + 1) * packs div world
       in Inr (lo, hi - lo))"

definition chunks :: "int \<Rightarrow> int \<Rightarrow> py_error + (int \<times> int) list" where
  "chunks packs world = map_res (chunk packs world) (py_range world)"

text \<open>The lists both functions return, for sizes they accept.\<close>

definition stripe_list :: "int \<times> int \<Rightarrow> (int \<times> int) list" where
  "stripe_list x = (let (packs, lanes) = x in
    map (\<lambda>lane. (lane * (packs div lanes) + min lane (packs mod lanes),
      packs div lanes + (if lane < packs mod lanes then 1 else 0))) (py_range lanes))"

definition stripe_ok :: "int \<times> int \<Rightarrow> bool" where
  "stripe_ok x \<longleftrightarrow> 0 \<le> fst x \<and> 1 \<le> snd x \<and> snd x \<le> MAX_LANES"

definition chunk_list :: "int \<times> int \<Rightarrow> (int \<times> int) list" where
  "chunk_list x = (let (packs, world) = x in
    map (\<lambda>j. (j * packs div world, (j + 1) * packs div world - j * packs div world)) (py_range world))"

definition chunk_ok :: "int \<times> int \<Rightarrow> bool" where
  "chunk_ok x \<longleftrightarrow> 0 \<le> fst x \<and> 2 \<le> snd x \<and> snd x \<le> MAX_WORLD"

lemma stripes_Inr: "stripe_ok (packs, lanes) \<Longrightarrow> stripes packs lanes = Inr (stripe_list (packs, lanes))"
  unfolding stripes_def stripe_list_def
  by (simp, rule map_res_total) (auto simp: stripe_def stripe_ok_def Let_def)

lemma chunks_Inr: "chunk_ok (packs, world) \<Longrightarrow> chunks packs world = Inr (chunk_list (packs, world))"
  unfolding chunks_def chunk_list_def
  by (simp, rule map_res_total) (auto simp: chunk_def chunk_ok_def Let_def)

interpretation stripe_plan: piece_plan stripe_ok stripe_list fst
proof
  fix x :: "int \<times> int"
  assume ok: "stripe_ok x"
  obtain c l where x: "x = (c, l)" by (cases x)
  from ok x have "1 \<le> l" "l \<le> 2" by (simp_all add: stripe_ok_def)
  then consider "l = 1" | "l = 2" by linarith
  then show "tiles 0 (stripe_list x) (fst x)"
  proof cases
    case 1
    with ok x show ?thesis by (simp add: stripe_list_def stripe_ok_def py_range_def)
  next
    case 2
    with ok x show ?thesis
      by (simp add: stripe_list_def stripe_ok_def py_range_def upto.simps) presburger
  qed
qed

interpretation chunk_plan: piece_plan chunk_ok chunk_list fst
proof
  fix x :: "int \<times> int"
  assume ok: "chunk_ok x"
  obtain p w where x: "x = (p, w)" by (cases x)
  have "tiles ((\<lambda>j. j * p div w) 0)
      (map (\<lambda>j. (j * p div w, (j + 1) * p div w - j * p div w)) (py_range w)) ((\<lambda>j. j * p div w) w)"
    using ok x by (intro tiles_steps) (auto simp: chunk_ok_def algebra_simps intro!: zdiv_mono1)
  then show "tiles 0 (chunk_list x) (fst x)" using ok x by (simp add: chunk_list_def chunk_ok_def)
qed

text \<open>Sizes differ by at most one pack.\<close>

lemma stripe_balanced:
  "stripe packs lanes lane = Inr (o', n) \<Longrightarrow> packs div lanes \<le> n \<and> n \<le> packs div lanes + 1"
  by (auto simp: stripe_def Let_def split: if_splits)

section \<open>Flag lines\<close>

definition flag_index :: "int \<Rightarrow> int \<Rightarrow> int \<Rightarrow> int \<Rightarrow> int \<Rightarrow> int \<Rightarrow> py_error + int" where
  "flag_index namespace source slot lane world lanes =
    (if \<not> (namespace = 0 \<or> namespace = 1) \<or> \<not> (0 \<le> source \<and> source < world) \<or> \<not> (slot = 0 \<or> slot = 1)
        \<or> \<not> (1 \<le> lanes \<and> lanes \<le> MAX_LANES) \<or> \<not> (0 \<le> lane \<and> lane < MAX_LANES)
     then Inl (ProtocolError ''flag line'' [namespace, source, slot, lane])
     else Inr (namespace * world * SLOTS * lanes + (source * SLOTS + slot) * lanes + lane))"

definition slot_of :: "int \<Rightarrow> int" where
  "slot_of seq = seq AND (SLOTS - 1)"

lemma slot_of_mod: "slot_of seq = seq mod 2"
  by (simp add: slot_of_def mask_1)

lemma flag_index_radix:
  "flag_index namespace source slot lane world lanes = Inr i \<Longrightarrow>
    i = ((namespace * world + source) * 2 + slot) * lanes + lane"
  by (auto simp: flag_index_def algebra_simps split: if_splits)

lemma flag_line_range:
  assumes "flag_index ns src slot lane world lanes = Inr i" "lane < lanes"
  shows "0 \<le> i \<and> i < world * SLOTS * FLAG_LINES"
proof -
  have a: "0 \<le> ns" "ns < 2" "0 \<le> src" "src < world" "0 \<le> slot" "slot < 2" "1 \<le> lanes" "lanes \<le> 2" "0 \<le> lane"
    using assms by (auto simp: flag_index_def split: if_splits)
  note i = flag_index_radix [OF assms(1)]
  have "ns * world + src < 2 * world" using a by (intro radix_bound) auto
  then have "(ns * world + src) * 2 + slot < 2 * world * 2" using a by (intro radix_bound) auto
  then have "i < 2 * world * 2 * lanes" unfolding i using a assms(2) by (intro radix_bound) auto
  also have "\<dots> \<le> 2 * world * 2 * 2" using a by (intro mult_left_mono) auto
  finally show ?thesis unfolding i using a by simp
qed

section \<open>Properties\<close>

text \<open>
  An op word carries its op code and byte packs through the 32-bit word: every word \<open>op_word\<close>
  builds fits 32 bits, and decoding it returns the same code and packs.
\<close>

theorem op_word_roundtrip:
  assumes "op_word op nbytes = Inr w"
  shows "0 \<le> w \<and> w < 2 ^ 32 \<and> (\<exists>o'. op = op_code o' \<and> decode_op_word w = Inr (o', nbytes))"
proof -
  from assms obtain o' where o: "op = op_code o'" "0 < nbytes" "nbytes < 2 ^ 30"
    and w: "w = op_code o' * 2 ^ 30 + nbytes" by (auto simp: op_word_Inr)
  have r: "0 \<le> op_code o'" "op_code o' \<le> 3" using op_code_range by blast+
  have b: "0 \<le> w" "w < 2 ^ 32" using o r w by auto
  have d: "w div 2 ^ 30 = op_code o'" using o w by (intro int_div_pos_eq [where r = nbytes]) auto
  have m: "w mod 2 ^ 30 = nbytes" using o w by simp
  have "decode_op_word w = Inr (o', nbytes)"
    using b d m and_low_mask [of w 30] by (simp add: decode_op_word_def shift_right)
  with b o show ?thesis by auto
qed

theorem op_word_roundtrip_witness:
  "0 \<le> (2147483664::int) \<and> (2147483664::int) < 2 ^ 32
    \<and> (\<exists>o'. (2::int) = op_code o' \<and> decode_op_word 2147483664 = Inr (o', 16))"
proof -
  have "op_word 2 16 = Inr 2147483664" by (simp add: op_word_Inr exI [of _ DESCRIBED])
  then show ?thesis by (rule op_word_roundtrip)
qed

text \<open>
  A phase descriptor survives its 32-bit encoding: decoding the word of a descriptor, with or
  without a group size to fit, returns the descriptor.
\<close>

theorem descriptor_roundtrip:
  assumes "Descriptor_word d world = Inr w"
  shows "decode_descriptor w = Some d \<and> 2 ^ 31 \<le> w \<and> w < 2 ^ 32"
proof -
  obtain f e p n where d: "d = \<lparr>dfirst = f, dend = e, dpeer = p, dnamespace = n\<rparr>" by (cases d)
  from assms have r: "0 \<le> f" "f \<le> e" "e \<le> 31" "0 \<le> p" "p \<le> 15" "0 \<le> n" "n \<le> 1"
    and w: "w = push_bit 31 1 OR push_bit 14 n OR push_bit 10 p OR push_bit 5 e OR f"
    by (auto simp: Descriptor_word_def d split: if_splits option.splits)
  from r w have s: "w = 2 ^ 31 + n * 2 ^ 14 + p * 2 ^ 10 + e * 2 ^ 5 + f"
    using descriptor_sum [of f e p n] by simp
  with r show ?thesis using decode_descriptor_sum [of f e p n w] by (auto simp: d)
qed

theorem descriptor_roundtrip_witness:
  "decode_descriptor 2147488896 = Some \<lparr>dfirst = 0, dend = 4, dpeer = 5, dnamespace = 0\<rparr>
    \<and> 2 ^ 31 \<le> (2147488896::int) \<and> (2147488896::int) < 2 ^ 32"
proof -
  have "Descriptor_word \<lparr>dfirst = 0, dend = 4, dpeer = 5, dnamespace = 0\<rparr> (Some 8) = Inr 2147488896"
    using descriptor_sum [of 0 4 5 0] by (simp add: Descriptor_word_def)
  then show ?thesis by (rule descriptor_roundtrip)
qed

text \<open>
  Two different purposes never share a control word, and every control word lies in the 128-byte
  control line (\<open>CTRL_WORDS\<close> words).
\<close>

theorem control_words_distinct:
  assumes "ctrl_use_word u = Inr i" "ctrl_use_word v = Inr j"
  shows "0 \<le> i \<and> i < CTRL_WORDS \<and> (i = j \<longleftrightarrow> u = v)"
proof -
  from ctrl_use_place [OF assms(1)] have "0 \<le> i \<and> i < CTRL_WORDS" by (cases u) auto
  moreover have "u = v" if "i = j"
    using ctrl_use_place [OF assms(1)] ctrl_use_place [OF assms(2)] that
    by (cases u; cases v) (auto dest: ctrl_word_inj)
  moreover have "i = j" if "u = v" using assms that by simp
  ultimately show ?thesis by blast
qed

theorem control_words_distinct_witness:
  "0 \<le> (16::int) \<and> (16::int) < CTRL_WORDS \<and> ((16::int) = 17 \<longleftrightarrow> DoorbellOf 7 = DescriptorOf 0)"
  by (rule control_words_distinct) (simp_all add: phase_doorbell_word_def descriptor_word_def)

text \<open>
  The stripes of a payload over its lanes carry every pack exactly once, in lane order, and differ
  by at most one pack.
\<close>

theorem stripes_carry_once:
  assumes "0 \<le> packs" "1 \<le> lanes" "lanes \<le> MAX_LANES"
  shows "\<exists>ps. stripes packs lanes = Inr ps \<and> int (length ps) = lanes \<and> tiles 0 ps packs
    \<and> (\<forall>p\<in>set ps. packs div lanes \<le> snd p \<and> snd p \<le> packs div lanes + 1)
    \<and> (\<forall>b. 0 \<le> b \<and> b < packs \<longrightarrow> (\<exists>!i. i < length ps \<and> b \<in> piece_set (ps ! i)))"
proof -
  have ok: "stripe_ok (packs, lanes)" using assms by (simp add: stripe_ok_def)
  have len: "int (length (stripe_list (packs, lanes))) = lanes" using assms by (simp add: stripe_list_def)
  have bal: "\<forall>p\<in>set (stripe_list (packs, lanes)). packs div lanes \<le> snd p \<and> snd p \<le> packs div lanes + 1"
    by (auto simp: stripe_list_def)
  show ?thesis
    using stripes_Inr [OF ok] stripe_plan.plan_tiles [OF ok] stripe_plan.bytes_once [OF ok] len bal by auto
qed

theorem stripes_carry_once_witness:
  "\<exists>ps. stripes 7 2 = Inr ps \<and> int (length ps) = 2 \<and> tiles 0 ps 7
    \<and> (\<forall>p\<in>set ps. 7 div 2 \<le> snd p \<and> snd p \<le> 7 div 2 + 1)
    \<and> (\<forall>b. 0 \<le> b \<and> b < 7 \<longrightarrow> (\<exists>!i. i < length ps \<and> b \<in> piece_set (ps ! i)))"
  by (rule stripes_carry_once) simp_all

text \<open>
  The chunks of a message over the group carry every pack exactly once, one chunk per rank, in
  rank order.
\<close>

theorem chunks_carry_once:
  assumes "0 \<le> packs" "2 \<le> world" "world \<le> MAX_WORLD"
  shows "\<exists>ps. chunks packs world = Inr ps \<and> int (length ps) = world \<and> tiles 0 ps packs
    \<and> (\<forall>b. 0 \<le> b \<and> b < packs \<longrightarrow> (\<exists>!i. i < length ps \<and> b \<in> piece_set (ps ! i)))"
proof -
  have ok: "chunk_ok (packs, world)" using assms by (simp add: chunk_ok_def)
  have len: "int (length (chunk_list (packs, world))) = world" using assms by (simp add: chunk_list_def)
  show ?thesis
    using chunks_Inr [OF ok] chunk_plan.plan_tiles [OF ok] chunk_plan.bytes_once [OF ok] len by auto
qed

theorem chunks_carry_once_witness:
  "\<exists>ps. chunks 10 4 = Inr ps \<and> int (length ps) = 4 \<and> tiles 0 ps 10
    \<and> (\<forall>b. 0 \<le> b \<and> b < 10 \<longrightarrow> (\<exists>!i. i < length ps \<and> b \<in> piece_set (ps ! i)))"
  by (rule chunks_carry_once) simp_all

text \<open>
  Two (namespace, source, slot, lane) tuples whose lanes are lanes of the session never share a
  flag line, and every flag line lies in the \<open>world * SLOTS * FLAG_LINES\<close> lines of the arena.
\<close>

theorem flag_lines_distinct:
  assumes "flag_index ns src slot lane world lanes = Inr i" "lane < lanes"
    and "flag_index ns' src' slot' lane' world lanes = Inr j" "lane' < lanes"
  shows "0 \<le> i \<and> i < world * SLOTS * FLAG_LINES \<and> (i = j \<longleftrightarrow> (ns, src, slot, lane) = (ns', src', slot', lane'))"
proof -
  have a: "0 \<le> ns" "ns < 2" "0 \<le> src" "src < world" "0 \<le> slot" "slot < 2" "1 \<le> lanes" "lanes \<le> 2" "0 \<le> lane"
    and b: "0 \<le> src'" "src' < world" "0 \<le> slot'" "slot' < 2" "0 \<le> lane'"
    using assms by (auto simp: flag_index_def split: if_splits)
  note i = flag_index_radix [OF assms(1)] and j = flag_index_radix [OF assms(3)]
  have "0 \<le> i \<and> i < world * SLOTS * FLAG_LINES" by (rule flag_line_range [OF assms(1,2)])
  moreover have "(ns, src, slot, lane) = (ns', src', slot', lane')" if "i = j"
  proof -
    have "(ns * world + src) * 2 + slot = (ns' * world + src') * 2 + slot' \<and> lane = lane'"
      using that a b assms(2,4) by (intro radix_unique [of _ lanes]) (auto simp: i j)
    then have 1: "lane = lane'" and "(ns * world + src) * 2 + slot = (ns' * world + src') * 2 + slot'" by auto
    then have "ns * world + src = ns' * world + src' \<and> slot = slot'"
      using a b by (intro radix_unique [of _ 2]) auto
    then have 2: "slot = slot'" and "ns * world + src = ns' * world + src'" by auto
    then have "ns = ns' \<and> src = src'" using a b by (intro radix_unique [of _ world]) auto
    with 1 2 show ?thesis by simp
  qed
  moreover have "i = j" if "(ns, src, slot, lane) = (ns', src', slot', lane')" using that i j by simp
  ultimately show ?thesis by blast
qed

theorem flag_lines_distinct_witness:
  "0 \<le> (9::int) \<and> (9::int) < 2 * SLOTS * FLAG_LINES
    \<and> ((9::int) = 3 \<longleftrightarrow> ((1::int), (0::int), (0::int), (1::int)) = (0, 0, 1, 1))"
  by (rule flag_lines_distinct [where lanes = 2]) (simp_all add: flag_index_def)

end
