(* ===== verification/Layouts.thy ===== *)
theory Layouts
  imports Wire
begin

unbundle bit_operations_syntax

text \<open>
  The byte layouts of a session (\<open>spark_transport/sircl/sparkring_sircl/protocol.py\<close>): the arena of
  receive slots, flag lines, send slots and the control line; the chain area and the link area behind
  it; and the device counter array.  Each layout is a record with the fields of the dataclass, its
  \<open>__post_init__\<close> checks are the constructor function, and its properties and methods are functions of
  the record.  That no two uses of an area share a byte is proved once for \<open>cell_area\<close>.
\<close>

section \<open>The arena\<close>

record ArenaLayout =
  a_world :: int
  a_slot_bytes :: int

definition ArenaLayout_new :: "int \<Rightarrow> int \<Rightarrow> py_error + ArenaLayout" where
  "ArenaLayout_new world slot_bytes =
    (if \<not> (2 \<le> world \<and> world \<le> MAX_WORLD) then Inl (ProtocolError ''a session has 2 to 16 ranks'' [world])
     else if slot_bytes \<le> 0 \<or> slot_bytes mod SLOT_ALIGNMENT \<noteq> 0 \<or> slot_bytes > push_bit 40 1
     then Inl (ProtocolError ''slot bytes'' [slot_bytes])
     else Inr \<lparr>a_world = world, a_slot_bytes = slot_bytes\<rparr>)"

definition arena_recv_off :: "ArenaLayout \<Rightarrow> int" where
  "arena_recv_off a = 0"

definition arena_flag_off :: "ArenaLayout \<Rightarrow> int" where
  "arena_flag_off a = a_world a * SLOTS * a_slot_bytes a"

definition arena_send_off :: "ArenaLayout \<Rightarrow> int" where
  "arena_send_off a = arena_flag_off a + a_world a * SLOTS * FLAG_LINES * FLAG_STRIDE"

definition arena_ctrl_off :: "ArenaLayout \<Rightarrow> int" where
  "arena_ctrl_off a = arena_send_off a + SLOTS * a_slot_bytes a"

definition arena_total_bytes :: "ArenaLayout \<Rightarrow> int" where
  "arena_total_bytes a = arena_ctrl_off a + FLAG_STRIDE"

definition arena_as_tuple :: "ArenaLayout \<Rightarrow> int list" where
  "arena_as_tuple a = [arena_recv_off a, arena_flag_off a, arena_send_off a, arena_ctrl_off a,
    arena_total_bytes a, FLAG_STRIDE, SLOTS]"

lemmas arena_defs = arena_recv_off_def arena_flag_off_def arena_send_off_def arena_ctrl_off_def
  arena_total_bytes_def

definition slot_bytes_for :: "int \<Rightarrow> int \<Rightarrow> int" where
  "slot_bytes_for capacity gather_capacity =
    (let largest = max capacity gather_capacity
     in (largest + SLOT_ALIGNMENT - 1) div SLOT_ALIGNMENT * SLOT_ALIGNMENT)"

definition multi_phase_available :: "int \<Rightarrow> int \<Rightarrow> bool" where
  "multi_phase_available lane_count slot_bytes \<longleftrightarrow> 2 * lane_count \<le> FLAG_LINES \<and> slot_bytes \<le> OP_BYTES_MASK"

section \<open>Uses of a stream area\<close>

text \<open>
  The chain area and the link area have the same kinds of cells per stream (a chain stream or a link):
  receive and send slots, a flag line per (slot, lane), a ready and a consumed word per slot, a sent
  word, a credit word, and on the control line the doorbell and two parameter slots of three words.
\<close>

datatype area_use =
  RecvSlot int int | SendSlot int int | FlagLine int int int | ReadyWord int int
| ConsumedWord int int | SentWord int | CreditWord int | Doorbell | ParamWords int

fun area_use_ok :: "int \<Rightarrow> int \<Rightarrow> area_use \<Rightarrow> bool" where
  "area_use_ok lanes slots (RecvSlot s k) = (0 \<le> s \<and> s < 4 \<and> 0 \<le> k \<and> k < slots)"
| "area_use_ok lanes slots (SendSlot s k) = (0 \<le> s \<and> s < 4 \<and> 0 \<le> k \<and> k < slots)"
| "area_use_ok lanes slots (FlagLine s k l) = (0 \<le> s \<and> s < 4 \<and> 0 \<le> k \<and> k < slots \<and> 0 \<le> l \<and> l < lanes)"
| "area_use_ok lanes slots (ReadyWord s k) = (0 \<le> s \<and> s < 4 \<and> 0 \<le> k \<and> k < slots)"
| "area_use_ok lanes slots (ConsumedWord s k) = (0 \<le> s \<and> s < 4 \<and> 0 \<le> k \<and> k < slots)"
| "area_use_ok lanes slots (SentWord s) = (0 \<le> s \<and> s < 4)"
| "area_use_ok lanes slots (CreditWord s) = (0 \<le> s \<and> s < 4)"
| "area_use_ok lanes slots Doorbell = True"
| "area_use_ok lanes slots (ParamWords p) = (p = 0 \<or> p = 1)"

text \<open>The region and the index of a use; ready and consumed words are 32 to a line.\<close>

fun area_cell :: "int \<Rightarrow> int \<Rightarrow> area_use \<Rightarrow> nat \<times> int" where
  "area_cell lanes slots (RecvSlot s k) = (0, s * slots + k)"
| "area_cell lanes slots (SendSlot s k) = (1, s * slots + k)"
| "area_cell lanes slots (FlagLine s k l) = (2, (s * slots + k) * lanes + l)"
| "area_cell lanes slots (ReadyWord s k) = (3, s * 32 + k)"
| "area_cell lanes slots (ConsumedWord s k) = (4, s * 32 + k)"
| "area_cell lanes slots (SentWord s) = (5, s)"
| "area_cell lanes slots (CreditWord s) = (6, s)"
| "area_cell lanes slots Doorbell = (7, 0)"
| "area_cell lanes slots (ParamWords p) = (8, p)"

definition area_regions :: "int \<Rightarrow> int \<Rightarrow> int \<Rightarrow> (int \<times> int \<times> int) list" where
  "area_regions lanes slots sb =
    (let ring = 4 * slots * sb; ready = 2 * ring + 4 * slots * lanes * 128
     in [(0, sb, 4 * slots), (ring, sb, 4 * slots), (2 * ring, 128, 4 * slots * lanes),
         (ready, 4, 128), (ready + 512, 4, 128), (ready + 1024, 128, 4), (ready + 1536, 128, 4),
         (ready + 2048, 4, 1), (ready + 2052, 16, 2)])"

lemma digits2: "0 \<le> (s::int) \<Longrightarrow> s < 4 \<Longrightarrow> 0 \<le> k \<Longrightarrow> k < n \<Longrightarrow> 0 \<le> s * n + k \<and> s * n + k < 4 * n"
  using radix_bound [of s 4 k n] by simp

lemma digits3:
  "0 \<le> (s::int) \<Longrightarrow> s < 4 \<Longrightarrow> 0 \<le> k \<Longrightarrow> k < n \<Longrightarrow> 0 \<le> l \<Longrightarrow> l < m \<Longrightarrow>
    0 \<le> (s * n + k) * m + l \<and> (s * n + k) * m + l < 4 * n * m"
  using radix_bound [of "s * n + k" "4 * n" l m] digits2 [of s k n] by simp

lemma area_cell_inj:
  assumes "area_use_ok lanes slots u" "area_use_ok lanes slots v" "slots \<le> 32"
    and "area_cell lanes slots u = area_cell lanes slots v"
  shows "u = v"
proof (cases u)
  case (FlagLine s k l)
  then obtain s' k' l' where v: "v = FlagLine s' k' l'" using assms(4) by (cases v) auto
  have "s * slots + k = s' * slots + k' \<and> l = l'"
    using assms FlagLine v by (intro radix_unique [of _ lanes]) auto
  moreover from this have "s = s' \<and> k = k'"
    using assms FlagLine v by (intro radix_unique [of _ slots]) auto
  ultimately show ?thesis using FlagLine v by simp
qed (use assms in \<open>cases v; auto dest: radix_unique [rotated 4]; fail\<close>)+

lemma area_stacked_regions:
  "0 \<le> lanes \<Longrightarrow> 0 \<le> slots \<Longrightarrow> 0 \<le> sb \<Longrightarrow>
    stacked 0 (area_regions lanes slots sb) (8 * slots * sb + 4 * slots * lanes * 128 + 2048 + 128)"
  by (simp add: area_regions_def Let_def)

text \<open>The length of a use: a slot, a flag line, a word, or three words.\<close>

fun area_len :: "int \<Rightarrow> area_use \<Rightarrow> int" where
  "area_len sb (RecvSlot s k) = sb"
| "area_len sb (SendSlot s k) = sb"
| "area_len sb (FlagLine s k l) = FLAG_STRIDE"
| "area_len sb (ReadyWord s k) = 4"
| "area_len sb (ConsumedWord s k) = 4"
| "area_len sb (SentWord s) = 4"
| "area_len sb (CreditWord s) = 4"
| "area_len sb Doorbell = 4"
| "area_len sb (ParamWords p) = 12"

lemma area_cell_ok:
  assumes "area_use_ok lanes slots u" "slots \<le> 32" "0 \<le> sb"
  shows "cell_ok (area_regions lanes slots sb) (area_cell lanes slots u) (area_len sb u)"
  using assms digits2 digits3
  by (cases u) (auto simp: cell_ok_def area_regions_def Let_def nth_Cons' numeral_eq_Suc)

section \<open>The chain area\<close>

record ChainLayout =
  chain_lanes :: int
  chain_slots :: int
  chain_slot_bytes :: int

abbreviation (input) CHAIN_STREAMS :: int where "CHAIN_STREAMS \<equiv> 4"
abbreviation (input) CHAIN_MAX_SLOTS :: int where "CHAIN_MAX_SLOTS \<equiv> 32"

definition ChainLayout_new :: "int \<Rightarrow> int \<Rightarrow> int \<Rightarrow> py_error + ChainLayout" where
  "ChainLayout_new lanes slots slot_bytes =
    (if \<not> (1 \<le> lanes \<and> lanes \<le> MAX_LANES) \<or> \<not> (2 \<le> slots \<and> slots \<le> CHAIN_MAX_SLOTS)
        \<or> slot_bytes \<le> 0 \<or> slot_bytes mod SLOT_ALIGNMENT \<noteq> 0 \<or> slot_bytes > push_bit 31 1
     then Inl (ProtocolError ''chain geometry'' [lanes, slots, slot_bytes])
     else Inr \<lparr>chain_lanes = lanes, chain_slots = slots, chain_slot_bytes = slot_bytes\<rparr>)"

definition chain_ring_bytes :: "ChainLayout \<Rightarrow> int" where
  "chain_ring_bytes c = CHAIN_STREAMS * chain_slots c * chain_slot_bytes c"

definition chain_recv_off :: "ChainLayout \<Rightarrow> int" where
  "chain_recv_off c = 0"

definition chain_send_off :: "ChainLayout \<Rightarrow> int" where
  "chain_send_off c = chain_ring_bytes c"

definition chain_rflag_off :: "ChainLayout \<Rightarrow> int" where
  "chain_rflag_off c = 2 * chain_ring_bytes c"

definition chain_ready_off :: "ChainLayout \<Rightarrow> int" where
  "chain_ready_off c = chain_rflag_off c + CHAIN_STREAMS * chain_slots c * chain_lanes c * FLAG_STRIDE"

definition chain_consumed_off :: "ChainLayout \<Rightarrow> int" where
  "chain_consumed_off c = chain_ready_off c + CHAIN_STREAMS * FLAG_STRIDE"

definition chain_sent_off :: "ChainLayout \<Rightarrow> int" where
  "chain_sent_off c = chain_consumed_off c + CHAIN_STREAMS * FLAG_STRIDE"

definition chain_credit_off :: "ChainLayout \<Rightarrow> int" where
  "chain_credit_off c = chain_sent_off c + CHAIN_STREAMS * FLAG_STRIDE"

definition chain_ctrl_off :: "ChainLayout \<Rightarrow> int" where
  "chain_ctrl_off c = chain_credit_off c + CHAIN_STREAMS * FLAG_STRIDE"

definition chain_total_bytes :: "ChainLayout \<Rightarrow> int" where
  "chain_total_bytes c = chain_ctrl_off c + FLAG_STRIDE"

definition chain_as_tuple :: "ChainLayout \<Rightarrow> int list" where
  "chain_as_tuple c = [chain_recv_off c, chain_send_off c, chain_rflag_off c, chain_ready_off c,
    chain_consumed_off c, chain_sent_off c, chain_credit_off c, chain_ctrl_off c, chain_total_bytes c]"

definition chain_recv_slot :: "ChainLayout \<Rightarrow> int \<Rightarrow> int \<Rightarrow> int" where
  "chain_recv_slot c stream slot = chain_recv_off c + (stream * chain_slots c + slot) * chain_slot_bytes c"

definition chain_send_slot :: "ChainLayout \<Rightarrow> int \<Rightarrow> int \<Rightarrow> int" where
  "chain_send_slot c stream slot = chain_send_off c + (stream * chain_slots c + slot) * chain_slot_bytes c"

definition chain_flag_line :: "ChainLayout \<Rightarrow> int \<Rightarrow> int \<Rightarrow> int \<Rightarrow> int" where
  "chain_flag_line c stream slot lane =
    chain_rflag_off c + ((stream * chain_slots c + slot) * chain_lanes c + lane) * FLAG_STRIDE"

definition chain_ready_word :: "ChainLayout \<Rightarrow> int \<Rightarrow> int \<Rightarrow> int" where
  "chain_ready_word c stream slot = chain_ready_off c + stream * FLAG_STRIDE + 4 * slot"

definition chain_consumed_word :: "ChainLayout \<Rightarrow> int \<Rightarrow> int \<Rightarrow> int" where
  "chain_consumed_word c stream slot = chain_consumed_off c + stream * FLAG_STRIDE + 4 * slot"

definition chain_sent_word :: "ChainLayout \<Rightarrow> int \<Rightarrow> int" where
  "chain_sent_word c stream = chain_sent_off c + stream * FLAG_STRIDE"

definition chain_credit_word :: "ChainLayout \<Rightarrow> int \<Rightarrow> int" where
  "chain_credit_word c stream = chain_credit_off c + stream * FLAG_STRIDE"

definition chain_param_word :: "ChainLayout \<Rightarrow> int \<Rightarrow> int" where
  "chain_param_word c slot = chain_ctrl_off c + 4 * (1 + 4 * slot)"

lemmas chain_defs = chain_ring_bytes_def chain_recv_off_def chain_send_off_def chain_rflag_off_def chain_ready_off_def
  chain_consumed_off_def chain_sent_off_def chain_credit_off_def chain_ctrl_off_def chain_total_bytes_def
  chain_recv_slot_def chain_send_slot_def chain_flag_line_def chain_ready_word_def chain_consumed_word_def
  chain_sent_word_def chain_credit_word_def chain_param_word_def

text \<open>The offset of each use, by the method that computes it (the doorbell is word 0 of the control line).\<close>

fun chain_offset_of :: "ChainLayout \<Rightarrow> area_use \<Rightarrow> int" where
  "chain_offset_of c (RecvSlot s k) = chain_recv_slot c s k"
| "chain_offset_of c (SendSlot s k) = chain_send_slot c s k"
| "chain_offset_of c (FlagLine s k l) = chain_flag_line c s k l"
| "chain_offset_of c (ReadyWord s k) = chain_ready_word c s k"
| "chain_offset_of c (ConsumedWord s k) = chain_consumed_word c s k"
| "chain_offset_of c (SentWord s) = chain_sent_word c s"
| "chain_offset_of c (CreditWord s) = chain_credit_word c s"
| "chain_offset_of c Doorbell = chain_ctrl_off c"
| "chain_offset_of c (ParamWords p) = chain_param_word c p"

definition chain_span :: "ChainLayout \<Rightarrow> area_use \<Rightarrow> int \<times> int" where
  "chain_span c u = (chain_offset_of c u, area_len (chain_slot_bytes c) u)"

definition chain_ok :: "ChainLayout \<Rightarrow> bool" where
  "chain_ok c \<longleftrightarrow> is_ok (ChainLayout_new (chain_lanes c) (chain_slots c) (chain_slot_bytes c))"

lemma chain_ok_bounds:
  "chain_ok c \<Longrightarrow> 1 \<le> chain_lanes c \<and> 2 \<le> chain_slots c \<and> chain_slots c \<le> 32 \<and> 0 < chain_slot_bytes c"
  by (auto simp: chain_ok_def ChainLayout_new_def split: if_splits)

lemma chain_new_ok: "ChainLayout_new lanes slots sb = Inr c \<Longrightarrow> chain_ok c \<and> chain_lanes c = lanes \<and> chain_slots c = slots"
  by (auto simp: chain_ok_def ChainLayout_new_def split: if_splits)

interpretation chain_area: cell_area chain_ok
    "\<lambda>c. area_regions (chain_lanes c) (chain_slots c) (chain_slot_bytes c)" chain_total_bytes
    "\<lambda>c. area_use_ok (chain_lanes c) (chain_slots c)" "\<lambda>c. area_cell (chain_lanes c) (chain_slots c)" chain_span
proof
  fix c :: ChainLayout and u v :: area_use
  assume ok: "chain_ok c"
  note b = chain_ok_bounds [OF ok]
  show "stacked 0 (area_regions (chain_lanes c) (chain_slots c) (chain_slot_bytes c)) (chain_total_bytes c)"
    using area_stacked_regions [of "chain_lanes c" "chain_slots c" "chain_slot_bytes c"] b
    by (simp add: chain_defs mult.assoc)
  assume u: "area_use_ok (chain_lanes c) (chain_slots c) u"
  show "cell_ok (area_regions (chain_lanes c) (chain_slots c) (chain_slot_bytes c))
      (area_cell (chain_lanes c) (chain_slots c) u) (snd (chain_span c u))"
    using area_cell_ok [OF u] b by (simp add: chain_span_def)
  show "fst (chain_span c u) = cell_at (area_regions (chain_lanes c) (chain_slots c) (chain_slot_bytes c))
      (area_cell (chain_lanes c) (chain_slots c) u)"
    by (cases u)
       (simp_all add: chain_span_def chain_defs cell_at_def area_regions_def Let_def numeral_eq_Suc algebra_simps)
  assume v: "area_use_ok (chain_lanes c) (chain_slots c) v"
    and "area_cell (chain_lanes c) (chain_slots c) u = area_cell (chain_lanes c) (chain_slots c) v"
  then show "u = v" using area_cell_inj [OF u v] b by simp
qed

definition chain_offset :: "int \<Rightarrow> int" where
  "chain_offset arena_total = cdiv arena_total SLOT_ALIGNMENT * SLOT_ALIGNMENT"

definition chain_halves :: "int \<Rightarrow> py_error + (int \<times> int)" where
  "chain_halves packs = (if packs < 0 then Inl (ProtocolError ''a message has a non-negative pack count'' [packs])
    else Inr (packs div 2, packs - packs div 2))"

definition chain_chunks :: "int \<Rightarrow> int \<Rightarrow> py_error + int" where
  "chain_chunks packs chunk_packs = (if chunk_packs \<le> 0
    then Inl (ProtocolError ''chain chunks hold at least one pack'' [chunk_packs]) else Inr (cdiv packs chunk_packs))"

section \<open>The link area\<close>

record LinkLayout =
  link_lanes :: int
  link_slots :: int
  link_slot_bytes :: int

abbreviation (input) LINKS :: int where "LINKS \<equiv> 4"
abbreviation (input) LINK_MAX_SLOTS :: int where "LINK_MAX_SLOTS \<equiv> 32"

definition LinkLayout_new :: "int \<Rightarrow> int \<Rightarrow> int \<Rightarrow> py_error + LinkLayout" where
  "LinkLayout_new lanes slots slot_bytes =
    (if \<not> (1 \<le> lanes \<and> lanes \<le> MAX_LANES) \<or> \<not> (2 \<le> slots \<and> slots \<le> LINK_MAX_SLOTS)
        \<or> slot_bytes \<le> 0 \<or> slot_bytes mod SLOT_ALIGNMENT \<noteq> 0 \<or> slot_bytes > push_bit 31 1
     then Inl (ProtocolError ''link geometry'' [lanes, slots, slot_bytes])
     else Inr \<lparr>link_lanes = lanes, link_slots = slots, link_slot_bytes = slot_bytes\<rparr>)"

definition link_ring_bytes :: "LinkLayout \<Rightarrow> int" where
  "link_ring_bytes c = LINKS * link_slots c * link_slot_bytes c"

definition link_recv_off :: "LinkLayout \<Rightarrow> int" where
  "link_recv_off c = 0"

definition link_own_off :: "LinkLayout \<Rightarrow> int" where
  "link_own_off c = link_ring_bytes c"

definition link_rflag_off :: "LinkLayout \<Rightarrow> int" where
  "link_rflag_off c = 2 * link_ring_bytes c"

definition link_ready_off :: "LinkLayout \<Rightarrow> int" where
  "link_ready_off c = link_rflag_off c + LINKS * link_slots c * link_lanes c * FLAG_STRIDE"

definition link_consumed_off :: "LinkLayout \<Rightarrow> int" where
  "link_consumed_off c = link_ready_off c + LINKS * FLAG_STRIDE"

definition link_sent_off :: "LinkLayout \<Rightarrow> int" where
  "link_sent_off c = link_consumed_off c + LINKS * FLAG_STRIDE"

definition link_credit_off :: "LinkLayout \<Rightarrow> int" where
  "link_credit_off c = link_sent_off c + LINKS * FLAG_STRIDE"

definition link_ctrl_off :: "LinkLayout \<Rightarrow> int" where
  "link_ctrl_off c = link_credit_off c + LINKS * FLAG_STRIDE"

definition link_total_bytes :: "LinkLayout \<Rightarrow> int" where
  "link_total_bytes c = link_ctrl_off c + FLAG_STRIDE"

definition link_as_tuple :: "LinkLayout \<Rightarrow> int list" where
  "link_as_tuple c = [link_recv_off c, link_own_off c, link_rflag_off c, link_ready_off c,
    link_consumed_off c, link_sent_off c, link_credit_off c, link_ctrl_off c, link_total_bytes c]"

definition link_recv_slot :: "LinkLayout \<Rightarrow> int \<Rightarrow> int \<Rightarrow> int" where
  "link_recv_slot c lnk slot = link_recv_off c + (lnk * link_slots c + slot) * link_slot_bytes c"

definition link_own_slot :: "LinkLayout \<Rightarrow> int \<Rightarrow> int \<Rightarrow> int" where
  "link_own_slot c lnk slot = link_own_off c + (lnk * link_slots c + slot) * link_slot_bytes c"

definition link_flag_line :: "LinkLayout \<Rightarrow> int \<Rightarrow> int \<Rightarrow> int \<Rightarrow> int" where
  "link_flag_line c lnk slot lane =
    link_rflag_off c + ((lnk * link_slots c + slot) * link_lanes c + lane) * FLAG_STRIDE"

definition link_ready_word :: "LinkLayout \<Rightarrow> int \<Rightarrow> int \<Rightarrow> int" where
  "link_ready_word c lnk slot = link_ready_off c + lnk * FLAG_STRIDE + 4 * slot"

definition link_consumed_word :: "LinkLayout \<Rightarrow> int \<Rightarrow> int \<Rightarrow> int" where
  "link_consumed_word c lnk slot = link_consumed_off c + lnk * FLAG_STRIDE + 4 * slot"

definition link_sent_word :: "LinkLayout \<Rightarrow> int \<Rightarrow> int" where
  "link_sent_word c lnk = link_sent_off c + lnk * FLAG_STRIDE"

definition link_credit_word :: "LinkLayout \<Rightarrow> int \<Rightarrow> int" where
  "link_credit_word c lnk = link_credit_off c + lnk * FLAG_STRIDE"

definition link_param_word :: "LinkLayout \<Rightarrow> int \<Rightarrow> int" where
  "link_param_word c slot = link_ctrl_off c + 4 * (1 + 4 * slot)"

lemmas link_defs = link_ring_bytes_def link_recv_off_def link_own_off_def link_rflag_off_def link_ready_off_def
  link_consumed_off_def link_sent_off_def link_credit_off_def link_ctrl_off_def link_total_bytes_def
  link_recv_slot_def link_own_slot_def link_flag_line_def link_ready_word_def link_consumed_word_def
  link_sent_word_def link_credit_word_def link_param_word_def

text \<open>The offset of each use, by the method that computes it (the doorbell is word 0 of the control line).\<close>

fun link_offset_of :: "LinkLayout \<Rightarrow> area_use \<Rightarrow> int" where
  "link_offset_of c (RecvSlot s k) = link_recv_slot c s k"
| "link_offset_of c (SendSlot s k) = link_own_slot c s k"
| "link_offset_of c (FlagLine s k l) = link_flag_line c s k l"
| "link_offset_of c (ReadyWord s k) = link_ready_word c s k"
| "link_offset_of c (ConsumedWord s k) = link_consumed_word c s k"
| "link_offset_of c (SentWord s) = link_sent_word c s"
| "link_offset_of c (CreditWord s) = link_credit_word c s"
| "link_offset_of c Doorbell = link_ctrl_off c"
| "link_offset_of c (ParamWords p) = link_param_word c p"

definition link_span :: "LinkLayout \<Rightarrow> area_use \<Rightarrow> int \<times> int" where
  "link_span c u = (link_offset_of c u, area_len (link_slot_bytes c) u)"

definition link_ok :: "LinkLayout \<Rightarrow> bool" where
  "link_ok c \<longleftrightarrow> is_ok (LinkLayout_new (link_lanes c) (link_slots c) (link_slot_bytes c))"

lemma link_ok_bounds:
  "link_ok c \<Longrightarrow> 1 \<le> link_lanes c \<and> 2 \<le> link_slots c \<and> link_slots c \<le> 32 \<and> 0 < link_slot_bytes c"
  by (auto simp: link_ok_def LinkLayout_new_def split: if_splits)

lemma link_new_ok: "LinkLayout_new lanes slots sb = Inr c \<Longrightarrow> link_ok c \<and> link_lanes c = lanes \<and> link_slots c = slots"
  by (auto simp: link_ok_def LinkLayout_new_def split: if_splits)

interpretation link_area: cell_area link_ok
    "\<lambda>c. area_regions (link_lanes c) (link_slots c) (link_slot_bytes c)" link_total_bytes
    "\<lambda>c. area_use_ok (link_lanes c) (link_slots c)" "\<lambda>c. area_cell (link_lanes c) (link_slots c)" link_span
proof
  fix c :: LinkLayout and u v :: area_use
  assume ok: "link_ok c"
  note b = link_ok_bounds [OF ok]
  show "stacked 0 (area_regions (link_lanes c) (link_slots c) (link_slot_bytes c)) (link_total_bytes c)"
    using area_stacked_regions [of "link_lanes c" "link_slots c" "link_slot_bytes c"] b
    by (simp add: link_defs mult.assoc)
  assume u: "area_use_ok (link_lanes c) (link_slots c) u"
  show "cell_ok (area_regions (link_lanes c) (link_slots c) (link_slot_bytes c))
      (area_cell (link_lanes c) (link_slots c) u) (snd (link_span c u))"
    using area_cell_ok [OF u] b by (simp add: link_span_def)
  show "fst (link_span c u) = cell_at (area_regions (link_lanes c) (link_slots c) (link_slot_bytes c))
      (area_cell (link_lanes c) (link_slots c) u)"
    by (cases u)
       (simp_all add: link_span_def link_defs cell_at_def area_regions_def Let_def numeral_eq_Suc algebra_simps)
  assume v: "area_use_ok (link_lanes c) (link_slots c) v"
    and "area_cell (link_lanes c) (link_slots c) u = area_cell (link_lanes c) (link_slots c) v"
  then show "u = v" using area_cell_inj [OF u v] b by simp
qed

section \<open>The device counter array\<close>

record CounterLayout =
  c_blocks :: int

definition CounterLayout_new :: "int \<Rightarrow> py_error + CounterLayout" where
  "CounterLayout_new blocks =
    (if blocks < 1 \<or> blocks AND (blocks - 1) \<noteq> 0
     then Inl (ProtocolError ''blocks must be a positive power of two'' [])
     else Inr \<lparr>c_blocks = blocks\<rparr>)"

definition counter_classes :: "CounterLayout \<Rightarrow> int" where
  "counter_classes c = bit_len (c_blocks c)"

definition counter_words :: "CounterLayout \<Rightarrow> int" where
  "counter_words c = 2 + (1 + MAX_PHASES) * counter_classes c"

definition counter_epoch_word :: int where
  "counter_epoch_word = 0"

definition grid_class :: "int \<Rightarrow> py_error + int" where
  "grid_class grid = (if grid < 1 \<or> grid AND (grid - 1) \<noteq> 0
    then Inl (ProtocolError ''grid sizes are powers of two'' [grid]) else Inr (bit_len grid - 1))"

definition counter_stage_word :: "CounterLayout \<Rightarrow> int \<Rightarrow> py_error + int" where
  "counter_stage_word c grid = bind_res (grid_class grid) (\<lambda>k. Inr (1 + k))"

definition counter_tail_word :: "CounterLayout \<Rightarrow> int \<Rightarrow> py_error + int" where
  "counter_tail_word c grid = bind_res (grid_class grid) (\<lambda>k. Inr (1 + counter_classes c + k))"

definition counter_poison_word :: "CounterLayout \<Rightarrow> int" where
  "counter_poison_word c = 1 + 2 * counter_classes c"

definition counter_phase_word :: "CounterLayout \<Rightarrow> int \<Rightarrow> int \<Rightarrow> py_error + int" where
  "counter_phase_word c grid phase =
    (if \<not> (1 \<le> phase \<and> phase < MAX_PHASES)
     then Inl (ProtocolError ''phase arrival counters exist for phases 1-7'' [])
     else bind_res (grid_class grid) (\<lambda>k.
       Inr (2 + 2 * counter_classes c + (phase - 1) * counter_classes c + k)))"

definition grid_blocks :: "int \<Rightarrow> int \<Rightarrow> int \<Rightarrow> int \<Rightarrow> int" where
  "grid_blocks size_packs threads max_blocks packs_per_thread =
    (let per_block = packs_per_thread * threads;
         required = max 1 ((size_packs + per_block - 1) div per_block)
     in min (push_bit (nat (bit_len (required - 1))) 1) max_blocks)"

text \<open>The uses of the counter array, and the word the code gives each.\<close>

datatype counter_use = Epoch | Stage int | Tail int | Poison | PhaseArrival int int

fun counter_word :: "CounterLayout \<Rightarrow> counter_use \<Rightarrow> py_error + int" where
  "counter_word c Epoch = Inr counter_epoch_word"
| "counter_word c (Stage g) = counter_stage_word c g"
| "counter_word c (Tail g) = counter_tail_word c g"
| "counter_word c Poison = Inr (counter_poison_word c)"
| "counter_word c (PhaseArrival g k) = counter_phase_word c g k"

fun counter_use_ok :: "CounterLayout \<Rightarrow> counter_use \<Rightarrow> bool" where
  "counter_use_ok c Epoch = True"
| "counter_use_ok c (Stage g) = (is_pow2 g \<and> g \<le> c_blocks c)"
| "counter_use_ok c (Tail g) = (is_pow2 g \<and> g \<le> c_blocks c)"
| "counter_use_ok c Poison = True"
| "counter_use_ok c (PhaseArrival g k) = (is_pow2 g \<and> g \<le> c_blocks c \<and> 1 \<le> k \<and> k < MAX_PHASES)"

fun counter_cell :: "CounterLayout \<Rightarrow> counter_use \<Rightarrow> nat \<times> int" where
  "counter_cell c Epoch = (0, 0)"
| "counter_cell c (Stage g) = (1, bit_len g - 1)"
| "counter_cell c (Tail g) = (2, bit_len g - 1)"
| "counter_cell c Poison = (3, 0)"
| "counter_cell c (PhaseArrival g k) = (4, (k - 1) * counter_classes c + (bit_len g - 1))"

definition counter_regions :: "CounterLayout \<Rightarrow> (int \<times> int \<times> int) list" where
  "counter_regions c = (let n = counter_classes c
    in [(0, 1, 1), (1, 1, n), (1 + n, 1, n), (1 + 2 * n, 1, 1), (2 + 2 * n, 1, 7 * n)])"

definition counter_span :: "CounterLayout \<Rightarrow> counter_use \<Rightarrow> int \<times> int" where
  "counter_span c u = (case counter_word c u of Inr w \<Rightarrow> (w, 1) | Inl _ \<Rightarrow> (- 1, 0))"

definition counter_ok :: "CounterLayout \<Rightarrow> bool" where
  "counter_ok c \<longleftrightarrow> is_ok (CounterLayout_new (c_blocks c))"

lemma grid_class_pow2: "is_pow2 g \<Longrightarrow> grid_class g = Inr (bit_len g - 1)"
  by (auto simp: grid_class_def is_pow2_def)

lemma bit_len_pow2_inj: "is_pow2 g \<Longrightarrow> is_pow2 h \<Longrightarrow> bit_len g = bit_len h \<Longrightarrow> g = h"
  by (metis pow2_of_is_pow2)

lemma bit_len_mono: "0 < g \<Longrightarrow> g \<le> h \<Longrightarrow> bit_len g \<le> bit_len h"
proof (rule ccontr)
  assume g: "0 < g" "g \<le> h" and "\<not> bit_len g \<le> bit_len h"
  then have "2 ^ nat (bit_len h) \<le> (2::int) ^ nat (bit_len g - 1)" by (intro power_increasing) auto
  with g bit_len_bounds [of g] bit_len_bounds [of h] show False by linarith
qed

lemma class_range: "is_pow2 g \<Longrightarrow> g \<le> b \<Longrightarrow> 0 \<le> bit_len g - 1 \<and> bit_len g - 1 < bit_len b"
  using bit_len_mono [of g b] bit_len_bounds [of g] by (simp add: is_pow2_def)

interpretation counter_area: cell_area counter_ok counter_regions counter_words counter_use_ok
    counter_cell counter_span
proof
  fix c :: CounterLayout and u v :: counter_use
  assume ok: "counter_ok c"
  have "0 \<le> counter_classes c" by (simp add: counter_classes_def bit_len_def)
  then show "stacked 0 (counter_regions c) (counter_words c)"
    by (simp add: counter_regions_def counter_words_def Let_def)
  assume u: "counter_use_ok c u"
  have arrival: "0 \<le> (k - 1) * counter_classes c + (bit_len g - 1) \<and> (k - 1) * counter_classes c + (bit_len g - 1) < 7 * counter_classes c"
    if "is_pow2 g" "g \<le> c_blocks c" "1 \<le> k" "k < 8" for g k
    using radix_bound [of "k - 1" 7 "bit_len g - 1" "counter_classes c"] class_range [OF that(1,2)] that
    by (simp add: counter_classes_def)
  show "cell_ok (counter_regions c) (counter_cell c u) (snd (counter_span c u))"
    using u class_range arrival
    by (cases u) (auto simp: cell_ok_def counter_regions_def Let_def numeral_eq_Suc counter_span_def
      counter_classes_def counter_stage_word_def counter_tail_word_def counter_phase_word_def grid_class_pow2)
  show "fst (counter_span c u) = cell_at (counter_regions c) (counter_cell c u)"
    using u by (cases u) (auto simp: cell_at_def counter_regions_def Let_def numeral_eq_Suc counter_span_def
      counter_epoch_word_def counter_poison_word_def
      counter_stage_word_def counter_tail_word_def counter_phase_word_def grid_class_pow2)
  assume v: "counter_use_ok c v" and e: "counter_cell c u = counter_cell c v"
  show "u = v"
  proof (cases u)
    case (PhaseArrival g k)
    then obtain h m where w: "v = PhaseArrival h m" using e by (cases v) auto
    have "k - 1 = m - 1 \<and> bit_len g - 1 = bit_len h - 1"
      using u v e PhaseArrival w class_range by (intro radix_unique [of _ "counter_classes c"]) (auto simp: counter_classes_def)
    then show ?thesis using u v PhaseArrival w bit_len_pow2_inj by auto
  qed (use u v e in \<open>cases v; auto dest: bit_len_pow2_inj; fail\<close>)+
qed

lemma push_bit_bit_len: "1 \<le> n \<Longrightarrow> n \<le> push_bit (nat (bit_len (n - 1))) (1::int)"
  using bit_len_bounds [of "n - 1"] by (cases "n = 1") (auto simp: push_bit_eq_mult)

lemma push_bit_bit_len_least: "1 < n \<Longrightarrow> push_bit (nat (bit_len (n - 1))) (1::int) < 2 * n"
proof -
  assume n: "1 < n"
  let ?k = "bit_len (n - 1)"
  have b: "0 < ?k" "2 ^ nat (?k - 1) \<le> n - 1" using bit_len_bounds [of "n - 1"] n by auto
  then have "nat ?k = Suc (nat (?k - 1))" by simp
  then have "(2::int) ^ nat ?k = 2 * 2 ^ nat (?k - 1)" by (simp only: power_Suc)
  with b show ?thesis by (simp add: push_bit_eq_mult)
qed

section \<open>Properties\<close>

text \<open>
  C37: in every chain area the dataclass accepts, two different uses (a receive or send slot, a flag line,
  a ready, consumed, sent or credit word, the doorbell, a parameter slot) never share a byte, and
  every use lies inside the area.
\<close>

theorem chain_uses_apart:
  assumes "ChainLayout_new lanes slots sb = Inr c"
    and "area_use_ok lanes slots u" "area_use_ok lanes slots v" "u \<noteq> v"
  shows "piece_set (chain_span c u) \<inter> piece_set (chain_span c v) = {}
    \<and> 0 \<le> fst (chain_span c u) \<and> fst (chain_span c u) + snd (chain_span c u) \<le> chain_total_bytes c"
  using chain_new_ok [OF assms(1)] assms chain_area.spans_apart [of c u v] chain_area.span_inside [of c u] by simp

theorem chain_uses_apart_witness:
  "piece_set (chain_span \<lparr>chain_lanes = 2, chain_slots = 4, chain_slot_bytes = 8192\<rparr> (FlagLine 1 3 1))
      \<inter> piece_set (chain_span \<lparr>chain_lanes = 2, chain_slots = 4, chain_slot_bytes = 8192\<rparr> (ReadyWord 0 0)) = {}
    \<and> 0 \<le> fst (chain_span \<lparr>chain_lanes = 2, chain_slots = 4, chain_slot_bytes = 8192\<rparr> (FlagLine 1 3 1))
    \<and> fst (chain_span \<lparr>chain_lanes = 2, chain_slots = 4, chain_slot_bytes = 8192\<rparr> (FlagLine 1 3 1))
      + snd (chain_span \<lparr>chain_lanes = 2, chain_slots = 4, chain_slot_bytes = 8192\<rparr> (FlagLine 1 3 1))
      \<le> chain_total_bytes \<lparr>chain_lanes = 2, chain_slots = 4, chain_slot_bytes = 8192\<rparr>"
  by (rule chain_uses_apart [where lanes = 2 and slots = 4 and sb = 8192]) (simp_all add: ChainLayout_new_def)

text \<open>
  The same for the link area: no two uses of it share a byte, and all of them lie inside it.
\<close>

theorem link_uses_apart:
  assumes "LinkLayout_new lanes slots sb = Inr c"
    and "area_use_ok lanes slots u" "area_use_ok lanes slots v" "u \<noteq> v"
  shows "piece_set (link_span c u) \<inter> piece_set (link_span c v) = {}
    \<and> 0 \<le> fst (link_span c u) \<and> fst (link_span c u) + snd (link_span c u) \<le> link_total_bytes c"
  using link_new_ok [OF assms(1)] assms link_area.spans_apart [of c u v] link_area.span_inside [of c u] by simp

theorem link_uses_apart_witness:
  "piece_set (link_span \<lparr>link_lanes = 1, link_slots = 16, link_slot_bytes = 4096\<rparr> (ConsumedWord 3 15))
      \<inter> piece_set (link_span \<lparr>link_lanes = 1, link_slots = 16, link_slot_bytes = 4096\<rparr> (SentWord 0)) = {}
    \<and> 0 \<le> fst (link_span \<lparr>link_lanes = 1, link_slots = 16, link_slot_bytes = 4096\<rparr> (ConsumedWord 3 15))
    \<and> fst (link_span \<lparr>link_lanes = 1, link_slots = 16, link_slot_bytes = 4096\<rparr> (ConsumedWord 3 15))
      + snd (link_span \<lparr>link_lanes = 1, link_slots = 16, link_slot_bytes = 4096\<rparr> (ConsumedWord 3 15))
      \<le> link_total_bytes \<lparr>link_lanes = 1, link_slots = 16, link_slot_bytes = 4096\<rparr>"
  by (rule link_uses_apart [where lanes = 1 and slots = 16 and sb = 4096]) (simp_all add: LinkLayout_new_def)

text \<open>
  The arena's four regions (receive slots, flag lines, send slots, control line) tile its bytes;
  the slot size chosen for two capacities holds both and is accepted; and every flag line the index
  function gives for a lane of the session lies inside the flag region.
\<close>

theorem arena_regions_tile:
  assumes world: "2 \<le> world" "world \<le> MAX_WORLD"
    and cap: "0 < capacity \<or> 0 < gather_capacity" "capacity \<le> 2 ^ 39" "gather_capacity \<le> 2 ^ 39"
    and flag: "flag_index ns src slot lane world lanes = Inr i" "lane < lanes"
  shows "\<exists>a. ArenaLayout_new world (slot_bytes_for capacity gather_capacity) = Inr a
    \<and> capacity \<le> a_slot_bytes a \<and> gather_capacity \<le> a_slot_bytes a
    \<and> tiles 0 [(arena_recv_off a, arena_flag_off a - arena_recv_off a),
        (arena_flag_off a, arena_send_off a - arena_flag_off a),
        (arena_send_off a, arena_ctrl_off a - arena_send_off a),
        (arena_ctrl_off a, arena_total_bytes a - arena_ctrl_off a)] (arena_total_bytes a)
    \<and> arena_flag_off a \<le> arena_flag_off a + i * FLAG_STRIDE
    \<and> arena_flag_off a + i * FLAG_STRIDE + FLAG_STRIDE \<le> arena_send_off a"
proof -
  let ?s = "slot_bytes_for capacity gather_capacity"
  define m where "m = max capacity gather_capacity"
  have s: "m \<le> ?s" "?s < m + 4096" "?s mod 4096 = 0"
    using cdiv_bounds [of 4096 m] by (auto simp: slot_bytes_for_def m_def [symmetric] Let_def)
  then have "ArenaLayout_new world ?s = Inr \<lparr>a_world = world, a_slot_bytes = ?s\<rparr>" (is "_ = Inr ?a")
    using world cap by (auto simp: ArenaLayout_new_def m_def)
  moreover have "0 \<le> i \<and> i < world * 2 * 4" using flag_line_range [OF flag] by simp
  moreover have "0 < ?s" using s cap by (auto simp: m_def)
  ultimately show ?thesis using s world by (intro exI [of _ ?a]) (auto simp: arena_defs m_def)
qed

theorem arena_regions_tile_witness:
  "\<exists>a. ArenaLayout_new 4 (slot_bytes_for 100000 5000) = Inr a
    \<and> 100000 \<le> a_slot_bytes a \<and> 5000 \<le> a_slot_bytes a
    \<and> tiles 0 [(arena_recv_off a, arena_flag_off a - arena_recv_off a),
        (arena_flag_off a, arena_send_off a - arena_flag_off a),
        (arena_send_off a, arena_ctrl_off a - arena_send_off a),
        (arena_ctrl_off a, arena_total_bytes a - arena_ctrl_off a)] (arena_total_bytes a)
    \<and> arena_flag_off a \<le> arena_flag_off a + 31 * FLAG_STRIDE
    \<and> arena_flag_off a + 31 * FLAG_STRIDE + FLAG_STRIDE \<le> arena_send_off a"
  by (rule arena_regions_tile [where ns = 1 and src = 3 and slot = 1 and lane = 1 and lanes = 2])
     (simp_all add: flag_index_def)

text \<open>
  The launch grid \<open>grid_blocks\<close> chooses under a power-of-two cap is a power of two up to the cap,
  covers the message unless it is the cap, is at most twice the blocks needed, and its arrival
  counters (stage, tail and every later phase) are words of the counter array that no other grid, no
  other phase and neither the epoch nor the poison word shares.
\<close>

theorem grid_counters_apart:
  assumes c: "CounterLayout_new max_blocks = Inr c"
    and pos: "1 \<le> threads" "1 \<le> ppt" "0 \<le> packs"
    and g: "g = grid_blocks packs threads max_blocks ppt"
    and u: "u = Stage g \<or> u = Tail g \<or> (\<exists>k. 1 \<le> k \<and> k < MAX_PHASES \<and> u = PhaseArrival g k)"
    and v: "counter_use_ok c v" "v \<noteq> u"
  shows "is_pow2 g \<and> g \<le> max_blocks \<and> (packs \<le> g * (ppt * threads) \<or> g = max_blocks)
    \<and> (g = 1 \<or> g * (ppt * threads) < 2 * (packs + ppt * threads))
    \<and> (\<exists>w w'. counter_word c u = Inr w \<and> counter_word c v = Inr w' \<and> w \<noteq> w'
        \<and> 0 \<le> w \<and> w < counter_words c)"
proof -
  define b where "b = ppt * threads"
  define r where "r = max 1 ((packs + b - 1) div b)"
  have b: "0 < b" using pos by (simp add: b_def)
  have cd: "(packs + b - 1) div b = cdiv packs b"
    using cdiv_add [OF b, of packs] by (simp add: algebra_simps)
  have r: "1 \<le> r" "packs \<le> r * b" "1 < r \<Longrightarrow> r * b < packs + b"
    using cdiv_bounds [OF b, of packs] cdiv_le_iff [OF b, of packs 0] cdiv_le_iff [OF b, of packs 1] pos(3) b
    by (auto simp: r_def cd max_def split: if_splits)
  have m: "is_pow2 max_blocks" and cb: "c_blocks c = max_blocks" and ok: "counter_ok c"
    using c by (auto simp: CounterLayout_new_def is_pow2_def counter_ok_def split: if_splits)
  define p where "p = push_bit (nat (bit_len (r - 1))) (1::int)"
  have gp: "g = min p max_blocks" by (simp add: g grid_blocks_def Let_def b_def r_def p_def)
  have p: "is_pow2 p" "r \<le> p" "1 < r \<Longrightarrow> p < 2 * r" "r = 1 \<Longrightarrow> p = 1"
    using r push_bit_bit_len [of r] push_bit_bit_len_least [of r]
    by (auto simp: p_def push_bit_eq_mult bit_len_def bit_len_nat.simps)
  have g2: "is_pow2 g" "g \<le> max_blocks" using gp p m by (auto simp: min_def)
  have "packs \<le> p * b" using r(2) p(2) b by (meson mult_right_mono order_trans less_imp_le)
  then have cover: "packs \<le> g * b \<or> g = max_blocks" using gp by (auto simp: min_def)
  have tight: "g * b < 2 * (packs + b)" if "1 < g"
  proof -
    from that gp p r have "1 < r" by (cases "r = 1") auto
    with p gp have "g < 2 * r" by auto
    then have "g * b < 2 * r * b" using b by simp
    also have "\<dots> < 2 * (packs + b)" using r(3) \<open>1 < r\<close> by simp
    finally show "g * b < 2 * (packs + b)" .
  qed
  have uo: "counter_use_ok c u" using u g2 cb by auto
  obtain w where w: "counter_word c u = Inr w"
    using u g2 by (auto simp: counter_stage_word_def counter_tail_word_def counter_phase_word_def grid_class_pow2)
  obtain w' where w': "counter_word c v = Inr w'"
    using v by (cases v) (auto simp: counter_stage_word_def counter_tail_word_def counter_phase_word_def grid_class_pow2)
  have "w \<noteq> w'" using counter_area.spans_apart [OF ok uo v(1)] v(2) w w'
    by (auto simp: counter_span_def piece_set_def)
  moreover have "0 \<le> w \<and> w < counter_words c"
    using counter_area.span_inside [OF ok uo] w by (auto simp: counter_span_def)
  moreover have "g = 1 \<or> 1 < g" using g2(1) by (auto simp: is_pow2_def)
  ultimately show ?thesis using g2 cover tight w w' by (auto simp: b_def)
qed

theorem grid_counters_apart_witness:
  "is_pow2 2 \<and> (2::int) \<le> 8 \<and> ((1000::int) \<le> 2 * (2 * 256) \<or> (2::int) = 8)
    \<and> ((2::int) = 1 \<or> (2::int) * (2 * 256) < 2 * (1000 + 2 * 256))
    \<and> (\<exists>w w'. counter_word \<lparr>c_blocks = 8\<rparr> (PhaseArrival 2 7) = Inr w
        \<and> counter_word \<lparr>c_blocks = 8\<rparr> (PhaseArrival 8 6) = Inr w' \<and> w \<noteq> w'
        \<and> 0 \<le> w \<and> w < counter_words \<lparr>c_blocks = 8\<rparr>)"
  by (rule grid_counters_apart [where max_blocks = 8 and threads = 256 and ppt = 2 and packs = 1000])
     (simp_all add: CounterLayout_new_def grid_blocks_def is_pow2_def)

end
