(* ===== verification/Links.thy ===== *)
theory Links
  imports Wire
begin

unbundle bit_operations_syntax

text \<open>
  The chain and ring collectives over the links (\<open>spark_transport/sircl/sparkring_sircl/protocol.py\<close>):
  the items a link carries per round at a rank, where an outbound item comes from, the pieces of a
  per-rank block, the staggered ring and its op word, and the slots and blocks a session gives the
  links.
\<close>

section \<open>Trace events and link ops\<close>

datatype TraceEvent =
  OP | READY | POSTED | DONE | CONSUMED | CREDIT_OUT | CREDIT_IN
| KERNEL_FLAG | KERNEL_READY | KERNEL_CONSUMED | KERNEL_SLOT | KERNEL_START | KERNEL_BELL

fun trace_event_code :: "TraceEvent \<Rightarrow> int" where
  "trace_event_code OP = 1"
| "trace_event_code READY = 2"
| "trace_event_code POSTED = 3"
| "trace_event_code DONE = 4"
| "trace_event_code CONSUMED = 5"
| "trace_event_code CREDIT_OUT = 6"
| "trace_event_code CREDIT_IN = 7"
| "trace_event_code KERNEL_FLAG = 16"
| "trace_event_code KERNEL_READY = 17"
| "trace_event_code KERNEL_CONSUMED = 18"
| "trace_event_code KERNEL_SLOT = 19"
| "trace_event_code KERNEL_START = 20"
| "trace_event_code KERNEL_BELL = 21"

datatype LinkOp = ALL_GATHER | REDUCE_SCATTER | RING_GATHER | RING_SCATTER | RING_REDUCE

fun link_op_code :: "LinkOp \<Rightarrow> int" where
  "link_op_code ALL_GATHER = 1"
| "link_op_code REDUCE_SCATTER = 2"
| "link_op_code RING_GATHER = 3"
| "link_op_code RING_SCATTER = 4"
| "link_op_code RING_REDUCE = 5"

abbreviation (input) LINK_COUNT :: int where "LINK_COUNT \<equiv> 4"

section \<open>Rounds\<close>

record LinkRounds =
  out :: int
  inbound :: int
  own :: int

definition rounds_forwards :: "LinkRounds \<Rightarrow> bool" where
  "rounds_forwards R \<longleftrightarrow> out R > own R"

definition rounds_forwarded :: "LinkRounds \<Rightarrow> int \<Rightarrow> bool" where
  "rounds_forwarded R r \<longleftrightarrow> r < out R - own R"

definition link_rounds :: "int \<Rightarrow> int \<Rightarrow> int \<Rightarrow> int \<Rightarrow> py_error + LinkRounds" where
  "link_rounds op world index link =
    (if world < 2 \<or> \<not> (0 \<le> index \<and> index < world) \<or> link \<notin> set (py_range LINK_COUNT)
     then Inl (ProtocolError ''link at chain index of a chain'' [link, index, world])
     else if op = link_op_code RING_GATHER \<or> op = link_op_code RING_SCATTER \<or> op = link_op_code RING_REDUCE then
       (let partials = (op = link_op_code RING_SCATTER \<or> op = link_op_code RING_REDUCE);
            results = (op = link_op_code RING_GATHER \<or> op = link_op_code RING_REDUCE)
        in if link = 2 \<and> partials \<or> link = 3 \<and> results
           then Inr \<lparr>out = world - 1, inbound = world - 1, own = (if link = 2 then world - 1 else 1)\<rparr>
           else Inr \<lparr>out = 0, inbound = 0, own = 0\<rparr>)
     else if (op = link_op_code ALL_GATHER \<or> op = link_op_code REDUCE_SCATTER) \<and> link \<ge> 2
       then Inr \<lparr>out = 0, inbound = 0, own = 0\<rparr>
     else
       (let j = (if link = 0 then index else world - 1 - index);
            sends = j < world - 1
        in if op = link_op_code ALL_GATHER
             then Inr \<lparr>out = (if sends then j + 1 else 0), inbound = j, own = (if sends then 1 else 0)\<rparr>
           else if op = link_op_code REDUCE_SCATTER
             then (let o' = (if sends then world - 1 - j else 0)
                   in Inr \<lparr>out = o', inbound = (if j > 0 then world - j else 0), own = o'\<rparr>)
           else Inl (ProtocolError ''unknown link op'' [op])))"

datatype item_source = OwnItem int | InItem int

definition link_source :: "LinkRounds \<Rightarrow> int \<Rightarrow> py_error + item_source" where
  "link_source R item =
    (if out R \<le> 0 then Inl (ProtocolError ''this link sends nothing at this rank'' [])
     else let piece = item div out R; r = item mod out R
       in if r < own R then Inr (OwnItem (piece * own R + r))
          else Inr (InItem (piece * inbound R + r - own R)))"

section \<open>Slots, rounds and op words of the ring\<close>

definition default_link_slots :: "int \<Rightarrow> int" where
  "default_link_slots world = min 32 (max 8 (2 * world))"

definition ring_stagger_slots :: "int \<Rightarrow> int \<Rightarrow> int" where
  "ring_stagger_slots world stagger = (if stagger \<noteq> 0 then stagger * (world - 1) + 2 else 2)"

definition ring_rounds :: "int \<Rightarrow> int \<Rightarrow> int \<Rightarrow> int" where
  "ring_rounds pieces world stagger = pieces + (world - 2) * stagger"

definition ring_op_word :: "int \<Rightarrow> int \<Rightarrow> int \<Rightarrow> bool \<Rightarrow> py_error + int" where
  "ring_op_word op stagger gather_stagger own_flags =
    (if \<not> (0 \<le> stagger \<and> stagger \<le> 4 \<and> 0 \<le> gather_stagger \<and> gather_stagger \<le> 4)
     then Inl (ProtocolError ''ring staggers: 0 to 4 rounds'' [stagger, gather_stagger])
     else if stagger \<noteq> 0 \<and> \<not> (op = link_op_code RING_SCATTER \<or> op = link_op_code RING_REDUCE)
     then Inl (ProtocolError ''no partials to stagger'' [op])
     else if gather_stagger \<noteq> 0 \<and> \<not> (op = link_op_code RING_GATHER \<or> op = link_op_code RING_REDUCE)
     then Inl (ProtocolError ''forwards no finished pieces'' [op])
     else Inr (op OR push_bit 8 stagger OR push_bit 16 gather_stagger
               OR (if own_flags then push_bit 24 1 else 0)))"

definition ring_forward_source :: "int \<Rightarrow> int \<Rightarrow> int \<Rightarrow> int option" where
  "ring_forward_source item world stagger =
    (let per_round = world - 1; round' = item div per_round; kind = item mod per_round
     in if kind = 0 \<or> round' < stagger then None
        else Some ((round' - stagger) * per_round + kind - 1))"

definition ring_partial :: "int \<Rightarrow> int \<Rightarrow> int \<Rightarrow> int \<Rightarrow> int option \<times> int" where
  "ring_partial item world pieces stagger =
    (let per_round = world - 1; round' = item div per_round; kind = item mod per_round;
         piece = round' - kind * stagger
     in (if 0 \<le> piece \<and> piece < pieces then Some piece else None, kind))"

section \<open>Pieces of a block\<close>

definition link_pieces :: "int \<Rightarrow> int \<Rightarrow> py_error + int" where
  "link_pieces nbytes piece_bytes =
    (if nbytes < 0 \<or> nbytes mod PACK_BYTES \<noteq> 0 \<or> piece_bytes \<le> 0 \<or> piece_bytes mod PACK_BYTES \<noteq> 0
     then Inl (ProtocolError ''link op bytes per rank in pieces'' [nbytes, piece_bytes])
     else Inr (cdiv nbytes piece_bytes))"

definition link_piece_bytes :: "int \<Rightarrow> int \<Rightarrow> int \<Rightarrow> int" where
  "link_piece_bytes nbytes piece_bytes piece = min piece_bytes (nbytes - piece * piece_bytes)"

section \<open>Blocks per link kernel\<close>

definition LINK_BLOCK_KERNELS :: "(string, string) dict" where
  "LINK_BLOCK_KERNELS = [(''ring_reduce'', ''reduce''), (''ring_gather'', ''gather''), (''ring_scatter'', ''scatter''),
    (''chain_gather'', ''gather''), (''chain_scatter'', ''scatter'')]"

definition LINK_BLOCKS_BY_SHAPE :: "(string, (string, int) dict) dict" where
  "LINK_BLOCKS_BY_SHAPE = [(''pair'', [(''ring_reduce'', 1), (''ring_gather'', 1), (''ring_scatter'', 1)]),
    (''path:4'', [(''ring_reduce'', 1), (''ring_gather'', 1)]),
    (''cycle:8'', [(''ring_reduce'', 1), (''ring_gather'', 1), (''ring_scatter'', 1)])]"

text \<open>\<open>a or b\<close> of an integer that is unset when 0.\<close>

definition or_else :: "int \<Rightarrow> int \<Rightarrow> int" where
  "or_else a b = (if a \<noteq> 0 then a else b)"

definition link_blocks :: "string option \<Rightarrow> int \<Rightarrow> int \<Rightarrow> (string, int) dict \<Rightarrow> py_error + (string, int) dict" where
  "link_blocks shape world overall own_of =
    (let shape_name = (case shape of Some s \<Rightarrow> if s \<noteq> [] then s else if world = 2 then ''pair'' else []
           | None \<Rightarrow> if world = 2 then ''pair'' else []);
         measured = dget_or LINK_BLOCKS_BY_SHAPE shape_name []
     in bind_res (map_res (\<lambda>v. guard (v = 0 \<or> 1 \<le> v \<and> v \<le> 64) (ValueErr ''must be 1 to 64'' [v]))
          (overall # map snd own_of))
        (\<lambda>_. Inr (map (\<lambda>(kernel, collective).
          (kernel, or_else (dget_or own_of collective 0) (or_else overall (dget_or measured kernel 4))))
          LINK_BLOCK_KERNELS)))"

section \<open>Items and their origin\<close>

text \<open>
  The neighbor an inbound link comes from: link 0 from the previous rank of the chain, link 1 from the
  next, links 2 and 3 from the previous rank of the ring.
\<close>

definition upstream :: "int \<Rightarrow> int \<Rightarrow> int \<Rightarrow> int" where
  "upstream world link j = (if link = 0 then j - 1 else if link = 1 then j + 1 else (j - 1) mod world)"

definition has_upstream :: "int \<Rightarrow> int \<Rightarrow> int \<Rightarrow> bool" where
  "has_upstream world link j \<longleftrightarrow> (link = 0 \<longrightarrow> 0 < j) \<and> (link = 1 \<longrightarrow> j < world - 1)"

text \<open>
  The rank that staged an outbound item and its own index there: the item is followed from rank to rank
  through \<open>link_source\<close>, an inbound item being the upstream rank's outbound item of the same index.
  The fuel bounds the ranks visited.
\<close>

fun origin :: "nat \<Rightarrow> int \<Rightarrow> int \<Rightarrow> int \<Rightarrow> int \<Rightarrow> int \<Rightarrow> (int \<times> int) option" where
  "origin 0 op world link j item = None"
| "origin (Suc n) op world link j item =
    (case link_rounds op world j link of
       Inl _ \<Rightarrow> None
     | Inr R \<Rightarrow> (case link_source R item of
         Inl _ \<Rightarrow> None
       | Inr (OwnItem k) \<Rightarrow> Some (j, k)
       | Inr (InItem k) \<Rightarrow> origin n op world link (upstream world link j) k))"

lemma link_rounds_gather_up:
  "2 \<le> world \<Longrightarrow> 0 \<le> j \<Longrightarrow> j < world - 1 \<Longrightarrow>
    link_rounds 1 world j 0 = Inr \<lparr>out = j + 1, inbound = j, own = 1\<rparr>"
  by (simp add: link_rounds_def Let_def)

lemma link_rounds_gather_down:
  "2 \<le> world \<Longrightarrow> 0 < j \<Longrightarrow> j < world \<Longrightarrow>
    link_rounds 1 world j 1 = Inr \<lparr>out = world - j, inbound = world - 1 - j, own = 1\<rparr>"
  by (simp add: link_rounds_def Let_def)

lemma link_rounds_ring_gather:
  "2 \<le> world \<Longrightarrow> 0 \<le> j \<Longrightarrow> j < world \<Longrightarrow> op = 3 \<or> op = 5 \<Longrightarrow>
    link_rounds op world j 3 = Inr \<lparr>out = world - 1, inbound = world - 1, own = 1\<rparr>"
  by (auto simp: link_rounds_def Let_def)

lemma link_source_own:
  "0 \<le> r \<Longrightarrow> r < out R \<Longrightarrow> r < own R \<Longrightarrow> link_source R (p * out R + r) = Inr (OwnItem (p * own R + r))"
  by (simp add: link_source_def Let_def)

lemma link_source_in:
  "0 \<le> r \<Longrightarrow> r < out R \<Longrightarrow> own R \<le> r \<Longrightarrow>
    link_source R (p * out R + r) = Inr (InItem (p * inbound R + (r - own R)))"
  by (simp add: link_source_def Let_def)

text \<open>
  Along any link whose ranks carry \<open>width j\<close> items per round, one of them their own, and forward the
  rest of what comes in, the item \<open>r\<close> of round \<open>p\<close> at rank \<open>j\<close> is piece \<open>p\<close> of the rank \<open>r\<close> places upstream.
\<close>

lemma origin_walk:
  assumes rounds: "\<And>j. live j \<Longrightarrow> link_rounds op world j link = Inr \<lparr>out = width j, inbound = width (up j) , own = 1\<rparr>
      \<or> width j = 1 \<and> (\<exists>i. link_rounds op world j link = Inr \<lparr>out = width j, inbound = i, own = 1\<rparr>)"
    and step: "\<And>j. live j \<Longrightarrow> 1 < width j \<Longrightarrow> live (up j) \<and> width j \<le> width (up j) + 1"
    and up: "\<And>j. live j \<Longrightarrow> upstream world link j = up j"
    and j: "live j" "0 \<le> r" "r < width j" "nat r < n"
  shows "origin n op world link j (p * width j + r) = Some ((up ^^ nat r) j, p)"
  using j
proof (induction n arbitrary: j r)
  case 0
  then show ?case by simp
next
  case (Suc n)
  show ?case
  proof (cases "r = 0")
    case True
    with Suc rounds [of j] show ?thesis
      using link_source_own [of r "\<lparr>out = width j, inbound = i, own = 1\<rparr>" p for i] by auto
  next
    case False
    with Suc have w: "1 < width j" by simp
    with rounds [OF Suc.prems(1)] have R: "link_rounds op world j link = Inr \<lparr>out = width j, inbound = width (up j), own = 1\<rparr>"
      by auto
    have "origin (Suc n) op world link j (p * width j + r) = origin n op world link (up j) (p * width (up j) + (r - 1))"
      using R False Suc link_source_in [of r "\<lparr>out = width j, inbound = width (up j), own = 1\<rparr>" p]
      by (simp add: up)
    also have "\<dots> = Some ((up ^^ nat (r - 1)) (up j), p)"
      using step [OF Suc.prems(1) w] Suc False by (intro Suc.IH) auto
    also have "(up ^^ nat (r - 1)) (up j) = (up ^^ nat r) j"
    proof -
      have "nat r = Suc (nat (r - 1))" using False Suc by simp
      then show ?thesis by (simp only: funpow_Suc_right o_apply)
    qed
    finally show ?thesis .
  qed
qed

lemma funpow_minus: "((\<lambda>j. j - 1) ^^ n) j = j - int n"
  by (induction n) auto

lemma funpow_plus: "((\<lambda>j. j + 1) ^^ n) j = j + int n"
  by (induction n) auto

lemma funpow_mod: "0 < w \<Longrightarrow> 0 \<le> j \<Longrightarrow> j < w \<Longrightarrow> ((\<lambda>j. (j - 1) mod w) ^^ n) j = (j - int n) mod w"
  by (induction n) (auto simp: mod_diff_left_eq algebra_simps)

lemma origin_up:
  assumes "2 \<le> world" "0 \<le> j" "j < world - 1" "0 \<le> r" "r \<le> j"
  shows "origin (nat world) 1 world 0 j (p * (j + 1) + r) = Some (j - r, p)"
proof -
  have "origin (nat world) 1 world 0 j (p * (j + 1) + r) = Some (((\<lambda>j. j - 1) ^^ nat r) j, p)"
    using assms link_rounds_gather_up
    by (intro origin_walk [where live = "\<lambda>j. 0 \<le> j \<and> j < world - 1" and width = "\<lambda>j. j + 1"])
       (auto simp: upstream_def)
  then show ?thesis using assms by (simp add: funpow_minus)
qed

lemma origin_down:
  assumes "2 \<le> world" "0 < j" "j < world" "0 \<le> r" "r < world - j"
  shows "origin (nat world) 1 world 1 j (p * (world - j) + r) = Some (j + r, p)"
proof -
  have "origin (nat world) 1 world 1 j (p * (world - j) + r) = Some (((\<lambda>j. j + 1) ^^ nat r) j, p)"
    using assms link_rounds_gather_down
    by (intro origin_walk [where live = "\<lambda>j. 0 < j \<and> j < world" and width = "\<lambda>j. world - j"])
       (auto simp: upstream_def algebra_simps)
  then show ?thesis using assms by (simp add: funpow_plus)
qed

lemma origin_ring:
  assumes "2 \<le> world" "op = 3 \<or> op = 5" "0 \<le> j" "j < world" "0 \<le> r" "r < world - 1"
  shows "origin (nat world) op world 3 j (p * (world - 1) + r) = Some ((j - r) mod world, p)"
proof -
  have "origin (nat world) op world 3 j (p * (world - 1) + r) = Some (((\<lambda>j. (j - 1) mod world) ^^ nat r) j, p)"
    using assms link_rounds_ring_gather
    by (intro origin_walk [where live = "\<lambda>j. 0 \<le> j \<and> j < world" and width = "\<lambda>j. world - 1"])
       (auto simp: upstream_def)
  then show ?thesis using assms by (simp add: funpow_mod)
qed

text \<open>An inbound item of a rank is the outbound item of the same index at the rank upstream.\<close>

definition inbound_count :: "int \<Rightarrow> int \<Rightarrow> int \<Rightarrow> int \<Rightarrow> int" where
  "inbound_count op world j link = (case link_rounds op world j link of Inr R \<Rightarrow> inbound R | Inl _ \<Rightarrow> 0)"

definition delivered :: "int \<Rightarrow> int \<Rightarrow> int \<Rightarrow> int \<Rightarrow> int \<Rightarrow> int \<Rightarrow> (int \<times> int) option" where
  "delivered op world link j p r =
    origin (nat world) op world link (upstream world link j) (p * inbound_count op world j link + r)"

lemma delivered_up:
  "2 \<le> world \<Longrightarrow> 0 \<le> j \<Longrightarrow> j < world \<Longrightarrow> inbound_count 1 world j 0 = j \<and>
    (0 \<le> r \<longrightarrow> r < j \<longrightarrow> delivered 1 world 0 j p r = Some (j - 1 - r, p))"
  using origin_up [of world "j - 1" r p]
  by (auto simp: delivered_def inbound_count_def upstream_def link_rounds_def Let_def)

lemma delivered_down:
  "2 \<le> world \<Longrightarrow> 0 \<le> j \<Longrightarrow> j < world \<Longrightarrow> inbound_count 1 world j 1 = world - 1 - j \<and>
    (0 \<le> r \<longrightarrow> r < world - 1 - j \<longrightarrow> delivered 1 world 1 j p r = Some (j + 1 + r, p))"
  using origin_down [of world "j + 1" r p]
  by (auto simp: delivered_def inbound_count_def upstream_def link_rounds_def Let_def algebra_simps)

lemma delivered_ring:
  "2 \<le> world \<Longrightarrow> 0 \<le> j \<Longrightarrow> j < world \<Longrightarrow> op = 3 \<or> op = 5 \<Longrightarrow> inbound_count op world j 3 = world - 1 \<and>
    (0 \<le> r \<longrightarrow> r < world - 1 \<longrightarrow> delivered op world 3 j p r = Some ((j - 1 - r) mod world, p))"
  using origin_ring [of world op "(j - 1) mod world" r p]
  by (auto simp: delivered_def inbound_count_def upstream_def link_rounds_def Let_def mod_diff_left_eq algebra_simps)

section \<open>Pieces and blocks\<close>

text \<open>The pieces of a block \<open>link_pieces\<close> counts and \<open>link_piece_bytes\<close> sizes, with their offsets.\<close>

definition link_piece_list :: "int \<times> int \<Rightarrow> (int \<times> int) list" where
  "link_piece_list x = (case link_pieces (fst x) (snd x) of Inl _ \<Rightarrow> []
    | Inr n \<Rightarrow> map (\<lambda>p. (p * snd x, link_piece_bytes (fst x) (snd x) p)) (py_range n))"

definition link_piece_ok :: "int \<times> int \<Rightarrow> bool" where
  "link_piece_ok x \<longleftrightarrow> is_ok (link_pieces (fst x) (snd x))"

interpretation link_piece_plan: piece_plan link_piece_ok link_piece_list fst
proof
  fix x :: "int \<times> int"
  assume "link_piece_ok x"
  then have "0 < snd x" "0 \<le> fst x" "link_pieces (fst x) (snd x) = Inr (cdiv (fst x) (snd x))"
    by (auto simp: link_piece_ok_def link_pieces_def split: if_splits)
  then show "tiles 0 (link_piece_list x) (fst x)"
    using tiles_cut_every [of "snd x" 0 "fst x"]
    by (simp add: link_piece_list_def link_piece_bytes_def cut_every_def py_range_step_def o_def)
qed

lemma or_else_range: "(a = 0 \<or> 1 \<le> a \<and> a \<le> 64) \<Longrightarrow> 1 \<le> b \<and> b \<le> 64 \<Longrightarrow> 1 \<le> or_else a b \<and> or_else a b \<le> 64"
  by (auto simp: or_else_def)

lemma measured_range:
  "1 \<le> dget_or (dget_or LINK_BLOCKS_BY_SHAPE shape []) kname 4
    \<and> dget_or (dget_or LINK_BLOCKS_BY_SHAPE shape []) kname 4 \<le> (64::int)"
  by (simp add: LINK_BLOCKS_BY_SHAPE_def dget_or_def)

section \<open>Properties\<close>

text \<open>
  C36: in the chain all-gather every rank receives, for each round \<open>p\<close> and each other rank, that rank's
  piece \<open>p\<close> exactly once over its two inbound links, when items are followed back through what each
  rank forwards.
\<close>

theorem chain_gather_delivers:
  assumes "2 \<le> world" "0 \<le> j" "j < world" "0 \<le> owner" "owner < world" "owner \<noteq> j"
  shows "\<exists>!(link, r). (link = 0 \<or> link = 1) \<and> 0 \<le> r \<and> r < inbound_count (link_op_code ALL_GATHER) world j link
    \<and> delivered (link_op_code ALL_GATHER) world link j p r = Some (owner, p)"
proof (rule ex1I [of _ "if owner < j then (0, j - 1 - owner) else (1, owner - j - 1)"])
  show "case if owner < j then (0, j - 1 - owner) else (1, owner - j - 1) of (link, r) \<Rightarrow>
      (link = 0 \<or> link = 1) \<and> 0 \<le> r \<and> r < inbound_count (link_op_code ALL_GATHER) world j link
    \<and> delivered (link_op_code ALL_GATHER) world link j p r = Some (owner, p)"
    using assms delivered_up [of world j] delivered_down [of world j] by auto
next
  fix x
  assume "case x of (link, r) \<Rightarrow>
      (link = 0 \<or> link = 1) \<and> 0 \<le> r \<and> r < inbound_count (link_op_code ALL_GATHER) world j link
    \<and> delivered (link_op_code ALL_GATHER) world link j p r = Some (owner, p)"
  then show "x = (if owner < j then (0, j - 1 - owner) else (1, owner - j - 1))"
    using assms delivered_up [of world j] delivered_down [of world j] by (cases x) auto
qed

theorem chain_gather_delivers_witness:
  "\<exists>!(link, r). (link = 0 \<or> link = 1) \<and> 0 \<le> r \<and> r < inbound_count (link_op_code ALL_GATHER) 4 2 link
    \<and> delivered (link_op_code ALL_GATHER) 4 link 2 5 r = Some (0, 5)"
  by (rule chain_gather_delivers) simp_all

text \<open>
  In the ring all-gather (and the gather half of the ring all-reduce, on link 3) every rank receives
  each other rank's piece \<open>p\<close> exactly once per round.
\<close>

theorem ring_gather_delivers:
  assumes "2 \<le> world" "0 \<le> j" "j < world" "0 \<le> owner" "owner < world" "owner \<noteq> j"
    and op: "op = link_op_code RING_GATHER \<or> op = link_op_code RING_REDUCE"
  shows "\<exists>!r. 0 \<le> r \<and> r < inbound_count op world j 3 \<and> delivered op world 3 j p r = Some (owner, p)"
proof -
  have "op = 3 \<or> op = 5" using op by simp
  note ring = delivered_ring [OF assms(1-3) this]
  have d: "\<And>r. 0 \<le> r \<Longrightarrow> r < world - 1 \<Longrightarrow> delivered op world 3 j p r = Some ((j - 1 - r) mod world, p)"
    and n: "inbound_count op world j 3 = world - 1"
    using ring by blast+
  have m: "(j - 1 - r) mod world = (if r \<le> j - 1 then j - 1 - r else j - 1 - r + world)" if "0 \<le> r" "r < world - 1" for r
    using that assms mod_add_self2 [of "j - 1 - r" world] mod_pos_pos_trivial [of "j - 1 - r + world" world]
    by (auto intro: mod_pos_pos_trivial)
  show ?thesis unfolding n
  proof (rule ex1I [of _ "if owner < j then j - 1 - owner else j - 1 - owner + world"])
    show "0 \<le> (if owner < j then j - 1 - owner else j - 1 - owner + world)
      \<and> (if owner < j then j - 1 - owner else j - 1 - owner + world) < world - 1
      \<and> delivered op world 3 j p (if owner < j then j - 1 - owner else j - 1 - owner + world) = Some (owner, p)"
      using assms by (auto simp: d m)
  next
    fix r
    assume "0 \<le> r \<and> r < world - 1 \<and> delivered op world 3 j p r = Some (owner, p)"
    then have r: "0 \<le> r" "r < world - 1" and "(j - 1 - r) mod world = owner" using d by auto
    then have "(if r \<le> j - 1 then j - 1 - r else j - 1 - r + world) = owner" using m by simp
    then show "r = (if owner < j then j - 1 - owner else j - 1 - owner + world)"
      using assms(2-6) r by (simp split: if_splits)
  qed
qed

theorem ring_gather_delivers_witness:
  "\<exists>!r. 0 \<le> r \<and> r < inbound_count 3 8 0 3 \<and> delivered 3 8 3 0 1 r = Some (5, 1)"
  by (rule ring_gather_delivers) simp_all

text \<open>
  The staggered ring carries every piece of every type exactly once in its \<open>ring_rounds\<close> rounds, and
  the item a relay forwards holds the same piece, one type earlier, arrived strictly before it, within
  the slots \<open>ring_stagger_slots\<close> reserves.
\<close>

theorem ring_stagger_pieces:
  assumes "2 \<le> world" "0 \<le> stagger" "0 \<le> piece" "piece < pieces" "0 \<le> kind" "kind < world - 1"
  shows "(\<exists>!item. 0 \<le> item \<and> item < ring_rounds pieces world stagger * (world - 1)
      \<and> ring_partial item world pieces stagger = (Some piece, kind))
    \<and> (\<forall>item. ring_partial item world pieces stagger = (Some piece, kind) \<and> 0 < kind \<longrightarrow>
        (\<exists>src. ring_forward_source item world stagger = Some src
          \<and> ring_partial src world pieces stagger = (Some piece, kind - 1)
          \<and> 0 \<le> src \<and> src < item \<and> item - src < ring_stagger_slots world stagger))"
proof (intro conjI ex1I allI impI)
  let ?w = "world - 1"
  let ?t = "piece + kind * stagger"
  have w: "0 < ?w" using assms by simp
  have "kind * stagger \<le> (world - 2) * stagger" using assms by (intro mult_right_mono) auto
  then have "?t < ring_rounds pieces world stagger" using assms by (simp add: ring_rounds_def)
  then have "?t * ?w + kind < ring_rounds pieces world stagger * ?w" using assms by (intro radix_bound) auto
  moreover have "0 \<le> kind * stagger" using assms by simp
  ultimately show "0 \<le> ?t * ?w + kind" "?t * ?w + kind < ring_rounds pieces world stagger * ?w"
    using assms by auto
  show "ring_partial (?t * ?w + kind) world pieces stagger = (Some piece, kind)"
    using assms by (simp add: ring_partial_def Let_def)
next
  fix item
  assume "0 \<le> item \<and> item < ring_rounds pieces world stagger * (world - 1)
      \<and> ring_partial item world pieces stagger = (Some piece, kind)"
  then have "item div (world - 1) - kind * stagger = piece" "item mod (world - 1) = kind"
    by (auto simp: ring_partial_def Let_def split: if_splits)
  then show "item = (piece + kind * stagger) * (world - 1) + kind"
    using div_mult_mod_eq [of item "world - 1"] by (metis diff_add_cancel)
next
  fix item
  let ?w = "world - 1"
  assume a: "ring_partial item world pieces stagger = (Some piece, kind) \<and> 0 < kind"
  then have t: "item div ?w = piece + kind * stagger" and k: "item mod ?w = kind"
    by (auto simp: ring_partial_def Let_def split: if_splits)
  have i: "item = (piece + kind * stagger) * ?w + kind"
    using div_mult_mod_eq [of item ?w] t k by simp
  have le: "stagger \<le> kind * stagger" using a assms by (cases "kind = 1") (auto simp: mult_le_cancel_right1)
  define src where "src = (piece + kind * stagger - stagger) * ?w + (kind - 1)"
  have s: "ring_forward_source item world stagger = Some src"
    using a le t k assms by (simp add: ring_forward_source_def Let_def src_def)
  have b: "0 \<le> kind - 1" "kind - 1 < ?w" using a assms by auto
  have "piece + kind * stagger - stagger = piece + (kind - 1) * stagger" by (simp add: algebra_simps)
  then have sd: "src div ?w = piece + (kind - 1) * stagger" "src mod ?w = kind - 1"
    unfolding src_def using radix_div [OF b] radix_mod [OF b] by metis+
  have "0 \<le> (piece + kind * stagger - stagger) * ?w" using le assms by simp
  then have "0 \<le> src" using a by (simp add: src_def)
  moreover have d: "item - src = stagger * ?w + 1" by (simp add: i src_def algebra_simps)
  moreover have "0 \<le> stagger * ?w" using assms by simp
  moreover have "ring_partial src world pieces stagger = (Some piece, kind - 1)"
    using sd assms by (simp add: ring_partial_def Let_def)
  moreover have "item - src < ring_stagger_slots world stagger" unfolding d by (simp add: ring_stagger_slots_def)
  ultimately show "\<exists>src. ring_forward_source item world stagger = Some src
          \<and> ring_partial src world pieces stagger = (Some piece, kind - 1)
          \<and> 0 \<le> src \<and> src < item \<and> item - src < ring_stagger_slots world stagger"
    using s by (intro exI [of _ src]) auto
qed

theorem ring_stagger_pieces_witness:
  "\<exists>!item. 0 \<le> item \<and> item < ring_rounds 6 4 2 * (4 - 1) \<and> ring_partial item 4 6 2 = (Some 3, 2)"
  using ring_stagger_pieces [of 4 2 3 6 2] by simp

text \<open>
  A ring op word keeps its four fields apart: the low byte is the op code, the next two bytes the
  staggers of links 2 and 3, bit 24 the own-flags bit, and the bits above are zero.
\<close>

theorem ring_op_word_fields:
  assumes "ring_op_word (link_op_code o') stagger gather_stagger own_flags = Inr w"
  shows "w AND 255 = link_op_code o' \<and> drop_bit 8 w AND 255 = stagger \<and> drop_bit 16 w AND 255 = gather_stagger
    \<and> drop_bit 24 w = (if own_flags then 1 else 0)"
proof -
  let ?f = "if own_flags then 1 else (0::int)"
  have c: "0 \<le> link_op_code o'" "link_op_code o' < 2 ^ 8" by (cases o'; simp)+
  have r: "0 \<le> stagger" "stagger \<le> 4" "0 \<le> gather_stagger" "gather_stagger \<le> 4"
    and w: "w = link_op_code o' OR push_bit 8 stagger OR push_bit 16 gather_stagger OR push_bit 24 ?f"
    using assms by (auto simp: ring_op_word_def split: if_splits)
  have "push_bit 8 stagger OR link_op_code o' = stagger * 2 ^ 8 + link_op_code o'" using c by (intro or_shift)
  moreover have "push_bit 16 gather_stagger OR (stagger * 2 ^ 8 + link_op_code o')
      = gather_stagger * 2 ^ 16 + (stagger * 2 ^ 8 + link_op_code o')" using c r by (intro or_shift) auto
  moreover have "push_bit 24 ?f OR (gather_stagger * 2 ^ 16 + (stagger * 2 ^ 8 + link_op_code o'))
      = ?f * 2 ^ 24 + (gather_stagger * 2 ^ 16 + (stagger * 2 ^ 8 + link_op_code o'))" using c r by (intro or_shift) auto
  moreover have "w = push_bit 24 ?f OR (push_bit 16 gather_stagger OR (push_bit 8 stagger OR link_op_code o'))"
    by (simp add: w or.assoc or.commute or.left_commute)
  ultimately have s: "w = ((?f * 2 ^ 8 + gather_stagger) * 2 ^ 8 + stagger) * 2 ^ 8 + link_op_code o'" by simp
  have d8: "w div 2 ^ 8 = (?f * 2 ^ 8 + gather_stagger) * 2 ^ 8 + stagger" and m8: "w mod 2 ^ 8 = link_op_code o'"
    unfolding s using c by (simp_all only: radix_div radix_mod)
  have d16: "w div 2 ^ 16 = ?f * 2 ^ 8 + gather_stagger" and d24: "w div 2 ^ 24 = ?f"
    using d8 r zdiv_zmult2_eq [of "2 ^ 8" w "2 ^ 8"] zdiv_zmult2_eq [of "2 ^ 16" w "2 ^ 8"] by simp_all
  have m: "x AND 255 = x mod 2 ^ 8" for x :: int using and_low_mask [of x 8] by simp
  have "0 \<le> stagger" "stagger < 2 ^ 8" "0 \<le> gather_stagger" "gather_stagger < 2 ^ 8" using r by auto
  then have "((?f * 2 ^ 8 + gather_stagger) * 2 ^ 8 + stagger) mod 2 ^ 8 = stagger"
    "(?f * 2 ^ 8 + gather_stagger) mod 2 ^ 8 = gather_stagger" by (simp_all only: radix_mod)
  then show ?thesis unfolding m shift_right d8 d16 d24 m8 by simp
qed

theorem ring_op_word_fields_witness:
  "(16909061::int) AND 255 = link_op_code RING_REDUCE \<and> drop_bit 8 16909061 AND 255 = (3::int)
    \<and> drop_bit 16 16909061 AND 255 = (2::int) \<and> drop_bit 24 (16909061::int) = (if True then 1 else 0)"
  by (rule ring_op_word_fields) (simp add: ring_op_word_def push_bit_eq_mult)

text \<open>
  Neighbors agree on every link: what a rank sends per round of a link op is what the rank
  downstream expects, for all five collectives and all four links; the last rank of a chain
  direction sends nothing and the first receives nothing.
\<close>

theorem link_rounds_match:
  assumes "2 \<le> world" "0 \<le> j" "j < world" "0 \<le> link" "link < LINK_COUNT"
    and op: "op = link_op_code o'"
  shows "\<exists>R. link_rounds op world j link = Inr R \<and> 0 \<le> own R \<and> own R \<le> out R \<and> out R - own R \<le> inbound R
    \<and> (if has_upstream world link j
       then \<exists>U. link_rounds op world (upstream world link j) link = Inr U \<and> inbound R = out U
       else inbound R = 0)"
proof -
  have up: "0 \<le> (j - 1) mod world" "(j - 1) mod world < world" using assms by auto
  from assms consider "link = 0" | "link = 1" | "link = 2 \<or> link = 3" by linarith
  then show ?thesis
  proof cases
    case 1
    then show ?thesis using assms(1-3) unfolding op
      by (cases o'; simp add: link_rounds_def Let_def upstream_def has_upstream_def)
  next
    case 2
    then show ?thesis using assms(1-3) unfolding op
      by (cases o'; simp add: link_rounds_def Let_def upstream_def has_upstream_def)
  next
    case 3
    then show ?thesis using assms(1-3) up unfolding op
      by (elim disjE; cases o'; simp add: link_rounds_def Let_def upstream_def has_upstream_def)
  qed
qed

theorem link_rounds_match_witness:
  "\<exists>R. link_rounds 2 4 1 1 = Inr R \<and> 0 \<le> own R \<and> own R \<le> out R \<and> out R - own R \<le> inbound R
    \<and> (if has_upstream 4 1 1
       then \<exists>U. link_rounds 2 4 (upstream 4 1 1) 1 = Inr U \<and> inbound R = out U
       else inbound R = 0)"
  by (rule link_rounds_match [where o' = REDUCE_SCATTER]) simp_all

text \<open>
  The pieces of a per-rank block carry each of its bytes exactly once, and every piece is a positive
  multiple of 16 bytes up to the piece size.
\<close>

theorem link_pieces_carry_once:
  assumes "link_pieces nbytes piece_bytes = Inr n" "0 \<le> b" "b < nbytes"
  shows "(\<exists>!p. 0 \<le> p \<and> p < n \<and> p * piece_bytes \<le> b \<and> b < p * piece_bytes + link_piece_bytes nbytes piece_bytes p)
    \<and> (\<forall>p. 0 \<le> p \<and> p < n \<longrightarrow> 0 < link_piece_bytes nbytes piece_bytes p
        \<and> link_piece_bytes nbytes piece_bytes p \<le> piece_bytes \<and> link_piece_bytes nbytes piece_bytes p mod PACK_BYTES = 0)"
proof
  have ok: "link_piece_ok (nbytes, piece_bytes)" using assms by (simp add: link_piece_ok_def)
  have l: "link_piece_list (nbytes, piece_bytes) = map (\<lambda>p. (p * piece_bytes, link_piece_bytes nbytes piece_bytes p)) (py_range n)"
    using assms by (simp add: link_piece_list_def)
  show "\<exists>!p. 0 \<le> p \<and> p < n \<and> p * piece_bytes \<le> b \<and> b < p * piece_bytes + link_piece_bytes nbytes piece_bytes p"
    using tiles_unique_range [OF link_piece_plan.plan_tiles [OF ok, unfolded l]] assms by simp
  have a: "nbytes mod 16 = 0" "piece_bytes mod 16 = 0" "0 < piece_bytes" and n: "n = cdiv nbytes piece_bytes"
    using assms(1) by (auto simp: link_pieces_def split: if_splits)
  show "\<forall>p. 0 \<le> p \<and> p < n \<longrightarrow> 0 < link_piece_bytes nbytes piece_bytes p
        \<and> link_piece_bytes nbytes piece_bytes p \<le> piece_bytes \<and> link_piece_bytes nbytes piece_bytes p mod PACK_BYTES = 0"
  proof (intro allI impI conjI)
    fix p
    assume p: "0 \<le> p \<and> p < n"
    then have "p * piece_bytes < nbytes" using cdiv_last a(3) n by blast
    then show "0 < link_piece_bytes nbytes piece_bytes p" using a by (simp add: link_piece_bytes_def)
    show "link_piece_bytes nbytes piece_bytes p \<le> piece_bytes" by (simp add: link_piece_bytes_def)
    have "(nbytes - p * piece_bytes) mod 16 = 0" using a by (simp add: mod_eq_0_iff_dvd)
    then show "link_piece_bytes nbytes piece_bytes p mod PACK_BYTES = 0" using a by (simp add: link_piece_bytes_def min_def)
  qed
qed

theorem link_pieces_carry_once_witness:
  "\<exists>!p. 0 \<le> p \<and> p < 4 \<and> p * 32 \<le> (100::int) \<and> (100::int) < p * 32 + link_piece_bytes 112 32 p"
  using link_pieces_carry_once [of 112 32 4 100] by (simp add: link_pieces_def cdiv_def)

text \<open>
  \<open>link_blocks\<close> gives every link kernel 1 to 64 blocks: the collective's own value first, then the
  session's overall value, then the measured value of the group's shape, then 4.
\<close>

theorem link_blocks_range:
  assumes "link_blocks shape world overall own_of = Inr blocks" "(kname, n) \<in> set blocks"
  shows "1 \<le> n \<and> n \<le> 64 \<and> (\<exists>collective. dget LINK_BLOCK_KERNELS kname = Some collective
    \<and> (dget_or own_of collective 0 \<noteq> 0 \<longrightarrow> n = dget_or own_of collective 0)
    \<and> (dget_or own_of collective 0 = 0 \<and> overall \<noteq> 0 \<longrightarrow> n = overall))"
proof -
  have r: "overall = 0 \<or> 1 \<le> overall \<and> overall \<le> 64"
    and s: "\<And>v. v \<in> set (map snd own_of) \<Longrightarrow> v = 0 \<or> 1 \<le> v \<and> v \<le> 64"
    using assms(1) by (auto simp: link_blocks_def bind_res_Inr Let_def map_res_Inr list_all2_Cons1)
      (auto simp: list_all2_conv_all_nth in_set_conv_nth)
  obtain m collective where c: "(kname, collective) \<in> set LINK_BLOCK_KERNELS"
    and n: "n = or_else (dget_or own_of collective 0) (or_else overall (dget_or m kname 4))"
    and m: "\<exists>shape. m = dget_or LINK_BLOCKS_BY_SHAPE shape []"
    using assms by (force simp: link_blocks_def bind_res_Inr Let_def)
  have ow: "dget_or own_of collective 0 = 0 \<or> 1 \<le> dget_or own_of collective 0 \<and> dget_or own_of collective 0 \<le> 64"
    using s by (force simp: dget_or_def split: option.splits dest!: map_of_SomeD)
  have "dget LINK_BLOCK_KERNELS kname = Some collective"
    using c by (intro dget_in) (auto simp: LINK_BLOCK_KERNELS_def)
  moreover have "1 \<le> n \<and> n \<le> 64"
    unfolding n using ow r m measured_range by (intro or_else_range) auto
  ultimately show ?thesis by (auto simp: n or_else_def)
qed

theorem link_blocks_range_witness:
  "1 \<le> (1::int) \<and> (1::int) \<le> 64 \<and> (\<exists>collective. dget LINK_BLOCK_KERNELS ''ring_gather'' = Some collective)"
  using link_blocks_range [of None 2 0 "[(''reduce'', 2)]"
      "[(''ring_reduce'', 2), (''ring_gather'', 1), (''ring_scatter'', 1), (''chain_gather'', 4), (''chain_scatter'', 4)]"
      "''ring_gather''" 1]
  by (auto simp: link_blocks_def Let_def LINK_BLOCK_KERNELS_def LINK_BLOCKS_BY_SHAPE_def dget_or_def or_else_def)

end
