(* ===== verification/Text.thy ===== *)
theory Text
  imports Prelude
begin

text \<open>
  The string operations the route maps, layouts and settings are parsed and printed with: Python's
  \<open>strip\<close>, \<open>split\<close>, \<open>partition\<close>, \<open>join\<close>, \<open>int\<close> and \<open>str\<close> on strings of Latin-1 characters, with the
  round trips that hold for them.
\<close>

text \<open>The environment variables a process reads.\<close>

type_synonym environ = "(string, string) dict"

section \<open>White space\<close>

definition is_space :: "char \<Rightarrow> bool" where
  "is_space c = (let n = (of_char c :: nat) in 9 \<le> n \<and> n \<le> 13 \<or> 28 \<le> n \<and> n \<le> 32 \<or> n = 133 \<or> n = 160)"

definition lstrip :: "string \<Rightarrow> string" where
  "lstrip s = dropWhile is_space s"

definition strip :: "string \<Rightarrow> string" where
  "strip s = rev (lstrip (rev (lstrip s)))"

text \<open>A string of characters none of which is white space is its own strip.\<close>

lemma strip_plain: "(\<And>c. c \<in> set s \<Longrightarrow> \<not> is_space c) \<Longrightarrow> strip s = s"
proof -
  assume a: "\<And>c. c \<in> set s \<Longrightarrow> \<not> is_space c"
  have "dropWhile is_space t = t" if "set t = set s" for t
    using a that by (cases t) auto
  then show ?thesis by (simp add: strip_def lstrip_def)
qed

section \<open>Split, partition and join\<close>

fun split_on :: "char \<Rightarrow> string \<Rightarrow> string list" where
  "split_on c [] = [[]]"
| "split_on c (x # xs) = (if x = c then [] # split_on c xs
    else (case split_on c xs of [] \<Rightarrow> [[x]] | w # ws \<Rightarrow> (x # w) # ws))"

text \<open>\<open>s.partition(c)\<close>: the head, whether the separator was found, and the tail.\<close>

definition partition_at :: "char \<Rightarrow> string \<Rightarrow> string \<times> bool \<times> string" where
  "partition_at c s = (takeWhile (\<lambda>x. x \<noteq> c) s, c \<in> set s, drop 1 (dropWhile (\<lambda>x. x \<noteq> c) s))"

fun join_with :: "char \<Rightarrow> string list \<Rightarrow> string" where
  "join_with c [] = []"
| "join_with c [w] = w"
| "join_with c (w # ws) = w @ c # join_with c ws"

lemma split_on_ne [simp]: "split_on c s \<noteq> []"
  by (induction s) (auto split: list.splits)

lemma split_on_plain: "c \<notin> set w \<Longrightarrow> split_on c w = [w]"
  by (induction w) auto

lemma split_on_append: "c \<notin> set w \<Longrightarrow> split_on c (w @ c # s) = w # split_on c s"
  by (induction w) auto

lemma split_join: "ws \<noteq> [] \<Longrightarrow> (\<And>w. w \<in> set ws \<Longrightarrow> c \<notin> set w) \<Longrightarrow> split_on c (join_with c ws) = ws"
proof (induction c ws rule: join_with.induct)
  case (3 c w v vs)
  then show ?case by (simp add: split_on_append)
qed (auto simp: split_on_plain)

lemma set_join: "set (join_with c ws) \<subseteq> insert c (\<Union>w\<in>set ws. set w)"
  by (induction c ws rule: join_with.induct) auto

lemma partition_at_append: "c \<notin> set w \<Longrightarrow> partition_at c (w @ c # s) = (w, True, s)"
  by (induction w) (auto simp: partition_at_def)

section \<open>Decimal numbers\<close>

definition is_digit :: "char \<Rightarrow> bool" where
  "is_digit c = (let n = (of_char c :: nat) in 48 \<le> n \<and> n \<le> 57)"

definition digit_val :: "char \<Rightarrow> nat" where
  "digit_val c = of_char c - 48"

definition digit_char :: "nat \<Rightarrow> char" where
  "digit_char n = char_of (48 + n :: nat)"

fun str_of_nat :: "nat \<Rightarrow> string" where
  "str_of_nat n = (if n < 10 then [digit_char n] else str_of_nat (n div 10) @ [digit_char (n mod 10)])"

declare str_of_nat.simps [simp del]

definition str_of_int :: "int \<Rightarrow> string" where
  "str_of_int i = (if i < 0 then CHR ''-'' # str_of_nat (nat (- i)) else str_of_nat (nat i))"

definition digits_val :: "string \<Rightarrow> nat" where
  "digits_val s = foldl (\<lambda>n c. 10 * n + digit_val c) 0 s"

text \<open>
  \<open>int(s)\<close>: optional white space around, an optional sign, digits with single underscores between
  them.  None is the \<open>ValueError\<close>.
\<close>

definition parse_digits :: "string \<Rightarrow> nat option" where
  "parse_digits s = (let groups = split_on (CHR ''_'') s in
    if list_all (\<lambda>g. g \<noteq> [] \<and> list_all is_digit g) groups then Some (digits_val (concat groups)) else None)"

definition py_int :: "string \<Rightarrow> int option" where
  "py_int text = (case strip text of
     [] \<Rightarrow> None
   | c # s \<Rightarrow> if c = CHR ''-'' then map_option (\<lambda>n. - int n) (parse_digits s)
       else if c = CHR ''+'' then map_option int (parse_digits s)
       else map_option int (parse_digits (c # s)))"

lemma digit_char_code: "n < 10 \<Longrightarrow> (of_char (digit_char n) :: nat) = 48 + n"
  by (simp add: digit_char_def)

lemma digit_val_char [simp]: "n < 10 \<Longrightarrow> digit_val (digit_char n) = n"
  by (simp add: digit_val_def digit_char_code)

lemma is_digit_char [simp]: "n < 10 \<Longrightarrow> is_digit (digit_char n)"
  by (simp add: is_digit_def digit_char_code)

lemma str_of_nat_digits: "c \<in> set (str_of_nat n) \<Longrightarrow> is_digit c"
proof (induction n rule: str_of_nat.induct)
  case (1 n)
  then show ?case by (subst (asm) str_of_nat.simps) (auto split: if_splits)
qed

lemma str_of_nat_ne [simp]: "str_of_nat n \<noteq> []"
  by (subst str_of_nat.simps) simp

lemma digits_val_str [simp]: "digits_val (str_of_nat n) = n"
proof (induction n rule: str_of_nat.induct)
  case (1 n)
  then show ?case by (subst str_of_nat.simps) (auto simp: digits_val_def)
qed

lemma is_digit_facts: "is_digit c \<Longrightarrow> \<not> is_space c \<and> c \<noteq> CHR ''_'' \<and> c \<noteq> CHR ''-'' \<and> c \<noteq> CHR ''+''
    \<and> c \<noteq> CHR '','' \<and> c \<noteq> CHR ''='' \<and> c \<noteq> CHR ''/'' \<and> c \<noteq> CHR ''.''"
proof -
  assume d: "is_digit c"
  define n where "n = (of_char c :: nat)"
  have n: "48 \<le> n" "n \<le> 57" using d by (simp_all add: is_digit_def n_def Let_def)
  have "\<not> is_space c" using n unfolding is_space_def n_def [symmetric] Let_def by simp
  moreover have "c \<noteq> d'" if "(of_char d' :: nat) < 48 \<or> 57 < (of_char d' :: nat)" for d' using that n by (auto simp: n_def)
  ultimately show ?thesis by simp
qed

lemma parse_digits_str [simp]: "parse_digits (str_of_nat n) = Some n"
proof -
  have "CHR ''_'' \<notin> set (str_of_nat n)" using str_of_nat_digits is_digit_facts by blast
  moreover have "list_all is_digit (str_of_nat n)" using str_of_nat_digits by (simp add: list_all_iff)
  ultimately show ?thesis by (simp add: parse_digits_def split_on_plain)
qed

lemma str_of_int_plain: "c \<in> set (str_of_int i) \<Longrightarrow> is_digit c \<or> c = CHR ''-''"
  by (auto simp: str_of_int_def str_of_nat_digits split: if_splits)

lemma minus_not_space: "\<not> is_space (CHR ''-'')"
  by (simp add: is_space_def)

theorem py_int_str [simp]: "py_int (str_of_int i) = Some i"
proof -
  have s: "strip (str_of_int i) = str_of_int i"
    by (rule strip_plain) (use str_of_int_plain is_digit_facts minus_not_space in blast)
  show ?thesis
  proof (cases "i < 0")
    case True
    then show ?thesis using s by (simp add: py_int_def str_of_int_def)
  next
    case False
    then obtain c t where t: "str_of_nat (nat i) = c # t" by (cases "str_of_nat (nat i)") auto
    then have "is_digit c" using str_of_nat_digits by (metis list.set_intros(1))
    moreover have "parse_digits (c # t) = Some (nat i)" using t by (metis parse_digits_str)
    ultimately show ?thesis using False s t is_digit_facts by (simp add: py_int_def str_of_int_def)
  qed
qed

end
