(* ===== verification/Fabric.thy ===== *)
theory Fabric
  imports Text
begin

text \<open>
  Fabrics (\<open>spark_transport/sircl/sparkring_sircl/routes.py\<close>): the functions of a Spark's network
  card, cables, crossing a cable, every shortest path between two positions (breadth first from the
  target, then all descents), the walk a relay chain follows, and the layout of a session.
\<close>

section \<open>Roles\<close>

record Role =
  role_name :: string
  role_device :: string
  role_netdev :: string
  role_port :: int
  role_secondary :: bool

definition role_label :: "Role \<Rightarrow> string" where
  "role_label r = map (\<lambda>c. if c = CHR ''_'' then CHR ''-'' else c) (role_name r)"

definition DEFAULT_ROLES :: "Role list" where
  "DEFAULT_ROLES =
    [\<lparr>role_name = ''cw_primary'', role_device = ''rocep1s0f0'', role_netdev = ''enp1s0f0np0'', role_port = 0, role_secondary = False\<rparr>,
     \<lparr>role_name = ''cw_secondary'', role_device = ''roceP2p1s0f0'', role_netdev = ''enP2p1s0f0np0'', role_port = 0, role_secondary = True\<rparr>,
     \<lparr>role_name = ''ccw_primary'', role_device = ''rocep1s0f1'', role_netdev = ''enp1s0f1np1'', role_port = 1, role_secondary = False\<rparr>,
     \<lparr>role_name = ''ccw_secondary'', role_device = ''roceP2p1s0f1'', role_netdev = ''enP2p1s0f1np1'', role_port = 1, role_secondary = True\<rparr>]"

text \<open>
  The module reads \<open>ROLES\<close> once at import; here it is an argument \<open>R\<close>.  \<open>names\<close> is the optional map
  \<open>roles\<close> of device names to roles that the checks take.
\<close>

type_synonym role_names = "(string, Role) dict option"

definition role_at :: "Role list \<Rightarrow> int \<Rightarrow> bool \<Rightarrow> py_error + Role" where
  "role_at R port secondary = (case find (\<lambda>r. role_port r = port \<and> role_secondary r = secondary) R of
     Some r \<Rightarrow> Inr r | None \<Rightarrow> Inl (RouteError ''no function on port'' [port]))"

text \<open>\<open>_BY_DEVICE\<close> is a dictionary built in order, so a later role of the same device wins.\<close>

definition role_of :: "Role list \<Rightarrow> role_names \<Rightarrow> string \<Rightarrow> Role option" where
  "role_of R names device =
    (case (case names of None \<Rightarrow> None | Some m \<Rightarrow> dget m device) of
       Some r \<Rightarrow> Some r
     | None \<Rightarrow> find (\<lambda>r. role_device r = device) (rev R))"

text \<open>
  The role table of a fabric: the four functions in the order of \<open>DEFAULT_ROLES\<close>, under non-empty
  and different device names.
\<close>

definition roles_ok :: "Role list \<Rightarrow> bool" where
  "roles_ok R \<longleftrightarrow> map (\<lambda>r. (role_port r, role_secondary r)) R = [(0, False), (0, True), (1, False), (1, True)]
    \<and> distinct (map role_device R) \<and> [] \<notin> set (map role_device R)"

lemma roles_ok_default: "roles_ok DEFAULT_ROLES"
  by (simp add: roles_ok_def DEFAULT_ROLES_def)

lemma roles_ok_list: "roles_ok R \<Longrightarrow> \<exists>a b c d. R = [a, b, c, d] \<and> role_port a = 0 \<and> \<not> role_secondary a
    \<and> role_port b = 0 \<and> role_secondary b \<and> role_port c = 1 \<and> \<not> role_secondary c \<and> role_port d = 1 \<and> role_secondary d"
  by (auto simp: roles_ok_def map_eq_Cons_conv)

lemma role_at_ok:
  assumes "roles_ok R" "port = 0 \<or> port = 1"
  shows "\<exists>r. role_at R port sec = Inr r \<and> r \<in> set R \<and> role_port r = port \<and> role_secondary r = sec
    \<and> role_device r \<noteq> [] \<and> role_of R None (role_device r) = Some r"
  using roles_ok_list [OF assms(1)] assms by (auto simp: role_at_def role_of_def roles_ok_def)

section \<open>Cables and fabrics\<close>

record Cable =
  ca :: int
  ca_port :: int
  cb :: int
  cb_port :: int

definition Cable_new :: "int \<Rightarrow> int \<Rightarrow> int \<Rightarrow> int \<Rightarrow> py_error + Cable" where
  "Cable_new a a_port b b_port =
    (if a = b then Inl (RouteError ''cable joins a Spark to itself'' [a, a_port, b, b_port])
     else Inr \<lparr>ca = a, ca_port = a_port, cb = b, cb_port = b_port\<rparr>)"

definition cable_text :: "Cable \<Rightarrow> string" where
  "cable_text c = str_of_int (ca c) @ ''.port'' @ str_of_int (ca_port c) @ ''-''
    @ str_of_int (cb c) @ ''.port'' @ str_of_int (cb_port c)"

definition cable_ends :: "Cable \<Rightarrow> (int \<times> int) list" where
  "cable_ends c = [(ca c, ca_port c), (cb c, cb_port c)]"

text \<open>
  The regular expression of \<open>_CABLE\<close>, matched left to right: an end is digits, \<open>.port\<close> and 0 or 1.
\<close>

definition take_digits :: "string \<Rightarrow> (nat \<times> string) option" where
  "take_digits s = (let ds = takeWhile is_digit s in
    if ds = [] then None else Some (digits_val ds, dropWhile is_digit s))"

definition take_end :: "string \<Rightarrow> ((int \<times> int) \<times> string) option" where
  "take_end s = (case take_digits s of
     None \<Rightarrow> None
   | Some (n, t) \<Rightarrow>
      if take 5 t = ''.port'' then
        (case drop 5 t of
           [] \<Rightarrow> None
         | c # u \<Rightarrow> if c = CHR ''0'' then Some ((int n, 0), u)
             else if c = CHR ''1'' then Some ((int n, 1), u) else None)
      else None)"

definition Cable_parse :: "string \<Rightarrow> py_error + Cable" where
  "Cable_parse text = (case take_end (lstrip text) of
     None \<Rightarrow> Inl (RouteError ''cable is not written position.port-position.port'' [])
   | Some ((a, a_port), t) \<Rightarrow> (case lstrip t of
       [] \<Rightarrow> Inl (RouteError ''cable is not written position.port-position.port'' [])
     | c # u \<Rightarrow>
        if c \<noteq> CHR ''-'' then Inl (RouteError ''cable is not written position.port-position.port'' [])
        else (case take_end (lstrip u) of
          None \<Rightarrow> Inl (RouteError ''cable is not written position.port-position.port'' [])
        | Some ((b, b_port), v) \<Rightarrow>
            if lstrip v \<noteq> [] then Inl (RouteError ''cable is not written position.port-position.port'' [])
            else Cable_new a a_port b b_port)))"

record Step =
  s_cable :: Cable
  s_src :: int
  s_src_port :: int
  s_dst :: int
  s_dst_port :: int

definition step_text :: "Step \<Rightarrow> string" where
  "step_text s = str_of_int (s_src s) @ ''.port'' @ str_of_int (s_src_port s) @ ''-''
    @ str_of_int (s_dst s) @ ''.port'' @ str_of_int (s_dst_port s)"

record Fabric =
  cables :: "Cable list"

fun check_ends :: "(int \<times> int) list \<Rightarrow> (int \<times> int) list \<Rightarrow> py_error + unit" where
  "check_ends seen [] = Inr ()"
| "check_ends seen (e # es) =
    (if e \<in> set seen then Inl (RouteError ''port of position has two cables'' [snd e, fst e])
     else check_ends (e # seen) es)"

definition fabric_ends :: "Fabric \<Rightarrow> (int \<times> int) list" where
  "fabric_ends F = concat (map cable_ends (cables F))"

definition Fabric_new :: "Cable list \<Rightarrow> py_error + Fabric" where
  "Fabric_new cs = bind_res (check_ends [] (fabric_ends \<lparr>cables = cs\<rparr>)) (\<lambda>_. Inr \<lparr>cables = cs\<rparr>)"

definition Fabric_ring :: "int \<Rightarrow> py_error + Fabric" where
  "Fabric_ring n =
    (if n < 2 then Inl (RouteError ''a ring needs at least two Sparks'' [])
     else bind_res (map_res (\<lambda>i. Cable_new i 0 ((i + 1) mod n) 1) (py_range n)) Fabric_new)"

definition Fabric_path :: "int list \<Rightarrow> py_error + Fabric" where
  "Fabric_path ps =
    (if length ps < 2 then Inl (RouteError ''a path needs at least two Sparks'' [])
     else bind_res (map_res (\<lambda>(a, b). Cable_new a 0 b 1) (zip ps (tl ps))) Fabric_new)"

definition Fabric_parse :: "string list \<Rightarrow> py_error + Fabric" where
  "Fabric_parse texts = bind_res (map_res Cable_parse texts) Fabric_new"

definition fabric_positions :: "Fabric \<Rightarrow> int list" where
  "fabric_positions F = sorted_list_of_set (set (map fst (fabric_ends F)))"

text \<open>The number of cable ends at each position, in the order they are met.\<close>

definition fabric_degree :: "Fabric \<Rightarrow> (int, int) dict" where
  "fabric_degree F = foldl (\<lambda>d e. dadd (fst e) 1 d) [] (fabric_ends F)"

datatype fabric_kind = Cycle | Path

definition kind :: "Fabric \<Rightarrow> fabric_kind" where
  "kind F = (let degree = fabric_degree F in
    if degree \<noteq> [] \<and> list_all (\<lambda>(_, n). n = 2) degree \<and> length (cables F) = length degree then Cycle else Path)"

section \<open>Crossing cables\<close>

definition cable_at :: "Fabric \<Rightarrow> int \<Rightarrow> int \<Rightarrow> Cable option" where
  "cable_at F position port = find (\<lambda>c. (position, port) \<in> set (cable_ends c)) (cables F)"

definition cross :: "Fabric \<Rightarrow> int \<Rightarrow> int \<Rightarrow> Step option" where
  "cross F position port = (case cable_at F position port of
     None \<Rightarrow> None
   | Some c \<Rightarrow>
      if (ca c, ca_port c) = (position, port)
      then Some \<lparr>s_cable = c, s_src = position, s_src_port = port, s_dst = cb c, s_dst_port = cb_port c\<rparr>
      else Some \<lparr>s_cable = c, s_src = position, s_src_port = port, s_dst = ca c, s_dst_port = ca_port c\<rparr>)"

section \<open>Shortest paths\<close>

text \<open>One port of the breadth-first loop: \<open>distance\<close> and \<open>queue\<close> after looking through it.\<close>

definition relax :: "Fabric \<Rightarrow> int \<Rightarrow> (int, nat) dict \<times> int list \<Rightarrow> int \<Rightarrow> (int, nat) dict \<times> int list" where
  "relax F here state port = (let (distance, queue) = state in
    (case cross F here port of
       None \<Rightarrow> (distance, queue)
     | Some s \<Rightarrow>
        if dget distance (s_dst s) = None
        then (dset (s_dst s) (dget_or distance here 0 + 1) distance, queue @ [s_dst s])
        else (distance, queue)))"

function bfs :: "Fabric \<Rightarrow> (int, nat) dict \<Rightarrow> int list \<Rightarrow> (int, nat) dict" where
  "bfs F distance [] = distance"
| "bfs F distance (here # queue) =
    (let (distance', queue') = foldl (relax F here) (distance, queue) [0, 1] in bfs F distance' queue')"
  by pat_completeness auto

definition unseen :: "Fabric \<Rightarrow> (int, nat) dict \<Rightarrow> int set" where
  "unseen F distance = {x \<in> fst ` set (fabric_ends F). dget distance x = None}"

lemma cable_at_in: "cable_at F x port = Some c \<Longrightarrow> c \<in> set (cables F) \<and> (x, port) \<in> set (cable_ends c)"
  by (auto simp: cable_at_def find_Some_iff)

lemma cross_node: "cross F x port = Some s \<Longrightarrow> s_dst s \<in> fst ` set (fabric_ends F) \<and> s_src s = x \<and> s_src_port s = port"
  by (force simp: cross_def fabric_ends_def cable_ends_def dest: cable_at_in split: option.splits if_splits)

lemma finite_unseen [simp]: "finite (unseen F distance)"
  by (simp add: unseen_def)

lemma relax_measure:
  assumes "relax F here (distance, queue) port = (distance', queue')"
  shows "2 * card (unseen F distance') + length queue' \<le> 2 * card (unseen F distance) + length queue"
proof (cases "\<exists>s. cross F here port = Some s \<and> dget distance (s_dst s) = None")
  case False
  then show ?thesis using assms by (auto simp: relax_def split: option.splits if_splits)
next
  case True
  then obtain s where s: "cross F here port = Some s" "dget distance (s_dst s) = None" by blast
  then have in_: "s_dst s \<in> unseen F distance" using cross_node by (simp add: unseen_def)
  have d: "distance' = dset (s_dst s) (dget_or distance here 0 + 1) distance" and q: "queue' = queue @ [s_dst s]"
    using assms s by (simp_all add: relax_def)
  have "unseen F distance' = unseen F distance - {s_dst s}"
    by (auto simp: unseen_def d)
  then have "card (unseen F distance') + 1 = card (unseen F distance)"
    using in_ card_Suc_Diff1 [OF finite_unseen in_] by simp
  then show ?thesis using q by simp
qed

termination bfs
proof (relation "measure (\<lambda>(F, distance, queue). 2 * card (unseen F distance) + length queue)")
  show "wf (measure (\<lambda>(F, distance, queue :: int list). 2 * card (unseen F distance) + length queue))" by simp
next
  fix F distance and here :: int and queue x distance' queue'
  assume "x = foldl (relax F here) (distance, queue) [0, 1]" "(distance', queue') = x"
  then obtain d q where r: "relax F here (distance, queue) 0 = (d, q)" "relax F here (d, q) 1 = (distance', queue')"
    by (metis foldl_Cons foldl_Nil prod.exhaust)
  have "2 * card (unseen F distance') + length queue' \<le> 2 * card (unseen F distance) + length queue"
    using relax_measure [OF r(1)] relax_measure [OF r(2)] by linarith
  then show "((F, distance', queue'), F, distance, here # queue)
      \<in> measure (\<lambda>(F, distance, queue). 2 * card (unseen F distance) + length queue)"
    by simp
qed

text \<open>The inner recursion \<open>extend\<close>: every descent of the distances from \<open>here\<close> to the target.\<close>

function descend :: "Fabric \<Rightarrow> (int, nat) dict \<Rightarrow> int \<Rightarrow> int \<Rightarrow> Step list \<Rightarrow> Step list list" where
  "descend F distance b here steps =
    (if here = b then [steps]
     else concat (map (\<lambda>port. case cross F here port of
         None \<Rightarrow> []
       | Some s \<Rightarrow>
          if dget distance (s_dst s) \<noteq> None \<and> dget distance here = map_option Suc (dget distance (s_dst s))
          then descend F distance b (s_dst s) (steps @ [s]) else [])
       [0, 1]))"
  by pat_completeness auto

termination descend
  by (relation "measure (\<lambda>(F, distance, b, here, steps). dget_or distance here 0)") (auto simp: dget_or_dget split: option.splits)

declare descend.simps [simp del]

definition shortest_paths :: "Fabric \<Rightarrow> int \<Rightarrow> int \<Rightarrow> py_error + Step list list" where
  "shortest_paths F a b =
    (if a = b then Inl (RouteError ''a lane joins two different Sparks'' [])
     else let distance = bfs F [(b, 0)] [b]
       in if dget distance a = None then Inr [] else Inr (descend F distance b a []))"

section \<open>Walks\<close>

text \<open>\<open>walk\<close> with the remaining number of cables it may still cross.\<close>

fun walk_from :: "Fabric \<Rightarrow> int \<Rightarrow> int \<Rightarrow> int \<Rightarrow> nat \<Rightarrow> Step list option" where
  "walk_from F here out target 0 = None"
| "walk_from F here out target (Suc left) =
    (case cross F here out of
       None \<Rightarrow> None
     | Some s \<Rightarrow> if s_dst s = target then Some [s]
         else map_option ((#) s) (walk_from F (s_dst s) (1 - s_dst_port s) target left))"

definition walk :: "Fabric \<Rightarrow> int \<Rightarrow> int \<Rightarrow> int \<Rightarrow> int \<Rightarrow> Step list option" where
  "walk F start port target limit = walk_from F start port target (nat limit)"

end
