(* ===== verification/Paths.thy ===== *)
theory Paths
  imports Fabric
begin

text \<open>
  Crossing a cable is undone by crossing it back, the breadth-first distances are exact, and the
  descents are the shortest paths: facts about \<open>Fabric\<close> that the lane derivation rests on.
\<close>

section \<open>Well-formed fabrics\<close>

definition fabric_ok :: "Fabric \<Rightarrow> bool" where
  "fabric_ok F \<longleftrightarrow> distinct (fabric_ends F)
    \<and> list_all (\<lambda>c. ca c \<noteq> cb c \<and> (ca_port c = 0 \<or> ca_port c = 1) \<and> (cb_port c = 0 \<or> cb_port c = 1)) (cables F)"

lemma check_ends_Inr: "check_ends seen es = Inr u \<longleftrightarrow> distinct es \<and> set es \<inter> set seen = {}"
  by (induction seen es rule: check_ends.induct) auto

lemma Fabric_new_Inr: "Fabric_new cs = Inr F \<longleftrightarrow> F = \<lparr>cables = cs\<rparr> \<and> distinct (fabric_ends F)"
  by (auto simp: Fabric_new_def bind_res_Inr check_ends_Inr)

text \<open>A Spark's cable end determines its cable.\<close>

lemma distinct_ends_same:
  "distinct (concat (map cable_ends cs)) \<Longrightarrow> c \<in> set cs \<Longrightarrow> d \<in> set cs \<Longrightarrow> e \<in> set (cable_ends c) \<Longrightarrow>
    e \<in> set (cable_ends d) \<Longrightarrow> c = d"
proof (induction cs)
  case (Cons x cs)
  then have "set (cable_ends x) \<inter> set (concat (map cable_ends cs)) = {}" by simp
  then have "y = x" if "y \<in> set (x # cs)" "e \<in> set (cable_ends y)" "e \<in> set (cable_ends x)" for y
    using that by auto
  with Cons show ?case by (metis distinct_append concat.simps(2) list.simps(9) set_ConsD)
qed simp

lemma end_unique:
  "fabric_ok F \<Longrightarrow> c \<in> set (cables F) \<Longrightarrow> d \<in> set (cables F) \<Longrightarrow> e \<in> set (cable_ends c) \<Longrightarrow>
    e \<in> set (cable_ends d) \<Longrightarrow> c = d"
  using distinct_ends_same unfolding fabric_ok_def fabric_ends_def by blast

lemma cable_at_Some:
  "fabric_ok F \<Longrightarrow> c \<in> set (cables F) \<Longrightarrow> (x, port) \<in> set (cable_ends c) \<Longrightarrow> cable_at F x port = Some c"
proof -
  assume a: "fabric_ok F" "c \<in> set (cables F)" "(x, port) \<in> set (cable_ends c)"
  then obtain d where d: "cable_at F x port = Some d"
    by (cases "cable_at F x port") (auto simp: cable_at_def find_None_iff)
  then show ?thesis using end_unique [OF a(1,2) _ a(3)] cable_at_in by blast
qed

definition flip :: "Step \<Rightarrow> Step" where
  "flip s = \<lparr>s_cable = s_cable s, s_src = s_dst s, s_src_port = s_dst_port s, s_dst = s_src s, s_dst_port = s_src_port s\<rparr>"

lemma flip_simps [simp]:
  "s_cable (flip s) = s_cable s" "s_src (flip s) = s_dst s" "s_src_port (flip s) = s_dst_port s"
  "s_dst (flip s) = s_src s" "s_dst_port (flip s) = s_src_port s" "flip (flip s) = s"
  by (simp_all add: flip_def)

lemma flip_inj [simp]: "flip s = flip t \<longleftrightarrow> s = t"
  by (metis flip_simps(6))

section \<open>Routes\<close>

text \<open>A route of steps from one position to another, over a crossing function; a shortest one.\<close>

fun route :: "(int \<Rightarrow> int \<Rightarrow> Step option) \<Rightarrow> int \<Rightarrow> Step list \<Rightarrow> int \<Rightarrow> bool" where
  "route cr a [] b \<longleftrightarrow> a = b"
| "route cr a (s # p) b \<longleftrightarrow> s_src s = a \<and> cr a (s_src_port s) = Some s \<and> route cr (s_dst s) p b"

definition shortest :: "(int \<Rightarrow> int \<Rightarrow> Step option) \<Rightarrow> int \<Rightarrow> Step list \<Rightarrow> int \<Rightarrow> bool" where
  "shortest cr a p b \<longleftrightarrow> route cr a p b \<and> (\<forall>q. route cr a q b \<longrightarrow> length p \<le> length q)"

lemma route_append: "route cr a (p @ q) b \<longleftrightarrow> (\<exists>m. route cr a p m \<and> route cr m q b)"
  by (induction p arbitrary: a) auto

lemma route_end: "route cr a p b \<Longrightarrow> p \<noteq> [] \<Longrightarrow> s_dst (last p) = b"
  by (induction p arbitrary: a) auto

lemma route_start: "route cr a p b \<Longrightarrow> p \<noteq> [] \<Longrightarrow> s_src (hd p) = a"
  by (cases p) auto

lemma route_from_visit:
  "route cr a p b \<Longrightarrow> i < length p \<Longrightarrow> route cr (s_dst (p ! i)) (drop (Suc i) p) b"
proof (induction p arbitrary: a i)
  case (Cons s p)
  then show ?case by (cases i) auto
qed simp

lemma route_cross: "route cr a p b \<Longrightarrow> s \<in> set p \<Longrightarrow> cr (s_src s) (s_src_port s) = Some s"
  by (induction p arbitrary: a) auto

lemma shortest_tail: "shortest cr a (s # p) b \<Longrightarrow> shortest cr (s_dst s) p b"
proof -
  assume s: "shortest cr a (s # p) b"
  then have r: "s_src s = a" "cr a (s_src_port s) = Some s" "route cr (s_dst s) p b" by (auto simp: shortest_def)
  have "length p \<le> length q" if "route cr (s_dst s) q b" for q
  proof -
    have "route cr a (s # q) b" using r that by simp
    then have "length (s # p) \<le> length (s # q)" using s unfolding shortest_def by blast
    then show ?thesis by simp
  qed
  with r show ?thesis by (auto simp: shortest_def)
qed

lemma shortest_no_return: "shortest cr a p b \<Longrightarrow> i < length p \<Longrightarrow> s_dst (p ! i) \<noteq> a"
proof
  assume s: "shortest cr a p b" and i: "i < length p" and e: "s_dst (p ! i) = a"
  then have "route cr a (drop (Suc i) p) b" using route_from_visit [of cr a p b i] by (simp add: shortest_def)
  then have "length p \<le> length (drop (Suc i) p)" using s unfolding shortest_def by blast
  with i show False by simp
qed

text \<open>A shortest route visits no position twice, and never its start again.\<close>

lemma shortest_simple: "shortest cr a p b \<Longrightarrow> distinct (a # map s_dst p)"
proof (induction p arbitrary: a)
  case (Cons s p)
  have "a \<notin> set (map s_dst (s # p))"
    using shortest_no_return [OF Cons.prems] by (force simp: in_set_conv_nth)
  moreover have "distinct (s_dst s # map s_dst p)" using Cons shortest_tail by blast
  ultimately show ?case by auto
qed simp

text \<open>
  The interface of a fabric to everything that moves over it: crossing a cable and crossing it back is
  the identity, ports are 0 or 1, and no cable joins a Spark to itself.
\<close>

locale cabling =
  fixes ok :: "'f \<Rightarrow> bool"
    and crossing :: "'f \<Rightarrow> int \<Rightarrow> int \<Rightarrow> Step option"
  assumes cross_back: "ok F \<Longrightarrow> crossing F x port = Some s \<Longrightarrow> crossing F (s_dst s) (s_dst_port s) = Some (flip s)"
    and cross_leaves: "ok F \<Longrightarrow> crossing F x port = Some s \<Longrightarrow> s_src s = x \<and> s_src_port s = port"
    and cross_port: "ok F \<Longrightarrow> crossing F x port = Some s \<Longrightarrow> port = 0 \<or> port = 1"
    and cross_not_self: "ok F \<Longrightarrow> crossing F x port = Some s \<Longrightarrow> s_dst s \<noteq> x"
begin

lemma far_port: "ok F \<Longrightarrow> crossing F x port = Some s \<Longrightarrow> s_dst_port s = 0 \<or> s_dst_port s = 1"
  using cross_back cross_port by blast

lemma route_flip: "ok F \<Longrightarrow> route (crossing F) a p b \<Longrightarrow> route (crossing F) b (rev (map flip p)) a"
proof (induction p arbitrary: a)
  case (Cons s p)
  then have "crossing F (s_dst s) (s_dst_port s) = Some (flip s)" using cross_back by auto
  with Cons show ?case by (auto simp: route_append)
qed simp

lemma shortest_flip: "ok F \<Longrightarrow> shortest (crossing F) a p b \<Longrightarrow> shortest (crossing F) b (rev (map flip p)) a"
  unfolding shortest_def
  using route_flip by (metis length_map length_rev)

text \<open>At every relay a shortest route leaves through the other port.\<close>

lemma shortest_straight:
  assumes "ok F" and sh: "shortest (crossing F) a (s # t # p) b"
  shows "s_src_port t = 1 - s_dst_port s"
proof (rule ccontr)
  assume ne: "s_src_port t \<noteq> 1 - s_dst_port s"
  have c: "crossing F a (s_src_port s) = Some s" "crossing F (s_dst s) (s_src_port t) = Some t" "s_src s = a"
    using sh by (auto simp: shortest_def)
  have "s_src_port t = s_dst_port s" using ne far_port [OF assms(1) c(1)] cross_port [OF assms(1) c(2)] by auto
  then have "t = flip s" using cross_back [OF assms(1) c(1)] c(2) by simp
  then have "s_dst t = a" using c by simp
  moreover have "s_dst t \<noteq> a" using shortest_no_return [OF sh, of 1] by simp
  ultimately show False by simp
qed

text \<open>Only the first and the last of the ports along a shortest route have to be told.\<close>

lemma shortest_src_port:
  "ok F \<Longrightarrow> shortest (crossing F) a p b \<Longrightarrow> s \<in> set p \<Longrightarrow> s_src_port s = 0 \<or> s_src_port s = 1"
  using route_cross cross_port unfolding shortest_def by blast

end

lemma fabric_port_range:
  "fabric_ok F \<Longrightarrow> c \<in> set (cables F) \<Longrightarrow> (x, port) \<in> set (cable_ends c) \<Longrightarrow> port = 0 \<or> port = 1"
  by (auto simp: fabric_ok_def list_all_iff cable_ends_def)

interpretation fab: cabling fabric_ok cross
proof
  fix F x port s
  assume F: "fabric_ok F" and s: "cross F x port = Some s"
  then obtain c where c: "cable_at F x port = Some c" by (auto simp: cross_def split: option.splits)
  note ci = cable_at_in [OF c]
  have d: "ca c \<noteq> cb c" using F ci by (auto simp: fabric_ok_def list_all_iff)
  have "cable_at F (ca c) (ca_port c) = Some c" "cable_at F (cb c) (cb_port c) = Some c"
    using cable_at_Some [OF F] ci by (auto simp: cable_ends_def)
  then show "cross F (s_dst s) (s_dst_port s) = Some (flip s)"
    using s c ci d by (auto simp: cross_def cable_ends_def flip_def)
  show "s_src s = x \<and> s_src_port s = port" using cross_node [OF s] by simp
  show "port = 0 \<or> port = 1" using fabric_port_range [OF F] ci by blast
  show "s_dst s \<noteq> x" using s c ci d by (auto simp: cross_def cable_ends_def)
qed

end
