(* ===== verification/Bfs.thy ===== *)
theory Bfs
  imports Paths
begin

text \<open>
  The breadth-first loop of \<open>Fabric.shortest_paths\<close> computes exact distances and the recursion after it
  lists the shortest routes, each once.
\<close>

section \<open>The loop invariant\<close>

text \<open>
  \<open>settled F D x P\<close>: every neighbor of \<open>x\<close> through the ports \<open>P\<close> has a distance, at most one larger.
\<close>

definition settled :: "Fabric \<Rightarrow> (int, nat) dict \<Rightarrow> int \<Rightarrow> int set \<Rightarrow> bool" where
  "settled F D x P \<longleftrightarrow> (\<forall>port\<in>P. \<forall>s. cross F x port = Some s \<longrightarrow>
    (\<exists>d. dget D (s_dst s) = Some d \<and> d \<le> dget_or D x 0 + 1))"

definition sound :: "Fabric \<Rightarrow> int \<Rightarrow> (int, nat) dict \<Rightarrow> bool" where
  "sound F b D \<longleftrightarrow> (\<forall>x d. dget D x = Some d \<longrightarrow> (\<exists>p. route (cross F) x p b \<and> length p = d)) \<and> dget D b = Some 0"

text \<open>While \<open>here\<close> is looked at: its ports \<open>P\<close> are done, the queue is sorted by distance.\<close>

definition looking :: "Fabric \<Rightarrow> int \<Rightarrow> int \<Rightarrow> int set \<Rightarrow> (int, nat) dict \<times> int list \<Rightarrow> bool" where
  "looking F b here P state = (case state of (D, Q) \<Rightarrow>
    sound F b D \<and> settled F D here P \<and> dget D here \<noteq> None
    \<and> (\<forall>x. dget D x \<noteq> None \<longrightarrow> x \<noteq> here \<longrightarrow> x \<notin> set Q \<longrightarrow> settled F D x {0, 1})
    \<and> (\<forall>x d. dget D x = Some d \<longrightarrow> d \<le> dget_or D here 0 + 1)
    \<and> (\<forall>q\<in>set Q. dget D q \<noteq> None \<and> dget_or D here 0 \<le> dget_or D q 0)
    \<and> sorted (map (\<lambda>q. dget_or D q 0) Q))"

lemma settled_mono:
  assumes "settled F D x P" "dget D y = None" "x \<noteq> y"
  shows "settled F (dset y d D) x P"
  unfolding settled_def
proof (intro ballI allI impI)
  fix port s
  assume "port \<in> P" "cross F x port = Some s"
  then obtain e where e: "dget D (s_dst s) = Some e" "e \<le> dget_or D x 0 + 1"
    using assms(1) by (auto simp: settled_def)
  moreover from e assms(2) have "s_dst s \<noteq> y" by auto
  ultimately show "\<exists>e. dget (dset y d D) (s_dst s) = Some e \<and> e \<le> dget_or (dset y d D) x 0 + 1"
    using assms(3) by auto
qed

lemma relax_looking:
  assumes F: "fabric_ok F" and look: "looking F b here P (D, Q)"
  shows "looking F b here (insert port P) (relax F here (D, Q) port)"
proof (cases "\<exists>s. cross F here port = Some s \<and> dget D (s_dst s) = None")
  case False
  have "settled F D here (insert port P)"
    using look False unfolding looking_def settled_def by auto
  then show ?thesis using look False by (auto simp: looking_def relax_def split: option.splits)
next
  case True
  then obtain s where s: "cross F here port = Some s" "dget D (s_dst s) = None" by blast
  let ?y = "s_dst s"
  define d where "d = dget_or D here 0"
  define D' where "D' = dset ?y (d + 1) D"
  have r: "relax F here (D, Q) port = (D', Q @ [?y])" using s by (simp add: relax_def D'_def d_def)
  have L: "sound F b D" "settled F D here P" "dget D here \<noteq> None"
    "\<And>x. dget D x \<noteq> None \<Longrightarrow> x \<noteq> here \<Longrightarrow> x \<notin> set Q \<Longrightarrow> settled F D x {0, 1}"
    "\<And>x e. dget D x = Some e \<Longrightarrow> e \<le> d + 1"
    "\<And>q. q \<in> set Q \<Longrightarrow> dget D q \<noteq> None \<and> d \<le> dget_or D q 0"
    "sorted (map (\<lambda>q. dget_or D q 0) Q)"
    using look by (auto simp: looking_def d_def)
  have ne: "?y \<noteq> here" using L(3) s by auto
  have here: "dget D here = Some d" using L(3) by (auto simp: d_def dget_or_dget)
  have yQ: "?y \<notin> set Q" using L(6) [of ?y] s(2) by auto
  have snd: "sound F b D'"
  proof -
    obtain p where p: "route (cross F) here p b" "length p = d" using L(1) here by (auto simp: sound_def)
    have "cross F ?y (s_dst_port s) = Some (flip s)" using fab.cross_back [OF F s(1)] .
    then have "route (cross F) ?y (flip s # p) b" using p cross_node [OF s(1)] by simp
    moreover have "?y \<noteq> b" using L(1) s(2) by (auto simp: sound_def)
    moreover have "length (flip s # p) = d + 1" using p by simp
    ultimately show ?thesis using L(1) unfolding sound_def D'_def by (metis dget_dset option.inject)
  qed
  have old: "settled F D x X \<Longrightarrow> x \<noteq> ?y \<Longrightarrow> settled F D' x X" for x X
    using settled_mono [of F D x X ?y] s(2) by (simp add: D'_def)
  have "settled F D' here (insert port P)"
    using old [OF L(2)] ne s(1) here by (auto simp: settled_def D'_def dget_or_dget)
  moreover have "x \<noteq> here \<Longrightarrow> x \<notin> set (Q @ [?y]) \<Longrightarrow> dget D' x \<noteq> None \<Longrightarrow> settled F D' x {0, 1}" for x
    using old L(4) by (auto simp: D'_def)
  moreover have "dget D' x = Some e \<Longrightarrow> e \<le> d + 1" for x e
    using L(5) by (auto simp: D'_def split: if_splits)
  moreover have "q \<in> set (Q @ [?y]) \<Longrightarrow> dget D' q \<noteq> None \<and> d \<le> dget_or D' q 0" for q
    using L(6) by (auto simp: D'_def)
  moreover have "sorted (map (\<lambda>q. dget_or D' q 0) (Q @ [?y]))"
  proof -
    have "map (\<lambda>q. dget_or D' q 0) Q = map (\<lambda>q. dget_or D q 0) Q"
      using yQ by (intro map_cong [OF refl]) (auto simp: D'_def)
    moreover have "\<forall>q\<in>set Q. dget_or D q 0 \<le> d + 1" using L(5,6) by (fastforce simp: dget_or_dget)
    moreover have "dget_or D' ?y 0 = d + 1" by (simp add: D'_def)
    ultimately show ?thesis using L(7) by (simp only: sorted_append map_append list.map) auto
  qed
  moreover have "dget D' here = Some d" "dget_or D' here 0 = d" using ne here by (auto simp: D'_def dget_or_dget)
  ultimately show ?thesis unfolding r looking_def using snd by auto
qed

text \<open>Between two turns of the loop.\<close>

definition bfs_inv :: "Fabric \<Rightarrow> int \<Rightarrow> (int, nat) dict \<Rightarrow> int list \<Rightarrow> bool" where
  "bfs_inv F b D Q \<longleftrightarrow> sound F b D
    \<and> (\<forall>x. dget D x \<noteq> None \<longrightarrow> x \<notin> set Q \<longrightarrow> settled F D x {0, 1})
    \<and> (\<forall>q\<in>set Q. dget D q \<noteq> None) \<and> sorted (map (\<lambda>q. dget_or D q 0) Q)
    \<and> (Q \<noteq> [] \<longrightarrow> (\<forall>x d. dget D x = Some d \<longrightarrow> d \<le> dget_or D (hd Q) 0 + 1))"

lemma bfs_inv_step:
  assumes F: "fabric_ok F" and inv: "bfs_inv F b D (here # Q)"
    and st: "foldl (relax F here) (D, Q) [0, 1] = (D', Q')"
  shows "bfs_inv F b D' Q'"
proof -
  have "looking F b here {} (D, Q)"
    using inv by (auto simp: bfs_inv_def looking_def settled_def [of _ _ _ "{}"])
  then have "looking F b here {0} (relax F here (D, Q) 0)" using relax_looking [OF F] by blast
  then have "looking F b here {1, 0} (relax F here (relax F here (D, Q) 0) 1)"
    using relax_looking [OF F] by (metis prod.exhaust)
  then have L: "looking F b here {0, 1} (D', Q')" using st by (simp add: insert_commute)
  have "x \<notin> set Q' \<Longrightarrow> dget D' x \<noteq> None \<Longrightarrow> settled F D' x {0, 1}" for x
    using L by (cases "x = here") (auto simp: looking_def)
  moreover have "Q' \<noteq> [] \<Longrightarrow> dget D' x = Some d \<Longrightarrow> d \<le> dget_or D' (hd Q') 0 + 1" for x d
  proof -
    assume q: "Q' \<noteq> []" and x: "dget D' x = Some d"
    have "d \<le> dget_or D' here 0 + 1" using L x by (simp add: looking_def)
    moreover have "dget_or D' here 0 \<le> dget_or D' (hd Q') 0" using L q by (simp add: looking_def)
    ultimately show ?thesis by linarith
  qed
  ultimately show ?thesis using L by (auto simp: bfs_inv_def looking_def)
qed

lemma bfs_result: "fabric_ok F \<Longrightarrow> bfs_inv F b D Q \<Longrightarrow> bfs_inv F b (bfs F D Q) []"
proof (induction F D Q rule: bfs.induct)
  case (1 F D)
  then show ?case by simp
next
  case (2 F D here Q)
  obtain D' Q' where st: "foldl (relax F here) (D, Q) [0, 1] = (D', Q')" by (metis prod.exhaust)
  have "bfs_inv F b D' Q'" using bfs_inv_step [OF 2(2,3) st] .
  then have "bfs_inv F b (bfs F D' Q') []" using 2(1) [OF refl] 2(2) st by simp
  then show ?case using st by simp
qed

section \<open>Exact distances\<close>

definition exact :: "Fabric \<Rightarrow> int \<Rightarrow> (int, nat) dict \<Rightarrow> bool" where
  "exact F b D \<longleftrightarrow> sound F b D \<and> (\<forall>x p. route (cross F) x p b \<longrightarrow> (\<exists>d. dget D x = Some d \<and> d \<le> length p))"

lemma exact_route: "exact F b D \<Longrightarrow> dget D x = Some d \<Longrightarrow> \<exists>p. route (cross F) x p b \<and> length p = d"
  unfolding exact_def sound_def by blast

lemma exact_le: "exact F b D \<Longrightarrow> dget D x = Some d \<Longrightarrow> route (cross F) x p b \<Longrightarrow> d \<le> length p"
  unfolding exact_def by (metis option.inject)

lemma exact_None: "exact F b D \<Longrightarrow> dget D x = None \<Longrightarrow> \<not> route (cross F) x p b"
  unfolding exact_def by (metis option.distinct(1))

lemma exact_zero: "exact F b D \<Longrightarrow> dget D x = Some 0 \<Longrightarrow> x = b"
  using exact_route by fastforce

text \<open>Once the queue is empty, every distance is exact.\<close>

lemma bfs_inv_exact:
  assumes F: "fabric_ok F" and inv: "bfs_inv F b D []"
  shows "exact F b D"
proof -
  have snd: "sound F b D" and cl: "\<And>x. dget D x \<noteq> None \<Longrightarrow> settled F D x {0, 1}"
    using inv by (auto simp: bfs_inv_def)
  have "\<exists>d. dget D x = Some d \<and> d \<le> length p" if "route (cross F) x p b" for x p
    using that
  proof (induction p arbitrary: x)
    case Nil
    then show ?case using snd by (simp add: sound_def)
  next
    case (Cons s p)
    then obtain d where d: "dget D (s_dst s) = Some d" "d \<le> length p" by auto
    have c: "cross F x (s_src_port s) = Some s" "s_src s = x" using Cons by auto
    have "cross F (s_dst s) (s_dst_port s) = Some (flip s)" using fab.cross_back [OF F c(1)] .
    moreover have "s_dst_port s \<in> {0, 1}" using fab.far_port [OF F c(1)] by simp
    ultimately obtain e where "dget D (s_dst (flip s)) = Some e" "e \<le> dget_or D (s_dst s) 0 + 1"
      using cl [of "s_dst s"] d unfolding settled_def by blast
    then show ?case using d c by (auto simp: dget_or_dget)
  qed
  with snd show ?thesis by (simp add: exact_def)
qed

lemma bfs_inv_start: "bfs_inv F b [(b, 0)] [b]"
  by (auto simp: bfs_inv_def sound_def dget_def dget_or_def intro: exI [of _ "[]"])

lemma bfs_exact:
  assumes F: "fabric_ok F"
  shows "exact F b (bfs F [(b, 0)] [b])"
  using bfs_inv_exact [OF F bfs_result [OF F bfs_inv_start]] .

section \<open>The descents\<close>

text \<open>A route as long as its start's distance is a descent.\<close>

lemma exact_descent:
  assumes F: "fabric_ok F" and ex: "exact F b D" and r: "route (cross F) x (s # p) b"
    and l: "dget D x = Some (length (s # p))"
  shows "dget D (s_dst s) = Some (length p)"
proof -
  have c: "cross F x (s_src_port s) = Some s" "s_src s = x" and t: "route (cross F) (s_dst s) p b" using r by auto
  obtain e where e: "dget D (s_dst s) = Some e" "e \<le> length p" using ex t by (auto simp: exact_def)
  obtain q where q: "route (cross F) (s_dst s) q b" "length q = e" using ex e by (auto simp: exact_def sound_def)
  have "route (cross F) x (s # q) b" using c q by simp
  then obtain f where "dget D x = Some f" "f \<le> length (s # q)" using ex unfolding exact_def by blast
  with l e q show ?thesis by simp
qed

definition descend_port :: "Fabric \<Rightarrow> (int, nat) dict \<Rightarrow> int \<Rightarrow> int \<Rightarrow> nat \<Rightarrow> Step list \<Rightarrow> int \<Rightarrow> Step list list" where
  "descend_port F D b here d steps port = (case cross F here port of None \<Rightarrow> []
    | Some s \<Rightarrow> if dget D (s_dst s) = Some d then descend F D b (s_dst s) (steps @ [s]) else [])"

lemma descend_port_in:
  "x \<in> set (descend_port F D b here d steps port) \<longleftrightarrow> (\<exists>s. cross F here port = Some s
    \<and> dget D (s_dst s) = Some d \<and> x \<in> set (descend F D b (s_dst s) (steps @ [s])))"
  by (cases "cross F here port") (simp_all add: descend_port_def)

lemma descend_Suc:
  assumes "here \<noteq> b" "dget D here = Some (Suc d)"
  shows "descend F D b here steps = descend_port F D b here d steps 0 @ descend_port F D b here d steps 1"
proof -
  have c: "(dget D y \<noteq> None \<and> Some (Suc d) = map_option Suc (dget D y)) = (dget D y = Some d)" for y
    by (cases "dget D y") auto
  show ?thesis
    by (subst descend.simps) (simp only: assms c descend_port_def if_False list.map concat.simps append_Nil2)
qed

lemma descend_routes:
  assumes F: "fabric_ok F" and ex: "exact F b D"
  shows "dget D here = Some d \<Longrightarrow>
    set (descend F D b here steps) = {steps @ p | p. route (cross F) here p b \<and> length p = d}"
proof (induction d arbitrary: here steps)
  case 0
  then have "here = b" using exact_zero [OF ex] by simp
  then have "descend F D b here steps = [steps]" by (subst descend.simps) simp
  with \<open>here = b\<close> show ?case by auto
next
  case (Suc d)
  have ne: "here \<noteq> b" using Suc ex by (auto simp: exact_def sound_def)
  have "set (descend F D b here steps) = (\<Union>port\<in>{0, 1}. set (descend_port F D b here d steps port))"
    using descend_Suc [OF ne Suc.prems] by simp
  also have "\<dots> = {steps @ p | p. route (cross F) here p b \<and> length p = Suc d}" (is "?l = ?r")
  proof (intro equalityI subsetI)
    fix x
    assume "x \<in> ?l"
    then obtain port s where s: "port \<in> {0, 1}" "cross F here port = Some s" "dget D (s_dst s) = Some d"
      and x: "x \<in> set (descend F D b (s_dst s) (steps @ [s]))"
      by (auto simp: descend_port_in)
    then obtain p where "x = (steps @ [s]) @ p" "route (cross F) (s_dst s) p b" "length p = d"
      using Suc.IH by auto
    moreover have "s_src s = here" "s_src_port s = port" using cross_node [OF s(2)] by auto
    ultimately show "x \<in> ?r" using s by (intro CollectI exI [of _ "s # p"]) auto
  next
    fix x
    assume "x \<in> ?r"
    then obtain p where x: "x = steps @ p" and p: "route (cross F) here p b" "length p = Suc d" by blast
    then obtain s q where sq: "p = s # q" by (cases p) auto
    then have c: "cross F here (s_src_port s) = Some s" "route (cross F) (s_dst s) q b" "length q = d" using p by auto
    have dd: "dget D (s_dst s) = Some d" using exact_descent [OF F ex, of here s q] p sq Suc.prems c by simp
    have "s_src_port s \<in> {0, 1}" using fab.cross_port [OF F c(1)] by simp
    moreover have "x \<in> set (descend F D b (s_dst s) (steps @ [s]))" using Suc.IH [OF dd] x sq c by auto
    ultimately show "x \<in> ?l" using c dd by (intro UN_I [of "s_src_port s"]) (auto simp: descend_port_in)
  qed
  finally show ?case .
qed

lemma descend_distinct:
  assumes F: "fabric_ok F" and ex: "exact F b D"
  shows "dget D here = Some d \<Longrightarrow> distinct (descend F D b here steps)"
proof (induction d arbitrary: here steps)
  case 0
  then have "here = b" using exact_zero [OF ex] by simp
  then show ?case by (subst descend.simps) simp
next
  case (Suc d)
  have ne: "here \<noteq> b" using Suc ex by (auto simp: exact_def sound_def)
  define E where "E = descend_port F D b here d steps"
  have e: "descend F D b here steps = E 0 @ E 1" unfolding E_def by (rule descend_Suc [OF ne Suc.prems])
  have "distinct (E port)" for port using Suc.IH by (auto simp: E_def descend_port_def split: option.splits)
  moreover have "x \<in> set (E port) \<Longrightarrow> \<exists>s. s_src_port s = port \<and> length steps < length x \<and> x ! length steps = s" for x port
  proof -
    assume "x \<in> set (E port)"
    then obtain s where s: "cross F here port = Some s" "dget D (s_dst s) = Some d"
      and x: "x \<in> set (descend F D b (s_dst s) (steps @ [s]))"
      by (auto simp: E_def descend_port_in)
    have "\<exists>p. x = (steps @ [s]) @ p" using descend_routes [OF F ex s(2), of "steps @ [s]"] x by auto
    then show ?thesis using cross_node [OF s(1)] by (auto simp: nth_append)
  qed
  then have "set (E 0) \<inter> set (E 1) = {}" by (metis disjoint_iff zero_neq_one)
  ultimately show ?case by (simp add: e)
qed

section \<open>The result\<close>

lemma exact_shortest:
  assumes "exact F b D" "dget D a = Some d"
  shows "shortest (cross F) a p b \<longleftrightarrow> route (cross F) a p b \<and> length p = d"
proof -
  obtain q where q: "route (cross F) a q b" "length q = d" using exact_route [OF assms] by blast
  have "d \<le> length p" if "route (cross F) a p b" for p using exact_le [OF assms that] .
  with q show ?thesis unfolding shortest_def by (metis le_antisym)
qed

lemma shortest_paths_Inr:
  assumes "fabric_ok F" "shortest_paths F a b = Inr ps"
  shows "a \<noteq> b \<and> distinct ps \<and> set ps = {p. shortest (cross F) a p b}"
proof -
  let ?D = "bfs F [(b, 0)] [b]"
  have ex: "exact F b ?D" by (rule bfs_exact [OF assms(1)])
  have ab: "a \<noteq> b" and ps: "ps = (if dget ?D a = None then [] else descend F ?D b a [])"
    using assms(2) by (auto simp: shortest_paths_def Let_def split: if_splits)
  show ?thesis
  proof (cases "dget ?D a")
    case None
    have "{p. shortest (cross F) a p b} = {}" using exact_None [OF ex None] by (auto simp: shortest_def)
    moreover have "ps = []" unfolding ps None by simp
    ultimately show ?thesis using ab by simp
  next
    case (Some d)
    have e: "ps = descend F ?D b a []" unfolding ps Some by simp
    show ?thesis unfolding e
      using ab descend_routes [OF assms(1) ex Some, of "[]"]
        descend_distinct [OF assms(1) ex Some, of "[]"] exact_shortest [OF ex Some]
      by (simp only: append_Nil) blast
  qed
qed

lemma shortest_paths_total: "a \<noteq> b \<Longrightarrow> \<exists>ps. shortest_paths F a b = Inr ps"
  unfolding shortest_paths_def Let_def by (auto simp del: bfs.simps)

section \<open>Properties\<close>

text \<open>
  C1: on a well-formed fabric \<open>shortest_paths\<close> returns exactly the shortest cable routes between two
  different positions, each once, and the empty list just when there is no route.
\<close>

theorem shortest_paths_exact:
  assumes "fabric_ok F" "a \<noteq> b"
  shows "\<exists>ps. shortest_paths F a b = Inr ps \<and> distinct ps \<and> set ps = {p. shortest (cross F) a p b}
    \<and> (ps = [] \<longleftrightarrow> (\<nexists>p. route (cross F) a p b))"
proof -
  obtain ps where ps: "shortest_paths F a b = Inr ps" using shortest_paths_total [OF assms(2)] by blast
  note r = shortest_paths_Inr [OF assms(1) ps]
  have "\<exists>q. shortest (cross F) a q b" if "route (cross F) a p b" for p
    using ex_has_least_nat [where P = "\<lambda>q. route (cross F) a q b" and m = length, OF that]
    unfolding shortest_def by blast
  moreover have "route (cross F) a q b" if "shortest (cross F) a q b" for q using that by (simp add: shortest_def)
  moreover have "ps = [] \<longleftrightarrow> (\<nexists>q. shortest (cross F) a q b)"
    using r unfolding set_empty [symmetric] by (metis (mono_tags, lifting) empty_iff mem_Collect_eq Collect_empty_eq)
  ultimately have "ps = [] \<longleftrightarrow> (\<nexists>p. route (cross F) a p b)" by blast
  with ps r show ?thesis by blast
qed

theorem shortest_paths_exact_witness:
  "\<exists>ps. shortest_paths \<lparr>cables = [\<lparr>ca = 0, ca_port = 0, cb = 1, cb_port = 1\<rparr>, \<lparr>ca = 1, ca_port = 0, cb = 2, cb_port = 1\<rparr>]\<rparr> 0 2
      = Inr ps \<and> distinct ps
    \<and> set ps = {p. shortest (cross \<lparr>cables = [\<lparr>ca = 0, ca_port = 0, cb = 1, cb_port = 1\<rparr>, \<lparr>ca = 1, ca_port = 0, cb = 2, cb_port = 1\<rparr>]\<rparr>) 0 p 2}
    \<and> (ps = [] \<longleftrightarrow> (\<nexists>p. route (cross \<lparr>cables = [\<lparr>ca = 0, ca_port = 0, cb = 1, cb_port = 1\<rparr>, \<lparr>ca = 1, ca_port = 0, cb = 2, cb_port = 1\<rparr>]\<rparr>) 0 p 2))"
  by (rule shortest_paths_exact) (simp_all add: fabric_ok_def fabric_ends_def cable_ends_def)

end
