(* ===== verification/Lanes.thy ===== *)
theory Lanes
  imports Bfs
begin

text \<open>
  Layouts, the derivation of lanes and route maps, and their textual form
  (\<open>spark_transport/sircl/sparkring_sircl/routes.py\<close>), with the facts that every derived lane follows a
  shortest route, that the lanes of the two ends mirror each other, and that a walk out of a lane's
  port retraces it.
\<close>

section \<open>Layouts\<close>

record Layout =
  l_fabric :: Fabric
  l_positions :: "int list"

definition Layout_new :: "Fabric \<Rightarrow> int list \<Rightarrow> py_error + Layout" where
  "Layout_new F ps =
    (if \<not> distinct ps then Inl (RouteError ''ranks need distinct fabric positions'' [])
     else let missing = filter (\<lambda>p. p \<notin> set (fabric_positions F)) ps
       in if missing \<noteq> [] then Inl (RouteError ''positions are not on the fabric'' missing)
          else Inr \<lparr>l_fabric = F, l_positions = ps\<rparr>)"

definition layout_world :: "Layout \<Rightarrow> int" where
  "layout_world L = int (length (l_positions L))"

text \<open>\<open>layout.positions[rank]\<close> of a rank of the session.\<close>

definition position_of :: "Layout \<Rightarrow> int \<Rightarrow> int" where
  "position_of L rank = l_positions L ! nat rank"

definition layout_identity :: "Layout \<Rightarrow> fabric_kind \<times> int \<times> int list \<times> string list" where
  "layout_identity L = (kind (l_fabric L), int (length (fabric_positions (l_fabric L))), l_positions L,
    map cable_text (cables (l_fabric L)))"

definition parse_ints :: "string \<Rightarrow> py_error + int list" where
  "parse_ints text = map_res (\<lambda>w. case py_int w of Some i \<Rightarrow> Inr i
    | None \<Rightarrow> Inl (RouteError ''layout is malformed'' [])) (split_on (CHR '','') text)"

definition Layout_parse :: "string \<Rightarrow> py_error + Layout" where
  "Layout_parse raw =
    (let text = strip raw in
     if take 7 text = ''cables='' then
       (let (cables_part, _, positions_part) = partition_at (CHR '';'') text in
        bind_res (Fabric_parse (split_on (CHR '','') (drop 7 cables_part))) (\<lambda>F.
        if take 10 positions_part \<noteq> ''positions=''
        then Inl (RouteError ''an explicit layout names positions'' [])
        else bind_res (parse_ints (drop 10 positions_part)) (Layout_new F)))
     else
       (let (kind_text, _, rest) = partition_at (CHR '':'') text;
            (span, _, ranks) = partition_at (CHR '':'') rest in
        bind_res
          (if kind_text = ''ring'' then
             (case py_int span of None \<Rightarrow> Inl (RouteError ''layout is malformed'' []) | Some n \<Rightarrow> Fabric_ring n)
           else if kind_text = ''path'' then
             (let (lo, _, hi) = partition_at (CHR ''-'') span in
              (case (py_int lo, py_int hi) of
                 (Some a, Some b) \<Rightarrow> Fabric_path [a..b]
               | _ \<Rightarrow> Inl (RouteError ''layout is malformed'' [])))
           else Inl (RouteError ''layout is not ring:, path: or cables='' []))
          (\<lambda>F. if ranks \<noteq> [] then bind_res (parse_ints ranks) (Layout_new F)
               else Layout_new F (fabric_positions F))))"

section \<open>Lanes\<close>

record LaneRoute =
  r_lane :: int
  r_local :: Role
  r_remote :: Role
  r_steps :: "Step list"

definition lane_hops :: "LaneRoute \<Rightarrow> int" where
  "lane_hops r = int (length (r_steps r))"

definition lane_relays :: "LaneRoute \<Rightarrow> int list" where
  "lane_relays r = map s_dst (butlast (r_steps r))"

definition lane_cables :: "LaneRoute \<Rightarrow> string list" where
  "lane_cables r = map step_text (r_steps r)"

definition leaves_smaller_through_port0 :: "int \<Rightarrow> int \<Rightarrow> Step list \<Rightarrow> bool" where
  "leaves_smaller_through_port0 a b path =
    (if min a b = a then s_src_port (hd path) = 0 else s_dst_port (last path) = 0)"

definition choose_paths :: "int \<Rightarrow> int \<Rightarrow> Step list list \<Rightarrow> py_error + Step list \<times> Step list" where
  "choose_paths a b paths =
    (if paths = [] then Inl (RouteError ''cannot be reached on this fabric'' [b, a])
     else if length paths = 1 then Inr (paths ! 0, paths ! 0)
     else if length paths = 2 then
       (let path_a = filter (leaves_smaller_through_port0 a b) paths
        in if length path_a \<noteq> 1 then Inl (RouteError ''cannot tell path A from path B'' [a, b])
           else Inr (path_a ! 0, if paths ! 0 = path_a ! 0 then paths ! 1 else paths ! 0))
     else Inl (RouteError ''shortest paths between positions'' [int (length paths), a, b]))"

definition make_lane :: "Role list \<Rightarrow> Step list \<Rightarrow> int \<Rightarrow> py_error + LaneRoute" where
  "make_lane R path lane =
    bind_res (role_at R (s_src_port (hd path)) (lane = 1)) (\<lambda>here.
    bind_res (role_at R (s_dst_port (last path)) (lane = 1)) (\<lambda>there.
    Inr \<lparr>r_lane = lane, r_local = here, r_remote = there, r_steps = path\<rparr>))"

definition derive_lanes :: "Role list \<Rightarrow> Fabric \<Rightarrow> int \<Rightarrow> int \<Rightarrow> int \<Rightarrow> py_error + LaneRoute list" where
  "derive_lanes R F a b lanes =
    (if \<not> (lanes = 1 \<or> lanes = 2) then Inl (RouteError ''a session has one or two lanes per peer'' [])
     else bind_res (shortest_paths F a b) (\<lambda>paths.
       bind_res (choose_paths a b paths) (\<lambda>chosen.
       map_res (\<lambda>lane. make_lane R (if lane = 0 then fst chosen else snd chosen) lane) (py_range lanes))))"

section \<open>Route maps\<close>

record GroupRoutes =
  g_layout :: Layout
  g_lanes :: int
  g_ranks :: "(int, LaneRoute list) dict list"

definition group_world :: "GroupRoutes \<Rightarrow> int" where
  "group_world G = layout_world (g_layout G)"

type_synonym route_map = "(int, string list) dict"

definition route_map :: "GroupRoutes \<Rightarrow> int \<Rightarrow> route_map" where
  "route_map G rank = map (\<lambda>(peer, lanes). (peer, map (\<lambda>l. role_device (r_local l)) lanes)) (ditems (g_ranks G ! nat rank))"

definition lanes_to :: "GroupRoutes \<Rightarrow> int \<Rightarrow> int \<Rightarrow> py_error + LaneRoute list" where
  "lanes_to G rank peer = (case dget (g_ranks G ! nat rank) peer of
     Some lanes \<Rightarrow> Inr lanes | None \<Rightarrow> Inl (KeyErr ''peer'' [peer]))"

definition max_relays :: "GroupRoutes \<Rightarrow> int" where
  "max_relays G = Max (insert 0 (set (map (\<lambda>l. int (length (lane_relays l)))
    (concat (concat (map (map snd) (g_ranks G)))))))"

definition rank_lanes :: "Role list \<Rightarrow> Layout \<Rightarrow> int \<Rightarrow> int \<Rightarrow> py_error + (int, LaneRoute list) dict" where
  "rank_lanes R L lanes rank =
    map_res (\<lambda>peer. bind_res (derive_lanes R (l_fabric L) (position_of L rank) (position_of L peer) lanes)
        (\<lambda>ls. Inr (peer, ls)))
      (filter (\<lambda>peer. peer \<noteq> rank) (py_range (layout_world L)))"

definition derive_routes :: "Role list \<Rightarrow> Layout \<Rightarrow> int \<Rightarrow> py_error + GroupRoutes" where
  "derive_routes R L lanes =
    bind_res (map_res (rank_lanes R L lanes) (py_range (layout_world L)))
      (\<lambda>ranks. Inr \<lparr>g_layout = L, g_lanes = lanes, g_ranks = ranks\<rparr>)"

section \<open>Walks retrace shortest routes\<close>

lemma walk_shortest:
  assumes "fabric_ok F"
  shows "shortest (cross F) a p b \<Longrightarrow> p \<noteq> [] \<Longrightarrow> length p \<le> n \<Longrightarrow> walk_from F a (s_src_port (hd p)) b n = Some p"
proof (induction p arbitrary: a n)
  case (Cons s p)
  obtain m where n: "n = Suc m" using Cons.prems by (cases n) auto
  have c: "cross F a (s_src_port s) = Some s" using Cons.prems by (auto simp: shortest_def)
  show ?case
  proof (cases p)
    case Nil
    then have "s_dst s = b" using Cons.prems by (auto simp: shortest_def)
    then show ?thesis using Nil n c by simp
  next
    case (Cons t q)
    have sh: "shortest (cross F) (s_dst s) p b" using shortest_tail Cons.prems(1) by blast
    have "s_src_port t = 1 - s_dst_port s"
      using fab.shortest_straight [OF assms] Cons.prems(1) Cons by blast
    moreover have "s_dst s \<noteq> b"
    proof
      assume "s_dst s = b"
      then have "route (cross F) (s_dst s) [] b" by simp
      then show False using sh Cons unfolding shortest_def by fastforce
    qed
    moreover have "walk_from F (s_dst s) (s_src_port (hd p)) b m = Some p"
      using Cons.IH [OF sh] Cons.prems Cons n by auto
    ultimately show ?thesis using n c Cons by simp
  qed
qed simp

lemma fabric_positions_set [simp]: "set (fabric_positions F) = fst ` set (fabric_ends F)"
  by (simp add: fabric_positions_def)

lemma route_nodes: "route (cross F) a p b \<Longrightarrow> set (map s_dst p) \<subseteq> fst ` set (fabric_ends F)"
  using cross_node by (induction p arbitrary: a) auto

lemma shortest_length:
  assumes "shortest (cross F) a p b" "a \<in> set (fabric_positions F)"
  shows "length p < length (fabric_positions F)"
proof -
  have "distinct (a # map s_dst p)" using shortest_simple assms by blast
  then have "length (a # map s_dst p) = card (set (a # map s_dst p))" by (metis distinct_card)
  also have "\<dots> \<le> card (set (fabric_positions F))"
    using route_nodes [of F a p b] assms by (intro card_mono) (auto simp: shortest_def)
  also have "\<dots> = length (fabric_positions F)" by (simp add: fabric_positions_def distinct_card)
  finally show ?thesis by simp
qed

text \<open>A walk is determined by its first port, so there are at most two shortest routes.\<close>

lemma shortest_by_port:
  assumes F: "fabric_ok F" and "shortest (cross F) a p b" "shortest (cross F) a q b" "a \<noteq> b"
    and "s_src_port (hd p) = s_src_port (hd q)"
  shows "p = q"
proof -
  have "length p = length q" using assms by (meson le_antisym shortest_def)
  moreover have "p \<noteq> []" "q \<noteq> []" using assms by (auto simp: shortest_def)
  ultimately show ?thesis
    using walk_shortest [OF F assms(2), of "length p"] walk_shortest [OF F assms(3), of "length p"] assms(5) by simp
qed

lemma hd_rev_flip: "p \<noteq> [] \<Longrightarrow> s_src_port (hd (rev (map flip p))) = s_dst_port (last p)"
  by (simp add: hd_rev last_map)

lemma last_rev_flip: "p \<noteq> [] \<Longrightarrow> s_dst_port (last (rev (map flip p))) = s_src_port (hd p)"
  by (simp add: last_rev hd_map)

lemma map_flip_inj [simp]: "map flip p = map flip q \<longleftrightarrow> p = q"
  by (rule inj_map_eq_map) (simp add: inj_def)

lemma rev_flip_flip [simp]: "rev (map flip (rev (map flip p))) = p"
  by (simp add: rev_map o_def)

lemma shortest_by_arrival:
  assumes F: "fabric_ok F" and s: "shortest (cross F) a p b" "shortest (cross F) a q b" and "a \<noteq> b"
    and "s_dst_port (last p) = s_dst_port (last q)"
  shows "p = q"
proof -
  have "p \<noteq> []" "q \<noteq> []" using assms by (auto simp: shortest_def)
  then have "rev (map flip p) = rev (map flip q)"
    using shortest_by_port [OF F fab.shortest_flip [OF F s(1)] fab.shortest_flip [OF F s(2)]] assms(4,5)
    by (simp add: hd_rev_flip)
  then show ?thesis by simp
qed

lemma hd_port:
  assumes "fabric_ok F" "shortest (cross F) a p b" "a \<noteq> b"
  shows "s_src_port (hd p) = 0 \<or> s_src_port (hd p) = 1"
  using fab.shortest_src_port [OF assms(1,2), of "hd p"] assms by (cases p) (auto simp: shortest_def)

lemma last_port:
  assumes "fabric_ok F" "shortest (cross F) a p b" "a \<noteq> b"
  shows "s_dst_port (last p) = 0 \<or> s_dst_port (last p) = 1"
  using hd_port [OF assms(1) fab.shortest_flip [OF assms(1,2)]] assms hd_rev_flip [of p]
  by (cases p) (auto simp: shortest_def)

text \<open>The lane choice, as a function of the set of shortest routes alone.\<close>

definition lane_path :: "Fabric \<Rightarrow> int \<Rightarrow> int \<Rightarrow> int \<Rightarrow> Step list \<Rightarrow> bool" where
  "lane_path F a b lane p \<longleftrightarrow> shortest (cross F) a p b
    \<and> ((\<exists>q. shortest (cross F) a q b \<and> q \<noteq> p) \<longrightarrow> (leaves_smaller_through_port0 a b p \<longleftrightarrow> lane = 0))"

lemma leaves_flip:
  "p \<noteq> [] \<Longrightarrow> a \<noteq> b \<Longrightarrow> leaves_smaller_through_port0 b a (rev (map flip p)) = leaves_smaller_through_port0 a b p"
  by (auto simp: leaves_smaller_through_port0_def min_def hd_rev_flip last_rev_flip)

lemma leaves_differ:
  assumes F: "fabric_ok F" and s: "shortest (cross F) a p b" "shortest (cross F) a q b" and "a \<noteq> b" "p \<noteq> q"
  shows "leaves_smaller_through_port0 a b p \<noteq> leaves_smaller_through_port0 a b q"
  using shortest_by_port [OF F s] shortest_by_arrival [OF F s] assms(4,5)
    hd_port [OF F s(1)] hd_port [OF F s(2)] last_port [OF F s(1)] last_port [OF F s(2)]
  by (auto simp: leaves_smaller_through_port0_def)

lemma lane_path_unique:
  assumes "fabric_ok F" "a \<noteq> b" "lane_path F a b lane p" "lane_path F a b lane q"
  shows "p = q"
  using assms leaves_differ [OF assms(1)] unfolding lane_path_def by metis

lemma lane_path_flip:
  assumes F: "fabric_ok F" and "a \<noteq> b" and p: "lane_path F a b lane p"
  shows "lane_path F b a lane (rev (map flip p))"
proof -
  have sh: "shortest (cross F) a p b" using p by (simp add: lane_path_def)
  then have ne: "p \<noteq> []" using assms(2) by (auto simp: shortest_def)
  show ?thesis unfolding lane_path_def
  proof (intro conjI impI)
    show "shortest (cross F) b (rev (map flip p)) a" using fab.shortest_flip [OF F sh] .
    assume "\<exists>q. shortest (cross F) b q a \<and> q \<noteq> rev (map flip p)"
    then obtain q where q: "shortest (cross F) b q a" "q \<noteq> rev (map flip p)" by blast
    have "shortest (cross F) a (rev (map flip q)) b" "rev (map flip q) \<noteq> p"
      using fab.shortest_flip [OF F q(1)] q(2) rev_flip_flip by metis+
    then show "leaves_smaller_through_port0 b a (rev (map flip p)) = (lane = 0)"
      using p leaves_flip [OF ne assms(2)] by (auto simp: lane_path_def)
  qed
qed

text \<open>\<open>choose_paths\<close> never fails on the routes \<open>shortest_paths\<close> finds, and gives each lane its route.\<close>

lemma choose_paths_ok:
  assumes F: "fabric_ok F" and sp: "shortest_paths F a b = Inr paths" and ne: "paths \<noteq> []"
  shows "\<exists>p q. choose_paths a b paths = Inr (p, q) \<and> lane_path F a b 0 p \<and> lane_path F a b 1 q"
proof -
  note r = shortest_paths_Inr [OF F sp]
  then have ab: "a \<noteq> b" and S: "\<And>p. p \<in> set paths \<longleftrightarrow> shortest (cross F) a p b" and d: "distinct paths" by auto
  have "length paths = card ((\<lambda>p. s_src_port (hd p)) ` set paths)"
    using d shortest_by_port [OF F] S ab by (subst card_image) (auto simp: inj_on_def distinct_card)
  also have "\<dots> \<le> card {0, 1 :: int}" using hd_port [OF F] S ab by (intro card_mono) auto
  finally have "length paths \<le> 2" by simp
  then consider p where "paths = [p]" | p q where "paths = [p, q]" "p \<noteq> q"
    using ne d by (cases paths; cases "tl paths") auto
  then show ?thesis
  proof cases
    case 1
    then have "\<And>q. shortest (cross F) a q b \<longleftrightarrow> q = p" using S by auto
    then show ?thesis using 1 by (auto simp: choose_paths_def lane_path_def)
  next
    case 2
    have both: "shortest (cross F) a p b" "shortest (cross F) a q b" using S 2 by auto
    have df: "leaves_smaller_through_port0 a b p \<noteq> leaves_smaller_through_port0 a b q"
      using leaves_differ [OF F both ab] 2 by simp
    then show ?thesis using 2 both by (auto simp: choose_paths_def lane_path_def)
  qed
qed

section \<open>What the derivation returns\<close>

definition lane_of :: "Role list \<Rightarrow> Fabric \<Rightarrow> int \<Rightarrow> int \<Rightarrow> int \<Rightarrow> LaneRoute \<Rightarrow> bool" where
  "lane_of R F a b lane r \<longleftrightarrow> r_lane r = lane \<and> lane_path F a b lane (r_steps r)
    \<and> role_at R (s_src_port (hd (r_steps r))) (lane = 1) = Inr (r_local r)
    \<and> role_at R (s_dst_port (last (r_steps r))) (lane = 1) = Inr (r_remote r)"

lemma make_lane_ok:
  assumes F: "fabric_ok F" and R: "roles_ok R" and "a \<noteq> b" "lane_path F a b lane p"
  shows "\<exists>r. make_lane R p lane = Inr r \<and> lane_of R F a b lane r"
proof -
  have sh: "shortest (cross F) a p b" using assms(4) by (simp add: lane_path_def)
  obtain h where h: "role_at R (s_src_port (hd p)) (lane = 1) = Inr h"
    using role_at_ok [OF R hd_port [OF F sh assms(3)]] by blast
  obtain t where t: "role_at R (s_dst_port (last p)) (lane = 1) = Inr t"
    using role_at_ok [OF R last_port [OF F sh assms(3)]] by blast
  show ?thesis using h t assms(4) by (simp add: make_lane_def lane_of_def)
qed

lemma make_lane_Inr: "make_lane R p lane = Inr r \<Longrightarrow> r_steps r = p \<and> r_lane r = lane
    \<and> role_at R (s_src_port (hd p)) (lane = 1) = Inr (r_local r)
    \<and> role_at R (s_dst_port (last p)) (lane = 1) = Inr (r_remote r)"
  by (auto simp: make_lane_def bind_res_Inr)

lemma derive_lanes_Inr:
  assumes F: "fabric_ok F" and d: "derive_lanes R F a b lanes = Inr ls"
  shows "a \<noteq> b \<and> (lanes = 1 \<or> lanes = 2) \<and> length ls = nat lanes
    \<and> (\<forall>l. 0 \<le> l \<and> l < lanes \<longrightarrow> lane_of R F a b l (ls ! nat l))"
proof -
  obtain paths chosen where sp: "shortest_paths F a b = Inr paths" and ch: "choose_paths a b paths = Inr chosen"
    and m: "map_res (\<lambda>lane. make_lane R (if lane = 0 then fst chosen else snd chosen) lane) (py_range lanes) = Inr ls"
    and l: "lanes = 1 \<or> lanes = 2"
    using d by (auto simp: derive_lanes_def bind_res_Inr split: if_splits)
  have "paths \<noteq> []" using ch by (auto simp: choose_paths_def)
  then obtain p q where pq: "chosen = (p, q)" "lane_path F a b 0 p" "lane_path F a b 1 q"
    using choose_paths_ok [OF F sp] ch by auto
  have len: "length ls = nat lanes" using map_res_length [OF m] by simp
  have "lane_of R F a b i (ls ! nat i)" if "0 \<le> i" "i < lanes" for i
  proof -
    have "make_lane R (if i = 0 then p else q) i = Inr (ls ! nat i)"
      using map_res_nth [OF m, of "nat i"] that unfolding pq(1) fst_conv snd_conv by simp
    moreover have "i = 0 \<or> i = 1" using that l by auto
    ultimately show ?thesis using make_lane_Inr pq by (auto simp: lane_of_def)
  qed
  with len l shortest_paths_Inr [OF F sp] show ?thesis by blast
qed

lemma derive_lanes_total:
  assumes F: "fabric_ok F" and R: "roles_ok R" and "a \<noteq> b" "lanes = 1 \<or> lanes = 2"
    and reach: "route (cross F) a p b"
  shows "\<exists>ls. derive_lanes R F a b lanes = Inr ls"
proof -
  obtain paths where sp: "shortest_paths F a b = Inr paths"
    using shortest_paths_total [OF assms(3)] by blast
  have "\<exists>q. shortest (cross F) a q b"
    using ex_has_least_nat [where P = "\<lambda>q. route (cross F) a q b" and m = length, OF reach]
    unfolding shortest_def by blast
  then have "paths \<noteq> []" using shortest_paths_Inr [OF F sp] by auto
  then obtain p q where ch: "choose_paths a b paths = Inr (p, q)" and pq: "lane_path F a b 0 p" "lane_path F a b 1 q"
    using choose_paths_ok [OF F sp] by blast
  have mk: "\<exists>r. make_lane R (if i = 0 then p else q) i = Inr r" if "i \<in> set (py_range lanes)" for i
  proof -
    have "i = 0 \<or> i = 1" using that assms(4) by auto
    then show ?thesis
      using make_lane_ok [OF F R assms(3) pq(1)] make_lane_ok [OF F R assms(3) pq(2)] by auto
  qed
  then have "map_res (\<lambda>i. make_lane R (if i = 0 then p else q) i) (py_range lanes)
      = Inr (map (\<lambda>i. projr (make_lane R (if i = 0 then p else q) i)) (py_range lanes))"
    by (intro map_res_total) (metis sum.sel(2))
  then have "\<exists>ls. map_res (\<lambda>lane. make_lane R (if lane = 0 then fst (p, q) else snd (p, q)) lane) (py_range lanes) = Inr ls"
    unfolding fst_conv snd_conv by blast
  then show ?thesis using sp ch assms(4) by (simp add: derive_lanes_def)
qed

text \<open>The two directions of a lane are each other's reverse.\<close>

lemma lanes_mirror:
  assumes F: "fabric_ok F" and ab: "a \<noteq> b" and r: "lane_of R F a b l r" and s: "lane_of R F b a l s"
  shows "r_steps s = rev (map flip (r_steps r)) \<and> r_local s = r_remote r \<and> r_remote s = r_local r"
proof -
  have ne: "r_steps r \<noteq> []" using r ab by (auto simp: lane_of_def lane_path_def shortest_def)
  have "lane_path F b a l (rev (map flip (r_steps r)))" using lane_path_flip [OF F ab] r by (simp add: lane_of_def)
  then have st: "r_steps s = rev (map flip (r_steps r))"
    using lane_path_unique [OF F ab [symmetric]] s by (auto simp: lane_of_def)
  then show ?thesis using r s ne by (simp add: lane_of_def hd_rev_flip last_rev_flip)
qed

end
