(* ===== verification/RouteMaps.thy ===== *)
theory RouteMaps
  imports Lanes
begin

text \<open>
  Route maps (\<open>spark_transport/sircl/sparkring_sircl/routes.py\<close>): their text, the validation of one
  rank's map and the check that the lanes of every pair of ranks meet.
\<close>

section \<open>Textual form\<close>

fun parse_entries :: "string list \<Rightarrow> route_map \<Rightarrow> py_error + route_map" where
  "parse_entries [] routes = Inr routes"
| "parse_entries (raw # rest) routes =
    (let entry = strip raw in
     if entry = [] then Inl (RouteError ''route map has an empty entry'' [])
     else
       (let (peer_text, separator, devices_text) = partition_at (CHR ''='') entry in
        if \<not> separator then Inl (RouteError ''route map entry is not peer=device'' [])
        else (case py_int (strip peer_text) of
            None \<Rightarrow> Inl (RouteError ''route map entry names a peer that is not a rank'' [])
          | Some peer \<Rightarrow>
              if dget routes peer \<noteq> None then Inl (RouteError ''route map names a rank twice'' [peer])
              else parse_entries rest (dset peer (map strip (split_on (CHR ''/'') devices_text)) routes))))"

definition parse_peer_routes :: "string option \<Rightarrow> py_error + route_map" where
  "parse_peer_routes text = (case text of
     None \<Rightarrow> Inl (RouteError ''the route map is empty'' [])
   | Some t \<Rightarrow> if strip t = [] then Inl (RouteError ''the route map is empty'' [])
       else parse_entries (split_on (CHR '','') t) [])"

definition format_entry :: "int \<times> string list \<Rightarrow> string" where
  "format_entry e = str_of_int (fst e) @ CHR ''='' # join_with (CHR ''/'') (snd e)"

definition format_peer_routes :: "route_map \<Rightarrow> string" where
  "format_peer_routes routes = join_with (CHR '','') (map format_entry (ditems routes))"

definition route_text :: "GroupRoutes \<Rightarrow> int \<Rightarrow> string" where
  "route_text G rank = format_peer_routes (route_map G rank)"

section \<open>Validation\<close>

text \<open>\<open>for peer, devices in sorted(routes.items()): for lane, device in enumerate(devices)\<close>.\<close>

definition lane_entries :: "route_map \<Rightarrow> (int \<times> int \<times> string) list" where
  "lane_entries routes = concat (map (\<lambda>(peer, devices).
    map (\<lambda>(i, device). (peer, int i, device)) (List.enumerate 0 devices)) (ditems routes))"

definition check_entry :: "int \<Rightarrow> int \<times> string list \<Rightarrow> py_error + unit" where
  "check_entry rank e =
    (if [] \<in> set (snd e) then Inl (RouteError ''entry has an empty device name'' [rank, fst e])
     else if \<not> distinct (snd e) then Inl (RouteError ''entry names a device twice'' [rank, fst e])
     else Inr ())"

definition check_lane :: "Role list \<Rightarrow> role_names \<Rightarrow> Layout \<Rightarrow> int \<Rightarrow> int \<Rightarrow> int \<times> int \<times> string \<Rightarrow> py_error + unit" where
  "check_lane R names L rank limit e = (let (peer, lane, device) = e in
    bind_res (py_index (l_positions L) rank) (\<lambda>start.
    (case role_of R names device of
       None \<Rightarrow> Inl (RouteError ''uses a device whose port and function the layout check cannot tell'' [rank, lane, peer])
     | Some role \<Rightarrow> bind_res (py_index (l_positions L) peer) (\<lambda>there.
         (case walk (l_fabric L) start (role_port role) there (int (length (fabric_positions (l_fabric L)))) of
            None \<Rightarrow> Inl (RouteError ''crosses a Spark outside the fabric of the group'' [rank, lane, peer])
          | Some steps \<Rightarrow>
              if int (length steps) - 1 > limit
              then Inl (RouteError ''crosses too many relays'' [rank, lane, peer, int (length steps) - 1, limit])
              else Inr ())))))"

definition validate_route_map ::
  "Role list \<Rightarrow> int \<Rightarrow> int \<Rightarrow> route_map \<Rightarrow> Layout option \<Rightarrow> int \<Rightarrow> string list option \<Rightarrow> role_names \<Rightarrow> py_error + int" where
  "validate_route_map R rank world routes layout limit available names =
    (if \<not> (0 \<le> rank \<and> rank < world) then Inl (RouteError ''rank is outside the session'' [rank, world])
     else if dget routes rank \<noteq> None then Inl (RouteError ''route map names its own rank'' [rank])
     else
     let missing = filter (\<lambda>peer. peer \<noteq> rank \<and> dget routes peer = None) (py_range world);
         extra = sort (filter (\<lambda>peer. \<not> (0 \<le> peer \<and> peer < world)) (map fst routes));
         counts = remdups (map (\<lambda>e. int (length (snd e))) routes)
     in if missing \<noteq> [] then Inl (RouteError ''route map has no entry for rank'' [rank, hd missing])
     else if extra \<noteq> [] then Inl (RouteError ''route map names a rank outside the session'' [rank, hd extra])
     else if length counts \<noteq> 1 then Inl (RouteError ''route map entries have different lane counts'' (rank # sort counts))
     else
     let lanes = hd counts
     in if \<not> (1 \<le> lanes \<and> lanes \<le> 2) then Inl (RouteError ''one or two lanes per peer are supported'' [rank, lanes])
     else bind_res (map_res (check_entry rank) (ditems routes)) (\<lambda>_.
     let named = dedup (concat (map snd (ditems routes)))
     in if \<not> (1 \<le> length named \<and> length named \<le> 4) then Inl (RouteError ''1 to 4 devices are supported'' [rank, int (length named)])
     else bind_res
       (case available of
          None \<Rightarrow> Inr ()
        | Some have \<Rightarrow> guard (list_all (\<lambda>d. d \<in> set have) named)
            (RouteError ''route map names a device which is not an active RDMA device of this host'' [rank]))
       (\<lambda>_.
     case layout of
       None \<Rightarrow> Inr lanes
     | Some L \<Rightarrow>
         if layout_world L \<noteq> world then Inl (RouteError ''layout and session have different ranks'' [layout_world L, world])
         else bind_res (map_res (check_lane R names L rank limit) (lane_entries routes)) (\<lambda>_. Inr lanes))))"

section \<open>Complementary lanes\<close>

datatype pair_problem =
  CannotCheck int int int
| DoesNotReach int int int
| WrongEnd int int int string

definition pair_check ::
  "Role list \<Rightarrow> role_names \<Rightarrow> Layout \<Rightarrow> route_map list \<Rightarrow> int \<Rightarrow> int \<times> int \<times> string \<Rightarrow> py_error + pair_problem list" where
  "pair_check R names L maps rank e = (let (peer, lane, device) = e; mine = role_of R names device in
    bind_res (py_index maps peer) (\<lambda>back_map.
    let returned = dget_or back_map rank [];
        theirs_device = (if lane < int (length returned) then Some (returned ! nat lane) else None)
    in (case (mine, theirs_device) of
       (Some m, Some d) \<Rightarrow>
         bind_res (py_index (l_positions L) rank) (\<lambda>start.
         bind_res (py_index (l_positions L) peer) (\<lambda>there.
         (case walk (l_fabric L) start (role_port m) there (int (length (fabric_positions (l_fabric L)))) of
            None \<Rightarrow> Inr [DoesNotReach lane rank peer]
          | Some steps \<Rightarrow>
              bind_res (role_at R (s_dst_port (last steps)) (role_secondary m)) (\<lambda>expected.
              if role_of R names d \<noteq> Some expected then Inr [WrongEnd lane rank peer d] else Inr []))))
     | _ \<Rightarrow> Inr [CannotCheck lane rank peer])))"

definition check_complementary ::
  "Role list \<Rightarrow> role_names \<Rightarrow> Layout \<Rightarrow> route_map list \<Rightarrow> py_error + pair_problem list" where
  "check_complementary R names L maps =
    bind_res (map_res (\<lambda>(rank, routes). map_res (pair_check R names L maps (int rank)) (lane_entries routes))
        (List.enumerate 0 maps))
      (\<lambda>found. Inr (concat (concat found)))"

text \<open>The route maps of every rank of a group.\<close>

definition route_maps :: "GroupRoutes \<Rightarrow> route_map list" where
  "route_maps G = map (route_map G) (py_range (group_world G))"

section \<open>The derived maps\<close>

definition layout_ok :: "Layout \<Rightarrow> bool" where
  "layout_ok L \<longleftrightarrow> fabric_ok (l_fabric L) \<and> distinct (l_positions L)
    \<and> set (l_positions L) \<subseteq> set (fabric_positions (l_fabric L))"

lemma Layout_new_ok: "fabric_ok F \<Longrightarrow> Layout_new F ps = Inr L \<Longrightarrow> layout_ok L \<and> l_fabric L = F \<and> l_positions L = ps"
  by (auto simp: Layout_new_def layout_ok_def Let_def filter_empty_conv split: if_splits)

lemma map_res_filter_keys:
  "map_res (\<lambda>k. bind_res (f k) (\<lambda>v. Inr (k, v))) ks = Inr d \<Longrightarrow> map fst d = ks \<and> (\<forall>(k, v)\<in>set d. f k = Inr v)"
proof (induction ks arbitrary: d)
  case (Cons k ks)
  then show ?case by (auto simp: bind_res_Inr)
qed simp

lemma rank_lanes_Inr:
  assumes "rank_lanes R L lanes rank = Inr d"
  shows "map fst d = filter (\<lambda>peer. peer \<noteq> rank) (py_range (layout_world L)) \<and> ditems d = d
    \<and> (\<forall>(peer, ls)\<in>set d. derive_lanes R (l_fabric L) (position_of L rank) (position_of L peer) lanes = Inr ls)"
proof -
  have k: "map fst d = filter (\<lambda>peer. peer \<noteq> rank) (py_range (layout_world L))"
    and v: "\<forall>(peer, ls)\<in>set d. derive_lanes R (l_fabric L) (position_of L rank) (position_of L peer) lanes = Inr ls"
    using map_res_filter_keys [OF assms [unfolded rank_lanes_def]] by auto
  have "sorted (map fst d)" unfolding k by (intro sorted_wrt_filter) (use sorted_py_range in blast)
  then show ?thesis using k v ditems_sorted by blast
qed

text \<open>
  Everything the checks need of a derived route map: its peers, and for each of its lanes the derived
  lane route behind it.
\<close>

lemma derived_map:
  assumes L: "layout_ok L" and d: "derive_routes R L lanes = Inr G" and r: "0 \<le> rank" "rank < layout_world L"
  shows "group_world G = layout_world L \<and> length (g_ranks G) = nat (layout_world L)
    \<and> map fst (route_map G rank) = filter (\<lambda>peer. peer \<noteq> rank) (py_range (layout_world L))
    \<and> ditems (route_map G rank) = route_map G rank
    \<and> (\<forall>(peer, devices)\<in>set (route_map G rank). 0 \<le> peer \<and> peer < layout_world L \<and> peer \<noteq> rank
        \<and> (\<exists>ls. derive_lanes R (l_fabric L) (position_of L rank) (position_of L peer) lanes = Inr ls
            \<and> devices = map (\<lambda>l. role_device (r_local l)) ls))"
proof -
  obtain ranks where m: "map_res (rank_lanes R L lanes) (py_range (layout_world L)) = Inr ranks"
    and G: "G = \<lparr>g_layout = L, g_lanes = lanes, g_ranks = ranks\<rparr>"
    using d by (auto simp: derive_routes_def bind_res_Inr)
  have len: "length ranks = nat (layout_world L)" using map_res_length [OF m] by simp
  have e: "rank_lanes R L lanes rank = Inr (ranks ! nat rank)" using map_res_nth [OF m, of "nat rank"] r by simp
  note rl = rank_lanes_Inr [OF e]
  have rm: "route_map G rank = map (\<lambda>(peer, ls). (peer, map (\<lambda>l. role_device (r_local l)) ls)) (ranks ! nat rank)"
    using rl by (simp add: route_map_def G)
  have k: "map fst (route_map G rank) = map fst (ranks ! nat rank)" unfolding rm by auto
  have "sorted (map fst (route_map G rank))"
    unfolding k using rl by (auto intro: sorted_wrt_filter)
  then have di: "ditems (route_map G rank) = route_map G rank" by (rule ditems_sorted)
  have inside: "0 \<le> peer \<and> peer < layout_world L \<and> peer \<noteq> rank" if "(peer, ls) \<in> set (ranks ! nat rank)" for peer ls
  proof -
    have "peer \<in> set (map fst (ranks ! nat rank))" using that by force
    then show ?thesis using rl by simp
  qed
  have each: "0 \<le> peer \<and> peer < layout_world L \<and> peer \<noteq> rank
        \<and> (\<exists>ls. derive_lanes R (l_fabric L) (position_of L rank) (position_of L peer) lanes = Inr ls
            \<and> devices = map (\<lambda>l. role_device (r_local l)) ls)"
    if pd: "(peer, devices) \<in> set (route_map G rank)" for peer devices
  proof -
    obtain ls where ls: "(peer, ls) \<in> set (ranks ! nat rank)" "devices = map (\<lambda>l. role_device (r_local l)) ls"
      using pd unfolding rm by auto
    have "derive_lanes R (l_fabric L) (position_of L rank) (position_of L peer) lanes = Inr ls" using rl ls(1) by blast
    with inside [OF ls(1)] ls(2) show ?thesis by blast
  qed
  have "map fst (route_map G rank) = filter (\<lambda>peer. peer \<noteq> rank) (py_range (layout_world L))" using k rl by simp
  moreover have "group_world G = layout_world L" "length (g_ranks G) = nat (layout_world L)"
    using len by (simp_all add: G group_world_def)
  ultimately show ?thesis using di each by blast
qed

text \<open>One lane of a derived map, with what a walk out of its device's port gives.\<close>

definition derived_lane :: "Role list \<Rightarrow> Layout \<Rightarrow> int \<Rightarrow> int \<Rightarrow> int \<Rightarrow> LaneRoute \<Rightarrow> bool" where
  "derived_lane R L rank peer lane r \<longleftrightarrow>
    lane_of R (l_fabric L) (position_of L rank) (position_of L peer) lane r"

lemma lane_entries_in:
  "(peer, lane, device) \<in> set (lane_entries routes) \<longleftrightarrow>
    (\<exists>devices. (peer, devices) \<in> set routes \<and> 0 \<le> lane \<and> lane < int (length devices) \<and> device = devices ! nat lane)"
proof
  assume "(peer, lane, device) \<in> set (lane_entries routes)"
  then obtain devices i where "(peer, devices) \<in> set routes" "(i, device) \<in> set (List.enumerate 0 devices)" "lane = int i"
    by (auto simp: lane_entries_def)
  then show "\<exists>devices. (peer, devices) \<in> set routes \<and> 0 \<le> lane \<and> lane < int (length devices) \<and> device = devices ! nat lane"
    by (auto simp: in_set_enumerate_eq)
next
  assume "\<exists>devices. (peer, devices) \<in> set routes \<and> 0 \<le> lane \<and> lane < int (length devices) \<and> device = devices ! nat lane"
  then obtain devices where d: "(peer, devices) \<in> set routes" "0 \<le> lane" "lane < int (length devices)" "device = devices ! nat lane"
    by blast
  then have "(nat lane, device) \<in> set (List.enumerate 0 devices)" by (simp add: in_set_enumerate_eq nat_less_iff)
  then have "(\<lambda>(i, device). (peer, int i, device)) (nat lane, device) \<in> set (map (\<lambda>(i, device). (peer, int i, device)) (List.enumerate 0 devices))"
    unfolding set_map by (rule imageI)
  then have "(peer, lane, device) \<in> set ((\<lambda>(peer, devices). map (\<lambda>(i, device). (peer, int i, device)) (List.enumerate 0 devices)) (peer, devices))"
    using d(2) by simp
  moreover have "set (lane_entries routes) = (\<Union>e\<in>set routes. set ((\<lambda>(peer, devices).
      map (\<lambda>(i, device). (peer, int i, device)) (List.enumerate 0 devices)) e))"
    by (simp add: lane_entries_def)
  ultimately show "(peer, lane, device) \<in> set (lane_entries routes)"
    using UN_I [OF d(1)] by (simp only:)
qed

lemma position_distinct:
  assumes "layout_ok L" "0 \<le> i" "i < layout_world L" "0 \<le> j" "j < layout_world L" "i \<noteq> j"
  shows "position_of L i \<noteq> position_of L j"
  using assms by (auto simp: layout_ok_def position_of_def layout_world_def nth_eq_iff_index_eq)

lemma position_on_fabric:
  "layout_ok L \<Longrightarrow> 0 \<le> i \<Longrightarrow> i < layout_world L \<Longrightarrow> position_of L i \<in> set (fabric_positions (l_fabric L))"
  unfolding layout_ok_def position_of_def layout_world_def by (metis nat_less_iff nth_mem subsetD)

lemma lane_of_device:
  assumes "fabric_ok F" "roles_ok R" "a \<noteq> b" "lane_of R F a b lane r"
  shows "role_of R None (role_device (r_local r)) = Some (r_local r) \<and> role_device (r_local r) \<noteq> []
    \<and> role_port (r_local r) = s_src_port (hd (r_steps r)) \<and> role_secondary (r_local r) = (lane = 1)
    \<and> r_local r \<in> set R"
proof -
  have sh: "shortest (cross F) a (r_steps r) b" using assms by (simp add: lane_of_def lane_path_def)
  show ?thesis using role_at_ok [OF assms(2) hd_port [OF assms(1) sh assms(3)], of "lane = 1"] assms(4)
    by (auto simp: lane_of_def)
qed

lemma lane_of_walk:
  assumes L: "layout_ok L" and R: "roles_ok R"
    and ij: "0 \<le> i" "i < layout_world L" "0 \<le> j" "j < layout_world L" "i \<noteq> j"
    and r: "derived_lane R L i j lane r"
  shows "walk (l_fabric L) (position_of L i) (role_port (r_local r)) (position_of L j)
      (int (length (fabric_positions (l_fabric L)))) = Some (r_steps r) \<and> r_steps r \<noteq> []"
proof -
  have F: "fabric_ok (l_fabric L)" using L by (simp add: layout_ok_def)
  have ne: "position_of L i \<noteq> position_of L j" using position_distinct [OF L ij] .
  have sh: "shortest (cross (l_fabric L)) (position_of L i) (r_steps r) (position_of L j)"
    using r by (simp add: derived_lane_def lane_of_def lane_path_def)
  have st: "r_steps r \<noteq> []" using sh ne by (auto simp: shortest_def)
  have "length (r_steps r) < length (fabric_positions (l_fabric L))"
    using shortest_length [OF sh position_on_fabric [OF L ij(1,2)]] .
  then show ?thesis
    using walk_shortest [OF F sh st] lane_of_device [OF F R ne] r st
    by (simp add: walk_def derived_lane_def)
qed

lemma derived_entry:
  assumes L: "layout_ok L" and d: "derive_routes R L lanes = Inr G" and r: "0 \<le> rank" "rank < layout_world L"
    and e: "(peer, lane, device) \<in> set (lane_entries (route_map G rank))"
  shows "0 \<le> peer \<and> peer < layout_world L \<and> peer \<noteq> rank \<and> 0 \<le> lane \<and> lane < lanes
    \<and> (\<exists>r. derived_lane R L rank peer lane r \<and> device = role_device (r_local r))"
proof -
  have F: "fabric_ok (l_fabric L)" using L by (simp add: layout_ok_def)
  obtain devices where pd: "(peer, devices) \<in> set (route_map G rank)"
    and l: "0 \<le> lane" "lane < int (length devices)" "device = devices ! nat lane"
    using e lane_entries_in by auto
  obtain ls where p: "0 \<le> peer" "peer < layout_world L" "peer \<noteq> rank"
    and dl: "derive_lanes R (l_fabric L) (position_of L rank) (position_of L peer) lanes = Inr ls"
    and dev: "devices = map (\<lambda>l. role_device (r_local l)) ls"
    using derived_map [OF L d r] pd by blast
  note ls = derive_lanes_Inr [OF F dl]
  then have "lane < lanes" using l dev by auto
  moreover from this ls l have "derived_lane R L rank peer lane (ls ! nat lane)"
    by (simp add: derived_lane_def)
  moreover have "device = role_device (r_local (ls ! nat lane))" using l dev by simp
  ultimately show ?thesis using p l by blast
qed

text \<open>The returned lane of a derived map.\<close>

lemma derived_dget:
  assumes L: "layout_ok L" and d: "derive_routes R L lanes = Inr G"
    and r: "0 \<le> rank" "rank < layout_world L" and p: "0 \<le> peer" "peer < layout_world L" "peer \<noteq> rank"
  shows "\<exists>ls. dget (route_map G rank) peer = Some (map (\<lambda>l. role_device (r_local l)) ls) \<and> length ls = nat lanes
    \<and> (lanes = 1 \<or> lanes = 2) \<and> (\<forall>l. 0 \<le> l \<and> l < lanes \<longrightarrow> derived_lane R L rank peer l (ls ! nat l))"
proof -
  have F: "fabric_ok (l_fabric L)" using L by (simp add: layout_ok_def)
  note dm = derived_map [OF L d r]
  have "peer \<in> set (map fst (route_map G rank))" using dm p by auto
  then obtain devices where pd: "(peer, devices) \<in> set (route_map G rank)" by auto
  obtain ls where dl: "derive_lanes R (l_fabric L) (position_of L rank) (position_of L peer) lanes = Inr ls"
    and dev: "devices = map (\<lambda>l. role_device (r_local l)) ls" using dm pd by blast
  have "distinct (map fst (route_map G rank))" using dm by simp
  then have "dget (route_map G rank) peer = Some devices" using pd by (rule dget_in)
  then show ?thesis using derive_lanes_Inr [OF F dl] dev by (auto simp: derived_lane_def)
qed

text \<open>Looking up a derived lane from the other end finds the same lane, reversed.\<close>

lemma pair_check_derived:
  assumes L: "layout_ok L" and R: "roles_ok R" and d: "derive_routes R L lanes = Inr G"
    and r: "0 \<le> rank" "rank < layout_world L"
    and e: "e \<in> set (lane_entries (route_map G rank))"
  shows "pair_check R None L (route_maps G) rank e = Inr []"
proof -
  have F: "fabric_ok (l_fabric L)" using L by (simp add: layout_ok_def)
  obtain peer lane device where e3: "e = (peer, lane, device)" by (cases e)
  from derived_entry [OF L d r e [unfolded e3]] obtain t where
    p: "0 \<le> peer" "peer < layout_world L" "peer \<noteq> rank" and l: "0 \<le> lane" "lane < lanes"
    and t: "derived_lane R L rank peer lane t" "device = role_device (r_local t)" by blast
  have ne: "position_of L rank \<noteq> position_of L peer" using position_distinct [OF L r p(1,2)] p(3) by blast
  from derived_dget [OF L d p(1,2) r] p(3) obtain us where
    us: "dget (route_map G peer) rank = Some (map (\<lambda>l. role_device (r_local l)) us)" "length us = nat lanes"
    and u: "derived_lane R L peer rank lane (us ! nat lane)" using l by metis
  have mirror: "r_local (us ! nat lane) = r_remote t"
    using lanes_mirror [OF F ne] t(1) u by (simp add: derived_lane_def)
  have maps: "py_index (route_maps G) peer = Inr (route_map G peer)"
    using derived_map [OF L d r] p by (simp add: route_maps_def)
  have pos: "py_index (l_positions L) i = Inr (position_of L i)" if "0 \<le> i" "i < layout_world L" for i
    using that by (simp add: position_of_def layout_world_def)
  note mine = lane_of_device [OF F R ne t(1) [unfolded derived_lane_def]]
  note walked = lane_of_walk [OF L R r p(1,2) p(3) [symmetric] t(1)]
  have theirs: "role_of R None (role_device (r_remote t)) = Some (r_remote t)"
    using lane_of_device [OF F R ne [symmetric] u [unfolded derived_lane_def]] mirror by simp
  have expected: "role_at R (s_dst_port (last (r_steps t))) (role_secondary (r_local t)) = Inr (r_remote t)"
    using t(1) mine by (simp add: derived_lane_def lane_of_def)
  have ret: "dget_or (route_map G peer) rank [] = map (\<lambda>l. role_device (r_local l)) us"
    using us by (simp add: dget_or_dget)
  have at: "map (\<lambda>l. role_device (r_local l)) us ! nat lane = role_device (r_remote t)"
    using us l mirror by simp
  have short: "lane < int (length (map (\<lambda>l. role_device (r_local l)) us))" using us(2) l by simp
  show ?thesis
    unfolding e3 pair_check_def Let_def split
    using maps ret at short mine walked theirs expected pos r p t(2) by simp
qed

section \<open>Derived maps pass the validation\<close>

lemma max_relays_bound:
  assumes "rank < length (g_ranks G)" "(peer, ls) \<in> set (g_ranks G ! rank)" "l \<in> set ls"
  shows "int (length (lane_relays l)) \<le> max_relays G"
proof -
  have "g_ranks G ! rank \<in> set (g_ranks G)" using assms(1) by simp
  then have "l \<in> set (concat (concat (map (map snd) (g_ranks G))))" using assms(2,3) by force
  then show ?thesis unfolding max_relays_def by (intro Max_ge) auto
qed

lemma derived_hops:
  assumes L: "layout_ok L" and d: "derive_routes R L lanes = Inr G" and r: "0 \<le> rank" "rank < layout_world L"
    and p: "0 \<le> peer" "peer < layout_world L" "peer \<noteq> rank" and t: "derived_lane R L rank peer lane t"
    and l: "0 \<le> lane" "lane < lanes"
  shows "int (length (r_steps t)) - 1 \<le> max_relays G"
proof -
  have F: "fabric_ok (l_fabric L)" using L by (simp add: layout_ok_def)
  have ne: "position_of L rank \<noteq> position_of L peer" using position_distinct [OF L r p(1,2)] p(3) by blast
  obtain ranks where m: "map_res (rank_lanes R L lanes) (py_range (layout_world L)) = Inr ranks"
    and G: "G = \<lparr>g_layout = L, g_lanes = lanes, g_ranks = ranks\<rparr>"
    using d by (auto simp: derive_routes_def bind_res_Inr)
  have e: "rank_lanes R L lanes rank = Inr (ranks ! nat rank)" using map_res_nth [OF m, of "nat rank"] r by simp
  note rl = rank_lanes_Inr [OF e]
  have "peer \<in> set (map fst (ranks ! nat rank))" using rl p by auto
  then obtain ls where ls: "(peer, ls) \<in> set (ranks ! nat rank)" by auto
  then have dl: "derive_lanes R (l_fabric L) (position_of L rank) (position_of L peer) lanes = Inr ls" using rl by blast
  note dli = derive_lanes_Inr [OF F dl]
  have "lane_path (l_fabric L) (position_of L rank) (position_of L peer) lane (r_steps (ls ! nat lane))"
    using dli l by (simp add: lane_of_def)
  then have "r_steps (ls ! nat lane) = r_steps t"
    using lane_path_unique [OF F ne] t by (simp add: derived_lane_def lane_of_def)
  moreover have "ls ! nat lane \<in> set ls" using dli l by simp
  moreover have "nat rank < length ranks" using map_res_length [OF m] r by simp
  ultimately show ?thesis
    using max_relays_bound [of "nat rank" G peer ls "ls ! nat lane"] ls by (simp add: G lane_relays_def)
qed

lemma check_lane_derived:
  assumes L: "layout_ok L" and R: "roles_ok R" and d: "derive_routes R L lanes = Inr G"
    and r: "0 \<le> rank" "rank < layout_world L" and lim: "max_relays G \<le> limit"
    and e: "e \<in> set (lane_entries (route_map G rank))"
  shows "check_lane R None L rank limit e = Inr ()"
proof -
  have F: "fabric_ok (l_fabric L)" using L by (simp add: layout_ok_def)
  obtain peer lane device where e3: "e = (peer, lane, device)" by (cases e)
  from derived_entry [OF L d r e [unfolded e3]] obtain t where
    p: "0 \<le> peer" "peer < layout_world L" "peer \<noteq> rank" and l: "0 \<le> lane" "lane < lanes"
    and t: "derived_lane R L rank peer lane t" "device = role_device (r_local t)" by blast
  have ne: "position_of L rank \<noteq> position_of L peer" using position_distinct [OF L r p(1,2)] p(3) by blast
  note mine = lane_of_device [OF F R ne t(1) [unfolded derived_lane_def]]
  note walked = lane_of_walk [OF L R r p(1,2) p(3) [symmetric] t(1)]
  have pos: "py_index (l_positions L) i = Inr (position_of L i)" if "0 \<le> i" "i < layout_world L" for i
    using that by (simp add: position_of_def layout_world_def)
  have hops: "\<not> limit < int (length (r_steps t)) - 1" using derived_hops [OF L d r p t(1) l] lim by simp
  show ?thesis unfolding e3 check_lane_def Let_def split
    using pos r p mine walked t(2) hops by simp
qed

lemma check_entry_derived:
  assumes L: "layout_ok L" and R: "roles_ok R" and d: "derive_routes R L lanes = Inr G"
    and r: "0 \<le> rank" "rank < layout_world L" and e: "(peer, devices) \<in> set (route_map G rank)"
  shows "check_entry rank (peer, devices) = Inr () \<and> int (length devices) = lanes \<and> (lanes = 1 \<or> lanes = 2)
    \<and> set devices \<subseteq> role_device ` set R"
proof -
  have F: "fabric_ok (l_fabric L)" using L by (simp add: layout_ok_def)
  note dm = derived_map [OF L d r]
  have p: "0 \<le> peer" "peer < layout_world L" "peer \<noteq> rank" using dm e by blast+
  have ne: "position_of L rank \<noteq> position_of L peer" using position_distinct [OF L r p(1,2)] p(3) by blast
  have dis: "distinct (map fst (route_map G rank))" using dm by simp
  obtain ls where get: "dget (route_map G rank) peer = Some (map (\<lambda>l. role_device (r_local l)) ls)"
    and len: "length ls = nat lanes" and two: "lanes = 1 \<or> lanes = 2"
    and each: "\<And>l. 0 \<le> l \<Longrightarrow> l < lanes \<Longrightarrow> derived_lane R L rank peer l (ls ! nat l)"
    using derived_dget [OF L d r p] by auto
  have dev: "devices = map (\<lambda>l. role_device (r_local l)) ls" using dget_in [OF dis e] get by simp
  have dv: "role_of R None (devices ! i) = Some (r_local (ls ! i)) \<and> devices ! i \<noteq> []
      \<and> role_secondary (r_local (ls ! i)) = (i = 1) \<and> devices ! i \<in> role_device ` set R" if i: "i < length devices" for i
  proof -
    have il: "i < length ls" using i dev by simp
    then have "derived_lane R L rank peer (int i) (ls ! i)" using each [of "int i"] len two by auto
    from lane_of_device [OF F R ne this [unfolded derived_lane_def]] show ?thesis using il dev by auto
  qed
  have "distinct devices"
  proof (subst distinct_conv_nth, intro allI impI)
    fix i j
    assume ij: "i < length devices" "j < length devices" "i \<noteq> j"
    then have "i < 2" "j < 2" using dev len two by auto
    then have "(i = 1) \<noteq> (j = 1)" using ij by auto
    then show "devices ! i \<noteq> devices ! j" using dv [OF ij(1)] dv [OF ij(2)] by auto
  qed
  moreover have "[] \<notin> set devices" using dv by (auto simp: in_set_conv_nth)
  moreover have "set devices \<subseteq> role_device ` set R" using dv by (auto simp: in_set_conv_nth)
  moreover have "int (length devices) = lanes" using dev len two by auto
  ultimately show ?thesis using two by (simp add: check_entry_def)
qed

lemma remdups_const: "xs \<noteq> [] \<Longrightarrow> (\<And>x. x \<in> set xs \<Longrightarrow> x = c) \<Longrightarrow> remdups xs = [c]"
proof (induction xs)
  case (Cons x xs)
  show ?case
  proof (cases "xs = []")
    case False
    then have "c \<in> set xs" using Cons.prems by (cases xs) auto
    with False Cons show ?thesis by auto
  qed (use Cons in auto)
qed simp

section \<open>A ring of four\<close>

text \<open>A concrete layout: four Sparks cabled in a ring, one rank on each.\<close>

definition ring4 :: Layout where
  "ring4 = \<lparr>l_fabric = \<lparr>cables = map (\<lambda>i. \<lparr>ca = i, ca_port = 0, cb = (i + 1) mod 4, cb_port = 1\<rparr>) [0, 1, 2, 3]\<rparr>,
    l_positions = [0, 1, 2, 3]\<rparr>"

lemma ring4_is_ring: "Fabric_ring 4 = Inr (l_fabric ring4)"
  by code_simp

lemma ring4_ok: "layout_ok ring4"
  by code_simp

lemma ring4_derives: "is_ok (derive_routes DEFAULT_ROLES ring4 2)"
  by code_simp

lemma ring4_world: "layout_world ring4 = 4"
  by (simp add: ring4_def layout_world_def)

section \<open>Properties\<close>

text \<open>
  C2: on a connected well-formed fabric the derivation never fails, and for every pair of ranks each
  lane follows a shortest route and the lane of the same number back is that route reversed, between
  the same two functions.
\<close>

theorem derived_lanes_mirror:
  assumes L: "layout_ok L" and R: "roles_ok R" and lanes: "lanes = 1 \<or> lanes = 2"
    and conn: "\<And>a b. a \<in> set (l_positions L) \<Longrightarrow> b \<in> set (l_positions L) \<Longrightarrow> \<exists>p. route (cross (l_fabric L)) a p b"
  shows "\<exists>G. derive_routes R L lanes = Inr G
    \<and> (\<forall>i j. 0 \<le> i \<and> i < layout_world L \<and> 0 \<le> j \<and> j < layout_world L \<and> i \<noteq> j \<longrightarrow>
        (\<exists>xs ys. lanes_to G i j = Inr xs \<and> lanes_to G j i = Inr ys \<and> int (length xs) = lanes \<and> int (length ys) = lanes
          \<and> (\<forall>l < nat lanes. shortest (cross (l_fabric L)) (position_of L i) (r_steps (xs ! l)) (position_of L j)
              \<and> r_steps (ys ! l) = rev (map flip (r_steps (xs ! l)))
              \<and> r_local (ys ! l) = r_remote (xs ! l) \<and> r_remote (ys ! l) = r_local (xs ! l))))"
proof -
  have F: "fabric_ok (l_fabric L)" using L by (simp add: layout_ok_def)
  have pin: "position_of L i \<in> set (l_positions L)" if "0 \<le> i" "i < layout_world L" for i
    using that by (simp add: position_of_def layout_world_def nat_less_iff)
  have one: "\<exists>ls. derive_lanes R (l_fabric L) (position_of L i) (position_of L j) lanes = Inr ls"
    if ij: "0 \<le> i" "i < layout_world L" "0 \<le> j" "j < layout_world L" "i \<noteq> j" for i j
    using derive_lanes_total [OF F R position_distinct [OF L ij] lanes] conn [OF pin [OF ij(1,2)] pin [OF ij(3,4)]] by blast
  have "\<exists>d. rank_lanes R L lanes i = Inr d" if i: "0 \<le> i" "i < layout_world L" for i
  proof -
    have "\<exists>v. bind_res (derive_lanes R (l_fabric L) (position_of L i) (position_of L k) lanes) (\<lambda>ls. Inr (k, ls)) = Inr v"
      if "k \<in> set (filter (\<lambda>peer. peer \<noteq> i) (py_range (layout_world L)))" for k
      using one [of i k] i that by auto
    then show ?thesis unfolding rank_lanes_def by (rule map_res_defined)
  qed
  then have "\<exists>rs. map_res (rank_lanes R L lanes) (py_range (layout_world L)) = Inr rs"
    by (intro map_res_defined) simp
  then obtain G where G: "derive_routes R L lanes = Inr G" by (auto simp: derive_routes_def)
  obtain rs where rs: "map_res (rank_lanes R L lanes) (py_range (layout_world L)) = Inr rs" and Gr: "g_ranks G = rs"
    using G by (auto simp: derive_routes_def bind_res_Inr)
  have look: "\<exists>ls. lanes_to G i j = Inr ls \<and> derive_lanes R (l_fabric L) (position_of L i) (position_of L j) lanes = Inr ls"
    if ij: "0 \<le> i" "i < layout_world L" "0 \<le> j" "j < layout_world L" "i \<noteq> j" for i j
  proof -
    have e: "rank_lanes R L lanes i = Inr (rs ! nat i)" using map_res_nth [OF rs, of "nat i"] ij by simp
    note rl = rank_lanes_Inr [OF e]
    then have "j \<in> set (map fst (rs ! nat i))" using ij by simp
    then obtain ls where ls: "(j, ls) \<in> set (rs ! nat i)" by auto
    have "distinct (map fst (rs ! nat i))" using rl by simp
    then have "dget (rs ! nat i) j = Some ls" using ls by (rule dget_in)
    then show ?thesis using rl ls Gr by (auto simp: lanes_to_def)
  qed
  have pair: "\<exists>xs ys. lanes_to G i j = Inr xs \<and> lanes_to G j i = Inr ys \<and> int (length xs) = lanes \<and> int (length ys) = lanes
          \<and> (\<forall>l < nat lanes. shortest (cross (l_fabric L)) (position_of L i) (r_steps (xs ! l)) (position_of L j)
              \<and> r_steps (ys ! l) = rev (map flip (r_steps (xs ! l)))
              \<and> r_local (ys ! l) = r_remote (xs ! l) \<and> r_remote (ys ! l) = r_local (xs ! l))"
    if ij: "0 \<le> i" "i < layout_world L" "0 \<le> j" "j < layout_world L" "i \<noteq> j" for i j
  proof -
    have ne: "position_of L i \<noteq> position_of L j" using position_distinct [OF L ij] .
    obtain xs where xs: "lanes_to G i j = Inr xs" "derive_lanes R (l_fabric L) (position_of L i) (position_of L j) lanes = Inr xs"
      using look [OF ij] by blast
    obtain ys where ys: "lanes_to G j i = Inr ys" "derive_lanes R (l_fabric L) (position_of L j) (position_of L i) lanes = Inr ys"
      using look [OF ij(3,4,1,2)] ij(5) by blast
    note dx = derive_lanes_Inr [OF F xs(2)] and dy = derive_lanes_Inr [OF F ys(2)]
    have "shortest (cross (l_fabric L)) (position_of L i) (r_steps (xs ! l)) (position_of L j)
              \<and> r_steps (ys ! l) = rev (map flip (r_steps (xs ! l)))
              \<and> r_local (ys ! l) = r_remote (xs ! l) \<and> r_remote (ys ! l) = r_local (xs ! l)" if "l < nat lanes" for l
    proof -
      have lx: "lane_of R (l_fabric L) (position_of L i) (position_of L j) (int l) (xs ! l)"
        and ly: "lane_of R (l_fabric L) (position_of L j) (position_of L i) (int l) (ys ! l)"
        using dx dy that by (metis nat_int of_nat_0_le_iff zless_nat_eq_int_zless)+
      show ?thesis using lanes_mirror [OF F ne lx ly] lx by (simp add: lane_of_def lane_path_def)
    qed
    then show ?thesis using xs ys dx dy lanes by auto
  qed
  show ?thesis using G pair by blast
qed

theorem derived_lanes_mirror_witness:
  "\<exists>G. derive_routes DEFAULT_ROLES \<lparr>l_fabric = \<lparr>cables = [\<lparr>ca = 0, ca_port = 0, cb = 1, cb_port = 1\<rparr>]\<rparr>, l_positions = [1, 0]\<rparr> 2 = Inr G
    \<and> (\<exists>xs ys. lanes_to G 0 1 = Inr xs \<and> lanes_to G 1 0 = Inr ys \<and> r_steps (ys ! 1) = rev (map flip (r_steps (xs ! 1))))"
proof -
  let ?L = "\<lparr>l_fabric = \<lparr>cables = [\<lparr>ca = 0, ca_port = 0, cb = 1, cb_port = 1\<rparr>]\<rparr>, l_positions = [1, 0]\<rparr> :: Layout"
  have ok: "layout_ok ?L" by code_simp
  have conn: "\<exists>p. route (cross (l_fabric ?L)) a p b" if "a \<in> set (l_positions ?L)" "b \<in> set (l_positions ?L)" for a b
  proof -
    have self: "route (cross (l_fabric ?L)) a [] a" for a by simp
    have "route (cross (l_fabric ?L)) 0 [\<lparr>s_cable = \<lparr>ca = 0, ca_port = 0, cb = 1, cb_port = 1\<rparr>, s_src = 0, s_src_port = 0, s_dst = 1, s_dst_port = 1\<rparr>] 1"
      "route (cross (l_fabric ?L)) 1 [\<lparr>s_cable = \<lparr>ca = 0, ca_port = 0, cb = 1, cb_port = 1\<rparr>, s_src = 1, s_src_port = 1, s_dst = 0, s_dst_port = 0\<rparr>] 0"
      by (simp_all add: cross_def cable_at_def cable_ends_def)
    then show ?thesis using self that by (auto simp del: route.simps)
  qed
  have w: "layout_world ?L = 2" by (simp add: layout_world_def)
  obtain G where G: "derive_routes DEFAULT_ROLES ?L 2 = Inr G"
    and all: "\<forall>i j. 0 \<le> i \<and> i < layout_world ?L \<and> 0 \<le> j \<and> j < layout_world ?L \<and> i \<noteq> j \<longrightarrow>
        (\<exists>xs ys. lanes_to G i j = Inr xs \<and> lanes_to G j i = Inr ys \<and> int (length xs) = 2 \<and> int (length ys) = 2
          \<and> (\<forall>l < nat 2. shortest (cross (l_fabric ?L)) (position_of ?L i) (r_steps (xs ! l)) (position_of ?L j)
              \<and> r_steps (ys ! l) = rev (map flip (r_steps (xs ! l)))
              \<and> r_local (ys ! l) = r_remote (xs ! l) \<and> r_remote (ys ! l) = r_local (xs ! l)))"
    using derived_lanes_mirror [OF ok roles_ok_default _ conn, of 2] by blast
  from all [rule_format, of 0 1] obtain xs ys where "lanes_to G 0 1 = Inr xs" "lanes_to G 1 0 = Inr ys"
    "\<forall>l < nat 2. r_steps (ys ! l) = rev (map flip (r_steps (xs ! l)))" unfolding w by auto
  then show ?thesis using G by (intro exI [of _ G] conjI exI [of _ xs] exI [of _ ys]) auto
qed

lemma maps_complementary:
  assumes "layout_ok L" "roles_ok R" "derive_routes R L lanes = Inr G"
  shows "check_complementary R None L (route_maps G) = Inr []"
proof -
  have len: "length (route_maps G) = nat (layout_world L)"
  proof -
    have "g_layout G = L" using assms(3) by (auto simp: derive_routes_def bind_res_Inr)
    then show ?thesis by (simp add: route_maps_def group_world_def)
  qed
  have each: "(\<lambda>(rank, routes). map_res (pair_check R None L (route_maps G) (int rank)) (lane_entries routes)) x
      = Inr (map (\<lambda>_. []) (lane_entries (snd x)))" if x: "x \<in> set (List.enumerate 0 (route_maps G))" for x
  proof -
    obtain rank routes where xr: "x = (rank, routes)" by (cases x)
    then have rk: "rank < nat (layout_world L)" "routes = route_maps G ! rank"
      using x len by (auto simp: in_set_enumerate_eq)
    then have "routes = route_map G (int rank)"
    proof -
      have "g_layout G = L" using assms(3) by (auto simp: derive_routes_def bind_res_Inr)
      then show ?thesis using rk by (simp add: route_maps_def group_world_def)
    qed
    then have "map_res (pair_check R None L (route_maps G) (int rank)) (lane_entries routes)
        = Inr (map (\<lambda>_. []) (lane_entries routes))"
      using rk pair_check_derived [OF assms, of "int rank"] by (intro map_res_total) auto
    then show ?thesis using xr by simp
  qed
  have "map_res (\<lambda>(rank, routes). map_res (pair_check R None L (route_maps G) (int rank)) (lane_entries routes))
      (List.enumerate 0 (route_maps G)) = Inr (map (\<lambda>x. map (\<lambda>_. []) (lane_entries (snd x))) (List.enumerate 0 (route_maps G)))"
    by (rule map_res_total) (rule each)
  then show ?thesis by (simp add: check_complementary_def)
qed

text \<open>
  C3: on every layout of a well-formed fabric the route maps \<open>derive_routes\<close> gives are complementary:
  the pairing check walks every lane of every rank and finds no problem.
\<close>

theorem derived_maps_complementary:
  assumes "layout_ok L" "roles_ok R" "derive_routes R L lanes = Inr G"
  shows "check_complementary R None L (route_maps G) = Inr []"
  by (rule maps_complementary [OF assms])

theorem derived_maps_complementary_witness:
  "\<exists>G. derive_routes DEFAULT_ROLES ring4 2 = Inr G
    \<and> check_complementary DEFAULT_ROLES None ring4 (route_maps G) = Inr []"
  using derived_maps_complementary [OF ring4_ok roles_ok_default] ring4_derives by (auto simp: is_ok_iff)



section \<open>The text of a route map\<close>

text \<open>
  Device names a route map can carry: no comma, slash or white space.  The kernel's RDMA device names
  satisfy it.
\<close>

definition device_name_ok :: "string \<Rightarrow> bool" where
  "device_name_ok d \<longleftrightarrow> list_all (\<lambda>c. c \<noteq> CHR '','' \<and> c \<noteq> CHR ''/'' \<and> \<not> is_space c) d"

definition routes_ok :: "route_map \<Rightarrow> bool" where
  "routes_ok rm \<longleftrightarrow> distinct (map fst rm) \<and> list_all (\<lambda>e. snd e \<noteq> [] \<and> list_all device_name_ok (snd e)) rm"

lemma plain_entry:
  assumes "list_all device_name_ok ds"
  shows "c \<in> set (format_entry (peer, ds)) \<Longrightarrow> c \<noteq> CHR '','' \<and> \<not> is_space c"
proof -
  assume "c \<in> set (format_entry (peer, ds))"
  then consider "c \<in> set (str_of_int peer)" | "c = CHR ''=''" | "c = CHR ''/''" | d where "d \<in> set ds" "c \<in> set d"
    using set_join [of "CHR ''/''" ds] by (auto simp: format_entry_def)
  then show ?thesis
  proof cases
    case 1
    then have "is_digit c \<or> c = CHR ''-''" by (rule str_of_int_plain)
    then show ?thesis using is_digit_facts minus_not_space by auto
  next
    case 4
    then show ?thesis using assms by (auto simp: device_name_ok_def list_all_iff)
  qed (auto simp: is_space_def)
qed

lemma str_of_int_no_eq: "CHR ''='' \<notin> set (str_of_int i)"
  using str_of_int_plain is_digit_facts by blast

lemma strip_str_of_int [simp]: "strip (str_of_int i) = str_of_int i"
  by (rule strip_plain) (use str_of_int_plain is_digit_facts minus_not_space in blast)

lemma parse_entry_step:
  assumes "ds \<noteq> []" "list_all device_name_ok ds" "peer \<notin> fst ` set acc"
  shows "parse_entries (format_entry (peer, ds) # rest) acc = parse_entries rest (acc @ [(peer, ds)])"
proof -
  have s: "strip (format_entry (peer, ds)) = format_entry (peer, ds)"
    using plain_entry [OF assms(2)] by (intro strip_plain) blast
  have pt: "partition_at (CHR ''='') (format_entry (peer, ds)) = (str_of_int peer, True, join_with (CHR ''/'') ds)"
    using str_of_int_no_eq by (simp add: format_entry_def partition_at_append)
  have "split_on (CHR ''/'') (join_with (CHR ''/'') ds) = ds"
    by (rule split_join [OF assms(1)]) (use assms(2) in \<open>auto simp: device_name_ok_def list_all_iff\<close>)
  moreover have "map strip ds = ds"
  proof (rule map_idI)
    fix d
    assume "d \<in> set ds"
    then have "\<And>c. c \<in> set d \<Longrightarrow> \<not> is_space c" using assms(2) by (auto simp: device_name_ok_def list_all_iff)
    then show "strip d = d" by (rule strip_plain)
  qed
  moreover have "dget acc peer = None" using assms(3) by (simp add: dget_def map_of_eq_None_iff)
  moreover have "format_entry (peer, ds) \<noteq> []" by (simp add: format_entry_def)
  ultimately show ?thesis using s pt assms(3) by (simp add: dset_new)
qed

lemma parse_formatted:
  "distinct (map fst (acc @ es)) \<Longrightarrow> list_all (\<lambda>e. snd e \<noteq> [] \<and> list_all device_name_ok (snd e)) es \<Longrightarrow>
    parse_entries (map format_entry es) acc = Inr (acc @ es)"
proof (induction es arbitrary: acc)
  case (Cons e es)
  obtain peer ds where e: "e = (peer, ds)" by (cases e)
  have "parse_entries (map format_entry (e # es)) acc = parse_entries (map format_entry es) (acc @ [(peer, ds)])"
    using Cons.prems e by (simp add: parse_entry_step del: parse_entries.simps)
  with Cons e show ?case by simp
qed simp

text \<open>
  The text of a route map parses back to the same map, its entries sorted by peer.
\<close>

theorem route_text_roundtrip:
  assumes "routes_ok rm" "rm \<noteq> []"
  shows "parse_peer_routes (Some (format_peer_routes rm)) = Inr (ditems rm)"
proof -
  have ok: "list_all (\<lambda>e. snd e \<noteq> [] \<and> list_all device_name_ok (snd e)) (ditems rm)"
    and dis: "distinct (map fst (ditems rm))" using assms(1) by (auto simp: routes_ok_def list_all_iff)
  have ne: "ditems rm \<noteq> []" using assms(2) by (metis set_ditems set_empty)
  have no_comma: "CHR '','' \<notin> set w" if "w \<in> set (map format_entry (ditems rm))" for w
    using that plain_entry ok by (fastforce simp: list_all_iff)
  have "split_on (CHR '','') (format_peer_routes rm) = map format_entry (ditems rm)"
    unfolding format_peer_routes_def using ne no_comma by (intro split_join) auto
  moreover have "strip (format_peer_routes rm) = format_peer_routes rm"
  proof (rule strip_plain)
    fix c
    assume "c \<in> set (format_peer_routes rm)"
    then have "c = CHR '','' \<or> (\<exists>e\<in>set (ditems rm). c \<in> set (format_entry e))"
      using set_join [of "CHR '',''" "map format_entry (ditems rm)"] by (auto simp: format_peer_routes_def)
    then show "\<not> is_space c" using plain_entry ok by (fastforce simp: list_all_iff is_space_def)
  qed
  moreover have "format_peer_routes rm \<noteq> []"
  proof -
    obtain e es where e: "ditems rm = e # es" using ne by (cases "ditems rm") auto
    have "format_entry e \<noteq> []" by (simp add: format_entry_def)
    then show ?thesis unfolding format_peer_routes_def e by (cases es) auto
  qed
  ultimately show ?thesis using parse_formatted [of "[]" "ditems rm"] ok dis by (simp add: parse_peer_routes_def)
qed

theorem route_text_roundtrip_witness:
  "parse_peer_routes (Some (format_peer_routes [(3, [''rocep1s0f0'', ''roceP2p1s0f0'']), (1, [''rocep1s0f1''])]))
    = Inr (ditems [(3, [''rocep1s0f0'', ''roceP2p1s0f0'']), (1, [''rocep1s0f1''])])"
  by (rule route_text_roundtrip) (simp_all add: routes_ok_def device_name_ok_def is_space_def)

end
