(* ===== verification/Relays.thy ===== *)
theory Relays
  imports Complex_Main RouteMaps
begin

text \<open>
  Relay queues, forward windows and chain order (\<open>spark_transport/sircl/sparkring_sircl/routes.py\<close>) and the
  admission of subset chains (\<open>subset.py\<close>): which lanes share a relay hairpin queue, how many bytes each may
  keep in flight, and in what order the ranks of a group form a chain.
\<close>

section \<open>Lanes through relay queues\<close>

text \<open>A relay queue: the relay's position, whether it is the secondary function, the egress port.\<close>

type_synonym queue_key = "int \<times> bool \<times> int"

type_synonym queues = "(queue_key, (int \<times> int \<times> int) list) dict"

definition lane_steps ::
  "Role list \<Rightarrow> role_names \<Rightarrow> Layout \<Rightarrow> int \<Rightarrow> int \<Rightarrow> string \<Rightarrow> py_error + (Role \<times> Step list) option" where
  "lane_steps R names L rank peer device = (case role_of R names device of
     None \<Rightarrow> Inr None
   | Some role \<Rightarrow>
       bind_res (py_index (l_positions L) rank) (\<lambda>start.
       bind_res (py_index (l_positions L) peer) (\<lambda>there.
       Inr (map_option (Pair role)
         (walk (l_fabric L) start (role_port role) there (int (length (fabric_positions (l_fabric L)))))))))"

text \<open>The queues a lane's packets cross: one per relay, keyed by where they leave it.\<close>

definition crossed_queues :: "Role \<Rightarrow> Step list \<Rightarrow> queue_key list" where
  "crossed_queues role steps = map (\<lambda>s. (s_dst s, role_secondary role, 1 - s_dst_port s)) (butlast steps)"

definition entry_queues ::
  "Role list \<Rightarrow> role_names \<Rightarrow> Layout \<Rightarrow> int \<Rightarrow> int \<times> int \<times> string \<Rightarrow> py_error + (queue_key \<times> int \<times> int \<times> int) list" where
  "entry_queues R names L rank e = (let (peer, lane, device) = e in
    bind_res (lane_steps R names L rank peer device) (\<lambda>found. case found of
       None \<Rightarrow> Inr []
     | Some (role, steps) \<Rightarrow> Inr (map (\<lambda>k. (k, rank, peer, lane)) (crossed_queues role steps))))"

definition collect :: "(queue_key \<times> int \<times> int \<times> int) list \<Rightarrow> queues" where
  "collect members = foldl (\<lambda>d (k, m). dappend k m d) [] members"

definition relay_queues :: "Role list \<Rightarrow> role_names \<Rightarrow> Layout \<Rightarrow> route_map list \<Rightarrow> py_error + queues" where
  "relay_queues R names L maps =
    bind_res (map_res (\<lambda>(rank, routes). map_res (entry_queues R names L (int rank)) (lane_entries routes))
        (List.enumerate 0 maps))
      (\<lambda>found. Inr (collect (concat (concat found))))"

definition ring_entries :: "route_map list \<Rightarrow> int list \<Rightarrow> nat \<Rightarrow> py_error + (int \<times> int \<times> int \<times> string) list" where
  "ring_entries maps order i =
    (let rank = order ! i; peer = order ! ((i + 1) mod length order) in
     if peer = rank then Inr []
     else bind_res (py_index maps rank) (\<lambda>routes.
       Inr (map (\<lambda>(l, device). (rank, peer, int l, device)) (List.enumerate 0 (dget_or routes peer [])))))"

definition ring_queues :: "Role list \<Rightarrow> role_names \<Rightarrow> Layout \<Rightarrow> route_map list \<Rightarrow> int list \<Rightarrow> py_error + queues" where
  "ring_queues R names L maps order =
    bind_res (map_res (\<lambda>i. bind_res (ring_entries maps order i)
        (map_res (\<lambda>(rank, peer, lane, device). entry_queues R names L rank (peer, lane, device))))
        [0..<length order])
      (\<lambda>found. Inr (collect (concat (concat found))))"

definition relay_load :: "GroupRoutes \<Rightarrow> int \<times> rat" where
  "relay_load G = (let busiest = Max (insert 0 (set (map snd (foldl (\<lambda>load k. dadd k 1 load) []
    (concat (map (\<lambda>l. map (\<lambda>s. (s_dst s, role_secondary (r_local l), s_dst_port s)) (butlast (r_steps l)))
      (concat (concat (map (map snd) (g_ranks G))))))))))
    in (busiest, of_int busiest / of_int (g_lanes G)))"

text \<open>\<open>int(RELAY_QUEUE_SHARE * queue_bytes)\<close>: 0.75 is exact, and \<open>int\<close> truncates toward zero.\<close>

definition queue_share :: "int \<Rightarrow> int" where
  "queue_share queue_bytes = (if queue_bytes < 0 then - ((- 3 * queue_bytes) div 4) else 3 * queue_bytes div 4)"

section \<open>Subset chains\<close>

definition subset_enabled :: "string option \<Rightarrow> py_error + bool" where
  "subset_enabled value =
    (let raw = (let t = strip (case value of None \<Rightarrow> ''0'' | Some v \<Rightarrow> v) in if t = [] then ''0'' else t) in
     if raw \<noteq> ''0'' \<and> raw \<noteq> ''1'' then Inl (RouteError ''SIRCL_SUBSET_RING must be 0 or 1'' []) else Inr (raw = ''1''))"

definition subset_schedule :: "string \<Rightarrow> string \<Rightarrow> string" where
  "subset_schedule requested collective =
    (if collective \<noteq> ''gather'' then ''pieces'' else if requested = ''ring'' then ''auto'' else requested)"

text \<open>
  The arc from its first position on: \<open>left\<close> counts the positions still missing.  On a cycle every
  crossing exists; a missing cable would be an \<open>AttributeError\<close> of the source.
\<close>

fun grow_arc :: "Fabric \<Rightarrow> int set \<Rightarrow> nat \<Rightarrow> int list \<Rightarrow> py_error + int list" where
  "grow_arc F members 0 arc = Inr arc"
| "grow_arc F members (Suc left) arc = (case cross F (last arc) 0 of
     None \<Rightarrow> Inl (RuntimeErr ''no cable on port 0'' [])
   | Some s \<Rightarrow>
       if s_dst s \<notin> members \<or> s_dst s \<in> set arc
       then Inl (RouteError ''subset ring ranks must form one cable-connected arc'' [])
       else grow_arc F members left (arc @ [s_dst s]))"

definition rank_at :: "Layout \<Rightarrow> int \<Rightarrow> int" where
  "rank_at L p = int (length (takeWhile (\<lambda>q. q \<noteq> p) (l_positions L)))"

definition subset_order :: "Layout \<Rightarrow> py_error + int list" where
  "subset_order L =
    (let F = l_fabric L; members = set (l_positions L); outside = filter (\<lambda>p. p \<notin> members) (fabric_positions F)
     in if kind F \<noteq> Cycle \<or> \<not> (4 \<le> length (fabric_positions F) \<and> length (fabric_positions F) \<le> 8)
          \<or> card members < 3 \<or> \<not> (1 \<le> length outside \<and> length outside \<le> 2)
        then Inl (RouteError ''subset ring needs 3 or more ranks on a cycle of 4 to 8'' [])
        else bind_res (map_res (\<lambda>p. case cross F p 1 of
              None \<Rightarrow> Inl (RuntimeErr ''no cable on port 1'' [p]) | Some s \<Rightarrow> Inr (p, s_dst s)) (remdups (l_positions L)))
          (\<lambda>ends. let starts = map fst (filter (\<lambda>(_, d). d \<notin> members) ends)
            in if length starts \<noteq> 1 then Inl (RouteError ''subset ring ranks must form one cable-connected arc'' [])
               else bind_res (grow_arc F members (card members - 1) starts) (\<lambda>arc. Inr (map (rank_at L) arc))))"

text \<open>
  A route map with its devices replaced by their roles; two maps are compared as Python compares
  dictionaries, without regard to order.
\<close>

definition role_map :: "Role list \<Rightarrow> route_map \<Rightarrow> (int, Role option list) dict" where
  "role_map R rm = map (\<lambda>(peer, devices). (peer, map (role_of R None) devices)) rm"

definition same_dict :: "('k, 'v) dict \<Rightarrow> ('k, 'v) dict \<Rightarrow> bool" where
  "same_dict d e \<longleftrightarrow> fst ` set d = fst ` set e \<and> (\<forall>k\<in>fst ` set d. dget d k = dget e k)"

definition subset_validate :: "Role list \<Rightarrow> Layout \<Rightarrow> route_map list \<Rightarrow> int \<Rightarrow> py_error + int list" where
  "subset_validate R L maps queue_bytes =
    bind_res (subset_order L) (\<lambda>order.
    if \<not> (4096 \<le> queue_bytes \<and> queue_bytes \<le> 524288)
    then Inl (RouteError ''subset ring hairpin capacity must be between 4096 and 524288 bytes'' [])
    else bind_res (py_index maps 0) (\<lambda>first.
      case first of
        [] \<Rightarrow> Inl (RuntimeErr ''StopIteration'' [])
      | (_, devices) # _ \<Rightarrow>
          bind_res (derive_routes R L (int (length devices))) (\<lambda>G.
          if list_all2 same_dict (map (role_map R) maps) (map (role_map R) (map (route_map G) (py_range (layout_world L))))
          then Inr order
          else Inl (RouteError ''subset ring requires the universal shortest-path lane maps'' []))))"

abbreviation (input) CONTROL_BYTES_PER_LANE :: int where "CONTROL_BYTES_PER_LANE \<equiv> 64 * 2 * 128"

definition reverse_key :: "queue_key \<Rightarrow> queue_key" where
  "reverse_key k = (case k of (p, c, e) \<Rightarrow> (p, c, 1 - e))"

definition payload_budget :: "Role list \<Rightarrow> Layout \<Rightarrow> route_map list \<Rightarrow> int \<Rightarrow> py_error + int" where
  "payload_budget R L maps queue_bytes =
    bind_res (subset_validate R L maps queue_bytes) (\<lambda>_.
    bind_res (relay_queues R None L maps) (\<lambda>queues.
    let n = Max (insert 0 (set (map (\<lambda>(k, v). int (length v) + int (length (dget_or queues (reverse_key k) []))) queues)))
    in Inr (min (queue_share queue_bytes) (max 0 ((queue_bytes - n * CONTROL_BYTES_PER_LANE) div 4)))))"

section \<open>Windows\<close>

definition ring_window ::
  "Role list \<Rightarrow> role_names \<Rightarrow> Layout \<Rightarrow> route_map list \<Rightarrow> int list \<Rightarrow> int \<Rightarrow> int \<Rightarrow> bool
    \<Rightarrow> py_error + int \<times> (queue_key \<times> (int \<times> int \<times> int) list) list \<times> bool" where
  "ring_window R names L maps order chunk queue_bytes subset_ring =
    bind_res (ring_queues R names L maps order) (\<lambda>queues.
    bind_res (if subset_ring then payload_budget R L maps queue_bytes else Inr (queue_share queue_bytes)) (\<lambda>allowance.
    let problems = filter (\<lambda>(_, members). length members > 1) (ditems queues)
    in if queues = [] then Inr (0, problems, False)
       else if chunk = 0 then Inl (RuntimeErr ''ZeroDivisionError'' [])
       else let window = allowance div chunk * chunk in Inr (window, problems, window < chunk)))"

text \<open>The largest number of lanes in any queue a lane crosses.\<close>

definition lane_sharing :: "queues \<Rightarrow> (int \<times> int \<times> int, int) dict" where
  "lane_sharing queues = foldl (\<lambda>load (_, members).
      foldl (\<lambda>load m. dset m (max (dget_or load m 0) (int (length members))) load) load members) [] queues"

definition lane_window :: "bool \<Rightarrow> int \<Rightarrow> int \<Rightarrow> int \<Rightarrow> int \<Rightarrow> py_error + int" where
  "lane_window subset_ring allowance max_window chunk sharing =
    (if sharing = 0 then Inr 0
     else let limit = min max_window (allowance div sharing)
       in if subset_ring \<and> limit < chunk
          then Inl (RouteError ''subset relay allowance cannot hold the chunks'' [allowance, sharing, chunk])
          else Inr (max chunk (limit div chunk * chunk)))"

text \<open>The windows of one rank: (peer, lane) to bytes; lanes without an entry keep the table's 0.\<close>

definition forward_windows ::
  "Role list \<Rightarrow> role_names \<Rightarrow> Layout \<Rightarrow> route_map list \<Rightarrow> int \<Rightarrow> int \<Rightarrow> int \<Rightarrow> int \<Rightarrow> bool
    \<Rightarrow> py_error + (int \<times> int, int) dict" where
  "forward_windows R names L maps rank max_window chunk queue_bytes subset_ring =
    bind_res (py_index maps rank) (\<lambda>routes.
    bind_res (if subset_ring then bind_res (payload_budget R L maps queue_bytes) (\<lambda>b.
         if max_window \<le> 0 then Inl (RouteError ''subset ring requires forward windows'' []) else Inr b)
       else Inr (queue_share queue_bytes)) (\<lambda>allowance.
    if max_window \<le> 0 then Inr []
    else if chunk \<le> 0 \<or> chunk mod 16 \<noteq> 0 \<or> max_window < chunk
    then Inl (RouteError ''forward chunk must be a positive multiple of 16 within the window'' [chunk, max_window])
    else bind_res (relay_queues R names L maps) (\<lambda>queues.
      let load = lane_sharing queues
      in map_res (\<lambda>(peer, lane, _). bind_res
            (lane_window subset_ring allowance max_window chunk (dget_or load (rank, peer, lane) 0))
            (\<lambda>w. Inr ((peer, lane), w)))
          (lane_entries routes))))"

definition window_at :: "(int \<times> int, int) dict \<Rightarrow> int \<Rightarrow> int \<Rightarrow> int" where
  "window_at table peer lane = dget_or table (peer, lane) 0"

section \<open>Chain order\<close>

definition chain_start :: "Layout \<Rightarrow> py_error + int" where
  "chain_start L =
    (let F = l_fabric L in
     if kind F = Path then
       (case filter (\<lambda>p. dget_or (fabric_degree F) p 0 \<le> 1) (fabric_positions F) of
          [] \<Rightarrow> Inl (ValueErr ''min() of an empty sequence'' [])
        | p # _ \<Rightarrow> Inr p)
     else py_index (l_positions L) 0)"

text \<open>
  The loop over the chain: \<open>left\<close> counts the positions still missing, None is \<open>return None\<close>.
\<close>

definition chain_candidates :: "Fabric \<Rightarrow> int option \<Rightarrow> int list \<Rightarrow> int list" where
  "chain_candidates F previous order =
    (let here = last order; steps = List.map_filter (cross F here) [0, 1] in
     if kind F \<noteq> Path \<and> length order = 1
     then (case cross F here 0 of Some s \<Rightarrow> [s_dst s] | None \<Rightarrow> [])
     else filter (\<lambda>d. Some d \<noteq> previous \<and> d \<notin> set order) (map s_dst steps))"

fun grow_chain :: "Fabric \<Rightarrow> nat \<Rightarrow> int option \<Rightarrow> int list \<Rightarrow> int list option" where
  "grow_chain F 0 previous order = Some order"
| "grow_chain F (Suc left) previous order =
    (case chain_candidates F previous order of
       [] \<Rightarrow> None
     | d # _ \<Rightarrow> grow_chain F left (Some (last order)) (order @ [d]))"

text \<open>Whether every lane from one rank to another is direct.\<close>

definition direct_lanes ::
  "Role list \<Rightarrow> role_names \<Rightarrow> Layout \<Rightarrow> route_map list \<Rightarrow> int \<times> int \<Rightarrow> py_error + bool" where
  "direct_lanes R names L maps e = (let (source, target) = e in
    bind_res (py_index maps source) (\<lambda>routes.
    let devices = dget_or routes target []
    in if devices = [] then Inr False
       else bind_res (map_res (lane_steps R names L source target) devices) (\<lambda>found.
         Inr (list_all (\<lambda>f. case f of None \<Rightarrow> False | Some (_, steps) \<Rightarrow> length steps = 1) found))))"

definition chain_order ::
  "Role list \<Rightarrow> role_names \<Rightarrow> Layout \<Rightarrow> route_map list \<Rightarrow> bool \<Rightarrow> py_error + int list option" where
  "chain_order R names L maps subset_ring =
    (let F = l_fabric L in
     if sort (l_positions L) \<noteq> fabric_positions F
     then (if \<not> subset_ring then Inr None else map_sum id Some (subset_validate R L maps 524288))
     else bind_res (chain_start L) (\<lambda>start.
       case grow_chain F (length (fabric_positions F) - 1) None [start] of
         None \<Rightarrow> Inr None
       | Some order \<Rightarrow>
           let ranks = map (rank_at L) order
           in bind_res (map_res (direct_lanes R names L maps)
                (concat (map (\<lambda>(a, b). [(a, b), (b, a)]) (zip ranks (tl ranks)))))
              (\<lambda>direct. Inr (if list_all id direct then Some ranks else None))))"

section \<open>Independent groups\<close>

datatype shared_resource = SharedCable nat nat Cable | SharedSpark nat nat int

definition group_lanes :: "GroupRoutes \<Rightarrow> LaneRoute list" where
  "group_lanes G = concat (concat (map (map snd) (g_ranks G)))"

definition group_cables :: "GroupRoutes \<Rightarrow> Cable list" where
  "group_cables G = remdups (concat (map (\<lambda>l. map s_cable (r_steps l)) (group_lanes G)))"

definition group_sparks :: "GroupRoutes \<Rightarrow> int list" where
  "group_sparks G = remdups (l_positions (g_layout G) @ concat (map lane_relays (group_lanes G)))"

definition pair_problems :: "GroupRoutes list \<Rightarrow> nat \<times> nat \<Rightarrow> shared_resource list" where
  "pair_problems groups ij = (let (i, j) = ij; a = groups ! i; b = groups ! j in
    map (SharedCable i j) (sort_key cable_text (filter (\<lambda>c. c \<in> set (group_cables b)) (group_cables a)))
    @ map (SharedSpark i j) (sort (filter (\<lambda>p. p \<in> set (group_sparks b)) (group_sparks a))))"

definition isolation_problems :: "GroupRoutes list \<Rightarrow> shared_resource list" where
  "isolation_problems groups = concat (map (pair_problems groups)
    (concat (map (\<lambda>i. map (Pair i) [Suc i..<length groups]) [0..<length groups])))"

section \<open>The packet bound of a subset ring\<close>

record packet_row =
  pr_queue :: queue_key
  pr_arena :: int
  pr_reverse :: int
  pr_control :: int
  pr_fixed2 :: int
  pr_shared :: "int list"
  pr_back :: "int list"

definition occupied2 :: "packet_row \<Rightarrow> int \<Rightarrow> int" where
  "occupied2 row window = pr_fixed2 row + 3 * sum_list (map (\<lambda>w. max w window) (pr_shared row))
    + sum_list (map (\<lambda>w. max w window) (pr_back row))"

definition packet_row ::
  "(int \<times> int, int) dict list \<Rightarrow> queues \<Rightarrow> queues \<Rightarrow> int \<Rightarrow> queue_key \<Rightarrow> py_error + packet_row" where
  "packet_row tables arena ring queue_bytes key =
    (let reversed = reverse_key key;
         bytes = (\<lambda>(r, p, lane). window_at (tables ! nat r) p lane);
         a = sum_list (map bytes (dget_or arena key []));
         b = sum_list (map bytes (dget_or arena reversed []));
         controls = (int (length (dget_or arena key [])) + int (length (dget_or arena reversed []))) * CONTROL_BYTES_PER_LANE;
         shared = map bytes (dget_or ring key []);
         back_shared = map bytes (dget_or ring reversed []);
         fixed2 = 3 * (a - sum_list shared) + b - sum_list back_shared + 2 * controls
     in if 3 * a + b + 2 * controls > 2 * queue_bytes
        then Inl (RouteError ''arena exceeds the packet envelope'' [])
        else Inr \<lparr>pr_queue = key, pr_arena = a, pr_reverse = b, pr_control = controls, pr_fixed2 = fixed2,
               pr_shared = shared, pr_back = back_shared\<rparr>)"

text \<open>The largest aligned window every row can hold: the loop stops at the first that does not fit.\<close>

definition largest_window :: "packet_row list \<Rightarrow> int \<Rightarrow> int \<Rightarrow> int" where
  "largest_window rows chunk queue_bytes =
    last (0 # takeWhile (\<lambda>w. list_all (\<lambda>row. occupied2 row w \<le> 2 * queue_bytes) rows)
      (py_range_step chunk (queue_bytes + 1) chunk))"

definition ring_packet_bound ::
  "Role list \<Rightarrow> Layout \<Rightarrow> route_map list \<Rightarrow> int \<Rightarrow> int \<Rightarrow> py_error + int \<times> (packet_row \<times> int \<times> int) list" where
  "ring_packet_bound R L maps chunk queue_bytes =
    bind_res (subset_validate R L maps queue_bytes) (\<lambda>order.
    if chunk \<le> 0 \<or> chunk mod 16 \<noteq> 0 then Inl (RouteError ''ring bound chunk must be a positive multiple of 16'' [])
    else bind_res (relay_queues R None L maps) (\<lambda>arena.
    bind_res (ring_queues R None L maps order) (\<lambda>ring.
    bind_res (map_res (\<lambda>rank. forward_windows R None L maps rank 131072 4096 queue_bytes True)
        (py_range (layout_world L))) (\<lambda>tables.
    let named = fst ` set arena \<union> fst ` set ring;
        keys = sorted_list_of_set (named \<union> reverse_key ` named)
    in bind_res (map_res (packet_row tables arena ring queue_bytes) keys) (\<lambda>rows.
    let window = (if ring = [] then 0 else largest_window rows chunk queue_bytes)
    in Inr (window, map (\<lambda>row. (row, (occupied2 row window + 1) div 2, (occupied2 row (window + chunk) + 1) div 2)) rows))))))"

end
