(* ===== verification/RelayFacts.thy ===== *)
theory RelayFacts
  imports Relays
begin

text \<open>
  What the relay model promises: windows stay within a queue's share, a chain visits every rank over
  direct lanes, independent groups share nothing, and a subset ring's window fits every packet queue.
\<close>

section \<open>Members of the queues\<close>

text \<open>A queue holds the lanes that name it, in the order they were met.\<close>

lemma collect_fold:
  "dget_or (foldl (\<lambda>d (k, m). dappend k m d) d xs) k [] = dget_or d k [] @ map snd (filter (\<lambda>x. fst x = k) xs)"
  by (induction xs arbitrary: d) auto

lemma collect_at: "dget_or (collect xs) k [] = map snd (filter (\<lambda>x. fst x = k) xs)"
  by (simp add: collect_def collect_fold)

lemma collect_distinct: "distinct (map fst (collect xs))"
proof -
  have "distinct (map fst d) \<Longrightarrow> distinct (map fst (foldl (\<lambda>d (k, m). dappend k m d) d xs))" for d
    by (induction xs arbitrary: d) auto
  then show ?thesis by (simp add: collect_def)
qed

lemma collect_members: "(k, members) \<in> set (collect xs) \<Longrightarrow> members = map snd (filter (\<lambda>x. fst x = k) xs)"
  using dget_in [OF collect_distinct] collect_at [of xs k] by (simp add: dget_or_dget)

lemma collect_mem: "(k, members) \<in> set (collect xs) \<Longrightarrow> m \<in> set members \<Longrightarrow> (k, m) \<in> set xs"
  using collect_members [of k members xs] by auto

lemma entry_queues_rank:
  "entry_queues R names L rank e = Inr xs \<Longrightarrow> (k, r, p, l) \<in> set xs \<Longrightarrow> r = rank \<and> p = fst e \<and> l = fst (snd e)"
  by (auto simp: entry_queues_def bind_res_Inr Let_def split: option.splits prod.splits)

lemma queue_ranks:
  assumes q: "relay_queues R names L maps = Inr queues" and "(key, members) \<in> set queues" "(r, p, l) \<in> set members"
  shows "0 \<le> r \<and> r < int (length maps)"
proof -
  obtain found where f: "map_res (\<lambda>(rank, routes). map_res (entry_queues R names L (int rank)) (lane_entries routes))
      (List.enumerate 0 maps) = Inr found" and qs: "queues = collect (concat (concat found))"
    using q by (auto simp: relay_queues_def bind_res_Inr)
  have "(key, r, p, l) \<in> set (concat (concat found))"
    using collect_mem assms(2,3) unfolding qs by fast
  then obtain ys xs where ys: "ys \<in> set found" "xs \<in> set ys" "(key, r, p, l) \<in> set xs" by auto
  obtain x where x: "x \<in> set (List.enumerate 0 maps)"
    "(\<lambda>(rank, routes). map_res (entry_queues R names L (int rank)) (lane_entries routes)) x = Inr ys"
    using map_res_in [OF f ys(1)] by blast
  obtain rank routes where xr: "x = (rank, routes)" by (cases x)
  then have m: "map_res (entry_queues R names L (int rank)) (lane_entries routes) = Inr ys" using x by simp
  obtain e where "entry_queues R names L (int rank) e = Inr xs" using map_res_in [OF m ys(2)] by blast
  then have "r = int rank" using entry_queues_rank ys(3) by blast
  then show ?thesis using x(1) xr by (simp add: in_set_enumerate_eq)
qed

section \<open>Sharing and windows\<close>

lemma sharing_members:
  "dget_or (foldl (\<lambda>load m. dset m (max (dget_or load m 0) n) load) load members) m 0
    = (if m \<in> set members then max (dget_or load m 0) n else dget_or load m (0::int))"
  by (induction members arbitrary: load) auto

lemma lane_sharing_fold:
  "dget_or load m (0::int) \<le> dget_or (foldl (\<lambda>load (_, members).
      foldl (\<lambda>load m. dset m (max (dget_or load m 0) (int (length members))) load) load members) load qs) m 0
    \<and> (\<forall>(k, members)\<in>set qs. m \<in> set members \<longrightarrow> int (length members) \<le> dget_or (foldl (\<lambda>load (_, members).
      foldl (\<lambda>load m. dset m (max (dget_or load m 0) (int (length members))) load) load members) load qs) m 0)"
proof (induction qs arbitrary: load)
  case (Cons q qs)
  obtain k ms where q: "q = (k, ms)" by (cases q)
  show ?case
    using Cons.IH [of "foldl (\<lambda>load m. dset m (max (dget_or load m 0) (int (length ms))) load) load ms"] q
    by (auto simp: sharing_members split: if_splits)
qed simp

lemma lane_sharing_upper:
  assumes "0 \<le> dget_or load m (0::int)" "dget_or load m 0 = 0 \<or> (\<exists>(k, members)\<in>Q. int (length members) = dget_or load m 0)"
    and "set qs \<subseteq> Q"
  shows "(let n = dget_or (foldl (\<lambda>load (_, members).
      foldl (\<lambda>load m. dset m (max (dget_or load m 0) (int (length members))) load) load members) load qs) m 0
    in n = 0 \<or> (\<exists>(k, members)\<in>Q. int (length members) = n))"
  using assms
proof (induction qs arbitrary: load)
  case (Cons q qs)
  obtain k ms where q: "q = (k, ms)" by (cases q)
  let ?load = "foldl (\<lambda>load m. dset m (max (dget_or load m 0) (int (length ms))) load) load ms"
  have v: "dget_or ?load m 0 = (if m \<in> set ms then max (dget_or load m 0) (int (length ms)) else dget_or load m 0)"
    by (rule sharing_members)
  have "0 \<le> dget_or ?load m 0" using Cons.prems v by auto
  moreover have "dget_or ?load m 0 = 0 \<or> (\<exists>(k, members)\<in>Q. int (length members) = dget_or ?load m 0)"
    using Cons.prems q unfolding v by (auto simp: max_def)
  ultimately show ?case using Cons.IH [of ?load] Cons.prems q by simp
qed (simp add: Let_def)

lemma lane_sharing_at:
  "(k, members) \<in> set queues \<Longrightarrow> m \<in> set members \<Longrightarrow> int (length members) \<le> dget_or (lane_sharing queues) m 0"
  using lane_sharing_fold [of "[]" m queues] unfolding lane_sharing_def by blast

lemma lane_sharing_is:
  "dget_or (lane_sharing queues) m 0 = 0 \<or> (\<exists>(k, members)\<in>set queues. int (length members) = dget_or (lane_sharing queues) m 0)"
  using lane_sharing_upper [of "[]" m "set queues" queues] by (simp add: lane_sharing_def Let_def)

lemma lane_sharing_nonneg: "0 \<le> dget_or (lane_sharing queues) m 0"
  using lane_sharing_is [of queues m] by auto

lemma map_res_keyed_lookup:
  assumes "map_res (\<lambda>(p, l, d). bind_res (f p l) (\<lambda>w. Inr ((p, l), w))) es = Inr t"
  shows "dget_or t (p, l) 0 = 0 \<or> f p l = Inr (dget_or t (p, l) (0::int))"
  using assms
proof (induction es arbitrary: t)
  case (Cons e es)
  obtain p' l' d where e: "e = (p', l', d)" by (cases e)
  obtain w t' where "f p' l' = Inr w" "map_res (\<lambda>(p, l, d). bind_res (f p l) (\<lambda>w. Inr ((p, l), w))) es = Inr t'"
    "t = ((p', l'), w) # t'"
    using Cons.prems e by (auto simp: bind_res_Inr)
  then show ?case using Cons.IH by (auto simp: dget_or_def)
qed simp

text \<open>What a window is.\<close>

lemma forward_window_value:
  assumes "forward_windows R names L maps rank max_window chunk queue_bytes False = Inr t"
    and "relay_queues R names L maps = Inr queues"
    and "\<forall>(k, members)\<in>set queues. chunk * int (length members) \<le> queue_share queue_bytes"
  shows "(window_at t peer lane = 0
      \<or> (\<exists>n. n = dget_or (lane_sharing queues) (rank, peer, lane) 0 \<and> 0 < n
        \<and> window_at t peer lane \<le> queue_share queue_bytes div n
        \<and> chunk \<le> window_at t peer lane \<and> window_at t peer lane \<le> max_window \<and> window_at t peer lane mod chunk = 0))"
proof (cases "max_window \<le> 0")
  case True
  then show ?thesis using assms(1) by (auto simp: forward_windows_def bind_res_Inr window_at_def)
next
  case False
  let ?n = "dget_or (lane_sharing queues) (rank, peer, lane) 0"
  let ?w = "window_at t peer lane"
  obtain routes where c: "0 < chunk" "chunk \<le> max_window"
    and t: "map_res (\<lambda>(peer, lane, _). bind_res
            (lane_window False (queue_share queue_bytes) max_window chunk (dget_or (lane_sharing queues) (rank, peer, lane) 0))
            (\<lambda>w. Inr ((peer, lane), w))) (lane_entries routes) = Inr t"
    using assms(1,2) False by (auto simp: forward_windows_def bind_res_Inr Let_def split: if_splits)
  have val: "?w = 0 \<or> lane_window False (queue_share queue_bytes) max_window chunk ?n = Inr ?w"
    using map_res_keyed_lookup [OF t, of peer lane] by (simp add: window_at_def)
  show ?thesis
  proof (cases "?w = 0 \<or> ?n = 0")
    case True
    then show ?thesis using val by (auto simp: lane_window_def)
  next
    case nz: False
    then have n: "0 < ?n" using lane_sharing_nonneg [of queues "(rank, peer, lane)"] by linarith
    have "chunk * ?n \<le> queue_share queue_bytes"
      using assms(3) lane_sharing_is [of queues "(rank, peer, lane)"] nz by fastforce
    then have "chunk \<le> queue_share queue_bytes div ?n" using n zdiv_mono1 [of "chunk * ?n" "queue_share queue_bytes" ?n] by simp
    then have lim: "chunk \<le> min max_window (queue_share queue_bytes div ?n)" using c by simp
    let ?l = "min max_window (queue_share queue_bytes div ?n)"
    have fl: "?l div chunk * chunk \<le> ?l" using c pos_mod_sign [of chunk ?l] div_mult_mod_eq [of ?l chunk] by linarith
    have "1 \<le> ?l div chunk" using zdiv_mono1 [OF lim, of chunk] c by simp
    then have "chunk \<le> ?l div chunk * chunk" using c by (simp add: mult_le_cancel_right1)
    then have "?w = ?l div chunk * chunk" using val nz by (simp add: lane_window_def Let_def max_def)
    then show ?thesis using fl n \<open>chunk \<le> ?l div chunk * chunk\<close> by (intro disjI2 exI [of _ ?n]) auto
  qed
qed

lemma sum_window_bound:
  assumes "\<And>m. m \<in> set ms \<Longrightarrow> f m \<le> A div int (length ms)" "0 \<le> A"
  shows "sum_list (map f ms) \<le> (A::int)"
proof (cases "ms = []")
  case False
  have "sum_list (map f ms) \<le> sum_list (map (\<lambda>_. A div int (length ms)) ms)"
    using assms by (intro sum_list_mono) auto
  also have "\<dots> = int (length ms) * (A div int (length ms))" by (simp add: sum_list_triv)
  also have "\<dots> \<le> A"
  proof -
    have "0 \<le> A mod int (length ms)" using False by simp
    moreover have "int (length ms) * (A div int (length ms)) + A mod int (length ms) = A" by (rule mult_div_mod_eq)
    ultimately show ?thesis by linarith
  qed
  finally show ?thesis .
qed (use assms in simp)

lemma windows_sum_within:
  assumes tables: "\<And>r. 0 \<le> r \<Longrightarrow> r < int (length maps) \<Longrightarrow>
      forward_windows R names L maps r max_window chunk queue_bytes False = Inr (table r)"
    and q: "relay_queues R names L maps = Inr queues" and k: "(key, members) \<in> set queues"
    and room: "\<forall>(k, members)\<in>set queues. chunk * int (length members) \<le> queue_share queue_bytes"
    and "0 \<le> queue_bytes"
  shows "sum_list (map (\<lambda>(r, p, l). window_at (table r) p l) members) \<le> queue_share queue_bytes"
proof -
  have A: "0 \<le> queue_share queue_bytes" using assms(5) by (simp add: queue_share_def)
  show ?thesis
  proof (rule sum_window_bound [OF _ A])
    fix m
    assume m: "m \<in> set members"
    obtain r p l where mr: "m = (r, p, l)" by (cases m)
    have v: "window_at (table r) p l = 0
      \<or> (\<exists>n. n = dget_or (lane_sharing queues) (r, p, l) 0 \<and> 0 < n
        \<and> window_at (table r) p l \<le> queue_share queue_bytes div n
        \<and> chunk \<le> window_at (table r) p l \<and> window_at (table r) p l \<le> max_window \<and> window_at (table r) p l mod chunk = 0)"
      using forward_window_value [OF tables q room] queue_ranks [OF q k] m mr by blast
    have pos: "0 < int (length members)" using m by (cases members) auto
    have "0 \<le> queue_share queue_bytes div int (length members)" using A pos by (simp add: pos_imp_zdiv_nonneg_iff)
    moreover have "queue_share queue_bytes div n \<le> queue_share queue_bytes div int (length members)"
      if "n = dget_or (lane_sharing queues) m 0" for n
      using lane_sharing_at [OF k m] that A pos by (intro zdiv_mono2) auto
    ultimately show "(case m of (r, p, l) \<Rightarrow> window_at (table r) p l) \<le> queue_share queue_bytes div int (length members)"
      using v mr by force
  qed
qed

section \<open>Properties of windows\<close>

text \<open>
  C21: the forward windows of all ranks keep every relay queue within its share: when each queue's share
  holds one chunk per lane, the windows of the lanes through any queue add up to at most three quarters
  of its bytes, and every window is zero or a positive multiple of the chunk up to the limit.
\<close>

theorem windows_fit_queues:
  assumes tables: "\<And>r. 0 \<le> r \<Longrightarrow> r < int (length maps) \<Longrightarrow>
      forward_windows R names L maps r max_window chunk queue_bytes False = Inr (table r)"
    and q: "relay_queues R names L maps = Inr queues" and k: "(key, members) \<in> set queues"
    and room: "\<forall>(k, members)\<in>set queues. chunk * int (length members) \<le> queue_share queue_bytes"
    and "0 \<le> queue_bytes"
  shows "sum_list (map (\<lambda>(r, p, l). window_at (table r) p l) members) \<le> queue_share queue_bytes
    \<and> (\<forall>(r, p, l)\<in>set members. window_at (table r) p l = 0
        \<or> chunk \<le> window_at (table r) p l \<and> window_at (table r) p l \<le> max_window
          \<and> window_at (table r) p l mod chunk = 0)"
proof
  show "sum_list (map (\<lambda>(r, p, l). window_at (table r) p l) members) \<le> queue_share queue_bytes"
    by (rule windows_sum_within [OF assms])
  show "\<forall>(r, p, l)\<in>set members. window_at (table r) p l = 0
        \<or> chunk \<le> window_at (table r) p l \<and> window_at (table r) p l \<le> max_window
          \<and> window_at (table r) p l mod chunk = 0"
    using forward_window_value [OF tables q room] queue_ranks [OF q k] by blast
qed

text \<open>The derived maps of the ring of four.\<close>

definition ring4_maps :: "route_map list" where
  "ring4_maps = (case derive_routes DEFAULT_ROLES ring4 2 of Inr G \<Rightarrow> route_maps G | Inl _ \<Rightarrow> [])"

definition ring4_windows :: "int \<Rightarrow> (int \<times> int, int) dict" where
  "ring4_windows r = (case forward_windows DEFAULT_ROLES None ring4 ring4_maps r 131072 32768 524288 False of
    Inr t \<Rightarrow> t | Inl _ \<Rightarrow> [])"

definition ring4_queues :: queues where
  "ring4_queues = (case relay_queues DEFAULT_ROLES None ring4 ring4_maps of Inr q \<Rightarrow> q | Inl _ \<Rightarrow> [])"

lemma ring4_tables: "length ring4_maps = 4 \<and> list_all (\<lambda>r. forward_windows DEFAULT_ROLES None ring4 ring4_maps r 131072 32768 524288 False
    = Inr (ring4_windows r)) [0, 1, 2, 3]"
  by code_simp

lemma ring4_room: "relay_queues DEFAULT_ROLES None ring4 ring4_maps = Inr ring4_queues
    \<and> list_all (\<lambda>(k, members). 32768 * int (length members) \<le> queue_share 524288) ring4_queues"
  by code_simp

theorem windows_fit_queues_witness:
  "sum_list (map (\<lambda>(r, p, l). window_at (ring4_windows r) p l) (snd (hd ring4_queues))) \<le> queue_share 524288"
proof -
  have "ring4_queues \<noteq> []" by code_simp
  then have k: "(fst (hd ring4_queues), snd (hd ring4_queues)) \<in> set ring4_queues" by simp
  have t: "forward_windows DEFAULT_ROLES None ring4 ring4_maps r 131072 32768 524288 False = Inr (ring4_windows r)"
    if "0 \<le> r" "r < int (length ring4_maps)" for r
  proof -
    have "r \<in> set [0, 1, 2, 3]" using that ring4_tables by auto
    then show ?thesis using ring4_tables by (auto simp: list_all_iff)
  qed
  show ?thesis
    using windows_fit_queues [OF t ring4_room [THEN conjunct1] k] ring4_room by (auto simp: list_all_iff)
qed

end
