(* ===== verification/ChainFacts.thy ===== *)
theory ChainFacts
  imports RelayFacts
begin

text \<open>
  The chain order of a group visits every rank once over direct lanes; a subset arc is cable
  connected; groups without isolation problems share no cable and no Spark; the packet bound of a
  subset ring is a certificate.
\<close>

section \<open>Chains\<close>

text \<open>What both growing loops keep: the list stays distinct, grows by one per turn, and every new
  position is a cable away.\<close>

definition linked :: "(int \<Rightarrow> int \<Rightarrow> bool) \<Rightarrow> int list \<Rightarrow> bool" where
  "linked step ps \<longleftrightarrow> (\<forall>i. Suc i < length ps \<longrightarrow> step (ps ! i) (ps ! Suc i))"

lemma linked_snoc: "ps \<noteq> [] \<Longrightarrow> linked step (ps @ [x]) \<longleftrightarrow> linked step ps \<and> step (last ps) x"
proof -
  assume ne: "ps \<noteq> []"
  have l: "last ps = ps ! (length ps - 1)" by (rule last_conv_nth [OF ne])
  show ?thesis
  proof
    assume a: "linked step (ps @ [x])"
    have "step (ps ! i) (ps ! Suc i)" if "Suc i < length ps" for i
      using a that unfolding linked_def by (auto simp: nth_append dest: spec [of _ i])
    moreover have "step (last ps) x"
      using a ne unfolding linked_def l by (auto simp: nth_append dest!: spec [of _ "length ps - 1"])
    ultimately show "linked step ps \<and> step (last ps) x" by (simp add: linked_def)
  next
    assume a: "linked step ps \<and> step (last ps) x"
    show "linked step (ps @ [x])"
      unfolding linked_def
    proof (intro allI impI)
      fix i
      assume "Suc i < length (ps @ [x])"
      then consider "Suc i < length ps" | "i = length ps - 1" "Suc i = length ps" using ne by fastforce
      then show "step ((ps @ [x]) ! i) ((ps @ [x]) ! Suc i)"
        using a by cases (auto simp: linked_def nth_append l)
    qed
  qed
qed

lemma linked_single [simp]: "linked step [x]"
  by (simp add: linked_def)

definition cabled :: "Fabric \<Rightarrow> int \<Rightarrow> int \<Rightarrow> bool" where
  "cabled F a b \<longleftrightarrow> (\<exists>port s. cross F a port = Some s \<and> s_dst s = b)"

lemma grow_chain_facts:
  assumes F: "fabric_ok F"
  shows "grow_chain F left previous order = Some result \<Longrightarrow> order \<noteq> [] \<Longrightarrow> distinct order \<Longrightarrow> linked (cabled F) order \<Longrightarrow>
    distinct result \<and> length result = length order + left \<and> linked (cabled F) result
      \<and> set result \<subseteq> set order \<union> fst ` set (fabric_ends F)"
proof (induction left arbitrary: previous order)
  case (Suc left)
  let ?here = "last order"
  obtain d ds where c: "chain_candidates F previous order = d # ds"
    and r: "grow_chain F left (Some ?here) (order @ [d]) = Some result"
    using Suc.prems(1) by (auto split: list.splits)
  have d: "\<exists>port s. cross F ?here port = Some s \<and> s_dst s = d \<and> d \<notin> set order"
  proof (cases "kind F \<noteq> Path \<and> length order = 1")
    case True
    then obtain s where s: "cross F ?here 0 = Some s" "s_dst s = d"
      using c by (cases "cross F ?here 0") (auto simp: chain_candidates_def)
    moreover have "set order = {?here}" using True by (cases order) auto
    moreover have "s_dst s \<noteq> ?here" using fab.cross_not_self [OF F s(1)] .
    ultimately show ?thesis by auto
  next
    case False
    then have "chain_candidates F previous order
        = filter (\<lambda>d. Some d \<noteq> previous \<and> d \<notin> set order) (map s_dst (List.map_filter (cross F ?here) [0, 1]))"
      unfolding chain_candidates_def Let_def by (simp only: if_False)
    then have "d \<in> set (filter (\<lambda>d. Some d \<noteq> previous \<and> d \<notin> set order) (map s_dst (List.map_filter (cross F ?here) [0, 1])))"
      using c by (metis list.set_intros(1))
    then have "d \<notin> set order" "d \<in> s_dst ` set (List.map_filter (cross F ?here) [0, 1])" by auto
    then show ?thesis unfolding set_map_filter by blast
  qed
  then have "cabled F ?here d" "d \<in> fst ` set (fabric_ends F)" using cross_node by (auto simp: cabled_def)
  moreover have "distinct (order @ [d])" using d Suc.prems by auto
  moreover have "linked (cabled F) (order @ [d])" using linked_snoc Suc.prems \<open>cabled F ?here d\<close> by blast
  ultimately show ?case using Suc.IH [OF r] by auto
qed simp

lemma rank_at_index:
  assumes "distinct (l_positions L)" "p \<in> set (l_positions L)"
  shows "0 \<le> rank_at L p \<and> rank_at L p < layout_world L \<and> position_of L (rank_at L p) = p"
proof -
  let ?k = "length (takeWhile (\<lambda>q. q \<noteq> p) (l_positions L))"
  have l: "?k < length (l_positions L)" using assms(2) by (rule takeWhile_less)
  then have "l_positions L ! ?k = p" using nth_length_takeWhile by blast
  with l show ?thesis by (simp add: rank_at_def layout_world_def position_of_def)
qed

lemma rank_at_inj: "distinct (l_positions L) \<Longrightarrow> inj_on (rank_at L) (set (l_positions L))"
  using rank_at_index by (metis inj_onI)

lemma ranks_complete:
  assumes ok: "layout_ok L" and same: "sort (l_positions L) = fabric_positions (l_fabric L)"
    and order: "distinct order" "length order = length (fabric_positions (l_fabric L))"
      "set order \<subseteq> set (fabric_positions (l_fabric L))"
  shows "distinct (map (rank_at L) order) \<and> set (map (rank_at L) order) = set (py_range (layout_world L))"
proof -
  have ps: "set (l_positions L) = set (fabric_positions (l_fabric L))" using same by (metis set_sort)
  have dis: "distinct (l_positions L)" using ok by (simp add: layout_ok_def)
  have d: "distinct (map (rank_at L) order)"
    using order(1,3) rank_at_inj [OF dis] ps by (auto simp: distinct_map intro: inj_on_subset)
  have sub: "set (map (rank_at L) order) \<subseteq> set (py_range (layout_world L))"
  proof
    fix r
    assume "r \<in> set (map (rank_at L) order)"
    then obtain p where "r = rank_at L p" "p \<in> set order" by auto
    then show "r \<in> set (py_range (layout_world L))" using rank_at_index [OF dis, of p] order(3) ps by auto
  qed
  have "length order = length (l_positions L)" using order(2) same by (metis length_sort)
  then have "card (set (map (rank_at L) order)) = card (set (py_range (layout_world L)))"
    using distinct_card [OF d] by (simp add: layout_world_def distinct_card del: set_py_range flip: distinct_card [of "py_range (layout_world L)"])
  with d sub show ?thesis using card_subset_eq by blast
qed

lemma direct_lanes_Inr:
  "direct_lanes R names L maps (a, b) = Inr True \<Longrightarrow>
    (\<exists>routes. py_index maps a = Inr routes \<and> dget_or routes b [] \<noteq> []
      \<and> (\<forall>device\<in>set (dget_or routes b []). \<exists>role s. lane_steps R names L a b device = Inr (Some (role, [s]))))"
proof -
  assume a: "direct_lanes R names L maps (a, b) = Inr True"
  then obtain routes found where r: "py_index maps a = Inr routes" "dget_or routes b [] \<noteq> []"
    and f: "map_res (lane_steps R names L a b) (dget_or routes b []) = Inr found"
    and all: "list_all (\<lambda>f. case f of None \<Rightarrow> False | Some (_, steps) \<Rightarrow> length steps = Suc 0) found"
    by (auto simp: direct_lanes_def bind_res_Inr Let_def split: if_splits)
  have "\<exists>role s. lane_steps R names L a b device = Inr (Some (role, [s]))" if dv: "device \<in> set (dget_or routes b [])" for device
  proof -
    obtain i where i: "i < length (dget_or routes b [])" "device = dget_or routes b [] ! i"
      using dv by (auto simp: in_set_conv_nth)
    have e: "lane_steps R names L a b device = Inr (found ! i)" using map_res_nth [OF f i(1)] i(2) by simp
    have "case found ! i of None \<Rightarrow> False | Some (_, steps) \<Rightarrow> length steps = Suc 0"
      using all i(1) map_res_length [OF f] by (simp add: list_all_length)
    then show ?thesis using e by (auto split: option.splits simp: length_Suc_conv)
  qed
  then show ?thesis using r by blast
qed

lemma map_res_all_true: "map_res f xs = Inr ys \<Longrightarrow> list_all id ys \<Longrightarrow> e \<in> set xs \<Longrightarrow> f e = Inr True"
  by (induction xs arbitrary: ys) (auto simp: bind_res_Inr)

lemma zip_tl_in: "Suc i < length xs \<Longrightarrow> (xs ! i, xs ! Suc i) \<in> set (zip xs (tl xs))"
  by (auto simp: in_set_zip nth_tl intro!: exI [of _ i])

text \<open>
  C35: when \<open>chain_order\<close> gives an order on a layout whose ranks cover the fabric, it names every rank
  once, and between consecutive ranks of the chain every lane, in both directions, is one cable.
\<close>

theorem chain_order_sound:
  assumes ok: "layout_ok L" and c: "chain_order R names L maps False = Inr (Some ranks)"
  shows "distinct ranks \<and> set ranks = set (py_range (layout_world L))
    \<and> linked (\<lambda>a b. cabled (l_fabric L) (position_of L a) (position_of L b)) ranks
    \<and> (\<forall>i a b. Suc i < length ranks \<and> (a, b) \<in> {(ranks ! i, ranks ! Suc i), (ranks ! Suc i, ranks ! i)} \<longrightarrow>
        (\<exists>routes. py_index maps a = Inr routes \<and> dget_or routes b [] \<noteq> []
          \<and> (\<forall>device\<in>set (dget_or routes b []). \<exists>role s. lane_steps R names L a b device = Inr (Some (role, [s])))))"
proof -
  have F: "fabric_ok (l_fabric L)" and dis: "distinct (l_positions L)" using ok by (auto simp: layout_ok_def)
  have same: "sort (l_positions L) = fabric_positions (l_fabric L)"
    using c by (auto simp: chain_order_def Let_def split: if_splits)
  then have ps: "set (l_positions L) = set (fabric_positions (l_fabric L))" by (metis set_sort)
  obtain start order direct where st: "chain_start L = Inr start"
    and g: "grow_chain (l_fabric L) (length (fabric_positions (l_fabric L)) - 1) None [start] = Some order"
    and m: "map_res (direct_lanes R names L maps)
        (concat (map (\<lambda>(a, b). [(a, b), (b, a)]) (zip (map (rank_at L) order) (tl (map (rank_at L) order))))) = Inr direct"
    and all: "list_all id direct" and r: "ranks = map (rank_at L) order"
    using c same by (auto simp: chain_order_def Let_def bind_res_Inr split: if_splits option.splits)
  have sp: "start \<in> set (fabric_positions (l_fabric L))"
  proof (cases "kind (l_fabric L) = Path")
    case True
    then obtain ps where "filter (\<lambda>p. dget_or (fabric_degree (l_fabric L)) p 0 \<le> 1) (fabric_positions (l_fabric L)) = start # ps"
      using st by (auto simp: chain_start_def Let_def split: list.splits)
    then have "start \<in> set (filter (\<lambda>p. dget_or (fabric_degree (l_fabric L)) p 0 \<le> 1) (fabric_positions (l_fabric L)))"
      by (metis list.set_intros(1))
    then show ?thesis by simp
  next
    case False
    then have "py_index (l_positions L) 0 = Inr start" using st by (simp add: chain_start_def Let_def)
    then have "start \<in> set (l_positions L)" by (auto simp: py_index_def split: if_splits)
    then show ?thesis using ps by simp
  qed
  note gf = grow_chain_facts [OF F g]
  have of: "distinct order" "length order = length (fabric_positions (l_fabric L))"
      "set order \<subseteq> set (fabric_positions (l_fabric L))" "linked (cabled (l_fabric L)) order"
    using gf sp length_pos_if_in_set [OF sp] by auto
  have rc: "distinct ranks \<and> set ranks = set (py_range (layout_world L))"
    unfolding r by (rule ranks_complete [OF ok same of(1-3)])
  have pos: "position_of L (rank_at L p) = p" if "p \<in> set order" for p
    using rank_at_index [OF dis] of(3) ps that by blast
  have lk: "linked (\<lambda>a b. cabled (l_fabric L) (position_of L a) (position_of L b)) ranks"
    unfolding linked_def r
  proof (intro allI impI)
    fix i
    assume i: "Suc i < length (map (rank_at L) order)"
    then have "order ! i \<in> set order" "order ! Suc i \<in> set order" by auto
    with i of(4) show "cabled (l_fabric L) (position_of L (map (rank_at L) order ! i)) (position_of L (map (rank_at L) order ! Suc i))"
      by (simp add: pos linked_def)
  qed
  have each: "direct_lanes R names L maps e = Inr True"
    if "e \<in> set (concat (map (\<lambda>(a, b). [(a, b), (b, a)]) (zip ranks (tl ranks))))" for e
    using map_res_all_true [OF m all] that unfolding r by blast
  have "\<exists>routes. py_index maps a = Inr routes \<and> dget_or routes b [] \<noteq> []
          \<and> (\<forall>device\<in>set (dget_or routes b []). \<exists>role s. lane_steps R names L a b device = Inr (Some (role, [s])))"
    if "Suc i < length ranks" "(a, b) \<in> {(ranks ! i, ranks ! Suc i), (ranks ! Suc i, ranks ! i)}" for i a b
  proof -
    have "(a, b) \<in> set (concat (map (\<lambda>(a, b). [(a, b), (b, a)]) (zip ranks (tl ranks))))"
      using zip_tl_in [OF that(1)] that(2) by fastforce
    then show ?thesis using each direct_lanes_Inr by blast
  qed
  with rc lk show ?thesis by blast
qed

theorem chain_order_sound_witness:
  "\<exists>ranks. chain_order DEFAULT_ROLES None ring4 ring4_maps False = Inr (Some ranks) \<and> distinct ranks
    \<and> set ranks = set (py_range (layout_world ring4))"
proof -
  have "chain_order DEFAULT_ROLES None ring4 ring4_maps False = Inr (Some [0, 1, 2, 3])" by code_simp
  then show ?thesis using chain_order_sound [OF ring4_ok] by blast
qed

section \<open>Subset arcs\<close>

lemma grow_arc_facts:
  "grow_arc F members left arc = Inr result \<Longrightarrow> arc \<noteq> [] \<Longrightarrow> distinct arc \<Longrightarrow> set arc \<subseteq> members \<Longrightarrow>
    linked (\<lambda>a b. \<exists>s. cross F a 0 = Some s \<and> s_dst s = b) arc \<Longrightarrow>
    distinct result \<and> set result \<subseteq> members \<and> length result = length arc + left
      \<and> linked (\<lambda>a b. \<exists>s. cross F a 0 = Some s \<and> s_dst s = b) result"
proof (induction left arbitrary: arc)
  case (Suc left)
  then obtain s where s: "cross F (last arc) 0 = Some s" "s_dst s \<in> members" "s_dst s \<notin> set arc"
    and g: "grow_arc F members left (arc @ [s_dst s]) = Inr result"
    by (auto split: option.splits if_splits)
  have "linked (\<lambda>a b. \<exists>s. cross F a 0 = Some s \<and> s_dst s = b) (arc @ [s_dst s])"
    using Suc.prems(2,5) s(1) by (simp add: linked_snoc)
  then show ?case using Suc.IH [OF g] Suc.prems s by auto
qed simp

text \<open>
  A subset chain the admission accepts names every rank of the layout once, and each rank's
  Spark is cabled through its port 0 to the next one's; one or two Sparks of a cycle of four to eight
  stay outside.
\<close>

theorem subset_order_sound:
  assumes ok: "layout_ok L" and o': "subset_order L = Inr order"
  shows "distinct order \<and> set order = set (py_range (layout_world L))
    \<and> linked (\<lambda>a b. \<exists>s. cross (l_fabric L) (position_of L a) 0 = Some s \<and> s_dst s = position_of L b) order
    \<and> 3 \<le> layout_world L \<and> kind (l_fabric L) = Cycle"
proof -
  have dis: "distinct (l_positions L)" using ok by (simp add: layout_ok_def)
  let ?M = "set (l_positions L)"
  obtain ends arc where kd: "kind (l_fabric L) = Cycle" and c3: "3 \<le> card ?M"
    and e: "map_res (\<lambda>p. case cross (l_fabric L) p 1 of
              None \<Rightarrow> Inl (RuntimeErr ''no cable on port 1'' [p]) | Some s \<Rightarrow> Inr (p, s_dst s)) (remdups (l_positions L)) = Inr ends"
    and l1: "length (map fst (filter (\<lambda>(_, d). d \<notin> ?M) ends)) = 1"
    and g: "grow_arc (l_fabric L) ?M (card ?M - 1) (map fst (filter (\<lambda>(_, d). d \<notin> ?M) ends)) = Inr arc"
    and r: "order = map (rank_at L) arc"
    using o' by (auto simp: subset_order_def Let_def bind_res_Inr split: if_splits)
  obtain x where x: "map fst (filter (\<lambda>(_, d). d \<notin> ?M) ends) = [x]" using l1 by (auto simp: length_Suc_conv)
  then have "x \<in> fst ` set ends" by (metis (no_types, lifting) filter_is_subset image_mono image_set list.set_intros(1) subsetD)
  then obtain d where "(x, d) \<in> set ends" by force
  then obtain y where y: "y \<in> set (remdups (l_positions L))"
    "(case cross (l_fabric L) y 1 of None \<Rightarrow> Inl (RuntimeErr ''no cable on port 1'' [y]) | Some s \<Rightarrow> Inr (y, s_dst s)) = Inr (x, d)"
    using map_res_in [OF e] by blast
  then have xm: "x \<in> ?M" by (cases "cross (l_fabric L) y 1") auto
  note ga = grow_arc_facts [OF g [unfolded x]]
  have a: "distinct arc" "set arc \<subseteq> ?M" "length arc = card ?M"
    and lk: "linked (\<lambda>a b. \<exists>s. cross (l_fabric L) a 0 = Some s \<and> s_dst s = b) arc"
    using ga xm c3 by auto
  have sa: "set arc = ?M" using a by (metis List.finite_set card_subset_eq distinct_card)
  have w: "layout_world L = int (card ?M)" using dis by (simp add: layout_world_def distinct_card)
  have "distinct order" using a sa rank_at_inj [OF dis] by (simp add: r distinct_map)
  moreover have "set order = set (py_range (layout_world L))"
  proof (rule card_subset_eq)
    show "set order \<subseteq> set (py_range (layout_world L))"
    proof
      fix k
      assume "k \<in> set order"
      then obtain p where "k = rank_at L p" "p \<in> set arc" by (auto simp: r)
      then show "k \<in> set (py_range (layout_world L))" using rank_at_index [OF dis, of p] sa by auto
    qed
    have "card (set order) = length order" using \<open>distinct order\<close> by (rule distinct_card)
    moreover have "card (set (py_range (layout_world L))) = length (py_range (layout_world L))" by (rule distinct_card) simp
    ultimately show "card (set order) = card (set (py_range (layout_world L)))" using a(3) w by (simp add: r)
  qed simp
  moreover have "linked (\<lambda>a b. \<exists>s. cross (l_fabric L) (position_of L a) 0 = Some s \<and> s_dst s = position_of L b) order"
    unfolding linked_def r
  proof (intro allI impI)
    fix i
    assume i: "Suc i < length (map (rank_at L) arc)"
    then have "arc ! i \<in> ?M" "arc ! Suc i \<in> ?M" using sa by (metis Suc_lessD length_map nth_mem)+
    then show "\<exists>s. cross (l_fabric L) (position_of L (map (rank_at L) arc ! i)) 0 = Some s
        \<and> s_dst s = position_of L (map (rank_at L) arc ! Suc i)"
      using i lk rank_at_index [OF dis] by (simp add: linked_def)
  qed
  ultimately show ?thesis using kd c3 w by simp
qed

definition arc5 :: Layout where
  "arc5 = \<lparr>l_fabric = \<lparr>cables = map (\<lambda>i. \<lparr>ca = i, ca_port = 0, cb = (i + 1) mod 5, cb_port = 1\<rparr>) [0, 1, 2, 3, 4]\<rparr>,
    l_positions = [1, 4, 0]\<rparr>"

theorem subset_order_sound_witness:
  "subset_order arc5 = Inr [1, 2, 0] \<and> set [1, 2, 0] = set (py_range (layout_world arc5))"
proof -
  have ok: "layout_ok arc5" and o': "subset_order arc5 = Inr [1, 2, 0]" by code_simp+
  then show ?thesis using subset_order_sound [OF ok o'] by blast
qed

section \<open>Isolation\<close>

text \<open>
  The isolation check of independent groups finds nothing exactly when no two of them cross the
  same cable and no two of them use the same Spark, as a rank's or as a relay.
\<close>

theorem isolation_exact:
  "isolation_problems groups = [] \<longleftrightarrow>
    (\<forall>i j. i < j \<and> j < length groups \<longrightarrow>
      set (group_cables (groups ! i)) \<inter> set (group_cables (groups ! j)) = {}
      \<and> set (group_sparks (groups ! i)) \<inter> set (group_sparks (groups ! j)) = {})"
proof -
  have nil: "pair_problems groups (i, j) = [] \<longleftrightarrow>
      set (group_cables (groups ! i)) \<inter> set (group_cables (groups ! j)) = {}
      \<and> set (group_sparks (groups ! i)) \<inter> set (group_sparks (groups ! j)) = {}" for i j
  proof -
    have s: "sort_key f xs = [] \<longleftrightarrow> xs = []" for f :: "'x \<Rightarrow> 'y :: linorder" and xs by (metis set_empty set_sort)
    show ?thesis by (auto simp: pair_problems_def Let_def s filter_empty_conv)
  qed
  have "isolation_problems groups = [] \<longleftrightarrow> (\<forall>i j. i < length groups \<and> Suc i \<le> j \<and> j < length groups \<longrightarrow> pair_problems groups (i, j) = [])"
    by (auto simp: isolation_problems_def)
  also have "\<dots> \<longleftrightarrow> (\<forall>i j. i < j \<and> j < length groups \<longrightarrow> pair_problems groups (i, j) = [])" by (auto simp: Suc_le_eq)
  finally show ?thesis by (simp only: nil)
qed

text \<open>Two groups on disjoint pairs of a path.\<close>

definition pair_group :: "int \<Rightarrow> int \<Rightarrow> GroupRoutes" where
  "pair_group a b = (case derive_routes DEFAULT_ROLES \<lparr>l_fabric = \<lparr>cables = [\<lparr>ca = a, ca_port = 0, cb = b, cb_port = 1\<rparr>]\<rparr>,
      l_positions = [a, b]\<rparr> 2 of Inr G \<Rightarrow> G | Inl _ \<Rightarrow> \<lparr>g_layout = \<lparr>l_fabric = \<lparr>cables = []\<rparr>, l_positions = []\<rparr>, g_lanes = 0, g_ranks = []\<rparr>)"

theorem isolation_exact_witness:
  "set (group_sparks (pair_group 0 1)) \<inter> set (group_sparks (pair_group 2 3)) = {}"
proof -
  have "isolation_problems [pair_group 0 1, pair_group 2 3] = []" by code_simp
  then have "\<forall>i j. i < j \<and> j < length [pair_group 0 1, pair_group 2 3] \<longrightarrow>
      set (group_cables ([pair_group 0 1, pair_group 2 3] ! i)) \<inter> set (group_cables ([pair_group 0 1, pair_group 2 3] ! j)) = {}
      \<and> set (group_sparks ([pair_group 0 1, pair_group 2 3] ! i)) \<inter> set (group_sparks ([pair_group 0 1, pair_group 2 3] ! j)) = {}"
    by (simp only: isolation_exact)
  from this [rule_format, of 0 1] show ?thesis by simp
qed

section \<open>The packet bound\<close>

lemma last_takeWhile:
  "last (z # takeWhile P xs) = z \<or> (P (last (z # takeWhile P xs)) \<and> last (z # takeWhile P xs) \<in> set xs)"
proof (cases "takeWhile P xs = []")
  case False
  then have "last (takeWhile P xs) \<in> set (takeWhile P xs)" by simp
  then have "P (last (takeWhile P xs)) \<and> last (takeWhile P xs) \<in> set xs" by (auto dest: set_takeWhileD)
  then show ?thesis using False by simp
qed simp

lemma sum_max_zero: "(\<And>w. w \<in> set ws \<Longrightarrow> (0::int) \<le> w) \<Longrightarrow> sum_list (map (\<lambda>w. max w 0) ws) = sum_list ws"
proof -
  assume a: "\<And>w. w \<in> set ws \<Longrightarrow> 0 \<le> w"
  have "map (\<lambda>w. max w 0) ws = ws" by (rule map_idI) (use a in simp)
  then show ?thesis by simp
qed

lemma forward_windows_nonneg:
  assumes "forward_windows R names L maps rank max_window chunk queue_bytes sub = Inr t"
  shows "0 \<le> window_at t peer lane"
proof (cases "max_window \<le> 0")
  case True
  then show ?thesis using assms by (auto simp: forward_windows_def bind_res_Inr window_at_def split: if_splits)
next
  case False
  obtain routes allowance queues where c: "0 < chunk"
    and t: "map_res (\<lambda>(peer, lane, _). bind_res
            (lane_window sub allowance max_window chunk (dget_or (lane_sharing queues) (rank, peer, lane) 0))
            (\<lambda>w. Inr ((peer, lane), w))) (lane_entries routes) = Inr t"
    using assms False by (auto simp: forward_windows_def bind_res_Inr Let_def split: if_splits)
  show ?thesis using map_res_keyed_lookup [OF t, of peer lane] c
    by (auto simp: window_at_def lane_window_def Let_def split: if_splits)
qed

lemma subset_validate_Inr:
  assumes "subset_validate R L maps queue_bytes = Inr order"
  shows "subset_order L = Inr order \<and> 0 \<le> queue_bytes"
proof -
  obtain o' where so: "subset_order L = Inr o'"
    and rest: "(if \<not> (4096 \<le> queue_bytes \<and> queue_bytes \<le> 524288)
      then Inl (RouteError ''subset ring hairpin capacity must be between 4096 and 524288 bytes'' [])
      else bind_res (py_index maps 0) (\<lambda>first. case first of
        [] \<Rightarrow> Inl (RuntimeErr ''StopIteration'' [])
      | (_, devices) # _ \<Rightarrow>
          bind_res (derive_routes R L (int (length devices))) (\<lambda>G.
          if list_all2 same_dict (map (role_map R) maps) (map (role_map R) (map (route_map G) (py_range (layout_world L))))
          then Inr o'
          else Inl (RouteError ''subset ring requires the universal shortest-path lane maps'' [])))) = Inr order"
    using assms unfolding subset_validate_def bind_res_Inr [of "subset_order L"] by blast
  have q: "0 \<le> queue_bytes" using rest by (auto split: if_splits)
  obtain first :: route_map where "(case first of
        [] \<Rightarrow> Inl (RuntimeErr ''StopIteration'' [])
      | (_, devices) # _ \<Rightarrow>
          bind_res (derive_routes R L (int (length devices))) (\<lambda>G.
          if list_all2 same_dict (map (role_map R) maps) (map (role_map R) (map (route_map G) (py_range (layout_world L))))
          then Inr o'
          else Inl (RouteError ''subset ring requires the universal shortest-path lane maps'' []))) = Inr order"
    using rest by (auto simp: bind_res_Inr [of "py_index maps 0"] split: if_splits)
  then have "o' = order" by (cases first) (auto simp: bind_res_Inr split: if_splits)
  with so q show ?thesis by simp
qed

lemma ring_ranks:
  assumes q: "ring_queues R names L maps order = Inr ring" and m: "(r, p, l) \<in> set (dget_or ring key [])"
  shows "r \<in> set order"
proof -
  obtain found where f: "map_res (\<lambda>i. bind_res (ring_entries maps order i)
        (map_res (\<lambda>(rank, peer, lane, device). entry_queues R names L rank (peer, lane, device))))
        [0..<length order] = Inr found" and qs: "ring = collect (concat (concat found))"
    using q by (auto simp: ring_queues_def bind_res_Inr)
  have "(r, p, l) \<in> snd ` set (filter (\<lambda>x. fst x = key) (concat (concat found)))"
    using m unfolding qs collect_at by (simp only: set_map)
  then have "(key, r, p, l) \<in> set (concat (concat found))" by (metis (mono_tags, lifting) imageE mem_Collect_eq prod.collapse set_filter)
  then obtain ys xs where ys: "ys \<in> set found" "xs \<in> set ys" "(key, r, p, l) \<in> set xs" by auto
  obtain i es where i: "i \<in> set [0..<length order]" and es: "ring_entries maps order i = Inr es"
    and e: "map_res (\<lambda>(rank, peer, lane, device). entry_queues R names L rank (peer, lane, device)) es = Inr ys"
    using map_res_in [OF f ys(1)] by (auto simp: bind_res_Inr)
  obtain rank peer lane device where m4: "(rank, peer, lane, device) \<in> set es"
    and eq: "entry_queues R names L rank (peer, lane, device) = Inr xs"
    using map_res_in [OF e ys(2)] by auto
  have "rank = order ! i" using m4 es by (auto simp: ring_entries_def Let_def bind_res_Inr split: if_splits)
  then show ?thesis using entry_queues_rank [OF eq ys(3)] i by simp
qed

text \<open>
  The window and rows \<open>ring_packet_bound\<close> returns are a certificate: with that window in flight on
  every ring lane (beside the arena's fixed windows) no row occupies more than its queue, so every
  reported bound is at most the queue's bytes, and the window is a multiple of the chunk.
\<close>

theorem packet_bound_certificate:
  assumes ok: "layout_ok L" and b: "ring_packet_bound R L maps chunk queue_bytes = Inr (window, rows)"
  shows "0 \<le> window \<and> window \<le> queue_bytes \<and> window mod chunk = 0
    \<and> (\<forall>(row, bound, next_bound)\<in>set rows. occupied2 row window \<le> 2 * queue_bytes \<and> bound \<le> queue_bytes)"
proof -
  define bound_tail where "bound_tail = (\<lambda>arena ring tables.
    let named = fst ` set arena \<union> fst ` set ring; keys = sorted_list_of_set (named \<union> reverse_key ` named)
    in bind_res (map_res (packet_row tables arena ring queue_bytes) keys) (\<lambda>rows.
    let window = (if ring = [] then 0 else largest_window rows chunk queue_bytes)
    in Inr (window, map (\<lambda>row. (row, (occupied2 row window + 1) div 2, (occupied2 row (window + chunk) + 1) div 2)) rows)
      :: py_error + int \<times> (packet_row \<times> int \<times> int) list))"
  have b1: "bind_res (subset_validate R L maps queue_bytes) (\<lambda>order.
    if chunk \<le> 0 \<or> chunk mod 16 \<noteq> 0 then Inl (RouteError ''ring bound chunk must be a positive multiple of 16'' [])
    else bind_res (relay_queues R None L maps) (\<lambda>arena.
    bind_res (ring_queues R None L maps order) (\<lambda>ring.
    bind_res (map_res (\<lambda>rank. forward_windows R None L maps rank 131072 4096 queue_bytes True)
        (py_range (layout_world L))) (\<lambda>tables. bound_tail arena ring tables)))) = Inr (window, rows)"
    using b unfolding ring_packet_bound_def bound_tail_def .
  then obtain order where v: "subset_validate R L maps queue_bytes = Inr order" and c: "0 < chunk"
    and b2: "bind_res (relay_queues R None L maps) (\<lambda>arena.
    bind_res (ring_queues R None L maps order) (\<lambda>ring.
    bind_res (map_res (\<lambda>rank. forward_windows R None L maps rank 131072 4096 queue_bytes True)
        (py_range (layout_world L))) (\<lambda>tables. bound_tail arena ring tables))) = Inr (window, rows)"
    unfolding bind_res_Inr [of "subset_validate R L maps queue_bytes"] by (auto split: if_splits)
  then obtain arena ring tables where rq: "ring_queues R None L maps order = Inr ring"
    and tb: "map_res (\<lambda>rank. forward_windows R None L maps rank 131072 4096 queue_bytes True)
        (py_range (layout_world L)) = Inr tables"
    and b3: "bound_tail arena ring tables = Inr (window, rows)"
    unfolding bind_res_Inr by blast
  define keys where "keys = sorted_list_of_set
        (fst ` set arena \<union> fst ` set ring \<union> reverse_key ` (fst ` set arena \<union> fst ` set ring))"
  obtain rws where rws: "map_res (packet_row tables arena ring queue_bytes) keys = Inr rws"
    and w: "window = (if ring = [] then 0 else largest_window rws chunk queue_bytes)"
    and rows: "rows = map (\<lambda>row. (row, (occupied2 row window + 1) div 2, (occupied2 row (window + chunk) + 1) div 2)) rws"
    using b3 unfolding bound_tail_def Let_def keys_def [symmetric] bind_res_Inr by auto
  have q: "0 \<le> queue_bytes" and so: "subset_order L = Inr order"
    using subset_validate_Inr [OF v] by auto
  have ranks: "set order = set (py_range (layout_world L))" using subset_order_sound [OF ok so] by blast
  have pos: "0 \<le> window_at (tables ! nat r) p l" if "(r, p, l) \<in> set (dget_or ring key [])" for r p l key
  proof -
    have r: "0 \<le> r" "r < layout_world L" using ring_ranks [OF rq that] ranks by auto
    have "forward_windows R None L maps r 131072 4096 queue_bytes True = Inr (tables ! nat r)"
      using map_res_nth [OF tb, of "nat r"] r by simp
    then show ?thesis by (rule forward_windows_nonneg)
  qed
  have zero: "occupied2 row 0 \<le> 2 * queue_bytes" if "row \<in> set rws" for row
  proof -
    obtain key where k: "packet_row tables arena ring queue_bytes key = Inr row" using map_res_in [OF rws \<open>row \<in> set rws\<close>] by blast
    have all: "0 \<le> w" if w: "w \<in> set (map (\<lambda>(r, p, lane). window_at (tables ! nat r) p lane) (dget_or ring k' []))" for w k'
    proof -
      obtain r p lane where "(r, p, lane) \<in> set (dget_or ring k' [])" "w = window_at (tables ! nat r) p lane" using w by auto
      then show ?thesis using pos by blast
    qed
    have sh: "pr_shared row = map (\<lambda>(r, p, lane). window_at (tables ! nat r) p lane) (dget_or ring key [])"
      "pr_back row = map (\<lambda>(r, p, lane). window_at (tables ! nat r) p lane) (dget_or ring (reverse_key key) [])"
      using k by (auto simp: packet_row_def Let_def split: if_splits)
    have "sum_list (map (\<lambda>w. max w 0) (pr_shared row)) = sum_list (pr_shared row)"
      "sum_list (map (\<lambda>w. max w 0) (pr_back row)) = sum_list (pr_back row)"
      unfolding sh by (rule sum_max_zero, rule all, assumption)+
    moreover have "pr_fixed2 row + 3 * sum_list (pr_shared row) + sum_list (pr_back row) \<le> 2 * queue_bytes"
      using k by (auto simp: packet_row_def Let_def split: if_splits)
    ultimately show ?thesis by (simp add: occupied2_def)
  qed
  have win: "window = 0 \<or> (list_all (\<lambda>row. occupied2 row window \<le> 2 * queue_bytes) rws
      \<and> window \<in> set (py_range_step chunk (queue_bytes + 1) chunk))"
    using last_takeWhile [of 0 "\<lambda>w. list_all (\<lambda>row. occupied2 row w \<le> 2 * queue_bytes) rws"
        "py_range_step chunk (queue_bytes + 1) chunk"] unfolding w largest_window_def by (cases "ring = []") simp_all
  have fits: "occupied2 row window \<le> 2 * queue_bytes" if "row \<in> set rws" for row
    using win zero [OF that] that by (auto simp: list_all_iff)
  have range: "0 \<le> window \<and> window \<le> queue_bytes \<and> window mod chunk = 0"
  proof (cases "window = 0")
    case False
    then obtain j where j: "0 \<le> j" "j < cdiv (queue_bytes + 1 - chunk) chunk" "window = chunk + j * chunk"
      using win by (auto simp: py_range_step_def)
    have "j * chunk < queue_bytes + 1 - chunk" using cdiv_last [OF c j(2)] .
    moreover have "0 \<le> j * chunk" using j c by simp
    ultimately show ?thesis using j(3) c by auto
  qed (use q in simp)
  have half: "x \<le> 2 * q \<Longrightarrow> (x + 1) div 2 \<le> q" for x q :: int by linarith
  show ?thesis using range fits half by (auto simp: rows)
qed

definition arc5_maps :: "route_map list" where
  "arc5_maps = (case derive_routes DEFAULT_ROLES arc5 2 of Inr G \<Rightarrow> route_maps G | Inl _ \<Rightarrow> [])"

theorem packet_bound_certificate_witness:
  "\<exists>window rows. ring_packet_bound DEFAULT_ROLES arc5 arc5_maps 32768 524288 = Inr (window, rows)
    \<and> 0 \<le> window \<and> window \<le> 524288"
proof -
  have ok: "layout_ok arc5" "is_ok (ring_packet_bound DEFAULT_ROLES arc5 arc5_maps 32768 524288)" by code_simp+
  then obtain window rows where b: "ring_packet_bound DEFAULT_ROLES arc5 arc5_maps 32768 524288 = Inr (window, rows)"
    unfolding is_ok_iff by force
  then show ?thesis using packet_bound_certificate [OF ok(1) b] by blast
qed

end
