(* ===== verification/Budget.thy ===== *)
theory Budget
  imports RelayFacts
begin

text \<open>
  Forward windows of point-to-point lanes (\<open>spark_transport/sircl/sparkring_sircl/p2p/budget.py\<close>): the share
  of every relay queue a collective session reserves, and the windows the lanes of point-to-point
  groups get from what is left, level by level.
\<close>

section \<open>Lane sets\<close>

type_synonym lane_key = "string \<times> int \<times> int \<times> int"

record LaneSet =
  ls_name :: string
  ls_layout :: Layout
  ls_maps :: "route_map list"
  ls_pairs :: "(int \<times> int) set"

definition LaneSet_of ::
  "Role list \<Rightarrow> string \<Rightarrow> Layout \<Rightarrow> int \<Rightarrow> (int \<times> int) list option \<Rightarrow> py_error + LaneSet" where
  "LaneSet_of R name L lanes pairs =
    bind_res (derive_routes R L lanes) (\<lambda>derived.
    let world = layout_world L;
        every = filter (\<lambda>(a, b). a \<noteq> b) (List.product (py_range world) (py_range world))
    in Inr \<lparr>ls_name = name, ls_layout = L, ls_maps = map (route_map derived) (py_range world),
        ls_pairs = set (case pairs of None \<Rightarrow> every | Some ps \<Rightarrow> ps)\<rparr>)"

definition filtered_maps :: "LaneSet \<Rightarrow> route_map list" where
  "filtered_maps S = map (\<lambda>(rank, routes). filter (\<lambda>(peer, devices). (int rank, peer) \<in> ls_pairs S) routes)
    (List.enumerate 0 (ls_maps S))"

definition lane_set_queues :: "Role list \<Rightarrow> LaneSet \<Rightarrow> py_error + queues" where
  "lane_set_queues R S = relay_queues R None (ls_layout S) (filtered_maps S)"

section \<open>Reservation of a collective session\<close>

record SessionSettings =
  forward_window :: int
  forward_chunk :: int
  ring_schedule :: bool
  session_subset :: bool

definition session_reservation ::
  "Role list \<Rightarrow> LaneSet \<Rightarrow> SessionSettings \<Rightarrow> int \<Rightarrow> py_error + (queue_key, int) dict" where
  "session_reservation R S settings queue_bytes =
    (let L = ls_layout S; maps = filtered_maps S in
     bind_res (lane_set_queues R S) (\<lambda>queues.
     if queues = [] then Inr []
     else if session_subset settings \<and> sort (l_positions L) \<noteq> fabric_positions (l_fabric L)
     then bind_res (subset_validate R L maps queue_bytes) (\<lambda>_. Inr (map (\<lambda>(k, _). (k, queue_share queue_bytes)) queues))
     else if forward_window settings \<le> 0 then Inr (map (\<lambda>(k, _). (k, queue_share queue_bytes)) queues)
     else
       bind_res (map_res (\<lambda>rank. forward_windows R None L maps rank (forward_window settings) (forward_chunk settings)
           queue_bytes False) (py_range (layout_world L))) (\<lambda>tables.
       let reserved = map (\<lambda>(k, members). (k, sum_list (map (\<lambda>(rank, peer, lane).
             window_at (tables ! nat rank) peer lane) members))) queues
       in if \<not> ring_schedule settings then Inr reserved
          else bind_res (chain_order R None L maps False) (\<lambda>found. case found of
              None \<Rightarrow> Inr reserved
            | Some order \<Rightarrow>
                bind_res (ring_window R None L maps order 32768 queue_bytes False) (\<lambda>(window, problems, small).
                if problems \<noteq> [] \<or> small then Inr reserved
                else bind_res (ring_queues R None L maps order) (\<lambda>ring.
                  Inr (foldl (\<lambda>d (k, members). dset k (max (dget_or d k 0) (window * int (length members))) d)
                    reserved ring)))))))"

section \<open>Allocation\<close>

text \<open>Why a lane has no window: windows are off, a queue has too little left, or the limit is below a chunk.\<close>

datatype unavailable_reason =
  WindowsOff
| QueueFull queue_key int int int int
| BelowChunk int

record Allocation =
  a_windows :: "(lane_key, int) dict"
  a_unavailable :: "(lane_key, unavailable_reason) dict"
  a_reserved :: "(queue_key, int) dict"

definition dextend :: "'k \<Rightarrow> 'v list \<Rightarrow> ('k, 'v list) dict \<Rightarrow> ('k, 'v list) dict" where
  "dextend k xs d = dset k (dget_or d k [] @ xs) d"

text \<open>The lanes of a level through every queue, and the queues of every lane.\<close>

definition named_queues :: "Role list \<Rightarrow> LaneSet \<Rightarrow> py_error + (queue_key \<times> lane_key list) list" where
  "named_queues R S = bind_res (lane_set_queues R S) (\<lambda>queues.
    Inr (map (\<lambda>(k, members). (k, map (Pair (ls_name S)) members)) queues))"

definition level_through :: "Role list \<Rightarrow> LaneSet list \<Rightarrow> py_error + (queue_key, lane_key list) dict" where
  "level_through R level = bind_res (map_res (named_queues R) level) (\<lambda>found.
    Inr (foldl (\<lambda>d (k, members). dextend k members d) [] (concat found)))"

definition level_lanes :: "(queue_key, lane_key list) dict \<Rightarrow> (lane_key, queue_key list) dict" where
  "level_lanes through = foldl (\<lambda>d (m, k). dappend m k d) []
    (concat (map (\<lambda>(k, members). map (\<lambda>m. (m, k)) members) through))"

text \<open>The limit of one lane: the smallest share over its queues.\<close>

definition narrow ::
  "(queue_key, lane_key list) dict \<Rightarrow> (queue_key, int) dict \<Rightarrow> int \<Rightarrow> int
    \<Rightarrow> int \<times> unavailable_reason option \<Rightarrow> queue_key \<Rightarrow> int \<times> unavailable_reason option" where
  "narrow through used share chunk st key =
    (let (limit, reason) = st;
         left = max 0 (share - dget_or used key 0);
         lanes = int (length (dget_or through key []));
         room = left div lanes
     in if room < limit
        then (room, if room < chunk then Some (QueueFull key left share lanes (dget_or used key 0)) else reason)
        else st)"

definition lane_limit ::
  "(queue_key, lane_key list) dict \<Rightarrow> (queue_key, int) dict \<Rightarrow> int \<Rightarrow> int \<Rightarrow> int \<Rightarrow> queue_key list
    \<Rightarrow> int \<times> unavailable_reason option" where
  "lane_limit through used share max_window chunk keys =
    foldl (narrow through used share chunk)
      (if max_window > 0 then max_window else 0, if max_window > 0 then None else Some WindowsOff) keys"

text \<open>The loop over a level's lanes: each gets its window or the reason it has none.\<close>

definition give ::
  "(queue_key, lane_key list) dict \<Rightarrow> (queue_key, int) dict \<Rightarrow> int \<Rightarrow> int \<Rightarrow> int
    \<Rightarrow> (lane_key, int) dict \<times> (lane_key, unavailable_reason) dict \<Rightarrow> lane_key \<times> queue_key list
    \<Rightarrow> (lane_key, int) dict \<times> (lane_key, unavailable_reason) dict" where
  "give through used share max_window chunk st e =
    (let (windows, unavailable) = st; (member, keys) = e;
         (limit, reason) = lane_limit through used share max_window chunk keys;
         window = limit div chunk * chunk
     in if window < chunk
        then (windows, dset member (case reason of None \<Rightarrow> BelowChunk chunk | Some r \<Rightarrow> r) unavailable)
        else (dset member window windows, unavailable))"

definition charge ::
  "(lane_key, int) dict \<Rightarrow> (queue_key, int) dict \<Rightarrow> queue_key \<times> lane_key list \<Rightarrow> (queue_key, int) dict" where
  "charge windows used e = (let (key, members) = e in dset key (dget_or used key 0
    + sum_list (map (\<lambda>m. dget_or windows m 0) members)) used)"

type_synonym alloc_state =
  "(queue_key, int) dict \<times> (lane_key, int) dict \<times> (lane_key, unavailable_reason) dict"

definition allocate_level ::
  "Role list \<Rightarrow> int \<Rightarrow> int \<Rightarrow> int \<Rightarrow> alloc_state \<Rightarrow> LaneSet list \<Rightarrow> py_error + alloc_state" where
  "allocate_level R share max_window chunk st level =
    (let (used, windows, unavailable) = st in
     bind_res (level_through R level) (\<lambda>through.
     let (windows, unavailable) = foldl (give through used share max_window chunk) (windows, unavailable)
           (ditems (level_lanes through))
     in Inr (foldl (charge windows) used through, windows, unavailable)))"

fun allocate_levels ::
  "Role list \<Rightarrow> int \<Rightarrow> int \<Rightarrow> int \<Rightarrow> alloc_state \<Rightarrow> LaneSet list list \<Rightarrow> py_error + alloc_state" where
  "allocate_levels R share max_window chunk st [] = Inr st"
| "allocate_levels R share max_window chunk st (level # levels) =
    bind_res (allocate_level R share max_window chunk st level) (\<lambda>st. allocate_levels R share max_window chunk st levels)"

definition allocate ::
  "Role list \<Rightarrow> LaneSet list list \<Rightarrow> (queue_key, int) dict \<Rightarrow> int \<Rightarrow> int \<Rightarrow> int \<Rightarrow> py_error + Allocation" where
  "allocate R levels reserved max_window chunk queue_bytes =
    (if chunk \<le> 0 \<or> chunk mod 16 \<noteq> 0
     then Inl (BudgetError ''forward chunk must be a positive multiple of 16'' [chunk])
     else bind_res (allocate_levels R (queue_share queue_bytes) max_window chunk (reserved, [], []) levels)
       (\<lambda>(used, windows, unavailable).
         Inr \<lparr>a_windows = windows, a_unavailable = unavailable, a_reserved = reserved\<rparr>))"

text \<open>\<open>xs[i] = v\<close> inside a nested table: an index outside raises, a negative one counts from the end.\<close>

definition py_place :: "'a list \<Rightarrow> int \<Rightarrow> ('a \<Rightarrow> py_error + 'a) \<Rightarrow> py_error + 'a list" where
  "py_place xs i f = bind_res (py_index xs i) (\<lambda>x. bind_res (f x) (\<lambda>y.
    Inr (xs[nat (if i < 0 then int (length xs) + i else i) := y])))"

fun table_entries :: "string \<Rightarrow> (lane_key \<times> int) list \<Rightarrow> int list list list \<Rightarrow> py_error + int list list list" where
  "table_entries own [] table = Inr table"
| "table_entries own (((name, rank, peer, lane), window) # entries) table =
    (if name = own
     then bind_res (py_place table rank (\<lambda>row. py_place row peer (\<lambda>cell. py_place cell lane (\<lambda>_. Inr window))))
       (table_entries own entries)
     else table_entries own entries table)"

definition allocation_table :: "Allocation \<Rightarrow> LaneSet \<Rightarrow> int \<Rightarrow> py_error + int list list list" where
  "allocation_table A S lane_count = (let world = nat (layout_world (ls_layout S)) in
    table_entries (ls_name S) (a_windows A) (replicate world (replicate world (replicate (nat lane_count) 0))))"

definition unavailable_pairs :: "Allocation \<Rightarrow> string \<Rightarrow> (int \<times> int, unavailable_reason) dict" where
  "unavailable_pairs A own = foldl (\<lambda>found ((name, rank, peer, lane), reason).
      if name = own \<and> dget found (rank, peer) = None then dset (rank, peer) reason found else found)
    [] (ditems (a_unavailable A))"

definition group_windows ::
  "Role list \<Rightarrow> LaneSet \<Rightarrow> int \<Rightarrow> int \<Rightarrow> int \<Rightarrow> int
    \<Rightarrow> py_error + int list list list \<times> (int \<times> int, unavailable_reason) dict" where
  "group_windows R S lane_count max_window chunk queue_bytes =
    bind_res (allocate R [[S]] [] max_window chunk queue_bytes) (\<lambda>A.
    bind_res (allocation_table A S lane_count) (\<lambda>table. Inr (table, unavailable_pairs A (ls_name S))))"

section \<open>Pipeline groups\<close>

definition pp_groups :: "int \<Rightarrow> int \<Rightarrow> int \<Rightarrow> int \<Rightarrow> int \<Rightarrow> py_error + int list list" where
  "pp_groups world tp pp pcp dp =
    (if min world (min tp (min pp (min pcp dp))) < 1 then Inl (ValueErr ''group sizes must be positive'' [])
     else if world mod (dp * pp * pcp * tp) \<noteq> 0
     then Inl (ValueErr ''world size is not a multiple of DP*PP*PCP*TP'' [world, dp * pp * pcp * tp])
     else Inr (let stage = pcp * tp in
       concat (map (\<lambda>outer. concat (map (\<lambda>data. map (\<lambda>offset.
           map (\<lambda>s. (outer * dp + data) * pp * stage + s * stage + offset) (py_range pp))
         (py_range stage)) (py_range dp))) (py_range (world div (dp * pp * pcp * tp))))))"

end
