(* ===== verification/BudgetFacts.thy ===== *)
theory BudgetFacts
  imports Budget
begin

text \<open>
  The allocation's promises: every relay queue keeps its share, every lane gets a window of whole
  chunks or a reason, and the pipeline groups partition the ranks.
\<close>

section \<open>Levels\<close>

lemma dextend_fold:
  "dget_or (foldl (\<lambda>d (k, ms). dextend k ms d) d xs) k [] = dget_or d k [] @ concat (map snd (filter (\<lambda>x. fst x = k) xs))"
  by (induction xs arbitrary: d) (auto simp: dextend_def)

lemma dextend_distinct:
  "distinct (map fst d) \<Longrightarrow> distinct (map fst (foldl (\<lambda>d (k, ms). dextend k ms d) d xs))"
  by (induction xs arbitrary: d) (auto simp: dextend_def)

lemma dappend_distinct:
  "distinct (map fst d) \<Longrightarrow> distinct (map fst (foldl (\<lambda>d (k, m). dappend k m d) d xs))"
  by (induction xs arbitrary: d) auto

lemma dappend_fold_keys:
  "fst ` set (foldl (\<lambda>d (k, m). dappend k m d) d xs) = fst ` set d \<union> fst ` set xs"
proof (induction xs arbitrary: d)
  case (Cons x xs)
  obtain k m where "x = (k, m)" by (cases x)
  then show ?case using Cons [of "dappend k m d"] by simp
qed simp

lemma level_lanes_distinct: "distinct (map fst (level_lanes through))"
  by (simp add: level_lanes_def dappend_distinct)

lemma set_values_of: "k \<in> set (map snd (filter (\<lambda>x. fst x = m) ps)) \<longleftrightarrow> (m, k) \<in> set ps"
  by (induction ps) auto

lemma pair_members:
  "(m, k) \<in> set (concat (map (\<lambda>(k, ms). map (\<lambda>m. (m, k)) ms) th)) \<longleftrightarrow> (\<exists>ms. (k, ms) \<in> set th \<and> m \<in> set ms)"
  by (induction th) auto

lemma level_lanes_keys:
  "(m, keys) \<in> set (level_lanes through) \<Longrightarrow> k \<in> set keys \<longleftrightarrow> (\<exists>members. (k, members) \<in> set through \<and> m \<in> set members)"
proof -
  assume "(m, keys) \<in> set (level_lanes through)"
  then have "dget_or (level_lanes through) m [] = keys"
    using dget_in [OF level_lanes_distinct] by (simp add: dget_or_dget)
  then have "keys = map snd (filter (\<lambda>x. fst x = m) (concat (map (\<lambda>(k, members). map (\<lambda>m. (m, k)) members) through)))"
    by (simp add: level_lanes_def collect_fold)
  then have "k \<in> set keys \<longleftrightarrow> (m, k) \<in> set (concat (map (\<lambda>(k, members). map (\<lambda>m. (m, k)) members) through))"
    by (simp only: set_values_of)
  then show ?thesis by (simp only: pair_members)
qed

lemma level_lanes_members:
  "m \<in> fst ` set (level_lanes through) \<longleftrightarrow> (\<exists>k members. (k, members) \<in> set through \<and> m \<in> set members)"
  unfolding level_lanes_def dappend_fold_keys by force

lemma level_through_distinct: "level_through R level = Inr through \<Longrightarrow> distinct (map fst through)"
  by (auto simp: level_through_def bind_res_Inr dextend_distinct)

lemma level_through_names:
  assumes "level_through R level = Inr through" "(k, members) \<in> set through" "m \<in> set members"
  shows "fst m \<in> ls_name ` set level"
proof -
  obtain found where f: "map_res (named_queues R) level = Inr found"
    and t: "through = foldl (\<lambda>d (k, ms). dextend k ms d) [] (concat found)"
    using assms(1) by (auto simp: level_through_def bind_res_Inr)
  have "dget_or through k [] = members"
    using dget_in [OF level_through_distinct [OF assms(1)] assms(2)] by (simp add: dget_or_dget)
  then have "m \<in> set (concat (map snd (filter (\<lambda>x. fst x = k) (concat found))))"
    using assms(3) t by (simp add: dextend_fold)
  then obtain named ms where n: "named \<in> set found" "(k, ms) \<in> set named" "m \<in> set ms" by force
  obtain S where S: "S \<in> set level" "named_queues R S = Inr named" using map_res_in [OF f n(1)] by blast
  then show ?thesis using n by (auto simp: named_queues_def bind_res_Inr)
qed

section \<open>Limits\<close>

lemma narrow_fold:
  assumes "0 \<le> limit"
  shows "let r = fst (foldl (narrow through used share chunk) (limit, reason) keys)
    in 0 \<le> r \<and> r \<le> limit \<and> (\<forall>k\<in>set keys. r \<le> max 0 (share - dget_or used k 0) div int (length (dget_or through k [])))"
  using assms
proof (induction keys arbitrary: limit reason)
  case (Cons k keys)
  let ?room = "max 0 (share - dget_or used k 0) div int (length (dget_or through k []))"
  have room: "0 \<le> ?room" by (cases "dget_or through k []") (auto simp: pos_imp_zdiv_nonneg_iff)
  obtain r1 where st: "narrow through used share chunk (limit, reason) k = (min ?room limit, r1)"
  proof -
    have "fst (narrow through used share chunk (limit, reason) k) = min ?room limit"
      by (auto simp: narrow_def Let_def min_def)
    then show ?thesis using that by (metis prod.collapse)
  qed
  have "0 \<le> min ?room limit" using room Cons.prems by simp
  from Cons.IH [OF this, of r1] show ?case by (auto simp: st Let_def)
qed simp

lemma lane_limit_bounds:
  "0 \<le> fst (lane_limit through used share mw chunk keys) \<and> fst (lane_limit through used share mw chunk keys) \<le> max 0 mw
    \<and> (\<forall>k\<in>set keys. fst (lane_limit through used share mw chunk keys)
        \<le> max 0 (share - dget_or used k 0) div int (length (dget_or through k [])))"
proof (cases "0 < mw")
  case True
  then show ?thesis using narrow_fold [of mw through used share chunk None keys] by (simp add: lane_limit_def Let_def)
next
  case False
  then show ?thesis using narrow_fold [of 0 through used share chunk "Some WindowsOff" keys]
    by (simp add: lane_limit_def Let_def)
qed

definition lane_share ::
  "(queue_key, lane_key list) dict \<Rightarrow> (queue_key, int) dict \<Rightarrow> int \<Rightarrow> int \<Rightarrow> int \<Rightarrow> queue_key list \<Rightarrow> int" where
  "lane_share through used share mw chunk keys = fst (lane_limit through used share mw chunk keys) div chunk * chunk"

lemma lane_share_bounds:
  assumes "0 < chunk"
  shows "lane_share through used share mw chunk keys \<le> fst (lane_limit through used share mw chunk keys)
    \<and> 0 \<le> lane_share through used share mw chunk keys \<and> lane_share through used share mw chunk keys mod chunk = 0"
proof -
  let ?l = "fst (lane_limit through used share mw chunk keys)"
  have "?l div chunk * chunk + ?l mod chunk = ?l" "0 \<le> ?l mod chunk" using assms by simp_all
  then have "?l div chunk * chunk \<le> ?l" by linarith
  moreover have "0 \<le> ?l div chunk" using lane_limit_bounds assms by (simp add: pos_imp_zdiv_nonneg_iff)
  ultimately show ?thesis using assms unfolding lane_share_def by auto
qed

text \<open>What the loop over a level's lanes leaves.\<close>

lemma give_fold:
  assumes "distinct (map fst es)" "foldl (give through used share mw chunk) (w, u) es = (w', u')"
  shows "(m \<notin> fst ` set es \<longrightarrow> dget w' m = dget w m \<and> dget u' m = dget u m)
    \<and> ((m, keys) \<in> set es \<longrightarrow> (if lane_share through used share mw chunk keys < chunk
          then dget w' m = dget w m \<and> (\<exists>r. dget u' m = Some r)
          else dget w' m = Some (lane_share through used share mw chunk keys)))"
  using assms
proof (induction es arbitrary: w u)
  case (Cons e es)
  obtain m1 k1 where e: "e = (m1, k1)" by (cases e)
  obtain w1 u1 where g: "give through used share mw chunk (w, u) (m1, k1) = (w1, u1)" by fastforce
  have "if lane_share through used share mw chunk k1 < chunk
      then w1 = w \<and> (\<exists>r. u1 = dset m1 r u) else w1 = dset m1 (lane_share through used share mw chunk k1) w \<and> u1 = u"
    using g by (auto simp: give_def Let_def lane_share_def split: prod.splits if_splits)
  moreover have "foldl (give through used share mw chunk) (w1, u1) es = (w', u')" using Cons.prems e g by simp
  moreover have "m1 \<notin> fst ` set es" "distinct (map fst es)" using Cons.prems e by auto
  moreover have "(m1, k) \<notin> set es" for k using \<open>m1 \<notin> fst ` set es\<close> by force
  ultimately show ?case using Cons.IH [of w1 u1] e by (auto split: if_splits)
qed simp

lemma dget_or_Cons [simp]: "dget_or ((k1, v) # d) k w = (if k = k1 then v else dget_or d k w)"
  by (simp add: dget_or_def)

lemma charge_fold:
  "distinct (map fst es) \<Longrightarrow> dget_or (foldl (charge w) used es) k 0
    = dget_or used k 0 + sum_list (map (\<lambda>m. dget_or w m 0) (dget_or es k []))"
proof (induction es arbitrary: used)
  case (Cons e es)
  obtain k1 ms where e: "e = (k1, ms)" by (cases e)
  have "map_of es k1 = None" using Cons.prems e by (simp add: map_of_eq_None_iff)
  then have "dget_or es k1 [] = []" by (simp add: dget_or_def)
  then show ?case using Cons e by (auto simp: charge_def)
qed simp


section \<open>Levels keep the share\<close>

definition through_sum :: "(lane_key, int) dict \<Rightarrow> (queue_key, lane_key list) dict \<Rightarrow> queue_key \<Rightarrow> int" where
  "through_sum w through k = sum_list (map (\<lambda>m. dget_or w m 0) (dget_or through k []))"

lemma level_step:
  assumes l: "allocate_level R share mw chunk (used, w, u) level = Inr (used', w', u')" and c: "0 < chunk"
  obtains through where "level_through R level = Inr through"
    and "\<And>k. dget_or used' k 0 = dget_or used k 0 + through_sum w' through k"
    and "\<And>m. m \<notin> fst ` set (level_lanes through) \<Longrightarrow> dget w' m = dget w m \<and> dget u' m = dget u m"
    and "\<And>m keys. (m, keys) \<in> set (level_lanes through) \<Longrightarrow> (if lane_share through used share mw chunk keys < chunk
          then dget w' m = dget w m \<and> (\<exists>r. dget u' m = Some r)
          else dget w' m = Some (lane_share through used share mw chunk keys))"
proof -
  obtain through where t: "level_through R level = Inr through"
    and g: "foldl (give through used share mw chunk) (w, u) (ditems (level_lanes through)) = (w', u')"
    and us: "used' = foldl (charge w') used through"
  proof -
    obtain through where t: "level_through R level = Inr through"
      and e: "(let (w1, u1) = foldl (give through used share mw chunk) (w, u) (ditems (level_lanes through))
        in Inr (foldl (charge w1) used through, w1, u1)) = (Inr (used', w', u') :: py_error + alloc_state)"
      using l by (auto simp: allocate_level_def bind_res_Inr)
    obtain w1 u1 where "foldl (give through used share mw chunk) (w, u) (ditems (level_lanes through)) = (w1, u1)"
      by fastforce
    then have "foldl (give through used share mw chunk) (w, u) (ditems (level_lanes through)) = (w', u')"
      "used' = foldl (charge w') used through" using e by auto
    then show ?thesis by (rule that [OF t])
  qed
  have d: "distinct (map fst (ditems (level_lanes through)))" using level_lanes_distinct by simp
  show ?thesis
  proof (rule that [OF t])
    show "dget_or used' k 0 = dget_or used k 0 + through_sum w' through k" for k
      unfolding us through_sum_def by (rule charge_fold [OF level_through_distinct [OF t]])
  qed (use give_fold [OF d g] in auto)
qed

lemma level_within:
  assumes t: "level_through R level = Inr through" and c: "0 < chunk"
    and fresh: "\<And>m. m \<in> fst ` set (level_lanes through) \<Longrightarrow> dget w m = None"
    and new: "\<And>m keys. (m, keys) \<in> set (level_lanes through) \<Longrightarrow> (if lane_share through used share mw chunk keys < chunk
          then dget w' m = dget w m \<and> (\<exists>r. dget u' m = Some r)
          else dget w' m = Some (lane_share through used share mw chunk keys))"
  shows "0 \<le> through_sum w' through k \<and> through_sum w' through k \<le> max 0 (share - dget_or used k 0)"
proof (cases "dget_or through k [] = []")
  case True
  then show ?thesis by (simp add: through_sum_def)
next
  case False
  let ?ms = "dget_or through k []" and ?A = "max 0 (share - dget_or used k 0)"
  have "map_of through k = Some ?ms" using False by (auto simp: dget_or_def split: option.splits)
  then have km: "(k, ?ms) \<in> set through" by (rule map_of_SomeD)
  have each: "0 \<le> dget_or w' m 0 \<and> dget_or w' m 0 \<le> ?A div int (length ?ms)" if m: "m \<in> set ?ms" for m
  proof -
    have mf: "m \<in> fst ` set (level_lanes through)" using level_lanes_members km m by blast
    then obtain keys where mk: "(m, keys) \<in> set (level_lanes through)" by force
    have "k \<in> set keys" using level_lanes_keys [OF mk] km m by blast
    then have "lane_share through used share mw chunk keys \<le> ?A div int (length ?ms)"
      using lane_limit_bounds [of through used share mw chunk keys] lane_share_bounds [OF c, of through used share mw keys]
      by (meson order_trans)
    moreover have "0 \<le> lane_share through used share mw chunk keys" using lane_share_bounds [OF c] by blast
    ultimately show ?thesis using new [OF mk] fresh [OF mf] by (auto simp: dget_or_dget split: if_splits)
  qed
  have "through_sum w' through k \<le> ?A"
    unfolding through_sum_def by (rule sum_window_bound) (use each in auto)
  moreover have "0 \<le> through_sum w' through k"
    unfolding through_sum_def by (rule sum_list_nonneg) (use each in auto)
  ultimately show ?thesis by simp
qed

lemma levels_untouched:
  assumes "allocate_levels R share mw chunk (used, w, u) levels = Inr (used', w', u')" "0 < chunk"
    and "fst m \<notin> ls_name ` set (concat levels)"
  shows "dget w' m = dget w m"
  using assms
proof (induction levels arbitrary: used w u)
  case (Cons level levels)
  obtain used1 w1 u1 where l: "allocate_level R share mw chunk (used, w, u) level = Inr (used1, w1, u1)"
    and rest: "allocate_levels R share mw chunk (used1, w1, u1) levels = Inr (used', w', u')"
    using Cons.prems(1) by (auto simp: bind_res_Inr)
  obtain through where t: "level_through R level = Inr through"
    and old: "\<And>m. m \<notin> fst ` set (level_lanes through) \<Longrightarrow> dget w1 m = dget w m \<and> dget u1 m = dget u m"
    by (rule level_step [OF l Cons.prems(2)]) (rule that)
  have "m \<notin> fst ` set (level_lanes through)"
  proof
    assume "m \<in> fst ` set (level_lanes through)"
    then obtain k members where "(k, members) \<in> set through" "m \<in> set members"
      unfolding level_lanes_members by blast
    then have "fst m \<in> ls_name ` set level" by (rule level_through_names [OF t])
    then show False using Cons.prems(3) by (simp add: image_Un)
  qed
  then have "dget w1 m = dget w m" using old [of m] by blast
  moreover have "fst m \<notin> ls_name ` set (concat levels)" using Cons.prems(3) by (simp add: image_Un)
  then have "dget w' m = dget w1 m" by (rule Cons.IH [OF rest Cons.prems(2)])
  ultimately show ?case by simp
qed simp

text \<open>The names of a level's lanes are its own, so no earlier level gave them a window.\<close>

lemma level_lane_name:
  assumes "level_through R level = Inr through" "m \<in> fst ` set (level_lanes through)"
  shows "fst m \<in> ls_name ` set level"
proof -
  obtain k members where "(k, members) \<in> set through" "m \<in> set members"
    using assms(2) unfolding level_lanes_members by blast
  then show ?thesis by (rule level_through_names [OF assms(1)])
qed

lemma level_fresh:
  assumes "level_through R level = Inr through"
    and "\<And>m. m \<in> fst ` set w \<Longrightarrow> fst m \<notin> ls_name ` set (concat (level # levels))"
    and "m \<in> fst ` set (level_lanes through)"
  shows "dget w m = None"
proof (rule ccontr)
  assume "dget w m \<noteq> None"
  then have "m \<in> fst ` set w" by (simp add: dget_def map_of_eq_None_iff)
  then have "fst m \<notin> ls_name ` set (concat (level # levels))" by (rule assms(2))
  then show False using level_lane_name [OF assms(1,3)] by (simp add: image_Un)
qed

lemma level_names:
  assumes l: "allocate_level R share mw chunk (used, w, u) level = Inr (used1, w1, u1)" and c: "0 < chunk"
    and t: "level_through R level = Inr through" and d: "distinct (map ls_name (concat (level # levels)))"
    and w: "\<And>m. m \<in> fst ` set w \<Longrightarrow> fst m \<notin> ls_name ` set (concat (level # levels))"
    and m: "m \<in> fst ` set w1"
  shows "fst m \<notin> ls_name ` set (concat levels)"
proof (cases "m \<in> fst ` set (level_lanes through)")
  case True
  have "ls_name ` set level \<inter> ls_name ` set (concat levels) = {}" using d by simp
  then show ?thesis using level_lane_name [OF t True] by blast
next
  case False
  obtain through' where t': "level_through R level = Inr through'"
    and old: "\<And>m. m \<notin> fst ` set (level_lanes through') \<Longrightarrow> dget w1 m = dget w m \<and> dget u1 m = dget u m"
    by (rule level_step [OF l c]) (rule that)
  have "dget w1 m \<noteq> None" using m by (simp add: dget_def map_of_eq_None_iff)
  then have "dget w m \<noteq> None" using old False t t' by simp
  then have "m \<in> fst ` set w" by (simp add: dget_def map_of_eq_None_iff)
  then have "fst m \<notin> ls_name ` set (concat (level # levels))" by (rule w)
  then show ?thesis by (simp add: image_Un)
qed

text \<open>The sums of all levels, over the windows the allocation returns.\<close>

lemma levels_within:
  assumes "allocate_levels R share mw chunk (used, w, u) levels = Inr (used', w', u')" "0 < chunk"
    and "distinct (map ls_name (concat levels))"
    and "\<And>m. m \<in> fst ` set w \<Longrightarrow> fst m \<notin> ls_name ` set (concat levels)"
    and "map_res (level_through R) levels = Inr throughs"
  shows "0 \<le> sum_list (map (\<lambda>through. through_sum w' through k) throughs)
    \<and> sum_list (map (\<lambda>through. through_sum w' through k) throughs) \<le> max 0 (share - dget_or used k 0)"
  using assms
proof (induction levels arbitrary: used w u throughs)
  case Nil
  then show ?case by simp
next
  case (Cons level levels)
  obtain used1 w1 u1 where l: "allocate_level R share mw chunk (used, w, u) level = Inr (used1, w1, u1)"
    and rest: "allocate_levels R share mw chunk (used1, w1, u1) levels = Inr (used', w', u')"
    using Cons.prems(1) by (auto simp: bind_res_Inr)
  obtain through ts where t: "level_through R level = Inr through" and ts: "map_res (level_through R) levels = Inr ts"
    and th: "throughs = through # ts" using Cons.prems(5) by (auto simp: bind_res_Inr)
  obtain through' where t': "level_through R level = Inr through'"
    and us: "\<And>k. dget_or used1 k 0 = dget_or used k 0 + through_sum w1 through' k"
    and old: "\<And>m. m \<notin> fst ` set (level_lanes through') \<Longrightarrow> dget w1 m = dget w m \<and> dget u1 m = dget u m"
    and new: "\<And>m keys. (m, keys) \<in> set (level_lanes through') \<Longrightarrow> (if lane_share through' used share mw chunk keys < chunk
          then dget w1 m = dget w m \<and> (\<exists>r. dget u1 m = Some r)
          else dget w1 m = Some (lane_share through' used share mw chunk keys))"
    using level_step [OF l Cons.prems(2)] by blast
  have tt: "through' = through" using t t' by simp
  have fresh: "dget w m = None" if "m \<in> fst ` set (level_lanes through)" for m
    by (rule level_fresh [OF t Cons.prems(4) that])
  have within: "0 \<le> through_sum w1 through k \<and> through_sum w1 through k \<le> max 0 (share - dget_or used k 0)"
    by (rule level_within [OF t Cons.prems(2) fresh]) (use new tt in blast)+
  have keys1: "fst m \<notin> ls_name ` set (concat levels)" if m: "m \<in> fst ` set w1" for m
    by (rule level_names [OF l Cons.prems(2) t Cons.prems(3,4) m])
  have later: "0 \<le> sum_list (map (\<lambda>through. through_sum w' through k) ts)
    \<and> sum_list (map (\<lambda>through. through_sum w' through k) ts) \<le> max 0 (share - dget_or used1 k 0)"
    by (rule Cons.IH [OF rest Cons.prems(2) _ keys1 ts]) (use Cons.prems(3) in auto)
  have "through_sum w' through k = through_sum w1 through k"
  proof -
    have "dget_or w' m 0 = dget_or w1 m 0" if "m \<in> set (dget_or through k [])" for m
    proof -
      have "map_of through k = Some (dget_or through k [])"
        by (cases "map_of through k") (use that in \<open>auto simp: dget_or_def\<close>)
      then have "(k, dget_or through k []) \<in> set through" by (rule map_of_SomeD)
      then have "fst m \<in> ls_name ` set level" using level_through_names [OF t] that by blast
      then have "fst m \<notin> ls_name ` set (concat levels)" using Cons.prems(3) by auto
      then have "dget w' m = dget w1 m" by (rule levels_untouched [OF rest Cons.prems(2)])
      then show ?thesis by (simp add: dget_or_dget)
    qed
    then show ?thesis unfolding through_sum_def by (metis (mono_tags, lifting) map_eq_conv)
  qed
  then show ?case using within later us [of k] tt th by (auto simp: max_def split: if_splits)
qed


text \<open>Every lane ends with a window of whole chunks or with a reason.\<close>

definition settled :: "int \<Rightarrow> int \<Rightarrow> (lane_key, int) dict \<Rightarrow> (lane_key, unavailable_reason) dict \<Rightarrow> lane_key \<Rightarrow> bool" where
  "settled mw chunk w u m \<longleftrightarrow> (case dget w m of
     Some n \<Rightarrow> chunk \<le> n \<and> n \<le> mw \<and> n mod chunk = 0
   | None \<Rightarrow> dget u m \<noteq> None)"

lemma level_settles:
  assumes l: "allocate_level R share mw chunk (used, w, u) level = Inr (used', w', u')" and c: "0 < chunk"
    and t: "level_through R level = Inr through"
  shows "m \<in> fst ` set (level_lanes through) \<and> dget w m = None \<or> settled mw chunk w u m \<Longrightarrow> settled mw chunk w' u' m"
proof -
  assume m: "m \<in> fst ` set (level_lanes through) \<and> dget w m = None \<or> settled mw chunk w u m"
  obtain through' where t': "level_through R level = Inr through'"
    and old: "\<And>m. m \<notin> fst ` set (level_lanes through') \<Longrightarrow> dget w' m = dget w m \<and> dget u' m = dget u m"
    and new: "\<And>m keys. (m, keys) \<in> set (level_lanes through') \<Longrightarrow> (if lane_share through' used share mw chunk keys < chunk
          then dget w' m = dget w m \<and> (\<exists>r. dget u' m = Some r)
          else dget w' m = Some (lane_share through' used share mw chunk keys))"
    by (rule level_step [OF l c]) (rule that)
  have tt: "through' = through" using t t' by simp
  show ?thesis
  proof (cases "m \<in> fst ` set (level_lanes through)")
    case False
    then show ?thesis using m old [of m] tt by (auto simp: settled_def split: option.splits)
  next
    case True
    then obtain keys where mk: "(m, keys) \<in> set (level_lanes through')" using tt by force
    let ?s = "lane_share through' used share mw chunk keys"
    show ?thesis
    proof (cases "?s < chunk")
      case True
      then show ?thesis using new [OF mk] m by (auto simp: settled_def split: option.splits)
    next
      case False
      have "?s \<le> max 0 mw" "?s mod chunk = 0"
        using lane_share_bounds [OF c, of through' used share mw keys] lane_limit_bounds [of through' used share mw chunk keys]
        by linarith+
      then show ?thesis using new [OF mk] False c by (auto simp: settled_def max_def split: if_splits)
    qed
  qed
qed

lemma levels_settle:
  assumes "allocate_levels R share mw chunk (used, w, u) levels = Inr (used', w', u')" "0 < chunk"
    and "distinct (map ls_name (concat levels))"
    and "\<And>m. m \<in> fst ` set w \<Longrightarrow> fst m \<notin> ls_name ` set (concat levels)"
    and "map_res (level_through R) levels = Inr throughs"
    and "(\<exists>through\<in>set throughs. m \<in> fst ` set (level_lanes through)) \<or> settled mw chunk w u m"
  shows "settled mw chunk w' u' m"
  using assms
proof (induction levels arbitrary: used w u throughs)
  case Nil
  then show ?case by simp
next
  case (Cons level levels)
  obtain used1 w1 u1 where l: "allocate_level R share mw chunk (used, w, u) level = Inr (used1, w1, u1)"
    and rest: "allocate_levels R share mw chunk (used1, w1, u1) levels = Inr (used', w', u')"
    using Cons.prems(1) by (auto simp: bind_res_Inr)
  obtain through ts where t: "level_through R level = Inr through" and ts: "map_res (level_through R) levels = Inr ts"
    and th: "throughs = through # ts" using Cons.prems(5) by (auto simp: bind_res_Inr)
  have keys1: "fst m \<notin> ls_name ` set (concat levels)" if m: "m \<in> fst ` set w1" for m
    by (rule level_names [OF l Cons.prems(2) t Cons.prems(3,4) m])
  have fresh: "dget w m = None" if "m \<in> fst ` set (level_lanes through)"
    by (rule level_fresh [OF t Cons.prems(4) that])
  have "(\<exists>through\<in>set ts. m \<in> fst ` set (level_lanes through)) \<or> settled mw chunk w1 u1 m"
  proof -
    have "settled mw chunk w1 u1 m" if "m \<in> fst ` set (level_lanes through) \<or> settled mw chunk w u m"
    proof (rule level_settles [OF l Cons.prems(2) t])
      show "m \<in> fst ` set (level_lanes through) \<and> dget w m = None \<or> settled mw chunk w u m"
      proof (cases "settled mw chunk w u m")
        case False
        with that have "m \<in> fst ` set (level_lanes through)" by simp
        with fresh show ?thesis by simp
      qed simp
    qed
    then show ?thesis using Cons.prems(6) unfolding th by (metis set_ConsD)
  qed
  then show ?case
    by (rule Cons.IH [OF rest Cons.prems(2) _ keys1 ts, rotated -1]) (use Cons.prems(3) in auto)
qed


text \<open>Two groups over the ring of four: a pipeline group, and a second level that shares its queues.\<close>

definition ring4_set :: "string \<Rightarrow> LaneSet" where
  "ring4_set name = \<lparr>ls_name = name, ls_layout = ring4, ls_maps = ring4_maps,
    ls_pairs = set (filter (\<lambda>(a, b). a \<noteq> b) (List.product (py_range 4) (py_range 4)))\<rparr>"

definition ring4_levels :: "LaneSet list list" where
  "ring4_levels = [[ring4_set ''pp''], [ring4_set ''tp'']]"

definition ring4_reserved :: "(queue_key, int) dict" where
  "ring4_reserved = (case session_reservation DEFAULT_ROLES (ring4_set ''pp'')
      \<lparr>forward_window = 65536, forward_chunk = 32768, ring_schedule = False, session_subset = False\<rparr> 524288 of
    Inr d \<Rightarrow> d | Inl _ \<Rightarrow> [])"

definition ring4_allocation :: Allocation where
  "ring4_allocation = (case allocate DEFAULT_ROLES ring4_levels ring4_reserved 131072 4096 524288 of
    Inr A \<Rightarrow> A | Inl _ \<Rightarrow> \<lparr>a_windows = [], a_unavailable = [], a_reserved = []\<rparr>)"

definition ring4_throughs :: "(queue_key, lane_key list) dict list" where
  "ring4_throughs = (case map_res (level_through DEFAULT_ROLES) ring4_levels of Inr ts \<Rightarrow> ts | Inl _ \<Rightarrow> [])"

lemma ring4_allocates:
  "allocate DEFAULT_ROLES ring4_levels ring4_reserved 131072 4096 524288 = Inr ring4_allocation"
  "map_res (level_through DEFAULT_ROLES) ring4_levels = Inr ring4_throughs"
  "distinct (map ls_name (concat ring4_levels))"
  by code_simp+

lemma ring4_reserves:
  "session_reservation DEFAULT_ROLES (ring4_set ''pp'')
      \<lparr>forward_window = 65536, forward_chunk = 32768, ring_schedule = False, session_subset = False\<rparr> 524288
    = Inr ring4_reserved"
  "lane_set_queues DEFAULT_ROLES (ring4_set ''pp'') = Inr ring4_queues"
  "ring4_reserved \<noteq> []"
  "list_all (\<lambda>(k, members). 32768 * int (length members) \<le> queue_share 524288) ring4_queues"
  by code_simp+

section \<open>Properties\<close>

text \<open>
  C38: the allocation keeps the relay rule: for groups of different names, the windows of all
  point-to-point lanes through a relay queue, over all levels, add up to at most what the queue's share
  leaves after the reservations, and to nothing where these already exceed the share.
\<close>

theorem allocation_within_share:
  assumes a: "allocate R levels reserved max_window chunk queue_bytes = Inr A"
    and names: "distinct (map ls_name (concat levels))"
    and t: "map_res (level_through R) levels = Inr throughs"
  shows "sum_list (map (\<lambda>through. sum_list (map (\<lambda>m. dget_or (a_windows A) m 0) (dget_or through key []))) throughs)
    \<le> max 0 (queue_share queue_bytes - dget_or reserved key 0)"
proof -
  obtain used where c: "0 < chunk"
    and l: "allocate_levels R (queue_share queue_bytes) max_window chunk (reserved, [], []) levels
      = Inr (used, a_windows A, a_unavailable A)"
    using a by (auto simp: allocate_def bind_res_Inr split: if_splits)
  show ?thesis using levels_within [OF l c names _ t, of key] by (simp add: through_sum_def)
qed

theorem allocation_within_share_witness:
  "sum_list (map (\<lambda>through. sum_list (map (\<lambda>m. dget_or (a_windows ring4_allocation) m 0)
      (dget_or through (fst (hd ring4_reserved)) []))) ring4_throughs)
    \<le> max 0 (queue_share 524288 - dget_or ring4_reserved (fst (hd ring4_reserved)) 0)"
  by (rule allocation_within_share [OF ring4_allocates(1,3,2)])

text \<open>
  Every lane of an allocation that crosses a relay either has a window, a multiple of the chunk
  between one chunk and the largest window, or is listed as unavailable with a reason.
\<close>

theorem allocation_complete:
  assumes a: "allocate R levels reserved max_window chunk queue_bytes = Inr A"
    and names: "distinct (map ls_name (concat levels))"
    and t: "map_res (level_through R) levels = Inr throughs"
    and m: "through \<in> set throughs" "(key, members) \<in> set through" "m \<in> set members"
  shows "case dget (a_windows A) m of
      Some n \<Rightarrow> chunk \<le> n \<and> n \<le> max_window \<and> n mod chunk = 0
    | None \<Rightarrow> dget (a_unavailable A) m \<noteq> None"
proof -
  obtain used where c: "0 < chunk"
    and l: "allocate_levels R (queue_share queue_bytes) max_window chunk (reserved, [], []) levels
      = Inr (used, a_windows A, a_unavailable A)"
    using a by (auto simp: allocate_def bind_res_Inr split: if_splits)
  have "m \<in> fst ` set (level_lanes through)" unfolding level_lanes_members using m by blast
  then have "settled max_window chunk (a_windows A) (a_unavailable A) m"
    by (intro levels_settle [OF l c names _ t]) (use m(1) in auto)
  then show ?thesis by (simp add: settled_def)
qed

theorem allocation_complete_witness:
  "\<exists>m. case dget (a_windows ring4_allocation) m of
      Some n \<Rightarrow> (4096::int) \<le> n \<and> n \<le> 131072 \<and> n mod 4096 = 0
    | None \<Rightarrow> dget (a_unavailable ring4_allocation) m \<noteq> None"
proof -
  have "ring4_throughs \<noteq> [] \<and> hd ring4_throughs \<noteq> [] \<and> snd (hd (hd ring4_throughs)) \<noteq> []" by code_simp
  then have "hd ring4_throughs \<in> set ring4_throughs"
    "(fst (hd (hd ring4_throughs)), snd (hd (hd ring4_throughs))) \<in> set (hd ring4_throughs)"
    "hd (snd (hd (hd ring4_throughs))) \<in> set (snd (hd (hd ring4_throughs)))" by simp_all
  from allocation_complete [OF ring4_allocates(1,3,2) this] show ?thesis by blast
qed

text \<open>
  A collective session without a ring schedule reserves at most the share of every relay queue its
  lanes cross, when the share holds one chunk for each lane.
\<close>

theorem reservation_within_share:
  assumes r: "session_reservation R S settings queue_bytes = Inr reserved"
    and q: "lane_set_queues R S = Inr queues" and ring: "\<not> ring_schedule settings"
    and size: "int (length (ls_maps S)) = layout_world (ls_layout S)"
    and room: "\<forall>(k, members)\<in>set queues. forward_chunk settings * int (length members) \<le> queue_share queue_bytes"
    and "0 \<le> queue_bytes" and k: "(key, bytes) \<in> set reserved"
  shows "bytes \<le> queue_share queue_bytes"
proof -
  let ?L = "ls_layout S" and ?maps = "filtered_maps S"
  have n: "int (length ?maps) = layout_world ?L" using size by (simp add: filtered_maps_def)
  consider "reserved = []" | "reserved = map (\<lambda>(k, _). (k, queue_share queue_bytes)) queues"
    | tables where "map_res (\<lambda>rank. forward_windows R None ?L ?maps rank (forward_window settings) (forward_chunk settings)
           queue_bytes False) (py_range (layout_world ?L)) = Inr tables"
        "reserved = map (\<lambda>(k, members). (k, sum_list (map (\<lambda>(rank, peer, lane).
             window_at (tables ! nat rank) peer lane) members))) queues"
    using r q ring by (auto simp: session_reservation_def bind_res_Inr Let_def split: if_splits)
  then show ?thesis
  proof cases
    case (3 tables)
    then obtain members where m: "(key, members) \<in> set queues"
      and b: "bytes = sum_list (map (\<lambda>(rank, peer, lane). window_at (tables ! nat rank) peer lane) members)"
      using k by auto
    have "forward_windows R None ?L ?maps r (forward_window settings) (forward_chunk settings) queue_bytes False
        = Inr (tables ! nat r)" if "0 \<le> r" "r < int (length ?maps)" for r
      using map_res_nth [OF 3(1), of "nat r"] that n by simp
    then show ?thesis
      unfolding b by (rule windows_sum_within [OF _ q [unfolded lane_set_queues_def] m room assms(6)])
  qed (use k in auto)
qed

theorem reservation_within_share_witness: "snd (hd ring4_reserved) \<le> queue_share 524288"
proof (rule reservation_within_share [OF ring4_reserves(1,2)])
  show "(fst (hd ring4_reserved), snd (hd ring4_reserved)) \<in> set ring4_reserved" using ring4_reserves(3) by simp
  show "int (length (ls_maps (ring4_set ''pp''))) = layout_world (ls_layout (ring4_set ''pp''))"
    using ring4_tables ring4_world by (simp add: ring4_set_def)
qed (use ring4_reserves(4) in \<open>simp_all add: list_all_iff\<close>)

lemma div_below:
  assumes "0 < (s::int)" "x < n * s"
  shows "x div s < n"
proof (rule ccontr)
  assume "\<not> x div s < n"
  then have "n * s \<le> x div s * s" using assms(1) by (simp add: mult_right_mono)
  moreover have "x div s * s + x mod s = x" "0 \<le> x mod s" using assms(1) by simp_all
  ultimately show False using assms(2) by linarith
qed

lemma concat_concat_map: "concat (concat (map f xs)) = concat (map (\<lambda>x. concat (f x)) xs)"
  by (induction xs) auto

lemma in_groups:
  assumes "d \<in> set ds" "o' \<in> set os" "s \<in> set ss" "a \<in> set as"
  shows "v a d o' s \<in> set (concat (map (\<lambda>a. concat (map (\<lambda>d. concat (map (\<lambda>o'. map (v a d o') ss) os)) ds)) as))"
  using assms by auto

text \<open>
  The pipeline-parallel groups partition the ranks: every rank is in exactly one group, once, and
  every group has one rank per stage.
\<close>

theorem pp_groups_partition:
  assumes "pp_groups world tp pp pcp dp = Inr groups"
  shows "distinct (concat groups) \<and> set (concat groups) = {0..<world} \<and> (\<forall>g\<in>set groups. int (length g) = pp)"
proof -
  define stage where "stage = pcp * tp"
  define q where "q = world div (dp * pp * pcp * tp)"
  have pos: "1 \<le> tp" "1 \<le> pp" "1 \<le> pcp" "1 \<le> dp" "0 < world" and dvd: "world mod (dp * pp * pcp * tp) = 0"
    and g: "groups = concat (map (\<lambda>outer. concat (map (\<lambda>data. map (\<lambda>offset.
           map (\<lambda>s. (outer * dp + data) * pp * stage + s * stage + offset) (py_range pp))
         (py_range stage)) (py_range dp))) (py_range q))"
    using assms by (auto simp: pp_groups_def stage_def q_def Let_def split: if_splits)
  have st: "0 < stage" using pos by (simp add: stage_def)
  have world: "world = q * dp * pp * stage"
  proof -
    have "q * (dp * pp * pcp * tp) = world" using dvd by (simp add: q_def mod_eq_0_iff_dvd)
    then show ?thesis by (simp add: stage_def ac_simps)
  qed
  have q: "0 \<le> q" using pos by (simp add: q_def pos_imp_zdiv_nonneg_iff)
  let ?v = "\<lambda>outer data offset s. (outer * dp + data) * pp * stage + s * stage + offset"
  have flat: "concat groups = concat (map (\<lambda>outer. concat (map (\<lambda>data. concat (map (\<lambda>offset.
      map (?v outer data offset) (py_range pp)) (py_range stage))) (py_range dp))) (py_range q))"
    unfolding g by (simp add: concat_concat_map)
  have len: "length (concat groups) = nat world"
    unfolding flat world using pos st q by (simp add: length_concat o_def sum_list_triv nat_mult_distrib)
  have sub: "{0..<world} \<subseteq> set (concat groups)"
  proof
    fix x
    assume x: "x \<in> {0..<world}"
    define y where "y = x div stage"
    define z where "z = y div pp"
    have "0 \<le> y" using x st by (simp add: y_def pos_imp_zdiv_nonneg_iff)
    then have z0: "0 \<le> z" using pos by (simp add: z_def pos_imp_zdiv_nonneg_iff)
    have "y < q * dp * pp" using x world unfolding y_def by (intro div_below [OF st]) simp
    then have "z < q * dp" unfolding z_def using pos by (intro div_below) auto
    then have outer: "z div dp < q" using pos by (intro div_below) auto
    have outer0: "0 \<le> z div dp" using pos z0 by (simp add: pos_imp_zdiv_nonneg_iff)
    have "?v (z div dp) (z mod dp) (x mod stage) (y mod pp) = (z * pp + y mod pp) * stage + x mod stage"
      by (simp add: distrib_right)
    also have "z * pp + y mod pp = y" by (simp add: z_def)
    also have "y * stage + x mod stage = x" by (simp add: y_def)
    finally have v: "?v (z div dp) (z mod dp) (x mod stage) (y mod pp) = x" .
    have "z mod dp \<in> set (py_range dp)" "x mod stage \<in> set (py_range stage)" "y mod pp \<in> set (py_range pp)"
      "z div dp \<in> set (py_range q)" using pos st outer outer0 by simp_all
    then have "?v (z div dp) (z mod dp) (x mod stage) (y mod pp) \<in> set (concat groups)"
      unfolding flat by (rule in_groups)
    then show "x \<in> set (concat groups)" using v by simp
  qed
  have c: "card (set (concat groups)) \<le> nat world" using card_length [of "concat groups"] len by simp
  then have eq: "{0..<world} = set (concat groups)" by (intro card_seteq) (use sub in auto)
  then have "card (set (concat groups)) = length (concat groups)" using len by (metis card_atLeastLessThan_int diff_0_right)
  then have "distinct (concat groups)" by (rule card_distinct)
  moreover have "\<forall>g\<in>set groups. int (length g) = pp" using pos unfolding g by auto
  ultimately show ?thesis using eq by simp
qed

theorem pp_groups_partition_witness:
  "pp_groups 8 2 2 1 2 = Inr [[0, 2], [1, 3], [4, 6], [5, 7]] \<and> distinct (concat [[0, 2], [1, 3], [4, 6], [5, 7 :: int]])"
proof -
  have g: "pp_groups 8 2 2 1 2 = Inr [[0, 2], [1, 3], [4, 6], [5, 7]]" by code_simp
  from pp_groups_partition [OF g] g show ?thesis by blast
qed

end
