(* ===== verification/P2P_Wire.thy ===== *)
theory P2P_Wire
  imports Wire
begin

unbundle bit_operations_syntax

text \<open>
  Point-to-point channels (\<open>spark_transport/sircl/sparkring_sircl/p2p/protocol.py\<close>): the arena with one
  block per peer, the split of a message into items, and the header words by which a receiver detects
  a message of another size.
\<close>

section \<open>Control words\<close>

datatype P2PControl =
  P_WAIT_LIMIT_US | P_ERROR_TAG | P_ERROR_PEER | P_ERROR_LANE | P_ERROR_KIND | P_ERROR_EXPECTED
| P_ERROR_GOT | P_POISON | P_ABORT | P_LANE_CHECK

fun p2p_control_word :: "P2PControl \<Rightarrow> int" where
  "p2p_control_word P_WAIT_LIMIT_US = 0"
| "p2p_control_word P_ERROR_TAG = 1"
| "p2p_control_word P_ERROR_PEER = 2"
| "p2p_control_word P_ERROR_LANE = 3"
| "p2p_control_word P_ERROR_KIND = 4"
| "p2p_control_word P_ERROR_EXPECTED = 5"
| "p2p_control_word P_ERROR_GOT = 6"
| "p2p_control_word P_POISON = 7"
| "p2p_control_word P_ABORT = 8"
| "p2p_control_word P_LANE_CHECK = 31"

datatype P2PErrorKind = FLAG_WAIT | SLOT_WAIT | SIZE_MISMATCH

fun p2p_error_code :: "P2PErrorKind \<Rightarrow> int" where
  "p2p_error_code FLAG_WAIT = 1"
| "p2p_error_code SLOT_WAIT = 2"
| "p2p_error_code SIZE_MISMATCH = 3"

section \<open>Layout\<close>

abbreviation (input) CONTROL_BYTES :: int where "CONTROL_BYTES \<equiv> 4096"
abbreviation (input) LINE :: int where "LINE \<equiv> 128"
abbreviation (input) MAX_SLOT_BYTES :: int where "MAX_SLOT_BYTES \<equiv> 2 ^ 29"

record P2PLayout =
  p2p_world :: int
  p2p_lanes :: int
  p2p_slots :: int
  p2p_slot_bytes :: int

definition P2PLayout_new :: "int \<Rightarrow> int \<Rightarrow> int \<Rightarrow> int \<Rightarrow> py_error + P2PLayout" where
  "P2PLayout_new world lanes slots slot_bytes =
    (if \<not> (2 \<le> world \<and> world \<le> 16) then Inl (ProtocolError ''a point-to-point group has 2 to 16 ranks'' [world])
     else if \<not> (1 \<le> lanes \<and> lanes \<le> MAX_LANES) then Inl (ProtocolError ''a channel has 1 to 2 lanes'' [lanes])
     else if \<not> (2 \<le> slots \<and> slots \<le> 32) \<or> slots AND (slots - 1) \<noteq> 0
     then Inl (ProtocolError ''a channel has a power of two of 2 to 32 slots'' [slots])
     else if slot_bytes \<le> 0 \<or> slot_bytes mod 4096 \<noteq> 0 \<or> slot_bytes > MAX_SLOT_BYTES
     then Inl (ProtocolError ''slot bytes'' [slot_bytes])
     else Inr \<lparr>p2p_world = world, p2p_lanes = lanes, p2p_slots = slots, p2p_slot_bytes = slot_bytes\<rparr>)"

definition p2p_ring_bytes :: "P2PLayout \<Rightarrow> int" where
  "p2p_ring_bytes c = p2p_slots c * p2p_slot_bytes c"

definition p2p_recv_off :: "P2PLayout \<Rightarrow> int" where
  "p2p_recv_off c = 0"

definition p2p_send_off :: "P2PLayout \<Rightarrow> int" where
  "p2p_send_off c = p2p_ring_bytes c"

definition p2p_flag_off :: "P2PLayout \<Rightarrow> int" where
  "p2p_flag_off c = 2 * p2p_ring_bytes c"

definition p2p_desc_off :: "P2PLayout \<Rightarrow> int" where
  "p2p_desc_off c = p2p_flag_off c + p2p_slots c * p2p_lanes c * LINE"

definition p2p_ready_off :: "P2PLayout \<Rightarrow> int" where
  "p2p_ready_off c = p2p_desc_off c + LINE"

definition p2p_consumed_off :: "P2PLayout \<Rightarrow> int" where
  "p2p_consumed_off c = p2p_ready_off c + LINE"

definition p2p_sent_off :: "P2PLayout \<Rightarrow> int" where
  "p2p_sent_off c = p2p_consumed_off c + LINE"

definition p2p_credit_off :: "P2PLayout \<Rightarrow> int" where
  "p2p_credit_off c = p2p_sent_off c + LINE"

definition p2p_block_bytes :: "P2PLayout \<Rightarrow> int" where
  "p2p_block_bytes c = cdiv (p2p_credit_off c + LINE) SLOT_ALIGNMENT * SLOT_ALIGNMENT"

definition p2p_total_bytes :: "P2PLayout \<Rightarrow> int" where
  "p2p_total_bytes c = CONTROL_BYTES + p2p_world c * p2p_block_bytes c"

definition p2p_block :: "P2PLayout \<Rightarrow> int \<Rightarrow> py_error + int" where
  "p2p_block c peer = (if \<not> (0 \<le> peer \<and> peer < p2p_world c)
    then Inl (ProtocolError ''peer outside a group'' [peer, p2p_world c])
    else Inr (CONTROL_BYTES + peer * p2p_block_bytes c))"

definition p2p_recv_slot :: "P2PLayout \<Rightarrow> int \<Rightarrow> int \<Rightarrow> py_error + int" where
  "p2p_recv_slot c peer slot = bind_res (p2p_block c peer) (\<lambda>b. Inr (b + p2p_recv_off c + slot * p2p_slot_bytes c))"

definition p2p_send_slot :: "P2PLayout \<Rightarrow> int \<Rightarrow> int \<Rightarrow> py_error + int" where
  "p2p_send_slot c peer slot = bind_res (p2p_block c peer) (\<lambda>b. Inr (b + p2p_send_off c + slot * p2p_slot_bytes c))"

definition p2p_flag :: "P2PLayout \<Rightarrow> int \<Rightarrow> int \<Rightarrow> int \<Rightarrow> py_error + int" where
  "p2p_flag c peer slot lane = bind_res (p2p_block c peer) (\<lambda>b. Inr (b + p2p_flag_off c + (slot * p2p_lanes c + lane) * LINE))"

definition p2p_header_at :: "P2PLayout \<Rightarrow> int \<Rightarrow> int \<Rightarrow> py_error + int" where
  "p2p_header_at c peer slot = bind_res (p2p_flag c peer slot 0) (\<lambda>f. Inr (f + 4))"

definition p2p_word :: "P2PLayout \<Rightarrow> int \<Rightarrow> int \<Rightarrow> int \<Rightarrow> py_error + int" where
  "p2p_word c peer offset slot = bind_res (p2p_block c peer) (\<lambda>b. Inr (b + offset + 4 * slot))"

definition p2p_as_tuple :: "P2PLayout \<Rightarrow> int list" where
  "p2p_as_tuple c = [CONTROL_BYTES, p2p_block_bytes c, p2p_recv_off c, p2p_send_off c, p2p_flag_off c, p2p_desc_off c,
    p2p_ready_off c, p2p_consumed_off c, p2p_sent_off c, p2p_credit_off c, p2p_total_bytes c]"

lemmas p2p_defs = p2p_ring_bytes_def p2p_recv_off_def p2p_send_off_def p2p_flag_off_def p2p_desc_off_def
  p2p_ready_off_def p2p_consumed_off_def p2p_sent_off_def p2p_credit_off_def

section \<open>Uses of a block\<close>

datatype p2p_use =
  ChannelRecv int | ChannelSend int | ChannelFlag int int | DescWord int | ReadyTag int | ConsumedTag int
| SentTag | CreditTag

fun p2p_use_ok :: "P2PLayout \<Rightarrow> p2p_use \<Rightarrow> bool" where
  "p2p_use_ok c (ChannelRecv k) = (0 \<le> k \<and> k < p2p_slots c)"
| "p2p_use_ok c (ChannelSend k) = (0 \<le> k \<and> k < p2p_slots c)"
| "p2p_use_ok c (ChannelFlag k l) = (0 \<le> k \<and> k < p2p_slots c \<and> 0 \<le> l \<and> l < p2p_lanes c)"
| "p2p_use_ok c (DescWord k) = (0 \<le> k \<and> k < p2p_slots c)"
| "p2p_use_ok c (ReadyTag k) = (0 \<le> k \<and> k < p2p_slots c)"
| "p2p_use_ok c (ConsumedTag k) = (0 \<le> k \<and> k < p2p_slots c)"
| "p2p_use_ok c SentTag = True"
| "p2p_use_ok c CreditTag = True"

text \<open>Its byte offset in the arena of \<open>peer\<close>'s block, by the method that computes it, and its length.\<close>

fun p2p_offset :: "P2PLayout \<Rightarrow> int \<Rightarrow> p2p_use \<Rightarrow> py_error + int" where
  "p2p_offset c peer (ChannelRecv k) = p2p_recv_slot c peer k"
| "p2p_offset c peer (ChannelSend k) = p2p_send_slot c peer k"
| "p2p_offset c peer (ChannelFlag k l) = p2p_flag c peer k l"
| "p2p_offset c peer (DescWord k) = p2p_word c peer (p2p_desc_off c) k"
| "p2p_offset c peer (ReadyTag k) = p2p_word c peer (p2p_ready_off c) k"
| "p2p_offset c peer (ConsumedTag k) = p2p_word c peer (p2p_consumed_off c) k"
| "p2p_offset c peer SentTag = p2p_word c peer (p2p_sent_off c) 0"
| "p2p_offset c peer CreditTag = p2p_word c peer (p2p_credit_off c) 0"

fun p2p_len :: "P2PLayout \<Rightarrow> p2p_use \<Rightarrow> int" where
  "p2p_len c (ChannelRecv k) = p2p_slot_bytes c"
| "p2p_len c (ChannelSend k) = p2p_slot_bytes c"
| "p2p_len c (ChannelFlag k l) = LINE"
| "p2p_len c (DescWord k) = 4"
| "p2p_len c (ReadyTag k) = 4"
| "p2p_len c (ConsumedTag k) = 4"
| "p2p_len c SentTag = 4"
| "p2p_len c CreditTag = 4"

fun p2p_cell :: "P2PLayout \<Rightarrow> p2p_use \<Rightarrow> nat \<times> int" where
  "p2p_cell c (ChannelRecv k) = (0, k)"
| "p2p_cell c (ChannelSend k) = (1, k)"
| "p2p_cell c (ChannelFlag k l) = (2, k * p2p_lanes c + l)"
| "p2p_cell c (DescWord k) = (3, k)"
| "p2p_cell c (ReadyTag k) = (4, k)"
| "p2p_cell c (ConsumedTag k) = (5, k)"
| "p2p_cell c SentTag = (6, 0)"
| "p2p_cell c CreditTag = (7, 0)"

definition p2p_regions :: "P2PLayout \<Rightarrow> (int \<times> int \<times> int) list" where
  "p2p_regions c = [(0, p2p_slot_bytes c, p2p_slots c), (p2p_send_off c, p2p_slot_bytes c, p2p_slots c),
    (p2p_flag_off c, 128, p2p_slots c * p2p_lanes c), (p2p_desc_off c, 4, 32), (p2p_ready_off c, 4, 32),
    (p2p_consumed_off c, 4, 32), (p2p_sent_off c, 128, 1), (p2p_credit_off c, 128, 1)]"

definition p2p_in_block :: "P2PLayout \<Rightarrow> p2p_use \<Rightarrow> int \<times> int" where
  "p2p_in_block c u = (cell_at (p2p_regions c) (p2p_cell c u), p2p_len c u)"

definition p2p_ok :: "P2PLayout \<Rightarrow> bool" where
  "p2p_ok c \<longleftrightarrow> is_ok (P2PLayout_new (p2p_world c) (p2p_lanes c) (p2p_slots c) (p2p_slot_bytes c))"

lemma p2p_ok_bounds:
  "p2p_ok c \<Longrightarrow> 2 \<le> p2p_world c \<and> 1 \<le> p2p_lanes c \<and> 2 \<le> p2p_slots c \<and> p2p_slots c \<le> 32 \<and> 0 < p2p_slot_bytes c"
  by (auto simp: p2p_ok_def P2PLayout_new_def split: if_splits)

lemma block_holds: "p2p_credit_off c + 128 \<le> p2p_block_bytes c"
  using cdiv_bounds [of 4096 "p2p_credit_off c + 128"] by (simp add: p2p_block_bytes_def)

interpretation p2p_area: cell_area p2p_ok p2p_regions p2p_block_bytes p2p_use_ok p2p_cell p2p_in_block
proof
  fix c :: P2PLayout and u v :: p2p_use
  assume ok: "p2p_ok c"
  note b = p2p_ok_bounds [OF ok]
  show "stacked 0 (p2p_regions c) (p2p_block_bytes c)"
    using b block_holds [of c] by (simp add: p2p_regions_def p2p_defs algebra_simps)
  assume u: "p2p_use_ok c u"
  have flag: "0 \<le> k * p2p_lanes c + l \<and> k * p2p_lanes c + l < p2p_slots c * p2p_lanes c"
    if "0 \<le> k" "k < p2p_slots c" "0 \<le> l" "l < p2p_lanes c" for k l
    using radix_bound [of k "p2p_slots c" l "p2p_lanes c"] that by simp
  show "cell_ok (p2p_regions c) (p2p_cell c u) (snd (p2p_in_block c u))"
    using u b flag by (cases u) (auto simp: cell_ok_def p2p_regions_def p2p_in_block_def numeral_eq_Suc)
  show "fst (p2p_in_block c u) = cell_at (p2p_regions c) (p2p_cell c u)" by (simp add: p2p_in_block_def)
  assume v: "p2p_use_ok c v" and e: "p2p_cell c u = p2p_cell c v"
  show "u = v"
  proof (cases u)
    case (ChannelFlag k l)
    then obtain k' l' where w: "v = ChannelFlag k' l'" using e by (cases v) auto
    have "k = k' \<and> l = l'" using u v e ChannelFlag w by (intro radix_unique [of _ "p2p_lanes c"]) auto
    then show ?thesis using ChannelFlag w by simp
  qed (use u v e in \<open>cases v; auto; fail\<close>)+
qed

lemma p2p_offset_in_block:
  "p2p_offset c peer u = Inr off \<longleftrightarrow>
    0 \<le> peer \<and> peer < p2p_world c \<and> off = CONTROL_BYTES + peer * p2p_block_bytes c + fst (p2p_in_block c u)"
  by (cases u) (auto simp: p2p_in_block_def cell_at_def p2p_regions_def numeral_eq_Suc bind_res_Inr p2p_block_def
    p2p_recv_slot_def p2p_send_slot_def p2p_flag_def p2p_word_def p2p_recv_off_def mult.commute)

section \<open>Items\<close>

definition p2p_padded :: "int \<Rightarrow> py_error + int" where
  "p2p_padded nbytes = (if nbytes < 0 then Inl (ProtocolError ''a message has a non-negative size'' [nbytes])
    else Inr (cdiv nbytes PACK_BYTES * PACK_BYTES))"

definition items :: "int \<Rightarrow> int \<Rightarrow> py_error + int" where
  "items nbytes slot_bytes =
    (if slot_bytes \<le> 0 \<or> slot_bytes mod PACK_BYTES \<noteq> 0
     then Inl (ProtocolError ''slot bytes must be a positive multiple of 16'' [slot_bytes])
     else bind_res (p2p_padded nbytes) (\<lambda>p. Inr (max 1 (cdiv p slot_bytes))))"

definition item_bytes :: "int \<Rightarrow> int \<Rightarrow> int \<Rightarrow> py_error + int" where
  "item_bytes nbytes slot_bytes index =
    bind_res (items nbytes slot_bytes) (\<lambda>count.
    if \<not> (0 \<le> index \<and> index < count) then Inl (ProtocolError ''item of a message'' [index, count])
    else bind_res (p2p_padded nbytes) (\<lambda>p. Inr (min slot_bytes (p - index * slot_bytes))))"

definition header :: "int \<Rightarrow> int \<Rightarrow> int \<Rightarrow> py_error + int" where
  "header nbytes slot_bytes index =
    bind_res (item_bytes nbytes slot_bytes index) (\<lambda>word.
    bind_res (items nbytes slot_bytes) (\<lambda>count.
    Inr (if index = count - 1 then word OR (push_bit 31 1 OR nbytes AND 15) else word)))"

text \<open>A header read back: bytes, whether it is the last item, and the tail.\<close>

definition describe_header :: "int \<Rightarrow> int \<times> (int option)" where
  "describe_header raw = (let word = raw AND 0xFFFFFFFF in
    (word AND ((2 ^ 30 - 1) AND NOT 15), if word AND push_bit 31 1 \<noteq> 0 then Some (word AND 15) else None))"

definition tag :: "int \<Rightarrow> int" where
  "tag item = (item + 1) AND 0xFFFFFFFF"

definition item_stripes :: "int \<Rightarrow> int \<Rightarrow> py_error + (int \<times> int) list" where
  "item_stripes nbytes lanes =
    (if nbytes mod PACK_BYTES \<noteq> 0 then Inl (ProtocolError ''an item carries whole packs'' [nbytes])
     else map_res (stripe (nbytes div PACK_BYTES) lanes) (py_range lanes))"

definition check_devices :: "string list \<Rightarrow> py_error + unit" where
  "check_devices names = guard (1 \<le> length names \<and> length names \<le> 4)
    (ProtocolError ''a point-to-point context opens 1 to 4 RDMA devices'' [int (length names)])"

section \<open>Items and headers as arithmetic\<close>

lemma cdiv_mult_ge: "0 < b \<Longrightarrow> 0 \<le> a \<Longrightarrow> 0 \<le> cdiv a b * b"
  using cdiv_nonneg by simp

lemma items_Inr:
  "items nbytes sb = Inr cnt \<longleftrightarrow> 0 < sb \<and> sb mod 16 = 0 \<and> 0 \<le> nbytes \<and> cnt = max 1 (cdiv (cdiv nbytes 16 * 16) sb)"
  by (auto simp: items_def p2p_padded_def bind_res_Inr)

lemma item_bytes_Inr:
  assumes "items nbytes sb = Inr cnt" "0 \<le> i" "i < cnt"
  shows "item_bytes nbytes sb i = Inr (min sb (cdiv nbytes 16 * 16 - i * sb))"
  using assms items_Inr [of nbytes sb cnt] by (simp add: item_bytes_def p2p_padded_def)

text \<open>Every item but the last is a full slot; the last holds the rest.\<close>

lemma item_bytes_range:
  assumes c: "items nbytes sb = Inr cnt" and i: "0 \<le> i" "i < cnt"
  shows "0 \<le> min sb (cdiv nbytes 16 * 16 - i * sb) \<and> min sb (cdiv nbytes 16 * 16 - i * sb) \<le> sb
    \<and> min sb (cdiv nbytes 16 * 16 - i * sb) mod 16 = 0 \<and> (i < cnt - 1 \<longrightarrow> sb < cdiv nbytes 16 * 16 - i * sb)
    \<and> cdiv nbytes 16 * 16 - (cnt - 1) * sb \<le> sb"
proof -
  define P where "P = cdiv nbytes 16 * 16"
  have s: "0 < sb" "sb mod 16 = 0" "0 \<le> nbytes" and ct: "cnt = max 1 (cdiv P sb)" using c by (auto simp: items_Inr P_def)
  have P0: "0 \<le> P" using s cdiv_mult_ge [of 16 nbytes] by (simp add: P_def)
  have "i * sb \<le> P"
  proof (cases "i = 0")
    case False
    then have "i < cdiv P sb" using i ct by auto
    then show ?thesis using cdiv_last [OF s(1)] by fastforce
  qed (use P0 in simp)
  moreover have "(P - i * sb) mod 16 = 0" using s by (simp add: P_def mod_eq_0_iff_dvd)
  moreover have "sb < P - i * sb" if "i < cnt - 1"
  proof -
    have "i + 1 < cdiv P sb" using that i ct by auto
    then have "(i + 1) * sb < P" using cdiv_last [OF s(1)] by blast
    then show ?thesis by (simp add: algebra_simps)
  qed
  moreover have "P - (cnt - 1) * sb \<le> sb"
  proof -
    have "P \<le> cnt * sb" using cdiv_le_iff [OF s(1), of P cnt] ct by auto
    then show ?thesis by (simp add: algebra_simps)
  qed
  ultimately show ?thesis using s unfolding P_def [symmetric] by (auto simp: min_def)
qed

text \<open>The header word as a sum: bytes, the last bit, and the tail.\<close>

lemma header_Inr:
  assumes c: "items nbytes sb = Inr cnt" and i: "0 \<le> i" "i < cnt" and sb: "sb \<le> MAX_SLOT_BYTES"
  shows "header nbytes sb i = Inr (min sb (cdiv nbytes 16 * 16 - i * sb) + (if i = cnt - 1 then 2 ^ 31 + nbytes mod 16 else 0))"
proof -
  define w where "w = min sb (cdiv nbytes 16 * 16 - i * sb)"
  have r: "0 \<le> w" "w \<le> 2 ^ 29" "w mod 16 = 0"
    using item_bytes_range [OF c i] sb by (auto simp: w_def)
  have n: "0 \<le> nbytes" using c by (simp add: items_Inr)
  have t: "nbytes AND 15 = nbytes mod 16" using and_low_mask [of nbytes 4] by simp
  have "w = push_bit 4 (w div 16)" using r(3) by (simp add: push_bit_eq_mult mod_eq_0_iff_dvd)
  then have wt: "w OR nbytes mod 16 = w + nbytes mod 16"
    using or_shift [of "nbytes mod 16" 4 "w div 16"] by (simp add: push_bit_eq_mult)
  have "w = 16 * (w div 16)" using r(3) by (simp add: mod_eq_0_iff_dvd)
  then have "w + nbytes mod 16 < 2 ^ 31" using r(2) pos_mod_bound [of 16 nbytes] by simp
  then have "push_bit 31 1 OR (w + nbytes mod 16) = 1 * 2 ^ 31 + (w + nbytes mod 16)"
    using r(1) by (intro or_shift) auto
  then have "w OR (push_bit 31 1 OR nbytes AND 15) = w + (2 ^ 31 + nbytes mod 16)"
    using wt by (simp add: t or.left_commute [of w])
  then show ?thesis using item_bytes_Inr [OF c i] c by (simp add: header_def w_def [symmetric])
qed

section \<open>Properties\<close>

text \<open>
  In every point-to-point arena the dataclass accepts, two different uses (of one peer's channel or
  of two peers') never share a byte, and all lie behind the control line inside the arena.
\<close>

theorem p2p_uses_apart:
  assumes c: "P2PLayout_new world lanes slots sb = Inr c"
    and u: "p2p_use_ok c u" "p2p_offset c p u = Inr a" and v: "p2p_use_ok c v" "p2p_offset c q v = Inr b"
    and ne: "(p, u) \<noteq> (q, v)"
  shows "piece_set (a, p2p_len c u) \<inter> piece_set (b, p2p_len c v) = {}
    \<and> CONTROL_BYTES \<le> a \<and> a + p2p_len c u \<le> p2p_total_bytes c"
proof -
  have ok: "p2p_ok c" using c by (auto simp: p2p_ok_def P2PLayout_new_def split: if_splits)
  let ?B = "p2p_block_bytes c" and ?fu = "fst (p2p_in_block c u)" and ?fv = "fst (p2p_in_block c v)"
  have a: "0 \<le> p" "p < p2p_world c" "a = 4096 + p * ?B + ?fu" and b: "0 \<le> q" "q < p2p_world c" "b = 4096 + q * ?B + ?fv"
    using u(2) v(2) by (simp_all add: p2p_offset_in_block)
  have iu: "0 \<le> ?fu" "?fu + p2p_len c u \<le> ?B" and iv: "0 \<le> ?fv" "?fv + p2p_len c v \<le> ?B"
    using p2p_area.span_inside [OF ok u(1)] p2p_area.span_inside [OF ok v(1)] by (simp_all add: p2p_in_block_def)
  have B: "0 \<le> ?B" using stacked_le [OF p2p_area.area_stacked [OF ok]] .
  have "0 \<le> p * ?B" using a B by simp
  moreover have "(p + 1) * ?B \<le> p2p_world c * ?B" using a B by (intro mult_right_mono) auto
  ultimately have inside: "4096 \<le> a" "a + p2p_len c u \<le> p2p_total_bytes c"
    using a iu by (auto simp: p2p_total_bytes_def algebra_simps)
  consider "p = q" | "p < q" | "q < p" by linarith
  then have "piece_set (a, p2p_len c u) \<inter> piece_set (b, p2p_len c v) = {}"
  proof cases
    case 1
    then have "piece_set (p2p_in_block c u) \<inter> piece_set (p2p_in_block c v) = {}"
      using p2p_area.spans_apart [OF ok u(1) v(1)] ne by blast
    then have "\<not> (?fu \<le> x \<and> x < ?fu + p2p_len c u \<and> ?fv \<le> x \<and> x < ?fv + p2p_len c v)" for x
      by (auto simp: p2p_in_block_def disjoint_iff)
    then have no: "\<not> (?fu \<le> x - (4096 + p * ?B) \<and> x - (4096 + p * ?B) < ?fu + p2p_len c u
        \<and> ?fv \<le> x - (4096 + p * ?B) \<and> x - (4096 + p * ?B) < ?fv + p2p_len c v)" for x .
    have ab: "a = 4096 + p * ?B + ?fu" "b = 4096 + p * ?B + ?fv" using 1 a b by simp_all
    show ?thesis unfolding disjoint_iff piece_set_mem ab
    proof (intro allI impI notI)
      fix x
      assume "4096 + p * ?B + ?fu \<le> x \<and> x < 4096 + p * ?B + ?fu + p2p_len c u"
        "4096 + p * ?B + ?fv \<le> x \<and> x < 4096 + p * ?B + ?fv + p2p_len c v"
      with no [of x] show False by linarith
    qed
  next
    case 2
    then have "(p + 1) * ?B \<le> q * ?B" using B by (intro mult_right_mono) auto
    then have "a + p2p_len c u \<le> b" using a b iu iv by (simp add: algebra_simps)
    then show ?thesis by auto
  next
    case 3
    then have "(q + 1) * ?B \<le> p * ?B" using B by (intro mult_right_mono) auto
    then have "b + p2p_len c v \<le> a" using a b iu iv by (simp add: algebra_simps)
    then show ?thesis by auto
  qed
  with inside show ?thesis by simp
qed

theorem p2p_uses_apart_witness:
  "\<exists>a b. p2p_offset \<lparr>p2p_world = 4, p2p_lanes = 2, p2p_slots = 8, p2p_slot_bytes = 524288\<rparr> 1 (ChannelFlag 7 1) = Inr a
    \<and> p2p_offset \<lparr>p2p_world = 4, p2p_lanes = 2, p2p_slots = 8, p2p_slot_bytes = 524288\<rparr> 1 (DescWord 0) = Inr b
    \<and> piece_set (a, 128) \<inter> piece_set (b, 4) = {}"
proof -
  let ?c = "\<lparr>p2p_world = 4, p2p_lanes = 2, p2p_slots = 8, p2p_slot_bytes = 524288\<rparr>"
  obtain a b where ab: "p2p_offset ?c 1 (ChannelFlag 7 1) = Inr a" "p2p_offset ?c 1 (DescWord 0) = Inr b"
    by (simp add: p2p_flag_def p2p_word_def p2p_block_def)
  have "P2PLayout_new 4 2 8 524288 = Inr ?c" by (simp add: P2PLayout_new_def)
  from p2p_uses_apart [OF this _ ab(1) _ ab(2)] show ?thesis using ab by force
qed

lemma same_in_block:
  assumes "(n::int) \<le> k" "k < n + 16" "m \<le> k" "k < m + 16" "n mod 16 = m mod 16"
  shows "n = m"
proof -
  have e: "n div 16 * 16 + n mod 16 = n" "m div 16 * 16 + m mod 16 = m" by simp_all
  then have "n div 16 < m div 16 + 1" "m div 16 < n div 16 + 1" using assms by linarith+
  then have "n div 16 = m div 16" by simp
  then show ?thesis using e assms(5) by metis
qed

text \<open>
  A receiver detects a message of another size on the first item that differs: when the headers of
  two messages agree on every item both have, the messages have the same size.
\<close>

theorem headers_tell_size:
  assumes n: "items n sb = Inr c" and m: "items m sb = Inr d" and sb: "sb \<le> MAX_SLOT_BYTES"
    and same: "\<And>i. 0 \<le> i \<Longrightarrow> i < c \<Longrightarrow> i < d \<Longrightarrow> header n sb i = header m sb i"
  shows "n = m"
proof -
  have pos: "1 \<le> c" "1 \<le> d" "0 \<le> n" "0 \<le> m" using n m by (auto simp: items_Inr)
  let ?k = "min c d - 1"
  have k: "0 \<le> ?k" "?k < c" "?k < d" using pos by auto
  have eq: "min sb (cdiv n 16 * 16 - ?k * sb) + (if ?k = c - 1 then 2 ^ 31 + n mod 16 else 0)
      = min sb (cdiv m 16 * 16 - ?k * sb) + (if ?k = d - 1 then 2 ^ 31 + m mod 16 else (0::int))"
    using same [OF k] header_Inr [OF n k(1,2) sb] header_Inr [OF m k(1,3) sb] by simp
  note rn = item_bytes_range [OF n k(1,2)] and rm = item_bytes_range [OF m k(1,3)]
  have bn: "0 \<le> n mod 16" "n mod 16 < 16" "0 \<le> m mod 16" "m mod 16 < 16" by simp_all
  have w: "min sb (cdiv n 16 * 16 - ?k * sb) \<le> 2 ^ 29" "min sb (cdiv m 16 * 16 - ?k * sb) \<le> 2 ^ 29"
    "0 \<le> min sb (cdiv n 16 * 16 - ?k * sb)" "0 \<le> min sb (cdiv m 16 * 16 - ?k * sb)"
    using rn rm sb by auto
  have cd: "c = d"
  proof (rule ccontr)
    assume "c \<noteq> d"
    then have "(?k = c - 1) \<noteq> (?k = d - 1)" by (auto simp: min_def)
    then show False using eq w bn by (auto split: if_splits)
  qed
  then have kc: "?k = c - 1" "?k = d - 1" by auto
  define x where "x = min sb (cdiv n 16 * 16 - ?k * sb)"
  define y where "y = min sb (cdiv m 16 * 16 - ?k * sb)"
  have "x + n mod 16 = y + m mod 16" using eq kc by (simp add: x_def y_def)
  moreover have "x = x div 16 * 16" "y = y div 16 * 16" using rn rm by (auto simp: x_def y_def mod_eq_0_iff_dvd)
  ultimately have "x div 16 * 16 + n mod 16 = y div 16 * 16 + m mod 16" by simp
  then have d16: "x div 16 = y div 16" and tail: "n mod 16 = m mod 16"
    using radix_unique [of "n mod 16" 16 "m mod 16" "x div 16" "y div 16"] bn by auto
  then have "x = y" using \<open>x = x div 16 * 16\<close> \<open>y = y div 16 * 16\<close> by metis
  moreover have "x = cdiv n 16 * 16 - ?k * sb" "y = cdiv m 16 * 16 - ?k * sb"
    using rn rm kc by (auto simp: x_def y_def)
  ultimately have "cdiv n 16 = cdiv m 16" by linarith
  then have "n \<le> cdiv n 16 * 16" "cdiv n 16 * 16 < n + 16" "m \<le> cdiv n 16 * 16" "cdiv n 16 * 16 < m + 16"
    using cdiv_bounds [of 16 n] cdiv_bounds [of 16 m] by simp_all
  then show "n = m" using tail by (rule same_in_block)
qed

theorem headers_tell_size_witness:
  "items 100 4096 = Inr 1 \<and> items 112 4096 = Inr 1 \<and> (\<exists>i. 0 \<le> i \<and> i < (1::int) \<and> header 100 4096 i \<noteq> header 112 4096 i)"
proof -
  have i: "items 100 4096 = Inr 1" "items 112 4096 = Inr 1" by (simp_all add: items_Inr cdiv_def)
  have "\<not> (\<forall>i. 0 \<le> i \<longrightarrow> i < (1::int) \<longrightarrow> header 100 4096 i = header 112 4096 i)"
    using headers_tell_size [OF i] by auto
  then show ?thesis using i by blast
qed

text \<open>
  The items of a message cover its padded bytes exactly once, each fits its slot and is a whole
  number of packs, and the header of an item reads back as its bytes, the end of the message, and
  the message's tail.
\<close>

theorem items_cover_message:
  assumes c: "items nbytes sb = Inr cnt" and b: "0 \<le> b" "b < nbytes"
  shows "\<exists>!i. 0 \<le> i \<and> i < cnt \<and> (\<exists>n. item_bytes nbytes sb i = Inr n \<and> i * sb \<le> b \<and> b < i * sb + n \<and> 0 < n \<and> n \<le> sb)"
proof -
  define P where "P = cdiv nbytes 16 * 16"
  have s: "0 < sb" and ct: "cnt = max 1 (cdiv P sb)" and n0: "0 \<le> nbytes" using c by (auto simp: items_Inr P_def)
  have bP: "b < P" using cdiv_bounds [of 16 nbytes] b by (simp add: P_def)
  then have P0: "0 < P" using b by simp
  then have ct': "cnt = cdiv P sb" using ct cdiv_pos [OF s P0] by auto
  let ?i = "b div sb"
  have "?i * sb + b mod sb = b" by simp
  then have "?i * sb \<le> b" "b < ?i * sb + sb" using pos_mod_bound [OF s, of b] pos_mod_sign [OF s, of b] by linarith+
  moreover have "0 \<le> ?i" using b s by (simp add: pos_imp_zdiv_nonneg_iff)
  ultimately have bi: "?i * sb \<le> b" "b < ?i * sb + sb" "0 \<le> ?i" .
  have ic: "?i < cnt" using bi bP ct' cdiv_le_iff [OF s, of P ?i] by auto
  show ?thesis
  proof (rule ex1I [of _ ?i])
    have "item_bytes nbytes sb ?i = Inr (min sb (P - ?i * sb))" using item_bytes_Inr [OF c bi(3) ic] by (simp add: P_def)
    then show "0 \<le> ?i \<and> ?i < cnt \<and> (\<exists>n. item_bytes nbytes sb ?i = Inr n \<and> ?i * sb \<le> b \<and> b < ?i * sb + n \<and> 0 < n \<and> n \<le> sb)"
      using bi ic bP s by auto
  next
    fix j
    assume j: "0 \<le> j \<and> j < cnt \<and> (\<exists>n. item_bytes nbytes sb j = Inr n \<and> j * sb \<le> b \<and> b < j * sb + n \<and> 0 < n \<and> n \<le> sb)"
    then have "b = j * sb + (b - j * sb)" "0 \<le> b - j * sb" "b - j * sb < sb" by auto
    then show "j = ?i" using radix_div [of "b - j * sb" sb j] by simp
  qed
qed

theorem items_cover_message_witness:
  "\<exists>!i. 0 \<le> i \<and> i < (3::int) \<and> (\<exists>n. item_bytes 10000 4096 i = Inr n \<and> i * 4096 \<le> 5000 \<and> 5000 < i * 4096 + n \<and> 0 < n \<and> n \<le> (4096::int))"
  by (rule items_cover_message) (simp_all add: items_Inr cdiv_def)

end
