(* ===== verification/Swing.thy ===== *)
theory Swing
  imports Complex_Main RelayFacts Wire
begin

unbundle bit_operations_syntax

text \<open>
  The Swing all-reduce: peers, chunk owners and phases (\<open>protocol.py\<close>), the reduce-scatter steps and the
  relay-safe message size (\<open>swing_plan.py\<close>).
\<close>

section \<open>Peers and chunk owners\<close>

definition swing_world_steps :: "int \<Rightarrow> py_error + int" where
  "swing_world_steps world = (if world < 2 \<or> world > 16 \<or> world AND (world - 1) \<noteq> 0
    then Inl (ProtocolError ''the Swing schedule needs a power-of-two group of 2-16 ranks'' [world])
    else Inr (bit_len world - 1))"

definition swing_offset :: "nat \<Rightarrow> int" where
  "swing_offset step = (1 - (- 2) ^ (step + 1)) div 3"

definition swing_peer :: "int \<Rightarrow> int \<Rightarrow> nat \<Rightarrow> py_error + int" where
  "swing_peer world rank step = bind_res (swing_world_steps world) (\<lambda>_.
    Inr ((if rank mod 2 = 0 then rank + swing_offset step else rank - swing_offset step) mod world))"

text \<open>
  \<open>reach world left rank step\<close>: the ranks \<open>rank\<close> answers for from \<open>step\<close> on, with \<open>left\<close> steps to go
  (the source's \<open>steps - step\<close>).
\<close>

fun reach :: "int \<Rightarrow> nat \<Rightarrow> int \<Rightarrow> nat \<Rightarrow> py_error + int set" where
  "reach world 0 rank step = Inr {rank}"
| "reach world (Suc left) rank step =
    bind_res (reach world left rank (step + 1)) (\<lambda>mine.
    bind_res (swing_peer world rank step) (\<lambda>peer.
    bind_res (reach world left peer (step + 1)) (\<lambda>theirs. Inr (mine \<union> theirs))))"

fun walk_owners :: "int \<Rightarrow> nat \<Rightarrow> int \<Rightarrow> nat \<Rightarrow> py_error + int list" where
  "walk_owners world 0 rank step = Inr [rank]"
| "walk_owners world (Suc left) rank step =
    bind_res (reach world left rank (step + 1)) (\<lambda>mine.
    bind_res (swing_peer world rank step) (\<lambda>peer.
    bind_res (reach world left peer (step + 1)) (\<lambda>theirs.
    let (a, b) = (if Min theirs < Min mine then (Min theirs, Min mine) else (Min mine, Min theirs)) in
    bind_res (walk_owners world left a (step + 1)) (\<lambda>xs.
    bind_res (walk_owners world left b (step + 1)) (\<lambda>ys. Inr (xs @ ys))))))"

definition swing_chunk_owners :: "int \<Rightarrow> py_error + int list" where
  "swing_chunk_owners world = bind_res (swing_world_steps world) (\<lambda>steps. walk_owners world (nat steps) 0 0)"

definition swing_span :: "(int, int) dict \<Rightarrow> int set \<Rightarrow> py_error + int \<times> int" where
  "swing_span position ranks =
    bind_res (map_res (\<lambda>r. case dget position r of None \<Rightarrow> Inl (KeyErr ''position'' [r]) | Some p \<Rightarrow> Inr p)
      (sorted_list_of_set ranks)) (\<lambda>found.
    let places = sort found in
    if places \<noteq> [hd places..last places] then Inl (ProtocolError ''Swing ranges must be contiguous'' [])
    else Inr (hd places, last places + 1))"

definition swing_phase ::
  "int \<Rightarrow> nat \<Rightarrow> (int, int) dict \<Rightarrow> int \<Rightarrow> int \<Rightarrow> nat \<Rightarrow> py_error + Descriptor" where
  "swing_phase world steps position rank namespace step =
    bind_res (swing_peer world rank step) (\<lambda>peer.
    bind_res (reach world (steps - (step + 1)) (if namespace = 0 then peer else rank) (step + 1)) (\<lambda>ranks.
    bind_res (swing_span position ranks) (\<lambda>(first, past).
    Inr \<lparr>dfirst = first, dend = past, dpeer = peer, dnamespace = namespace\<rparr>)))"

definition swing_phases :: "int \<Rightarrow> int \<Rightarrow> py_error + Descriptor list" where
  "swing_phases world rank =
    bind_res (swing_world_steps world) (\<lambda>steps.
    bind_res (swing_chunk_owners world) (\<lambda>owners.
    let position = map (\<lambda>(i, owner). (owner, int i)) (List.enumerate 0 owners) in
    bind_res (map_res (swing_phase world (nat steps) position rank 0) [0..<nat steps]) (\<lambda>scatter.
    bind_res (map_res (swing_phase world (nat steps) position rank 1) (rev [0..<nat steps])) (\<lambda>gather.
    Inr (scatter @ gather)))))"

section \<open>Steps of the plan\<close>

record SwingStep =
  sw_step :: int
  sw_peer :: int
  sw_send :: "int \<times> int"
  sw_keep :: "int \<times> int"

definition swing_available :: "int \<Rightarrow> bool \<Rightarrow> bool" where
  "swing_available world multi_phase \<longleftrightarrow> multi_phase \<and> 2 \<le> world \<and> world \<le> 16 \<and> world AND (world - 1) = 0"

definition swing_step :: "Descriptor list \<Rightarrow> nat \<Rightarrow> py_error + SwingStep" where
  "swing_step phases step =
    (let steps = length phases div 2; sent = phases ! step; kept = phases ! (2 * steps - 1 - step) in
     if dpeer sent \<noteq> dpeer kept \<or> dnamespace sent \<noteq> 0 \<or> dnamespace kept \<noteq> 1
     then Inl (ProtocolError ''Swing phases do not pair'' [int step])
     else Inr \<lparr>sw_step = int step, sw_peer = dpeer sent, sw_send = (dfirst sent, dend sent),
       sw_keep = (dfirst kept, dend kept)\<rparr>)"

definition swing_steps :: "int \<Rightarrow> int \<Rightarrow> py_error + SwingStep list" where
  "swing_steps world rank = bind_res (swing_phases world rank) (\<lambda>phases.
    map_res (swing_step phases) [0..<length phases div 2])"

definition phase_count :: "int \<Rightarrow> int" where
  "phase_count world = 2 * (bit_len world - 1)"

definition descriptor_words :: "int \<Rightarrow> int \<Rightarrow> py_error + int list" where
  "descriptor_words world rank = bind_res (swing_phases world rank) (map_res (\<lambda>d. Descriptor_word d (Some world)))"

definition phase_range :: "int \<Rightarrow> int \<Rightarrow> int \<Rightarrow> py_error + int \<times> int \<times> int" where
  "phase_range world rank phase = bind_res (swing_steps world rank) (\<lambda>steps.
    let n = int (length steps) in
    if \<not> (0 \<le> phase \<and> phase < 2 * n) then Inl (ProtocolError ''a Swing op has no such phase'' [world, phase])
    else if phase < n then (let s = steps ! nat phase in Inr (sw_peer s, sw_send s))
    else (let s = steps ! nat (2 * n - 1 - phase) in Inr (sw_peer s, sw_keep s)))"

definition phase_distances :: "int \<Rightarrow> int list" where
  "phase_distances world =
    (let forward = map (\<lambda>step. min (\<bar>swing_offset step\<bar> mod world) (world - \<bar>swing_offset step\<bar> mod world))
       [0..<nat (phase_count world div 2)]
     in forward @ rev forward)"

definition position_packs :: "int \<Rightarrow> int \<Rightarrow> int \<Rightarrow> int \<Rightarrow> int \<times> int" where
  "position_packs packs world first past = (first * packs div world, past * packs div world)"

section \<open>Relay-safe messages\<close>

text \<open>
  The chunk positions and the slack bytes the lanes through one queue post in one op: two packs for every
  range.  The source keeps fractions of the message as floats; here the positions are counted and
  divided exactly.
\<close>

definition member_load :: "SwingStep list list \<Rightarrow> int \<times> int \<times> int \<Rightarrow> py_error + (int \<times> int)" where
  "member_load plans m = (case m of (rank, peer, lane) \<Rightarrow>
    bind_res (py_index plans rank) (\<lambda>steps.
    let ranges = filter (\<lambda>(first, past). past > first)
          (concat (map (\<lambda>s. if sw_peer s \<noteq> peer then [] else [sw_send s, sw_keep s]) steps))
    in Inr (sum_list (map (\<lambda>(first, past). past - first) ranges), 2 * PACK_BYTES * int (length ranges))))"

definition queue_load :: "SwingStep list list \<Rightarrow> (int \<times> int \<times> int) list \<Rightarrow> py_error + (int \<times> int)" where
  "queue_load plans members = bind_res (map_res (member_load plans) members) (\<lambda>loads.
    Inr (sum_list (map fst loads), sum_list (map snd loads)))"

definition swing_bound :: "int \<Rightarrow> int \<Rightarrow> int \<Rightarrow> int \<times> int \<Rightarrow> rat" where
  "swing_bound queue_bytes world lanes e = (let (positions, slack) = e in
    (of_int (3 * queue_bytes) / 4 - of_int slack) / (of_int positions / of_int (world * lanes)))"

definition relay_safe_message_bytes ::
  "Role list \<Rightarrow> role_names \<Rightarrow> Layout \<Rightarrow> route_map list \<Rightarrow> int \<Rightarrow> int \<Rightarrow> py_error + int option" where
  "relay_safe_message_bytes R names L maps lanes queue_bytes =
    (let world = layout_world L in
     if \<not> swing_available world True
     then Inl (ProtocolError ''the Swing all-reduce needs a power-of-two group'' [world])
     else bind_res (relay_queues R names L maps) (\<lambda>queues.
       bind_res (map_res (swing_steps world) (py_range world)) (\<lambda>plans.
       bind_res (map_res (\<lambda>(_, members). queue_load plans members) queues) (\<lambda>loads.
       let crossing = filter (\<lambda>(positions, _). positions \<noteq> 0) loads in
       if crossing = [] then Inr None
       else if lanes = 0 then Inl (RuntimeErr ''ZeroDivisionError'' [])
       else let limit = Min (set (map (swing_bound queue_bytes world lanes) crossing))
         in Inr (Some (max PACK_BYTES ((if 0 \<le> limit then \<lfloor>limit\<rfloor> else \<lceil>limit\<rceil>) div PACK_BYTES * PACK_BYTES)))))))"

section \<open>One op, step by step\<close>

text \<open>
  What the ranks hold of one chunk position during an op: for every rank, the ranks whose input its value
  adds.  In every phase a rank receives from the peer of that phase, when the peer sends to it and its
  range has the position: a reduce-scatter phase adds the received partial sum to its own, an all-gather
  phase takes the received value over.  All ranks send before any receives.
\<close>

definition receive :: "int \<Rightarrow> int list list \<Rightarrow> Descriptor list \<Rightarrow> int \<times> int list \<times> Descriptor \<Rightarrow> int list" where
  "receive p st ds e = (case e of (rank, own, d) \<Rightarrow>
    let got = st ! nat (dpeer d); sent = ds ! nat (dpeer d) in
    if dpeer sent = rank \<and> dfirst sent \<le> p \<and> p < dend sent
    then (if dnamespace sent = 0 then own @ got else got) else own)"

definition swing_round :: "int \<Rightarrow> int list list \<Rightarrow> Descriptor list \<Rightarrow> int list list" where
  "swing_round p st ds = map (receive p st ds) (zip (py_range (int (length st))) (zip st ds))"

text \<open>The descriptors of every network phase, rank after rank, and the op they make of one position.\<close>

definition swing_rounds :: "int \<Rightarrow> py_error + Descriptor list list" where
  "swing_rounds world = bind_res (map_res (swing_phases world) (py_range world)) (\<lambda>phases.
    Inr (map (\<lambda>k. map (\<lambda>ds. ds ! k) phases) [0..<nat (phase_count world)]))"

definition swing_position :: "int \<Rightarrow> Descriptor list list \<Rightarrow> int \<Rightarrow> int list list" where
  "swing_position world rounds p = foldl (swing_round p) (map (\<lambda>r. [r]) (py_range world)) rounds"

end
