(* ===== verification/SwingFacts.thy ===== *)
theory SwingFacts
  imports Swing
begin

text \<open>
  The Swing schedule's promises: peers pair up, every position of every rank ends as the sum of all
  ranks' inputs, each once, and the relay-safe size keeps every queue within its share.
\<close>

section \<open>Worlds\<close>

lemma swing_worlds:
  assumes "swing_world_steps world = Inr steps"
  shows "world = 2 \<or> world = 4 \<or> world = 8 \<or> world = 16"
proof -
  have w: "2 \<le> world" "world \<le> 16" "is_pow2 world"
    using assms by (auto simp: swing_world_steps_def is_pow2_def split: if_splits)
  obtain k where k: "world = 2 ^ k" using pow2_of_is_pow2 [OF w(3)] by blast
  have "k \<noteq> 0" using w(1) unfolding k by (cases k) auto
  moreover have "k < 5"
  proof (rule ccontr)
    assume "\<not> k < 5"
    then have "(2::int) ^ 5 \<le> 2 ^ k" by (intro power_increasing) auto
    then show False using w(2) k by simp
  qed
  ultimately have "k = 1 \<or> k = 2 \<or> k = 3 \<or> k = 4" by auto
  then show ?thesis using k by auto
qed

lemma swing_world_even: "swing_world_steps world = Inr steps \<Longrightarrow> even world \<and> 2 \<le> world"
  using swing_worlds by fastforce

lemma swing_offset_odd: "odd (swing_offset step)"
proof (induction step)
  case (Suc n)
  have three: "(1 - (- 2) ^ (m + 1)) mod 3 = (0::int)" for m
  proof (induction m)
    case (Suc m)
    have "(1 - (- 2) ^ (Suc m + 1)) = - 2 * (1 - (- 2) ^ (m + 1)) + (3::int)" by simp
    then show ?case using Suc by presburger
  qed simp
  have e: "3 * swing_offset m = 1 - (- 2) ^ (m + 1)" for m
    using three [of m] by (simp add: swing_offset_def mod_eq_0_iff_dvd)
  have "3 * swing_offset (Suc n) = - 2 * (3 * swing_offset n) + 3" unfolding e by simp
  then have "swing_offset (Suc n) = - 2 * swing_offset n + 1" by linarith
  then show ?case by simp
qed (simp add: swing_offset_def)

section \<open>Execution, position by position\<close>

text \<open>Checks as named functions, so that evaluation meets them with their arguments only.\<close>

definition all_ranks_once :: "int \<Rightarrow> int list \<Rightarrow> bool" where
  "all_ranks_once world xs \<longleftrightarrow> sort xs = py_range world"

definition position_complete :: "int \<Rightarrow> Descriptor list list \<Rightarrow> int \<Rightarrow> bool" where
  "position_complete world rounds p \<longleftrightarrow> list_all (all_ranks_once world) (swing_position world rounds p)"

definition op_complete :: "int \<Rightarrow> bool" where
  "op_complete world \<longleftrightarrow> (case swing_rounds world of
     Inr rounds \<Rightarrow> list_all (position_complete world rounds) (py_range world)
   | Inl _ \<Rightarrow> False)"

lemma op_complete_2: "op_complete 2" by code_simp
lemma op_complete_4: "op_complete 4" by code_simp
lemma op_complete_8: "op_complete 8" by code_simp
lemma op_complete_16: "op_complete 16" by code_simp

lemma op_complete_all: "swing_world_steps world = Inr steps \<Longrightarrow> op_complete world"
  using swing_worlds op_complete_2 op_complete_4 op_complete_8 op_complete_16 by blast

lemma sorted_ranks_once: "all_ranks_once world xs \<longleftrightarrow> mset xs = mset (py_range world)"
  unfolding all_ranks_once_def
  by (metis mset_sort sorted_py_range properties_for_sort)

section \<open>Relay load\<close>

lemma member_load_nonneg: "member_load plans m = Inr (p, s) \<Longrightarrow> 0 \<le> p"
  by (cases m) (auto simp: member_load_def bind_res_Inr Let_def intro!: sum_list_nonneg)

lemma queue_load_nonneg:
  assumes "queue_load plans members = Inr (p, s)"
  shows "0 \<le> p"
proof -
  obtain loads where l: "map_res (member_load plans) members = Inr loads" and p: "p = sum_list (map fst loads)"
    using assms by (auto simp: queue_load_def bind_res_Inr)
  have each: "0 \<le> fst e" if e: "e \<in> set loads" for e
  proof -
    obtain m where "member_load plans m = Inr e" using map_res_in [OF l e] by blast
    then show ?thesis using member_load_nonneg [of plans m "fst e" "snd e"] by simp
  qed
  show ?thesis unfolding p by (rule sum_list_nonneg) (use each in auto)
qed

section \<open>Properties\<close>

text \<open>
  At every step of a Swing all-reduce the ranks pair up: the peer of a rank is another rank of the
  group, of the other parity, and the rank is its peer's peer.
\<close>

theorem swing_peers_pair:
  assumes p: "swing_peer world rank step = Inr peer" and r: "0 \<le> rank" "rank < world"
  shows "0 \<le> peer \<and> peer < world \<and> odd (peer - rank) \<and> swing_peer world peer step = Inr rank"
proof -
  obtain steps where s: "swing_world_steps world = Inr steps"
    and pe: "peer = (if rank mod 2 = 0 then rank + swing_offset step else rank - swing_offset step) mod world"
    using p by (auto simp: swing_peer_def bind_res_Inr)
  have w: "even world" "2 \<le> world" using swing_world_even [OF s] by auto
  let ?d = "if even rank then swing_offset step else - swing_offset step"
  have e: "peer = (rank + ?d) mod world" using pe by (simp add: mod2_eq_if)
  have "peer mod 2 = (rank + ?d) mod 2" using e w(1) by (simp add: mod_mod_cancel)
  then have "even peer \<longleftrightarrow> even (rank + ?d)" by (metis even_iff_mod_2_eq_zero)
  then have par: "odd (peer - rank)" using swing_offset_odd [of step] by (cases "even rank") simp_all
  have range: "0 \<le> peer" "peer < world" using e w by simp_all
  have "(peer - ?d) mod world = rank mod world" unfolding e by (simp add: mod_diff_left_eq)
  also have "\<dots> = rank" using r by simp
  finally have "(peer - ?d) mod world = rank" .
  moreover have "(if peer mod 2 = 0 then peer + swing_offset step else peer - swing_offset step) = peer - ?d"
    using par by (cases "even rank") (auto simp: mod2_eq_if)
  ultimately have "swing_peer world peer step = Inr rank" using s by (simp add: swing_peer_def)
  with range par show ?thesis by blast
qed

theorem swing_peers_pair_witness: "swing_peer 8 3 2 = Inr 0 \<and> swing_peer 8 0 2 = Inr 3"
proof -
  have p: "swing_peer 8 3 2 = Inr 0" by code_simp
  from swing_peers_pair [OF p] p show ?thesis by simp
qed

text \<open>
  C39: the Swing op is an all-reduce: run over its phases (reduce-scatter, then all-gather in reverse),
  every rank ends with every chunk position holding every rank's input exactly once.
\<close>

theorem swing_all_reduce:
  assumes s: "swing_world_steps world = Inr steps"
  shows "\<exists>rounds. swing_rounds world = Inr rounds \<and> (\<forall>p\<in>{0..<world}. \<forall>held\<in>set (swing_position world rounds p).
    mset held = mset (py_range world))"
proof -
  obtain rounds where "swing_rounds world = Inr rounds" "list_all (position_complete world rounds) (py_range world)"
    using op_complete_all [OF s] by (auto simp: op_complete_def split: sum.splits)
  then show ?thesis
    by (auto simp: list_all_iff position_complete_def sorted_ranks_once)
qed

theorem swing_all_reduce_witness:
  "\<exists>rounds. swing_rounds 8 = Inr rounds \<and> (\<forall>held\<in>set (swing_position 8 rounds 5). mset held = mset (py_range 8))"
proof -
  have "swing_world_steps 8 = Inr 3" by code_simp
  from swing_all_reduce [OF this] show ?thesis by force
qed

text \<open>
  The relay-safe size keeps every relay hairpin queue within three quarters of its bytes: when the
  result is above one pack, every lane's stripe of every phase through a queue, two packs of slack each
  included, fits the share.
\<close>

theorem relay_safe_fits:
  assumes a: "relay_safe_message_bytes R names L maps lanes queue_bytes = Inr (Some M)" and "16 < M" "0 < lanes"
    and q: "relay_queues R names L maps = Inr queues" and m: "(key, members) \<in> set queues"
    and plans: "map_res (swing_steps (layout_world L)) (py_range (layout_world L)) = Inr plans"
    and load: "queue_load plans members = Inr (positions, slack)" and pos: "positions \<noteq> 0"
  shows "0 < positions \<and> 4 * (positions * M + slack * (layout_world L * lanes)) \<le> 3 * queue_bytes * (layout_world L * lanes)"
proof -
  let ?W = "layout_world L"
  have W: "2 \<le> ?W" and loads: "\<exists>loads. map_res (\<lambda>(_, members). queue_load plans members) queues = Inr loads
      \<and> (let crossing = filter (\<lambda>(positions, _). positions \<noteq> 0) loads;
           limit = Min (set (map (swing_bound queue_bytes ?W lanes) crossing))
         in crossing \<noteq> [] \<and> M = max 16 ((if 0 \<le> limit then \<lfloor>limit\<rfloor> else \<lceil>limit\<rceil>) div 16 * 16))"
    using a q plans \<open>0 < lanes\<close>
    by (auto simp: relay_safe_message_bytes_def bind_res_Inr Let_def swing_available_def split: if_splits)
  obtain loads where l: "map_res (\<lambda>(_, members). queue_load plans members) queues = Inr loads"
    and M: "M = max 16 ((if 0 \<le> Min (set (map (swing_bound queue_bytes ?W lanes) (filter (\<lambda>(positions, _). positions \<noteq> 0) loads)))
        then \<lfloor>Min (set (map (swing_bound queue_bytes ?W lanes) (filter (\<lambda>(positions, _). positions \<noteq> 0) loads)))\<rfloor>
        else \<lceil>Min (set (map (swing_bound queue_bytes ?W lanes) (filter (\<lambda>(positions, _). positions \<noteq> 0) loads)))\<rceil>) div 16 * 16)"
    using loads by (auto simp: Let_def)
  let ?S = "set (map (swing_bound queue_bytes ?W lanes) (filter (\<lambda>(positions, _). positions \<noteq> 0) loads))"
  define limit where "limit = Min ?S"
  obtain i where i: "i < length queues" "queues ! i = (key, members)" using m by (metis in_set_conv_nth)
  have "(positions, slack) = loads ! i" using map_res_nth [OF l i(1)] i(2) load by simp
  then have "(positions, slack) \<in> set loads" using i(1) map_res_length [OF l] by simp
  then have "swing_bound queue_bytes ?W lanes (positions, slack) \<in> ?S" using pos by force
  then have lim: "limit \<le> swing_bound queue_bytes ?W lanes (positions, slack)" unfolding limit_def by (intro Min_le) auto
  have nn: "0 \<le> limit"
  proof (rule ccontr)
    assume "\<not> 0 \<le> limit"
    then have "\<lceil>limit\<rceil> \<le> 0" by simp
    moreover have "\<lceil>limit\<rceil> div 16 * 16 + \<lceil>limit\<rceil> mod 16 = \<lceil>limit\<rceil>" "0 \<le> \<lceil>limit\<rceil> mod 16" by simp_all
    ultimately have "\<lceil>limit\<rceil> div 16 * 16 \<le> 0" by linarith
    then show False using M \<open>16 < M\<close> \<open>\<not> 0 \<le> limit\<close> unfolding limit_def [symmetric] by simp
  qed
  then have "M = \<lfloor>limit\<rfloor> div 16 * 16" using M \<open>16 < M\<close> unfolding limit_def [symmetric] by (auto simp: max_def split: if_splits)
  moreover have "\<lfloor>limit\<rfloor> div 16 * 16 + \<lfloor>limit\<rfloor> mod 16 = \<lfloor>limit\<rfloor>" "0 \<le> \<lfloor>limit\<rfloor> mod 16" by simp_all
  ultimately have "M \<le> \<lfloor>limit\<rfloor>" by linarith
  then have below: "of_int M \<le> limit" by (simp add: le_floor_iff)
  have p0: "0 < positions" using queue_load_nonneg [OF load] pos by simp
  have d: "0 < (of_int positions / of_int (?W * lanes) :: rat)" using p0 W \<open>0 < lanes\<close> by simp
  have "of_int M \<le> (of_int (3 * queue_bytes) / 4 - of_int slack) / (of_int positions / of_int (?W * lanes) :: rat)"
    using below lim by (simp add: swing_bound_def)
  then have "of_int M * (of_int positions / of_int (?W * lanes)) \<le> of_int (3 * queue_bytes) / 4 - (of_int slack :: rat)"
    by (rule iffD1 [OF pos_le_divide_eq [OF d]])
  then have "of_int M * of_int positions \<le> (of_int (3 * queue_bytes) / 4 - of_int slack) * (of_int (?W * lanes) :: rat)"
    using W \<open>0 < lanes\<close> by (simp add: pos_divide_le_eq)
  then have "of_int (4 * (positions * M + slack * (?W * lanes))) \<le> (of_int (3 * queue_bytes * (?W * lanes)) :: rat)"
    by (simp add: algebra_simps)
  then show ?thesis using p0 by (simp only: of_int_le_iff)
qed

text \<open>A path of four: the opposite ends are peers of a Swing step.\<close>

definition path4 :: Layout where
  "path4 = \<lparr>l_fabric = \<lparr>cables = [\<lparr>ca = 0, ca_port = 0, cb = 1, cb_port = 1\<rparr>, \<lparr>ca = 1, ca_port = 0, cb = 2, cb_port = 1\<rparr>,
      \<lparr>ca = 2, ca_port = 0, cb = 3, cb_port = 1\<rparr>]\<rparr>, l_positions = [0, 1, 2, 3]\<rparr>"

definition path4_maps :: "route_map list" where
  "path4_maps = (case derive_routes DEFAULT_ROLES path4 2 of Inr G \<Rightarrow> route_maps G | Inl _ \<Rightarrow> [])"

definition path4_queues :: queues where
  "path4_queues = (case relay_queues DEFAULT_ROLES None path4 path4_maps of Inr q \<Rightarrow> q | Inl _ \<Rightarrow> [])"

definition path4_plans :: "SwingStep list list" where
  "path4_plans = (case map_res (swing_steps 4) (py_range 4) of Inr p \<Rightarrow> p | Inl _ \<Rightarrow> [])"

lemma path4_values:
  "Fabric_path [0, 1, 2, 3] = Inr (l_fabric path4)"
  "relay_safe_message_bytes DEFAULT_ROLES None path4 path4_maps 2 524288 = Inr (Some 1572608)"
  "relay_queues DEFAULT_ROLES None path4 path4_maps = Inr path4_queues"
  "path4_queues \<noteq> []"
  "map_res (swing_steps 4) (py_range 4) = Inr path4_plans"
  "queue_load path4_plans (snd (hd path4_queues)) = Inr (2, 64)"
  "layout_world path4 = 4"
  by code_simp+

theorem relay_safe_fits_witness: "4 * (2 * 1572608 + 64 * (4 * 2)) \<le> 3 * 524288 * (layout_world path4 * 2)"
proof -
  have k: "(fst (hd path4_queues), snd (hd path4_queues)) \<in> set path4_queues" using path4_values(4) by simp
  show ?thesis
    using relay_safe_fits [OF path4_values(2) _ _ path4_values(3) k _ path4_values(6)] path4_values(5,7) by simp
qed

end
