(* ===== verification/Posting.thy ===== *)
theory Posting
  imports RelayFacts Wire
begin

text \<open>
  Posting orders of the progress thread (\<open>posting.py\<close> and the posting orders of \<open>protocol.py\<close>), the
  choice of an all-reduce algorithm and the check of message sizes.
\<close>

section \<open>Orders by rank distance\<close>

text \<open>One folded distance: the clockwise peer, then the counter-clockwise one when it differs.\<close>

definition at_distance :: "int \<Rightarrow> int \<Rightarrow> int \<Rightarrow> int list" where
  "at_distance rank world distance = (let cw = (rank + distance) mod world; ccw = (rank - distance) mod world in
    if ccw \<noteq> cw then [cw, ccw] else [cw])"

definition ring_farthest :: "int \<Rightarrow> int \<Rightarrow> int list" where
  "ring_farthest rank world = concat (map (at_distance rank world) (rev [1..world div 2]))"

definition ranked_peers :: "int \<Rightarrow> int \<Rightarrow> int list" where
  "ranked_peers rank world = filter (\<lambda>peer. peer \<noteq> rank) (py_range world)"

definition post_order :: "int \<Rightarrow> int \<Rightarrow> string option \<Rightarrow> py_error + int list" where
  "post_order rank world text =
    (case map_option strip text of
       None \<Rightarrow> Inr (ranked_peers rank world)
     | Some t \<Rightarrow>
         if t = [] \<or> t = ''rank'' then Inr (ranked_peers rank world)
         else if t = ''ring-farthest'' then Inr (ring_farthest rank world)
         else bind_res (map_res (\<lambda>w. case py_int w of Some i \<Rightarrow> Inr i
             | None \<Rightarrow> Inl (ProtocolError ''SIRCL_POST_ORDER is not rank, ring-farthest or a peer list'' []))
             (split_on (CHR '','') t)) (\<lambda>peers.
           if length peers \<noteq> length (ranked_peers rank world) \<or> set peers \<noteq> set (ranked_peers rank world)
           then Inl (ProtocolError ''SIRCL_POST_ORDER must name every peer exactly once'' [rank])
           else Inr peers))"

section \<open>Orders by relays\<close>

definition device_relays ::
  "Role list \<Rightarrow> role_names \<Rightarrow> Layout \<Rightarrow> int \<Rightarrow> int \<Rightarrow> int \<Rightarrow> string \<Rightarrow> py_error + int" where
  "device_relays R names L here rank peer device = (case role_of R names device of
     None \<Rightarrow> Inl (RouteError ''device of the lane has no known role'' [rank, peer])
   | Some role \<Rightarrow>
       bind_res (py_index (l_positions L) peer) (\<lambda>there.
       case walk (l_fabric L) here (role_port role) there (int (length (fabric_positions (l_fabric L)))) of
         None \<Rightarrow> Inl (RouteError ''the lane does not reach the peer on this layout'' [rank, peer])
       | Some steps \<Rightarrow> Inr (int (length steps) - 1)))"

definition relays_per_lane ::
  "Role list \<Rightarrow> role_names \<Rightarrow> Layout \<Rightarrow> int \<Rightarrow> route_map \<Rightarrow> py_error + (int, int list) dict" where
  "relays_per_lane R names L rank routes =
    bind_res (py_index (l_positions L) rank) (\<lambda>here.
    map_res (\<lambda>(peer, devices). bind_res (map_res (device_relays R names L here rank peer) devices)
      (\<lambda>counts. Inr (peer, counts))) (ditems routes))"

text \<open>The two queues of one relay count, popped in turn.\<close>

fun alternate :: "'a list \<Rightarrow> 'a list \<Rightarrow> 'a list" where
  "alternate [] ys = ys"
| "alternate (x # xs) [] = x # xs"
| "alternate (x # xs) (y # ys) = x # y # alternate xs ys"

definition first_port :: "Role list \<Rightarrow> role_names \<Rightarrow> int \<times> string list \<Rightarrow> py_error + int \<times> int" where
  "first_port R names e = bind_res (py_index (snd e) 0) (\<lambda>device. case role_of R names device of
     None \<Rightarrow> Inl (RuntimeErr ''AttributeError'' []) | Some role \<Rightarrow> Inr (fst e, role_port role))"

definition longest :: "int \<times> int list \<Rightarrow> py_error + int \<times> int" where
  "longest e = (if snd e = [] then Inl (ValueErr ''max() of an empty sequence'' []) else Inr (fst e, Max (set (snd e))))"

definition peers_at :: "(int, int) dict \<Rightarrow> (int, int) dict \<Rightarrow> int \<Rightarrow> int \<Rightarrow> int list" where
  "peers_at ports longs n port = sort (map fst (filter (\<lambda>(peer, k). k = n \<and> dget ports peer = Some port) longs))"

definition farthest_first :: "Role list \<Rightarrow> role_names \<Rightarrow> Layout \<Rightarrow> int \<Rightarrow> route_map \<Rightarrow> py_error + int list" where
  "farthest_first R names L rank routes =
    bind_res (relays_per_lane R names L rank routes) (\<lambda>relays.
    bind_res (map_res (first_port R names) routes) (\<lambda>ports.
    bind_res (map_res longest relays) (\<lambda>longs.
    Inr (concat (map (\<lambda>n. alternate (peers_at ports longs n 0) (peers_at ports longs n 1))
      (rev (sorted_list_of_set (snd ` set longs))))))))"

definition resolve ::
  "Role list \<Rightarrow> role_names \<Rightarrow> string option \<Rightarrow> int \<Rightarrow> int \<Rightarrow> Layout option \<Rightarrow> route_map option \<Rightarrow> py_error + int list" where
  "resolve R names order rank world layout routes =
    (let given = strip (case order of None \<Rightarrow> ''rank'' | Some s \<Rightarrow> if s = [] then ''rank'' else s);
         text = (if given = [] then ''rank'' else given)
     in if text = ''farthest'' then
          (case (layout, routes) of
             (Some L, Some rm) \<Rightarrow> bind_res (farthest_first R names L rank rm) (\<lambda>peers.
               if sort peers \<noteq> ranked_peers rank world
               then Inl (ValueErr ''the route map does not name every peer'' [rank, world]) else Inr peers)
           | _ \<Rightarrow> Inl (ValueErr ''the farthest posting order needs the session's layout and route map'' []))
        else post_order rank world (Some text))"

section \<open>Algorithm choice and sizes\<close>

definition ALGORITHMS :: "string list" where
  "ALGORITHMS = [''oneshot'', ''twoshot'', ''swing'']"

definition select_algorithm ::
  "int \<Rightarrow> string \<Rightarrow> string \<Rightarrow> int \<Rightarrow> int \<Rightarrow> (string, bool) dict option \<Rightarrow> py_error + string" where
  "select_algorithm nbytes algorithm large_algorithm oneshot_max_bytes swing_above_bytes given =
    (let available = (case given of Some (e # es) \<Rightarrow> e # es
           | _ \<Rightarrow> [(''oneshot'', True), (''twoshot'', True), (''swing'', True)]);
         offers = (\<lambda>name. dget_or available name False)
     in if algorithm \<noteq> ''auto''
        then (if algorithm \<notin> set ALGORITHMS then Inl (ProtocolError ''unknown all-reduce algorithm'' []) else Inr algorithm)
        else if nbytes \<le> oneshot_max_bytes \<or> \<not> offers large_algorithm then Inr ''oneshot''
        else if swing_above_bytes \<noteq> 0 \<and> nbytes > swing_above_bytes \<and> offers ''swing'' then Inr ''swing''
        else Inr large_algorithm)"

definition parse_sizes :: "int list \<Rightarrow> py_error + int list" where
  "parse_sizes values = map_res (\<lambda>v. if v \<le> 0 \<or> v mod PACK_BYTES \<noteq> 0
    then Inl (ProtocolError ''message sizes are positive multiples of 16 bytes'' [v]) else Inr v) values"

end
