(* ===== verification/PostingFacts.thy ===== *)
theory PostingFacts
  imports Posting
begin

text \<open>
  Every posting order names every peer once; on a ring in ring order the relay order is the folded rank
  order; the automatic algorithm choice never picks what the session does not offer.
\<close>

section \<open>Folded distances\<close>

lemma at_distance_length:
  assumes "1 \<le> d" "2 * d \<le> world"
  shows "length (at_distance rank world d) = (if 2 * d = world then 1 else 2)"
proof -
  have "(rank - d) mod world = (rank + d) mod world \<longleftrightarrow> world dvd (rank - d) - (rank + d)"
    by (simp add: mod_eq_dvd_iff)
  also have "(rank - d) - (rank + d) = - (2 * d)" by simp
  also have "world dvd - (2 * d) \<longleftrightarrow> world dvd 2 * d" by (rule dvd_minus_iff)
  also have "\<dots> \<longleftrightarrow> 2 * d = world"
  proof
    assume "world dvd 2 * d"
    then have "world \<le> 2 * d" by (rule zdvd_imp_le) (use assms in simp)
    then show "2 * d = world" using assms by simp
  qed simp
  finally show ?thesis by (simp add: at_distance_def Let_def)
qed

lemma ring_farthest_length:
  assumes "1 \<le> world"
  shows "int (length (ring_farthest rank world)) = world - 1"
proof (cases "world = 1")
  case False
  define n where "n = world div 2"
  have n: "1 \<le> n" "2 * n \<le> world" "world \<le> 2 * n + 1" using assms False by (auto simp: n_def)
  have split: "[1..n] = [1..n - 1] @ [n]" using n by (simp add: upto_rec2)
  have "length (at_distance rank world d) = 2" if "d \<in> set [1..n - 1]" for d
    using at_distance_length [of d world rank] that n by auto
  then have two: "map (length \<circ> at_distance rank world) [1..n - 1] = map (\<lambda>_. 2) [1..n - 1]" by (intro map_cong) auto
  have "sum_list (map (length \<circ> at_distance rank world) [1..n - 1]) = nat (n - 1) * 2"
    unfolding two by (simp add: sum_list_triv)
  moreover have "length (at_distance rank world n) = (if 2 * n = world then 1 else 2)"
    by (rule at_distance_length) (use n in auto)
  ultimately have "length (ring_farthest rank world) = nat (n - 1) * 2 + (if 2 * n = world then 1 else 2)"
    unfolding ring_farthest_def n_def [symmetric] split by (simp add: length_concat rev_map [symmetric] sum_list_rev)
  then show ?thesis using n by auto
qed (simp add: ring_farthest_def)

lemma ring_farthest_covers:
  assumes "0 \<le> rank" "rank < world" "0 \<le> p" "p < world" "p \<noteq> rank"
  shows "p \<in> set (ring_farthest rank world)"
proof -
  define d where "d = (p - rank) mod world"
  have "0 \<le> d" "d < world" using assms by (simp_all add: d_def)
  moreover have "d \<noteq> 0"
  proof
    assume "d = 0"
    then have "world dvd p - rank" by (simp add: d_def mod_eq_0_iff_dvd)
    moreover have "\<bar>p - rank\<bar> < world" "p - rank \<noteq> 0" using assms by auto
    ultimately show False using zdvd_not_zless [of "\<bar>p - rank\<bar>" world] by auto
  qed
  ultimately have d: "1 \<le> d" "d < world" by auto
  have cw: "(rank + d) mod world = p" using assms by (simp add: d_def mod_add_right_eq)
  have "(rank - (world - d)) mod world = (rank + d - world) mod world" by (simp add: algebra_simps)
  also have "\<dots> = (rank + d) mod world" by simp
  finally have ccw: "(rank - (world - d)) mod world = p" using cw by simp
  have "\<exists>k\<in>set [1..world div 2]. p \<in> set (at_distance rank world k)"
  proof (cases "d \<le> world div 2")
    case True
    then show ?thesis using d cw by (intro bexI [of _ d]) (auto simp: at_distance_def Let_def)
  next
    case False
    then have "1 \<le> world - d" "world - d \<le> world div 2" using d by auto
    then show ?thesis using ccw by (intro bexI [of _ "world - d"]) (auto simp: at_distance_def Let_def)
  qed
  then show ?thesis by (auto simp: ring_farthest_def)
qed

lemma peers_card: "0 \<le> rank \<Longrightarrow> rank < world \<Longrightarrow> card ({0..<world} - {rank}) = nat (world - 1)"
  by (simp add: nat_diff_distrib)

text \<open>A list that has every peer and is as long as their number names each once.\<close>

lemma peers_once:
  assumes "0 \<le> rank" "rank < world" and "{0..<world} - {rank} \<subseteq> set ps" "int (length ps) = world - 1"
  shows "distinct ps \<and> set ps = {0..<world} - {rank}"
proof -
  have "card (set ps) \<le> card ({0..<world} - {rank})"
    using card_length [of ps] assms(4) peers_card [OF assms(1,2)] by simp
  then have eq: "{0..<world} - {rank} = set ps" using assms(3) by (intro card_seteq) auto
  then have "card (set ps) = length ps" using peers_card [OF assms(1,2)] assms(4) by simp
  then show ?thesis using eq card_distinct by auto
qed

lemma ring_farthest_peers:
  assumes "0 \<le> rank" "rank < world"
  shows "distinct (ring_farthest rank world) \<and> set (ring_farthest rank world) = {0..<world} - {rank}"
  using assms by (intro peers_once) (auto simp: ring_farthest_length intro!: ring_farthest_covers)

lemma ranked_peers_peers:
  "distinct (ranked_peers rank world) \<and> set (ranked_peers rank world) = {0..<world} - {rank}"
  by (auto simp: ranked_peers_def)

lemma post_order_peers:
  assumes "post_order rank world text = Inr peers" "0 \<le> rank" "rank < world"
  shows "distinct peers \<and> set peers = {0..<world} - {rank}"
proof -
  have n: "int (length (ranked_peers rank world)) = world - 1"
    using ranked_peers_peers [of rank world] distinct_card [of "ranked_peers rank world"] peers_card [OF assms(2,3)] assms(2,3)
    by simp
  consider "peers = ranked_peers rank world" | "peers = ring_farthest rank world"
    | "length peers = length (ranked_peers rank world)" "set peers = set (ranked_peers rank world)"
    using assms(1) by (auto simp: post_order_def bind_res_Inr split: option.splits if_splits)
  then show ?thesis
  proof cases
    case 3
    then show ?thesis using assms(2,3) n ranked_peers_peers [of rank world] by (intro peers_once) auto
  qed (use ranked_peers_peers ring_farthest_peers [OF assms(2,3)] in auto)
qed

section \<open>Properties\<close>

text \<open>
  Whatever posting order a session is configured with (rank, ring-farthest, farthest or an explicit
  list), an order that is accepted names every peer of the rank exactly once.
\<close>

theorem resolve_names_every_peer:
  assumes "resolve R names order rank world layout routes = Inr peers" "0 \<le> rank" "rank < world"
  shows "distinct peers \<and> set peers = {0..<world} - {rank}"
proof -
  consider "sort peers = ranked_peers rank world" | t where "post_order rank world t = Inr peers"
    using assms(1) by (auto simp: resolve_def Let_def bind_res_Inr split: if_splits option.splits)
  then show ?thesis
  proof cases
    case 1
    then show ?thesis using ranked_peers_peers [of rank world] by (metis distinct_sort set_sort)
  qed (rule post_order_peers [OF _ assms(2,3)])
qed

theorem resolve_names_every_peer_witness:
  "resolve DEFAULT_ROLES None (Some ''farthest'') 0 4 (Some ring4) (Some (hd ring4_maps)) = Inr [2, 1, 3]
    \<and> set [2, 1, 3] = {0..<4} - {0 :: int}"
proof -
  have r: "resolve DEFAULT_ROLES None (Some ''farthest'') 0 4 (Some ring4) (Some (hd ring4_maps)) = Inr [2, 1, 3]"
    by code_simp
  from resolve_names_every_peer [OF r] r show ?thesis by simp
qed

text \<open>
  The comparison of the two orders on the ring of \<open>n\<close> Sparks in ring order, with the lanes derived for it.
\<close>

definition orders_agree :: "int \<Rightarrow> route_map list \<Rightarrow> Layout \<Rightarrow> int \<Rightarrow> bool" where
  "orders_agree n maps L rank \<longleftrightarrow> farthest_first DEFAULT_ROLES None L rank (maps ! nat rank) = Inr (ring_farthest rank n)"

definition ring_layout :: "int \<Rightarrow> py_error + Layout" where
  "ring_layout n = bind_res (Fabric_ring n) (\<lambda>F. Layout_new F (py_range n))"

definition orders_agree_on_ring :: "int \<Rightarrow> bool" where
  "orders_agree_on_ring n \<longleftrightarrow> (case ring_layout n of Inl _ \<Rightarrow> False | Inr L \<Rightarrow>
     (case derive_routes DEFAULT_ROLES L 2 of Inl _ \<Rightarrow> False | Inr G \<Rightarrow>
       list_all (orders_agree n (route_maps G) L) (py_range n)))"

lemma orders_agree_3: "orders_agree_on_ring 3" by code_simp
lemma orders_agree_4: "orders_agree_on_ring 4" by code_simp
lemma orders_agree_5: "orders_agree_on_ring 5" by code_simp
lemma orders_agree_6: "orders_agree_on_ring 6" by code_simp
lemma orders_agree_7: "orders_agree_on_ring 7" by code_simp
lemma orders_agree_8: "orders_agree_on_ring 8" by code_simp

text \<open>
  On every supported ring, three to eight Sparks in ring order, the order by relays
  (\<open>farthest\<close>) equals the folded rank order (\<open>ring-farthest\<close>) for every rank.
\<close>

theorem farthest_is_ring_farthest:
  assumes "n \<in> {3..8}" "0 \<le> rank" "rank < n"
  shows "\<exists>L G. ring_layout n = Inr L \<and> derive_routes DEFAULT_ROLES L 2 = Inr G
    \<and> farthest_first DEFAULT_ROLES None L rank (route_maps G ! nat rank) = Inr (ring_farthest rank n)"
proof -
  have "n = 3 \<or> n = 4 \<or> n = 5 \<or> n = 6 \<or> n = 7 \<or> n = 8" using assms(1) by auto
  then have "orders_agree_on_ring n"
    using orders_agree_3 orders_agree_4 orders_agree_5 orders_agree_6 orders_agree_7 orders_agree_8 by auto
  then obtain L G where "ring_layout n = Inr L" "derive_routes DEFAULT_ROLES L 2 = Inr G"
    "list_all (orders_agree n (route_maps G) L) (py_range n)"
    by (auto simp: orders_agree_on_ring_def split: sum.splits)
  then show ?thesis using assms by (auto simp: list_all_iff orders_agree_def)
qed

theorem farthest_is_ring_farthest_witness:
  "\<exists>L G. ring_layout 8 = Inr L \<and> derive_routes DEFAULT_ROLES L 2 = Inr G
    \<and> farthest_first DEFAULT_ROLES None L 5 (route_maps G ! 5) = Inr (ring_farthest 5 8)"
  using farthest_is_ring_farthest [of 8 5] by simp

text \<open>
  The automatic choice of an all-reduce algorithm falls back to the one-shot kernel: any other
  answer is an algorithm the session offers, for a message above the one-shot limit.
\<close>

theorem auto_algorithm_offered:
  assumes "select_algorithm nbytes ''auto'' large limit swing_above (Some offers) = Inr chosen"
    and "offers \<noteq> []" "chosen \<noteq> ''oneshot''"
  shows "dget offers chosen = Some True \<and> limit < nbytes
    \<and> (chosen = large \<or> chosen = ''swing'' \<and> swing_above \<noteq> 0 \<and> swing_above < nbytes)"
proof -
  obtain e es where o: "offers = e # es" using assms(2) by (cases offers) auto
  have "dget_or offers name False \<Longrightarrow> dget offers name = Some True" for name
    by (auto simp: dget_or_dget split: option.splits)
  then show ?thesis using assms(1,3) o by (auto simp: select_algorithm_def Let_def split: if_splits)
qed

theorem auto_algorithm_offered_witness:
  "select_algorithm 1048576 ''auto'' ''twoshot'' 131072 0 (Some [(''oneshot'', True), (''twoshot'', True)]) = Inr ''twoshot''
    \<and> dget [(''oneshot'', True), (''twoshot'', True)] ''twoshot'' = Some True"
proof -
  have s: "select_algorithm 1048576 ''auto'' ''twoshot'' 131072 0 (Some [(''oneshot'', True), (''twoshot'', True)]) = Inr ''twoshot''"
    by code_simp
  from auto_algorithm_offered [OF s] s show ?thesis by simp
qed

end
