(* ===== verification/Pieces.thy ===== *)
theory Pieces
  imports Complex_Main Wire
begin

text \<open>
  How large messages become ops (\<open>pieces.py\<close>, \<open>scatter_plan.py\<close>): pieces of an all-reduce, tiles of an
  all-gather, the geometry of a scatter and the ops of its chunks.
\<close>

section \<open>All-reduce pieces\<close>

definition check_piece :: "int \<Rightarrow> py_error + unit" where
  "check_piece piece = guard (\<not> (piece < PACK_BYTES \<or> piece mod PACK_BYTES \<noteq> 0))
    (PieceError ''piece size must be a positive multiple of 16 bytes'' [piece])"

record ReducePiece =
  rp_offset :: int
  rp_nbytes :: int
  rp_padded :: bool
  rp_chain :: bool
  rp_ring :: bool

definition plain_piece :: "int \<times> int \<Rightarrow> ReducePiece" where
  "plain_piece p = \<lparr>rp_offset = fst p, rp_nbytes = snd p, rp_padded = False, rp_chain = False, rp_ring = False\<rparr>"

text \<open>The bytes of the one ring op, 0 for none.\<close>

definition ring_prefix :: "int \<Rightarrow> int option \<Rightarrow> int option \<Rightarrow> py_error + int" where
  "ring_prefix aligned ring_from ring_world = (case ring_from of
     None \<Rightarrow> Inr 0
   | Some least \<Rightarrow> (case ring_world of
       None \<Rightarrow> Inl (PieceError ''a ring op needs the ring's rank count'' [])
     | Some w \<Rightarrow>
         if w < 2 then Inl (PieceError ''a ring op needs the ring's rank count'' [w])
         else let bytes = aligned div (w * PACK_BYTES) * w * PACK_BYTES
           in Inr (if bytes \<noteq> 0 \<and> bytes \<ge> least then bytes else 0)))"

definition reduce_plan ::
  "int \<Rightarrow> int \<Rightarrow> int option \<Rightarrow> int option \<Rightarrow> int option \<Rightarrow> py_error + ReducePiece list" where
  "reduce_plan whole piece chain_from ring_from ring_world =
    bind_res (check_piece piece) (\<lambda>_.
    if whole < 0 then Inl (PieceError ''message size is negative'' [whole])
    else let aligned = whole div PACK_BYTES * PACK_BYTES in
      bind_res (ring_prefix aligned ring_from ring_world) (\<lambda>ring_bytes.
      let chain = ring_bytes = 0 \<and> aligned \<noteq> 0 \<and> (case chain_from of None \<Rightarrow> False | Some least \<Rightarrow> aligned \<ge> least);
          start = (if ring_bytes \<noteq> 0 then ring_bytes else if chain then aligned else 0)
      in Inr ((if ring_bytes \<noteq> 0 then [plain_piece (0, ring_bytes) \<lparr>rp_ring := True\<rparr>] else [])
        @ (if chain then [plain_piece (0, aligned) \<lparr>rp_chain := True\<rparr>] else [])
        @ map plain_piece (cut_every start aligned piece)
        @ (if aligned < whole then [plain_piece (aligned, whole - aligned) \<lparr>rp_padded := True\<rparr>] else []))))"

definition chain_reference_halves :: "int \<Rightarrow> int \<times> int" where
  "chain_reference_halves nbytes = (let packs = nbytes div PACK_BYTES in
    (packs div 2 * PACK_BYTES, (packs - packs div 2) * PACK_BYTES))"

section \<open>All-gather tiles\<close>

record GatherTile =
  gt_row :: int
  gt_rows :: int
  gt_col :: int
  gt_cols :: int

definition tile_nbytes :: "GatherTile \<Rightarrow> int" where
  "tile_nbytes t = gt_rows t * gt_cols t"

definition source_offset :: "GatherTile \<Rightarrow> int \<Rightarrow> int" where
  "source_offset t inner = gt_row t * inner + gt_col t"

definition output_offset :: "GatherTile \<Rightarrow> int \<Rightarrow> int \<Rightarrow> int \<Rightarrow> int" where
  "output_offset t inner world source = gt_row t * world * inner + source * inner + gt_col t"

definition gather_plan :: "int \<Rightarrow> int \<Rightarrow> int \<Rightarrow> py_error + GatherTile list" where
  "gather_plan outer inner piece =
    bind_res (check_piece piece) (\<lambda>_.
    if outer < 0 \<or> inner < 0 then Inl (PieceError ''shard view has a negative extent'' [outer, inner])
    else if outer = 0 \<or> inner = 0 then Inr []
    else if inner \<le> piece then
      (let rows = piece div inner in
       Inr (map (\<lambda>row. \<lparr>gt_row = row, gt_rows = min rows (outer - row), gt_col = 0, gt_cols = inner\<rparr>)
         (py_range_step 0 outer rows)))
    else Inr (concat (map (\<lambda>row. map (\<lambda>col. \<lparr>gt_row = row, gt_rows = 1, gt_col = col, gt_cols = min piece (inner - col)\<rparr>)
       (py_range_step 0 inner piece)) (py_range outer))))"

definition gather_view :: "int list \<Rightarrow> int \<Rightarrow> int \<Rightarrow> py_error + int \<times> int" where
  "gather_view shape axis itemsize =
    (if shape = [] then Inl (PieceError ''a scalar has no dimension to gather along'' [])
     else let d = nat (axis mod int (length shape))
       in Inr (prod_list (take d shape), itemsize * prod_list (drop d shape)))"

definition pieces_padded :: "int \<Rightarrow> int" where
  "pieces_padded nbytes = cdiv nbytes PACK_BYTES * PACK_BYTES"

text \<open>The share is a fraction of the queue; the float arithmetic of the source is exact for it.\<close>

definition relay_safe_bytes :: "int \<Rightarrow> int \<Rightarrow> int \<Rightarrow> rat \<Rightarrow> int option" where
  "relay_safe_bytes busiest_lanes lane_count queue_bytes share =
    (if busiest_lanes \<le> 0 then None
     else let factor = of_int busiest_lanes / of_int lane_count
       in Some (max PACK_BYTES (\<lfloor>share * of_int queue_bytes / factor\<rfloor> div PACK_BYTES * PACK_BYTES)))"

section \<open>Scatter geometry\<close>

record ScatterGeometry =
  sg_chunk_bytes :: int
  sg_src_stride_bytes :: int

definition message_bytes :: "ScatterGeometry \<Rightarrow> int \<Rightarrow> int" where
  "message_bytes g world = world * sg_chunk_bytes g"

definition scatter_chunk_offset :: "ScatterGeometry \<Rightarrow> int \<Rightarrow> int" where
  "scatter_chunk_offset g part = part * sg_src_stride_bytes g"

definition scatter_geometry ::
  "int \<Rightarrow> int \<Rightarrow> int option \<Rightarrow> int option \<Rightarrow> int option \<Rightarrow> ScatterGeometry option" where
  "scatter_geometry total_bytes world capacity chunk_bytes src_stride_bytes =
    (if world < 2 \<or> total_bytes \<le> 0 then None
     else if chunk_bytes = None \<and> total_bytes mod (world * PACK_BYTES) \<noteq> 0 then None
     else let part = (case chunk_bytes of None \<Rightarrow> total_bytes div world | Some c \<Rightarrow> c);
              stride = (case chunk_bytes of None \<Rightarrow> part
                | Some _ \<Rightarrow> (case src_stride_bytes of None \<Rightarrow> part | Some s \<Rightarrow> s))
       in if part \<le> 0 \<or> part mod PACK_BYTES \<noteq> 0 \<or> stride mod PACK_BYTES \<noteq> 0 \<or> stride < part then None
          else if (world - 1) * stride + part > total_bytes then None
          else if (case capacity of None \<Rightarrow> False | Some cap \<Rightarrow> world * part > cap) then None
          else Some \<lparr>sg_chunk_bytes = part, sg_src_stride_bytes = stride\<rparr>)"

definition destination_stride :: "int \<Rightarrow> int \<Rightarrow> int \<Rightarrow> int option \<Rightarrow> py_error + int" where
  "destination_stride chunk_bytes world out_bytes dst_stride_bytes =
    (let stride = (case dst_stride_bytes of None \<Rightarrow> chunk_bytes | Some s \<Rightarrow> s) in
     if stride < chunk_bytes \<or> stride mod PACK_BYTES \<noteq> 0
     then Inl (ScatterError ''dst_stride_bytes must be a multiple of 16 of at least one chunk'' [stride, chunk_bytes])
     else if (world - 1) * stride + chunk_bytes > out_bytes
     then Inl (ScatterError ''an all-to-all output cannot hold the chunks'' [out_bytes, world, chunk_bytes, stride])
     else Inr stride)"

definition op_peer_bytes :: "int \<Rightarrow> int \<Rightarrow> py_error + int" where
  "op_peer_bytes op_bytes world =
    (let piece = op_bytes div world div PACK_BYTES * PACK_BYTES in
     if piece < PACK_BYTES then Inl (ScatterError ''an op cannot carry one 16-byte pack to each rank'' [op_bytes, world])
     else Inr piece)"

definition cap_piece :: "string \<Rightarrow> int option \<Rightarrow> int \<Rightarrow> py_error + int" where
  "cap_piece name cap piece = (case cap of
     None \<Rightarrow> Inr piece
   | Some c \<Rightarrow>
       if piece \<le> c then Inr piece
       else let capped = c div PACK_BYTES * PACK_BYTES
         in if capped < PACK_BYTES then Inl (ScatterError (name @ '' is below one 16-byte pack'') [c]) else Inr capped)"

definition piece_bytes :: "int \<Rightarrow> int option \<Rightarrow> int option \<Rightarrow> py_error + int" where
  "piece_bytes chunk_bytes relay_safe op_peer_limit =
    bind_res (cap_piece ''per-peer op limit'' op_peer_limit chunk_bytes)
      (cap_piece ''relay-safe per-peer size'' relay_safe)"

text \<open>A scatter piece is the pair of its offset and its bytes.\<close>

type_synonym ScatterPiece = "int \<times> int"

definition scatter_plan :: "int \<Rightarrow> int option \<Rightarrow> py_error + ScatterPiece list" where
  "scatter_plan part piece =
    (if part \<le> 0 \<or> part mod PACK_BYTES \<noteq> 0
     then Inl (ScatterError ''chunks are positive multiples of 16 bytes'' [part])
     else let sz = (case piece of None \<Rightarrow> part | Some p \<Rightarrow> p)
       in if sz < PACK_BYTES \<or> sz mod PACK_BYTES \<noteq> 0
          then Inl (ScatterError ''scatter pieces are positive multiples of 16 bytes'' [sz])
          else Inr (cut_every 0 part sz))"

section \<open>Plans as tilings\<close>

type_synonym reduce_request = "int \<times> int \<times> int option \<times> int option \<times> int option"

definition reduce_pieces :: "reduce_request \<Rightarrow> ReducePiece list" where
  "reduce_pieces x = (case x of (whole, piece, chain_from, ring_from, ring_world) \<Rightarrow>
    (case reduce_plan whole piece chain_from ring_from ring_world of Inl _ \<Rightarrow> [] | Inr ps \<Rightarrow> ps))"

definition reduce_accepts :: "reduce_request \<Rightarrow> bool" where
  "reduce_accepts x \<longleftrightarrow> (case x of (whole, piece, chain_from, ring_from, ring_world) \<Rightarrow>
    is_ok (reduce_plan whole piece chain_from ring_from ring_world))"

definition reduce_spans :: "reduce_request \<Rightarrow> (int \<times> int) list" where
  "reduce_spans x = map (\<lambda>p. (rp_offset p, rp_nbytes p)) (reduce_pieces x)"

lemma spans_plain: "map (\<lambda>p. (rp_offset p, rp_nbytes p)) (map plain_piece ps) = ps"
  by (simp add: plain_piece_def o_def)

lemma ring_prefix_range:
  assumes "ring_prefix aligned rf rw = Inr b" "0 \<le> aligned"
  shows "0 \<le> b \<and> b \<le> aligned \<and> b mod 16 = 0"
proof (cases "b = 0")
  case False
  then obtain least w where rfw: "rf = Some least" "rw = Some w"
    using assms(1) by (auto simp: ring_prefix_def split: option.splits)
  then have w: "2 \<le> w" and b: "b = aligned div (w * 16) * w * 16"
    using assms(1) False by (auto simp: ring_prefix_def Let_def split: if_splits)
  have "b = aligned div (w * 16) * (w * 16)" by (simp add: b)
  moreover have "aligned div (w * 16) * (w * 16) + aligned mod (w * 16) = aligned" by (rule div_mult_mod_eq)
  moreover have "0 \<le> aligned mod (w * 16)" using w by simp
  moreover have "0 \<le> aligned div (w * 16)" using w assms(2) by (simp add: pos_imp_zdiv_nonneg_iff)
  ultimately have "b \<le> aligned" "0 \<le> b" using w by (linarith, simp)
  then show ?thesis using b by simp
qed (use assms in simp)

text \<open>The shape of an accepted plan.\<close>

lemma reduce_plan_Inr:
  assumes "reduce_plan whole piece cf rf rw = Inr ops"
  obtains b chain start where "ring_prefix (whole div 16 * 16) rf rw = Inr b"
    and "start = (if b \<noteq> 0 then b else if chain then whole div 16 * 16 else 0)"
    and "chain \<longrightarrow> whole div 16 * 16 \<noteq> 0"
    and "ops = (if b \<noteq> 0 then [plain_piece (0, b) \<lparr>rp_ring := True\<rparr>] else [])
        @ (if chain then [plain_piece (0, whole div 16 * 16) \<lparr>rp_chain := True\<rparr>] else [])
        @ map plain_piece (cut_every start (whole div 16 * 16) piece)
        @ (if whole div 16 * 16 < whole then [plain_piece (whole div 16 * 16, whole - whole div 16 * 16) \<lparr>rp_padded := True\<rparr>]
           else [])"
proof -
  have ck: "check_piece piece = Inr ()" and w: "\<not> whole < 0"
    using assms by (auto simp: reduce_plan_def bind_res_Inr split: if_splits)
  obtain b where b: "ring_prefix (whole div 16 * 16) rf rw = Inr b"
    using assms ck w by (auto simp: reduce_plan_def bind_res_Inr Let_def simp del: mult_eq_0_iff)
  define chain where "chain \<longleftrightarrow> b = 0 \<and> whole div 16 * 16 \<noteq> 0
    \<and> (case cf of None \<Rightarrow> False | Some least \<Rightarrow> whole div 16 * 16 \<ge> least)"
  define start where "start = (if b \<noteq> 0 then b else if chain then whole div 16 * 16 else 0)"
  have "chain \<longrightarrow> whole div 16 * 16 \<noteq> 0" unfolding chain_def by blast
  moreover have "ops = (if b \<noteq> 0 then [plain_piece (0, b) \<lparr>rp_ring := True\<rparr>] else [])
        @ (if chain then [plain_piece (0, whole div 16 * 16) \<lparr>rp_chain := True\<rparr>] else [])
        @ map plain_piece (cut_every start (whole div 16 * 16) piece)
        @ (if whole div 16 * 16 < whole then [plain_piece (whole div 16 * 16, whole - whole div 16 * 16) \<lparr>rp_padded := True\<rparr>]
           else [])"
    using assms unfolding reduce_plan_def ck Let_def b bind_res.simps if_not_P [OF w] sum.inject chain_def start_def by (rule sym)
  ultimately show ?thesis by (rule that [OF b start_def])
qed

interpretation reduce_tiling: piece_plan reduce_accepts reduce_spans fst
proof
  fix x :: reduce_request
  assume ok: "reduce_accepts x"
  obtain whole piece cf rf rw where x: "x = (whole, piece, cf, rf, rw)" by (cases x)
  define aligned where "aligned = whole div 16 * 16"
  obtain b where p: "16 \<le> piece" and t: "0 \<le> whole" and b: "ring_prefix aligned rf rw = Inr b"
    using ok x by (auto simp: reduce_accepts_def is_ok_iff reduce_plan_def bind_res_Inr check_piece_def Let_def aligned_def
        split: if_splits)
  have "aligned + whole mod 16 = whole" "0 \<le> whole mod 16" unfolding aligned_def by simp_all
  then have al: "0 \<le> aligned" "aligned \<le> whole" using t by (simp_all add: aligned_def pos_imp_zdiv_nonneg_iff)
  note rb = ring_prefix_range [OF b al(1)]
  define chain where "chain \<longleftrightarrow> b = 0 \<and> aligned \<noteq> 0 \<and> (case cf of None \<Rightarrow> False | Some least \<Rightarrow> aligned \<ge> least)"
  define start where "start = (if b \<noteq> 0 then b else if chain then aligned else 0)"
  have s: "0 \<le> start" "start \<le> aligned" using rb al by (auto simp: start_def)
  have ck: "check_piece piece = Inr ()"
    using ok x by (auto simp: reduce_accepts_def is_ok_iff reduce_plan_def bind_res_Inr)
  have "reduce_plan whole piece cf rf rw = Inr ((if b \<noteq> 0 then [plain_piece (0, b) \<lparr>rp_ring := True\<rparr>] else [])
        @ (if chain then [plain_piece (0, aligned) \<lparr>rp_chain := True\<rparr>] else [])
        @ map plain_piece (cut_every start aligned piece)
        @ (if aligned < whole then [plain_piece (aligned, whole - aligned) \<lparr>rp_padded := True\<rparr>] else []))"
    unfolding reduce_plan_def ck aligned_def [symmetric] Let_def start_def chain_def using t b by simp
  then have e: "reduce_spans x = (if b \<noteq> 0 then [(0, b)] else []) @ (if chain then [(0, aligned)] else [])
      @ cut_every start aligned piece @ (if aligned < whole then [(aligned, whole - aligned)] else [])"
    by (simp add: x reduce_spans_def reduce_pieces_def plain_piece_def o_def)
  have body: "tiles start (cut_every start aligned piece) aligned" using tiles_cut_every p s by simp
  have head: "tiles 0 ((if b \<noteq> 0 then [(0, b)] else []) @ (if chain then [(0, aligned)] else [])) start"
    using rb al by (auto simp: start_def chain_def)
  have tail: "tiles aligned (if aligned < whole then [(aligned, whole - aligned)] else []) whole" using al by auto
  show "tiles 0 (reduce_spans x) (fst x)"
    unfolding e unfolding x fst_conv append_assoc [symmetric]
    by (simp only: tiles_append) (use head [unfolded tiles_append] body tail in blast)
qed

definition scatter_pieces :: "int \<times> int option \<Rightarrow> (int \<times> int) list" where
  "scatter_pieces x = (case scatter_plan (fst x) (snd x) of Inl _ \<Rightarrow> [] | Inr ps \<Rightarrow> ps)"

interpretation scatter_tiling: piece_plan "\<lambda>x. is_ok (scatter_plan (fst x) (snd x))" scatter_pieces fst
proof
  fix x :: "int \<times> int option"
  assume "is_ok (scatter_plan (fst x) (snd x))"
  then show "tiles 0 (scatter_pieces x) (fst x)"
    by (auto simp: is_ok_iff scatter_plan_def scatter_pieces_def Let_def split: if_splits intro!: tiles_cut_every)
qed

end
