(* ===== verification/PiecesFacts.thy ===== *)
theory PiecesFacts
  imports Pieces
begin

text \<open>
  Large messages lose and repeat nothing: the pieces of an all-reduce, the tiles of an all-gather and the
  ops of a scatter carry every byte exactly once, within the sizes the session allows.
\<close>

section \<open>All-reduce\<close>

lemma cut_every_aligned:
  assumes "0 < sz" "sz mod 16 = 0" "lo mod 16 = 0" "hi mod 16 = 0" "p \<in> set (cut_every lo hi sz)"
  shows "fst p mod 16 = 0 \<and> snd p mod 16 = (0::int)"
proof -
  obtain j where "p = (lo + j * sz, min sz (hi - (lo + j * sz)))"
    using assms(5) unfolding cut_every_def py_range_step_def by auto
  then have "fst p = lo + j * sz" "snd p = min sz (hi - fst p)" by simp_all
  moreover have "16 dvd lo + j * sz" "16 dvd sz" "16 dvd hi" using assms by (simp_all add: mod_eq_0_iff_dvd)
  ultimately show ?thesis by (simp add: min_def mod_eq_0_iff_dvd)
qed

lemma reduce_piece_shape:
  assumes "reduce_plan whole piece cf rf rw = Inr ops" "op' \<in> set ops"
  shows "0 < rp_nbytes op' \<and> (rp_padded op' \<or> rp_nbytes op' mod 16 = 0) \<and> rp_offset op' mod 16 = 0
    \<and> (rp_padded op' \<longrightarrow> rp_nbytes op' < 16) \<and> (\<not> rp_chain op' \<and> \<not> rp_ring op' \<longrightarrow> rp_nbytes op' \<le> piece)"
proof -
  define aligned where "aligned = whole div 16 * 16"
  have ck: "16 \<le> piece" "piece mod 16 = 0" and w: "0 \<le> whole"
    using assms(1) by (auto simp: reduce_plan_def bind_res_Inr check_piece_def split: if_splits)
  have "aligned + whole mod 16 = whole" unfolding aligned_def by simp
  then have tail: "whole - aligned < 16" using pos_mod_bound [of 16 whole] by linarith
  have al: "0 \<le> aligned" "aligned mod 16 = 0" using w by (simp_all add: aligned_def pos_imp_zdiv_nonneg_iff)
  obtain b chain start where b: "ring_prefix aligned rf rw = Inr b"
    and st: "start = (if b \<noteq> 0 then b else if chain then aligned else 0)" and ch: "chain \<longrightarrow> aligned \<noteq> 0"
    and ops: "ops = (if b \<noteq> 0 then [plain_piece (0, b) \<lparr>rp_ring := True\<rparr>] else [])
        @ (if chain then [plain_piece (0, aligned) \<lparr>rp_chain := True\<rparr>] else [])
        @ map plain_piece (cut_every start aligned piece)
        @ (if aligned < whole then [plain_piece (aligned, whole - aligned) \<lparr>rp_padded := True\<rparr>] else [])"
    by (rule reduce_plan_Inr [OF assms(1), folded aligned_def]) (rule that)
  note rb = ring_prefix_range [OF b al(1)]
  consider "op' = plain_piece (0, b) \<lparr>rp_ring := True\<rparr>" "b \<noteq> 0" | "op' = plain_piece (0, aligned) \<lparr>rp_chain := True\<rparr>" chain
    | q where "op' = plain_piece q" "q \<in> set (cut_every start aligned piece)"
    | "op' = plain_piece (aligned, whole - aligned) \<lparr>rp_padded := True\<rparr>" "aligned < whole"
    using assms(2) unfolding ops by (auto split: if_splits)
  then show ?thesis
  proof cases
    case (3 q)
    have "start mod 16 = 0" using st rb al by simp
    then have "fst q mod 16 = 0 \<and> snd q mod 16 = 0"
      using cut_every_aligned [OF _ ck(2) _ al(2) 3(2)] ck(1) by simp
    moreover have "0 < snd q" "snd q \<le> piece" using cut_every_pos [OF _ 3(2)] cut_every_size [OF 3(2)] ck(1) by simp_all
    ultimately show ?thesis using 3(1) by (simp add: plain_piece_def)
  qed (use rb al ch ck tail in \<open>auto simp: plain_piece_def\<close>)
qed

section \<open>All-gather\<close>

definition in_tile :: "GatherTile \<Rightarrow> int \<Rightarrow> int \<Rightarrow> bool" where
  "in_tile t row col \<longleftrightarrow> gt_row t \<le> row \<and> row < gt_row t + gt_rows t \<and> gt_col t \<le> col \<and> col < gt_col t + gt_cols t"

text \<open>Every point of a cut interval is in one piece, named by its offset.\<close>

lemma cut_every_point:
  assumes "0 < sz" "0 \<le> x" "x < hi"
  shows "\<exists>!off. off \<in> set (py_range_step 0 hi sz) \<and> off \<le> x \<and> x < off + min sz (hi - off)"
proof (rule ex1I [of _ "x div sz * sz"])
  have e: "x div sz * sz + x mod sz = x" "0 \<le> x mod sz" "x mod sz < sz" using assms by simp_all
  then have le: "x div sz * sz \<le> x" "x < x div sz * sz + sz" by linarith+
  have "x div sz < cdiv hi sz"
  proof (rule ccontr)
    assume "\<not> x div sz < cdiv hi sz"
    then have "hi \<le> x div sz * sz" using cdiv_le_iff [OF assms(1), of hi "x div sz"] by simp
    then show False using e assms by linarith
  qed
  moreover have "0 \<le> x div sz" using assms by (simp add: pos_imp_zdiv_nonneg_iff)
  ultimately show "x div sz * sz \<in> set (py_range_step 0 hi sz) \<and> x div sz * sz \<le> x
      \<and> x < x div sz * sz + min sz (hi - x div sz * sz)"
    using le assms by (auto simp: py_range_step_def min_def)
next
  fix off
  assume off: "off \<in> set (py_range_step 0 hi sz) \<and> off \<le> x \<and> x < off + min sz (hi - off)"
  then obtain j where j: "off = j * sz" by (auto simp: py_range_step_def)
  have "x = j * sz + (x - off)" "0 \<le> x - off" "x - off < sz" using off j by auto
  then show "off = x div sz * sz" using radix_div [of "x - off" sz j] j by simp
qed

lemma gather_tiles_point:
  assumes "gather_plan outer inner piece = Inr gts" "0 \<le> row" "row < outer" "0 \<le> col" "col < inner"
  shows "\<exists>!t. t \<in> set gts \<and> in_tile t row col"
proof -
  have p: "16 \<le> piece" using assms(1) by (auto simp: gather_plan_def bind_res_Inr check_piece_def split: if_splits)
  show ?thesis
  proof (cases "inner \<le> piece")
    case True
    let ?t = "\<lambda>row. \<lparr>gt_row = row, gt_rows = min (piece div inner) (outer - row), gt_col = 0, gt_cols = inner\<rparr>"
    have ts: "gts = map ?t (py_range_step 0 outer (piece div inner))"
      using assms True by (auto simp: gather_plan_def bind_res_Inr Let_def split: if_splits)
    have "0 < piece div inner" using True assms by (simp add: pos_imp_zdiv_pos_iff)
    from cut_every_point [OF this assms(2,3)] obtain off where
      o': "off \<in> set (py_range_step 0 outer (piece div inner))" "off \<le> row" "row < off + min (piece div inner) (outer - off)"
      and u: "\<And>x. x \<in> set (py_range_step 0 outer (piece div inner)) \<Longrightarrow> x \<le> row \<Longrightarrow> row < x + min (piece div inner) (outer - x)
        \<Longrightarrow> x = off" by blast
    show ?thesis
    proof (rule ex1I [of _ "?t off"])
      show "?t off \<in> set gts \<and> in_tile (?t off) row col" using o' assms by (simp add: ts in_tile_def)
    next
      fix t
      assume "t \<in> set gts \<and> in_tile t row col"
      then obtain x where x: "t = ?t x" "x \<in> set (py_range_step 0 outer (piece div inner))" "in_tile (?t x) row col"
        unfolding ts set_map by blast
      then have "x = off" by (intro u) (auto simp: in_tile_def)
      then show "t = ?t off" using x by simp
    qed
  next
    case False
    let ?t = "\<lambda>row col. \<lparr>gt_row = row, gt_rows = 1, gt_col = col, gt_cols = min piece (inner - col)\<rparr>"
    have ts: "gts = concat (map (\<lambda>row. map (?t row) (py_range_step 0 inner piece)) (py_range outer))"
      using assms False by (auto simp: gather_plan_def bind_res_Inr split: if_splits)
    have mem: "t \<in> set gts \<longleftrightarrow> (\<exists>r c. 0 \<le> r \<and> r < outer \<and> c \<in> set (py_range_step 0 inner piece) \<and> t = ?t r c)" for t
      unfolding ts by auto
    have "0 < piece" using p by simp
    from cut_every_point [OF this assms(4,5)] obtain off where
      o': "off \<in> set (py_range_step 0 inner piece)" "off \<le> col" "col < off + min piece (inner - off)"
      and u: "\<And>x. x \<in> set (py_range_step 0 inner piece) \<Longrightarrow> x \<le> col \<Longrightarrow> col < x + min piece (inner - x) \<Longrightarrow> x = off"
      by blast
    show ?thesis
    proof (rule ex1I [of _ "?t row off"])
      show "?t row off \<in> set gts \<and> in_tile (?t row off) row col" unfolding mem using o' assms by (auto simp: in_tile_def)
    next
      fix t
      assume "t \<in> set gts \<and> in_tile t row col"
      then obtain r c where x: "t = ?t r c" "c \<in> set (py_range_step 0 inner piece)" "in_tile (?t r c) row col"
        unfolding mem by blast
      then have "r = row" "c = off" using u by (auto simp: in_tile_def)
      then show "t = ?t row off" using x by simp
    qed
  qed
qed

lemma gather_tile_sizes:
  assumes "gather_plan outer inner piece = Inr gts" "t \<in> set gts"
  shows "tile_nbytes t \<le> piece \<and> (gt_rows t = 1 \<or> gt_cols t = inner \<and> gt_col t = 0)"
proof -
  have p: "16 \<le> piece" "0 \<le> inner" using assms(1) by (auto simp: gather_plan_def bind_res_Inr check_piece_def split: if_splits)
  show ?thesis
  proof (cases "inner \<le> piece \<and> inner \<noteq> 0")
    case True
    then obtain row where t: "gt_rows t = min (piece div inner) (outer - row)" "gt_cols t = inner" "gt_col t = 0"
      using assms by (auto simp: gather_plan_def bind_res_Inr Let_def split: if_splits)
    have "gt_rows t * inner \<le> piece div inner * inner" using t p by (intro mult_right_mono) auto
    moreover have "piece div inner * inner + piece mod inner = piece" "0 \<le> piece mod inner" using True p by simp_all
    ultimately have "gt_rows t * inner \<le> piece" by linarith
    then show ?thesis using t by (simp add: tile_nbytes_def)
  next
    case False
    then have "\<not> inner \<le> piece" using assms by (auto simp: gather_plan_def bind_res_Inr split: if_splits)
    then obtain col where "gt_rows t = 1" "gt_cols t = min piece (inner - col)"
      using assms by (auto simp: gather_plan_def bind_res_Inr split: if_splits)
    then show ?thesis by (simp add: tile_nbytes_def)
  qed
qed

section \<open>Scatter\<close>

lemma cap_piece_le:
  assumes "cap_piece name cap n = Inr p"
  shows "p \<le> n \<and> (\<forall>c. cap = Some c \<longrightarrow> p \<le> c)"
proof (cases cap)
  case (Some c)
  have "c div 16 * 16 + c mod 16 = c" "0 \<le> c mod 16" by simp_all
  then have "c div 16 * 16 \<le> c" by linarith
  then show ?thesis using assms Some by (auto simp: cap_piece_def Let_def split: if_splits)
qed (use assms in \<open>simp add: cap_piece_def\<close>)

lemma piece_bytes_caps:
  assumes "piece_bytes n relay limit = Inr p"
  shows "p \<le> n \<and> (\<forall>c. relay = Some c \<or> limit = Some c \<longrightarrow> p \<le> c)"
proof -
  obtain q where q: "cap_piece ''per-peer op limit'' limit n = Inr q" "cap_piece ''relay-safe per-peer size'' relay q = Inr p"
    using assms by (auto simp: piece_bytes_def bind_res_Inr)
  show ?thesis using cap_piece_le [OF q(1)] cap_piece_le [OF q(2)] by force
qed

section \<open>Properties\<close>

text \<open>
  The ops of an all-reduce carry every byte of the message exactly once: whole packs in pieces of at
  most the piece size, except one ring or chain op and a zero-padded tail of fewer than 16 bytes.
\<close>

theorem reduce_plan_carries_once:
  assumes r: "reduce_plan whole piece chain_from ring_from ring_world = Inr ops" and b: "0 \<le> b" "b < whole"
  shows "(\<exists>!i. i < length ops \<and> rp_offset (ops ! i) \<le> b \<and> b < rp_offset (ops ! i) + rp_nbytes (ops ! i))
    \<and> (\<forall>p\<in>set ops. 0 < rp_nbytes p \<and> (rp_padded p \<or> rp_nbytes p mod 16 = 0) \<and> rp_offset p mod 16 = 0
      \<and> (rp_padded p \<longrightarrow> rp_nbytes p < 16) \<and> (\<not> rp_chain p \<and> \<not> rp_ring p \<longrightarrow> rp_nbytes p \<le> piece))"
proof
  let ?x = "(whole, piece, chain_from, ring_from, ring_world)"
  have "reduce_accepts ?x" using r by (simp add: reduce_accepts_def)
  moreover have sp: "reduce_spans ?x = map (\<lambda>p. (rp_offset p, rp_nbytes p)) ops"
    using r by (simp add: reduce_spans_def reduce_pieces_def)
  ultimately have "\<exists>!i. i < length ops \<and> b \<in> piece_set (map (\<lambda>p. (rp_offset p, rp_nbytes p)) ops ! i)"
    using reduce_tiling.bytes_once [of ?x b] b by simp
  then show "\<exists>!i. i < length ops \<and> rp_offset (ops ! i) \<le> b \<and> b < rp_offset (ops ! i) + rp_nbytes (ops ! i)"
    by (simp cong: conj_cong)
qed (use reduce_piece_shape [OF r] in blast)

theorem reduce_plan_carries_once_witness:
  "\<exists>ops. reduce_plan 100005 65536 None None None = Inr ops
    \<and> (\<exists>!i. i < length ops \<and> rp_offset (ops ! i) \<le> 100001 \<and> 100001 < rp_offset (ops ! i) + rp_nbytes (ops ! i))"
proof -
  have "is_ok (reduce_plan 100005 65536 None None None)" by code_simp
  then obtain ops where ops: "reduce_plan 100005 65536 None None None = Inr ops" by (auto simp: is_ok_iff)
  from reduce_plan_carries_once [OF ops, of 100001] ops show ?thesis by auto
qed

text \<open>
  The tiles of an all-gather cover every byte of every row of the shard exactly once, each tile
  within one piece and contiguous in the shard (whole rows, or part of one row).
\<close>

theorem gather_plan_covers_once:
  assumes "gather_plan outer inner piece = Inr gts" "0 \<le> row" "row < outer" "0 \<le> col" "col < inner"
  shows "(\<exists>!t. t \<in> set gts \<and> in_tile t row col)
    \<and> (\<forall>t\<in>set gts. tile_nbytes t \<le> piece \<and> (gt_rows t = 1 \<or> gt_cols t = inner \<and> gt_col t = 0))"
  using gather_tiles_point [OF assms] gather_tile_sizes [OF assms(1)] by blast

theorem gather_plan_covers_once_witness:
  "\<exists>gts. gather_plan 5 48 128 = Inr gts \<and> (\<exists>!t. t \<in> set gts \<and> in_tile t 4 47)"
proof -
  have "is_ok (gather_plan 5 48 128)" by code_simp
  then obtain ts where ts: "gather_plan 5 48 128 = Inr ts" by (auto simp: is_ok_iff)
  from gather_plan_covers_once [OF ts, of 4 47] ts show ?thesis by auto
qed

text \<open>
  A scatter with an accepted geometry loses nothing: the chunks for different ranks lie apart inside
  the input, and the ops of the message carry every byte of a chunk exactly once, in pieces no larger
  than the per-peer op limit and the relay-safe size.
\<close>

theorem scatter_ops_carry_once:
  assumes g: "scatter_geometry nbytes world capacity chunk_bytes stride = Some geo"
    and c: "piece_bytes (sg_chunk_bytes geo) relay_safe limit = Inr piece"
    and p: "scatter_plan (sg_chunk_bytes geo) (Some piece) = Inr ops"
    and j: "0 \<le> j" "j < k" "k < world" and b: "0 \<le> b" "b < sg_chunk_bytes geo"
  shows "scatter_chunk_offset geo j + sg_chunk_bytes geo \<le> scatter_chunk_offset geo k
    \<and> scatter_chunk_offset geo k + sg_chunk_bytes geo \<le> nbytes
    \<and> (\<exists>!i. i < length ops \<and> b \<in> piece_set (ops ! i))
    \<and> (\<forall>op'\<in>set ops. snd op' \<le> piece) \<and> (\<forall>cap. relay_safe = Some cap \<or> limit = Some cap \<longrightarrow> piece \<le> cap)"
proof -
  obtain s n where geo: "geo = \<lparr>sg_chunk_bytes = n, sg_src_stride_bytes = s\<rparr>" by (cases geo)
  have st: "0 < n" "n \<le> s" "(world - 1) * s + n \<le> nbytes"
    using g unfolding geo by (auto simp: scatter_geometry_def Let_def split: if_splits)
  have "j * s + n \<le> k * s"
  proof -
    have "(j + 1) * s \<le> k * s" using j st by (intro mult_right_mono) auto
    then show ?thesis using st by (simp add: algebra_simps)
  qed
  moreover have "k * s \<le> (world - 1) * s" using j st by (intro mult_right_mono) auto
  then have "k * s + n \<le> nbytes" using st by linarith
  moreover have "\<exists>!i. i < length ops \<and> b \<in> piece_set (ops ! i)"
    using scatter_tiling.bytes_once [of "(sg_chunk_bytes geo, Some piece)" b] p b by (simp add: scatter_pieces_def)
  moreover have "\<forall>op'\<in>set ops. snd op' \<le> piece"
    using p by (auto simp: scatter_plan_def split: if_splits dest: cut_every_size)
  moreover have "\<forall>cap. relay_safe = Some cap \<or> limit = Some cap \<longrightarrow> piece \<le> cap"
    using piece_bytes_caps [OF c] by blast
  ultimately show ?thesis using st by (simp add: scatter_chunk_offset_def geo)
qed

theorem scatter_ops_carry_once_witness:
  "\<exists>geo ops. scatter_geometry 4096 4 None None None = Some geo \<and> scatter_plan 1024 (Some 384) = Inr ops
    \<and> (\<exists>!i. i < length ops \<and> (1000::int) \<in> piece_set (ops ! i))"
proof -
  have g: "scatter_geometry 4096 4 None None None = Some \<lparr>sg_chunk_bytes = 1024, sg_src_stride_bytes = 1024\<rparr>"
    by code_simp
  have c: "piece_bytes 1024 (Some 390) None = Inr 384" by code_simp
  have "is_ok (scatter_plan 1024 (Some 384))" by code_simp
  then obtain ops where p: "scatter_plan 1024 (Some 384) = Inr ops" by (auto simp: is_ok_iff)
  from scatter_ops_carry_once [OF g, of "Some 390" None 384 ops 1 2 1000] c p g show ?thesis by auto
qed

end
