(* ===== verification/FabricLayout.thy ===== *)
theory FabricLayout
  imports RelayFacts
begin

text \<open>
  Layouts of the relay plan installer (\<open>fabric/layouts.py\<close>, and \<open>group_layout\<close> of \<open>ring/plan.py\<close>): the
  groups of a ring, their fabrics, the custom and built-in layouts, and the choice of a group.
\<close>

section \<open>The fabric of a group\<close>

definition joining :: "Fabric \<Rightarrow> int \<times> int \<Rightarrow> py_error + Cable" where
  "joining F e = (case filter (\<lambda>c. {ca c, cb c} = {fst e, snd e}) (cables F) of
     [] \<Rightarrow> Inl (PlanError ''group is not consecutive Sparks along the site's cables'' [fst e, snd e])
   | c # _ \<Rightarrow> Inr c)"

definition cabled_group_layout :: "Fabric \<Rightarrow> int list \<Rightarrow> py_error + Layout" where
  "cabled_group_layout F members =
    (if kind F = Cycle \<and> length members = length (fabric_positions F)
     then (if sort members \<noteq> fabric_positions F then Inl (PlanError ''a whole-cycle group lists every Spark once'' [])
           else Layout_new F members)
     else bind_res (map_res (joining F) (zip members (tl members))) (\<lambda>cs.
       bind_res (Fabric_new cs) (\<lambda>G. Layout_new G members)))"

definition group_layout :: "int \<Rightarrow> int list \<Rightarrow> Fabric option \<Rightarrow> py_error + Layout" where
  "group_layout ring_size members fabric =
    (if length members < 2 \<or> \<not> distinct members
     then Inl (PlanError ''group needs at least two distinct Sparks'' members)
     else if list_ex (\<lambda>m. \<not> (0 \<le> m \<and> m < ring_size)) members
     then Inl (PlanError ''group names a Spark outside the ring'' [ring_size])
     else case fabric of
       Some F \<Rightarrow> cabled_group_layout F members
     | None \<Rightarrow>
         if int (length members) = ring_size
         then (if sort members \<noteq> py_range ring_size then Inl (PlanError ''a whole-ring group lists every Spark once'' [])
               else bind_res (Fabric_ring ring_size) (\<lambda>F. Layout_new F members))
         else if list_ex (\<lambda>(a, b). b \<noteq> (a + 1) mod ring_size) (zip members (tl members))
         then Inl (PlanError ''group is neither the whole ring nor consecutive Sparks along it'' members)
         else bind_res (map_res (\<lambda>(a, b). Cable_new a 0 b 1) (zip members (tl members))) (\<lambda>cs.
           bind_res (Fabric_new cs) (\<lambda>F. Layout_new F members)))"

section \<open>Groups\<close>

record Group =
  gr_members :: "int list"
  gr_ring_size :: int

text \<open>\<open>raise FabricError(str(error))\<close>: the plan and route errors keep their message.\<close>

fun as_fabric_error :: "py_error \<Rightarrow> py_error" where
  "as_fabric_error (PlanError m ns) = FabricError m ns"
| "as_fabric_error (RouteError m ns) = FabricError m ns"
| "as_fabric_error e = e"

definition group_fabric :: "Group \<Rightarrow> py_error + Layout" where
  "group_fabric g = map_sum as_fabric_error id (group_layout (gr_ring_size g) (gr_members g) None)"

definition Group_new :: "int list \<Rightarrow> int \<Rightarrow> py_error + Group" where
  "Group_new members ring_size = (let g = \<lparr>gr_members = members, gr_ring_size = ring_size\<rparr> in
    bind_res (group_fabric g) (\<lambda>_. Inr g))"

definition whole_ring :: "Group \<Rightarrow> bool" where
  "whole_ring g \<longleftrightarrow> int (length (gr_members g)) = gr_ring_size g"

definition group_order :: "Group \<Rightarrow> int list" where
  "group_order g = (if whole_ring g then py_range (gr_ring_size g) else gr_members g)"

definition group_kind :: "Group \<Rightarrow> string" where
  "group_kind g = (if whole_ring g then ''cycle'' else if length (gr_members g) = 2 then ''pair'' else ''path'')"

definition group_label :: "Group \<Rightarrow> string" where
  "group_label g = group_kind g @ CHR '':'' # join_with (CHR ''-'') (map str_of_int (group_order g))"

definition group_cable_texts :: "Group \<Rightarrow> py_error + string list" where
  "group_cable_texts g = bind_res (group_fabric g) (\<lambda>L. Inr (map cable_text (cables (l_fabric L))))"

section \<open>Layouts of disjoint groups\<close>

definition RELAY_EGRESS :: "string list" where
  "RELAY_EGRESS = [''same'', ''sibling'']"

record FabricLayout =
  fl_name :: string
  fl_ring_size :: int
  fl_groups :: "Group list"
  fl_relay_egress :: string

text \<open>Members and cables claimed so far; a Spark or cable claimed twice raises.\<close>

definition claim_member :: "int \<Rightarrow> int list \<Rightarrow> py_error + int list" where
  "claim_member m seen = (if m \<in> set seen then Inl (FabricError ''a Spark belongs to at most one group'' [m])
    else Inr (seen @ [m]))"

definition claim_cable :: "string \<Rightarrow> string list \<Rightarrow> py_error + string list" where
  "claim_cable c owned = (if c \<in> set owned then Inl (FabricError ''a cable is owned by two groups'' []) else Inr (owned @ [c]))"

definition claim_group :: "int \<Rightarrow> Group \<Rightarrow> int list \<times> string list \<Rightarrow> py_error + int list \<times> string list" where
  "claim_group ring_size g st =
    (if gr_ring_size g \<noteq> ring_size then Inl (FabricError ''group is on another ring'' [gr_ring_size g, ring_size])
     else bind_res (fold_res claim_member (gr_members g) (fst st)) (\<lambda>seen.
       bind_res (group_cable_texts g) (\<lambda>cs.
       bind_res (fold_res claim_cable cs (snd st)) (\<lambda>owned. Inr (seen, owned)))))"

definition FabricLayout_new :: "string \<Rightarrow> int \<Rightarrow> Group list \<Rightarrow> string \<Rightarrow> py_error + FabricLayout" where
  "FabricLayout_new name ring_size groups egress =
    (if egress \<notin> set RELAY_EGRESS then Inl (FabricError ''relay egress must be same or sibling'' [])
     else if groups = [] then Inl (FabricError ''layout has no groups'' [])
     else bind_res (fold_res (claim_group ring_size) groups ([], [])) (\<lambda>_.
       Inr \<lparr>fl_name = name, fl_ring_size = ring_size, fl_groups = groups, fl_relay_egress = egress\<rparr>))"

definition layout_positions :: "FabricLayout \<Rightarrow> int list" where
  "layout_positions L = sort (concat (map gr_members (fl_groups L)))"

section \<open>Names of groups and layouts\<close>

definition group_item :: "int \<Rightarrow> string \<Rightarrow> py_error + int list" where
  "group_item ring_size raw =
    (let item = strip raw in
     if item = [] then Inr []
     else let (first_text, _, last_text) = partition_at (CHR ''-'') item in
       case (py_int first_text, if last_text = [] then py_int first_text else py_int last_text) of
         (Some first, Some past) \<Rightarrow>
           if \<not> (0 \<le> first \<and> first < ring_size \<and> 0 \<le> past \<and> past < ring_size)
           then Inl (FabricError ''group names a position outside the ring'' [ring_size])
           else Inr (map (\<lambda>step. (first + step) mod ring_size) (py_range ((past - first) mod ring_size + 1)))
       | _ \<Rightarrow> Inl (FabricError ''group is not a list of Spark positions'' []))"

definition group_part :: "int \<Rightarrow> string \<Rightarrow> py_error + int list" where
  "group_part ring_size part = bind_res (map_res (group_item ring_size) (split_on (CHR '','') part)) (\<lambda>ms. Inr (concat ms))"

definition parse_groups :: "string \<Rightarrow> int \<Rightarrow> py_error + int list list" where
  "parse_groups given ring_size =
    bind_res (map_res (group_part ring_size) (split_on (CHR '';'') given)) (\<lambda>parts.
    let groups = filter (\<lambda>ms. ms \<noteq> []) parts
    in if groups = [] then Inl (FabricError ''no groups given'' []) else Inr groups)"

definition default_relay_egress :: "Group list \<Rightarrow> string" where
  "default_relay_egress groups = (case groups of [g] \<Rightarrow> if whole_ring g then ''same'' else ''sibling'' | _ \<Rightarrow> ''sibling'')"

definition lower_char :: "char \<Rightarrow> char" where
  "lower_char c = (let n = (of_char c :: nat) in if 65 \<le> n \<and> n \<le> 90 then char_of (n + 32) else c)"

definition builtin :: "string \<Rightarrow> int \<Rightarrow> py_error + string \<times> int list list" where
  "builtin name ring_size =
    (let key = map lower_char (strip name); ring = ''ring'' @ str_of_int ring_size in
     if key = ''ring'' \<or> key = ring then Inr (ring, [py_range ring_size])
     else if key = ''2xtp4'' \<or> key = ''4xtp2'' then
       (if ring_size \<noteq> 8 then Inl (FabricError ''layout is defined on a ring of 8 Sparks'' [ring_size])
        else if key = ''2xtp4'' then Inr (''2xTP4'', [[0, 1, 2, 3], [4, 5, 6, 7]])
        else Inr (''4xTP2'', [[0, 1], [2, 3], [4, 5], [6, 7]]))
     else Inl (FabricError ''unknown layout'' []))"

definition resolve_layout ::
  "int \<Rightarrow> string option \<Rightarrow> string option \<Rightarrow> string option \<Rightarrow> string option \<Rightarrow> py_error + FabricLayout" where
  "resolve_layout ring_size layout groups name relay_egress =
    bind_res (case (layout, groups) of
        (Some l, None) \<Rightarrow> builtin l ring_size
      | (None, Some t) \<Rightarrow> bind_res (parse_groups t ring_size) (\<lambda>ms.
          Inr (case name of None \<Rightarrow> ''custom'' | Some n \<Rightarrow> if n = [] then ''custom'' else n, ms))
      | _ \<Rightarrow> Inl (FabricError ''give exactly one of --layout and --groups'' [])) (\<lambda>(canonical, member_lists).
    bind_res (map_res (\<lambda>ms. Group_new ms ring_size) member_lists) (\<lambda>built.
    FabricLayout_new canonical ring_size built
      (case relay_egress of None \<Rightarrow> default_relay_egress built | Some e \<Rightarrow> if e = [] then default_relay_egress built else e)))"

definition select_groups :: "FabricLayout \<Rightarrow> string option \<Rightarrow> py_error + Group list" where
  "select_groups L selector = (case selector of
     None \<Rightarrow> Inr (fl_groups L)
   | Some raw \<Rightarrow>
       let t = strip raw in
       (if t \<noteq> [] \<and> list_all is_digit t \<and> digits_val t < length (fl_groups L) then Inr [fl_groups L ! digits_val t]
        else case find (\<lambda>g. group_label g = t) (fl_groups L) of
          Some g \<Rightarrow> Inr [g]
        | None \<Rightarrow>
            let wanted = (case parse_groups t (fl_ring_size L) of Inr [w] \<Rightarrow> Some w | _ \<Rightarrow> None) in
            (case find (\<lambda>g. wanted \<noteq> None \<and> set (the wanted) = set (gr_members g)) (fl_groups L) of
               Some g \<Rightarrow> Inr [g]
             | None \<Rightarrow> Inl (FabricError ''layout has no such group'' []))))"

section \<open>Facts\<close>

lemma claim_member_Inr: "claim_member m seen = Inr s \<longleftrightarrow> m \<notin> set seen \<and> s = seen @ [m]"
  by (auto simp: claim_member_def)

lemma claim_cable_Inr: "claim_cable c owned = Inr s \<longleftrightarrow> c \<notin> set owned \<and> s = owned @ [c]"
  by (auto simp: claim_cable_def)

lemma claim_members:
  "fold_res claim_member ms seen = Inr seen' \<Longrightarrow> distinct seen \<Longrightarrow> seen' = seen @ ms \<and> distinct seen'"
proof (induction ms arbitrary: seen)
  case (Cons m ms)
  then have m: "m \<notin> set seen" "fold_res claim_member ms (seen @ [m]) = Inr seen'"
    by (auto simp: bind_res_Inr claim_member_Inr)
  then have "distinct (seen @ [m])" using Cons.prems(2) by simp
  from Cons.IH [OF m(2) this] show ?case by (metis append_Cons append_Nil append_assoc)
qed simp

lemma claim_cables:
  "fold_res claim_cable cs owned = Inr owned' \<Longrightarrow> distinct owned \<Longrightarrow> owned' = owned @ cs \<and> distinct owned'"
proof (induction cs arbitrary: owned)
  case (Cons c cs)
  then have m: "c \<notin> set owned" "fold_res claim_cable cs (owned @ [c]) = Inr owned'"
    by (auto simp: bind_res_Inr claim_cable_Inr)
  then have "distinct (owned @ [c])" using Cons.prems(2) by simp
  from Cons.IH [OF m(2) this] show ?case by (metis append_Cons append_Nil append_assoc)
qed simp

lemma claim_groups:
  assumes "fold_res (claim_group n) gs (seen, owned) = Inr (seen', owned')" "distinct seen" "distinct owned"
  shows "seen' = seen @ concat (map gr_members gs) \<and> distinct seen'
    \<and> (\<exists>css. map_res group_cable_texts gs = Inr css \<and> owned' = owned @ concat css) \<and> distinct owned'
    \<and> (\<forall>g\<in>set gs. gr_ring_size g = n)"
  using assms
proof (induction gs arbitrary: seen owned)
  case (Cons g gs)
  obtain s1 o1 where g: "claim_group n g (seen, owned) = Inr (s1, o1)"
    and rest: "fold_res (claim_group n) gs (s1, o1) = Inr (seen', owned')"
    using Cons.prems(1) by (auto simp: bind_res_Inr)
  obtain cs where n: "gr_ring_size g = n" and m: "fold_res claim_member (gr_members g) seen = Inr s1"
    and cs: "group_cable_texts g = Inr cs" and c: "fold_res claim_cable cs owned = Inr o1"
    using g by (auto simp: claim_group_def bind_res_Inr split: if_splits)
  note s = claim_members [OF m Cons.prems(2)] and o' = claim_cables [OF c Cons.prems(3)]
  from Cons.IH [OF rest] s o' obtain css where ih: "seen' = s1 @ concat (map gr_members gs)" "distinct seen'"
      "map_res group_cable_texts gs = Inr css" "owned' = o1 @ concat css" "distinct owned'"
      "\<forall>g\<in>set gs. gr_ring_size g = n" by blast
  have "map_res group_cable_texts (g # gs) = Inr (cs # css)" using cs ih(3) by simp
  moreover have "owned' = owned @ concat (cs # css)" "seen' = seen @ concat (map gr_members (g # gs))"
    using ih(1,4) s o' by simp_all
  ultimately show ?case using ih(2,5,6) n by (metis set_ConsD)
qed simp

section \<open>Properties\<close>

text \<open>
  An accepted layout separates its groups: no Spark belongs to two groups, no cable is owned by two
  groups, and every group has a fabric on the layout's ring.
\<close>

theorem fabric_layout_disjoint:
  assumes "FabricLayout_new name n groups egress = Inr L"
  shows "fl_groups L = groups \<and> distinct (layout_positions L)
    \<and> (\<exists>css. map_res group_cable_texts groups = Inr css \<and> distinct (concat css))
    \<and> (\<forall>g\<in>set groups. gr_ring_size g = n \<and> is_ok (group_fabric g))"
proof -
  obtain seen owned where f: "fold_res (claim_group n) groups ([], []) = Inr (seen, owned)" and L: "fl_groups L = groups"
    using assms by (auto simp: FabricLayout_new_def bind_res_Inr split: if_splits)
  have e: "distinct ([] :: int list)" "distinct ([] :: string list)" by simp_all
  note c0 = claim_groups [OF f e, unfolded append_Nil]
  note c = c0 [THEN conjunct1] c0 [THEN conjunct2, THEN conjunct1]
    c0 [THEN conjunct2, THEN conjunct2, THEN conjunct2, THEN conjunct1]
    c0 [THEN conjunct2, THEN conjunct2, THEN conjunct2, THEN conjunct2]
  note ex = c0 [THEN conjunct2, THEN conjunct2, THEN conjunct1]
  obtain css where css: "map_res group_cable_texts groups = Inr css" "owned = concat css" by (rule exE [OF ex]) (elim conjE)
  have "is_ok (group_fabric g)" if g: "g \<in> set groups" for g
  proof -
    from g obtain i where i: "i < length groups" "groups ! i = g" by (auto simp: in_set_conv_nth)
    have "group_cable_texts g = Inr (css ! i)" using map_res_nth [OF css(1) i(1)] unfolding i(2) .
    then show ?thesis by (auto simp: group_cable_texts_def bind_res_Inr)
  qed
  moreover have "distinct (layout_positions L)" using c L by (simp add: layout_positions_def)
  ultimately show ?thesis using c(3,4) css L by simp
qed

theorem fabric_layout_disjoint_witness:
  "\<exists>L. resolve_layout 8 (Some ''2xTP4'') None None None = Inr L \<and> distinct (layout_positions L) \<and> length (fl_groups L) = 2"
proof -
  let ?gs = "[\<lparr>gr_members = [0, 1, 2, 3], gr_ring_size = 8\<rparr>, \<lparr>gr_members = [4, 5, 6, 7], gr_ring_size = 8\<rparr>]"
  have r: "resolve_layout 8 (Some ''2xTP4'') None None None = FabricLayout_new ''2xTP4'' 8 ?gs ''sibling''" by code_simp
  have "is_ok (FabricLayout_new ''2xTP4'' 8 ?gs ''sibling'')" by code_simp
  then obtain L where L: "FabricLayout_new ''2xTP4'' 8 ?gs ''sibling'' = Inr L" by (auto simp: is_ok_iff)
  from fabric_layout_disjoint [OF L] show ?thesis using r L by auto
qed

end
