(* ===== verification/RelayPlan.thy ===== *)
theory RelayPlan
  imports FabricLayout
begin

text \<open>
  The relay plan of a layout (\<open>fabric/plan.py\<close>): the facts of the Sparks, the origin routes, relay filters
  and marker rules of every carried path, the plan of a group with its checks, the frame that travels
  through the plan's objects, and the isolation rules.
\<close>

section \<open>Tags and names\<close>

abbreviation (input) ETH_P_IP :: int where "ETH_P_IP \<equiv> 2048"
abbreviation (input) TAG_BASE :: int where "TAG_BASE \<equiv> 0x88B4"
abbreviation (input) MAX_TAG :: int where "MAX_TAG \<equiv> 7"

definition relay_tag :: "int \<Rightarrow> py_error + int" where
  "relay_tag k = (if \<not> (0 \<le> k \<and> k \<le> MAX_TAG) then Inl (FabricError ''relay count is outside the tags'' [k])
    else Inr (if k = 0 then ETH_P_IP else TAG_BASE + k))"

definition relays_left :: "int \<Rightarrow> int option" where
  "relays_left ethertype = (if ethertype = ETH_P_IP then Some 0
    else let k = ethertype - TAG_BASE in if 1 \<le> k \<and> k \<le> MAX_TAG then Some k else None)"

definition role_of_netdev :: "Role list \<Rightarrow> string \<Rightarrow> py_error + Role" where
  "role_of_netdev R netdev = (case find (\<lambda>r. role_netdev r = netdev) (rev R) of
     None \<Rightarrow> Inl (FabricError ''not one of the fabric network devices'' []) | Some r \<Rightarrow> Inr r)"

definition class_name :: "bool \<Rightarrow> string" where
  "class_name secondary = (if secondary then ''secondary'' else ''primary'')"

text \<open>\<open>ipaddress.IPv4Address(text)\<close> as its number: four decimal octets without leading zeros.\<close>

definition octet :: "string \<Rightarrow> int option" where
  "octet s = (if s \<noteq> [] \<and> length s \<le> 3 \<and> list_all is_digit s \<and> (hd s \<noteq> CHR ''0'' \<or> length s = 1) \<and> digits_val s \<le> 255
    then Some (int (digits_val s)) else None)"

definition ipv4_address :: "string \<Rightarrow> int option" where
  "ipv4_address s = (case map octet (split_on (CHR ''.'') s) of
     [Some a, Some b, Some c, Some d] \<Rightarrow> Some (((a * 256 + b) * 256 + c) * 256 + d) | _ \<Rightarrow> None)"

definition address_key :: "string \<Rightarrow> int \<times> int \<times> string" where
  "address_key s = (case ipv4_address s of Some n \<Rightarrow> (0, n, []) | None \<Rightarrow> (1, 0, s))"

section \<open>Facts\<close>

record Port =
  pt_netdev :: string
  pt_mac :: string
  pt_address :: string
  pt_prefixlen :: "int option"

text \<open>The network of a port: its masked address and prefix length.\<close>

definition port_network :: "Port \<Rightarrow> (int \<times> int) option" where
  "port_network p = (case pt_prefixlen p of
     None \<Rightarrow> None
   | Some len \<Rightarrow> (case ipv4_address (pt_address p) of
       None \<Rightarrow> None
     | Some a \<Rightarrow> if 0 \<le> len \<and> len \<le> 32 then Some (a - a mod 2 ^ nat (32 - len), len) else None))"

record SparkFacts =
  sf_position :: int
  sf_name :: string
  sf_ports :: "Port list"

definition spark_port :: "SparkFacts \<Rightarrow> string \<Rightarrow> Port option" where
  "spark_port s netdev = find (\<lambda>p. pt_netdev p = netdev) (sf_ports s)"

record Facts =
  fa_symbolic :: bool
  fa_sparks :: "(int, SparkFacts) dict"
  fa_addresses :: "(string, (int \<times> string) list) dict"
  fa_macs :: "(string, (int \<times> string) list) dict"

definition note_ports ::
  "(Port \<Rightarrow> string) \<Rightarrow> SparkFacts list \<Rightarrow> (string, (int \<times> string) list) dict" where
  "note_ports value sparks = foldl (\<lambda>d (k, owner). dappend k owner d) []
    (concat (map (\<lambda>s. map (\<lambda>p. (value p, sf_position s, pt_netdev p)) (sf_ports s)) sparks))"

definition Facts_new :: "SparkFacts list \<Rightarrow> bool \<Rightarrow> Facts" where
  "Facts_new sparks symbolic = (let d = foldl (\<lambda>d s. dset (sf_position s) s d) [] sparks in
    \<lparr>fa_symbolic = symbolic, fa_sparks = d, fa_addresses = note_ports pt_address (map snd d),
      fa_macs = note_ports (\<lambda>p. map lower_char (pt_mac p)) (map snd d)\<rparr>)"

definition facts_positions :: "Facts \<Rightarrow> int list" where
  "facts_positions F = sort (map fst (fa_sparks F))"

definition facts_spark :: "Facts \<Rightarrow> int \<Rightarrow> py_error + SparkFacts" where
  "facts_spark F position = (case dget (fa_sparks F) position of
     None \<Rightarrow> Inl (FabricError ''no facts for the Spark at ring position'' [position]) | Some s \<Rightarrow> Inr s)"

definition facts_name :: "Facts \<Rightarrow> int \<Rightarrow> string" where
  "facts_name F position = (case dget (fa_sparks F) position of
     Some s \<Rightarrow> sf_name s | None \<Rightarrow> ''position '' @ str_of_int position)"

definition facts_port :: "Facts \<Rightarrow> int \<Rightarrow> string \<Rightarrow> py_error + Port" where
  "facts_port F position netdev = bind_res (facts_spark F position) (\<lambda>s. case spark_port s netdev of
     None \<Rightarrow> Inl (FabricError ''Spark has no address or MAC for the device'' [position]) | Some p \<Rightarrow> Inr p)"

definition sole_owner :: "(int \<times> string) list \<Rightarrow> (int \<times> string) option" where
  "sole_owner owners = (case owners of [w] \<Rightarrow> Some w | _ \<Rightarrow> None)"

definition find_address :: "Facts \<Rightarrow> string \<Rightarrow> (int \<times> string) option" where
  "find_address F address = sole_owner (dget_or (fa_addresses F) address [])"

definition find_mac :: "Facts \<Rightarrow> string \<Rightarrow> (int \<times> string) option" where
  "find_mac F mac = sole_owner (dget_or (fa_macs F) (map lower_char mac) [])"

definition facts_problems :: "Facts \<Rightarrow> (string \<times> string \<times> (int \<times> string) list) list" where
  "facts_problems F = concat (map (\<lambda>(label, table). map (\<lambda>(v, owners). (label, v, owners))
      (filter (\<lambda>(_, owners). length owners > 1) (ditems table)))
    [(''address'', fa_addresses F), (''MAC'', fa_macs F)])"

definition symbolic_port :: "string \<Rightarrow> string \<Rightarrow> Port" where
  "symbolic_port name netdev = \<lparr>pt_netdev = netdev, pt_mac = ''<'' @ name @ '':'' @ netdev @ '':mac>'',
    pt_address = ''<'' @ name @ '':'' @ netdev @ ''>'', pt_prefixlen = None\<rparr>"

definition symbolic_for :: "Role list \<Rightarrow> string list \<Rightarrow> Facts" where
  "symbolic_for R names = Facts_new (map (\<lambda>(i, name). \<lparr>sf_position = int i, sf_name = name,
    sf_ports = map (\<lambda>r. symbolic_port name (role_netdev r)) R\<rparr>) (List.enumerate 0 names)) True"

section \<open>Plan objects\<close>

text \<open>A SIRCL lane a route carries is named by rank, peer and lane.\<close>

record OriginRoute =
  or_destination :: string
  or_netdev :: string
  or_device :: string
  or_source :: string
  or_next_mac :: string
  or_tag :: int
  or_peer :: int
  or_peer_netdev :: string
  or_hops :: int
  or_relays :: "int list"
  or_cables :: "string list"
  or_owned_cables :: "string list"
  or_lanes :: "(int \<times> int \<times> int) list"

record RelayFilter =
  rf_in_netdev :: string
  rf_k :: int
  rf_out_netdev :: string
  rf_next_mac :: string
  rf_next_position :: int
  rf_next_netdev :: string
  rf_direction :: string
  rf_lane_class :: string

definition filter_pref :: "RelayFilter \<Rightarrow> int" where
  "filter_pref f = 10 + rf_k f"

definition filter_handle :: "RelayFilter \<Rightarrow> int" where
  "filter_handle f = rf_k f"

definition filter_protocol :: "RelayFilter \<Rightarrow> py_error + int" where
  "filter_protocol f = relay_tag (rf_k f)"

definition filter_new_type :: "RelayFilter \<Rightarrow> py_error + int" where
  "filter_new_type f = relay_tag (rf_k f - 1)"

record MarkerRules =
  mk_device :: string
  mk_rules :: "(string \<times> int) list"

record SparkPlan =
  sp_position :: int
  sp_name :: string
  sp_group :: string
  sp_routes :: "OriginRoute list"
  sp_filters :: "RelayFilter list"

definition place_in :: "string list \<Rightarrow> string \<Rightarrow> nat" where
  "place_in names name = length (takeWhile (\<lambda>x. x \<noteq> name) names)"

definition spark_markers :: "Role list \<Rightarrow> SparkPlan \<Rightarrow> MarkerRules list" where
  "spark_markers R s = map (\<lambda>(device, rules). \<lparr>mk_device = device, mk_rules = sort_key (\<lambda>r. address_key (fst r)) rules\<rparr>)
    (sort_key (\<lambda>e. place_in (map role_device R) (fst e))
      (foldl (\<lambda>d r. dappend (or_device r) (or_destination r, or_tag r) d) [] (sp_routes s)))"

definition spark_marker :: "Role list \<Rightarrow> SparkPlan \<Rightarrow> string \<Rightarrow> MarkerRules option" where
  "spark_marker R s device = find (\<lambda>m. mk_device m = device) (spark_markers R s)"

definition filter_netdevs :: "Role list \<Rightarrow> SparkPlan \<Rightarrow> string list" where
  "filter_netdevs R s = filter (\<lambda>n. list_ex (\<lambda>f. rf_in_netdev f = n) (sp_filters s)) (map role_netdev R)"

definition route_to :: "SparkPlan \<Rightarrow> string \<Rightarrow> OriginRoute option" where
  "route_to s destination = find (\<lambda>r. or_destination r = destination) (sp_routes s)"

definition filter_for :: "SparkPlan \<Rightarrow> string \<Rightarrow> int \<Rightarrow> RelayFilter option" where
  "filter_for s netdev k = find (\<lambda>f. rf_in_netdev f = netdev \<and> rf_k f = k) (sp_filters s)"

record RelayQueue =
  rq_position :: int
  rq_in_netdev :: string
  rq_out_netdev :: string
  rq_lanes :: "(int \<times> int \<times> int) list"

record GroupPlan =
  gp_group :: Group
  gp_layout :: Layout
  gp_sircl :: GroupRoutes
  gp_relay_egress :: string
  gp_max_relays :: int
  gp_sparks :: "SparkPlan list"
  gp_queues :: "RelayQueue list"
  gp_busiest_queue :: int
  gp_load_factor :: rat
  gp_digest :: string

definition per_peer_bytes :: "GroupPlan \<Rightarrow> int option" where
  "per_peer_bytes P = (if gp_load_factor P = 0 then None else Some \<lfloor>393216 / gp_load_factor P\<rfloor>)"

definition group_spark :: "GroupPlan \<Rightarrow> int \<Rightarrow> SparkPlan option" where
  "group_spark P position = find (\<lambda>s. sp_position s = position) (gp_sparks P)"

record LayoutPlan =
  lp_layout :: FabricLayout
  lp_groups :: "GroupPlan list"
  lp_symbolic :: bool

fun find_in_groups :: "int \<Rightarrow> GroupPlan list \<Rightarrow> (GroupPlan \<times> SparkPlan) option" where
  "find_in_groups position [] = None"
| "find_in_groups position (g # gs) = (case group_spark g position of
     Some s \<Rightarrow> Some (g, s) | None \<Rightarrow> find_in_groups position gs)"

definition layout_find :: "LayoutPlan \<Rightarrow> int \<Rightarrow> (GroupPlan \<times> SparkPlan) option" where
  "layout_find P position = find_in_groups position (lp_groups P)"

section \<open>Carried paths\<close>

type_synonym route_table = "(int, (string, OriginRoute) dict) dict"
type_synonym filter_table = "(int, (string \<times> int, RelayFilter) dict) dict"

definition carry_route :: "Role list \<Rightarrow> Facts \<Rightarrow> bool \<Rightarrow> Step list \<Rightarrow> py_error + OriginRoute" where
  "carry_route R F secondary path =
    (let hops = int (length path); start = hd path; finish = last path in
     bind_res (role_at R (s_src_port start) secondary) (\<lambda>local.
     bind_res (role_at R (s_dst_port finish) secondary) (\<lambda>remote.
     bind_res (role_at R (s_dst_port start) secondary) (\<lambda>first.
     bind_res (facts_port F (s_dst finish) (role_netdev remote)) (\<lambda>target_port.
     bind_res (facts_port F (s_src start) (role_netdev local)) (\<lambda>origin_port.
     bind_res (facts_port F (s_dst start) (role_netdev first)) (\<lambda>next_port.
     bind_res (relay_tag (hops - 1)) (\<lambda>t.
     Inr \<lparr>or_destination = pt_address target_port, or_netdev = role_netdev local, or_device = role_device local,
       or_source = pt_address origin_port, or_next_mac = pt_mac next_port, or_tag = t, or_peer = s_dst finish,
       or_peer_netdev = role_netdev remote, or_hops = hops, or_relays = map s_dst (butlast path),
       or_cables = map step_text path, or_owned_cables = map (\<lambda>s. cable_text (s_cable s)) path, or_lanes = []\<rparr>))))))))"

text \<open>\<open>table[position][key] = value\<close>, unless another value is there already.\<close>

definition put_once ::
  "py_error \<Rightarrow> int \<Rightarrow> 'k \<Rightarrow> 'v \<Rightarrow> (int, ('k, 'v) dict) dict \<Rightarrow> py_error + (int, ('k, 'v) dict) dict" where
  "put_once conflict position key v table = (case dget table position of
     None \<Rightarrow> Inl (KeyErr ''position'' [position])
   | Some d \<Rightarrow> (case dget d key of
       Some w \<Rightarrow> if w \<noteq> v then Inl conflict else Inr (dset position (dset key v d) table)
     | None \<Rightarrow> Inr (dset position (dset key v d) table)))"

definition carry_filter ::
  "Role list \<Rightarrow> Facts \<Rightarrow> string \<Rightarrow> int \<Rightarrow> bool \<Rightarrow> nat \<times> Step \<times> Step \<Rightarrow> filter_table \<Rightarrow> py_error + filter_table" where
  "carry_filter R F egress hops secondary e filters = (case e of (index, arrive, leave) \<Rightarrow>
    let relay = s_dst arrive in
    if s_src leave \<noteq> relay \<or> s_src_port leave \<noteq> 1 - s_dst_port arrive
    then Inl (FabricError ''the path does not pass through Spark'' [relay])
    else
      bind_res (role_at R (s_dst_port arrive) secondary) (\<lambda>in_role.
      bind_res (role_at R (s_src_port leave) (if egress = ''same'' then secondary else \<not> secondary)) (\<lambda>out_role.
      bind_res (role_at R (s_dst_port leave) secondary) (\<lambda>next_role.
      bind_res (facts_port F (s_dst leave) (role_netdev next_role)) (\<lambda>next_port.
      let k = hops - 1 - int index;
          f = \<lparr>rf_in_netdev = role_netdev in_role, rf_k = k, rf_out_netdev = role_netdev out_role,
            rf_next_mac = pt_mac next_port, rf_next_position = s_dst leave, rf_next_netdev = role_netdev next_role,
            rf_direction = (if s_src_port leave = 0 then ''cw'' else ''ccw''), rf_lane_class = class_name secondary\<rparr>
      in put_once (FabricError ''Spark would need two relay filters for a tag'' [relay, k]) relay (role_netdev in_role, k) f
           filters)))))"

definition carry ::
  "Role list \<Rightarrow> Facts \<Rightarrow> string \<Rightarrow> Step list \<Rightarrow> bool \<Rightarrow> route_table \<times> filter_table \<Rightarrow> py_error + route_table \<times> filter_table" where
  "carry R F egress path secondary st =
    bind_res (carry_route R F secondary path) (\<lambda>rt.
    bind_res (put_once (FabricError ''two paths reach a destination differently'' [s_src (hd path)]) (s_src (hd path))
        (or_destination rt) rt (fst st)) (\<lambda>routes.
    bind_res (fold_res (carry_filter R F egress (int (length path)) secondary)
        (zip [0..<length path - 1] (zip path (tl path))) (snd st)) (\<lambda>filters.
    Inr (routes, filters))))"

section \<open>A frame on the ring\<close>

datatype trace_outcome = Delivered | Dropped | Misdelivered | Unrouted | Looped

record Trace =
  tr_outcome :: trace_outcome
  tr_hops :: "(int \<times> string) list"

text \<open>A frame that leaves \<open>fr_here\<close> through a device, for the holder of a MAC, with its EtherType.\<close>

record frame =
  fr_mac :: string
  fr_type :: int
  fr_here :: int
  fr_out :: string

text \<open>What one cable does to a frame: it ends, at a receiver or at none, or a relay forwards it.\<close>

datatype verdict =
  Ends trace_outcome "(int \<times> string) option"
| Forwards "int \<times> string" frame

text \<open>A received frame without relays left is for its receiver; a tagged one needs the relay's filter for its tag.\<close>

definition receive_frame ::
  "(int, SparkPlan) dict \<Rightarrow> Facts \<Rightarrow> string \<Rightarrow> int \<Rightarrow> int \<times> string \<Rightarrow> py_error + verdict" where
  "receive_frame sparks F destination ethertype receiver = (case relays_left ethertype of
     None \<Rightarrow> Inr (Ends Dropped (Some receiver))
   | Some k \<Rightarrow>
       if k = 0 then bind_res (facts_port F (fst receiver) (snd receiver)) (\<lambda>p.
         Inr (Ends (if pt_address p = destination then Delivered else Misdelivered) (Some receiver)))
       else case (case dget sparks (fst receiver) of None \<Rightarrow> None | Some s \<Rightarrow> filter_for s (snd receiver) k) of
         None \<Rightarrow> Inr (Ends Dropped (Some receiver))
       | Some f \<Rightarrow> bind_res (relay_tag (k - 1)) (\<lambda>t.
           Inr (Forwards receiver
             \<lparr>fr_mac = rf_next_mac f, fr_type = t, fr_here = fst receiver, fr_out = rf_out_netdev f\<rparr>)))"

definition cross_cable ::
  "Role list \<Rightarrow> (int, SparkPlan) dict \<Rightarrow> Facts \<Rightarrow> int \<Rightarrow> string \<Rightarrow> frame \<Rightarrow> py_error + verdict" where
  "cross_cable R sparks F ring_size destination fr =
    bind_res (role_of_netdev R (fr_out fr)) (\<lambda>role.
    let port = role_port role;
        there = (if port = 0 then (fr_here fr + 1) mod ring_size else (fr_here fr - 1) mod ring_size)
    in case find_mac F (fr_mac fr) of
      None \<Rightarrow> Inr (Ends Misdelivered None)
    | Some receiver \<Rightarrow>
        if fst receiver \<noteq> there then Inr (Ends Misdelivered None)
        else bind_res (role_of_netdev R (snd receiver)) (\<lambda>received.
          if role_port received \<noteq> 1 - port then Inr (Ends Misdelivered None)
          else receive_frame sparks F destination (fr_type fr) receiver))"

fun travel ::
  "Role list \<Rightarrow> (int, SparkPlan) dict \<Rightarrow> Facts \<Rightarrow> int \<Rightarrow> string \<Rightarrow> nat \<Rightarrow> frame \<Rightarrow> (int \<times> string) list \<Rightarrow> py_error + Trace" where
  "travel R sparks F n dest 0 fr hops = Inr \<lparr>tr_outcome = Looped, tr_hops = hops\<rparr>"
| "travel R sparks F n dest (Suc left) fr hops =
    bind_res (cross_cable R sparks F n dest fr) (\<lambda>v. case v of
      Ends outcome None \<Rightarrow> Inr \<lparr>tr_outcome = outcome, tr_hops = hops\<rparr>
    | Ends outcome (Some receiver) \<Rightarrow> Inr \<lparr>tr_outcome = outcome, tr_hops = hops @ [receiver]\<rparr>
    | Forwards receiver next \<Rightarrow> travel R sparks F n dest left next (hops @ [receiver]))"

definition origin_frame :: "int \<Rightarrow> OriginRoute \<Rightarrow> frame" where
  "origin_frame origin r = \<lparr>fr_mac = or_next_mac r, fr_type = or_tag r, fr_here = origin, fr_out = or_netdev r\<rparr>"

definition trace ::
  "Role list \<Rightarrow> (int, SparkPlan) dict \<Rightarrow> Facts \<Rightarrow> int \<Rightarrow> int \<Rightarrow> string \<Rightarrow> py_error + Trace" where
  "trace R sparks F ring_size origin destination =
    (case (case dget sparks origin of None \<Rightarrow> None | Some s \<Rightarrow> route_to s destination) of
       None \<Rightarrow> Inr \<lparr>tr_outcome = Unrouted, tr_hops = []\<rparr>
     | Some r \<Rightarrow> travel R sparks F ring_size destination (nat (2 * MAX_TAG)) (origin_frame origin r) [])"

section \<open>The plan of a group\<close>

definition plan_path ::
  "Role list \<Rightarrow> Facts \<Rightarrow> string \<Rightarrow> int \<Rightarrow> Step list \<Rightarrow> route_table \<times> filter_table \<Rightarrow> py_error + route_table \<times> filter_table" where
  "plan_path R F egress limit path st =
    (if length path < 2 then Inr st
     else if int (length path) - 1 > limit
     then Inl (FabricError ''relays above the qualified limit'' [int (length path) - 1, limit])
     else fold_res (carry R F egress path) [False, True] st)"

definition plan_pair ::
  "Role list \<Rightarrow> Facts \<Rightarrow> string \<Rightarrow> int \<Rightarrow> Fabric \<Rightarrow> int \<times> int \<Rightarrow> route_table \<times> filter_table
    \<Rightarrow> py_error + route_table \<times> filter_table" where
  "plan_pair R F egress limit G e st =
    (if fst e = snd e then Inr st
     else bind_res (shortest_paths G (fst e) (snd e)) (\<lambda>paths. fold_res (plan_path R F egress limit) paths st))"

type_synonym carried_lanes = "(int \<times> string, (int \<times> int \<times> int) list) dict"

definition carried_lane ::
  "Facts \<Rightarrow> Layout \<Rightarrow> route_table \<Rightarrow> int \<times> int \<times> LaneRoute \<Rightarrow> carried_lanes \<Rightarrow> py_error + carried_lanes" where
  "carried_lane F L routes e lanes_of = (case e of (rank, peer, lane) \<Rightarrow>
    if lane_hops lane < 2 then Inr lanes_of
    else
      bind_res (py_index (l_positions L) rank) (\<lambda>origin.
      bind_res (py_index (l_positions L) peer) (\<lambda>there.
      bind_res (facts_port F there (role_netdev (r_remote lane))) (\<lambda>p.
      bind_res (case dget routes origin of None \<Rightarrow> Inl (KeyErr ''position'' [origin]) | Some d \<Rightarrow> Inr d) (\<lambda>d.
      bind_res (relay_tag (int (length (lane_relays lane)))) (\<lambda>t.
      let uncarried = Inl (FabricError ''SIRCL lane is not carried by the relay plan'' [r_lane lane, rank, peer]) in
      case dget d (pt_address p) of
        None \<Rightarrow> uncarried
      | Some rt \<Rightarrow>
          if or_netdev rt \<noteq> role_netdev (r_local lane) \<or> or_cables rt \<noteq> lane_cables lane \<or> or_tag rt \<noteq> t
          then uncarried
          else Inr (dappend (origin, pt_address p) (rank, peer, r_lane lane) lanes_of)))))))"

definition sircl_lanes :: "GroupRoutes \<Rightarrow> (int \<times> int \<times> LaneRoute) list" where
  "sircl_lanes G = concat (map (\<lambda>(rank, peers). concat (map (\<lambda>(peer, lanes). map (\<lambda>l. (int rank, peer, l)) lanes)
    (ditems peers))) (List.enumerate 0 (g_ranks G)))"

definition spark_plan ::
  "Role list \<Rightarrow> Facts \<Rightarrow> string \<Rightarrow> route_table \<Rightarrow> filter_table \<Rightarrow> carried_lanes \<Rightarrow> int \<Rightarrow> py_error + SparkPlan" where
  "spark_plan R F label routes filters lanes_of position =
    (case (dget routes position, dget filters position) of
       (Some rs, Some fs) \<Rightarrow>
         Inr \<lparr>sp_position = position, sp_name = facts_name F position, sp_group = label,
           sp_routes = map (\<lambda>r. r\<lparr>or_lanes := dget_or lanes_of (position, or_destination r) []\<rparr>)
             (sort_key (\<lambda>r. (place_in (map role_netdev R) (or_netdev r), or_hops r, address_key (or_destination r)))
               (map snd rs)),
           sp_filters = sort_key (\<lambda>f. (place_in (map role_netdev R) (rf_in_netdev f), rf_k f)) (map snd fs)\<rparr>
     | _ \<Rightarrow> Inl (KeyErr ''position'' [position]))"

definition check_delivery ::
  "Role list \<Rightarrow> (int, SparkPlan) dict \<Rightarrow> Facts \<Rightarrow> int \<Rightarrow> int list \<Rightarrow> int \<times> OriginRoute \<Rightarrow> py_error + unit" where
  "check_delivery R sparks F ring_size members e =
    bind_res (trace R sparks F ring_size (fst e) (or_destination (snd e))) (\<lambda>result.
    if tr_outcome result \<noteq> Delivered \<or> last (tr_hops result) \<noteq> (or_peer (snd e), or_peer_netdev (snd e))
    then Inl (FabricError ''the route does not deliver through the plan's relays'' [fst e])
    else if list_ex (\<lambda>(position, _). position \<notin> set members) (tr_hops result)
    then Inl (FabricError ''the route crosses Sparks outside the group'' [fst e])
    else Inr ())"

definition plan_queue ::
  "Role list \<Rightarrow> string \<Rightarrow> queue_key \<times> (int \<times> int \<times> int) list \<Rightarrow> py_error + RelayQueue" where
  "plan_queue R egress e = (case e of ((relay, secondary, egress_port), members) \<Rightarrow>
    bind_res (role_at R (1 - egress_port) secondary) (\<lambda>in_role.
    bind_res (role_at R egress_port (if egress = ''same'' then secondary else \<not> secondary)) (\<lambda>out_role.
    Inr \<lparr>rq_position = relay, rq_in_netdev = role_netdev in_role, rq_out_netdev = role_netdev out_role,
      rq_lanes = members\<rparr>)))"

text \<open>\<open>digest\<close> stands for the hash of the rendered plan.\<close>

definition build_group_plan ::
  "Role list \<Rightarrow> (string \<Rightarrow> string \<Rightarrow> SparkPlan list \<Rightarrow> string) \<Rightarrow> Group \<Rightarrow> Facts \<Rightarrow> string \<Rightarrow> int \<Rightarrow> py_error + GroupPlan" where
  "build_group_plan R digest g F egress limit =
    (if egress \<notin> set RELAY_EGRESS then Inl (FabricError ''relay egress must be same or sibling'' [])
     else if \<not> (0 \<le> limit \<and> limit \<le> MAX_TAG)
     then Inl (FabricError ''the relay limit must be between 0 and 7'' [limit])
     else
       bind_res (group_fabric g) (\<lambda>L.
       let members = l_positions L; label = group_label g in
       bind_res (fold_res (plan_pair R F egress limit (l_fabric L)) (List.product members members)
           (map (\<lambda>p. (p, [])) members, map (\<lambda>p. (p, [])) members)) (\<lambda>(routes, filters).
       bind_res (derive_routes R L 2) (\<lambda>sircl.
       bind_res (fold_res (carried_lane F L routes) (sircl_lanes sircl) []) (\<lambda>lanes_of.
       bind_res (map_res (spark_plan R F label routes filters lanes_of) (group_order g)) (\<lambda>sparks.
       let by_position = foldl (\<lambda>d s. dset (sp_position s) s d) [] sparks in
       bind_res (map_res (check_delivery R by_position F (gr_ring_size g) members)
           (concat (map (\<lambda>s. map (Pair (sp_position s)) (sp_routes s)) sparks))) (\<lambda>_.
       bind_res (relay_queues R None L (map (route_map sircl) (py_range (layout_world L)))) (\<lambda>found.
       bind_res (map_res (plan_queue R egress) (ditems found)) (\<lambda>queues.
       Inr \<lparr>gp_group = g, gp_layout = L, gp_sircl = sircl, gp_relay_egress = egress, gp_max_relays = limit,
         gp_sparks = sparks, gp_queues = queues, gp_busiest_queue = fst (relay_load sircl),
         gp_load_factor = snd (relay_load sircl), gp_digest = digest label egress sparks\<rparr>)))))))))"

section \<open>Isolation\<close>

datatype plan_problem =
  ForeignSpark int
| ForeignPeer int int
| ForeignPath int
| ForeignCable int
| ForeignNext int int
| SharedMembers "int list"
| SharedCableText string
| SharedLane shared_resource

definition route_problems :: "int list \<Rightarrow> string list \<Rightarrow> int \<Rightarrow> OriginRoute \<Rightarrow> plan_problem list" where
  "route_problems members owned position r =
    (if or_peer r \<notin> set members then [ForeignPeer position (or_peer r)] else [])
    @ (if \<not> set (or_relays r) \<subseteq> set members \<or> \<not> set (or_owned_cables r) \<subseteq> set owned then [ForeignPath position] else [])"

definition filter_problems ::
  "Role list \<Rightarrow> Fabric \<Rightarrow> int list \<Rightarrow> int \<Rightarrow> RelayFilter \<Rightarrow> py_error + plan_problem list" where
  "filter_problems R G members position f =
    bind_res (map_res (role_of_netdev R) [rf_in_netdev f, rf_out_netdev f]) (\<lambda>roles.
    Inr (concat (map (\<lambda>r. if cable_at G position (role_port r) = None then [ForeignCable position] else []) roles)
      @ (if rf_next_position f \<notin> set members then [ForeignNext position (rf_next_position f)] else [])))"

definition spark_problems ::
  "Role list \<Rightarrow> Fabric \<Rightarrow> int list \<Rightarrow> string list \<Rightarrow> SparkPlan \<Rightarrow> py_error + plan_problem list" where
  "spark_problems R G members owned s =
    bind_res (map_res (filter_problems R G members (sp_position s)) (sp_filters s)) (\<lambda>fs.
    Inr ((if sp_position s \<notin> set members then [ForeignSpark (sp_position s)] else [])
      @ concat (map (route_problems members owned (sp_position s)) (sp_routes s)) @ concat fs))"

definition group_problems :: "Role list \<Rightarrow> GroupPlan \<Rightarrow> py_error + plan_problem list" where
  "group_problems R P = bind_res (group_cable_texts (gp_group P)) (\<lambda>owned.
    bind_res (map_res (spark_problems R (l_fabric (gp_layout P)) (gr_members (gp_group P)) owned) (gp_sparks P))
      (\<lambda>ps. Inr (concat ps)))"

definition used_cables :: "GroupPlan \<Rightarrow> string list" where
  "used_cables P = concat (map (\<lambda>s. concat (map or_owned_cables (sp_routes s))) (gp_sparks P))"

definition group_pair_problems :: "GroupPlan list \<Rightarrow> nat \<times> nat \<Rightarrow> py_error + plan_problem list" where
  "group_pair_problems plans e = (let a = plans ! fst e; b = plans ! snd e;
      shared = sort (filter (\<lambda>m. m \<in> set (gr_members (gp_group b))) (remdups (gr_members (gp_group a)))) in
    bind_res (group_cable_texts (gp_group a)) (\<lambda>own_a.
    bind_res (group_cable_texts (gp_group b)) (\<lambda>own_b.
    Inr ((if shared \<noteq> [] then [SharedMembers shared] else [])
      @ map SharedCableText (sort (filter (\<lambda>c. c \<in> set (own_b @ used_cables b)) (remdups (own_a @ used_cables a))))))))"

definition plan_isolation_problems :: "Role list \<Rightarrow> GroupPlan list \<Rightarrow> py_error + plan_problem list" where
  "plan_isolation_problems R plans =
    bind_res (map_res (group_problems R) plans) (\<lambda>own.
    bind_res (map_res (group_pair_problems plans)
        (concat (map (\<lambda>i. map (Pair i) [Suc i..<length plans]) [0..<length plans]))) (\<lambda>pairs.
    Inr (concat own @ concat pairs @ map SharedLane (isolation_problems (map gp_sircl plans)))))"

definition layout_isolation_problems :: "Role list \<Rightarrow> FabricLayout \<Rightarrow> py_error + plan_problem list" where
  "layout_isolation_problems R L =
    bind_res (map_res (\<lambda>g. bind_res (group_fabric g) (\<lambda>l. derive_routes R l 2)) (fl_groups L)) (\<lambda>sircls.
    Inr (map SharedLane (isolation_problems sircls)))"

definition build_layout_plan ::
  "Role list \<Rightarrow> (string \<Rightarrow> string \<Rightarrow> SparkPlan list \<Rightarrow> string) \<Rightarrow> FabricLayout \<Rightarrow> Facts \<Rightarrow> Group list option \<Rightarrow> int
    \<Rightarrow> py_error + LayoutPlan" where
  "build_layout_plan R digest L F groups limit =
    bind_res (layout_isolation_problems R L) (\<lambda>lane_problems.
    bind_res (map_res (\<lambda>g. build_group_plan R digest g F (fl_relay_egress L) limit)
        (case groups of None \<Rightarrow> fl_groups L | Some gs \<Rightarrow> gs)) (\<lambda>plans.
    bind_res (plan_isolation_problems R plans) (\<lambda>problems.
    if lane_problems @ problems \<noteq> [] then Inl (FabricError ''isolation'' [int (length (lane_problems @ problems))])
    else Inr \<lparr>lp_layout = L, lp_groups = plans, lp_symbolic = fa_symbolic F\<rparr>)))"

end
