(* ===== verification/RelayPlanFacts.thy ===== *)
theory RelayPlanFacts
  imports RelayPlan
begin

text \<open>
  The relay plan delivers: the tags count the relays down, every carried path has its route and its
  filters, an accepted group plan keeps its frames inside the group and delivers them, every SIRCL lane
  is carried, and an accepted layout plan is isolated.
\<close>

section \<open>Frames\<close>

lemma tag_is_relays: "relay_tag k = Inr t \<longleftrightarrow> relays_left t = Some k"
  by (auto simp: relay_tag_def relays_left_def Let_def)

lemma relay_tag_range: "relay_tag k = Inr t \<Longrightarrow> 0 \<le> k"
  by (auto simp: relay_tag_def split: if_splits)

lemma relays_left_range: "relays_left t = Some k \<Longrightarrow> 0 \<le> k \<and> k \<le> MAX_TAG"
  by (auto simp: relays_left_def Let_def split: if_splits)

text \<open>What a relay does to a frame, and what it leaves of the frame's tag.\<close>

lemma receive_forwards:
  "receive_frame sparks F dest t receiver = Inr (Forwards receiver' fr')
    \<Longrightarrow> receiver' = receiver \<and> fr_here fr' = fst receiver
      \<and> (\<exists>k > 0. relays_left t = Some k \<and> relays_left (fr_type fr') = Some (k - 1)
        \<and> (\<exists>s f. dget sparks (fst receiver) = Some s \<and> filter_for s (snd receiver) k = Some f
          \<and> fr_mac fr' = rf_next_mac f \<and> fr_out fr' = rf_out_netdev f))"
  unfolding receive_frame_def
  by (auto simp: bind_res_Inr tag_is_relays split: option.split_asm if_split_asm dest: relays_left_range)

lemma crossing_receives:
  assumes "cross_cable R sparks F n dest fr = Inr v" "v \<noteq> Ends Misdelivered None"
  shows "\<exists>receiver. find_mac F (fr_mac fr) = Some receiver
    \<and> fst receiver \<in> {(fr_here fr + 1) mod n, (fr_here fr - 1) mod n}
    \<and> receive_frame sparks F dest (fr_type fr) receiver = Inr v"
proof -
  obtain role where "role_of_netdev R (fr_out fr) = Inr role"
    and v: "(case find_mac F (fr_mac fr) of
      None \<Rightarrow> Inr (Ends Misdelivered None)
    | Some receiver \<Rightarrow>
        if fst receiver \<noteq> (if role_port role = 0 then (fr_here fr + 1) mod n else (fr_here fr - 1) mod n)
        then Inr (Ends Misdelivered None)
        else bind_res (role_of_netdev R (snd receiver)) (\<lambda>received.
          if role_port received \<noteq> 1 - role_port role then Inr (Ends Misdelivered None)
          else receive_frame sparks F dest (fr_type fr) receiver)) = Inr v"
    using assms(1) unfolding cross_cable_def bind_res_Inr Let_def by blast
  obtain receiver where r: "find_mac F (fr_mac fr) = Some receiver" using v assms(2) by (cases "find_mac F (fr_mac fr)") auto
  have here: "fst receiver = (if role_port role = 0 then (fr_here fr + 1) mod n else (fr_here fr - 1) mod n)"
    using v assms(2) r by (cases "fst receiver = (if role_port role = 0 then (fr_here fr + 1) mod n else (fr_here fr - 1) mod n)") simp_all
  have "receive_frame sparks F dest (fr_type fr) receiver = Inr v"
    using v assms(2) unfolding r option.case here by (simp add: bind_res_Inr del: split_paired_Ex split: if_split_asm)
  then show ?thesis using r here by auto
qed

lemma forward_relays:
  assumes "cross_cable R sparks F n dest fr = Inr (Forwards receiver fr')"
  shows "\<exists>k > 0. relays_left (fr_type fr) = Some k \<and> relays_left (fr_type fr') = Some (k - 1)
    \<and> fst receiver = fr_here fr' \<and> fr_here fr' \<in> {(fr_here fr + 1) mod n, (fr_here fr - 1) mod n}"
  using crossing_receives [OF assms] receive_forwards by fastforce

text \<open>The cables a frame can still cross: one for each relay left, and the last.\<close>

definition cables_left :: "frame \<Rightarrow> nat" where
  "cables_left fr = (case relays_left (fr_type fr) of None \<Rightarrow> 1 | Some k \<Rightarrow> Suc (nat k))"

lemma forward_cables_left:
  "cross_cable R sparks F n dest fr = Inr (Forwards receiver fr') \<Longrightarrow> cables_left fr = Suc (cables_left fr')"
  by (drule forward_relays) (auto simp: cables_left_def)

lemma cables_left_pos: "0 < cables_left fr"
  by (auto simp: cables_left_def split: option.splits)

lemma cables_left_max: "cables_left fr \<le> 8"
  using relays_left_range [of "fr_type fr"] by (auto simp: cables_left_def split: option.splits)

lemma ends_not_looped: "cross_cable R sparks F n dest fr = Inr (Ends r last_hop) \<Longrightarrow> r \<noteq> Looped"
  by (cases "Ends r last_hop = Ends Misdelivered None")
    (auto simp: receive_frame_def bind_res_Inr split: option.split_asm if_split_asm dest!: crossing_receives)

lemma travel_step:
  assumes "travel R sparks F n dest (Suc left) fr hops = Inr T"
  obtains (ended) r last_hop where "cross_cable R sparks F n dest fr = Inr (Ends r last_hop)" "tr_outcome T = r"
      "tr_hops T = hops @ (case last_hop of None \<Rightarrow> [] | Some receiver \<Rightarrow> [receiver])"
  | (relay) receiver fr' where "cross_cable R sparks F n dest fr = Inr (Forwards receiver fr')"
      "travel R sparks F n dest left fr' (hops @ [receiver]) = Inr T"
proof (cases "cross_cable R sparks F n dest fr")
  case (Inr v)
  then show thesis using assms that by (cases v) (auto split: option.split_asm)
qed (use assms in simp)

lemma travel_ends:
  "travel R sparks F n dest left fr hops = Inr T \<Longrightarrow> cables_left fr \<le> left
    \<Longrightarrow> tr_outcome T \<noteq> Looped \<and> length (tr_hops T) \<le> length hops + cables_left fr"
proof (induction left arbitrary: fr hops)
  case 0
  then show ?case using cables_left_pos [of fr] by simp
next
  case (Suc left)
  from Suc.prems(1) show ?case
  proof (cases rule: travel_step)
    case (ended r last_hop)
    then show ?thesis using ends_not_looped cables_left_pos [of fr] by (cases last_hop) force+
  next
    case (relay receiver fr')
    have left: "cables_left fr = Suc (cables_left fr')" using forward_cables_left [OF relay(1)] .
    then show ?thesis using Suc.IH [OF relay(2)] Suc.prems(2) by simp
  qed
qed


section \<open>The frames a route sends\<close>

text \<open>A relay forwards one frame as another, for a given destination of the group's ring.\<close>

inductive relayed :: "Role list \<Rightarrow> (int, SparkPlan) dict \<Rightarrow> Facts \<Rightarrow> int \<Rightarrow> string \<Rightarrow> frame \<Rightarrow> frame \<Rightarrow> bool"
  for R sparks F n dest where
  sent: "relayed R sparks F n dest fr fr"
| forwarded: "relayed R sparks F n dest fr fr'' \<Longrightarrow> cross_cable R sparks F n dest fr'' = Inr (Forwards receiver fr')
    \<Longrightarrow> relayed R sparks F n dest fr fr'"

inductive_cases relayedE: "relayed R sparks F n dest fr fr'"

lemma relayed_first:
  "relayed R sparks F n dest fr' fr'' \<Longrightarrow> cross_cable R sparks F n dest fr = Inr (Forwards receiver fr')
    \<Longrightarrow> relayed R sparks F n dest fr fr''"
  by (induction rule: relayed.induct) (auto intro: relayed.intros)

lemma relayed_split:
  "relayed R sparks F n dest fr fr'' \<Longrightarrow> fr'' = fr
    \<or> (\<exists>receiver fr'. cross_cable R sparks F n dest fr = Inr (Forwards receiver fr') \<and> relayed R sparks F n dest fr' fr'')"
  by (induction rule: relayed.induct) (auto intro: relayed.intros)

text \<open>The trace records every Spark a relayed frame is at, and the cables of a delivery are the tag's relays and one.\<close>

lemma travel_grows: "travel R sparks F n dest left fr hops = Inr T \<Longrightarrow> set hops \<subseteq> set (tr_hops T)"
proof (induction left arbitrary: fr hops)
  case (Suc left)
  from Suc.prems show ?case
  proof (cases rule: travel_step)
    case (relay receiver fr')
    then show ?thesis using Suc.IH [OF relay(2)] by auto
  qed simp
qed auto

lemma travel_visits:
  "travel R sparks F n dest left fr hops = Inr T \<Longrightarrow> cables_left fr \<le> left \<Longrightarrow> relayed R sparks F n dest fr fr''
    \<Longrightarrow> fr'' = fr \<or> fr_here fr'' \<in> fst ` set (tr_hops T)"
proof (induction left arbitrary: fr hops)
  case 0
  then show ?case using cables_left_pos [of fr] by simp
next
  case (Suc left)
  show ?case
  proof (cases "fr'' = fr")
    case False
    then obtain receiver fr' where c: "cross_cable R sparks F n dest fr = Inr (Forwards receiver fr')"
      and rest: "relayed R sparks F n dest fr' fr''" using relayed_split [OF Suc.prems(3)] by blast
    have t: "travel R sparks F n dest left fr' (hops @ [receiver]) = Inr T" using Suc.prems(1) c by simp
    have "fr_here fr' \<in> fst ` set (tr_hops T)"
      using travel_grows [OF t] forward_relays [OF c] by force
    moreover have "cables_left fr' \<le> left" using forward_cables_left [OF c] Suc.prems(2) by simp
    ultimately show ?thesis using Suc.IH [OF t _ rest] by auto
  qed simp
qed

lemma delivered_receives:
  "receive_frame sparks F dest t receiver = Inr (Ends Delivered last_hop) \<Longrightarrow> relays_left t = Some 0 \<and> last_hop = Some receiver
    \<and> (\<exists>p. facts_port F (fst receiver) (snd receiver) = Inr p \<and> pt_address p = dest)"
  by (auto simp: receive_frame_def bind_res_Inr split: option.split_asm if_split_asm)

lemma travel_delivers:
  "travel R sparks F n dest left fr hops = Inr T \<Longrightarrow> tr_outcome T = Delivered
    \<Longrightarrow> length (tr_hops T) = length hops + cables_left fr
      \<and> (\<exists>p. facts_port F (fst (last (tr_hops T))) (snd (last (tr_hops T))) = Inr p \<and> pt_address p = dest)"
proof (induction left arbitrary: fr hops)
  case (Suc left)
  from Suc.prems(1) show ?case
  proof (cases rule: travel_step)
    case (ended r last_hop)
    have "cross_cable R sparks F n dest fr = Inr (Ends Delivered last_hop)" using ended(1,2) Suc.prems(2) by simp
    then obtain receiver where "receive_frame sparks F dest (fr_type fr) receiver = Inr (Ends Delivered last_hop)"
      using crossing_receives by blast
    from delivered_receives [OF this] show ?thesis using ended by (auto simp: cables_left_def)
  next
    case (relay receiver fr')
    then show ?thesis using Suc.IH [OF relay(2) Suc.prems(2)] forward_cables_left [OF relay(1)] by simp
  qed
qed auto

section \<open>Tables\<close>

text \<open>What a table of dictionaries holds, and dictionaries with one entry per key.\<close>

definition holds :: "(int, ('k, 'v) dict) dict \<Rightarrow> int \<Rightarrow> 'k \<Rightarrow> 'v \<Rightarrow> bool" where
  "holds table p k v \<longleftrightarrow> (\<exists>d. dget table p = Some d \<and> dget d k = Some v)"

definition keyed :: "int set \<Rightarrow> (int, ('k, 'v) dict) dict \<Rightarrow> bool" where
  "keyed M table \<longleftrightarrow> (\<forall>p d. dget table p = Some d \<longrightarrow> p \<in> M \<and> distinct (map fst d))"

lemma holds_unique: "holds table p k v \<Longrightarrow> holds table p k w \<Longrightarrow> v = w"
  by (auto simp: holds_def)

lemma keyed_entries: "keyed M table \<Longrightarrow> dget table p = Some d \<Longrightarrow> (k, v) \<in> set d \<longleftrightarrow> holds table p k v"
  by (auto simp: keyed_def holds_def dest: dget_in dget_Some_in)

lemma put_once_holds:
  assumes "put_once e p k v table = Inr table'"
  shows "holds table' q j w \<longleftrightarrow> holds table q j w \<or> (q = p \<and> j = k \<and> w = v)"
  using assms by (auto simp: put_once_def holds_def split: option.splits if_splits)

lemma put_once_keyed: "put_once e p k v table = Inr table' \<Longrightarrow> keyed M table \<Longrightarrow> keyed M table'"
  by (auto simp: put_once_def keyed_def split: option.splits if_splits)

lemma empty_table: "\<not> holds (map (\<lambda>p. (p, [])) ps) q k v" "keyed (set ps) (map (\<lambda>p. (p, [])) ps)"
  by (auto simp: holds_def keyed_def dget_def dest!: map_of_SomeD)

section \<open>Carried paths\<close>

text \<open>The filter a path needs at one of its relays.\<close>

definition path_filter ::
  "Role list \<Rightarrow> Facts \<Rightarrow> string \<Rightarrow> int \<Rightarrow> bool \<Rightarrow> nat \<times> Step \<times> Step \<Rightarrow> RelayFilter \<Rightarrow> bool" where
  "path_filter R F egress hops secondary e f \<longleftrightarrow> (case e of (index, arrive, leave) \<Rightarrow>
    s_src leave = s_dst arrive \<and> s_src_port leave = 1 - s_dst_port arrive \<and>
    (\<exists>in_role out_role next_role next_port.
      role_at R (s_dst_port arrive) secondary = Inr in_role
      \<and> role_at R (s_src_port leave) (if egress = ''same'' then secondary else \<not> secondary) = Inr out_role
      \<and> role_at R (s_dst_port leave) secondary = Inr next_role
      \<and> facts_port F (s_dst leave) (role_netdev next_role) = Inr next_port
      \<and> f = \<lparr>rf_in_netdev = role_netdev in_role, rf_k = hops - 1 - int index, rf_out_netdev = role_netdev out_role,
          rf_next_mac = pt_mac next_port, rf_next_position = s_dst leave, rf_next_netdev = role_netdev next_role,
          rf_direction = (if s_src_port leave = 0 then ''cw'' else ''ccw''), rf_lane_class = class_name secondary\<rparr>))"

definition filter_key :: "RelayFilter \<Rightarrow> string \<times> int" where
  "filter_key f = (rf_in_netdev f, rf_k f)"

lemma carry_filter_Inr:
  assumes "carry_filter R F egress hops secondary e fs = Inr fs'"
  shows "\<exists>f er. path_filter R F egress hops secondary e f \<and> put_once er (s_dst (fst (snd e))) (filter_key f) f fs = Inr fs'"
proof -
  obtain i arrive leave where e: "e = (i, arrive, leave)" by (cases e)
  have meet: "s_src leave = s_dst arrive" "s_src_port leave = 1 - s_dst_port arrive"
    using assms by (auto simp: carry_filter_def e Let_def split: if_split_asm)
  obtain in_role out_role next_role next_port where
      "role_at R (s_dst_port arrive) secondary = Inr in_role"
      "role_at R (s_src_port leave) (if egress = ''same'' then secondary else \<not> secondary) = Inr out_role"
      "role_at R (s_dst_port leave) secondary = Inr next_role"
      "facts_port F (s_dst leave) (role_netdev next_role) = Inr next_port"
    using assms meet by (auto simp: carry_filter_def e Let_def bind_res_Inr)
  then show ?thesis
    using assms meet unfolding path_filter_def e by (cases "s_dst_port arrive = 1") (simp_all add: carry_filter_def filter_key_def Let_def, blast+)
qed

lemma path_filter_unique:
  "path_filter R F egress hops secondary e f \<Longrightarrow> path_filter R F egress hops secondary e g \<Longrightarrow> f = g"
  by (auto simp: path_filter_def)

text \<open>The hops of a path that meet at a relay, with the filters they need.\<close>

definition relay_hops :: "Step list \<Rightarrow> (nat \<times> Step \<times> Step) list" where
  "relay_hops path = zip [0..<length path - 1] (zip path (tl path))"

lemma relay_hops_nth: "Suc i < length path \<Longrightarrow> (i, path ! i, path ! Suc i) \<in> set (relay_hops path)"
  by (auto simp: relay_hops_def in_set_zip nth_tl intro!: exI [of _ i])

lemma relay_hops_in: "e \<in> set (relay_hops path) \<Longrightarrow> \<exists>i. Suc i < length path \<and> e = (i, path ! i, path ! Suc i)"
  by (cases e) (auto simp: relay_hops_def in_set_zip nth_tl)

definition filter_sites :: "Step list \<Rightarrow> bool \<Rightarrow> (int \<times> bool \<times> nat \<times> Step \<times> Step) set" where
  "filter_sites path secondary = (\<lambda>e. (int (length path), secondary, e)) ` set (relay_hops path)"

definition filters_are ::
  "int set \<Rightarrow> Role list \<Rightarrow> Facts \<Rightarrow> string \<Rightarrow> (int \<times> bool \<times> nat \<times> Step \<times> Step) set \<Rightarrow> filter_table \<Rightarrow> bool" where
  "filters_are M R F egress E fs \<longleftrightarrow> keyed M fs
    \<and> (\<forall>p k f. holds fs p k f \<longleftrightarrow> k = filter_key f
        \<and> (\<exists>x\<in>E. path_filter R F egress (fst x) (fst (snd x)) (snd (snd x)) f \<and> p = s_dst (fst (snd (snd (snd x))))))
    \<and> (\<forall>x\<in>E. \<exists>f. path_filter R F egress (fst x) (fst (snd x)) (snd (snd x)) f)"

definition routes_are :: "int set \<Rightarrow> Role list \<Rightarrow> Facts \<Rightarrow> (Step list \<times> bool) set \<Rightarrow> route_table \<Rightarrow> bool" where
  "routes_are M R F D rs \<longleftrightarrow> keyed M rs
    \<and> (\<forall>p k r. holds rs p k r \<longleftrightarrow> k = or_destination r
        \<and> (\<exists>x\<in>D. carry_route R F (snd x) (fst x) = Inr r \<and> p = s_src (hd (fst x))))
    \<and> (\<forall>x\<in>D. \<exists>r. carry_route R F (snd x) (fst x) = Inr r)"

lemma routes_are_carry:
  assumes "routes_are M R F D rs" "(path, secondary) \<in> D"
  shows "\<exists>r. carry_route R F secondary path = Inr r \<and> holds rs (s_src (hd path)) (or_destination r) r"
proof -
  note D = assms(1) [unfolded routes_are_def, THEN conjunct2]
  obtain r where r: "carry_route R F secondary path = Inr r"
    using bspec [OF D [THEN conjunct2] assms(2)] by auto
  have "\<exists>x\<in>D. carry_route R F (snd x) (fst x) = Inr r \<and> s_src (hd path) = s_src (hd (fst x))"
    by (rule bexI [OF _ assms(2)]) (simp add: r)
  then show ?thesis using D [THEN conjunct1] r by blast
qed

lemma filters_are_site:
  assumes "filters_are M R F egress E fs" "y \<in> E"
  shows "\<exists>f. path_filter R F egress (fst y) (fst (snd y)) (snd (snd y)) f
    \<and> holds fs (s_dst (fst (snd (snd (snd y))))) (filter_key f) f"
proof -
  note E = assms(1) [unfolded filters_are_def, THEN conjunct2]
  obtain f where f: "path_filter R F egress (fst y) (fst (snd y)) (snd (snd y)) f"
    using bspec [OF E [THEN conjunct2] assms(2)] by auto
  have "\<exists>x\<in>E. path_filter R F egress (fst x) (fst (snd x)) (snd (snd x)) f
      \<and> s_dst (fst (snd (snd (snd y)))) = s_dst (fst (snd (snd (snd x))))"
    by (rule bexI [OF _ assms(2)]) (simp add: f)
  then show ?thesis using E [THEN conjunct1] f by blast
qed

lemma carry_filter_adds:
  assumes "filters_are M R F egress E fs" "carry_filter R F egress hops secondary e fs = Inr fs'"
  shows "filters_are M R F egress (E \<union> {(hops, secondary, e)}) fs'"
proof -
  obtain f er where f: "path_filter R F egress hops secondary e f"
    and put: "put_once er (s_dst (fst (snd e))) (filter_key f) f fs = Inr fs'"
    using carry_filter_Inr [OF assms(2)] by blast
  have only: "path_filter R F egress hops secondary e g \<longleftrightarrow> g = f" for g using path_filter_unique f by blast
  note old = assms(1) [unfolded filters_are_def]
  show ?thesis
    unfolding filters_are_def Un_iff bex_Un ball_Un
  proof (intro conjI allI)
    show "keyed M fs'" using put_once_keyed [OF put] old by blast
    fix p k g
    show "holds fs' p k g \<longleftrightarrow> k = filter_key g \<and> ((\<exists>x\<in>E. path_filter R F egress (fst x) (fst (snd x)) (snd (snd x)) g
          \<and> p = s_dst (fst (snd (snd (snd x)))))
        \<or> (\<exists>x\<in>{(hops, secondary, e)}. path_filter R F egress (fst x) (fst (snd x)) (snd (snd x)) g
          \<and> p = s_dst (fst (snd (snd (snd x))))))"
      unfolding put_once_holds [OF put] using old only [of g] by fastforce
  qed (use old f in auto)
qed

definition tables_are :: "int set \<Rightarrow> Role list \<Rightarrow> Facts \<Rightarrow> string \<Rightarrow> (Step list \<times> bool) set \<Rightarrow> route_table \<times> filter_table \<Rightarrow> bool" where
  "tables_are M R F egress D st \<longleftrightarrow> routes_are M R F D (fst st)
    \<and> filters_are M R F egress (\<Union>x\<in>D. filter_sites (fst x) (snd x)) (snd st)"

lemma carry_adds:
  assumes "tables_are M R F egress D st" "carry R F egress path secondary st = Inr st'"
  shows "tables_are M R F egress (D \<union> {(path, secondary)}) st'"
proof -
  obtain r er where r: "carry_route R F secondary path = Inr r"
    and put: "put_once er (s_src (hd path)) (or_destination r) r (fst st) = Inr (fst st')"
    and fs: "fold_res (carry_filter R F egress (int (length path)) secondary) (relay_hops path) (snd st) = Inr (snd st')"
    using assms(2) by (auto simp: carry_def bind_res_Inr relay_hops_def)
  have "routes_are M R F (D \<union> {(path, secondary)}) (fst st')"
    using assms(1) r put_once_keyed [OF put] put_once_holds [OF put] unfolding tables_are_def routes_are_def
    by (auto simp del: split_paired_Ex)
  moreover have "filters_are M R F egress ((\<Union>x\<in>D. filter_sites (fst x) (snd x))
      \<union> (\<Union>e\<in>set (relay_hops path). {(int (length path), secondary, e)})) (snd st')"
    by (rule fold_res_collects [where J = "filters_are M R F egress", OF fs])
      (use assms(1) carry_filter_adds in \<open>simp_all add: tables_are_def\<close>)
  ultimately show ?thesis
    unfolding tables_are_def filter_sites_def by (simp add: UNION_singleton_eq_range Un_commute)
qed

text \<open>The paths a pair of members carries, and the invariant of the loops over pairs, paths and classes.\<close>

definition carried :: "Fabric \<Rightarrow> int \<Rightarrow> int \<Rightarrow> Step list \<Rightarrow> bool" where
  "carried G a b path \<longleftrightarrow> a \<noteq> b \<and> 2 \<le> length path \<and> (\<exists>ps. shortest_paths G a b = Inr ps \<and> path \<in> set ps)"

lemma plan_path_adds:
  assumes "tables_are M R F egress D st" "plan_path R F egress limit path st = Inr st'"
  shows "tables_are M R F egress (D \<union> {x. fst x = path \<and> 2 \<le> length path}) st'"
proof (cases "length path < 2")
  case True
  then show ?thesis using assms by (simp add: plan_path_def)
next
  case False
  then have f: "fold_res (carry R F egress path) [False, True] st = Inr st'"
    using assms(2) by (auto simp: plan_path_def split: if_splits)
  have "tables_are M R F egress (D \<union> (\<Union>c\<in>set [False, True]. {(path, c)})) st'"
    by (rule fold_res_collects [where J = "tables_are M R F egress", OF f]) (use assms(1) carry_adds in simp_all)
  moreover have "(\<Union>c\<in>set [False, True]. {(path, c)}) = {x. fst x = path \<and> 2 \<le> length path}"
    using False by auto
  ultimately show ?thesis by (simp only:)
qed

lemma plan_pair_adds:
  assumes "tables_are M R F egress D st" "plan_pair R F egress limit G e st = Inr st'"
  shows "tables_are M R F egress (D \<union> {x. carried G (fst e) (snd e) (fst x)}) st'"
proof (cases "fst e = snd e")
  case True
  then show ?thesis using assms by (simp add: plan_pair_def carried_def)
next
  case False
  then obtain ps where ps: "shortest_paths G (fst e) (snd e) = Inr ps"
    and f: "fold_res (plan_path R F egress limit) ps st = Inr st'"
    using assms(2) by (auto simp: plan_pair_def bind_res_Inr)
  have "tables_are M R F egress (D \<union> (\<Union>p\<in>set ps. {x. fst x = p \<and> 2 \<le> length p})) st'"
    by (rule fold_res_collects [where J = "tables_are M R F egress", OF f]) (use assms(1) plan_path_adds in simp_all)
  moreover have "(\<Union>p\<in>set ps. {x. fst x = p \<and> 2 \<le> length p}) = {x :: Step list \<times> bool. carried G (fst e) (snd e) (fst x)}"
    using False ps by (auto simp: carried_def)
  ultimately show ?thesis by simp
qed

lemma plan_pairs_are:
  assumes "fold_res (plan_pair R F egress limit G) (List.product members members)
      (map (\<lambda>p. (p, [])) members, map (\<lambda>p. (p, [])) members) = Inr st"
  shows "tables_are (set members) R F egress {x. \<exists>a\<in>set members. \<exists>b\<in>set members. carried G a b (fst x)} st"
proof -
  have start: "tables_are (set members) R F egress {} (map (\<lambda>p. (p, [])) members, map (\<lambda>p. (p, [])) members)"
    by (simp add: tables_are_def routes_are_def filters_are_def empty_table)
  have "tables_are (set members) R F egress ({} \<union> (\<Union>e\<in>set (List.product members members). {x. carried G (fst e) (snd e) (fst x)})) st"
    by (rule fold_res_collects [where J = "tables_are (set members) R F egress", OF assms start]) (rule plan_pair_adds)
  moreover have "{} \<union> (\<Union>e\<in>set (List.product members members). {x :: Step list \<times> bool. carried G (fst e) (snd e) (fst x)})
      = {x. \<exists>a\<in>set members. \<exists>b\<in>set members. carried G a b (fst x)}"
    by (simp only: set_product Union_eq mem_Collect_eq bex_simps) fastforce
  ultimately show ?thesis by simp
qed

section \<open>The parts of an accepted group plan\<close>

definition plan_table :: "SparkPlan list \<Rightarrow> (int, SparkPlan) dict" where
  "plan_table sparks = foldl (\<lambda>d s. dset (sp_position s) s d) [] sparks"

lemma group_plan_parts:
  assumes "build_group_plan R digest g F egress limit = Inr P"
  obtains L st sircl lanes_of where "group_fabric g = Inr L"
    "tables_are (set (l_positions L)) R F egress {x. \<exists>a\<in>set (l_positions L). \<exists>b\<in>set (l_positions L). carried (l_fabric L) a b (fst x)} st"
    "derive_routes R L 2 = Inr sircl" "fold_res (carried_lane F L (fst st)) (sircl_lanes sircl) [] = Inr lanes_of"
    "map_res (spark_plan R F (group_label g) (fst st) (snd st) lanes_of) (group_order g) = Inr (gp_sparks P)"
    "is_ok (map_res (check_delivery R (plan_table (gp_sparks P)) F (gr_ring_size g) (l_positions L))
      (concat (map (\<lambda>s. map (Pair (sp_position s)) (sp_routes s)) (gp_sparks P))))"
    "gp_group P = g" "gp_layout P = L" "gp_sircl P = sircl"
proof -
  obtain L st sircl lanes_of sparks us found queues where l: "group_fabric g = Inr L"
    and f: "fold_res (plan_pair R F egress limit (l_fabric L)) (List.product (l_positions L) (l_positions L))
      (map (\<lambda>p. (p, [])) (l_positions L), map (\<lambda>p. (p, [])) (l_positions L)) = Inr st"
    and rest: "derive_routes R L 2 = Inr sircl" "fold_res (carried_lane F L (fst st)) (sircl_lanes sircl) [] = Inr lanes_of"
    "map_res (spark_plan R F (group_label g) (fst st) (snd st) lanes_of) (group_order g) = Inr sparks"
    and ok: "map_res (check_delivery R (plan_table sparks) F (gr_ring_size g) (l_positions L))
      (concat (map (\<lambda>s. map (Pair (sp_position s)) (sp_routes s)) sparks)) = Inr us"
    and P: "P = \<lparr>gp_group = g, gp_layout = L, gp_sircl = sircl, gp_relay_egress = egress, gp_max_relays = limit,
         gp_sparks = sparks, gp_queues = queues, gp_busiest_queue = fst (relay_load sircl),
         gp_load_factor = snd (relay_load sircl), gp_digest = digest (group_label g) egress sparks\<rparr>"
    using assms unfolding build_group_plan_def
    by (auto simp: bind_res_Inr Let_def plan_table_def split: if_split_asm prod.split_asm)
  show thesis using that l plan_pairs_are [OF f] rest ok P by simp
qed

text \<open>A Spark's plan holds exactly its table entries, and a route's destination finds it.\<close>

lemma spark_plan_parts:
  assumes "spark_plan R F label rs fs lanes_of p = Inr s" "keyed M rs" "keyed M fs"
  shows "sp_position s = p"
    and "r \<in> set (sp_routes s)
      \<longleftrightarrow> (\<exists>k r'. holds rs p k r' \<and> r = r'\<lparr>or_lanes := dget_or lanes_of (p, or_destination r') []\<rparr>)"
    and "f \<in> set (sp_filters s) \<longleftrightarrow> (\<exists>k. holds fs p k f)"
proof -
  obtain d e where d: "dget rs p = Some d" "dget fs p = Some e"
    using assms(1) by (auto simp: spark_plan_def split: option.splits)
  have s: "s = \<lparr>sp_position = p, sp_name = facts_name F p, sp_group = label,
           sp_routes = map (\<lambda>r. r\<lparr>or_lanes := dget_or lanes_of (p, or_destination r) []\<rparr>)
             (sort_key (\<lambda>r. (place_in (map role_netdev R) (or_netdev r), or_hops r, address_key (or_destination r)))
               (map snd d)),
           sp_filters = sort_key (\<lambda>f. (place_in (map role_netdev R) (rf_in_netdev f), rf_k f)) (map snd e)\<rparr>"
    using assms(1) d by (simp add: spark_plan_def)
  have routes: "snd ` set d = {r. \<exists>k. holds rs p k r}" using keyed_entries [OF assms(2) d(1)] by force
  have filters: "snd ` set e = {f. \<exists>k. holds fs p k f}" using keyed_entries [OF assms(3) d(2)] by force
  have "set (sp_routes s) = (\<lambda>r. r\<lparr>or_lanes := dget_or lanes_of (p, or_destination r) []\<rparr>) ` (snd ` set d)"
    "set (sp_filters s) = snd ` set e" unfolding s by simp_all
  then show "r \<in> set (sp_routes s)
      \<longleftrightarrow> (\<exists>k r'. holds rs p k r' \<and> r = r'\<lparr>or_lanes := dget_or lanes_of (p, or_destination r') []\<rparr>)"
    "f \<in> set (sp_filters s) \<longleftrightarrow> (\<exists>k. holds fs p k f)" unfolding routes filters by blast+
  show "sp_position s = p" unfolding s by simp
qed

lemma layout_members:
  assumes "group_fabric g = Inr L"
  shows "l_positions L = gr_members g \<and> set (group_order g) = set (gr_members g)"
proof -
  have l: "group_layout (gr_ring_size g) (gr_members g) None = Inr L"
    using assms by (auto simp: group_fabric_def map_sum_def split: sum.splits)
  then have "l_positions L = gr_members g"
    by (auto simp: group_layout_def bind_res_Inr Layout_new_def split: if_splits)
  moreover have "set (group_order g) = set (gr_members g)"
  proof (cases "whole_ring g")
    case True
    then have "sort (gr_members g) = py_range (gr_ring_size g)"
      using l by (auto simp: group_layout_def whole_ring_def split: if_splits)
    then show ?thesis using True by (metis group_order_def set_sort)
  qed (simp add: group_order_def)
  ultimately show ?thesis by simp
qed

lemma keyed_tables:
  "tables_are M R F egress D st \<Longrightarrow> keyed M (fst st) \<and> keyed M (snd st)"
  by (simp add: tables_are_def routes_are_def filters_are_def)

text \<open>What the routes and the filters of an accepted plan are: the carried paths, each with both classes.\<close>

lemma plan_routes_are:
  assumes "build_group_plan R digest g F egress limit = Inr P" "group_fabric g = Inr L" "s \<in> set (gp_sparks P)"
  shows "sp_position s \<in> set (gr_members g)
    \<and> (\<forall>r\<in>set (sp_routes s). \<exists>path secondary r'. carry_route R F secondary path = Inr r' \<and> s_src (hd path) = sp_position s
        \<and> (\<exists>lanes. r = r'\<lparr>or_lanes := lanes\<rparr>)
        \<and> (\<exists>a\<in>set (gr_members g). \<exists>b\<in>set (gr_members g). carried (l_fabric L) a b path))
    \<and> (\<forall>f\<in>set (sp_filters s). \<exists>path secondary e. path_filter R F egress (int (length path)) secondary e f
        \<and> e \<in> set (relay_hops path) \<and> sp_position s = s_dst (fst (snd e))
        \<and> (\<exists>a\<in>set (gr_members g). \<exists>b\<in>set (gr_members g). carried (l_fabric L) a b path))"
proof -
  from assms(1) obtain L' st sircl lanes_of where l: "group_fabric g = Inr L'"
    and t: "tables_are (set (l_positions L')) R F egress {x. \<exists>a\<in>set (l_positions L'). \<exists>b\<in>set (l_positions L'). carried (l_fabric L') a b (fst x)} st"
    and m: "map_res (spark_plan R F (group_label g) (fst st) (snd st) lanes_of) (group_order g) = Inr (gp_sparks P)"
    by (rule group_plan_parts)
  obtain p where p: "p \<in> set (group_order g)" and sp: "spark_plan R F (group_label g) (fst st) (snd st) lanes_of p = Inr s"
    using map_res_in [OF m assms(3)] by blast
  note parts = spark_plan_parts [OF sp conjunct1 [OF keyed_tables [OF t]] conjunct2 [OF keyed_tables [OF t]]]
  have L: "L' = L" using l assms(2) by simp
  note members = layout_members [OF assms(2)]
  have "p \<in> set (gr_members g)" using p members by simp
  moreover have "\<exists>path secondary r'. carry_route R F secondary path = Inr r' \<and> s_src (hd path) = p
        \<and> (\<exists>lanes. r = r'\<lparr>or_lanes := lanes\<rparr>)
        \<and> (\<exists>a\<in>set (gr_members g). \<exists>b\<in>set (gr_members g). carried (l_fabric L) a b path)" if r: "r \<in> set (sp_routes s)" for r
  proof -
    obtain k r' where h: "holds (fst st) p k r'" and r': "\<exists>lanes. r = r'\<lparr>or_lanes := lanes\<rparr>"
      using parts(2) r by blast
    have "\<exists>x\<in>{x. \<exists>a\<in>set (l_positions L'). \<exists>b\<in>set (l_positions L'). carried (l_fabric L') a b (fst x)}.
        carry_route R F (snd x) (fst x) = Inr r' \<and> p = s_src (hd (fst x))"
      using h t unfolding tables_are_def routes_are_def by blast
    then show ?thesis using r' members unfolding L by fastforce
  qed
  moreover have "\<exists>path secondary e. path_filter R F egress (int (length path)) secondary e f
        \<and> e \<in> set (relay_hops path) \<and> p = s_dst (fst (snd e))
        \<and> (\<exists>a\<in>set (gr_members g). \<exists>b\<in>set (gr_members g). carried (l_fabric L) a b path)" if f: "f \<in> set (sp_filters s)" for f
  proof -
    obtain k where h: "holds (snd st) p k f" using parts(3) f by blast
    have "\<exists>y\<in>(\<Union>x\<in>{x. \<exists>a\<in>set (l_positions L'). \<exists>b\<in>set (l_positions L'). carried (l_fabric L') a b (fst x)}.
        filter_sites (fst x) (snd x)).
      path_filter R F egress (fst y) (fst (snd y)) (snd (snd y)) f \<and> p = s_dst (fst (snd (snd (snd y))))"
      using h t unfolding tables_are_def filters_are_def by blast
    then obtain x y where y: "y \<in> filter_sites (fst x) (snd x)" "path_filter R F egress (fst y) (fst (snd y)) (snd (snd y)) f"
      "p = s_dst (fst (snd (snd (snd y))))"
      and x: "\<exists>a\<in>set (l_positions L'). \<exists>b\<in>set (l_positions L'). carried (l_fabric L') a b (fst x)" by blast
    obtain e where e: "e \<in> set (relay_hops (fst x))" "y = (int (length (fst x)), snd x, e)"
      using y(1) unfolding filter_sites_def by blast
    show ?thesis using x y(2,3) e(1) members unfolding L e(2) fst_conv snd_conv by fastforce
  qed
  ultimately show ?thesis using parts(1) by blast
qed

lemma plan_holds_paths:
  assumes "build_group_plan R digest g F egress limit = Inr P" "group_fabric g = Inr L"
    "a \<in> set (gr_members g)" "b \<in> set (gr_members g)" "carried (l_fabric L) a b path"
  shows "\<exists>s r lanes. s \<in> set (gp_sparks P) \<and> sp_position s = s_src (hd path) \<and> carry_route R F secondary path = Inr r
      \<and> r\<lparr>or_lanes := lanes\<rparr> \<in> set (sp_routes s)"
    and "Suc i < length path \<Longrightarrow> \<exists>s f. s \<in> set (gp_sparks P) \<and> sp_position s = s_dst (path ! i)
        \<and> path_filter R F egress (int (length path)) secondary (i, path ! i, path ! Suc i) f \<and> f \<in> set (sp_filters s)"
proof -
  from assms(1) obtain L' st sircl lanes_of where l: "group_fabric g = Inr L'"
    and t: "tables_are (set (l_positions L')) R F egress {x. \<exists>a\<in>set (l_positions L'). \<exists>b\<in>set (l_positions L'). carried (l_fabric L') a b (fst x)} st"
    and m: "map_res (spark_plan R F (group_label g) (fst st) (snd st) lanes_of) (group_order g) = Inr (gp_sparks P)"
    by (rule group_plan_parts)
  have L: "L' = L" using l assms(2) by simp
  note members = layout_members [OF assms(2)]
  note keyed = keyed_tables [OF t]
  have spark: "\<exists>s. s \<in> set (gp_sparks P) \<and> spark_plan R F (group_label g) (fst st) (snd st) lanes_of p = Inr s"
    if "p \<in> set (gr_members g)" for p
    using map_res_each [OF m, of p] that members by blast
  have x: "(path, secondary) \<in> {x. \<exists>a\<in>set (l_positions L'). \<exists>b\<in>set (l_positions L'). carried (l_fabric L') a b (fst x)}"
    using assms(3-5) members unfolding L by auto
  obtain r where r: "carry_route R F secondary path = Inr r"
    and h: "holds (fst st) (s_src (hd path)) (or_destination r) r"
    using routes_are_carry [OF t [unfolded tables_are_def, THEN conjunct1] x] by blast
  from h have "s_src (hd path) \<in> set (gr_members g)" using keyed members unfolding L keyed_def holds_def by auto
  from spark [OF this] obtain s where s: "s \<in> set (gp_sparks P)"
      "spark_plan R F (group_label g) (fst st) (snd st) lanes_of (s_src (hd path)) = Inr s" by blast
  note parts = spark_plan_parts [OF s(2) keyed [THEN conjunct1] keyed [THEN conjunct2]]
  have "sp_position s = s_src (hd path)" "\<exists>lanes. r\<lparr>or_lanes := lanes\<rparr> \<in> set (sp_routes s)"
    using parts(1) parts(2) h by blast+
  then show "\<exists>s r lanes. s \<in> set (gp_sparks P) \<and> sp_position s = s_src (hd path) \<and> carry_route R F secondary path = Inr r
      \<and> r\<lparr>or_lanes := lanes\<rparr> \<in> set (sp_routes s)" using s(1) r by blast
  show "\<exists>s f. s \<in> set (gp_sparks P) \<and> sp_position s = s_dst (path ! i)
        \<and> path_filter R F egress (int (length path)) secondary (i, path ! i, path ! Suc i) f \<and> f \<in> set (sp_filters s)"
    if i: "Suc i < length path"
  proof -
    let ?y = "(int (length path), secondary, i, path ! i, path ! Suc i)"
    have y: "?y \<in> filter_sites path secondary" using relay_hops_nth [OF i] by (simp add: filter_sites_def)
    have fs: "filters_are (set (l_positions L')) R F egress (\<Union>x\<in>{x. \<exists>a\<in>set (l_positions L'). \<exists>b\<in>set (l_positions L').
        carried (l_fabric L') a b (fst x)}. filter_sites (fst x) (snd x)) (snd st)"
      using t by (simp add: tables_are_def)
    have yin: "?y \<in> (\<Union>x\<in>{x. \<exists>a\<in>set (l_positions L'). \<exists>b\<in>set (l_positions L').
        carried (l_fabric L') a b (fst x)}. filter_sites (fst x) (snd x))"
      by (rule UN_I [OF x]) (simp add: y)
    obtain f where f: "path_filter R F egress (int (length path)) secondary (i, path ! i, path ! Suc i) f"
      and h: "holds (snd st) (s_dst (path ! i)) (filter_key f) f"
      using filters_are_site [OF fs yin] by auto
    from h have "s_dst (path ! i) \<in> set (gr_members g)" using keyed members unfolding L keyed_def holds_def by auto
    from spark [OF this] obtain s where s: "s \<in> set (gp_sparks P)"
        "spark_plan R F (group_label g) (fst st) (snd st) lanes_of (s_dst (path ! i)) = Inr s" by blast
    note parts = spark_plan_parts [OF s(2) keyed [THEN conjunct1] keyed [THEN conjunct2]]
    have "sp_position s = s_dst (path ! i)" "f \<in> set (sp_filters s)" using parts(1) parts(3) h by blast+
    then show ?thesis using s(1) f by blast
  qed
qed

section \<open>Deliveries\<close>

lemma delivery_checked:
  assumes "build_group_plan R digest g F egress limit = Inr P" "s \<in> set (gp_sparks P)" "r \<in> set (sp_routes s)"
  shows "\<exists>T. trace R (plan_table (gp_sparks P)) F (gr_ring_size g) (sp_position s) (or_destination r) = Inr T
    \<and> tr_outcome T = Delivered \<and> last (tr_hops T) = (or_peer r, or_peer_netdev r)
    \<and> fst ` set (tr_hops T) \<subseteq> set (gr_members g)"
proof -
  from assms(1) obtain L where l: "group_fabric g = Inr L" and checked: "is_ok (map_res (check_delivery R (plan_table (gp_sparks P)) F (gr_ring_size g) (l_positions L))
      (concat (map (\<lambda>s. map (Pair (sp_position s)) (sp_routes s)) (gp_sparks P))))"
    by (rule group_plan_parts)
  have mem: "(sp_position s, r) \<in> set (concat (map (\<lambda>s. map (Pair (sp_position s)) (sp_routes s)) (gp_sparks P)))"
    using assms(2,3) by auto
  have c: "check_delivery R (plan_table (gp_sparks P)) F (gr_ring_size g) (l_positions L) (sp_position s, r) = Inr ()"
  proof -
    obtain us where "map_res (check_delivery R (plan_table (gp_sparks P)) F (gr_ring_size g) (l_positions L))
      (concat (map (\<lambda>s. map (Pair (sp_position s)) (sp_routes s)) (gp_sparks P))) = Inr us"
      using checked unfolding is_ok_iff by (rule exE)
    from map_res_each [OF this mem] show ?thesis by auto
  qed
  have p: "l_positions L = gr_members g" using layout_members [OF l] by simp
  obtain T where T: "trace R (plan_table (gp_sparks P)) F (gr_ring_size g) (sp_position s) (or_destination r) = Inr T"
    using c by (auto simp: check_delivery_def bind_res_Inr)
  have "tr_outcome T = Delivered \<and> last (tr_hops T) = (or_peer r, or_peer_netdev r)
      \<and> \<not> list_ex (\<lambda>(position, _). position \<notin> set (l_positions L)) (tr_hops T)"
    using c unfolding check_delivery_def by (simp add: T split: if_split_asm)
  then show ?thesis using T p by (auto simp: list_ex_iff)
qed

text \<open>Each position has one plan and each destination one route, so a trace starts on the route it is asked for.\<close>

lemma plan_table_dget: "dget (foldl (\<lambda>d s. dset (sp_position s) s d) d sparks) p = Some s
    \<Longrightarrow> dget d p = Some s \<or> s \<in> set sparks \<and> sp_position s = p"
proof (induction sparks arbitrary: d)
  case (Cons x sparks)
  then show ?case using Cons.IH [of "dset (sp_position x) x d"] by (auto split: if_splits)
qed simp

lemma plan_table_defined: "sp_position s \<in> fst ` set d \<or> s \<in> set sparks
    \<Longrightarrow> dget (foldl (\<lambda>d s. dset (sp_position s) s d) d sparks) (sp_position s) \<noteq> None"
proof (induction sparks arbitrary: d)
  case Nil
  then show ?case by (auto simp: dget_def map_of_eq_None_iff)
next
  case (Cons x sparks)
  then show ?case by (cases "s = x") (auto intro!: Cons.IH)
qed

lemma route_found:
  assumes "build_group_plan R digest g F egress limit = Inr P" "s \<in> set (gp_sparks P)" "r \<in> set (sp_routes s)"
  shows "dget (plan_table (gp_sparks P)) (sp_position s) = Some s" "route_to s (or_destination r) = Some r"
proof -
  from assms(1) obtain L st sircl lanes_of where l: "group_fabric g = Inr L"
    and t: "tables_are (set (l_positions L)) R F egress {x. \<exists>a\<in>set (l_positions L). \<exists>b\<in>set (l_positions L). carried (l_fabric L) a b (fst x)} st"
    and m: "map_res (spark_plan R F (group_label g) (fst st) (snd st) lanes_of) (group_order g) = Inr (gp_sparks P)"
    by (rule group_plan_parts)
  note keyed = keyed_tables [OF t]
  have plan: "spark_plan R F (group_label g) (fst st) (snd st) lanes_of (sp_position s') = Inr s'" if "s' \<in> set (gp_sparks P)" for s'
    using map_res_in [OF m that] spark_plan_parts(1) [OF _ keyed [THEN conjunct1] keyed [THEN conjunct2]] by blast
  obtain s' where s': "dget (plan_table (gp_sparks P)) (sp_position s) = Some s'"
    using plan_table_defined [of s "[]" "gp_sparks P"] assms(2) unfolding plan_table_def by blast
  have "s' \<in> set (gp_sparks P) \<and> sp_position s' = sp_position s"
    using plan_table_dget [OF s' [unfolded plan_table_def]] by simp
  then have "s' = s" using plan [of s] plan [of s'] assms(2) by simp
  then show "dget (plan_table (gp_sparks P)) (sp_position s) = Some s" using s' by simp
  note parts = spark_plan_parts [OF plan [OF assms(2)] keyed [THEN conjunct1] keyed [THEN conjunct2]]
  have key: "k = or_destination q" if "holds (fst st) p k q" for p k q
    using t that unfolding tables_are_def routes_are_def by blast
  have same: "q = r" if q: "q \<in> set (sp_routes s)" and dest: "or_destination q = or_destination r" for q
  proof -
    obtain k r' where a: "holds (fst st) (sp_position s) k r'"
        "r = r'\<lparr>or_lanes := dget_or lanes_of (sp_position s, or_destination r') []\<rparr>" using parts(2) [THEN iffD1, OF assms(3)] by blast
    obtain j q' where b: "holds (fst st) (sp_position s) j q'"
        "q = q'\<lparr>or_lanes := dget_or lanes_of (sp_position s, or_destination q') []\<rparr>" using parts(2) [THEN iffD1, OF q] by blast
    have r: "or_destination r = or_destination r'" using arg_cong [OF a(2), of or_destination] by simp
    have d: "or_destination q = or_destination q'" using arg_cong [OF b(2), of or_destination] by simp
    have "j = k" using key [OF a(1)] key [OF b(1)] dest r d by simp
    have "q' = r'" using holds_unique [OF a(1)] b(1) unfolding \<open>j = k\<close> by simp
    then show ?thesis using a(2) b(2) by simp
  qed
  obtain q where "route_to s (or_destination r) = Some q"
    using assms(3) by (cases "route_to s (or_destination r)") (auto simp: route_to_def find_None_iff)
  then show "route_to s (or_destination r) = Some r"
    using same [of q] unfolding route_to_def find_Some_iff by (metis nth_mem)
qed

lemma route_tag:
  assumes "build_group_plan R digest g F egress limit = Inr P" "s \<in> set (gp_sparks P)" "r \<in> set (sp_routes s)"
  shows "relay_tag (or_hops r - 1) = Inr (or_tag r)"
proof -
  from assms(1) obtain L where l: "group_fabric g = Inr L" by (rule group_plan_parts)
  obtain path c r' lanes where "carry_route R F c path = Inr r'" "r = r'\<lparr>or_lanes := lanes\<rparr>"
    using plan_routes_are [OF assms(1) l assms(2)] assms(3) by meson
  then show ?thesis by (auto simp: carry_route_def bind_res_Inr Let_def)
qed

lemma route_travels:
  assumes "build_group_plan R digest g F egress limit = Inr P" "s \<in> set (gp_sparks P)" "r \<in> set (sp_routes s)"
    and "trace R (plan_table (gp_sparks P)) F (gr_ring_size g) (sp_position s) (or_destination r) = Inr T"
  shows "travel R (plan_table (gp_sparks P)) F (gr_ring_size g) (or_destination r) 14 (origin_frame (sp_position s) r) [] = Inr T"
    and "cables_left (origin_frame (sp_position s) r) \<le> 14"
    and "int (cables_left (origin_frame (sp_position s) r)) = or_hops r"
proof -
  show "travel R (plan_table (gp_sparks P)) F (gr_ring_size g) (or_destination r) 14 (origin_frame (sp_position s) r) [] = Inr T"
    using assms(4) route_found [OF assms(1-3)] by (simp add: trace_def)
  show "cables_left (origin_frame (sp_position s) r) \<le> 14" using cables_left_max [of "origin_frame (sp_position s) r"] by simp
  have "relays_left (or_tag r) = Some (or_hops r - 1)" using route_tag [OF assms(1-3)] tag_is_relays by blast
  then show "int (cables_left (origin_frame (sp_position s) r)) = or_hops r"
    using relays_left_range [of "or_tag r"] by (simp add: cables_left_def origin_frame_def)
qed

lemma travel_left: "travel R sparks F n dest left fr hops = Inr T \<Longrightarrow> tr_hops T = [] \<Longrightarrow> hops = []"
  using travel_grows by fastforce

section \<open>SIRCL lanes\<close>

lemma carried_lane_checked:
  assumes "carried_lane F L rs (rank, peer, lane) lanes = Inr lanes'" "2 \<le> lane_hops lane"
  shows "\<exists>a there p r t. py_index (l_positions L) rank = Inr a \<and> py_index (l_positions L) peer = Inr there
    \<and> facts_port F there (role_netdev (r_remote lane)) = Inr p \<and> holds rs a (pt_address p) r
    \<and> or_netdev r = role_netdev (r_local lane) \<and> or_cables r = lane_cables lane
    \<and> relay_tag (int (length (lane_relays lane))) = Inr t \<and> or_tag r = t
    \<and> lanes' = dappend (a, pt_address p) (rank, peer, r_lane lane) lanes"
proof -
  obtain a there p d t where "py_index (l_positions L) rank = Inr a" "py_index (l_positions L) peer = Inr there"
    "facts_port F there (role_netdev (r_remote lane)) = Inr p" "dget rs a = Some d"
    "relay_tag (int (length (lane_relays lane))) = Inr t"
    using assms unfolding carried_lane_def by (auto simp: bind_res_Inr split: option.split_asm)
  then show ?thesis
    using assms unfolding carried_lane_def by (auto simp: holds_def Let_def split: option.split_asm if_split_asm)
qed

lemma lane_carried:
  assumes "fold_res (carried_lane F L rs) (sircl_lanes sircl) [] = Inr lanes_of" "(rank, peer, lane) \<in> set (sircl_lanes sircl)"
    "2 \<le> lane_hops lane"
  shows "\<exists>a there p r. py_index (l_positions L) rank = Inr a \<and> py_index (l_positions L) peer = Inr there
    \<and> facts_port F there (role_netdev (r_remote lane)) = Inr p \<and> holds rs a (pt_address p) r
    \<and> or_netdev r = role_netdev (r_local lane) \<and> or_cables r = lane_cables lane
    \<and> (rank, peer, r_lane lane) \<in> set (dget_or lanes_of (a, pt_address p) [])"
proof (rule fold_res_each [OF assms(1,2)])
  fix lanes lanes'
  assume "carried_lane F L rs (rank, peer, lane) lanes = Inr lanes'"
  from carried_lane_checked [OF this assms(3)]
  obtain a there p r where x: "py_index (l_positions L) rank = Inr a" "py_index (l_positions L) peer = Inr there"
    "facts_port F there (role_netdev (r_remote lane)) = Inr p" "holds rs a (pt_address p) r"
    "or_netdev r = role_netdev (r_local lane)" "or_cables r = lane_cables lane"
    and l: "lanes' = dappend (a, pt_address p) (rank, peer, r_lane lane) lanes" by blast
  have "(rank, peer, r_lane lane) \<in> set (dget_or lanes' (a, pt_address p) [])" unfolding l by simp
  then show "\<exists>a there p r. py_index (l_positions L) rank = Inr a \<and> py_index (l_positions L) peer = Inr there
    \<and> facts_port F there (role_netdev (r_remote lane)) = Inr p \<and> holds rs a (pt_address p) r
    \<and> or_netdev r = role_netdev (r_local lane) \<and> or_cables r = lane_cables lane
    \<and> (rank, peer, r_lane lane) \<in> set (dget_or lanes' (a, pt_address p) [])" using x by blast
next
  fix y lanes lanes'
  assume old: "\<exists>a there p r. py_index (l_positions L) rank = Inr a \<and> py_index (l_positions L) peer = Inr there
    \<and> facts_port F there (role_netdev (r_remote lane)) = Inr p \<and> holds rs a (pt_address p) r
    \<and> or_netdev r = role_netdev (r_local lane) \<and> or_cables r = lane_cables lane
    \<and> (rank, peer, r_lane lane) \<in> set (dget_or lanes (a, pt_address p) [])"
    and y: "carried_lane F L rs y lanes = Inr lanes'"
  obtain rank' peer' lane' where e: "y = (rank', peer', lane')" by (cases y)
  have grow: "set (dget_or lanes q []) \<subseteq> set (dget_or lanes' q [])" for q
  proof (cases "2 \<le> lane_hops lane'")
    case True
    from carried_lane_checked [OF y [unfolded e] True] show ?thesis by auto
  next
    case False
    then show ?thesis using y by (auto simp: carried_lane_def e)
  qed
  show "\<exists>a there p r. py_index (l_positions L) rank = Inr a \<and> py_index (l_positions L) peer = Inr there
    \<and> facts_port F there (role_netdev (r_remote lane)) = Inr p \<and> holds rs a (pt_address p) r
    \<and> or_netdev r = role_netdev (r_local lane) \<and> or_cables r = lane_cables lane
    \<and> (rank, peer, r_lane lane) \<in> set (dget_or lanes' (a, pt_address p) [])"
    using old grow by blast
qed

section \<open>Properties\<close>

text \<open>
  The relay tags and the relays left are inverse: \<open>relays_left\<close> reads exactly the EtherTypes \<open>tag\<close> makes,
  with the count they were made from.
\<close>

theorem relay_tags_roundtrip: "relay_tag k = Inr t \<longleftrightarrow> relays_left t = Some k"
  by (rule tag_is_relays)

text \<open>
  C28: an accepted group plan delivers: a frame sent on any origin route of any Spark, followed through the plan's
  tables over the physical ring, crosses exactly the route's hops, only Sparks of the group, and ends on the
  peer's function that holds the destination address.
\<close>

theorem plan_routes_deliver:
  assumes "build_group_plan R digest g F egress limit = Inr P" "s \<in> set (gp_sparks P)" "r \<in> set (sp_routes s)"
  shows "\<exists>T p. trace R (plan_table (gp_sparks P)) F (gr_ring_size g) (sp_position s) (or_destination r) = Inr T
    \<and> tr_outcome T = Delivered \<and> int (length (tr_hops T)) = or_hops r \<and> fst ` set (tr_hops T) \<subseteq> set (gr_members g)
    \<and> last (tr_hops T) = (or_peer r, or_peer_netdev r)
    \<and> facts_port F (or_peer r) (or_peer_netdev r) = Inr p \<and> pt_address p = or_destination r"
proof -
  obtain T where T: "trace R (plan_table (gp_sparks P)) F (gr_ring_size g) (sp_position s) (or_destination r) = Inr T"
    "tr_outcome T = Delivered" "last (tr_hops T) = (or_peer r, or_peer_netdev r)"
    "fst ` set (tr_hops T) \<subseteq> set (gr_members g)" using delivery_checked [OF assms] by blast
  note t = route_travels [OF assms T(1)]
  from travel_delivers [OF t(1) T(2)] t(3) T show ?thesis by auto
qed

text \<open>
  C29: no frame leaves its group: every frame the relays of an accepted group plan make of a frame sent on an
  origin route, step by step, is at a Spark of the group.
\<close>

theorem frames_stay_inside:
  assumes "build_group_plan R digest g F egress limit = Inr P" "s \<in> set (gp_sparks P)" "r \<in> set (sp_routes s)"
    and "relayed R (plan_table (gp_sparks P)) F (gr_ring_size g) (or_destination r) (origin_frame (sp_position s) r) fr"
  shows "fr_here fr \<in> set (gr_members g)"
proof -
  obtain T where T: "trace R (plan_table (gp_sparks P)) F (gr_ring_size g) (sp_position s) (or_destination r) = Inr T"
    "fst ` set (tr_hops T) \<subseteq> set (gr_members g)" using delivery_checked [OF assms(1-3)] by blast
  note t = route_travels [OF assms(1-3) T(1)]
  obtain L where l: "group_fabric g = Inr L" using assms(1) by (rule group_plan_parts)
  have "sp_position s \<in> set (gr_members g)" using plan_routes_are [OF assms(1) l assms(2)] by (rule conjunct1)
  then show ?thesis using travel_visits [OF t(1,2) assms(4)] T(2) by (auto simp: origin_frame_def)
qed

text \<open>
  The plan is complete: for every two members and every shortest path of two or more cables between them,
  on both function classes, the Spark where the path starts has its origin route, and every Spark inside it the
  filter that takes the tag of the cables left, from the device the path arrives on, on to the path's next Spark.
\<close>

theorem plan_carries_paths:
  assumes "build_group_plan R digest g F egress limit = Inr P" "group_fabric g = Inr L"
    "a \<in> set (gr_members g)" "b \<in> set (gr_members g)" "carried (l_fabric L) a b path" "Suc i < length path"
  shows "\<exists>s r s' f in_role. s \<in> set (gp_sparks P) \<and> sp_position s = s_src (hd path) \<and> r \<in> set (sp_routes s)
      \<and> or_peer r = s_dst (last path) \<and> or_cables r = map step_text path \<and> or_hops r = int (length path)
    \<and> s' \<in> set (gp_sparks P) \<and> sp_position s' = s_dst (path ! i) \<and> f \<in> set (sp_filters s')
      \<and> rf_k f = int (length path) - 1 - int i \<and> rf_next_position f = s_dst (path ! Suc i)
      \<and> role_at R (s_dst_port (path ! i)) secondary = Inr in_role \<and> rf_in_netdev f = role_netdev in_role"
proof -
  obtain s r lanes where r: "s \<in> set (gp_sparks P)" "sp_position s = s_src (hd path)"
    "carry_route R F secondary path = Inr r" "r\<lparr>or_lanes := lanes\<rparr> \<in> set (sp_routes s)"
    using plan_holds_paths(1) [OF assms(1-5), of secondary] by blast
  obtain s' f where f: "s' \<in> set (gp_sparks P)" "sp_position s' = s_dst (path ! i)"
    "path_filter R F egress (int (length path)) secondary (i, path ! i, path ! Suc i) f" "f \<in> set (sp_filters s')"
    using plan_holds_paths(2) [OF assms, of secondary] by blast
  have "or_peer r = s_dst (last path)" "or_cables r = map step_text path" "or_hops r = int (length path)"
    using r(3) by (auto simp: carry_route_def bind_res_Inr Let_def)
  then have "or_peer (r\<lparr>or_lanes := lanes\<rparr>) = s_dst (last path)" "or_cables (r\<lparr>or_lanes := lanes\<rparr>) = map step_text path"
      "or_hops (r\<lparr>or_lanes := lanes\<rparr>) = int (length path)" by simp_all
  moreover have "\<exists>in_role. rf_k f = int (length path) - 1 - int i \<and> rf_next_position f = s_dst (path ! Suc i)
      \<and> role_at R (s_dst_port (path ! i)) secondary = Inr in_role \<and> rf_in_netdev f = role_netdev in_role"
    using f(3) unfolding path_filter_def by auto
  ultimately show ?thesis using r(1,2,4) f(1,2,4) by meson
qed

text \<open>
  C30: every SIRCL lane of two or more cables is carried: the rank's Spark has an origin route to the lane's arrival
  address over the lane's device and the lane's cables, and the plan names the lane on that route.
\<close>

theorem sircl_lanes_carried:
  assumes "build_group_plan R digest g F egress limit = Inr P"
    "(rank, peer, lane) \<in> set (sircl_lanes (gp_sircl P))" "2 \<le> lane_hops lane"
  shows "\<exists>s r a there p. s \<in> set (gp_sparks P) \<and> r \<in> set (sp_routes s)
    \<and> py_index (gr_members g) rank = Inr a \<and> sp_position s = a \<and> py_index (gr_members g) peer = Inr there
    \<and> facts_port F there (role_netdev (r_remote lane)) = Inr p \<and> or_destination r = pt_address p
    \<and> or_netdev r = role_netdev (r_local lane) \<and> or_cables r = lane_cables lane
    \<and> (rank, peer, r_lane lane) \<in> set (or_lanes r)"
proof -
  from assms(1) obtain L st sircl lanes_of where l: "group_fabric g = Inr L"
    and t: "tables_are (set (l_positions L)) R F egress {x. \<exists>a\<in>set (l_positions L). \<exists>b\<in>set (l_positions L). carried (l_fabric L) a b (fst x)} st"
    and "derive_routes R L 2 = Inr sircl" and c: "fold_res (carried_lane F L (fst st)) (sircl_lanes sircl) [] = Inr lanes_of"
    and m: "map_res (spark_plan R F (group_label g) (fst st) (snd st) lanes_of) (group_order g) = Inr (gp_sparks P)"
    and "is_ok (map_res (check_delivery R (plan_table (gp_sparks P)) F (gr_ring_size g) (l_positions L))
      (concat (map (\<lambda>s. map (Pair (sp_position s)) (sp_routes s)) (gp_sparks P))))"
    and "gp_group P = g" "gp_layout P = L" and sircl: "gp_sircl P = sircl"
    by (rule group_plan_parts)
  note members = layout_members [OF l] and keyed = keyed_tables [OF t]
  obtain a there p r where a: "py_index (l_positions L) rank = Inr a" "py_index (l_positions L) peer = Inr there"
    "facts_port F there (role_netdev (r_remote lane)) = Inr p" "holds (fst st) a (pt_address p) r"
    "or_netdev r = role_netdev (r_local lane)" "or_cables r = lane_cables lane"
    "(rank, peer, r_lane lane) \<in> set (dget_or lanes_of (a, pt_address p) [])"
    using lane_carried [OF c, of rank peer lane] assms(2,3) unfolding sircl by blast
  have "a \<in> set (group_order g)" using a(4) keyed members unfolding keyed_def holds_def by auto
  then obtain s where s: "s \<in> set (gp_sparks P)" "spark_plan R F (group_label g) (fst st) (snd st) lanes_of a = Inr s"
    using map_res_each [OF m] by blast
  note parts = spark_plan_parts [OF s(2) keyed [THEN conjunct1] keyed [THEN conjunct2]]
  have d: "or_destination r = pt_address p" using t a(4) unfolding tables_are_def routes_are_def by metis
  have "r\<lparr>or_lanes := dget_or lanes_of (a, or_destination r) []\<rparr> \<in> set (sp_routes s)" using parts(2) a(4) by blast
  then show ?thesis
    using s(1) parts(1) a d members
    by (intro exI [of _ s] exI [of _ "r\<lparr>or_lanes := dget_or lanes_of (a, or_destination r) []\<rparr>"] exI conjI) auto
qed

text \<open>The isolation checks, read back.\<close>

lemma pair_index: "i < j \<Longrightarrow> j < n \<Longrightarrow> (i, j) \<in> set (concat (map (\<lambda>i. map (Pair i) [Suc i..<n]) [0..<n]))"
  by (auto intro!: bexI [of _ i])

lemma group_pair_isolated:
  assumes "group_pair_problems plans (i, j) = Inr []"
  shows "set (gr_members (gp_group (plans ! i))) \<inter> set (gr_members (gp_group (plans ! j))) = {}
    \<and> set (used_cables (plans ! i)) \<inter> set (used_cables (plans ! j)) = {}"
proof -
  obtain own_a own_b where
    "sort (filter (\<lambda>m. m \<in> set (gr_members (gp_group (plans ! j)))) (remdups (gr_members (gp_group (plans ! i))))) = []"
    "sort (filter (\<lambda>c. c \<in> set (own_b @ used_cables (plans ! j))) (remdups (own_a @ used_cables (plans ! i)))) = []"
    using assms by (auto simp: group_pair_problems_def bind_res_Inr Let_def simp del: set_append remdups_append2 split: if_split_asm)
  from this [THEN arg_cong [of _ _ set]] show ?thesis by auto
qed

lemma spark_isolated:
  assumes "spark_problems R G members owned s = Inr []"
  shows "sp_position s \<in> set members
    \<and> (\<forall>r\<in>set (sp_routes s). or_peer r \<in> set members \<and> set (or_relays r) \<subseteq> set members \<and> set (or_owned_cables r) \<subseteq> set owned)
    \<and> (\<forall>f\<in>set (sp_filters s). rf_next_position f \<in> set members)"
proof -
  obtain fs where fs: "map_res (filter_problems R G members (sp_position s)) (sp_filters s) = Inr fs"
    and p: "sp_position s \<in> set members" and r: "\<forall>r\<in>set (sp_routes s). route_problems members owned (sp_position s) r = []"
    and f: "\<forall>x\<in>set fs. x = []"
    using assms by (auto simp: spark_problems_def bind_res_Inr split: if_split_asm)
  have "rf_next_position f \<in> set members" if i: "f \<in> set (sp_filters s)" for f
  proof -
    obtain x where "x \<in> set fs" "filter_problems R G members (sp_position s) f = Inr x"
      using map_res_each [OF fs i] by blast
    then show ?thesis using f by (auto simp: filter_problems_def bind_res_Inr split: if_split_asm)
  qed
  then show ?thesis using p r by (fastforce simp: route_problems_def split: if_split_asm)
qed

lemma plans_isolated:
  assumes "plan_isolation_problems R plans = Inr []"
  shows "i < j \<Longrightarrow> j < length plans \<Longrightarrow> group_pair_problems plans (i, j) = Inr []"
    and "P \<in> set plans \<Longrightarrow> s \<in> set (gp_sparks P)
      \<Longrightarrow> \<exists>owned. group_cable_texts (gp_group P) = Inr owned
        \<and> spark_problems R (l_fabric (gp_layout P)) (gr_members (gp_group P)) owned s = Inr []"
proof -
  obtain own pairs where own: "map_res (group_problems R) plans = Inr own" "\<forall>x\<in>set own. x = []"
    and pairs: "map_res (group_pair_problems plans) (concat (map (\<lambda>i. map (Pair i) [Suc i..<length plans]) [0..<length plans])) = Inr pairs"
      "\<forall>x\<in>set pairs. x = []"
    using assms by (auto simp: plan_isolation_problems_def bind_res_Inr simp del: map_eq_conv)
  show "group_pair_problems plans (i, j) = Inr []" if "i < j" "j < length plans"
    using map_res_each [OF pairs(1) pair_index [OF that]] pairs(2) by auto
  show "\<exists>owned. group_cable_texts (gp_group P) = Inr owned
        \<and> spark_problems R (l_fabric (gp_layout P)) (gr_members (gp_group P)) owned s = Inr []"
    if P: "P \<in> set plans" and s: "s \<in> set (gp_sparks P)"
  proof -
    have "group_problems R P = Inr []" using map_res_each [OF own(1) P] own(2) by auto
    then obtain owned ps where o: "group_cable_texts (gp_group P) = Inr owned"
      "map_res (spark_problems R (l_fabric (gp_layout P)) (gr_members (gp_group P)) owned) (gp_sparks P) = Inr ps" "\<forall>x\<in>set ps. x = []"
      by (auto simp: group_problems_def bind_res_Inr)
    then show ?thesis using map_res_each [OF o(2) s] by auto
  qed
qed

text \<open>
  An accepted layout plan is isolated: no two of its groups share a Spark or use a common cable, and within each
  group every route's peer and relays, every cable it crosses and every filter's next Spark belong to the group.
\<close>

theorem layout_plan_isolated:
  assumes "build_layout_plan R digest L F groups limit = Inr LP"
  shows "(\<forall>i j. i < j \<and> j < length (lp_groups LP) \<longrightarrow>
        set (gr_members (gp_group (lp_groups LP ! i))) \<inter> set (gr_members (gp_group (lp_groups LP ! j))) = {}
        \<and> set (used_cables (lp_groups LP ! i)) \<inter> set (used_cables (lp_groups LP ! j)) = {})
    \<and> (\<forall>P\<in>set (lp_groups LP). \<forall>s\<in>set (gp_sparks P). sp_position s \<in> set (gr_members (gp_group P))
        \<and> (\<forall>r\<in>set (sp_routes s). or_peer r \<in> set (gr_members (gp_group P)) \<and> set (or_relays r) \<subseteq> set (gr_members (gp_group P))
            \<and> (\<exists>owned. group_cable_texts (gp_group P) = Inr owned \<and> set (or_owned_cables r) \<subseteq> set owned))
        \<and> (\<forall>f\<in>set (sp_filters s). rf_next_position f \<in> set (gr_members (gp_group P))))"
proof -
  have iso: "plan_isolation_problems R (lp_groups LP) = Inr []"
    using assms by (auto simp: build_layout_plan_def bind_res_Inr split: if_split_asm)
  show ?thesis
  proof (intro conjI allI impI ballI; (elim conjE)?)
    fix i j
    assume ij: "i < j" "j < length (lp_groups LP)"
    note p = group_pair_isolated [OF plans_isolated(1) [OF iso ij]]
    show "set (gr_members (gp_group (lp_groups LP ! i))) \<inter> set (gr_members (gp_group (lp_groups LP ! j))) = {}"
      "set (used_cables (lp_groups LP ! i)) \<inter> set (used_cables (lp_groups LP ! j)) = {}"
      using p by (rule conjunct1, rule conjunct2)
  next
    fix P s
    assume "P \<in> set (lp_groups LP)" "s \<in> set (gp_sparks P)"
    then obtain owned where "group_cable_texts (gp_group P) = Inr owned"
        "spark_problems R (l_fabric (gp_layout P)) (gr_members (gp_group P)) owned s = Inr []"
      using plans_isolated(2) [OF iso] by blast
    note s = this(1) spark_isolated [OF this(2)]
    show "sp_position s \<in> set (gr_members (gp_group P))" using s by blast
    show "or_peer r \<in> set (gr_members (gp_group P))" "set (or_relays r) \<subseteq> set (gr_members (gp_group P))"
      "\<exists>owned. group_cable_texts (gp_group P) = Inr owned \<and> set (or_owned_cables r) \<subseteq> set owned" if "r \<in> set (sp_routes s)" for r
      using s that by blast+
    show "rf_next_position f \<in> set (gr_members (gp_group P))" if "f \<in> set (sp_filters s)" for f
      using s that by blast
  qed
qed

section \<open>A path of three Sparks\<close>

definition three_group :: Group where
  "three_group = \<lparr>gr_members = [0, 1, 2], gr_ring_size = 6\<rparr>"

definition three_facts :: Facts where
  "three_facts = symbolic_for DEFAULT_ROLES [''a'', ''b'', ''c'', ''d'', ''e'', ''f'']"

definition no_digest :: "string \<Rightarrow> string \<Rightarrow> SparkPlan list \<Rightarrow> string" where
  "no_digest label egress sparks = []"

text \<open>The first route of the first Spark starts at Spark 0 and its first relay, Spark 1, forwards it.\<close>

definition first_forwards :: "GroupPlan \<Rightarrow> bool" where
  "first_forwards P = (case gp_sparks P of [] \<Rightarrow> False | s # _ \<Rightarrow> (case sp_routes s of [] \<Rightarrow> False | r # _ \<Rightarrow>
    sp_position s = 0 \<and> or_hops r = 2 \<and>
    (case cross_cable DEFAULT_ROLES (plan_table (gp_sparks P)) three_facts 6 (or_destination r) (origin_frame 0 r) of
      Inr (Forwards receiver fr) \<Rightarrow> fr_here fr = 1 | _ \<Rightarrow> False)))"

definition far_lane :: "int \<times> int \<times> LaneRoute \<Rightarrow> bool" where
  "far_lane e = (fst e = 0 \<and> fst (snd e) = 2 \<and> lane_hops (snd (snd e)) = 2)"

definition three_check :: "py_error + GroupPlan \<Rightarrow> bool" where
  "three_check x = (case x of Inl _ \<Rightarrow> False | Inr P \<Rightarrow> first_forwards P \<and> list_ex far_lane (sircl_lanes (gp_sircl P)))"

lemma three_checked: "three_check (build_group_plan DEFAULT_ROLES no_digest three_group three_facts ''sibling'' 1)"
  by code_simp

lemma first_forwards_D:
  assumes "first_forwards P"
  shows "\<exists>s r receiver fr. s \<in> set (gp_sparks P) \<and> r \<in> set (sp_routes s) \<and> sp_position s = 0 \<and> or_hops r = 2 \<and> fr_here fr = 1
    \<and> cross_cable DEFAULT_ROLES (plan_table (gp_sparks P)) three_facts 6 (or_destination r) (origin_frame 0 r) = Inr (Forwards receiver fr)"
proof -
  obtain s ss r rs where l: "gp_sparks P = s # ss" "sp_routes s = r # rs"
    using assms by (auto simp: first_forwards_def split: list.splits)
  then have "s \<in> set (gp_sparks P)" "r \<in> set (sp_routes s)" by simp_all
  moreover have "sp_position s = 0 \<and> or_hops r = 2 \<and>
      (case cross_cable DEFAULT_ROLES (plan_table (gp_sparks P)) three_facts 6 (or_destination r) (origin_frame 0 r) of
        Inr (Forwards receiver fr) \<Rightarrow> fr_here fr = 1 | _ \<Rightarrow> False)"
    using assms unfolding first_forwards_def by (simp add: l)
  ultimately show ?thesis by (intro exI [of _ s] exI [of _ r]) (auto split: sum.split_asm verdict.split_asm)
qed

lemma three_plan:
  obtains P s r receiver fr lane where "build_group_plan DEFAULT_ROLES no_digest three_group three_facts ''sibling'' 1 = Inr P"
    "s \<in> set (gp_sparks P)" "r \<in> set (sp_routes s)" "sp_position s = 0" "or_hops r = 2" "fr_here fr = 1"
    "cross_cable DEFAULT_ROLES (plan_table (gp_sparks P)) three_facts 6 (or_destination r) (origin_frame 0 r) = Inr (Forwards receiver fr)"
    "(0, 2, lane) \<in> set (sircl_lanes (gp_sircl P))" "lane_hops lane = 2"
proof -
  obtain P where P: "build_group_plan DEFAULT_ROLES no_digest three_group three_facts ''sibling'' 1 = Inr P"
    "first_forwards P" "list_ex far_lane (sircl_lanes (gp_sircl P))"
    using three_checked by (auto simp: three_check_def split: sum.splits)
  obtain lane where "(0, 2, lane) \<in> set (sircl_lanes (gp_sircl P))" "lane_hops lane = 2"
    using P(3) by (auto simp: list_ex_iff far_lane_def)
  then show thesis using first_forwards_D [OF P(2)] that [OF P(1)] by blast
qed

theorem plan_routes_deliver_witness:
  "\<exists>P s r T. build_group_plan DEFAULT_ROLES no_digest three_group three_facts ''sibling'' 1 = Inr P
    \<and> s \<in> set (gp_sparks P) \<and> r \<in> set (sp_routes s)
    \<and> trace DEFAULT_ROLES (plan_table (gp_sparks P)) three_facts 6 0 (or_destination r) = Inr T \<and> length (tr_hops T) = 2"
proof -
  obtain P s r receiver fr lane where P: "build_group_plan DEFAULT_ROLES no_digest three_group three_facts ''sibling'' 1 = Inr P"
    "s \<in> set (gp_sparks P)" "r \<in> set (sp_routes s)" "sp_position s = 0" "or_hops r = 2" by (rule three_plan)
  obtain T where "trace DEFAULT_ROLES (plan_table (gp_sparks P)) three_facts 6 0 (or_destination r) = Inr T"
    "int (length (tr_hops T)) = 2"
    using plan_routes_deliver [OF P(1-3)] P(4,5) by (auto simp: three_group_def)
  then show ?thesis using P(1-3) by (intro exI [of _ P] exI [of _ s] exI [of _ r] exI [of _ T]) simp
qed

theorem frames_stay_inside_witness:
  "\<exists>P s r fr. build_group_plan DEFAULT_ROLES no_digest three_group three_facts ''sibling'' 1 = Inr P
    \<and> s \<in> set (gp_sparks P) \<and> r \<in> set (sp_routes s)
    \<and> relayed DEFAULT_ROLES (plan_table (gp_sparks P)) three_facts 6 (or_destination r) (origin_frame 0 r) fr
    \<and> fr_here fr = 1 \<and> fr_here fr \<in> set (gr_members three_group)"
proof -
  obtain P s r receiver fr lane where P: "build_group_plan DEFAULT_ROLES no_digest three_group three_facts ''sibling'' 1 = Inr P"
    "s \<in> set (gp_sparks P)" "r \<in> set (sp_routes s)" "sp_position s = 0" "or_hops r = 2" "fr_here fr = 1"
    "cross_cable DEFAULT_ROLES (plan_table (gp_sparks P)) three_facts 6 (or_destination r) (origin_frame 0 r) = Inr (Forwards receiver fr)"
    by (rule three_plan)
  have f: "relayed DEFAULT_ROLES (plan_table (gp_sparks P)) three_facts 6 (or_destination r) (origin_frame 0 r) fr"
    using relayed.forwarded [OF relayed.sent P(7)] .
  have "gr_ring_size three_group = 6" by (simp add: three_group_def)
  then have "fr_here fr \<in> set (gr_members three_group)" using frames_stay_inside [OF P(1-3)] f P(4) by simp
  then show ?thesis
    by (intro exI [of _ P] exI [of _ s] exI [of _ r] exI [of _ fr] conjI) (rule P(1-3) f P(6) | assumption)+
qed


theorem sircl_lanes_carried_witness:
  "\<exists>P s r lane. build_group_plan DEFAULT_ROLES no_digest three_group three_facts ''sibling'' 1 = Inr P
    \<and> (0, 2, lane) \<in> set (sircl_lanes (gp_sircl P)) \<and> s \<in> set (gp_sparks P) \<and> sp_position s = 0 \<and> r \<in> set (sp_routes s)
    \<and> or_cables r = lane_cables lane \<and> (0, 2, r_lane lane) \<in> set (or_lanes r)"
proof -
  obtain P s r receiver fr lane where P: "build_group_plan DEFAULT_ROLES no_digest three_group three_facts ''sibling'' 1 = Inr P"
    "s \<in> set (gp_sparks P)" "r \<in> set (sp_routes s)" "sp_position s = 0" "or_hops r = 2" "fr_here fr = 1"
    "cross_cable DEFAULT_ROLES (plan_table (gp_sparks P)) three_facts 6 (or_destination r) (origin_frame 0 r) = Inr (Forwards receiver fr)"
    "(0, 2, lane) \<in> set (sircl_lanes (gp_sircl P))" "lane_hops lane = 2"
    by (rule three_plan)
  have two: "2 \<le> lane_hops lane" using P(9) by simp
  from sircl_lanes_carried [OF P(1,8) two]
  obtain s' r' a where "s' \<in> set (gp_sparks P)" "r' \<in> set (sp_routes s')" "py_index (gr_members three_group) 0 = Inr a"
    "sp_position s' = a" "or_cables r' = lane_cables lane" "(0, 2, r_lane lane) \<in> set (or_lanes r')" by blast
  moreover from this have "a = 0" by (simp add: three_group_def)
  ultimately show ?thesis using P(1,8) by blast
qed

definition three_path :: "Step list" where
  "three_path = (case group_fabric three_group of Inl _ \<Rightarrow> [] | Inr L \<Rightarrow>
    (case shortest_paths (l_fabric L) 0 2 of Inr (p # _) \<Rightarrow> p | _ \<Rightarrow> []))"

lemma three_fabric: "is_ok (group_fabric three_group)"
  by code_simp

lemma three_path_steps: "map s_dst three_path = [1, 2]"
  by code_simp

theorem plan_carries_paths_witness:
  "\<exists>P s f. build_group_plan DEFAULT_ROLES no_digest three_group three_facts ''sibling'' 1 = Inr P
    \<and> s \<in> set (gp_sparks P) \<and> sp_position s = 1 \<and> f \<in> set (sp_filters s) \<and> rf_k f = 1 \<and> rf_next_position f = 2"
proof -
  obtain P where P: "build_group_plan DEFAULT_ROLES no_digest three_group three_facts ''sibling'' 1 = Inr P"
    by (rule three_plan)
  obtain L where L: "group_fabric three_group = Inr L" using three_fabric by (auto simp: is_ok_iff)
  have len: "length three_path = 2" using three_path_steps by (metis length_map length_Cons list.size(3) numeral_2_eq_2)
  then obtain ps where "shortest_paths (l_fabric L) 0 2 = Inr (three_path # ps)"
    by (auto simp: three_path_def L split: sum.splits list.splits)
  then have c: "carried (l_fabric L) 0 2 three_path" using len by (simp add: carried_def)
  have m: "0 \<in> set (gr_members three_group)" "2 \<in> set (gr_members three_group)" by (simp_all add: three_group_def)
  have i: "Suc 0 < length three_path" using len by simp
  have "s_dst (three_path ! 0) = 1" "s_dst (three_path ! Suc 0) = 2"
    using three_path_steps len by (metis i length_map nth_Cons_0 nth_Cons_Suc nth_map Suc_lessD)+
  with plan_carries_paths [OF P L m c i, of False] len P show ?thesis by auto
qed

definition three_layout :: FabricLayout where
  "three_layout = \<lparr>fl_name = ''custom'', fl_ring_size = 6,
    fl_groups = [three_group, \<lparr>gr_members = [4, 5], gr_ring_size = 6\<rparr>], fl_relay_egress = ''sibling''\<rparr>"

definition two_planned :: "py_error + LayoutPlan \<Rightarrow> bool" where
  "two_planned x = (case x of Inl _ \<Rightarrow> False | Inr P \<Rightarrow> length (lp_groups P) = 2)"

lemma three_layout_planned: "two_planned (build_layout_plan DEFAULT_ROLES no_digest three_layout three_facts None 1)"
  by code_simp

theorem layout_plan_isolated_witness:
  "\<exists>LP. build_layout_plan DEFAULT_ROLES no_digest three_layout three_facts None 1 = Inr LP \<and> length (lp_groups LP) = 2
    \<and> set (gr_members (gp_group (lp_groups LP ! 0))) \<inter> set (gr_members (gp_group (lp_groups LP ! 1))) = {}"
proof -
  obtain LP where LP: "build_layout_plan DEFAULT_ROLES no_digest three_layout three_facts None 1 = Inr LP" "length (lp_groups LP) = 2"
    using three_layout_planned by (auto simp: two_planned_def split: sum.splits)
  from layout_plan_isolated [OF LP(1), THEN conjunct1, THEN spec [of _ 0], THEN spec [of _ 1]] LP show ?thesis by auto
qed

end
