(* ===== verification/Topology.thy ===== *)
theory Topology
  imports FabricLayout
begin

text \<open>
  A vLLM group placed on the fabric (\<open>vllm/fabric.py\<close>): the physical layout, the fabric a group owns, its
  lanes by the adapter's own derivation, what NCCL may do on it, its relay load, and its route maps as text.
  The lanes are derived a second time here, from the links of every position, and \<open>TopologyFacts\<close> shows that
  they are the lanes of \<open>routes.py\<close>.
\<close>

section \<open>What NCCL may do\<close>

datatype NcclPolicy = NcclAll | NcclRing | NcclNone

definition RING_OPERATIONS :: "string list" where
  "RING_OPERATIONS = [''all_reduce'', ''all_gather'', ''all_gather_into_tensor'', ''reduce_scatter'',
    ''reduce_scatter_tensor'', ''broadcast'', ''reduce'', ''barrier'', ''all_gather_object'',
    ''all_reduce_coalesced'', ''all_gather_coalesced'']"

fun allows :: "NcclPolicy \<Rightarrow> string \<Rightarrow> bool" where
  "allows NcclAll operation = True"
| "allows NcclNone operation = False"
| "allows NcclRing operation = (operation \<in> set RING_OPERATIONS)"

section \<open>Physical layouts\<close>

datatype phys_kind = PhysRing | PhysPath | PhysPair

record PhysLayout =
  ph_kind :: phys_kind
  ph_size :: int
  ph_cables :: "Cable list"

definition PhysLayout_ring :: "int \<Rightarrow> py_error + PhysLayout" where
  "PhysLayout_ring n = (if n < 2 then Inl (FabricError ''a ring needs at least two Sparks'' [])
    else Inr \<lparr>ph_kind = PhysRing, ph_size = n,
      ph_cables = map (\<lambda>i. \<lparr>ca = i, ca_port = 0, cb = (i + 1) mod n, cb_port = 1\<rparr>) (py_range n)\<rparr>)"

definition PhysLayout_path :: "int \<Rightarrow> py_error + PhysLayout" where
  "PhysLayout_path n = (if n < 2 then Inl (FabricError ''a path needs at least two Sparks'' [])
    else Inr \<lparr>ph_kind = PhysPath, ph_size = n,
      ph_cables = map (\<lambda>i. \<lparr>ca = i, ca_port = 0, cb = i + 1, cb_port = 1\<rparr>) (py_range (n - 1))\<rparr>)"

definition PhysLayout_pair :: "int \<Rightarrow> py_error + PhysLayout" where
  "PhysLayout_pair n = (if n \<notin> {1, 2} then Inl (FabricError ''a pair has one or two cables'' [])
    else Inr \<lparr>ph_kind = PhysPair, ph_size = 2,
      ph_cables = map (\<lambda>port. \<lparr>ca = 0, ca_port = port, cb = 1, cb_port = port\<rparr>) (py_range n)\<rparr>)"

definition PhysLayout_parse :: "string \<Rightarrow> py_error + PhysLayout" where
  "PhysLayout_parse given =
    (let (kind_text, _, rest) = partition_at (CHR '':'') (map lower_char (strip given)) in
     if rest \<noteq> [] \<and> py_int rest = None then Inl (FabricError ''not a number'' [])
     else let number = (if rest = [] then None else py_int rest) in
       (case number of
          Some n \<Rightarrow>
            if kind_text = ''ring'' then PhysLayout_ring n
            else if kind_text = ''path'' then PhysLayout_path n
            else if kind_text = ''pair'' then PhysLayout_pair n
            else Inl (FabricError ''layout must be ring:N, path:N, pair or pair:2'' [])
        | None \<Rightarrow>
            if kind_text = ''pair'' then PhysLayout_pair 1
            else Inl (FabricError ''layout must be ring:N, path:N, pair or pair:2'' [])))"

definition phys_text :: "PhysLayout \<Rightarrow> string" where
  "phys_text L = (case ph_kind L of
     PhysRing \<Rightarrow> ''ring:'' @ str_of_int (ph_size L)
   | PhysPath \<Rightarrow> ''path:'' @ str_of_int (ph_size L)
   | PhysPair \<Rightarrow> ''pair:'' @ str_of_int (int (length (ph_cables L))))"

section \<open>The fabric of a group\<close>

datatype group_shape = CycleShape | PathShape | PairShape

record GroupFabric =
  gf_kind :: group_shape
  gf_order :: "int list"
  gf_cables :: "Cable list"

definition adjacent :: "GroupFabric \<Rightarrow> int \<Rightarrow> int \<Rightarrow> bool" where
  "adjacent G a b = list_ex (\<lambda>c. {a, b} = {ca c, cb c}) (gf_cables G)"

definition check_positions :: "PhysLayout \<Rightarrow> int list \<Rightarrow> py_error + unit" where
  "check_positions L members =
    (if \<not> distinct members then Inl (FabricError ''group positions repeat a Spark'' members)
     else let outside = filter (\<lambda>p. \<not> (0 \<le> p \<and> p < ph_size L)) members
       in if outside \<noteq> [] then Inl (FabricError ''positions are outside the layout'' outside) else Inr ())"

definition arc_from :: "PhysLayout \<Rightarrow> nat \<Rightarrow> int \<Rightarrow> int list" where
  "arc_from L n start = map (\<lambda>step. (start + int step) mod ph_size L) [0..<n]"

definition arc_fabric :: "PhysLayout \<Rightarrow> int list \<Rightarrow> GroupFabric" where
  "arc_fabric L arc = \<lparr>gf_kind = (if length arc = 2 then PairShape else PathShape), gf_order = arc,
    gf_cables = concat (map (\<lambda>(a, b). filter (\<lambda>c. {ca c, cb c} = {a, b}) (ph_cables L)) (zip arc (tl arc)))\<rparr>"

definition owned_fabric :: "PhysLayout \<Rightarrow> int list \<Rightarrow> py_error + GroupFabric" where
  "owned_fabric L members =
    bind_res (check_positions L members) (\<lambda>_.
    if length members = 1 then Inr \<lparr>gf_kind = PathShape, gf_order = members, gf_cables = []\<rparr>
    else if ph_kind L = PhysPair then Inr \<lparr>gf_kind = PairShape, gf_order = [0, 1], gf_cables = ph_cables L\<rparr>
    else if ph_kind L = PhysRing \<and> set members = set (py_range (ph_size L))
    then Inr \<lparr>gf_kind = (if ph_size L \<ge> 3 then CycleShape else PairShape), gf_order = py_range (ph_size L),
      gf_cables = ph_cables L\<rparr>
    else
      let starts = (if ph_kind L = PhysRing then py_range (ph_size L)
                    else py_range (ph_size L - int (length members) + 1)) in
      (case find (\<lambda>arc. set arc = set members) (map (arc_from L (length members)) starts) of
         Some arc \<Rightarrow> Inr (arc_fabric L arc)
       | None \<Rightarrow> Inl (FabricError ''positions are not consecutive Sparks of the layout'' members)))"

section \<open>Lanes\<close>

record TopoLane =
  tl_peer :: int
  tl_index :: int
  tl_port :: int
  tl_secondary :: bool
  tl_remote_port :: int
  tl_positions :: "int list"
  tl_cables :: "string list"

definition topo_hops :: "TopoLane \<Rightarrow> int" where
  "topo_hops l = int (length (tl_cables l))"

definition topo_relays :: "TopoLane \<Rightarrow> int list" where
  "topo_relays l = butlast (tl (tl_positions l))"

text \<open>\<open>CANONICAL_DEVICES\<close>: the device of a port and class in the role table, a later role over an earlier one.\<close>

definition canonical_device :: "Role list \<Rightarrow> int \<Rightarrow> bool \<Rightarrow> py_error + string" where
  "canonical_device R port secondary =
    (case find (\<lambda>r. role_port r = port \<and> role_secondary r = secondary) (rev R) of
       Some r \<Rightarrow> Inr (role_device r) | None \<Rightarrow> Inl (KeyErr ''port and class'' [port]))"

definition topo_device :: "Role list \<Rightarrow> TopoLane \<Rightarrow> py_error + string" where
  "topo_device R l = canonical_device R (tl_port l) (tl_secondary l)"

definition topo_remote_device :: "Role list \<Rightarrow> TopoLane \<Rightarrow> py_error + string" where
  "topo_remote_device R l = canonical_device R (tl_remote_port l) (tl_secondary l)"

definition topo_role :: "TopoLane \<Rightarrow> py_error + string" where
  "topo_role l = (if tl_port l = 0 then Inr (if tl_secondary l then ''cw_secondary'' else ''cw_primary'')
    else if tl_port l = 1 then Inr (if tl_secondary l then ''ccw_secondary'' else ''ccw_primary'')
    else Inl (KeyErr ''port and class'' [tl_port l]))"

text \<open>The links of a position, in cable order: the step over each cable that ends there.\<close>

definition cable_links :: "int \<Rightarrow> Cable \<Rightarrow> Step list" where
  "cable_links x c =
    (if ca c = x then [\<lparr>s_cable = c, s_src = x, s_src_port = ca_port c, s_dst = cb c, s_dst_port = cb_port c\<rparr>] else [])
    @ (if cb c = x then [\<lparr>s_cable = c, s_src = x, s_src_port = cb_port c, s_dst = ca c, s_dst_port = ca_port c\<rparr>] else [])"

definition links :: "Cable list \<Rightarrow> int \<Rightarrow> Step list" where
  "links cs x = concat (map (cable_links x) cs)"

definition link_relax :: "int \<Rightarrow> (int, nat) dict \<times> int list \<Rightarrow> Step \<Rightarrow> (int, nat) dict \<times> int list" where
  "link_relax here state s = (let (distance, queue) = state in
    if dget distance (s_dst s) = None
    then (dset (s_dst s) (dget_or distance here 0 + 1) distance, queue @ [s_dst s])
    else (distance, queue))"

definition cable_nodes :: "Cable list \<Rightarrow> int set" where
  "cable_nodes cs = fst ` set (concat (map cable_ends cs))"

lemma links_node: "s \<in> set (links cs x) \<Longrightarrow> s_dst s \<in> cable_nodes cs \<and> s_src s = x"
  by (force simp: links_def cable_links_def cable_nodes_def cable_ends_def split: if_splits)

lemma link_relax_measure:
  assumes "foldl (link_relax here) (D, Q) ss = (D', Q')" "\<forall>s\<in>set ss. s_dst s \<in> cable_nodes cs"
  shows "2 * card {x \<in> cable_nodes cs. dget D' x = None} + length Q'
    \<le> 2 * card {x \<in> cable_nodes cs. dget D x = None} + length Q"
  using assms
proof (induction ss arbitrary: D Q)
  case (Cons s ss)
  show ?case
  proof (cases "dget D (s_dst s) = None")
    case False
    then have "link_relax here (D, Q) s = (D, Q)" by (simp add: link_relax_def)
    then have "foldl (link_relax here) (D, Q) ss = (D', Q')" using Cons.prems(1) by simp
    then show ?thesis using Cons.IH Cons.prems(2) by simp
  next
    case True
    let ?D = "dset (s_dst s) (dget_or D here 0 + 1) D"
    have "{x \<in> cable_nodes cs. dget D x = None} = insert (s_dst s) {x \<in> cable_nodes cs. dget ?D x = None}"
      using True Cons.prems(2) by auto
    moreover have "finite (cable_nodes cs)" by (simp add: cable_nodes_def)
    moreover have "s_dst s \<notin> {x \<in> cable_nodes cs. dget ?D x = None}" by simp
    ultimately have "card {x \<in> cable_nodes cs. dget D x = None} = Suc (card {x \<in> cable_nodes cs. dget ?D x = None})"
      by (metis (no_types, lifting) card_insert_disjoint finite_subset mem_Collect_eq subsetI)
    moreover have "link_relax here (D, Q) s = (?D, Q @ [s_dst s])" using True by (simp add: link_relax_def)
    moreover from this have "foldl (link_relax here) (?D, Q @ [s_dst s]) ss = (D', Q')" using Cons.prems(1) by simp
    ultimately show ?thesis using Cons.IH [of ?D "Q @ [s_dst s]"] Cons.prems(2) by simp
  qed
qed simp

function link_bfs :: "Cable list \<Rightarrow> (int, nat) dict \<Rightarrow> int list \<Rightarrow> (int, nat) dict" where
  "link_bfs cs distance [] = distance"
| "link_bfs cs distance (here # queue) =
    (let (distance', queue') = foldl (link_relax here) (distance, queue) (links cs here) in link_bfs cs distance' queue')"
  by pat_completeness auto

termination link_bfs
proof (relation "measure (\<lambda>(cs, D, Q). 2 * card {x \<in> cable_nodes cs. dget D x = None} + length Q)")
  fix cs D and here :: int and Q x D' Q'
  assume "x = foldl (link_relax here) (D, Q) (links cs here)" "(D', Q') = x"
  then have "foldl (link_relax here) (D, Q) (links cs here) = (D', Q')" by simp
  from link_relax_measure [OF this] links_node
  show "((cs, D', Q'), cs, D, here # Q) \<in> measure (\<lambda>(cs, D, Q). 2 * card {x \<in> cable_nodes cs. dget D x = None} + length Q)"
    by (simp only: in_measure prod.case list.size) (metis (no_types, lifting) add_Suc_right le_imp_less_Suc add.right_neutral)
qed simp

text \<open>\<open>extend\<close>: every descent of the distances to the destination, link by link.\<close>

function link_descend :: "Cable list \<Rightarrow> (int, nat) dict \<Rightarrow> int \<Rightarrow> int \<Rightarrow> Step list \<Rightarrow> Step list list" where
  "link_descend cs distance b here steps =
    (if here = b then [steps]
     else concat (map (\<lambda>s.
          if dget distance (s_dst s) \<noteq> None \<and> dget distance here = map_option Suc (dget distance (s_dst s))
          then link_descend cs distance b (s_dst s) (steps @ [s]) else [])
       (links cs here)))"
  by pat_completeness auto

termination link_descend
  by (relation "measure (\<lambda>(cs, distance, b, here, steps). dget_or distance here 0)") (auto simp: dget_or_dget split: option.splits)

declare link_descend.simps [simp del]

definition link_paths :: "Cable list \<Rightarrow> int \<Rightarrow> int \<Rightarrow> Step list list" where
  "link_paths cs a b = (let distance = link_bfs cs [(b, 0)] [b]
    in if dget distance a = None then [] else link_descend cs distance b a [])"

definition takes_path_a :: "int \<Rightarrow> int \<Rightarrow> Step list \<Rightarrow> bool" where
  "takes_path_a a b path = (if a < b then s_src_port (hd path) = 0 else s_dst_port (last path) = 0)"

definition chosen_paths :: "int \<Rightarrow> int \<Rightarrow> Step list list \<Rightarrow> py_error + (Step list \<times> bool) list" where
  "chosen_paths a b paths =
    (if paths = [] then Inl (FabricError ''position cannot be reached over the group's fabric'' [a, b])
     else if length paths = 1 then Inr [(paths ! 0, False), (paths ! 0, True)]
     else if length paths = 2 then
       (let a_paths = filter (takes_path_a a b) paths; b_paths = filter (\<lambda>p. \<not> takes_path_a a b p) paths in
        if length a_paths \<noteq> 1 \<or> length b_paths \<noteq> 1
        then Inl (FabricError ''two shortest paths that the port-0 rule cannot order'' [a, b])
        else Inr [(a_paths ! 0, False), (b_paths ! 0, True)])
     else Inl (FabricError ''shortest paths; Spark fabrics have at most two'' [int (length paths), a, b]))"

definition topo_lane :: "int \<Rightarrow> int \<times> Step list \<times> bool \<Rightarrow> TopoLane" where
  "topo_lane peer e = (case e of (index, path, secondary) \<Rightarrow>
    \<lparr>tl_peer = peer, tl_index = index, tl_port = s_src_port (hd path), tl_secondary = secondary,
      tl_remote_port = s_dst_port (last path), tl_positions = s_src (hd path) # map s_dst path,
      tl_cables = map (\<lambda>s. cable_text (s_cable s)) path\<rparr>)"

definition lanes_toward :: "GroupFabric \<Rightarrow> int list \<Rightarrow> int \<Rightarrow> int \<Rightarrow> int \<Rightarrow> py_error + TopoLane list" where
  "lanes_toward G members rank peer lane_count =
    (if lane_count \<notin> {1, 2} then Inl (FabricError ''a route has one or two lanes per peer'' [])
     else
       bind_res (py_index members rank) (\<lambda>a.
       bind_res (py_index members peer) (\<lambda>b.
       bind_res (chosen_paths a b (link_paths (gf_cables G) a b)) (\<lambda>chosen.
       if list_ex (\<lambda>p. fst p = []) chosen then Inl (IndexErr [0])
       else Inr (map (topo_lane peer) (zip (py_range lane_count) chosen))))))"

section \<open>A group on the fabric\<close>

record GroupTopology =
  gt_layout :: PhysLayout
  gt_fabric :: GroupFabric
  gt_members :: "int list"
  gt_lane_count :: int
  gt_max_relays :: int
  gt_subgroup :: bool

definition topo_world :: "GroupTopology \<Rightarrow> int" where
  "topo_world T = int (length (gt_members T))"

definition topo_lanes :: "GroupTopology \<Rightarrow> int \<Rightarrow> int \<Rightarrow> py_error + TopoLane list" where
  "topo_lanes T rank peer = lanes_toward (gt_fabric T) (gt_members T) rank peer (gt_lane_count T)"

definition hops_between :: "GroupTopology \<Rightarrow> int \<Rightarrow> int \<Rightarrow> py_error + int" where
  "hops_between T rank peer = bind_res (topo_lanes T rank peer) (\<lambda>ls. bind_res (py_index ls 0) (\<lambda>l. Inr (topo_hops l)))"

text \<open>The ring of group ranks: consecutive pairs, the last and the first among them where there are more than two.\<close>

definition ring_pairs :: "nat \<Rightarrow> (nat \<times> nat) list" where
  "ring_pairs n = map (\<lambda>i. (i, (i + 1) mod n)) [0..<if n > 2 then n else 1]"

definition missing_pairs :: "GroupFabric \<Rightarrow> int list \<Rightarrow> (nat \<times> nat) list" where
  "missing_pairs G members = (if length members < 2 then []
    else filter (\<lambda>(a, b). \<not> adjacent G (members ! a) (members ! b)) (ring_pairs (length members)))"

definition uncabled_pairs :: "GroupTopology \<Rightarrow> (nat \<times> nat) list" where
  "uncabled_pairs T = missing_pairs (gt_fabric T) (gt_members T)"

fun all_adjacent :: "GroupFabric \<Rightarrow> int list \<Rightarrow> bool" where
  "all_adjacent G [] = True"
| "all_adjacent G (a # bs) \<longleftrightarrow> list_all (adjacent G a) bs \<and> all_adjacent G bs"

text \<open>Why: for pairs of consecutive ranks without a cable, with their relays where they are counted.\<close>

datatype nccl_reason =
  SingleRank
| EveryPairCabled
| RingCabled
| NoCable "(nat \<times> nat \<times> int option) list"

definition topo_nccl :: "GroupTopology \<Rightarrow> py_error + NcclPolicy \<times> nccl_reason" where
  "topo_nccl T =
    (if length (gt_members T) < 2 then Inr (NcclAll, SingleRank)
     else if all_adjacent (gt_fabric T) (gt_members T) then Inr (NcclAll, EveryPairCabled)
     else let missing = uncabled_pairs T in
       if missing = [] then Inr (NcclRing, RingCabled)
       else bind_res (map_res (\<lambda>(a, b). bind_res (hops_between T (int a) (int b)) (\<lambda>h. Inr (a, b, Some (h - 1)))) missing)
         (\<lambda>described. Inr (NcclNone, NoCable described)))"

definition pair_cabled :: "GroupTopology \<Rightarrow> int \<Rightarrow> int \<Rightarrow> py_error + bool" where
  "pair_cabled T a b = bind_res (py_index (gt_members T) a) (\<lambda>x. bind_res (py_index (gt_members T) b) (\<lambda>y.
    Inr (adjacent (gt_fabric T) x y)))"

definition topo_pairs :: "GroupTopology \<Rightarrow> (int \<times> int) list" where
  "topo_pairs T = filter (\<lambda>(a, b). a \<noteq> b) (List.product (py_range (topo_world T)) (py_range (topo_world T)))"

definition topo_route_map :: "Role list \<Rightarrow> GroupTopology \<Rightarrow> int \<Rightarrow> py_error + (int, string list) dict" where
  "topo_route_map R T rank =
    map_res (\<lambda>peer. bind_res (topo_lanes T rank peer) (\<lambda>ls. bind_res (map_res (topo_device R) ls) (\<lambda>ds. Inr (peer, ds))))
      (filter (\<lambda>peer. peer \<noteq> rank) (py_range (topo_world T)))"

definition every_lane :: "GroupTopology \<Rightarrow> py_error + TopoLane list" where
  "every_lane T = bind_res (map_res (\<lambda>(a, b). topo_lanes T a b) (topo_pairs T)) (\<lambda>ls. Inr (concat ls))"

definition topo_max_relays :: "GroupTopology \<Rightarrow> py_error + int" where
  "topo_max_relays T = bind_res (every_lane T) (\<lambda>ls.
    Inr (if ls = [] then 0 else Max (set (map (\<lambda>l. topo_hops l - 1) ls))))"

text \<open>
  \<open>port_at label position\<close> reads the port of a position on a cable's label: each end is
  \<open>node.portX\<close>, and an end that is not a number raises.
\<close>

fun partition_port :: "string \<Rightarrow> string \<times> string" where
  "partition_port [] = ([], [])"
| "partition_port (c # s) = (if take 5 (c # s) = ''.port'' then ([], drop 4 s)
    else let (node, port) = partition_port s in (c # node, port))"

fun port_of_ends :: "int \<Rightarrow> string list \<Rightarrow> py_error + int" where
  "port_of_ends position [] = Inl (FabricError ''position is not an end of the cable'' [position])"
| "port_of_ends position (e # es) = (let (node, port) = partition_port e in
    case py_int node of
      None \<Rightarrow> Inl (ValueErr ''invalid literal for int'' [])
    | Some n \<Rightarrow> if n = position
        then (case py_int port of None \<Rightarrow> Inl (ValueErr ''invalid literal for int'' []) | Some p \<Rightarrow> Inr p)
        else port_of_ends position es)"

definition port_at :: "string \<Rightarrow> int \<Rightarrow> py_error + int" where
  "port_at label position = (case split_on (CHR ''-'') label of
     [a, b] \<Rightarrow> port_of_ends position [a, b]
   | _ \<Rightarrow> Inl (ValueErr ''too many values to unpack'' []))"

definition lane_keys :: "TopoLane \<Rightarrow> py_error + (int \<times> int \<times> bool) list" where
  "lane_keys l = map_res (\<lambda>(position, label). bind_res (port_at label position) (\<lambda>port. Inr (position, port, tl_secondary l)))
    (zip (topo_relays l) (tl (tl_cables l)))"

definition relay_factor :: "GroupTopology \<Rightarrow> py_error + rat" where
  "relay_factor T = bind_res (every_lane T) (\<lambda>ls. bind_res (map_res lane_keys ls) (\<lambda>ks.
    let counts = foldl (\<lambda>d k. dadd k 1 d) [] (concat ks)
    in if gt_lane_count T = 0 then Inl (RuntimeErr ''ZeroDivisionError'' [])
       else Inr (of_int (if counts = [] then 0 else Max (set (map snd counts))) / of_int (gt_lane_count T))))"

text \<open>Per-peer op bytes and the basis of the value: an override, no relays, a measured factor or the rule.\<close>

datatype op_bytes_basis = Override | NoRelayedLane | Measured rat | RelayRule rat

definition MEASURED_PER_PEER_BYTES :: "(rat, int) dict" where
  "MEASURED_PER_PEER_BYTES = [(3, 131072), (1, 262144)]"

definition per_peer_op_bytes :: "GroupTopology \<Rightarrow> int option \<Rightarrow> py_error + int option \<times> op_bytes_basis" where
  "per_peer_op_bytes T override = (case override of
     Some n \<Rightarrow> Inr (Some n, Override)
   | None \<Rightarrow> bind_res (relay_factor T) (\<lambda>f.
       if f = 0 then Inr (None, NoRelayedLane)
       else let rule = \<lfloor>393216 / f\<rfloor> div 16 * 16 in
         (case dget MEASURED_PER_PEER_BYTES f of
            Some measured \<Rightarrow> Inr (Some (min rule measured), Measured f)
          | None \<Rightarrow> Inr (Some rule, RelayRule f))))"

definition session_layout :: "GroupTopology \<Rightarrow> string" where
  "session_layout T = ''cables='' @ join_with (CHR '','') (map cable_text (gf_cables (gt_fabric T)))
    @ '';positions='' @ join_with (CHR '','') (map str_of_int (gt_members T))"

definition topo_identity :: "GroupTopology \<Rightarrow> string \<times> group_shape \<times> int list \<times> int list \<times> int" where
  "topo_identity T = (phys_text (gt_layout T), gf_kind (gt_fabric T), gf_order (gt_fabric T), gt_members T, gt_lane_count T)"

text \<open>The policy of positions of any shape, over all cables of the layout (only the cables matter here).\<close>

definition nccl_policy_of :: "PhysLayout \<Rightarrow> int list \<Rightarrow> py_error + NcclPolicy \<times> nccl_reason" where
  "nccl_policy_of L positions =
    bind_res (check_positions L positions) (\<lambda>_.
    let G = \<lparr>gf_kind = PathShape, gf_order = py_range (ph_size L), gf_cables = ph_cables L\<rparr> in
    if length positions < 2 then Inr (NcclAll, SingleRank)
    else if all_adjacent G positions then Inr (NcclAll, EveryPairCabled)
    else let missing = missing_pairs G positions in
      if missing = [] then Inr (NcclRing, RingCabled)
      else Inr (NcclNone, NoCable (map (\<lambda>(a, b). (a, b, None)) missing)))"

definition describe_group ::
  "PhysLayout \<Rightarrow> int list \<Rightarrow> int list option \<Rightarrow> int \<Rightarrow> int \<Rightarrow> string \<Rightarrow> py_error + GroupTopology" where
  "describe_group L members parent lane_count limit route_scope =
    (if route_scope \<notin> {''group'', ''fabric''} then Inl (FabricError ''invalid route scope'' [])
     else
       bind_res (check_positions L members) (\<lambda>_.
       bind_res (case parent of
           None \<Rightarrow> owned_fabric L members
         | Some ps \<Rightarrow> if \<not> set members \<subseteq> set ps then Inl (FabricError ''subgroup positions are not inside the parent group'' [])
             else owned_fabric L ps) (\<lambda>G.
       bind_res (if route_scope = ''fabric'' then owned_fabric L (py_range (ph_size L)) else Inr G) (\<lambda>H.
       let T = \<lparr>gt_layout = L, gt_fabric = H, gt_members = members, gt_lane_count = lane_count,
         gt_max_relays = limit, gt_subgroup = (parent \<noteq> None)\<rparr> in
       bind_res (if length members > 1 then topo_max_relays T else Inr 0) (\<lambda>relays.
       if relays > limit then Inl (FabricError ''lanes through more relays than the qualified limit'' [relays, limit])
       else Inr T)))))"

section \<open>Route map text\<close>

definition format_routes :: "(int, string list) dict \<Rightarrow> string" where
  "format_routes routes = join_with (CHR '','')
    (map (\<lambda>(peer, devices). str_of_int peer @ CHR ''='' # join_with (CHR ''/'') devices) (ditems routes))"

definition parse_route :: "string \<Rightarrow> (int, string list) dict \<Rightarrow> py_error + (int, string list) dict" where
  "parse_route raw routes = (let entry = strip raw in
    if entry = [] then Inr routes
    else let (key, separator, value) = partition_at (CHR ''='') entry in
      if \<not> separator then Inl (FabricError ''entry is not peer=device[/device]'' [])
      else (case py_int (strip key) of
          None \<Rightarrow> Inl (FabricError ''entry does not name a rank'' [])
        | Some peer \<Rightarrow>
            let devices = map strip (split_on (CHR ''/'') value) in
            if dget routes peer \<noteq> None then Inl (FabricError ''a rank is named twice'' [peer])
            else if \<not> (length devices \<le> 2 \<and> devices \<noteq> [] \<and> [] \<notin> set devices \<and> distinct devices)
            then Inl (FabricError ''entry must list one or two distinct device names'' [peer])
            else Inr (dset peer devices routes)))"

definition parse_routes :: "string \<Rightarrow> int \<Rightarrow> int \<Rightarrow> py_error + (int, string list) dict" where
  "parse_routes given world rank =
    bind_res (fold_res parse_route (split_on (CHR '','') given) []) (\<lambda>routes.
    if dget routes rank \<noteq> None then Inl (FabricError ''the map names its own rank'' [rank])
    else if set (map fst routes) \<noteq> set (py_range world) - {rank} then Inl (FabricError ''the map must name every other rank'' [rank])
    else if length (remdups (map (\<lambda>e. length (snd e)) routes)) > 1 then Inl (FabricError ''peers have different lane counts'' [rank])
    else if length (remdups (concat (map snd routes))) > 4 then Inl (FabricError ''more than four devices'' [rank])
    else Inr routes)"

definition check_routes :: "Role list \<Rightarrow> GroupTopology \<Rightarrow> int \<Rightarrow> (int, string list) dict \<Rightarrow> py_error + unit" where
  "check_routes R T rank routes =
    bind_res (topo_route_map R T rank) (\<lambda>expected.
    if routes \<noteq> [] \<and> \<not> list_all (\<lambda>e. int (length (snd e)) = gt_lane_count T) routes
    then Inl (FabricError ''route map has another number of lanes per peer than the layout'' [rank, gt_lane_count T])
    else fold_res (\<lambda>(peer, wanted) _. if dget_or routes peer [] \<noteq> wanted
        then Inl (FabricError ''route map sends a rank over other devices than the group needs'' [rank, peer]) else Inr ())
      expected ())"

section \<open>Ranges\<close>

definition chunk_ranges :: "int \<Rightarrow> int \<Rightarrow> int \<Rightarrow> (int \<times> int) list" where
  "chunk_ranges total_units chunk_units align =
    (if total_units \<le> 0 then []
     else let step = max align (chunk_units div align * align)
       in map (\<lambda>offset. (offset, min step (total_units - offset))) (py_range_step 0 total_units step))"

end
