(* ===== verification/Planner.thy ===== *)
theory Planner
  imports Topology Pieces
begin

text \<open>
  The choice of how one collective of a vLLM group is carried (\<open>vllm/planner.py\<close>): by the group's SIRCL
  session, in how many ops of which size, by NCCL, or by nobody.  A plan's reason keeps its fixed text, without
  the numbers it formats.  The group's cabling enters a policy as \<open>NcclView\<close>: the policy, the reason and the
  cabled pairs of its \<open>GroupTopology\<close>.
\<close>

section \<open>Calls, limits and policies\<close>

definition SUMMED_DTYPES :: "string list" where
  "SUMMED_DTYPES = [''float16'', ''bfloat16'', ''float32'']"

definition EXACT_LOCAL_SUM_DTYPES :: "string list" where
  "EXACT_LOCAL_SUM_DTYPES = SUMMED_DTYPES @ [''int8'', ''uint8'', ''int16'', ''int32'', ''int64'', ''float64'']"

definition BYTE_VIEW_DTYPES :: "string list" where
  "BYTE_VIEW_DTYPES = [''bool'', ''complex64'', ''complex128'', ''float8_e4m3fn'', ''float8_e5m2'']"

record TensorMeta =
  tm_shape :: "int list"
  tm_dtype :: string
  tm_itemsize :: int
  tm_contiguous :: bool

definition numel :: "TensorMeta \<Rightarrow> int" where
  "numel t = prod_list (tm_shape t)"

definition nbytes :: "TensorMeta \<Rightarrow> int" where
  "nbytes t = numel t * tm_itemsize t"

record SessionLimits =
  li_world :: int
  li_capacity :: int
  li_dispatch :: int
  li_gather :: int
  li_reduce_dtypes :: "string list"
  li_scatter_dtypes :: "string list"
  li_all_to_all :: bool
  li_per_peer_op_bytes :: "int option"
  li_scatter_op_override :: "int option"
  li_large_piece :: "int option"
  li_gather_piece :: "int option"
  li_scatter_piece :: "int option"

definition gather_op_bytes :: "SessionLimits \<Rightarrow> int" where
  "gather_op_bytes l = (case li_per_peer_op_bytes l of None \<Rightarrow> li_gather l | Some n \<Rightarrow> min (li_gather l) n)"

text \<open>A world of zero divides by zero.\<close>

definition scatter_op_bytes :: "SessionLimits \<Rightarrow> py_error + int" where
  "scatter_op_bytes l =
    (let limit = (case li_scatter_op_override l of
         Some n \<Rightarrow> min (li_capacity l) n
       | None \<Rightarrow> (case li_per_peer_op_bytes l of
           Some n \<Rightarrow> min (li_capacity l) (n * li_world l) | None \<Rightarrow> li_capacity l))
     in if li_world l = 0 then Inl (RuntimeErr ''ZeroDivisionError'' [])
        else Inr (limit div (li_world l * PACK_BYTES) * (li_world l * PACK_BYTES)))"

text \<open>\<open>if value:\<close> of an optional integer: absent and zero are both false.\<close>

definition truthy :: "int option \<Rightarrow> int option" where
  "truthy v = (case v of Some n \<Rightarrow> if n = 0 then None else Some n | None \<Rightarrow> None)"

datatype backend = Sircl | Nccl | Refuse

record Plan =
  pl_collective :: string
  pl_backend :: backend
  pl_method :: string
  pl_ops :: int
  pl_piece :: int
  pl_reason :: string
  pl_copy :: bool

definition plan_key :: "Plan \<Rightarrow> string \<times> backend \<times> string" where
  "plan_key p = (pl_collective p, pl_backend p, pl_method p)"

record NcclView =
  nv_policy :: NcclPolicy
  nv_reason :: string
  nv_cabled :: "int \<Rightarrow> int \<Rightarrow> bool"

record Policy =
  po_topology :: "NcclView option"
  po_nccl_mode :: string
  po_large :: string
  po_nccl_above :: "(string, int) dict"
  po_override :: "NcclPolicy option"
  po_reason :: string
  po_cabled :: "(int \<Rightarrow> int \<Rightarrow> bool) option"

definition nccl_policy :: "Policy \<Rightarrow> NcclPolicy" where
  "nccl_policy P = (case po_override P of
     Some p \<Rightarrow> p
   | None \<Rightarrow> (case po_topology P of None \<Rightarrow> NcclAll | Some t \<Rightarrow> nv_policy t))"

definition nccl_allows :: "Policy \<Rightarrow> string \<Rightarrow> bool" where
  "nccl_allows P operation =
    (if po_topology P = None \<and> po_override P = None then True
     else if po_nccl_mode P = ''never'' then False
     else allows (nccl_policy P) operation)"

text \<open>\<open>dict(nccl_above)\<close>: the last pair of a collective counts.\<close>

definition prefers_nccl :: "Policy \<Rightarrow> string \<Rightarrow> int \<Rightarrow> int \<Rightarrow> bool \<Rightarrow> bool" where
  "prefers_nccl P collective size_bytes single_op_limit capturing =
    (if capturing \<or> po_large P = ''sircl'' \<or> \<not> nccl_allows P collective then False
     else (case dget (rev (po_nccl_above P)) collective of
         None \<Rightarrow> size_bytes > single_op_limit
       | Some threshold \<Rightarrow> threshold > 0 \<and> size_bytes > threshold))"

definition internal :: "Policy \<Rightarrow> Policy" where
  "internal P = \<lparr>po_topology = po_topology P, po_nccl_mode = ''never'', po_large = ''sircl'', po_nccl_above = [],
    po_override = po_override P, po_reason = po_reason P, po_cabled = po_cabled P\<rparr>"

definition policy_cabled :: "Policy \<Rightarrow> int \<Rightarrow> int \<Rightarrow> bool" where
  "policy_cabled P rank peer = (case po_cabled P of
     Some f \<Rightarrow> f rank peer
   | None \<Rightarrow> (case po_topology P of None \<Rightarrow> False | Some t \<Rightarrow> nv_cabled t rank peer))"

record P2PLimits =
  pp_peers :: "int set"
  pp_relayed :: "int set"
  pp_problems :: "(int \<times> string) list"
  pp_reason :: string

definition p2p_problem :: "P2PLimits \<Rightarrow> int \<Rightarrow> string" where
  "p2p_problem p peer = (if pp_reason p \<noteq> [] then pp_reason p
    else case find (\<lambda>e. fst e = peer) (pp_problems p) of
      Some e \<Rightarrow> ''the point-to-point channel is unavailable: '' @ snd e
    | None \<Rightarrow> ''no point-to-point channel with this rank'')"

definition refuse :: "string \<Rightarrow> string \<Rightarrow> Plan" where
  "refuse collective why = \<lparr>pl_collective = collective, pl_backend = Refuse, pl_method = ''refuse'', pl_ops = 0,
    pl_piece = 0, pl_reason = why, pl_copy = False\<rparr>"

definition by_nccl :: "string \<Rightarrow> string \<Rightarrow> Plan" where
  "by_nccl collective why = \<lparr>pl_collective = collective, pl_backend = Nccl, pl_method = ''nccl'', pl_ops = 0,
    pl_piece = 0, pl_reason = why, pl_copy = False\<rparr>"

definition by_sircl :: "string \<Rightarrow> string \<Rightarrow> int \<Rightarrow> int \<Rightarrow> string \<Rightarrow> bool \<Rightarrow> Plan" where
  "by_sircl collective method ops piece why copy = \<lparr>pl_collective = collective, pl_backend = Sircl,
    pl_method = method, pl_ops = ops, pl_piece = piece, pl_reason = why, pl_copy = copy\<rparr>"

definition forbidden :: "Policy \<Rightarrow> string" where
  "forbidden P = (if po_nccl_mode P = ''never'' then ''SIRCL_NCCL=never''
    else ''NCCL may not run the operation on this group: '' @
      (if po_reason P \<noteq> [] then po_reason P else case po_topology P of Some t \<Rightarrow> nv_reason t | None \<Rightarrow> []))"

section \<open>All-gather\<close>

definition axis_of :: "int \<Rightarrow> int list \<Rightarrow> nat" where
  "axis_of axis shape = nat (axis mod int (length shape))"

definition shard_view :: "TensorMeta \<Rightarrow> int \<Rightarrow> int \<times> int \<times> int" where
  "shard_view t axis = (let d = axis_of axis (tm_shape t) in
    (prod_list (take d (tm_shape t)), prod_list (drop d (tm_shape t)), tm_itemsize t))"

definition split_gather :: "TensorMeta \<Rightarrow> int \<Rightarrow> SessionLimits \<Rightarrow> py_error + Plan" where
  "split_gather t axis l =
    (let name = ''all_gather''; copy = \<not> tm_contiguous t; op_bytes = gather_op_bytes l;
         prefix = (if tm_dtype t \<in> set BYTE_VIEW_DTYPES then ''bytes_'' else []);
         (outer, inner, item) = shard_view t axis; row_bytes = inner * item
     in case truthy (li_gather_piece l) of
          Some piece \<Rightarrow> bind_res (gather_plan outer row_bytes piece) (\<lambda>cells.
            Inr (by_sircl name (prefix @ ''large'') (int (length cells)) piece ''rows through all_gather_large'' copy))
        | None \<Rightarrow>
            if row_bytes \<le> op_bytes
            then (let rows = op_bytes div row_bytes in
              Inr (by_sircl name (prefix @ ''rows'') (cdiv outer rows) rows ''rows per op'' copy))
            else (let columns = max 1 (op_bytes div item) in
              Inr (by_sircl name (prefix @ ''tiles'') (outer * cdiv inner columns) columns ''tiles of a row'' copy)))"

definition plan_all_gather :: "TensorMeta \<Rightarrow> int \<Rightarrow> SessionLimits option \<Rightarrow> Policy \<Rightarrow> bool \<Rightarrow> py_error + Plan" where
  "plan_all_gather t axis limits P capturing =
    (let name = ''all_gather''; copy = \<not> tm_contiguous t in
     if tm_shape t = [] then Inr (refuse name ''a scalar has no dimension to gather along'')
     else if nbytes t = 0 then Inr (by_sircl name ''empty'' 0 0 ''empty shard'' False)
     else
       let closed = (\<lambda>why. if nccl_allows P name then Inr (by_nccl name why)
              else Inr (refuse name (why @ '' and '' @ forbidden P)))
       in (case limits of
         None \<Rightarrow> closed ''the group has no SIRCL session''
       | Some l \<Rightarrow>
           if li_gather l \<le> 0 then closed ''SIRCL all-gather is disabled (G=0)''
           else if prefers_nccl P name (nbytes t) (gather_op_bytes l) capturing
           then Inr (by_nccl name ''the shard is above the group's SIRCL gather threshold'')
           else if nbytes t \<le> gather_op_bytes l
           then Inr (by_sircl name ((if tm_dtype t \<in> set BYTE_VIEW_DTYPES then ''bytes_'' else []) @ ''direct'') 1 (nbytes t)
             ''within the gather op limit'' copy)
           else split_gather t axis l))"

section \<open>All-reduce\<close>

definition gather_sum :: "TensorMeta \<Rightarrow> SessionLimits \<Rightarrow> Policy \<Rightarrow> bool \<Rightarrow> py_error + Plan" where
  "gather_sum t l P capturing =
    (let flat = \<lparr>tm_shape = [numel t], tm_dtype = tm_dtype t, tm_itemsize = tm_itemsize t, tm_contiguous = True\<rparr> in
     bind_res (plan_all_gather flat 0 (Some l) (internal P) capturing) (\<lambda>g.
     if pl_backend g \<noteq> Sircl
     then Inr (refuse ''all_reduce'' (''the gather it is composed of is refused: '' @ pl_reason g))
     else Inr (by_sircl ''all_reduce'' ''gather_sum'' (pl_ops g) (pl_piece g) ''summed locally after an all-gather''
       (\<not> tm_contiguous t))))"

definition split_reduce :: "TensorMeta \<Rightarrow> SessionLimits \<Rightarrow> Plan" where
  "split_reduce t l =
    (let name = ''all_reduce''; copy = \<not> tm_contiguous t; padded = cdiv (nbytes t) PACK_BYTES * PACK_BYTES in
     case truthy (li_large_piece l) of
       Some piece \<Rightarrow> by_sircl name ''large'' (cdiv (nbytes t) piece) piece ''through all_reduce_large'' copy
     | None \<Rightarrow>
         let unit_bytes = max PACK_BYTES (tm_itemsize t);
             piece = li_dispatch l div unit_bytes * unit_bytes div PACK_BYTES * PACK_BYTES
         in if piece < PACK_BYTES then refuse name ''the dispatch ceiling holds no whole element''
            else by_sircl name ''chunked'' (cdiv padded piece) piece ''in ops of at most a piece'' copy)"

definition plan_all_reduce :: "TensorMeta \<Rightarrow> SessionLimits option \<Rightarrow> Policy \<Rightarrow> bool \<Rightarrow> py_error + Plan" where
  "plan_all_reduce t limits P capturing =
    (let name = ''all_reduce''; copy = \<not> tm_contiguous t; padded = cdiv (nbytes t) PACK_BYTES * PACK_BYTES in
     if nbytes t = 0 then Inr (by_sircl name ''empty'' 0 0 ''empty tensor'' False)
     else case limits of
       None \<Rightarrow> if nccl_allows P name then Inr (by_nccl name ''the group has no SIRCL session'')
         else Inr (refuse name (''the group has no SIRCL session and '' @ forbidden P))
     | Some l \<Rightarrow>
         if tm_dtype t \<notin> set (li_reduce_dtypes l) then
           (if nccl_allows P name \<and> po_large P \<noteq> ''sircl''
            then Inr (by_nccl name ''the dtype is not summed by the prepared session'')
            else if tm_dtype t \<notin> set EXACT_LOCAL_SUM_DTYPES
            then Inr (refuse name (''the dtype has no exact rank-ordered sum; '' @ forbidden P))
            else gather_sum t l P capturing)
         else if padded \<le> li_dispatch l \<and> \<not> prefers_nccl P name (nbytes t) (li_dispatch l) capturing
         then Inr (by_sircl name (if padded = nbytes t then ''direct'' else ''padded'') 1 padded
           ''within the dispatch ceiling'' copy)
         else if prefers_nccl P name (nbytes t) (li_dispatch l) capturing
         then Inr (by_nccl name ''the message exceeds the dispatch ceiling'')
         else if po_large P = ''nccl'' \<and> \<not> capturing
         then Inr (refuse name (''SIRCL_LARGE_ALLREDUCE=nccl but '' @ forbidden P))
         else Inr (split_reduce t l))"

section \<open>Reduce-scatter\<close>

definition slice_of_reduce :: "string \<Rightarrow> TensorMeta \<Rightarrow> SessionLimits \<Rightarrow> Policy \<Rightarrow> bool \<Rightarrow> py_error + Plan" where
  "slice_of_reduce name t l P capturing =
    bind_res (plan_all_reduce t (Some l) (internal P) capturing) (\<lambda>r.
    if pl_backend r \<noteq> Sircl
    then (if nccl_allows P name then Inr (by_nccl name (''SIRCL cannot reduce this tensor: '' @ pl_reason r))
          else Inr (refuse name (pl_reason r)))
    else Inr (by_sircl name ''allreduce_slice'' (pl_ops r) (pl_piece r) ''all-reduce then this rank's chunk of it'' (pl_copy r)))"

definition plan_reduce_scatter :: "TensorMeta \<Rightarrow> int \<Rightarrow> SessionLimits option \<Rightarrow> Policy \<Rightarrow> bool \<Rightarrow> py_error + Plan" where
  "plan_reduce_scatter t axis limits P capturing =
    (let name = ''reduce_scatter'' in
     if tm_shape t = [] then Inr (refuse name ''a scalar cannot be scattered'')
     else
       let extent = tm_shape t ! axis_of axis (tm_shape t);
           copy = (\<not> tm_contiguous t \<or> axis_of axis (tm_shape t) \<noteq> 0) in
       (case limits of
          None \<Rightarrow>
            if nbytes t = 0 then Inr (by_sircl name ''empty'' 0 0 ''empty tensor'' False)
            else if nccl_allows P name then Inr (by_nccl name ''the group has no SIRCL session'')
            else Inr (refuse name (''the group has no SIRCL session and '' @ forbidden P))
        | Some l \<Rightarrow>
            if li_world l = 0 then Inl (RuntimeErr ''ZeroDivisionError'' [])
            else if extent mod li_world l \<noteq> 0 then Inr (refuse name ''the dimension does not split into equal chunks'')
            else if nbytes t = 0 then Inr (by_sircl name ''empty'' 0 0 ''empty tensor'' False)
            else bind_res (scatter_op_bytes l) (\<lambda>op_bytes.
              if prefers_nccl P name (nbytes t) op_bytes capturing
              then Inr (by_nccl name ''above the group's SIRCL reduce-scatter threshold'')
              else
                let row_bytes = nbytes t div extent;
                    prepared = (tm_dtype t \<in> set (li_scatter_dtypes l) \<and> row_bytes mod PACK_BYTES = 0) in
                if prepared \<and> truthy (li_scatter_piece l) \<noteq> None
                then Inr (by_sircl name ''scatter'' 1 (nbytes t) ''session reduce-scatter of the whole message'' copy)
                else if prepared \<and> op_bytes \<noteq> 0
                then
                  (let per_op_chunk = op_bytes div li_world l; block = extent div li_world l * row_bytes;
                       ops = (if nbytes t \<le> op_bytes then 1 else cdiv block per_op_chunk)
                   in Inr (by_sircl name ''scatter'' ops (min block per_op_chunk) ''session reduce-scatter'' copy))
                else slice_of_reduce name t l P capturing)))"

section \<open>Uneven gathers and scatters\<close>

definition named :: "string \<Rightarrow> Plan \<Rightarrow> Plan" where
  "named collective p = p\<lparr>pl_collective := collective\<rparr>"

definition even_sizes :: "int list option \<Rightarrow> bool" where
  "even_sizes sizes = (case sizes of None \<Rightarrow> True | Some ns \<Rightarrow> length (remdups ns) = 1)"

definition plan_all_gatherv :: "TensorMeta \<Rightarrow> int list option \<Rightarrow> SessionLimits option \<Rightarrow> Policy \<Rightarrow> bool \<Rightarrow> py_error + Plan" where
  "plan_all_gatherv t sizes limits P capturing =
    (if even_sizes sizes then map_sum id (named ''all_gatherv'') (plan_all_gather t 0 limits P capturing)
     else let ns = the sizes in
       if ns = [] then Inl (ValueErr ''max() of an empty sequence'' [])
       else
         let padded = \<lparr>tm_shape = Max (set ns) # tl (tm_shape t), tm_dtype = tm_dtype t, tm_itemsize = tm_itemsize t,
               tm_contiguous = True\<rparr> in
         bind_res (plan_all_gather padded 0 limits P capturing) (\<lambda>inner.
         if pl_backend inner \<noteq> Sircl then Inr (named ''all_gatherv'' inner)
         else Inr (by_sircl ''all_gatherv'' (''padded_'' @ pl_method inner) (pl_ops inner) (pl_piece inner)
           ''uneven sizes padded to the longest'' True)))"

definition plan_reduce_scatterv ::
  "TensorMeta \<Rightarrow> int list option \<Rightarrow> SessionLimits option \<Rightarrow> Policy \<Rightarrow> bool \<Rightarrow> py_error + Plan" where
  "plan_reduce_scatterv t sizes limits P capturing =
    (if even_sizes sizes then map_sum id (named ''reduce_scatterv'') (plan_reduce_scatter t 0 limits P capturing)
     else if nccl_allows P ''reduce_scatter'' \<and> \<not> capturing \<and> po_large P \<noteq> ''sircl''
     then Inr (by_nccl ''reduce_scatterv'' ''uneven sizes on a group whose cabling carries NCCL's ring'')
     else bind_res (plan_all_reduce t limits (internal P) capturing) (\<lambda>r.
       if pl_backend r \<noteq> Sircl then Inr (refuse ''reduce_scatterv'' (pl_reason r))
       else Inr (by_sircl ''reduce_scatterv'' ''allreduce_slice'' (pl_ops r) (pl_piece r)
         ''uneven sizes: all-reduce then this rank's rows'' (pl_copy r))))"

section \<open>Broadcast, gather and all-to-all\<close>

definition flat_bytes :: "TensorMeta \<Rightarrow> TensorMeta" where
  "flat_bytes t = \<lparr>tm_shape = [nbytes t], tm_dtype = ''uint8'', tm_itemsize = 1, tm_contiguous = True\<rparr>"

definition gather_of_bytes ::
  "string \<Rightarrow> string \<Rightarrow> TensorMeta \<Rightarrow> SessionLimits option \<Rightarrow> Policy \<Rightarrow> bool \<Rightarrow> string \<Rightarrow> py_error + Plan" where
  "gather_of_bytes collective method t limits P capturing why =
    bind_res (plan_all_gather (flat_bytes t) 0 limits (internal P) capturing) (\<lambda>inner.
    if pl_backend inner \<noteq> Sircl then Inr (refuse collective (pl_reason inner))
    else Inr (by_sircl collective method (pl_ops inner) (pl_piece inner) why (\<not> tm_contiguous t)))"

definition plan_bytes_gather ::
  "string \<Rightarrow> TensorMeta \<Rightarrow> SessionLimits option \<Rightarrow> Policy \<Rightarrow> bool \<Rightarrow> string \<Rightarrow> py_error + Plan" where
  "plan_bytes_gather collective t limits P capturing nccl_operation =
    (if nbytes t = 0 then Inr (by_sircl collective ''empty'' 0 0 ''empty tensor'' False)
     else if nccl_allows P nccl_operation \<and> (limits = None \<or> (\<not> capturing \<and> po_large P \<noteq> ''sircl''))
     then Inr (by_nccl collective ''the group's cabling carries this NCCL collective'')
     else gather_of_bytes collective ''gather_bytes'' t limits P capturing
       ''all-gather of the bytes, then the source rank's copy'')"

definition plan_all_to_all :: "TensorMeta \<Rightarrow> SessionLimits option \<Rightarrow> Policy \<Rightarrow> bool \<Rightarrow> py_error + Plan" where
  "plan_all_to_all t limits P capturing =
    (let name = ''all_to_all''; copy = \<not> tm_contiguous t in
     if nbytes t = 0 then Inr (by_sircl name ''empty'' 0 0 ''empty tensor'' False)
     else case limits of
       None \<Rightarrow> if nccl_allows P name then Inr (by_nccl name ''the group has no SIRCL session'')
         else Inr (refuse name (''the group has no SIRCL session and '' @ forbidden P))
     | Some l \<Rightarrow>
         bind_res (scatter_op_bytes l) (\<lambda>op_bytes.
         let prepared = (nbytes t mod (li_world l * PACK_BYTES) = 0 \<and> li_all_to_all l) in
         if prefers_nccl P name (nbytes t) op_bytes capturing
         then Inr (by_nccl name ''above the group's SIRCL all-to-all threshold'')
         else if prepared \<and> truthy (li_scatter_piece l) \<noteq> None
         then Inr (by_sircl name ''scatter'' 1 (nbytes t) ''session all-to-all of the whole message'' copy)
         else if prepared \<and> op_bytes \<noteq> 0
         then Inr (by_sircl name ''scatter'' (max 1 (cdiv (nbytes t) op_bytes)) (min (nbytes t) op_bytes)
           ''session all-to-all'' copy)
         else if nccl_allows P name \<and> \<not> capturing
         then Inr (by_nccl name ''the group's cabling connects every pair of ranks'')
         else gather_of_bytes name ''gather_pick'' t limits P capturing
           ''all-gather of every rank's send buffer, then this rank's chunks''))"

section \<open>Point to point\<close>

definition plan_point_to_point ::
  "string \<Rightarrow> Policy \<Rightarrow> int \<Rightarrow> int \<Rightarrow> P2PLimits option \<Rightarrow> bool \<Rightarrow> int \<Rightarrow> Plan" where
  "plan_point_to_point collective P rank peer p2p capturing size_bytes =
    (case (case p2p of None \<Rightarrow> None | Some p \<Rightarrow> if peer \<in> pp_peers p then Some p else None) of
       Some p \<Rightarrow>
         if capturing then refuse collective ''the channels work outside CUDA graph capture only''
         else by_sircl collective (if peer \<in> pp_relayed p then ''relayed'' else ''direct'') 1 size_bytes
           ''the group's point-to-point channel'' False
     | None \<Rightarrow>
         let missing = (case p2p of None \<Rightarrow> ''the group has no point-to-point channels (SIRCL_P2P_GROUPS)''
               | Some p \<Rightarrow> p2p_problem p peer) in
         if po_nccl_mode P = ''never'' then refuse collective (missing @ '', and SIRCL_NCCL=never'')
         else if nccl_policy P = NcclNone then refuse collective (missing @ '', and '' @ forbidden P)
         else if nccl_policy P = NcclAll \<or> policy_cabled P rank peer
         then by_nccl collective (''the ranks share a cable and '' @ missing)
         else refuse collective (''the ranks share no cable, and '' @ missing))"

end
