(* ===== verification/TopologyFacts.thy ===== *)
theory TopologyFacts
  imports Topology
begin

text \<open>
  The adapter's lanes are the session's: the link-by-link search finds the shortest routes of \<open>routes.py\<close> and
  the port-0 rule picks the same ones, so \<open>lanes_toward\<close> and \<open>derive_lanes\<close> agree.  What NCCL is allowed on a
  group follows its cables.
\<close>

section \<open>Links are crossings\<close>

lemma links_cross:
  assumes F: "fabric_ok F"
  shows "s \<in> set (links (cables F) x) \<longleftrightarrow> cross F x (s_src_port s) = Some s"
proof
  assume "s \<in> set (links (cables F) x)"
  then obtain c where c: "c \<in> set (cables F)" "s \<in> set (cable_links x c)" by (auto simp: links_def)
  have ne: "ca c \<noteq> cb c" using F c(1) by (auto simp: fabric_ok_def list_all_iff)
  have e: "(x, s_src_port s) \<in> set (cable_ends c)" using c(2) by (auto simp: cable_links_def cable_ends_def split: if_splits)
  have "cable_at F x (s_src_port s) = Some c" using cable_at_Some [OF F c(1) e] .
  then show "cross F x (s_src_port s) = Some s"
    using c(2) ne by (auto simp: cross_def cable_links_def split: if_splits)
next
  assume s: "cross F x (s_src_port s) = Some s"
  then obtain c where c: "cable_at F x (s_src_port s) = Some c" by (auto simp: cross_def split: option.splits)
  note ci = cable_at_in [OF c]
  have "s \<in> set (cable_links x c)"
    using s c ci by (auto simp: cross_def cable_links_def cable_ends_def split: if_splits)
  then show "s \<in> set (links (cables F) x)" using ci by (auto simp: links_def)
qed

lemma links_ends: "map (\<lambda>s. (s_src s, s_src_port s)) (links cs x) = filter (\<lambda>e. fst e = x) (concat (map cable_ends cs))"
  by (induction cs) (auto simp: links_def cable_links_def cable_ends_def)

lemma links_distinct:
  assumes "fabric_ok F"
  shows "distinct (links (cables F) x)"
proof -
  have "distinct (map (\<lambda>s. (s_src s, s_src_port s)) (links (cables F) x))"
    using assms unfolding links_ends fabric_ok_def fabric_ends_def by (simp add: distinct_filter)
  then show ?thesis by (simp add: distinct_map)
qed

section \<open>The search\<close>

lemma link_relax_is:
  "cross F here (s_src_port s) = Some s \<Longrightarrow> link_relax here st s = relax F here st (s_src_port s)"
  by (cases st) (simp add: link_relax_def relax_def)

lemma link_relax_fold:
  "(\<And>s. s \<in> set ss \<Longrightarrow> cross F here (s_src_port s) = Some s)
    \<Longrightarrow> foldl (link_relax here) st ss = foldl (relax F here) st (map s_src_port ss)"
proof (induction ss arbitrary: st)
  case (Cons s ss)
  then have "link_relax here st s = relax F here st (s_src_port s)" by (intro link_relax_is) simp
  then show ?case using Cons by simp
qed simp

lemma looking_fold:
  "fabric_ok F \<Longrightarrow> looking F b here P st \<Longrightarrow> looking F b here (P \<union> set ps) (foldl (relax F here) st ps)"
proof (induction ps arbitrary: P st)
  case (Cons p ps)
  have "looking F b here (insert p P) (relax F here st p)"
    using relax_looking [of F b here P "fst st" "snd st" p] Cons.prems by simp
  then have "looking F b here (insert p P \<union> set ps) (foldl (relax F here) (relax F here st p) ps)"
    using Cons.IH Cons.prems(1) by blast
  then show ?case by simp
qed simp

lemma looking_all:
  assumes "looking F b here P st" "\<And>port s. port \<in> {0, 1} \<Longrightarrow> cross F here port = Some s \<Longrightarrow> port \<in> P"
  shows "looking F b here {0, 1} st"
proof -
  have "settled F D here P \<Longrightarrow> settled F D here {0, 1}" for D
    unfolding settled_def using assms(2) by blast
  then show ?thesis using assms(1) by (auto simp: looking_def)
qed

lemma looking_inv:
  assumes L: "looking F b here {0, 1} (D, Q)"
  shows "bfs_inv F b D Q"
proof -
  have "x \<notin> set Q \<Longrightarrow> dget D x \<noteq> None \<Longrightarrow> settled F D x {0, 1}" for x
    using L by (cases "x = here") (auto simp: looking_def)
  moreover have "Q \<noteq> [] \<Longrightarrow> dget D x = Some d \<Longrightarrow> d \<le> dget_or D (hd Q) 0 + 1" for x d
  proof -
    assume q: "Q \<noteq> []" and x: "dget D x = Some d"
    have "d \<le> dget_or D here 0 + 1" using L x by (simp add: looking_def)
    moreover have "dget_or D here 0 \<le> dget_or D (hd Q) 0" using L q by (simp add: looking_def)
    ultimately show ?thesis by linarith
  qed
  ultimately show ?thesis using L by (auto simp: bfs_inv_def looking_def)
qed

lemma link_step:
  assumes F: "fabric_ok F" and inv: "bfs_inv F b D (here # Q)"
    and st: "foldl (link_relax here) (D, Q) (links (cables F) here) = (D', Q')"
  shows "bfs_inv F b D' Q'"
proof (rule looking_inv, rule looking_all)
  let ?ps = "map s_src_port (links (cables F) here)"
  have "looking F b here {} (D, Q)" using inv by (auto simp: bfs_inv_def looking_def settled_def [of _ _ _ "{}"])
  then have "looking F b here ({} \<union> set ?ps) (foldl (relax F here) (D, Q) ?ps)" by (rule looking_fold [OF F])
  moreover have "foldl (relax F here) (D, Q) ?ps = (D', Q')"
    using st links_cross [OF F] by (subst link_relax_fold [symmetric]) auto
  ultimately show "looking F b here (set ?ps) (D', Q')" by simp
  fix port s
  assume s: "cross F here port = Some s"
  then have "s_src_port s = port" using fab.cross_leaves [OF F] by blast
  then show "port \<in> set ?ps" using s links_cross [OF F, of s here] by force
qed

lemma link_bfs_result:
  "fabric_ok F \<Longrightarrow> bfs_inv F b D Q \<Longrightarrow> bfs_inv F b (link_bfs (cables F) D Q) []"
proof (induction "cables F" D Q rule: link_bfs.induct)
  case (1 D)
  then show ?case by simp
next
  case (2 D here Q)
  obtain D' Q' where st: "foldl (link_relax here) (D, Q) (links (cables F) here) = (D', Q')" by (metis prod.exhaust)
  have "bfs_inv F b D' Q'" using link_step [OF 2(2,3) st] .
  then have "bfs_inv F b (link_bfs (cables F) D' Q') []" using 2(1) [OF refl] 2(2) st by simp
  then show ?case using st by simp
qed

lemma link_bfs_exact: "fabric_ok F \<Longrightarrow> exact F b (link_bfs (cables F) [(b, 0)] [b])"
  using bfs_inv_exact link_bfs_result bfs_inv_start by blast

section \<open>The descents\<close>

lemma link_descend_Suc:
  assumes "here \<noteq> b" "dget D here = Some (Suc d)"
  shows "link_descend cs D b here steps = concat (map (\<lambda>s. link_descend cs D b (s_dst s) (steps @ [s]))
    (filter (\<lambda>s. dget D (s_dst s) = Some d) (links cs here)))"
proof -
  have c: "(dget D y \<noteq> None \<and> Some (Suc d) = map_option Suc (dget D y)) = (dget D y = Some d)" for y
    by (cases "dget D y") auto
  have f: "concat (map (\<lambda>s. if P s then f s else []) ss) = concat (map f (filter P ss))" for P :: "Step \<Rightarrow> bool" and f :: "Step \<Rightarrow> Step list list" and ss
    by (induction ss) auto
  show ?thesis by (subst link_descend.simps) (simp only: assms c f if_False)
qed

lemma link_descend_routes:
  assumes F: "fabric_ok F" and ex: "exact F b D"
  shows "dget D here = Some d \<Longrightarrow> distinct (link_descend (cables F) D b here steps) \<and>
    set (link_descend (cables F) D b here steps) = {steps @ p | p. route (cross F) here p b \<and> length p = d}"
proof (induction d arbitrary: here steps)
  case 0
  then have "here = b" using exact_zero [OF ex] by simp
  then have "link_descend (cables F) D b here steps = [steps]" by (subst link_descend.simps) simp
  with \<open>here = b\<close> show ?case by auto
next
  case (Suc d)
  have ne: "here \<noteq> b" using Suc ex by (auto simp: exact_def sound_def)
  let ?next = "filter (\<lambda>s. dget D (s_dst s) = Some d) (links (cables F) here)"
  let ?on = "\<lambda>s. link_descend (cables F) D b (s_dst s) (steps @ [s])"
  have step: "distinct (?on s)" "set (?on s) = {(steps @ [s]) @ p | p. route (cross F) (s_dst s) p b \<and> length p = d}"
    if "s \<in> set ?next" for s
    using Suc.IH [of "s_dst s" "steps @ [s]"] that by simp_all
  have mem: "s \<in> set ?next \<longleftrightarrow> cross F here (s_src_port s) = Some s \<and> dget D (s_dst s) = Some d" for s
    using links_cross [OF F, of s here] by auto
  have "distinct (concat (map ?on ?next))"
  proof (rule distinct_concat)
    have nonempty: "?on s \<noteq> []" if "s \<in> set ?next" for s
      using exact_route [OF ex, of "s_dst s" d] step(2) [OF that] that by (auto simp: set_empty [symmetric] simp del: set_empty)
    have first: "x ! length steps = s" if "s \<in> set ?next" "x \<in> set (?on s)" for s x
      using step(2) [OF that(1)] that(2) by (auto simp: nth_append)
    have "inj_on ?on (set ?next)"
    proof (rule inj_onI)
      fix s t assume s: "s \<in> set ?next" and t: "t \<in> set ?next" and same: "?on s = ?on t"
      obtain x where "x \<in> set (?on s)" using nonempty [OF s] by (cases "?on s") auto
      then show "s = t" using first [OF s] first [OF t] same by metis
    qed
    then show "distinct (map ?on ?next)" using links_distinct [OF F] by (simp add: distinct_map)
    show "distinct ys" if "ys \<in> set (map ?on ?next)" for ys using that step(1) by auto
    show "set ys \<inter> set zs = {}" if yz: "ys \<in> set (map ?on ?next)" "zs \<in> set (map ?on ?next)" "ys \<noteq> zs" for ys zs
    proof -
      obtain s t where "s \<in> set ?next" "ys = ?on s" "t \<in> set ?next" "zs = ?on t" using yz by auto
      then show ?thesis using first yz(3) by (metis disjoint_iff)
    qed
  qed
  moreover have "set (concat (map ?on ?next)) = {steps @ p | p. route (cross F) here p b \<and> length p = Suc d}"
  proof (intro equalityI subsetI)
    fix x assume "x \<in> set (concat (map ?on ?next))"
    then obtain s where s: "s \<in> set ?next" "x \<in> set (?on s)" by auto
    obtain p where p: "x = (steps @ [s]) @ p" "route (cross F) (s_dst s) p b" "length p = d"
      using step(2) [OF s(1)] s(2) by blast
    have c: "cross F here (s_src_port s) = Some s" using s(1) mem by blast
    have "route (cross F) here (s # p) b" using c p(2) cross_node [OF c] by simp
    then show "x \<in> {steps @ p | p. route (cross F) here p b \<and> length p = Suc d}"
      using p by (intro CollectI exI [of _ "s # p"]) auto
  next
    fix x assume "x \<in> {steps @ p | p. route (cross F) here p b \<and> length p = Suc d}"
    then obtain p where p: "x = steps @ p" "route (cross F) here p b" "length p = Suc d" by blast
    then obtain s q where sq: "p = s # q" by (cases p) auto
    then have c: "cross F here (s_src_port s) = Some s" "route (cross F) (s_dst s) q b" "length q = d" using p by auto
    have "dget D (s_dst s) = Some d" using exact_descent [OF F ex, of here s q] p sq Suc.prems c by simp
    then have s: "s \<in> set ?next" using c mem by blast
    have "x \<in> set (?on s)" using step(2) [OF s] p sq c by auto
    then show "x \<in> set (concat (map ?on ?next))" using s by auto
  qed
  ultimately show ?case using link_descend_Suc [OF ne Suc.prems] by simp
qed

lemma link_paths_shortest:
  assumes F: "fabric_ok F"
  shows "distinct (link_paths (cables F) a b) \<and> set (link_paths (cables F) a b) = {p. shortest (cross F) a p b}"
proof -
  let ?D = "link_bfs (cables F) [(b, 0)] [b]"
  have ex: "exact F b ?D" by (rule link_bfs_exact [OF F])
  show ?thesis
  proof (cases "dget ?D a")
    case None
    have "{p. shortest (cross F) a p b} = {}" using exact_None [OF ex None] by (auto simp: shortest_def)
    moreover have "link_paths (cables F) a b = []" using None by (simp add: link_paths_def)
    ultimately show ?thesis by simp
  next
    case (Some d)
    have e: "link_paths (cables F) a b = link_descend (cables F) ?D b a []" using Some by (simp add: link_paths_def)
    show ?thesis unfolding e
      using link_descend_routes [OF F ex Some, of "[]"] exact_shortest [OF ex Some] by (simp only: append_Nil) blast
  qed
qed

section \<open>The port-0 rule\<close>

lemma takes_path_a_is: "a \<noteq> b \<Longrightarrow> takes_path_a a b p = leaves_smaller_through_port0 a b p"
  by (auto simp: takes_path_a_def leaves_smaller_through_port0_def)

lemma chosen_paths_ok:
  assumes F: "fabric_ok F" and ab: "a \<noteq> b" and ne: "link_paths (cables F) a b \<noteq> []"
  shows "\<exists>p q. chosen_paths a b (link_paths (cables F) a b) = Inr [(p, False), (q, True)]
    \<and> lane_path F a b 0 p \<and> lane_path F a b 1 q"
proof -
  let ?paths = "link_paths (cables F) a b"
  have S: "\<And>p. p \<in> set ?paths \<longleftrightarrow> shortest (cross F) a p b" and d: "distinct ?paths"
    using link_paths_shortest [OF F] by auto
  have "length ?paths = card ((\<lambda>p. s_src_port (hd p)) ` set ?paths)"
    using d shortest_by_port [OF F] S ab by (subst card_image) (auto simp: inj_on_def distinct_card)
  also have "\<dots> \<le> card {0, 1 :: int}" using hd_port [OF F] S ab by (intro card_mono) auto
  finally have "length ?paths \<le> 2" by simp
  then consider p where "?paths = [p]" | p q where "?paths = [p, q]" "p \<noteq> q"
    using ne d by (cases ?paths; cases "tl ?paths") auto
  then show ?thesis
  proof cases
    case 1
    then have "\<And>q. shortest (cross F) a q b \<longleftrightarrow> q = p" using S by auto
    then show ?thesis using 1 by (auto simp: chosen_paths_def lane_path_def)
  next
    case 2
    have both: "shortest (cross F) a p b" "shortest (cross F) a q b" using S 2 by auto
    have df: "leaves_smaller_through_port0 a b p \<noteq> leaves_smaller_through_port0 a b q"
      using leaves_differ [OF F both ab] 2 by simp
    then show ?thesis using 2 both by (auto simp: chosen_paths_def lane_path_def takes_path_a_is [OF ab])
  qed
qed

text \<open>A lane of the adapter and a lane of \<open>routes.py\<close> that are the same lane.\<close>

definition same_lane :: "Role list \<Rightarrow> TopoLane \<Rightarrow> LaneRoute \<Rightarrow> bool" where
  "same_lane R l r \<longleftrightarrow> tl_index l = r_lane r \<and> tl_port l = role_port (r_local r) \<and> tl_remote_port l = role_port (r_remote r)
    \<and> tl_secondary l = role_secondary (r_local r) \<and> tl_positions l = s_src (hd (r_steps r)) # map s_dst (r_steps r)
    \<and> tl_cables l = map (\<lambda>s. cable_text (s_cable s)) (r_steps r) \<and> topo_hops l = lane_hops r
    \<and> topo_relays l = lane_relays r \<and> topo_device R l = Inr (role_device (r_local r))"

lemma find_rev_role:
  assumes "roles_ok R"
  shows "find (\<lambda>r. role_port r = port \<and> role_secondary r = sec) (rev R) = find (\<lambda>r. role_port r = port \<and> role_secondary r = sec) R"
  using roles_ok_list [OF assms] by auto

lemma canonical_device_is:
  assumes "roles_ok R" "role_at R port sec = Inr r"
  shows "canonical_device R port sec = Inr (role_device r) \<and> role_port r = port \<and> role_secondary r = sec"
proof -
  have f: "find (\<lambda>r. role_port r = port \<and> role_secondary r = sec) R = Some r"
    using assms(2) by (auto simp: role_at_def split: option.splits)
  then have "role_port r = port \<and> role_secondary r = sec" by (auto simp: find_Some_iff)
  then show ?thesis using f find_rev_role [OF assms(1), of port sec] by (simp add: canonical_device_def)
qed

lemma topo_lane_same:
  assumes R: "roles_ok R" and r: "lane_of R F a b i r" and p: "r_steps r = p" "p \<noteq> []" and i: "i = 0 \<or> i = 1"
  shows "same_lane R (topo_lane peer (i, p, i = 1)) r"
proof -
  have here: "role_at R (s_src_port (hd p)) (i = 1) = Inr (r_local r)" and there: "role_at R (s_dst_port (last p)) (i = 1) = Inr (r_remote r)"
    and "r_lane r = i" using r p by (auto simp: lane_of_def)
  moreover have "butlast (map s_dst p) = map s_dst (butlast p)" by (simp add: map_butlast)
  ultimately show ?thesis
    using canonical_device_is [OF R here] canonical_device_is [OF R there] p
    by (simp add: same_lane_def topo_lane_def topo_hops_def lane_hops_def topo_relays_def lane_relays_def topo_device_def)
qed

lemma lanes_toward_parts:
  assumes F: "fabric_ok F" and G: "gf_cables G = cables F" and "py_index members rank = Inr a" "py_index members peer = Inr b"
    and ab: "a \<noteq> b" and n: "lane_count = 1 \<or> lane_count = 2" and ne: "link_paths (cables F) a b \<noteq> []"
  shows "\<exists>p q. lanes_toward G members rank peer lane_count
      = Inr (map (topo_lane peer) (zip (py_range lane_count) [(p, False), (q, True)]))
    \<and> lane_path F a b 0 p \<and> lane_path F a b 1 q \<and> p \<noteq> [] \<and> q \<noteq> []"
proof -
  obtain p q where pq: "chosen_paths a b (link_paths (cables F) a b) = Inr [(p, False), (q, True)]"
    "lane_path F a b 0 p" "lane_path F a b 1 q" using chosen_paths_ok [OF F ab ne] by blast
  have "p \<noteq> []" "q \<noteq> []" using pq(2,3) ab by (auto simp: lane_path_def shortest_def)
  then show ?thesis using pq assms(3,4) n by (auto simp: lanes_toward_def G)
qed

section \<open>Properties\<close>

text \<open>
  C5: the adapter and the session derive the same lanes: over a well-formed fabric, \<open>lanes_toward\<close> succeeds just
  when \<open>derive_lanes\<close> does, and lane by lane they leave through the same port and device, arrive on the same port,
  have the same class and follow the same Sparks and cables.
\<close>

theorem lanes_agree:
  assumes F: "fabric_ok F" and R: "roles_ok R" and G: "gf_cables G = cables F"
    and pos: "py_index members rank = Inr a" "py_index members peer = Inr b" "a \<noteq> b"
  shows "is_ok (lanes_toward G members rank peer n) = is_ok (derive_lanes R F a b n)
    \<and> (\<forall>ls rs. lanes_toward G members rank peer n = Inr ls \<and> derive_lanes R F a b n = Inr rs
        \<longrightarrow> list_all2 (same_lane R) ls rs)"
proof (cases "(n = 1 \<or> n = 2) \<and> link_paths (cables F) a b \<noteq> []")
  case False
  have "\<not> is_ok (lanes_toward G members rank peer n)"
    using False pos by (auto simp: lanes_toward_def G chosen_paths_def is_ok_iff)
  moreover have "\<not> is_ok (derive_lanes R F a b n)"
  proof
    assume "is_ok (derive_lanes R F a b n)"
    then obtain rs where d: "derive_lanes R F a b n = Inr rs" by (auto simp: is_ok_iff)
    then have n: "n = 1 \<or> n = 2" by (auto simp: derive_lanes_def split: if_splits)
    have "lane_of R F a b 0 (rs ! 0)" using derive_lanes_Inr [OF F d] n by (metis nat_0 order_refl zero_less_one zero_less_numeral)
    then have "shortest (cross F) a (r_steps (rs ! 0)) b" by (simp add: lane_of_def lane_path_def)
    then show False using False n link_paths_shortest [OF F, of a b] by (metis (mono_tags) empty_iff list.set(1) mem_Collect_eq)
  qed
  ultimately show ?thesis by (auto simp: is_ok_iff)
next
  case True
  then have n: "n = 1 \<or> n = 2" and ne: "link_paths (cables F) a b \<noteq> []" by auto
  obtain p q where l: "lanes_toward G members rank peer n = Inr (map (topo_lane peer) (zip (py_range n) [(p, False), (q, True)]))"
    and pq: "lane_path F a b 0 p" "lane_path F a b 1 q" "p \<noteq> []" "q \<noteq> []"
    using lanes_toward_parts [OF F G pos n ne] by blast
  have "route (cross F) a p b" using pq(1) by (simp add: lane_path_def shortest_def)
  then obtain rs where d: "derive_lanes R F a b n = Inr rs" using derive_lanes_total [OF F R pos(3) n] by blast
  have len: "length rs = nat n" and of: "\<And>i. 0 \<le> i \<Longrightarrow> i < n \<Longrightarrow> lane_of R F a b i (rs ! nat i)"
    using derive_lanes_Inr [OF F d] by auto
  have at0: "same_lane R (topo_lane peer (0, p, False)) (rs ! 0)"
  proof -
    have o0: "lane_of R F a b 0 (rs ! 0)" using of [of 0] n by auto
    then have "r_steps (rs ! 0) = p" using lane_path_unique [OF F pos(3)] pq(1) by (auto simp: lane_of_def)
    from topo_lane_same [OF R o0 this pq(3)] show ?thesis by simp
  qed
  have at1: "same_lane R (topo_lane peer (1, q, True)) (rs ! 1)" if "n = 2"
  proof -
    have o1: "lane_of R F a b 1 (rs ! 1)" using of [of 1] that by simp
    then have "r_steps (rs ! 1) = q" using lane_path_unique [OF F pos(3)] pq(2) by (auto simp: lane_of_def)
    from topo_lane_same [OF R o1 this pq(4)] show ?thesis by simp
  qed
  have "list_all2 (same_lane R) (map (topo_lane peer) (zip (py_range n) [(p, False), (q, True)])) rs"
  proof (cases "n = 1")
    case True
    then obtain r where "rs = [r]" using len by (auto simp: length_Suc_conv)
    then show ?thesis using at0 True by (simp add: py_range_map)
  next
    case False
    then have two: "n = 2" using n by simp
    then obtain r s where "rs = [r, s]" using len by (auto simp: length_Suc_conv numeral_2_eq_2)
    then show ?thesis using at0 at1 [OF two] two by (simp add: py_range_map numeral_2_eq_2)
  qed
  then show ?thesis using l d by simp
qed

section \<open>NCCL and cables\<close>

lemma adjacent_sym: "adjacent G a b = adjacent G b a"
  by (simp add: adjacent_def insert_commute)

lemma all_adjacent_iff: "all_adjacent G ms \<longleftrightarrow> (\<forall>i j. i < j \<longrightarrow> j < length ms \<longrightarrow> adjacent G (ms ! i) (ms ! j))"
proof (induction ms)
  case (Cons m ms)
  have "(\<forall>i j. i < j \<longrightarrow> j < length (m # ms) \<longrightarrow> adjacent G ((m # ms) ! i) ((m # ms) ! j))
    \<longleftrightarrow> (\<forall>j < length ms. adjacent G m (ms ! j)) \<and> (\<forall>i j. i < j \<longrightarrow> j < length ms \<longrightarrow> adjacent G (ms ! i) (ms ! j))"
    (is "?l \<longleftrightarrow> ?r")
  proof
    assume l: ?l
    show ?r
    proof (intro conjI allI impI)
      fix j assume "j < length ms"
      then show "adjacent G m (ms ! j)" using l [rule_format, of 0 "Suc j"] by simp
    next
      fix i j assume "i < j" "j < length ms"
      then show "adjacent G (ms ! i) (ms ! j)" using l [rule_format, of "Suc i" "Suc j"] by simp
    qed
  next
    assume r: ?r
    show ?l
    proof (intro allI impI)
      fix i j assume "i < j" "j < length (m # ms)"
      then show "adjacent G ((m # ms) ! i) ((m # ms) ! j)" using r by (cases i; cases j) auto
    qed
  qed
  then show ?case using Cons by (simp add: list_all_length)
qed simp

lemma missing_pairs_none:
  assumes "2 \<le> length ms"
  shows "missing_pairs G ms = [] \<longleftrightarrow> (\<forall>i < length ms. adjacent G (ms ! i) (ms ! ((i + 1) mod length ms)))"
proof (cases "length ms = 2")
  case True
  then show ?thesis using adjacent_sym by (auto simp: missing_pairs_def ring_pairs_def less_Suc_eq numeral_2_eq_2)
next
  case False
  then show ?thesis using assms by (auto simp: missing_pairs_def ring_pairs_def filter_empty_conv)
qed

text \<open>Every lane of a described group.\<close>

lemma every_lane_in:
  assumes "every_lane T = Inr ls" "a \<noteq> b" "0 \<le> a" "a < topo_world T" "0 \<le> b" "b < topo_world T"
  shows "\<exists>xs. topo_lanes T a b = Inr xs \<and> set xs \<subseteq> set ls"
proof -
  obtain xss where x: "map_res (\<lambda>(a, b). topo_lanes T a b) (topo_pairs T) = Inr xss" "ls = concat xss"
    using assms(1) by (auto simp: every_lane_def bind_res_Inr)
  have "(a, b) \<in> set (topo_pairs T)" using assms by (auto simp: topo_pairs_def)
  from map_res_each [OF x(1) this] obtain xs where "xs \<in> set xss" "topo_lanes T a b = Inr xs" by auto
  then show ?thesis using x(2) by auto
qed

lemma lanes_toward_some: "lanes_toward G members rank peer n = Inr ls \<Longrightarrow> ls \<noteq> []"
  by (auto simp: lanes_toward_def bind_res_Inr chosen_paths_def py_range_map Let_def split: if_splits)

lemma topo_nccl_total:
  assumes "\<And>a b. a \<noteq> b \<Longrightarrow> 0 \<le> a \<Longrightarrow> a < topo_world T \<Longrightarrow> 0 \<le> b \<Longrightarrow> b < topo_world T \<Longrightarrow> \<exists>ls. topo_lanes T a b = Inr ls"
  shows "is_ok (topo_nccl T)"
proof -
  have "\<exists>y. (\<lambda>(a, b). bind_res (hops_between T (int a) (int b)) (\<lambda>h. Inr (a, b, Some (h - 1)))) e = Inr y"
    if e: "e \<in> set (uncabled_pairs T)" for e
  proof -
    obtain i j where ij: "e = (i, j)" by (cases e)
    let ?n = "length (gt_members T)"
    have n: "2 \<le> ?n" and i: "i < ?n" and j: "j = (i + 1) mod ?n"
      using e ij by (auto simp: uncabled_pairs_def missing_pairs_def ring_pairs_def split: if_splits)
    have "0 < ?n" using n by linarith
    then have "j < ?n" using j by simp
    moreover have "i \<noteq> j"
      using n i j by (cases "i + 1 = ?n") auto
    ultimately obtain ls where l: "topo_lanes T (int i) (int j) = Inr ls"
      using assms [of "int i" "int j"] i by (auto simp: topo_world_def)
    then have "ls \<noteq> []" using lanes_toward_some by (auto simp: topo_lanes_def)
    then show ?thesis using l ij by (simp add: hops_between_def)
  qed
  then have "\<exists>ys. map_res (\<lambda>(a, b). bind_res (hops_between T (int a) (int b)) (\<lambda>h. Inr (a, b, Some (h - 1)))) (uncabled_pairs T) = Inr ys"
    by (rule map_res_defined)
  then show ?thesis by (auto simp: topo_nccl_def Let_def is_ok_iff)
qed

text \<open>
  C18: what NCCL may do on a group follows its cables: every operation exactly when every two ranks share a cable, and
  no operation at all exactly when some consecutive ranks, the last and the first among them, share none.
\<close>

theorem nccl_policy_follows_cables:
  assumes "topo_nccl T = Inr (policy, reason)" "2 \<le> length (gt_members T)"
  shows "(policy = NcclAll \<longleftrightarrow> (\<forall>i < length (gt_members T). \<forall>j < length (gt_members T). i \<noteq> j
        \<longrightarrow> adjacent (gt_fabric T) (gt_members T ! i) (gt_members T ! j)))
    \<and> (policy = NcclNone \<longleftrightarrow> (\<exists>i < length (gt_members T).
        \<not> adjacent (gt_fabric T) (gt_members T ! i) (gt_members T ! ((i + 1) mod length (gt_members T)))))"
proof -
  let ?n = "length (gt_members T)" and ?adj = "\<lambda>i j. adjacent (gt_fabric T) (gt_members T ! i) (gt_members T ! j)"
  have every: "all_adjacent (gt_fabric T) (gt_members T) \<longleftrightarrow> (\<forall>i < ?n. \<forall>j < ?n. i \<noteq> j \<longrightarrow> ?adj i j)"
  proof
    assume a: "all_adjacent (gt_fabric T) (gt_members T)"
    show "\<forall>i < ?n. \<forall>j < ?n. i \<noteq> j \<longrightarrow> ?adj i j"
    proof (intro allI impI)
      fix i j assume ij: "i < ?n" "j < ?n" "i \<noteq> j"
      then consider "i < j" | "j < i" by linarith
      then show "?adj i j" using a ij adjacent_sym unfolding all_adjacent_iff by cases blast+
    qed
  next
    assume "\<forall>i < ?n. \<forall>j < ?n. i \<noteq> j \<longrightarrow> ?adj i j"
    then show "all_adjacent (gt_fabric T) (gt_members T)" unfolding all_adjacent_iff
      by (metis less_imp_neq order.strict_trans)
  qed
  have next_ne: "i \<noteq> (i + 1) mod ?n" "(i + 1) mod ?n < ?n" if "i < ?n" for i
    using that assms(2) by (cases "i + 1 = ?n"; auto)+
  have ring: "missing_pairs (gt_fabric T) (gt_members T) = [] \<longleftrightarrow> (\<forall>i < ?n. ?adj i ((i + 1) mod ?n))"
    by (rule missing_pairs_none [OF assms(2)])
  show ?thesis
  proof (cases "all_adjacent (gt_fabric T) (gt_members T)")
    case True
    then have "policy = NcclAll" using assms by (simp add: topo_nccl_def)
    then show ?thesis using True every next_ne by (metis NcclPolicy.distinct(3))
  next
    case False
    then have "policy \<noteq> NcclAll \<and> (policy = NcclNone \<longleftrightarrow> missing_pairs (gt_fabric T) (gt_members T) \<noteq> [])"
      using assms by (auto simp: topo_nccl_def uncabled_pairs_def Let_def bind_res_Inr split: if_splits)
    then show ?thesis using False every ring by blast
  qed
qed

text \<open>
  A described group is routed: every rank has lanes to every other, none through more relays than the limit, and
  its NCCL policy is decided without an error.
\<close>

theorem described_group_routed:
  assumes "describe_group L members parent n limit scope = Inr T"
  shows "gt_members T = members \<and> distinct members \<and> is_ok (topo_nccl T)
    \<and> (\<forall>a b. a \<noteq> b \<and> 0 \<le> a \<and> a < int (length members) \<and> 0 \<le> b \<and> b < int (length members)
        \<longrightarrow> (\<exists>ls. topo_lanes T a b = Inr ls \<and> ls \<noteq> [] \<and> (\<forall>l\<in>set ls. topo_hops l - 1 \<le> limit)))"
proof -
  have m: "gt_members T = members" and d: "distinct members"
    using assms by (auto simp: describe_group_def bind_res_Inr Let_def check_positions_def split: if_splits)
  have lanes: "\<exists>ls. topo_lanes T a b = Inr ls \<and> ls \<noteq> [] \<and> (\<forall>l\<in>set ls. topo_hops l - 1 \<le> limit)"
    if ab: "a \<noteq> b" "0 \<le> a" "a < int (length members)" "0 \<le> b" "b < int (length members)" for a b
  proof -
    have "length members > 1" using ab by linarith
    then obtain relays where r: "topo_max_relays T = Inr relays" "relays \<le> limit"
      using assms by (auto simp: describe_group_def bind_res_Inr Let_def split: if_splits)
    then obtain ls where ls: "every_lane T = Inr ls" "relays = (if ls = [] then 0 else Max (set (map (\<lambda>l. topo_hops l - 1) ls)))"
      by (auto simp: topo_max_relays_def bind_res_Inr)
    obtain xs where xs: "topo_lanes T a b = Inr xs" "set xs \<subseteq> set ls"
      using every_lane_in [OF ls(1) ab(1,2) _ ab(4)] ab m by (auto simp: topo_world_def)
    have "xs \<noteq> []" using xs(1) lanes_toward_some by (auto simp: topo_lanes_def)
    moreover have "topo_hops l - 1 \<le> limit" if l: "l \<in> set xs" for l
    proof -
      have "topo_hops l - 1 \<in> set (map (\<lambda>l. topo_hops l - 1) ls)" using l xs(2) by auto
      then have "topo_hops l - 1 \<le> Max (set (map (\<lambda>l. topo_hops l - 1) ls))" by (intro Max_ge) simp_all
      then show ?thesis using ls(2) r(2) l xs(2) by (auto split: if_splits)
    qed
    ultimately show ?thesis using xs(1) by blast
  qed
  have "is_ok (topo_nccl T)"
  proof (rule topo_nccl_total)
    fix a b
    assume "a \<noteq> b" "0 \<le> a" "a < topo_world T" "0 \<le> b" "b < topo_world T"
    then show "\<exists>ls. topo_lanes T a b = Inr ls" using lanes [of a b] m by (auto simp: topo_world_def)
  qed
  then show ?thesis using m d lanes by blast
qed

section \<open>Four Sparks of a ring of eight\<close>

definition four_of_eight :: "py_error + GroupTopology" where
  "four_of_eight = bind_res (PhysLayout_ring 8) (\<lambda>L. describe_group L [0, 1, 2, 3] None 2 3 ''group'')"

lemma four_described: "is_ok four_of_eight"
  by code_simp

definition ring4_group :: GroupFabric where
  "ring4_group = \<lparr>gf_kind = CycleShape, gf_order = [0, 1, 2, 3], gf_cables = cables (l_fabric ring4)\<rparr>"

lemma ring4_lanes: "is_ok (lanes_toward ring4_group [0, 1, 2, 3] 0 2 2)"
  by code_simp

theorem lanes_agree_witness:
  "\<exists>ls rs. lanes_toward ring4_group [0, 1, 2, 3] 0 2 2 = Inr ls \<and> derive_lanes DEFAULT_ROLES (l_fabric ring4) 0 2 2 = Inr rs
    \<and> list_all2 (same_lane DEFAULT_ROLES) ls rs"
proof -
  have F: "fabric_ok (l_fabric ring4)" using ring4_ok by (simp add: layout_ok_def)
  have G: "gf_cables ring4_group = cables (l_fabric ring4)" by (simp add: ring4_group_def)
  have p: "py_index [0, 1, 2, 3] 0 = Inr (0 :: int)" "py_index [0, 1, 2, 3] 2 = Inr (2 :: int)" "(0 :: int) \<noteq> 2" by simp_all
  from lanes_agree [OF F roles_ok_default G p, of 2] ring4_lanes show ?thesis by (auto simp: is_ok_iff)
qed

theorem described_group_routed_witness:
  "\<exists>T ls. four_of_eight = Inr T \<and> topo_lanes T 0 3 = Inr ls \<and> ls \<noteq> [] \<and> (\<forall>l\<in>set ls. topo_hops l \<le> 4)"
proof -
  obtain T L where T: "four_of_eight = Inr T" "describe_group L [0, 1, 2, 3] None 2 3 ''group'' = Inr T"
    using four_described by (auto simp: is_ok_iff four_of_eight_def bind_res_Inr)
  from described_group_routed [OF T(2), THEN conjunct2, THEN conjunct2, THEN conjunct2, THEN spec [of _ 0], THEN spec [of _ 3]]
  obtain ls where "topo_lanes T 0 3 = Inr ls" "ls \<noteq> []" "\<forall>l\<in>set ls. topo_hops l - 1 \<le> 3" by auto
  then show ?thesis using T(1) by (intro exI [of _ T] exI [of _ ls]) (auto simp: algebra_simps)
qed

definition four_policy :: "py_error + NcclPolicy \<times> nccl_reason" where
  "four_policy = bind_res four_of_eight topo_nccl"

lemma four_policy_none: "four_policy = Inr (NcclNone, NoCable [(3, 0, Some 2)])"
  by code_simp

theorem nccl_policy_follows_cables_witness:
  "\<exists>T. four_of_eight = Inr T \<and> length (gt_members T) = 4
    \<and> (\<exists>i < length (gt_members T). \<not> adjacent (gt_fabric T) (gt_members T ! i) (gt_members T ! ((i + 1) mod length (gt_members T))))"
proof -
  obtain T where T: "four_of_eight = Inr T" "topo_nccl T = Inr (NcclNone, NoCable [(3, 0, Some 2)])"
    using four_policy_none unfolding four_policy_def bind_res_Inr by blast
  obtain L where "describe_group L [0, 1, 2, 3] None 2 3 ''group'' = Inr T"
    using T(1) by (auto simp: four_of_eight_def bind_res_Inr)
  then have m: "gt_members T = [0, 1, 2, 3]"
    by (auto simp: describe_group_def bind_res_Inr Let_def split: if_splits)
  then have "2 \<le> length (gt_members T)" by simp
  from nccl_policy_follows_cables [OF T(2) this, THEN conjunct2, THEN iffD1, OF refl] m T(1) show ?thesis
    by (intro exI [of _ T] conjI) simp_all
qed

end
