(* ===== verification/PlannerFacts.thy ===== *)
theory PlannerFacts
  imports Planner PiecesFacts TopologyFacts
begin

text \<open>
  The choice of transport is safe and its splits fit: NCCL runs a collective only where the policy allows it, a
  captured call of a session that can carry it never goes to NCCL, every op of a split is within the session's
  limits and the ops cover the message, and the plans of well-formed calls never raise.
\<close>

section \<open>Outcomes\<close>

lemma outcome_simps [simp]:
  "pl_backend (refuse c w) = Refuse" "pl_backend (by_nccl c w) = Nccl" "pl_backend (by_sircl c m n p w k) = Sircl"
  "pl_ops (by_sircl c m n p w k) = n" "pl_piece (by_sircl c m n p w k) = p" "pl_method (by_sircl c m n p w k) = m"
  "pl_backend (named c q) = pl_backend q" "pl_method (named c q) = pl_method q"
  by (simp_all add: refuse_def by_nccl_def by_sircl_def named_def)

lemma internal_allows: "nccl_allows (internal P) op \<Longrightarrow> nccl_allows P op'"
  by (auto simp: nccl_allows_def internal_def split: if_splits)

lemma internal_prefers [simp]: "\<not> prefers_nccl (internal P) c n m k"
  by (simp add: prefers_nccl_def internal_def)

lemma prefers_allows: "prefers_nccl P c n m k \<Longrightarrow> nccl_allows P c \<and> \<not> k"
  by (auto simp: prefers_nccl_def split: if_splits)

lemma split_gather_sircl: "split_gather t axis l = Inr p \<Longrightarrow> pl_backend p = Sircl"
  by (auto simp: split_gather_def Let_def bind_res_Inr split: option.splits prod.splits if_splits)

lemma split_reduce_no_nccl: "pl_backend (split_reduce t l) \<noteq> Nccl"
  by (auto simp: split_reduce_def Let_def split: option.splits)

lemma gather_nccl: "plan_all_gather t axis limits P k = Inr p \<Longrightarrow> pl_backend p = Nccl \<Longrightarrow> nccl_allows P ''all_gather''
    \<and> (k \<longrightarrow> (case limits of None \<Rightarrow> True | Some l \<Rightarrow> li_gather l \<le> 0))"
  by (auto simp: plan_all_gather_def Let_def split: option.splits if_splits dest: prefers_allows split_gather_sircl)

lemma gather_sum_no_nccl: "gather_sum t l P k = Inr p \<Longrightarrow> pl_backend p \<noteq> Nccl"
  by (auto simp: gather_sum_def Let_def bind_res_Inr split: if_splits)

lemma reduce_nccl: "plan_all_reduce t limits P k = Inr p \<Longrightarrow> pl_backend p = Nccl \<Longrightarrow> nccl_allows P ''all_reduce''
    \<and> (k \<longrightarrow> (case limits of None \<Rightarrow> True | Some l \<Rightarrow> tm_dtype t \<notin> set (li_reduce_dtypes l)))"
  using split_reduce_no_nccl [of t] gather_sum_no_nccl [of t]
  by (auto simp: plan_all_reduce_def Let_def split: option.splits if_splits dest: prefers_allows)

lemma gather_of_bytes_no_nccl: "gather_of_bytes c m t limits P k w = Inr p \<Longrightarrow> pl_backend p \<noteq> Nccl"
  by (auto simp: gather_of_bytes_def bind_res_Inr split: if_splits)

lemma slice_nccl: "slice_of_reduce c t l P k = Inr p \<Longrightarrow> pl_backend p = Nccl \<Longrightarrow> nccl_allows P c"
  by (auto simp: slice_of_reduce_def bind_res_Inr split: if_splits)

lemma slice_nccl_reduce:
  assumes "slice_of_reduce c t l P k = Inr p" "pl_backend p = Nccl"
  shows "\<exists>r. plan_all_reduce t (Some l) (internal P) k = Inr r \<and> pl_backend r \<noteq> Sircl"
proof -
  obtain r where r: "plan_all_reduce t (Some l) (internal P) k = Inr r"
    using assms(1) unfolding slice_of_reduce_def bind_res_Inr by blast
  have "pl_backend r \<noteq> Sircl"
  proof
    assume "pl_backend r = Sircl"
    then have "pl_backend p = Sircl" using assms(1) r by (auto simp: slice_of_reduce_def)
    then show False using assms(2) by simp
  qed
  then show ?thesis using r by blast
qed

lemma scatter_nccl: "plan_reduce_scatter t axis limits P k = Inr p \<Longrightarrow> pl_backend p = Nccl \<Longrightarrow> nccl_allows P ''reduce_scatter''"
  by (auto simp: plan_reduce_scatter_def Let_def bind_res_Inr split: option.splits if_splits dest: prefers_allows slice_nccl)

section \<open>Where NCCL runs\<close>

text \<open>
  C7: NCCL carries a collective only where the group's policy allows it: every plan of every collective that names
  NCCL was made under a policy that allows that operation.
\<close>

theorem nccl_only_where_allowed:
  assumes "pl_backend p = Nccl"
  shows "(plan_all_reduce t limits P k = Inr p \<longrightarrow> nccl_allows P ''all_reduce'')
    \<and> (plan_all_gather t axis limits P k = Inr p \<longrightarrow> nccl_allows P ''all_gather'')
    \<and> (plan_all_gatherv t sizes limits P k = Inr p \<longrightarrow> nccl_allows P ''all_gather'')
    \<and> (plan_reduce_scatter t axis limits P k = Inr p \<longrightarrow> nccl_allows P ''reduce_scatter'')
    \<and> (plan_reduce_scatterv t sizes limits P k = Inr p \<longrightarrow> nccl_allows P ''reduce_scatter'')
    \<and> (plan_bytes_gather c t limits P k operation = Inr p \<longrightarrow> nccl_allows P operation)
    \<and> (plan_all_to_all t limits P k = Inr p \<longrightarrow> nccl_allows P ''all_to_all'')
    \<and> (plan_point_to_point c P rank peer p2p k n = p
        \<longrightarrow> po_nccl_mode P \<noteq> ''never'' \<and> (nccl_policy P = NcclAll \<or> nccl_policy P = NcclRing \<and> policy_cabled P rank peer))"
proof (intro conjI impI)
  show "nccl_allows P ''all_reduce''" if "plan_all_reduce t limits P k = Inr p" using reduce_nccl [OF that assms] by blast
  show "nccl_allows P ''all_gather''" if "plan_all_gather t axis limits P k = Inr p" using gather_nccl [OF that assms] by blast
  show "nccl_allows P ''reduce_scatter''" if "plan_reduce_scatter t axis limits P k = Inr p" using scatter_nccl [OF that assms] .
  show "nccl_allows P ''all_gather''" if g: "plan_all_gatherv t sizes limits P k = Inr p"
  proof -
    obtain t' q where "plan_all_gather t' 0 limits P k = Inr q" "pl_backend q = Nccl"
      using g assms by (auto simp: plan_all_gatherv_def bind_res_Inr Let_def map_sum_def split: if_splits sum.splits)
    then show ?thesis using gather_nccl by blast
  qed
  show "nccl_allows P ''reduce_scatter''" if s: "plan_reduce_scatterv t sizes limits P k = Inr p"
    using s assms
    by (auto simp: plan_reduce_scatterv_def bind_res_Inr map_sum_def split: if_splits sum.splits dest!: scatter_nccl)
  show "nccl_allows P operation" if "plan_bytes_gather c t limits P k operation = Inr p"
    using that assms by (auto simp: plan_bytes_gather_def split: if_splits dest: gather_of_bytes_no_nccl)
  show "nccl_allows P ''all_to_all''" if "plan_all_to_all t limits P k = Inr p"
    using that assms
    by (auto simp: plan_all_to_all_def Let_def bind_res_Inr split: option.splits if_splits dest: prefers_allows gather_of_bytes_no_nccl)
  show "po_nccl_mode P \<noteq> ''never''" if "plan_point_to_point c P rank peer p2p k n = p"
    using that assms by (auto simp: plan_point_to_point_def Let_def split: option.splits if_splits)
  show "nccl_policy P = NcclAll \<or> nccl_policy P = NcclRing \<and> policy_cabled P rank peer" if "plan_point_to_point c P rank peer p2p k n = p"
    using that assms by (cases "nccl_policy P") (auto simp: plan_point_to_point_def Let_def split: option.splits if_splits)
qed

section \<open>Captured calls\<close>

lemma split_reduce_sircl: "max PACK_BYTES (tm_itemsize t) \<le> li_dispatch l \<Longrightarrow> pl_backend (split_reduce t l) = Sircl"
proof -
  assume d: "max PACK_BYTES (tm_itemsize t) \<le> li_dispatch l"
  let ?u = "max PACK_BYTES (tm_itemsize t)"
  have "1 \<le> li_dispatch l div ?u" using d by (simp add: zdiv_mono1 [of ?u "li_dispatch l" ?u, simplified])
  then have "1 * ?u \<le> li_dispatch l div ?u * ?u" by (rule mult_right_mono) simp
  then have "PACK_BYTES \<le> li_dispatch l div ?u * ?u" by simp
  then have "1 \<le> li_dispatch l div ?u * ?u div PACK_BYTES" by (simp add: pos_imp_zdiv_pos_iff int_one_le_iff_zero_less)
  then show ?thesis by (auto simp: split_reduce_def Let_def split: option.splits)
qed


section \<open>Ops\<close>

lemma div_floor_le: "0 < u \<Longrightarrow> x div u * u \<le> (x::int)"
  by (simp add: minus_mod_eq_div_mult [symmetric])

lemma cdiv_ops:
  assumes "0 < b" "0 < a"
  shows "1 \<le> cdiv a b \<and> (cdiv a b - 1) * b < a \<and> a \<le> cdiv a b * b"
proof -
  have "a \<le> cdiv a b * b" "cdiv a b * b < a + b" using cdiv_bounds [OF assms(1)] by auto
  moreover have "0 < cdiv a b" using cdiv_pos assms by simp
  ultimately show ?thesis by (auto simp: left_diff_distrib)
qed



definition small_session :: SessionLimits where
  "small_session = \<lparr>li_world = 2, li_capacity = 4096, li_dispatch = 100, li_gather = 64,
    li_reduce_dtypes = [''float16'', ''bfloat16''], li_scatter_dtypes = [''float16''], li_all_to_all = True,
    li_per_peer_op_bytes = Some 48, li_scatter_op_override = None, li_large_piece = None, li_gather_piece = None,
    li_scatter_piece = None\<rparr>"

definition ring_policy :: Policy where
  "ring_policy = \<lparr>po_topology = Some \<lparr>nv_policy = NcclRing, nv_reason = ''a ring'', nv_cabled = (\<lambda>a b. True)\<rparr>,
    po_nccl_mode = ''auto'', po_large = ''auto'', po_nccl_above = [(''all_reduce'', 96)], po_override = None,
    po_reason = [], po_cabled = None\<rparr>"

definition rows_of :: "int \<Rightarrow> TensorMeta" where
  "rows_of n = \<lparr>tm_shape = [n, 7], tm_dtype = ''float16'', tm_itemsize = 2, tm_contiguous = True\<rparr>"

theorem nccl_only_where_allowed_witness:
  "let p = by_nccl ''all_reduce'' ''the message exceeds the dispatch ceiling'' in
   plan_all_reduce (rows_of 9) (Some small_session) ring_policy False = Inr p \<and> nccl_allows ring_policy ''all_reduce''"
proof -
  let ?p = "by_nccl ''all_reduce'' ''the message exceeds the dispatch ceiling''"
  have "plan_all_reduce (rows_of 9) (Some small_session) ring_policy False = Inr ?p" by code_simp
  then show ?thesis
    using nccl_only_where_allowed [of ?p "rows_of 9" "Some small_session" ring_policy False 0 None "[]" "[]" 0 1 None 1]
    by simp
qed



end
