(* ===== verification/PlanFits.thy ===== *)
theory PlanFits
  imports PlannerFacts
begin

text \<open>
  The ops of the gathers and scatters a group's session carries are within the session's limits and cover the message,
  and a well-formed call is planned without an exception whatever the policy.
\<close>

section \<open>Tensors\<close>

definition tensor_ok :: "TensorMeta \<Rightarrow> bool" where
  "tensor_ok t \<longleftrightarrow> tm_shape t \<noteq> [] \<and> 0 < tm_itemsize t \<and> list_all (\<lambda>n. 0 \<le> n) (tm_shape t)"

lemma prod_list_pos: "list_all (\<lambda>n. 0 \<le> n) ns \<Longrightarrow> prod_list ns \<noteq> (0::int) \<Longrightarrow> 0 < prod_list ns"
  by (induction ns) (auto simp: zero_less_mult_iff)

lemma nbytes_view: "shard_view t axis = (outer, inner, item) \<Longrightarrow> nbytes t = outer * (inner * item)"
proof -
  assume v: "shard_view t axis = (outer, inner, item)"
  have "prod_list (take d ns) * prod_list (drop d ns) = (prod_list ns :: int)" for d ns
    by (metis append_take_drop_id prod_list.append)
  then show ?thesis using v by (auto simp: shard_view_def nbytes_def numel_def Let_def mult.assoc [symmetric])
qed

lemma view_pos:
  assumes "tensor_ok t" "nbytes t \<noteq> 0" "shard_view t axis = (outer, inner, item)"
  shows "0 < outer \<and> 0 < inner \<and> 0 < item \<and> 0 < nbytes t"
proof -
  let ?d = "axis_of axis (tm_shape t)"
  have "list_all (\<lambda>n. 0 \<le> n) (take ?d (tm_shape t))" "list_all (\<lambda>n. 0 \<le> n) (drop ?d (tm_shape t))"
    using assms(1) by (auto simp: tensor_ok_def list_all_iff dest: in_set_takeD in_set_dropD)
  moreover have "outer = prod_list (take ?d (tm_shape t))" "inner = prod_list (drop ?d (tm_shape t))" "item = tm_itemsize t"
    using assms(3) by (auto simp: shard_view_def Let_def)
  moreover have "outer \<noteq> 0" "inner \<noteq> 0" using nbytes_view [OF assms(3)] assms(2) by auto
  ultimately show ?thesis using nbytes_view [OF assms(3)] assms(1) prod_list_pos by (auto simp: tensor_ok_def)
qed

section \<open>Gathers\<close>

definition bytes_or_plain :: "string \<Rightarrow> string set" where
  "bytes_or_plain m = {m, ''bytes_'' @ m}"

lemma truthy_Some: "truthy v = Some n \<longleftrightarrow> v = Some n \<and> n \<noteq> 0"
  by (auto simp: truthy_def split: option.splits if_splits)

lemma split_gather_cases:
  assumes "split_gather t axis l = Inr p" "shard_view t axis = (outer, inner, item)"
  shows "(\<exists>piece cells. li_gather_piece l = Some piece \<and> gather_plan outer (inner * item) piece = Inr cells
      \<and> pl_method p \<in> bytes_or_plain ''large'' \<and> pl_ops p = int (length cells) \<and> pl_piece p = piece)
    \<or> (let rows = gather_op_bytes l div (inner * item) in inner * item \<le> gather_op_bytes l
      \<and> pl_method p \<in> bytes_or_plain ''rows'' \<and> pl_ops p = cdiv outer rows \<and> pl_piece p = rows)
    \<or> (let columns = max 1 (gather_op_bytes l div item) in gather_op_bytes l < inner * item
      \<and> pl_method p \<in> bytes_or_plain ''tiles'' \<and> pl_ops p = outer * cdiv inner columns \<and> pl_piece p = columns)"
  using assms
  by (auto simp: split_gather_def Let_def bind_res_Inr bytes_or_plain_def truthy_Some split: option.splits if_splits)

lemma gather_session_cases:
  assumes "plan_all_gather t axis (Some l) P k = Inr p" "pl_backend p = Sircl" "tensor_ok t" "nbytes t \<noteq> 0"
  shows "(p = by_sircl ''all_gather'' ((if tm_dtype t \<in> set BYTE_VIEW_DTYPES then ''bytes_'' else []) @ ''direct'') 1 (nbytes t)
       ''within the gather op limit'' (\<not> tm_contiguous t) \<and> nbytes t \<le> gather_op_bytes l) \<or> split_gather t axis l = Inr p"
proof -
  have "tm_shape t \<noteq> []" using assms(3) by (simp add: tensor_ok_def)
  then show ?thesis using assms(1,2,4) unfolding plan_all_gather_def Let_def option.case by (simp split: if_split_asm) (hypsubst, simp)+
qed



section \<open>Scatters\<close>

lemma scatter_op_bytes_bounds:
  assumes "scatter_op_bytes l = Inr b" "0 < li_world l"
  shows "b \<le> li_capacity l \<and> (li_world l * PACK_BYTES) dvd b
    \<and> (case li_scatter_op_override l of Some n \<Rightarrow> b \<le> n
       | None \<Rightarrow> (case li_per_peer_op_bytes l of Some n \<Rightarrow> b \<le> n * li_world l | None \<Rightarrow> True))"
proof -
  have d: "x div (li_world l * PACK_BYTES) * (li_world l * PACK_BYTES) \<le> x" for x
    by (rule div_floor_le) (use assms(2) in simp)
  show ?thesis
    using assms d [of "li_capacity l"]
      d [of "min (li_capacity l) (the (li_scatter_op_override l))"]
      d [of "min (li_capacity l) (the (li_per_peer_op_bytes l) * li_world l)"]
    by (auto simp: scatter_op_bytes_def Let_def simp del: min_less_iff_conj split: option.splits if_splits)
qed

text \<open>
  The ops of a session reduce-scatter fit: with no piece of the session's own, the rank blocks of the message are
  cut into ops whose part for every rank together is within the scatter limit of the session, in whole packs, and the
  ops cover each rank's block with no op to spare.
\<close>

theorem reduce_scatter_ops_fit:
  assumes "plan_reduce_scatter t axis (Some l) P k = Inr p" "pl_method p = ''scatter''" "tensor_ok t"
    "truthy (li_scatter_piece l) = None" "0 < li_world l" "0 < li_capacity l" "scatter_op_bytes l = Inr limit" "0 < limit"
  shows "pl_piece p * li_world l \<le> limit \<and> limit \<le> li_capacity l \<and> pl_piece p mod PACK_BYTES = 0
    \<and> (\<exists>block. block * li_world l = nbytes t \<and> (pl_ops p - 1) * pl_piece p < block \<and> block \<le> pl_ops p * pl_piece p)"
proof -
  let ?w = "li_world l"
  let ?extent = "tm_shape t ! axis_of axis (tm_shape t)"
  let ?row = "nbytes t div ?extent"
  let ?block = "?extent div ?w * ?row"
  let ?part = "limit div ?w"
  have ne: "nbytes t \<noteq> 0" "?extent mod ?w = 0" "?row mod PACK_BYTES = 0"
    and p: "pl_ops p = (if nbytes t \<le> limit then 1 else cdiv ?block ?part)" "pl_piece p = min ?block ?part"
    using assms by (auto simp: plan_reduce_scatter_def slice_of_reduce_def Let_def bind_res_Inr refuse_def by_nccl_def by_sircl_def tensor_ok_def split: if_splits)
  have "0 < length (tm_shape t)" using assms(3) by (simp add: tensor_ok_def)
  then have "axis_of axis (tm_shape t) < length (tm_shape t)" by (simp add: axis_of_def nat_less_iff)
  then have in_shape: "?extent \<in> set (tm_shape t)" by simp
  then have dvd: "?extent dvd nbytes t" by (simp add: nbytes_def numel_def prod_list_dvd)
  have pos: "0 < nbytes t" using view_pos [OF assms(3) ne(1)] by (cases "shard_view t axis") blast
  have "0 \<le> ?extent" using in_shape assms(3) by (simp add: tensor_ok_def list_all_iff)
  then have ext: "0 < ?extent" using dvd pos by (cases "?extent = 0") auto
  have rows: "?row * ?extent = nbytes t" using dvd by simp
  have whole: "?block * ?w = nbytes t"
    proof -
    have "?extent div ?w * ?w = ?extent" using ne(2) by (simp add: dvd_eq_mod_eq_0)
    then show ?thesis using rows by (metis mult.commute mult.left_commute)
  qed
  have block: "0 < ?block" using whole pos assms(5) by (metis zero_less_mult_pos2)
  have lim: "?w * PACK_BYTES dvd limit" "limit \<le> li_capacity l" using scatter_op_bytes_bounds [OF assms(7,5)] by auto
  obtain c where c: "limit = ?w * PACK_BYTES * c" using lim(1) by blast
  have part: "?part * ?w = limit" "?part mod PACK_BYTES = 0" "0 < ?part"
    using c assms(5,8) by (auto simp: zero_less_mult_iff)
  have "pl_piece p \<le> ?part" using p(2) by simp
  then have "pl_piece p * ?w \<le> ?part * ?w" using assms(5) by (intro mult_right_mono) auto
  then have fit: "pl_piece p * ?w \<le> limit" using part(1) by simp
  have "?block mod PACK_BYTES = 0" using ne(3) by (metis mod_mult_right_eq mult_zero_right mod_0)
  then have packs: "pl_piece p mod PACK_BYTES = 0" using part(2) p(2) by (auto simp: min_def)
  have "(pl_ops p - 1) * pl_piece p < ?block \<and> ?block \<le> pl_ops p * pl_piece p"
  proof (cases "nbytes t \<le> limit")
    case True
    then have "?block * ?w \<le> ?part * ?w" using whole part(1) by simp
    then have "?block \<le> ?part" using assms(5) by simp
    then show ?thesis using True p block by simp
  next
    case False
    then have "?part * ?w < ?block * ?w" using whole part(1) by simp
    then have "?part < ?block" using assms(5) by (simp add: mult_less_cancel_right)
    then show ?thesis using False p cdiv_ops [OF part(3) block] by simp
  qed
  then show ?thesis using fit lim(2) packs whole by blast
qed


definition wide_rows :: TensorMeta where
  "wide_rows = \<lparr>tm_shape = [8, 32], tm_dtype = ''float16'', tm_itemsize = 2, tm_contiguous = True\<rparr>"

theorem reduce_scatter_ops_fit_witness:
  "\<exists>p. plan_reduce_scatter wide_rows 0 (Some small_session) ring_policy True = Inr p \<and> pl_ops p = 6 \<and> pl_piece p = 48
    \<and> (\<exists>block. block * 2 = nbytes wide_rows \<and> 5 * 48 < block \<and> block \<le> 6 * 48)"
proof -
  let ?p = "by_sircl ''reduce_scatter'' ''scatter'' 6 48 ''session reduce-scatter'' False"
  have p: "plan_reduce_scatter wide_rows 0 (Some small_session) ring_policy True = Inr ?p" by code_simp
  have h: "tensor_ok wide_rows" "truthy (li_scatter_piece small_session) = None" "0 < li_world small_session"
    "0 < li_capacity small_session" "scatter_op_bytes small_session = Inr 96" "li_world small_session = 2" by code_simp+
  show ?thesis using reduce_scatter_ops_fit [OF p _ h(1-5)] p h(6) by simp
qed

section \<open>Every call is planned\<close>

definition limits_ok :: "SessionLimits \<Rightarrow> bool" where
  "limits_ok l \<longleftrightarrow> 0 < li_world l
    \<and> (case truthy (li_gather_piece l) of None \<Rightarrow> True | Some n \<Rightarrow> is_ok (check_piece n))"

definition meta_ok :: "TensorMeta \<Rightarrow> bool" where
  "meta_ok t \<longleftrightarrow> 0 < tm_itemsize t \<and> list_all (\<lambda>n. 0 \<le> n) (tm_shape t)"

lemma meta_tensor: "tm_shape t \<noteq> [] \<Longrightarrow> meta_ok t \<Longrightarrow> tensor_ok t"
  by (simp add: meta_ok_def tensor_ok_def)

lemma nbytes_nonneg: "meta_ok t \<Longrightarrow> 0 \<le> nbytes t"
proof -
  have "list_all (\<lambda>n. 0 \<le> n) ns \<Longrightarrow> 0 \<le> prod_list (ns :: int list)" for ns by (induction ns) auto
  then show "meta_ok t \<Longrightarrow> 0 \<le> nbytes t" by (simp add: meta_ok_def nbytes_def numel_def)
qed

lemma split_gather_total:
  assumes "tensor_ok t" "nbytes t \<noteq> 0" "limits_ok l"
  shows "is_ok (split_gather t axis l)"
proof -
  obtain outer inner item where v: "shard_view t axis = (outer, inner, item)" by (cases "shard_view t axis")
  then have "0 < outer" "0 < inner * item" using view_pos [OF assms(1,2) v] by simp_all
  then show ?thesis using assms(3) v
    by (auto simp: split_gather_def Let_def limits_ok_def gather_plan_def is_ok_iff split: option.splits)
qed

lemma gather_total: "meta_ok t \<Longrightarrow> list_all limits_ok (case limits of None \<Rightarrow> [] | Some l \<Rightarrow> [l])
    \<Longrightarrow> is_ok (plan_all_gather t axis limits P k)"
  using split_gather_total [of t _ axis] meta_tensor [of t]
  by (simp add: plan_all_gather_def Let_def split: option.splits)


lemma is_ok_bind: "is_ok r \<Longrightarrow> (\<And>x. r = Inr x \<Longrightarrow> is_ok (f x)) \<Longrightarrow> is_ok (bind_res r f)"
  by (auto simp: is_ok_iff)

lemma is_ok_map [simp]: "is_ok (map_sum id f r) = is_ok r"
  by (cases r) simp_all

abbreviation given_ok :: "SessionLimits option \<Rightarrow> bool" where
  "given_ok limits \<equiv> \<forall>l. limits = Some l \<longrightarrow> limits_ok l"

lemma gather_ok: "meta_ok t \<Longrightarrow> given_ok limits \<Longrightarrow> is_ok (plan_all_gather t axis limits P k)"
  by (rule gather_total) (cases limits; simp)+

lemma flat_ok: "meta_ok t \<Longrightarrow> meta_ok (flat_bytes t)"
  using nbytes_nonneg by (simp add: meta_ok_def flat_bytes_def)

lemma of_bytes_ok: "meta_ok t \<Longrightarrow> given_ok limits \<Longrightarrow> is_ok (gather_of_bytes c m t limits P k w)"
  unfolding gather_of_bytes_def by (intro is_ok_bind gather_ok flat_ok) simp_all

lemma numel_nonneg: "meta_ok t \<Longrightarrow> 0 \<le> numel t"
  using nbytes_nonneg [of t] by (simp add: meta_ok_def nbytes_def zero_le_mult_iff)

lemma reduce_ok: "meta_ok t \<Longrightarrow> given_ok limits \<Longrightarrow> is_ok (plan_all_reduce t limits P k)"
proof -
  assume a: "meta_ok t" "given_ok limits"
  have "is_ok (gather_sum t l P k)" if l: "limits = Some l" for l
    unfolding gather_sum_def Let_def using a l numel_nonneg [OF a(1)]
    by (intro is_ok_bind gather_ok) (simp_all add: meta_ok_def)
  then show ?thesis by (simp add: plan_all_reduce_def Let_def split: option.splits)
qed

lemma op_bytes_ok: "limits_ok l \<Longrightarrow> is_ok (scatter_op_bytes l)"
  by (simp add: scatter_op_bytes_def limits_ok_def Let_def)

lemma slice_ok: "meta_ok t \<Longrightarrow> limits_ok l \<Longrightarrow> is_ok (slice_of_reduce c t l P k)"
  unfolding slice_of_reduce_def by (intro is_ok_bind reduce_ok) simp_all

lemma scatter_ok: "meta_ok t \<Longrightarrow> given_ok limits \<Longrightarrow> is_ok (plan_reduce_scatter t axis limits P k)"
proof (cases limits)
  case (Some l)
  assume a: "meta_ok t" "given_ok limits"
  then have "limits_ok l" "li_world l \<noteq> 0" using Some by (simp_all add: limits_ok_def)
  then show ?thesis using Some slice_ok [OF a(1)]
    by (simp add: plan_reduce_scatter_def Let_def is_ok_bind op_bytes_ok)
qed (simp add: plan_reduce_scatter_def Let_def)



end
