(* ===== verification/Teardown.thy ===== *)
theory Teardown
  imports Text
begin

text \<open>
  The two-round teardown of a session or channel set (\<open>spark_transport/sircl/sparkring_sircl/teardown.py\<close>): the
  notes ranks exchange and their bytes, the ordered close of one rank and the close of its native context.  What
  lies outside the file enters as values: the outcome of each round's exchange, whether stopping the progress thread
  raises, and what destroying the native context returns.  The process-wide tables of the module are a state that
  every operation returns.
\<close>

section \<open>Notes\<close>

abbreviation (input) NOTE_BYTES :: nat where "NOTE_BYTES \<equiv> 512"
abbreviation (input) NOTE_FORMAT :: int where "NOTE_FORMAT \<equiv> 2"
abbreviation (input) HEADER_BYTES :: nat where "HEADER_BYTES \<equiv> 8"

definition KINDS :: "string list" where
  "KINDS = [''session'', ''channels'']"

record Note =
  nt_kind :: string
  nt_ordinal :: int
  nt_phase :: int
  nt_failure :: "string option"

definition same_close :: "Note \<Rightarrow> Note \<Rightarrow> bool" where
  "same_close n m \<longleftrightarrow> (nt_kind n, nt_ordinal n, nt_phase n) = (nt_kind m, nt_ordinal m, nt_phase m)"

definition note_describe :: "Note \<Rightarrow> string" where
  "note_describe n = (if nt_phase n \<noteq> 0
    then nt_kind n @ '' '' @ str_of_int (nt_ordinal n) @ '' in round '' @ str_of_int (nt_phase n)
    else ''a note of another format'')"

text \<open>
  A note on the wire, as a list of byte values.  The failure's text is its ASCII bytes (the source encodes UTF-8,
  which is the same for them).
\<close>

definition le32 :: "int \<Rightarrow> int list" where
  "le32 x = [x mod 256, x div 256 mod 256, x div 65536 mod 256, x div 16777216 mod 256]"

definition le32_value :: "int list \<Rightarrow> int" where
  "le32_value bs = bs ! 0 + 256 * bs ! 1 + 65536 * bs ! 2 + 16777216 * bs ! 3"

definition failure_bytes :: "string option \<Rightarrow> int list" where
  "failure_bytes failure = (case failure of None \<Rightarrow> []
    | Some f \<Rightarrow> take (NOTE_BYTES - HEADER_BYTES) (map of_char f))"

definition encode :: "Note \<Rightarrow> py_error + int list" where
  "encode n =
    (let body = failure_bytes (nt_failure n) in
     if nt_kind n \<notin> set KINDS then Inl (ValueErr ''tuple.index(x): x not in tuple'' [])
     else if \<not> (0 \<le> nt_phase n \<and> nt_phase n < 256) then Inl (ValueErr ''ubyte format requires 0 <= number <= 255'' [])
     else Inr ([NOTE_FORMAT, nt_phase n, (if nt_kind n = ''session'' then 1 else 2), (if nt_failure n \<noteq> None then 1 else 0)]
       @ le32 (nt_ordinal n AND 4294967295) @ body @ replicate (NOTE_BYTES - HEADER_BYTES - length body) 0))"

definition strip_zeros :: "int list \<Rightarrow> int list" where
  "strip_zeros bs = rev (dropWhile (\<lambda>b. b = 0) (rev bs))"

definition decode :: "int list \<Rightarrow> Note" where
  "decode raw =
    (if length raw < HEADER_BYTES \<or> raw ! 0 \<noteq> NOTE_FORMAT
     then \<lparr>nt_kind = ''unknown'', nt_ordinal = -1, nt_phase = 0, nt_failure = Some ''a teardown note of another format''\<rparr>
     else
       let k = raw ! 2; body = map char_of (strip_zeros (drop HEADER_BYTES raw)) in
       \<lparr>nt_kind = (if 1 \<le> k \<and> k \<le> int (length KINDS) then KINDS ! nat (k - 1) else ''unknown''),
        nt_ordinal = le32_value (take 4 (drop 4 raw)), nt_phase = raw ! 1,
        nt_failure = (if raw ! 3 \<noteq> 0 then Some (if body \<noteq> [] then body else ''failed'') else None)\<rparr>)"

section \<open>The process's tables\<close>

text \<open>
  Groups and arenas are named by the identity of their objects: \<open>_ORDINALS\<close>, \<open>_UNUSABLE\<close> and \<open>RETAINED\<close> of the module.
\<close>

record Tables =
  tb_ordinals :: "(int \<times> int, int) dict"
  tb_unusable :: "(int, string) dict"
  tb_retained :: "int list"

definition register :: "int \<Rightarrow> int \<Rightarrow> Tables \<Rightarrow> int \<times> Tables" where
  "register group_id rank s = (let seen = dget_or (tb_ordinals s) (group_id, rank) 0
    in (seen, s\<lparr>tb_ordinals := dset (group_id, rank) (seen + 1) (tb_ordinals s)\<rparr>))"

definition unusable :: "int \<Rightarrow> Tables \<Rightarrow> string option" where
  "unusable group_id s = dget (tb_unusable s) group_id"

definition mark_unusable :: "int \<Rightarrow> string \<Rightarrow> Tables \<Rightarrow> Tables" where
  "mark_unusable group_id why s = (if dget (tb_unusable s) group_id = None
    then s\<lparr>tb_unusable := dset group_id why (tb_unusable s)\<rparr> else s)"

definition retain :: "int \<Rightarrow> Tables \<Rightarrow> Tables" where
  "retain arena s = s\<lparr>tb_retained := tb_retained s @ [arena]\<rparr>"

section \<open>Rounds\<close>

text \<open>What an exchange comes to: its thread does not start, it raises, every rank answers, or nobody waits longer.\<close>

datatype exchanged = NotStarted string | Raised string | Answered "Note list" | Silent

record Round =
  rd_arrived :: bool
  rd_notes :: "Note list"
  rd_why :: "string option"

definition missed :: "string \<Rightarrow> Round" where
  "missed why = \<lparr>rd_arrived = False, rd_notes = [], rd_why = Some why\<rparr>"

definition teardown_round :: "exchanged \<Rightarrow> string \<Rightarrow> string \<Rightarrow> Round" where
  "teardown_round outcome limit name = (case outcome of
     NotStarted e \<Rightarrow> missed (name @ '': its thread did not start: '' @ e)
   | Raised e \<Rightarrow> missed (name @ '': '' @ e)
   | Answered ns \<Rightarrow> \<lparr>rd_arrived = True, rd_notes = ns, rd_why = None\<rparr>
   | Silent \<Rightarrow> missed (name @ '': not every rank arrived within '' @ limit @ '' s''))"

definition matched :: "Round \<Rightarrow> Note \<Rightarrow> string \<Rightarrow> Round" where
  "matched r mine name =
    (if \<not> rd_arrived r then r
     else case find (\<lambda>(rank, n). \<not> same_close mine n) (List.enumerate 0 (rd_notes r)) of
       None \<Rightarrow> r
     | Some (rank, n) \<Rightarrow> missed (name @ '': rank '' @ str_of_nat rank @ '' closed '' @ note_describe n
         @ '' while this rank closed '' @ note_describe mine))"

text \<open>\<open>a or b\<close> of two optional texts: an empty text counts as none.\<close>

definition or_text :: "string option \<Rightarrow> string option \<Rightarrow> string option" where
  "or_text a b = (case a of None \<Rightarrow> b | Some t \<Rightarrow> if t \<noteq> [] then a else b)"

definition peer_failure :: "Note list \<Rightarrow> string option" where
  "peer_failure ns = (case find (\<lambda>(rank, n). nt_failure n \<noteq> None) (List.enumerate 0 ns) of
     None \<Rightarrow> None
   | Some (rank, n) \<Rightarrow> Some (''rank '' @ str_of_nat rank @ '': '' @ the (nt_failure n)))"

section \<open>The close of one rank\<close>

record CloseCall =
  cc_group :: int
  cc_limit :: string
  cc_what :: string
  cc_kind :: string
  cc_ordinal :: int
  cc_own :: "string option"
  cc_abort :: bool
  cc_arena :: "int option"
  cc_unsettled :: bool

record Outside =
  ou_round1 :: exchanged
  ou_round2 :: exchanged
  ou_stop :: "string option"
  ou_close :: "string + int"

text \<open>What the close does, in order.  \<open>StopThread\<close> and \<open>Destroy\<close> are the native context's calls.\<close>

datatype action = Exchange Note | StopThread | Destroy

definition note_of :: "CloseCall \<Rightarrow> int \<Rightarrow> string option \<Rightarrow> Note" where
  "note_of c phase failure = \<lparr>nt_kind = cc_kind c, nt_ordinal = cc_ordinal c, nt_phase = phase, nt_failure = failure\<rparr>"

definition round_of :: "CloseCall \<Rightarrow> exchanged \<Rightarrow> Note \<Rightarrow> string \<Rightarrow> Round" where
  "round_of c outcome mine name = matched (teardown_round outcome (cc_limit c) name) mine name"

text \<open>The result is \<open>Inl\<close> of the exception when stopping the thread raises.\<close>

definition after_stop :: "Outside \<Rightarrow> string option \<Rightarrow> string + string option" where
  "after_stop o' result = (case ou_stop o' of Some e \<Rightarrow> Inl e | None \<Rightarrow> Inr result)"

definition ordered_close :: "CloseCall \<Rightarrow> Outside \<Rightarrow> Tables \<Rightarrow> Tables \<times> action list \<times> (string + string option)" where
  "ordered_close c o' s = (case unusable (cc_group c) s of
     Some reason \<Rightarrow> (s, [StopThread], after_stop o' (or_text (cc_own c)
       (Some (cc_what c @ '': closed without the teardown rounds ('' @ reason @ '')''))))
   | None \<Rightarrow>
       let mine = note_of c 1 (cc_own c);
           first = round_of c (ou_round1 o') mine (cc_what c @ '' round 1'')
       in if \<not> rd_arrived first
          then (mark_unusable (cc_group c) (the (or_text (rd_why first) (Some (cc_what c @ '' round 1 did not complete'')))) s,
            [Exchange mine, StopThread], after_stop o' (or_text (cc_own c) (rd_why first)))
          else
            let result = (if cc_own c = None then peer_failure (rd_notes first) else cc_own c);
                quiet = note_of c 2 None;
                second = round_of c (ou_round2 o') quiet (cc_what c @ '' round 2'')
            in (case ou_stop o' of
                  Some e \<Rightarrow> (s, [Exchange mine, StopThread], Inl e)
                | None \<Rightarrow>
                    if \<not> rd_arrived second
                    then (mark_unusable (cc_group c)
                        (the (or_text (rd_why second) (Some (cc_what c @ '' round 2 did not complete'')))) s,
                      [Exchange mine, StopThread, Exchange quiet], Inr (or_text result (rd_why second)))
                    else (s, [Exchange mine, StopThread, Exchange quiet], Inr result)))"

definition joined :: "string option \<Rightarrow> string \<Rightarrow> string" where
  "joined first second = (case first of None \<Rightarrow> second | Some t \<Rightarrow> if t \<noteq> [] then t @ ''; '' @ second else second)"

text \<open>
  \<open>close_native\<close> with a native context.  An exception comes from stopping the thread only, which then was called, so
  the second attempt to stop is never made.
\<close>

definition destroyed :: "CloseCall \<Rightarrow> Outside \<Rightarrow> string option \<Rightarrow> Tables \<Rightarrow> Tables \<times> string option" where
  "destroyed c o' result s =
    (let failed = (case ou_close o' of Inl e \<Rightarrow> None | Inr n \<Rightarrow> Some n);
         noted = (case ou_close o' of
             Inl e \<Rightarrow> Some (joined result (cc_what c @ '': destroying the native context raised '' @ e
               @ ''; the registered arena stays allocated for the rest of the process''))
           | Inr n \<Rightarrow>
               if n \<noteq> 0 then Some (joined result (cc_what c @ '': '' @ str_of_int n
                 @ '' RDMA teardown call(s) failed; the registered arena stays allocated for the rest of the process''))
               else if cc_unsettled c then Some (joined result (cc_what c
                 @ '': the arena stays allocated for the rest of the process: its GPU work was not shown complete''))
               else result)
     in ((case cc_arena c of
            Some a \<Rightarrow> if failed \<noteq> Some 0 \<or> cc_unsettled c then retain a s else s | None \<Rightarrow> s), noted))"

definition close_native :: "CloseCall \<Rightarrow> Outside \<Rightarrow> Tables \<Rightarrow> Tables \<times> action list \<times> string option" where
  "close_native c o' s =
    (let (s1, actions, r) = (if cc_abort c then (s, [StopThread], after_stop o' (cc_own c)) else ordered_close c o' s);
         result = (case r of Inr x \<Rightarrow> x
           | Inl e \<Rightarrow> Some (joined (cc_own c) (cc_what c @ '': the teardown raised '' @ e)));
         (s2, final) = destroyed c o' result s1
     in (s2, actions @ [Destroy], final))"

text \<open>\<open>native\<close> None: set-up failed before a context existed.\<close>

definition close_without_native :: "CloseCall \<Rightarrow> Tables \<Rightarrow> Tables \<times> action list \<times> string option" where
  "close_without_native c s = ((case cc_arena c of
     Some a \<Rightarrow> if cc_unsettled c then retain a s else s | None \<Rightarrow> s), [], cc_own c)"

section \<open>Notes on the wire\<close>

lemma le32_bytes: "0 \<le> x \<Longrightarrow> x < 4294967296 \<Longrightarrow> le32_value (le32 x) = x"
proof -
  assume x: "0 \<le> x" "x < 4294967296"
  have "x = x mod 256 + 256 * (x div 256)" by simp
  moreover have "x div 256 = x div 256 mod 256 + 256 * (x div 65536)" by (simp add: zdiv_zmult2_eq [of 256 x 256, simplified])
  moreover have "x div 65536 = x div 65536 mod 256 + 256 * (x div 16777216)"
    by (simp add: zdiv_zmult2_eq [of 256 x 65536, simplified])
  moreover have "x div 16777216 mod 256 = x div 16777216" using x by (intro mod_pos_pos_trivial) auto
  moreover have "le32_value (le32 x) = x mod 256 + 256 * (x div 256 mod 256) + 65536 * (x div 65536 mod 256)
      + 16777216 * (x div 16777216 mod 256)" by (simp add: le32_value_def le32_def)
  ultimately show ?thesis by linarith
qed

lemma ordinal_mask: "x AND 4294967295 = x mod (4294967296 :: int)"
  using take_bit_eq_mask [of 32 x] by (simp add: take_bit_eq_mod mask_eq_exp_minus_1)

lemma strip_zeros_pad: "bs = [] \<or> last bs \<noteq> 0 \<Longrightarrow> strip_zeros (bs @ replicate n 0) = bs"
proof -
  assume b: "bs = [] \<or> last bs \<noteq> 0"
  have "dropWhile (\<lambda>b. b = 0) (replicate n 0 @ rev bs) = dropWhile (\<lambda>b. b = 0) (rev bs)" by (induction n) auto
  also have "\<dots> = rev bs" using b by (cases bs rule: rev_cases) auto
  finally show ?thesis by (simp add: strip_zeros_def)
qed

definition text_ok :: "string option \<Rightarrow> bool" where
  "text_ok failure = (case failure of None \<Rightarrow> True
    | Some f \<Rightarrow> f \<noteq> [] \<and> length f \<le> NOTE_BYTES - HEADER_BYTES \<and> of_char (last f) \<noteq> (0 :: int))"




section \<open>One rank's close\<close>

text \<open>A round completed: every rank answered, and every note names this close and round.\<close>

definition completed :: "exchanged \<Rightarrow> Note \<Rightarrow> bool" where
  "completed outcome mine = (case outcome of Answered ns \<Rightarrow> list_all (same_close mine) ns | _ \<Rightarrow> False)"

lemma find_enumerate_None: "find (\<lambda>(i, x). P x) (List.enumerate k xs) = None \<longleftrightarrow> list_all (\<lambda>x. \<not> P x) xs"
  by (induction xs arbitrary: k) auto

lemma round_of_arrived: "rd_arrived (round_of c outcome mine name) \<longleftrightarrow> completed outcome mine"
proof (cases outcome)
  case (Answered ns)
  have "find (\<lambda>(rank, n). \<not> same_close mine n) (List.enumerate 0 ns) = None \<longleftrightarrow> list_all (same_close mine) ns"
    using find_enumerate_None [of "\<lambda>n. \<not> same_close mine n" 0 ns] by simp
  then show ?thesis using Answered
    by (auto simp: round_of_def teardown_round_def matched_def completed_def missed_def split: option.splits)
qed (simp_all add: round_of_def teardown_round_def matched_def completed_def missed_def)

lemma round_of_notes: "completed outcome mine \<Longrightarrow> \<exists>ns. outcome = Answered ns \<and> rd_notes (round_of c outcome mine name) = ns"
  using round_of_arrived [of c outcome mine name]
  by (cases outcome) (auto simp: round_of_def teardown_round_def matched_def completed_def missed_def split: option.splits)

lemma round_of_why: "\<not> completed outcome mine \<Longrightarrow> rd_why (round_of c outcome mine name) \<noteq> None"
  using round_of_arrived [of c outcome mine name]
  by (cases outcome) (auto simp: round_of_def teardown_round_def matched_def missed_def split: option.splits)

lemma peer_failure_None: "peer_failure ns = None \<longleftrightarrow> list_all (\<lambda>n. nt_failure n = None) ns"
  using find_enumerate_None [of "\<lambda>n. nt_failure n \<noteq> None" 0 ns] by (auto simp: peer_failure_def split: option.splits)

lemma or_text_None: "or_text a b = None \<longleftrightarrow> a \<in> {None, Some []} \<and> b = None"
  by (auto simp: or_text_def split: option.splits)

definition round1_notes :: "Outside \<Rightarrow> Note list" where
  "round1_notes o' = (case ou_round1 o' of Answered ns \<Rightarrow> ns | _ \<Rightarrow> [])"

lemma ordered_close_cases:
  "ordered_close c o' s = (s', actions, r) \<Longrightarrow>
    (\<exists>reason. unusable (cc_group c) s = Some reason \<and> s' = s \<and> actions = [StopThread] \<and> (r = Inl (the (ou_stop o')) \<or> (\<exists>t. r = Inr (Some t))))
    \<or> (unusable (cc_group c) s = None \<and> \<not> completed (ou_round1 o') (note_of c 1 (cc_own c))
        \<and> unusable (cc_group c) s' \<noteq> None \<and> actions = [Exchange (note_of c 1 (cc_own c)), StopThread]
        \<and> (r = Inl (the (ou_stop o')) \<or> (\<exists>t. r = Inr (Some t))))
    \<or> (unusable (cc_group c) s = None \<and> completed (ou_round1 o') (note_of c 1 (cc_own c)) \<and> ou_stop o' \<noteq> None
        \<and> s' = s \<and> actions = [Exchange (note_of c 1 (cc_own c)), StopThread] \<and> r = Inl (the (ou_stop o')))
    \<or> (unusable (cc_group c) s = None \<and> completed (ou_round1 o') (note_of c 1 (cc_own c)) \<and> ou_stop o' = None
        \<and> \<not> completed (ou_round2 o') (note_of c 2 None) \<and> unusable (cc_group c) s' \<noteq> None
        \<and> actions = [Exchange (note_of c 1 (cc_own c)), StopThread, Exchange (note_of c 2 None)] \<and> (\<exists>t. r = Inr (Some t)))
    \<or> (unusable (cc_group c) s = None \<and> completed (ou_round1 o') (note_of c 1 (cc_own c)) \<and> ou_stop o' = None
        \<and> completed (ou_round2 o') (note_of c 2 None) \<and> s' = s
        \<and> actions = [Exchange (note_of c 1 (cc_own c)), StopThread, Exchange (note_of c 2 None)]
        \<and> r = Inr (if cc_own c = None then peer_failure (round1_notes o') else cc_own c))"
proof -
  assume e: "ordered_close c o' s = (s', actions, r)"
  let ?mine = "note_of c 1 (cc_own c)" and ?quiet = "note_of c 2 None"
  let ?first = "round_of c (ou_round1 o') ?mine (cc_what c @ '' round 1'')"
  let ?second = "round_of c (ou_round2 o') ?quiet (cc_what c @ '' round 2'')"
  have some: "\<exists>t. or_text a b = Some t" if "b \<noteq> None" for a b using that or_text_None [of a b] by auto
  have marked: "unusable g (mark_unusable g why s) \<noteq> None" for g why by (simp add: unusable_def mark_unusable_def)
  consider "unusable (cc_group c) s \<noteq> None"
    | "unusable (cc_group c) s = None" "\<not> completed (ou_round1 o') ?mine"
    | "unusable (cc_group c) s = None" "completed (ou_round1 o') ?mine" "ou_stop o' \<noteq> None"
    | "unusable (cc_group c) s = None" "completed (ou_round1 o') ?mine" "ou_stop o' = None" "\<not> completed (ou_round2 o') ?quiet"
    | "unusable (cc_group c) s = None" "completed (ou_round1 o') ?mine" "ou_stop o' = None" "completed (ou_round2 o') ?quiet"
    by blast
  then show ?thesis
  proof cases
    case 1
    then show ?thesis using e some by (auto simp: ordered_close_def after_stop_def split: option.splits)
  next
    case 2
    have "\<not> rd_arrived ?first" using 2 round_of_arrived by blast
    then have "s' = mark_unusable (cc_group c) (the (or_text (rd_why ?first) (Some (cc_what c @ '' round 1 did not complete'')))) s"
      "actions = [Exchange ?mine, StopThread]" "r = after_stop o' (or_text (cc_own c) (rd_why ?first))"
      using e 2 by (simp_all add: ordered_close_def Let_def)
    then show ?thesis using 2 marked some [OF round_of_why [OF 2(2)]]
      by (auto simp: after_stop_def split: option.splits)
  next
    case 3
    then have "rd_arrived ?first" using round_of_arrived by blast
    then show ?thesis using e 3 by (auto simp: ordered_close_def Let_def)
  next
    case 4
    have a: "rd_arrived ?first" "\<not> rd_arrived ?second" using 4 round_of_arrived by blast+
    then have "s' = mark_unusable (cc_group c) (the (or_text (rd_why ?second) (Some (cc_what c @ '' round 2 did not complete'')))) s"
      "actions = [Exchange ?mine, StopThread, Exchange ?quiet]" "\<exists>x. r = Inr (or_text x (rd_why ?second))"
      using e 4 by (simp_all add: ordered_close_def Let_def) blast
    then show ?thesis using 4 marked some [OF round_of_why [OF 4(4)]] by auto
  next
    case 5
    have a: "rd_arrived ?first" "rd_arrived ?second" using 5 round_of_arrived by blast+
    moreover obtain ns where "ou_round1 o' = Answered ns" "rd_notes ?first = ns" using round_of_notes 5 by blast
    ultimately show ?thesis using e 5 by (auto simp: ordered_close_def Let_def round1_notes_def)
  qed
qed

text \<open>
  A close stops the progress thread exactly once and destroys the native context exactly once, last; every note of
  round 1 is exchanged before the thread stops and every note of round 2 after it; round 2 is entered only when round 1
  completed; and with \<open>abort\<close>, or on a group marked unusable, no note is exchanged at all.
\<close>

theorem close_in_order:
  assumes "close_native c o' s = (s', actions, result)"
  shows "\<exists>before after. actions = before @ StopThread # after @ [Destroy]
    \<and> before \<in> {[], [Exchange (note_of c 1 (cc_own c))]} \<and> after \<in> {[], [Exchange (note_of c 2 None)]}
    \<and> (after \<noteq> [] \<longrightarrow> before \<noteq> [] \<and> completed (ou_round1 o') (note_of c 1 (cc_own c)))
    \<and> (cc_abort c \<or> unusable (cc_group c) s \<noteq> None \<longrightarrow> before = [])"
proof (cases "cc_abort c")
  case True
  then have "actions = [] @ StopThread # [] @ [Destroy]" using assms by (auto simp: close_native_def Let_def split: prod.splits)
  then show ?thesis by blast
next
  case False
  obtain s1 acts r where o: "ordered_close c o' s = (s1, acts, r)" by (cases "ordered_close c o' s")
  then have a: "actions = acts @ [Destroy]" using assms False by (auto simp: close_native_def Let_def split: prod.splits)
  let ?e1 = "Exchange (note_of c 1 (cc_own c))" and ?e2 = "Exchange (note_of c 2 None)"
  from ordered_close_cases [OF o]
  have "acts = [StopThread] \<or> (acts = [?e1, StopThread] \<and> unusable (cc_group c) s = None)
    \<or> (acts = [?e1, StopThread, ?e2] \<and> unusable (cc_group c) s = None \<and> completed (ou_round1 o') (note_of c 1 (cc_own c)))"
    by blast
  then show ?thesis
  proof (elim disjE conjE)
    assume "acts = [StopThread]"
    then show ?thesis using a by (intro exI [of _ "[]"] exI [of _ "[]"]) simp
  next
    assume "acts = [?e1, StopThread]" "unusable (cc_group c) s = None"
    then show ?thesis using a False by (intro exI [of _ "[?e1]"] exI [of _ "[]"]) simp
  next
    assume "acts = [?e1, StopThread, ?e2]" "unusable (cc_group c) s = None" "completed (ou_round1 o') (note_of c 1 (cc_own c))"
    then show ?thesis using a False by (intro exI [of _ "[?e1]"] exI [of _ "[?e2]"]) simp
  qed
qed

lemma destroyed_None:
  "snd (destroyed c o' result s) = None \<longleftrightarrow> result = None \<and> ou_close o' = Inr 0 \<and> \<not> cc_unsettled c"
  by (auto simp: destroyed_def Let_def split: sum.splits if_splits)

lemma close_native_result:
  "\<exists>s1 r. snd (snd (close_native c o' s)) = snd (destroyed c o' r s1)
    \<and> (r = None \<longleftrightarrow> (\<exists>s2 acts. (if cc_abort c then (s, [StopThread], after_stop o' (cc_own c)) else ordered_close c o' s) = (s2, acts, Inr None)))"
proof -
  obtain s1 acts x where o: "(if cc_abort c then (s, [StopThread], after_stop o' (cc_own c)) else ordered_close c o' s) = (s1, acts, x)"
    by (rule prod_cases3)
  let ?r = "case x of Inr y \<Rightarrow> y | Inl e \<Rightarrow> Some (joined (cc_own c) (cc_what c @ '': the teardown raised '' @ e))"
  have "snd (snd (close_native c o' s)) = snd (destroyed c o' ?r s1)"
    unfolding close_native_def o by (simp add: Let_def split: prod.splits)
  moreover have "?r = None \<longleftrightarrow> x = Inr None" by (cases x) auto
  ultimately show ?thesis using o by (intro exI [of _ s1] exI [of _ ?r]) auto
qed

text \<open>
  A close is healthy exactly when everything was: no failure of this rank, the progress thread stopped, the native
  context was destroyed without a failed verbs call, its GPU work was shown complete, and, unless the close aborts,
  the group was usable, both rounds completed and no rank told a failure.
\<close>

theorem healthy_close_iff:
  "snd (snd (close_native c o' s)) = None \<longleftrightarrow>
    cc_own c = None \<and> ou_stop o' = None \<and> ou_close o' = Inr 0 \<and> \<not> cc_unsettled c
    \<and> (cc_abort c \<or> unusable (cc_group c) s = None
        \<and> completed (ou_round1 o') (note_of c 1 None) \<and> list_all (\<lambda>n. nt_failure n = None) (round1_notes o')
        \<and> completed (ou_round2 o') (note_of c 2 None))"
proof -
  obtain s1 r where r: "snd (snd (close_native c o' s)) = snd (destroyed c o' r s1)"
    "r = None \<longleftrightarrow> (\<exists>s2 acts. (if cc_abort c then (s, [StopThread], after_stop o' (cc_own c)) else ordered_close c o' s) = (s2, acts, Inr None))"
    using close_native_result by blast
  show ?thesis
  proof (cases "cc_abort c")
    case True
    have "r = None \<longleftrightarrow> cc_own c = None \<and> ou_stop o' = None"
      using r(2) True by (auto simp: after_stop_def split: option.splits)
    then show ?thesis using r(1) True by (auto simp: destroyed_None)
  next
    case False
    obtain s2 acts x where o: "ordered_close c o' s = (s2, acts, x)" by (rule prod_cases3)
    have "r = None \<longleftrightarrow> x = Inr None" using r(2) False o by auto
    moreover have "x = Inr None \<longleftrightarrow> cc_own c = None \<and> ou_stop o' = None \<and> unusable (cc_group c) s = None
        \<and> completed (ou_round1 o') (note_of c 1 None) \<and> list_all (\<lambda>n. nt_failure n = None) (round1_notes o')
        \<and> completed (ou_round2 o') (note_of c 2 None)"
      using ordered_close_cases [OF o] by (auto simp: peer_failure_None split: if_splits)
    ultimately show ?thesis using r(1) False by (auto simp: destroyed_None)
  qed
qed

text \<open>
  The arena outlives a close that could not release every RDMA object: it is kept for the rest of the process
  exactly when destroying the context raised or counted failed verbs calls, or the GPU work was not shown complete.
\<close>

theorem arena_kept_when_unsafe:
  assumes "close_native c o' s = (s', actions, result)" "cc_arena c = Some a"
  shows "tb_retained s' = tb_retained s @ (if ou_close o' \<noteq> Inr 0 \<or> cc_unsettled c then [a] else [])"
proof -
  have keep: "tb_retained (mark_unusable g why s) = tb_retained s" for g why by (simp add: mark_unusable_def)
  have o: "tb_retained (fst (ordered_close c o' s)) = tb_retained s"
    by (simp add: ordered_close_def Let_def keep split: option.splits)
  obtain s1 acts r where e: "(if cc_abort c then (s, [StopThread], after_stop o' (cc_own c)) else ordered_close c o' s) = (s1, acts, r)"
    by (rule prod_cases3)
  have s1: "tb_retained s1 = tb_retained s" using e o by (auto split: if_splits)
  have "s' = fst (destroyed c o' (case r of Inr x \<Rightarrow> x | Inl e \<Rightarrow> Some (joined (cc_own c) (cc_what c @ '': the teardown raised '' @ e))) s1)"
    using assms(1) unfolding close_native_def e by (auto simp: Let_def split: prod.splits)
  then show ?thesis using assms(2) s1 by (auto simp: destroyed_def Let_def retain_def split: sum.splits)
qed

section \<open>Groups whose rounds were given up\<close>

fun close_all :: "(CloseCall \<times> Outside) list \<Rightarrow> Tables \<Rightarrow> Tables \<times> (CloseCall \<times> action list) list" where
  "close_all [] s = (s, [])"
| "close_all ((c, o') # cs) s =
    (let (s1, actions, _) = close_native c o' s; (s2, logs) = close_all cs s1 in (s2, (c, actions) # logs))"

lemma close_native_unusable:
  assumes "unusable g s = Some why"
  shows "unusable g (fst (close_native c o' s)) = Some why"
proof -
  have mark: "unusable g (mark_unusable h w s) = Some why" for h w
    using assms by (auto simp: unusable_def mark_unusable_def)
  have o: "unusable g (fst (ordered_close c o' s)) = Some why"
    using assms mark by (simp add: ordered_close_def Let_def split: option.splits)
  have d: "unusable g (fst (destroyed c o' r t)) = unusable g t" for r t
    by (simp add: destroyed_def Let_def retain_def unusable_def split: option.splits)
  obtain s1 acts r where e: "(if cc_abort c then (s, [StopThread], after_stop o' (cc_own c)) else ordered_close c o' s) = (s1, acts, r)"
    by (rule prod_cases3)
  then have "unusable g s1 = Some why" using assms o by (auto split: if_splits)
  then show ?thesis unfolding close_native_def e by (simp add: Let_def split_def d)
qed

text \<open>
  A group whose round was given up is never used for a round again: once it is marked, every later close of a
  session or channel set on it stops and destroys without exchanging a note, and the first reason stays.
\<close>

theorem marked_group_stays_quiet:
  assumes "unusable g s = Some why" "close_all calls s = (s', logs)"
  shows "unusable g s' = Some why
    \<and> (\<forall>(c, actions)\<in>set logs. cc_group c = g \<longrightarrow> (\<forall>n. Exchange n \<notin> set actions))"
  using assms
proof (induction calls arbitrary: s logs)
  case (Cons call calls)
  obtain c o' where call: "call = (c, o')" by (cases call)
  obtain s1 actions r where c: "close_native c o' s = (s1, actions, r)" by (rule prod_cases3)
  obtain logs' where rest: "close_all calls s1 = (s', logs')" "logs = (c, actions) # logs'"
    using Cons.prems(2) call c by (auto simp: Let_def split: prod.splits)
  have u: "unusable g s1 = Some why" using close_native_unusable [OF Cons.prems(1), of c o'] c by simp
  have "Exchange n \<notin> set actions" if "cc_group c = g" for n
  proof (cases "cc_abort c")
    case True
    then show ?thesis using c by (auto simp: close_native_def Let_def split: prod.splits)
  next
    case False
    have "fst (snd (ordered_close c o' s)) = [StopThread]"
      using Cons.prems(1) that by (simp add: ordered_close_def)
    then show ?thesis using c False by (auto simp: close_native_def Let_def split: prod.splits)
  qed
  then show ?case using Cons.IH [OF u rest(1)] rest(2) by auto
qed simp


section \<open>A session of two ranks\<close>

definition two_rank_close :: CloseCall where
  "two_rank_close = \<lparr>cc_group = 7, cc_limit = ''65'', cc_what = ''session'', cc_kind = ''session'', cc_ordinal = 3,
    cc_own = None, cc_abort = False, cc_arena = Some 11, cc_unsettled = False\<rparr>"

definition clean_outside :: Outside where
  "clean_outside = \<lparr>ou_round1 = Answered [note_of two_rank_close 1 None, note_of two_rank_close 1 None],
    ou_round2 = Answered [note_of two_rank_close 2 None, note_of two_rank_close 2 None], ou_stop = None, ou_close = Inr 0\<rparr>"

definition no_tables :: Tables where
  "no_tables = \<lparr>tb_ordinals = [], tb_unusable = [], tb_retained = []\<rparr>"

theorem close_in_order_witness:
  "fst (snd (close_native two_rank_close clean_outside no_tables))
    = [Exchange (note_of two_rank_close 1 None), StopThread, Exchange (note_of two_rank_close 2 None), Destroy]"
proof -
  obtain s' actions result where e: "close_native two_rank_close clean_outside no_tables = (s', actions, result)" by (rule prod_cases3)
  from close_in_order [OF e] obtain before after where "actions = before @ StopThread # after @ [Destroy]"
    "before \<in> {[], [Exchange (note_of two_rank_close 1 (cc_own two_rank_close))]}"
    "after \<in> {[], [Exchange (note_of two_rank_close 2 None)]}" by blast
  moreover have "length (fst (snd (close_native two_rank_close clean_outside no_tables))) = 4" by code_simp
  ultimately show ?thesis using e by (auto simp: two_rank_close_def)
qed

theorem arena_kept_when_unsafe_witness:
  "\<exists>s' actions result. close_native two_rank_close (clean_outside\<lparr>ou_close := Inr 2\<rparr>) no_tables = (s', actions, result)
    \<and> tb_retained s' = [11]"
proof -
  obtain s' actions result where e: "close_native two_rank_close (clean_outside\<lparr>ou_close := Inr 2\<rparr>) no_tables = (s', actions, result)"
    by (rule prod_cases3)
  have "cc_arena two_rank_close = Some 11" by (simp add: two_rank_close_def)
  from arena_kept_when_unsafe [OF e this] e show ?thesis by (simp add: no_tables_def)
qed

theorem marked_group_stays_quiet_witness:
  "\<exists>s' logs. close_all [(two_rank_close, clean_outside), (two_rank_close, clean_outside)]
      (no_tables\<lparr>tb_unusable := [(7, ''gone'')]\<rparr>) = (s', logs)
    \<and> unusable 7 s' = Some ''gone'' \<and> (\<forall>(c, actions)\<in>set logs. \<forall>n. cc_group c = 7 \<longrightarrow> Exchange n \<notin> set actions)"
proof -
  let ?s = "no_tables\<lparr>tb_unusable := [(7, ''gone'')]\<rparr>"
  obtain s' logs where e: "close_all [(two_rank_close, clean_outside), (two_rank_close, clean_outside)] ?s = (s', logs)"
    by (rule prod.exhaust)
  have "unusable 7 ?s = Some ''gone''" by code_simp
  from marked_group_stays_quiet [OF this e] e show ?thesis by fastforce
qed

end
