(* ===== verification/TeardownGroup.thy ===== *)
theory TeardownGroup
  imports Teardown
begin

text \<open>
  The rounds of a whole group: every rank runs its closes by the steps of \<open>ordered_close\<close> (\<open>teardown.py\<close>), in any
  interleaving, over a process group whose collectives pair by the order in which each rank issues them.  The one
  assumption on the process group is what an all-gather is documented to do: the k-th collective a rank issues returns
  once every rank has issued its k-th, and returns what each of them issued, in rank order.  A round may be given up at
  any moment, other users of the group may issue collectives of their own, and ranks may close different objects.
\<close>

section \<open>Members and steps\<close>

type_synonym close_id = "string \<times> int"

text \<open>
  Where a rank is in \<open>ordered_close\<close>: outside a close, waiting in round 1 on its k-th collective, past round 1, past its
  own \<open>stop()\<close>, or waiting in round 2.
\<close>

datatype stage = Outside_close | In_round1 close_id nat | Past_round1 close_id | Past_stop close_id | In_round2 close_id nat

record Member =
  mb_at :: stage
  mb_issued :: "Note list"
  mb_ready :: "close_id list"
  mb_healthy :: "close_id list"
  mb_stopped :: "close_id list"
  mb_quiet :: "close_id list"
  mb_dead :: bool

definition fresh_member :: Member where
  "fresh_member = \<lparr>mb_at = Outside_close, mb_issued = [], mb_ready = [], mb_healthy = [], mb_stopped = [], mb_quiet = [],
    mb_dead = False\<rparr>"

definition id_note :: "close_id \<Rightarrow> int \<Rightarrow> string option \<Rightarrow> Note" where
  "id_note c phase failure = \<lparr>nt_kind = fst c, nt_ordinal = snd c, nt_phase = phase, nt_failure = failure\<rparr>"

text \<open>The k-th collective of the group, once every rank has issued it.\<close>

definition gathered :: "Member list \<Rightarrow> nat \<Rightarrow> Note list option" where
  "gathered ms k = (if list_all (\<lambda>m. k < length (mb_issued m)) ms then Some (map (\<lambda>m. mb_issued m ! k) ms) else None)"

definition arrives :: "Member list \<Rightarrow> nat \<Rightarrow> Note \<Rightarrow> bool" where
  "arrives ms k mine = (case gathered ms k of None \<Rightarrow> False | Some ns \<Rightarrow> completed (Answered ns) mine)"

datatype step =
  Begin close_id "string option"
| Arrive1 close_id
| Stop close_id
| Begin2 close_id
| Arrive2 close_id
| Give_up close_id
| Close_alone close_id
| Foreign Note

inductive rank_step :: "Member list \<Rightarrow> Member \<Rightarrow> step \<Rightarrow> Member \<Rightarrow> bool" for ms :: "Member list" where
  begins: "mb_at m = Outside_close \<Longrightarrow> \<not> mb_dead m \<Longrightarrow> c \<notin> set (mb_ready m) \<Longrightarrow> rank_step ms m (Begin c own)
    (m\<lparr>mb_at := In_round1 c (length (mb_issued m)), mb_issued := mb_issued m @ [id_note c 1 own], mb_ready := c # mb_ready m\<rparr>)"
| arrives1: "mb_at m = In_round1 c k \<Longrightarrow> arrives ms k (mb_issued m ! k) \<Longrightarrow> rank_step ms m (Arrive1 c)
    (m\<lparr>mb_at := Past_round1 c, mb_healthy := c # mb_healthy m\<rparr>)"
| stops: "mb_at m = Past_round1 c \<Longrightarrow> rank_step ms m (Stop c)
    (m\<lparr>mb_at := Past_stop c, mb_stopped := c # mb_stopped m\<rparr>)"
| begins2: "mb_at m = Past_stop c \<Longrightarrow> rank_step ms m (Begin2 c)
    (m\<lparr>mb_at := In_round2 c (length (mb_issued m)), mb_issued := mb_issued m @ [id_note c 2 None]\<rparr>)"
| arrives2: "mb_at m = In_round2 c k \<Longrightarrow> arrives ms k (mb_issued m ! k) \<Longrightarrow> rank_step ms m (Arrive2 c)
    (m\<lparr>mb_at := Outside_close, mb_quiet := c # mb_quiet m\<rparr>)"
| gives_up1: "mb_at m = In_round1 c k \<Longrightarrow> rank_step ms m (Give_up c)
    (m\<lparr>mb_at := Outside_close, mb_stopped := c # mb_stopped m, mb_dead := True\<rparr>)"
| gives_up2: "mb_at m \<in> {Past_stop c, In_round2 c k} \<Longrightarrow> rank_step ms m (Give_up c)
    (m\<lparr>mb_at := Outside_close, mb_dead := True\<rparr>)"
| alone: "mb_at m = Outside_close \<Longrightarrow> rank_step ms m (Close_alone c)
    (m\<lparr>mb_stopped := c # mb_stopped m, mb_dead := d\<rparr>)"
| foreign: "nt_phase n = 0 \<Longrightarrow> rank_step ms m (Foreign n) (m\<lparr>mb_issued := mb_issued m @ [n]\<rparr>)"

inductive_cases rank_stepE: "rank_step ms m l m'"

definition group_step :: "Member list \<Rightarrow> step \<Rightarrow> Member list \<Rightarrow> bool" where
  "group_step ms l ms' \<longleftrightarrow> (\<exists>r < length ms. \<exists>m. rank_step ms (ms ! r) l m \<and> ms' = ms[r := m])"

inductive reached :: "nat \<Rightarrow> Member list \<Rightarrow> bool" for world where
  initial: "reached world (replicate world fresh_member)"
| moved: "reached world ms \<Longrightarrow> group_step ms l ms' \<Longrightarrow> reached world ms'"

section \<open>What a note tells\<close>

definition note_true :: "Member \<Rightarrow> Note \<Rightarrow> bool" where
  "note_true m n \<longleftrightarrow> (nt_phase n = 1 \<longrightarrow> (nt_kind n, nt_ordinal n) \<in> set (mb_ready m))
    \<and> (nt_phase n = 2 \<longrightarrow> (nt_kind n, nt_ordinal n) \<in> set (mb_stopped m))"

definition waits_for :: "Member \<Rightarrow> bool" where
  "waits_for m \<longleftrightarrow> (case mb_at m of
     In_round1 c k \<Rightarrow> k < length (mb_issued m) \<and> (\<exists>f. mb_issued m ! k = id_note c 1 f)
   | In_round2 c k \<Rightarrow> k < length (mb_issued m) \<and> mb_issued m ! k = id_note c 2 None
   | Past_stop c \<Rightarrow> c \<in> set (mb_stopped m)
   | _ \<Rightarrow> True)"

definition member_ok :: "Member \<Rightarrow> bool" where
  "member_ok m \<longleftrightarrow> list_all (note_true m) (mb_issued m) \<and> waits_for m"

definition agreed :: "Member list \<Rightarrow> bool" where
  "agreed ms \<longleftrightarrow> (\<forall>m\<in>set ms. member_ok m
    \<and> (\<forall>c\<in>set (mb_healthy m). \<forall>m'\<in>set ms. c \<in> set (mb_ready m'))
    \<and> (\<forall>c\<in>set (mb_quiet m). \<forall>m'\<in>set ms. c \<in> set (mb_stopped m')))"

lemma note_true_mono:
  "note_true m n \<Longrightarrow> set (mb_ready m) \<subseteq> set (mb_ready m') \<Longrightarrow> set (mb_stopped m) \<subseteq> set (mb_stopped m') \<Longrightarrow> note_true m' n"
  by (auto simp: note_true_def)

lemma rank_step_grows:
  "rank_step ms m l m' \<Longrightarrow> set (mb_ready m) \<subseteq> set (mb_ready m') \<and> set (mb_stopped m) \<subseteq> set (mb_stopped m')
    \<and> (\<exists>ns. mb_issued m' = mb_issued m @ ns)"
  by (erule rank_step.cases) auto

lemma rank_step_member:
  assumes "rank_step ms m l m'" "member_ok m"
  shows "member_ok m'"
proof -
  have old: "list_all (note_true m') (mb_issued m)"
    using assms rank_step_grows [OF assms(1)] note_true_mono [of m _ m'] by (auto simp: member_ok_def list_all_iff)
  then have told: "list_all (note_true m') (mb_issued m')" if "\<forall>n. mb_issued m' = mb_issued m @ [n] \<longrightarrow> note_true m' n"
    "mb_issued m' = mb_issued m \<or> (\<exists>n. mb_issued m' = mb_issued m @ [n])" using that by auto
  show ?thesis using assms(1)
  proof cases
    case (begins c own)
    then show ?thesis using told by (auto simp: member_ok_def waits_for_def note_true_def id_note_def)
  next
    case (begins2 c)
    then have "c \<in> set (mb_stopped m)" using assms(2) by (simp add: member_ok_def waits_for_def)
    then show ?thesis using begins2 told by (auto simp: member_ok_def waits_for_def note_true_def id_note_def)
  next
    case (foreign n)
    then have "list_all (note_true m') (mb_issued m')" using told by (auto simp: note_true_def)
    moreover have "waits_for m'" using assms(2) foreign
      by (auto simp: member_ok_def waits_for_def nth_append split: stage.splits)
    ultimately show ?thesis by (simp add: member_ok_def)
  qed (use old in \<open>auto simp: member_ok_def waits_for_def\<close>)
qed

lemma arrives_all:
  assumes "arrives ms k mine" "m \<in> set ms"
  shows "\<exists>n\<in>set (mb_issued m). same_close mine n"
  using assms by (auto simp: arrives_def gathered_def completed_def list_all_iff split: if_splits)

lemma same_id_note: "same_close (id_note c p f) n \<Longrightarrow> (nt_kind n, nt_ordinal n) = c \<and> nt_phase n = p"
  by (cases c) (auto simp: same_close_def id_note_def)

lemma rank_step_new:
  assumes "rank_step ms m l m'" "\<forall>x\<in>set ms. member_ok x" "m \<in> set ms"
  shows "(\<forall>c\<in>set (mb_healthy m'). c \<in> set (mb_healthy m) \<or> (\<forall>x\<in>set ms. c \<in> set (mb_ready x)))
    \<and> (\<forall>c\<in>set (mb_quiet m'). c \<in> set (mb_quiet m) \<or> (\<forall>x\<in>set ms. c \<in> set (mb_stopped x)))"
proof -
  have w: "waits_for m" using assms(2,3) by (simp add: member_ok_def)
  have told: "note_true x n" if "x \<in> set ms" "n \<in> set (mb_issued x)" for x n
    using assms(2) that by (simp add: member_ok_def list_all_iff)
  show ?thesis using assms(1)
  proof cases
    case (arrives1 c k)
    have "c \<in> set (mb_ready x)" if x: "x \<in> set ms" for x
    proof -
      obtain n where n: "n \<in> set (mb_issued x)" "same_close (mb_issued m ! k) n" using arrives_all [OF arrives1(4) x] by blast
      obtain f where "mb_issued m ! k = id_note c 1 f" using w arrives1 by (auto simp: waits_for_def)
      then show ?thesis using n told [OF x n(1)] same_id_note [of c 1 f n] by (auto simp: note_true_def)
    qed
    then show ?thesis using arrives1 by auto
  next
    case (arrives2 c k)
    have "c \<in> set (mb_stopped x)" if x: "x \<in> set ms" for x
    proof -
      obtain n where n: "n \<in> set (mb_issued x)" "same_close (mb_issued m ! k) n" using arrives_all [OF arrives2(4) x] by blast
      have "mb_issued m ! k = id_note c 2 None" using w arrives2 by (auto simp: waits_for_def)
      then show ?thesis using n told [OF x n(1)] same_id_note [of c 2 None n] by (auto simp: note_true_def)
    qed
    then show ?thesis using arrives2 by auto
  qed auto
qed

lemma group_step_agreed:
  assumes "group_step ms l ms'" "agreed ms"
  shows "agreed ms'"
proof -
  obtain r m where r: "r < length ms" "rank_step ms (ms ! r) l m" "ms' = ms[r := m]"
    using assms(1) by (auto simp: group_step_def)
  have ok: "\<forall>x\<in>set ms. member_ok x" and old: "ms ! r \<in> set ms" using assms(2) r by (auto simp: agreed_def)
  have in': "x \<in> set ms' \<Longrightarrow> x = m \<or> x \<in> set ms" for x using r set_update_subset_insert [of ms r m] by auto
  have m: "member_ok m" using rank_step_member [OF r(2)] ok old by blast
  have grows: "\<exists>y\<in>set ms. set (mb_ready y) \<subseteq> set (mb_ready x) \<and> set (mb_stopped y) \<subseteq> set (mb_stopped x)" if "x \<in> set ms'" for x
    using in' [OF that] rank_step_grows [OF r(2)] old by blast
  have everywhere: "\<forall>x\<in>set ms'. c \<in> set (mb_ready x)" if "\<forall>x\<in>set ms. c \<in> set (mb_ready x)" for c using grows that by blast
  have everywhere2: "\<forall>x\<in>set ms'. c \<in> set (mb_stopped x)" if "\<forall>x\<in>set ms. c \<in> set (mb_stopped x)" for c using grows that by blast
  have inv: "\<forall>c\<in>set (mb_healthy x). \<forall>y\<in>set ms. c \<in> set (mb_ready y)" "\<forall>c\<in>set (mb_quiet x). \<forall>y\<in>set ms. c \<in> set (mb_stopped y)"
    if "x \<in> set ms" for x using assms(2) that by (auto simp: agreed_def)
  show ?thesis unfolding agreed_def
  proof (intro ballI conjI)
    fix x assume x: "x \<in> set ms'"
    show "member_ok x" using in' [OF x] m ok by blast
    show "c \<in> set (mb_ready y)" if "c \<in> set (mb_healthy x)" "y \<in> set ms'" for c y
    proof -
      have "\<forall>z\<in>set ms. c \<in> set (mb_ready z)" using in' [OF x] that(1) inv(1) rank_step_new [OF r(2) ok old] old by blast
      then show ?thesis using everywhere that(2) by blast
    qed
    show "c \<in> set (mb_stopped y)" if "c \<in> set (mb_quiet x)" "y \<in> set ms'" for c y
    proof -
      have "\<forall>z\<in>set ms. c \<in> set (mb_stopped z)" using in' [OF x] that(1) inv(2) rank_step_new [OF r(2) ok old] old by blast
      then show ?thesis using everywhere2 that(2) by blast
    qed
  qed
qed

lemma reached_agreed: "reached world ms \<Longrightarrow> agreed ms"
proof (induction rule: reached.induct)
  case initial
  show ?case by (auto simp: agreed_def fresh_member_def member_ok_def waits_for_def)
qed (rule group_step_agreed)

text \<open>
  C32: no rank destroys what a peer may still write to: in every reachable state of a group, whatever the interleaving,
  the rounds given up, the objects other ranks close and the other collectives on the group, a rank that completed
  round 2 of a close has every rank's progress thread of that close stopped, and one that completed round 1 has
  every rank's own work done.
\<close>

theorem rounds_order_group:
  assumes "reached world ms" "m \<in> set ms" "m' \<in> set ms"
  shows "(c \<in> set (mb_quiet m) \<longrightarrow> c \<in> set (mb_stopped m')) \<and> (c \<in> set (mb_healthy m) \<longrightarrow> c \<in> set (mb_ready m'))"
  using reached_agreed [OF assms(1)] assms(2,3) by (auto simp: agreed_def)


section \<open>A close that nobody gives up\<close>

text \<open>The steps of a group whose ranks all close one object, without giving up and without other collectives.\<close>

definition calm :: "close_id \<Rightarrow> step set" where
  "calm c = {Begin c own |own. True} \<union> {Arrive1 c, Stop c, Begin2 c, Arrive2 c}"

inductive calm_run :: "close_id \<Rightarrow> nat \<Rightarrow> nat \<Rightarrow> Member list \<Rightarrow> bool" for c world where
  start: "calm_run c world 0 (replicate world fresh_member)"
| proceed: "calm_run c world k ms \<Longrightarrow> group_step ms l ms' \<Longrightarrow> l \<in> calm c \<Longrightarrow> calm_run c world (Suc k) ms'"

text \<open>How far a member is: what it issued, and the steps it has left.\<close>

definition progress :: "close_id \<Rightarrow> Member \<Rightarrow> nat \<Rightarrow> bool" where
  "progress c m k \<longleftrightarrow> \<not> mb_dead m \<and> (k < 5 \<longrightarrow> c \<in> set (mb_ready m)) \<and> (\<exists>f.
    (k = 5 \<and> mb_at m = Outside_close \<and> mb_issued m = [] \<and> c \<notin> set (mb_ready m))
    \<or> (k = 4 \<and> mb_at m = In_round1 c 0 \<and> mb_issued m = [id_note c 1 f])
    \<or> (k = 3 \<and> mb_at m = Past_round1 c \<and> mb_issued m = [id_note c 1 f])
    \<or> (k = 2 \<and> mb_at m = Past_stop c \<and> mb_issued m = [id_note c 1 f])
    \<or> (k = 1 \<and> mb_at m = In_round2 c 1 \<and> mb_issued m = [id_note c 1 f, id_note c 2 None])
    \<or> (k = 0 \<and> mb_at m = Outside_close \<and> c \<in> set (mb_quiet m) \<and> mb_issued m = [id_note c 1 f, id_note c 2 None]))"

definition steps_left :: "close_id \<Rightarrow> Member \<Rightarrow> nat" where
  "steps_left c m = (case mb_at m of
     Outside_close \<Rightarrow> if c \<in> set (mb_quiet m) then 0 else 5
   | In_round1 _ _ \<Rightarrow> 4 | Past_round1 _ \<Rightarrow> 3 | Past_stop _ \<Rightarrow> 2 | In_round2 _ _ \<Rightarrow> 1)"

definition on_course :: "close_id \<Rightarrow> Member \<Rightarrow> bool" where
  "on_course c m \<longleftrightarrow> progress c m (steps_left c m)"

lemma calm_rank_step:
  assumes "rank_step ms m l m'" "l \<in> calm c" "on_course c m"
  shows "on_course c m' \<and> Suc (steps_left c m') = steps_left c m"
  using assms(1)
proof cases
  case (begins d own)
  then have "d = c" using assms(2) by (auto simp: calm_def)
  then have "c \<notin> set (mb_quiet m)" using begins assms(3) by (auto simp: on_course_def progress_def steps_left_def split: if_splits)
  then show ?thesis using begins assms(3) \<open>d = c\<close> by (auto simp: on_course_def progress_def steps_left_def)
next
  case (arrives1 d k)
  then show ?thesis using assms(3) by (auto simp: on_course_def progress_def steps_left_def)
next
  case (stops d)
  then show ?thesis using assms(3) by (auto simp: on_course_def progress_def steps_left_def)
next
  case (begins2 d)
  then show ?thesis using assms(3) by (auto simp: on_course_def progress_def steps_left_def)
next
  case (arrives2 d k)
  then show ?thesis using assms(2,3) by (auto simp: on_course_def progress_def steps_left_def calm_def)
qed (use assms(2) in \<open>auto simp: calm_def\<close>)


lemma calm_arrives:
  assumes "\<forall>m\<in>set ms. k < length (mb_issued m) \<and> (\<exists>f. mb_issued m ! k = id_note c p f)"
  shows "arrives ms k (id_note c p f)"
  using assms by (auto simp: arrives_def gathered_def list_all_iff completed_def same_close_def id_note_def)

lemma on_course_bound: "on_course c m \<Longrightarrow> steps_left c m \<le> 5"
  by (auto simp: on_course_def progress_def)

lemma on_course_quiet: "on_course c m \<Longrightarrow> c \<in> set (mb_quiet m) \<Longrightarrow> mb_at m = Outside_close \<Longrightarrow> steps_left c m = 0"
  by (simp add: steps_left_def)

lemma group_stepI: "m \<in> set ms \<Longrightarrow> rank_step ms m l m' \<Longrightarrow> \<exists>ms'. group_step ms l ms'"
  by (auto simp: group_step_def in_set_conv_nth)

lemma calm_step_exists:
  assumes "\<forall>m\<in>set ms. on_course c m" "m \<in> set ms" "steps_left c m \<noteq> 0"
  shows "\<exists>l ms'. l \<in> calm c \<and> group_step ms l ms'"
proof -
  have can: "\<exists>l ms'. l \<in> calm c \<and> group_step ms l ms'" if "x \<in> set ms" "rank_step ms x l x'" "l \<in> calm c" for x l x'
    using group_stepI [OF that(1,2)] that(3) by blast
  have p: "progress c x (steps_left c x)" if "x \<in> set ms" for x using assms(1) that by (simp add: on_course_def)
  consider (idle) x where "x \<in> set ms" "steps_left c x = 5"
    | (free) x where "x \<in> set ms" "steps_left c x \<in> {2, 3}"
    | (round1) x where "x \<in> set ms" "steps_left c x = 4" "\<forall>y\<in>set ms. steps_left c y \<noteq> 5"
    | (round2) "\<forall>y\<in>set ms. steps_left c y \<in> {0, 1}" "steps_left c m = 1"
  proof -
    have "steps_left c y \<in> {0, 1, 2, 3, 4, 5}" if "y \<in> set ms" for y
      using on_course_bound [of c y] assms(1) that by auto
    then show ?thesis using that assms(2,3) by (metis insert_iff empty_iff)
  qed
  then show ?thesis
  proof cases
    case idle
    then have "mb_at x = Outside_close" "\<not> mb_dead x" "c \<notin> set (mb_ready x)" using p [OF idle(1)] by (auto simp: progress_def)
    then show ?thesis using can [OF idle(1) rank_step.begins [where own = None]] by (auto simp: calm_def)
  next
    case free
    then have "mb_at x = Past_round1 c \<or> mb_at x = Past_stop c" using p [OF free(1)] by (auto simp: progress_def)
    then show ?thesis
    proof
      assume "mb_at x = Past_round1 c"
      then show ?thesis using can [OF free(1) rank_step.stops] by (auto simp: calm_def)
    next
      assume "mb_at x = Past_stop c"
      then show ?thesis using can [OF free(1) rank_step.begins2] by (auto simp: calm_def)
    qed
  next
    case round1
    have "0 < length (mb_issued y) \<and> (\<exists>f. mb_issued y ! 0 = id_note c 1 f)" if "y \<in> set ms" for y
      using p [OF that] round1(3) that by (auto simp: progress_def)
    then have "arrives ms 0 (id_note c 1 f)" for f by (intro calm_arrives) blast
    moreover obtain f where "mb_at x = In_round1 c 0" "mb_issued x ! 0 = id_note c 1 f"
      using p [OF round1(1)] round1(2) by (auto simp: progress_def)
    ultimately show ?thesis using can [OF round1(1) rank_step.arrives1] by (auto simp: calm_def)
  next
    case round2
    have "1 < length (mb_issued y) \<and> (\<exists>f. mb_issued y ! 1 = id_note c 2 f)" if "y \<in> set ms" for y
      using p [OF that] round2(1) that by (auto simp: progress_def)
    then have "arrives ms 1 (id_note c 2 None)" by (intro calm_arrives) blast
    moreover have "mb_at m = In_round2 c 1" "mb_issued m ! 1 = id_note c 2 None"
      using p [OF assms(2)] round2(2) by (auto simp: progress_def)
    ultimately show ?thesis using can [OF assms(2) rank_step.arrives2] by (auto simp: calm_def)
  qed
qed

lemma calm_run_course:
  "calm_run c world k ms \<Longrightarrow> length ms = world \<and> (\<forall>m\<in>set ms. on_course c m) \<and> sum_list (map (steps_left c) ms) + k = 5 * world"
proof (induction rule: calm_run.induct)
  case start
  have "on_course c fresh_member" "steps_left c fresh_member = 5"
    by (simp_all add: on_course_def progress_def steps_left_def fresh_member_def)
  then show ?case by (simp add: sum_list_replicate)
next
  case (proceed k ms l ms')
  obtain r m where r: "r < length ms" "rank_step ms (ms ! r) l m" "ms' = ms[r := m]"
    using proceed.hyps(2) by (auto simp: group_step_def)
  have s: "on_course c m" "Suc (steps_left c m) = steps_left c (ms ! r)"
    using calm_rank_step [OF r(2) proceed.hyps(3)] proceed.IH r(1) by auto
  have "sum_list (map (steps_left c) ms') + steps_left c (ms ! r) = sum_list (map (steps_left c) ms) + steps_left c m"
    using r(1,3) sum_list_update [of r "map (steps_left c) ms" "steps_left c m"]
      elem_le_sum_list [of r "map (steps_left c) ms"] by (simp add: map_update)
  then have "sum_list (map (steps_left c) ms') + Suc k = 5 * world" using s(2) proceed.IH by linarith
  moreover have "\<forall>x\<in>set ms'. on_course c x" using r(3) s(1) proceed.IH set_update_subset_insert [of ms r m] by blast
  ultimately show ?case using r(3) proceed.IH by simp
qed



lemma calm_run_extends: "k \<le> 5 * world \<Longrightarrow> \<exists>ms. calm_run c world k ms"
proof (induction k)
  case 0
  show ?case by (rule exI, rule calm_run.start)
next
  case (Suc k)
  then obtain ms where ms: "calm_run c world k ms" by auto
  have "\<exists>m\<in>set ms. steps_left c m \<noteq> 0"
    using calm_run_course [OF ms] Suc.prems by (metis less_irrefl plus_nat.add_0 sum_list_eq_0_iff in_set_conv_nth nth_map length_map Suc_le_eq)
  then show ?case using calm_step_exists calm_run_course [OF ms] calm_run.proceed [OF ms] by blast
qed

lemma calm_run_reached: "calm_run c world k ms \<Longrightarrow> reached world ms"
  by (induction rule: calm_run.induct) (auto intro: reached.intros)


theorem rounds_order_group_witness:
  "\<exists>ms. reached 2 ms \<and> length ms = 2 \<and> (''session'', 0) \<in> set (mb_quiet (ms ! 0)) \<and> (''session'', 0) \<in> set (mb_stopped (ms ! 1))"
proof -
  obtain ms where ms: "calm_run (''session'', 0) 2 10 ms" using calm_run_extends [of 10 2] by auto
  have c: "length ms = 2" "\<forall>m\<in>set ms. steps_left (''session'', 0) m = 0"
    using calm_run_course [OF ms] by (auto simp: sum_list_eq_0_iff)
  have "ms ! 0 \<in> set ms" "ms ! 1 \<in> set ms" using c(1) by auto
  moreover from this have "(''session'', 0) \<in> set (mb_quiet (ms ! 0))"
    using c(2) by (fastforce simp: steps_left_def split: stage.splits if_splits)
  ultimately show ?thesis using rounds_order_group [OF calm_run_reached [OF ms], of "ms ! 0" "ms ! 1"] calm_run_reached [OF ms] c(1)
    by blast
qed

end
