(* ===== verification/RankGroups.thy ===== *)
theory RankGroups
  imports Prelude
begin

text \<open>
  vLLM's rank layout for tensor-parallel and decode-context-parallel groups
  (\<open>spark_transport/sircl/sparkring_sircl/groups.py\<close>): global ranks in the order external x DP x PP x PCP x TP.
\<close>

section \<open>Blocks\<close>

function chop :: "nat \<Rightarrow> 'a list \<Rightarrow> 'a list list" where
  "chop k xs = (if k = 0 \<or> xs = [] then [] else take k xs # chop k (drop k xs))"
  by pat_completeness auto

termination chop
  by (relation "measure (\<lambda>(k, xs). length xs)") auto

declare chop.simps [simp del]

lemma concat_chop [simp]: "0 < k \<Longrightarrow> concat (chop k xs) = xs"
  by (induction k xs rule: chop.induct) (subst chop.simps, auto)

lemma chop_each: "k dvd length xs \<Longrightarrow> ys \<in> set (chop k xs) \<Longrightarrow> length ys = k"
proof (induction k xs rule: chop.induct)
  case (1 k xs)
  show ?case
  proof (cases "k = 0 \<or> xs = []")
    case False
    then have "k \<le> length xs" using 1(2) by (simp add: dvd_imp_le)
    moreover have "ys = take k xs \<or> ys \<in> set (chop k (drop k xs))" using 1(3) False by (subst (asm) chop.simps) auto
    moreover have "k dvd length (drop k xs)" using 1(2) \<open>k \<le> length xs\<close> by simp
    ultimately show ?thesis using 1(1) False by auto
  qed (use 1(3) in \<open>auto simp: chop.simps [of k xs]\<close>)
qed

lemma length_chop: "0 < k \<Longrightarrow> k dvd length xs \<Longrightarrow> length (chop k xs) = length xs div k"
proof -
  assume k: "0 < k" "k dvd length xs"
  have "length (concat yss) = length yss * k" if "\<forall>ys\<in>set yss. length ys = k" for yss :: "'a list list"
    using that by (induction yss) auto
  then have "length (concat (chop k xs)) = length (chop k xs) * k" using chop_each [OF k(2)] by blast
  then show ?thesis using k by simp
qed

text \<open>The blocks of a multiple of the block size are the blocks of the blocks.\<close>

lemma chop_append: "k dvd length xs \<Longrightarrow> chop k (xs @ ys) = chop k xs @ chop k ys"
proof (induction k xs rule: chop.induct)
  case (1 k xs)
  show ?case
  proof (cases "k = 0 \<or> xs = []")
    case True
    then show ?thesis by (auto simp: chop.simps [of k xs] chop.simps [of 0])
  next
    case False
    then have "k \<le> length xs" using 1(2) by (simp add: dvd_imp_le)
    then show ?thesis using 1 False by (simp add: chop.simps [of k "xs @ ys"] chop.simps [of k xs])
  qed
qed

section \<open>The layout\<close>

text \<open>Ranks are taken one after another from \<open>range(world)\<close>: rows of \<open>tp\<close>, \<open>pcp\<close> rows to a stage, and so on.\<close>

definition rank_layout :: "int \<Rightarrow> int \<Rightarrow> int \<Rightarrow> int \<Rightarrow> int \<Rightarrow> py_error + int list list list list list" where
  "rank_layout world tp pcp pp dp =
    (if world < 1 \<or> tp < 1 \<or> pcp < 1 \<or> pp < 1 \<or> dp < 1 then Inl (ValueErr ''group sizes must be positive'' [])
     else let inner = dp * pp * pcp * tp in
       if world mod inner \<noteq> 0 then Inl (ValueErr ''world size is not a multiple of DP*PP*PCP*TP'' [world, inner])
       else Inr (chop (nat dp) (chop (nat pp) (chop (nat pcp) (chop (nat tp) (py_range world))))))"

definition tp_groups :: "int \<Rightarrow> int \<Rightarrow> int \<Rightarrow> int \<Rightarrow> int \<Rightarrow> py_error + int list list" where
  "tp_groups world tp pcp pp dp = bind_res (rank_layout world tp pcp pp dp) (\<lambda>layout. Inr (concat (concat (concat layout))))"

text \<open>One stage in DCP order: along the prefill dimension first when there is more than one DCP rank.\<close>

definition stage_order :: "int \<Rightarrow> int \<Rightarrow> int \<Rightarrow> int list list \<Rightarrow> int list" where
  "stage_order tp pcp dcp stage = (if dcp > 1
    then concat (map (\<lambda>t. map (\<lambda>c. stage ! nat c ! nat t) (py_range pcp)) (py_range tp)) else concat stage)"

definition dcp_groups :: "int \<Rightarrow> int \<Rightarrow> int \<Rightarrow> int \<Rightarrow> int \<Rightarrow> int \<Rightarrow> py_error + int list list" where
  "dcp_groups world tp dcp pcp pp dp =
    bind_res (rank_layout world tp pcp pp dp) (\<lambda>layout.
    if dcp < 1 then Inl (ValueErr ''dcp must be positive'' [])
    else let flat = concat (map (stage_order tp pcp dcp) (concat (concat layout))) in
      if int (length flat) mod dcp \<noteq> 0
      then Inl (ValueErr ''ranks do not divide into DCP groups'' [int (length flat), dcp])
      else Inr (chop (nat dcp) flat))"

definition nodes_of :: "int list \<Rightarrow> string list \<Rightarrow> py_error + string list" where
  "nodes_of ranks rank_nodes = (case map_res (py_index rank_nodes) ranks of
     Inl e \<Rightarrow> Inl (ValueErr ''ranks exceed the configured rank nodes'' (ranks @ [int (length rank_nodes)]))
   | Inr names \<Rightarrow> Inr names)"

section \<open>Every rank once\<close>

lemma rank_layout_parts:
  assumes "rank_layout world tp pcp pp dp = Inr layout"
  shows "1 \<le> tp \<and> 1 \<le> pcp \<and> 1 \<le> pp \<and> 1 \<le> dp \<and> 1 \<le> world
    \<and> concat (concat layout) = chop (nat pcp) (chop (nat tp) (py_range world))
    \<and> nat tp dvd nat world \<and> nat pcp dvd length (chop (nat tp) (py_range world))"
proof -
  have p: "1 \<le> tp" "1 \<le> pcp" "1 \<le> pp" "1 \<le> dp" "1 \<le> world" "world mod (dp * pp * pcp * tp) = 0"
    and l: "layout = chop (nat dp) (chop (nat pp) (chop (nat pcp) (chop (nat tp) (py_range world))))"
    using assms by (auto simp: rank_layout_def Let_def split: if_splits)
  have "pcp * tp dvd world" using p(6) by (metis dvd_mult_right mod_0_imp_dvd mult.assoc)
  then have d: "nat pcp * nat tp dvd nat world" using p by (metis nat_mult_distrib int_dvd_int_iff nat_0_le order_trans zero_le_one mult_nonneg_nonneg)
  then have t: "nat tp dvd nat world" by (rule dvd_mult_right)
  have "length (chop (nat tp) (py_range world)) = nat world div nat tp"
    using length_chop [of "nat tp" "py_range world"] t p by simp
  moreover have "nat pcp dvd nat world div nat tp" using d p by (simp add: dvd_div_iff_mult [OF _ t])
  ultimately show ?thesis using p l t by simp
qed

text \<open>A stage read column by column holds the ranks of the stage.\<close>

lemma columns_mset:
  assumes "length stage = c" "\<forall>row\<in>set stage. length row = t"
  shows "mset (concat (map (\<lambda>j. map (\<lambda>i. stage ! i ! j) [0..<c]) [0..<t])) = mset (concat stage)"
  using assms
proof (induction stage arbitrary: c)
  case Nil
  then show ?case by simp
next
  case (Cons row rows)
  have u: "[0..<c] = 0 # map Suc [0..<length rows]" using Cons.prems(1) by (simp add: upt_conv_Cons map_Suc_upt)
  have "mset (concat (map (\<lambda>j. map (\<lambda>i. (row # rows) ! i ! j) [0..<c]) js))
    = mset (map ((!) row) js) + mset (concat (map (\<lambda>j. map (\<lambda>i. rows ! i ! j) [0..<length rows]) js))" for js
    by (induction js) (simp_all add: u o_def)
  note split = this [of "[0..<t]"]
  have "map ((!) row) [0..<t] = row" using Cons.prems(2) map_nth [of row] by simp
  then show ?case unfolding split using Cons.IH [OF refl] Cons.prems(2) by (simp only:) simp
qed

lemma stage_order_mset:
  assumes "length stage = nat pcp" "\<forall>row\<in>set stage. length row = nat tp"
  shows "mset (stage_order tp pcp dcp stage) = mset (concat stage)"
  using columns_mset [OF assms] by (simp add: stage_order_def py_range_map o_def)

lemma flat_mset:
  assumes "rank_layout world tp pcp pp dp = Inr layout"
  shows "mset (concat (map (stage_order tp pcp dcp) (concat (concat layout)))) = mset (py_range world)"
proof -
  note p = rank_layout_parts [OF assms]
  let ?rows = "chop (nat tp) (py_range world)" and ?stages = "concat (concat layout)"
  have s: "length stage = nat pcp \<and> (\<forall>row\<in>set stage. length row = nat tp)" if "stage \<in> set ?stages" for stage
  proof -
    have "stage \<in> set (chop (nat pcp) ?rows)" using that p by simp
    then have "length stage = nat pcp" using chop_each p by blast
    moreover have "set stage \<subseteq> set (concat (chop (nat pcp) ?rows))" using \<open>stage \<in> set (chop (nat pcp) ?rows)\<close> by auto
    then have "set stage \<subseteq> set ?rows" using p by simp
    then have "\<forall>row\<in>set stage. length row = nat tp" using chop_each [of "nat tp" "py_range world"] p by auto
    ultimately show ?thesis by simp
  qed
  then have "mset (concat (map (stage_order tp pcp dcp) ss)) = mset (concat (concat ss))" if "set ss \<subseteq> set ?stages" for ss
    using that
  proof (induction ss)
    case (Cons stage ss)
    then have "mset (stage_order tp pcp dcp stage) = mset (concat stage)" using s [of stage] stage_order_mset [of stage pcp tp dcp] by simp
    then show ?case using Cons by simp
  qed simp
  from this [OF subset_refl] have "mset (concat (map (stage_order tp pcp dcp) ?stages)) = mset (concat (concat ?stages))" by simp
  moreover have "concat (concat ?stages) = py_range world" using p by simp
  ultimately show ?thesis by simp
qed

text \<open>
  The groups of both dimensions partition the ranks: the tensor-parallel groups are the contiguous blocks of the ranks
  in order, all of the same size, and the decode-context-parallel groups, all of their size, hold every rank once.
\<close>

theorem groups_partition:
  assumes "tp_groups world tp pcp pp dp = Inr ts" "dcp_groups world tp dcp pcp pp dp = Inr ds"
  shows "concat ts = py_range world \<and> (\<forall>g\<in>set ts. int (length g) = tp)
    \<and> mset (concat ds) = mset (py_range world) \<and> (\<forall>g\<in>set ds. int (length g) = dcp)"
proof -
  obtain layout where l: "rank_layout world tp pcp pp dp = Inr layout" "ts = concat (concat (concat layout))"
    using assms(1) by (auto simp: tp_groups_def bind_res_Inr)
  let ?flat = "concat (map (stage_order tp pcp dcp) (concat (concat layout)))"
  have d: "1 \<le> dcp" "int (length ?flat) mod dcp = 0" "ds = chop (nat dcp) ?flat"
    using assms(2) l(1) by (auto simp: dcp_groups_def Let_def split: if_splits)
  note p = rank_layout_parts [OF l(1)]
  have "ts = chop (nat tp) (py_range world)" using l(2) p by simp
  then have "concat ts = py_range world" "\<forall>g\<in>set ts. int (length g) = tp"
    using p chop_each [of "nat tp" "py_range world"] by auto
  moreover have "mset (concat ds) = mset (py_range world)" using d flat_mset [OF l(1)] by simp
  moreover have "nat dcp dvd length ?flat" using d(1,2) by (simp add: nat_dvd_iff mod_0_imp_dvd)
  then have "\<forall>g\<in>set ds. length g = nat dcp" using chop_each [of "nat dcp" ?flat] d(3) by blast
  then have "\<forall>g\<in>set ds. int (length g) = dcp" using d(1) by simp
  ultimately show ?thesis by blast
qed

theorem groups_partition_witness:
  "\<exists>ts ds. tp_groups 8 2 2 1 1 = Inr ts \<and> dcp_groups 8 2 4 2 1 1 = Inr ds \<and> ts = [[0, 1], [2, 3], [4, 5], [6, 7]]
    \<and> ds = [[0, 2, 1, 3], [4, 6, 5, 7]] \<and> mset (concat ds) = mset (py_range 8)"
proof -
  have g: "tp_groups 8 2 2 1 1 = Inr [[0, 1], [2, 3], [4, 5], [6, 7]]" "dcp_groups 8 2 4 2 1 1 = Inr [[0, 2, 1, 3], [4, 6, 5, 7]]"
    by code_simp+
  show ?thesis using groups_partition [OF g] g by blast
qed

end
