(* ===== verification/Cpus.thy ===== *)
theory Cpus
  imports Text Complex_Main
begin

text \<open>
  CPU placement (\<open>spark_transport/sircl/sparkring_sircl/cpus.py\<close>): CPU lists as text, the class of the fastest cores and
  the CPUs of the launching and progress threads.  What the file reads from the host (the online CPUs, the part
  numbers, capacities and frequencies, the process's affinity) is an argument; the tolerance is a fraction, where the
  source compares floating point products.
\<close>

section \<open>CPU lists\<close>

definition add_cpus :: "string \<Rightarrow> int list \<Rightarrow> py_error + int list" where
  "add_cpus raw cpus = (let item = strip raw in
    if item = [] then Inr cpus
    else let (first, _, last') = partition_at (CHR ''-'') item in
      (case py_int first of
         None \<Rightarrow> Inl (ValueErr ''invalid literal for int'' [])
       | Some a \<Rightarrow> (case py_int (if last' \<noteq> [] then last' else first) of
           None \<Rightarrow> Inl (ValueErr ''invalid literal for int'' [])
         | Some b \<Rightarrow> Inr (cpus @ [a..b]))))"

definition parse_cpu_list :: "string \<Rightarrow> py_error + int list" where
  "parse_cpu_list given = bind_res (fold_res add_cpus (split_on (CHR '','') (strip given)) []) (\<lambda>cpus. Inr (sort (remdups cpus)))"

definition run_text :: "int \<times> int \<Rightarrow> string" where
  "run_text run = (case run of (start, previous) \<Rightarrow>
    if start = previous then str_of_int start else str_of_int start @ CHR ''-'' # str_of_int previous)"

fun format_step :: "string list \<times> (int \<times> int) option \<Rightarrow> int \<Rightarrow> string list \<times> (int \<times> int) option" where
  "format_step (parts, None) cpu = (parts, Some (cpu, cpu))"
| "format_step (parts, Some (start, previous)) cpu =
    (if cpu = previous + 1 then (parts, Some (start, cpu)) else (parts @ [run_text (start, previous)], Some (cpu, cpu)))"

definition format_cpu_list :: "int list \<Rightarrow> string" where
  "format_cpu_list cpus = (let (parts, run) = foldl format_step ([], None) (sort (remdups cpus)) in
    join_with (CHR '','') (parts @ (case run of None \<Rightarrow> [] | Some r \<Rightarrow> [run_text r])))"

section \<open>The fastest class\<close>

definition ARM_PART_TIERS :: "(int, int) dict" where
  "ARM_PART_TIERS = [(3396, 3), (3400, 3), (3406, 3), (3458, 3), (3461, 3), (3399, 2), (3405, 2), (3457, 2), (3463, 2),
    (3398, 1), (3456, 1)]"

text \<open>One sysfs source: it tells classes apart when every CPU has a positive value and some are below the tolerance.\<close>

definition by_value :: "(int \<Rightarrow> int option) \<Rightarrow> int list \<Rightarrow> int list option" where
  "by_value value cpus =
    (if list_ex (\<lambda>cpu. case value cpu of None \<Rightarrow> True | Some v \<Rightarrow> v \<le> 0) cpus then None
     else let top = Max (set (map (\<lambda>cpu. the (value cpu)) cpus));
              fastest = sort (filter (\<lambda>cpu. of_int (the (value cpu)) \<ge> (of_int top :: rat) * (85 / 100)) cpus)
       in if length fastest < length cpus then Some fastest else None)"

definition classify :: "int list \<Rightarrow> (int, int) dict \<Rightarrow> (int \<Rightarrow> int option) \<Rightarrow> (int \<Rightarrow> int option) \<Rightarrow> int list \<times> int list \<times> string" where
  "classify cpus parts capacity max_freq =
    (if cpus = [] then ([], [], ''uniform'')
     else
       let tier = (\<lambda>cpu. dget_or ARM_PART_TIERS (dget_or parts cpu 0) 2);
           best = Max (set (map tier cpus))
       in if list_all (\<lambda>cpu. dget parts cpu \<noteq> None) cpus \<and> length (remdups (map tier cpus)) > 1
          then (cpus, sort (filter (\<lambda>cpu. tier cpu = best) cpus), ''cpu_part'')
          else (case by_value capacity cpus of
              Some fastest \<Rightarrow> (cpus, fastest, ''cpu_capacity'')
            | None \<Rightarrow> (case by_value max_freq cpus of
                Some fastest \<Rightarrow> (cpus, fastest, ''cpuinfo_max_freq'')
              | None \<Rightarrow> (cpus, cpus, ''uniform''))))"

section \<open>Placement\<close>

record Placement =
  pc_policy :: string
  pc_source :: string
  pc_performance :: "int list"
  pc_main :: "int list"
  pc_progress :: "int list"

definition progress_cpu_list :: "Placement \<Rightarrow> string option" where
  "progress_cpu_list p = (if pc_progress p \<noteq> [] then Some (format_cpu_list (pc_progress p)) else None)"

definition dedicated_progress_core :: "Placement \<Rightarrow> bool" where
  "dedicated_progress_core p \<longleftrightarrow> length (pc_progress p) = 1 \<and> hd (pc_progress p) \<in> set (pc_performance p)"

text \<open>\<open>plan\<close> over the classification \<open>fastest\<close>, \<open>source\<close> of the host; \<open>affinity\<close> stands for the process's own CPUs.\<close>

definition cpu_plan :: "string \<Rightarrow> int list option \<Rightarrow> int list \<Rightarrow> int list \<times> int list \<times> string \<Rightarrow> py_error + Placement" where
  "cpu_plan policy given affinity classified =
    (if policy \<notin> {''performance'', ''none''} then Inl (ValueErr ''CPU policy must be one of performance, none'' [])
     else
       let allowed = sort (remdups (case given of None \<Rightarrow> affinity | Some cpus \<Rightarrow> cpus)) in
       if policy = ''none'' \<or> allowed = []
       then Inr \<lparr>pc_policy = policy, pc_source = ''none'', pc_performance = allowed, pc_main = allowed, pc_progress = []\<rparr>
       else
         let (_, fastest, source) = classified;
             chosen = filter (\<lambda>cpu. cpu \<in> set fastest) allowed;
             performance = (if chosen \<noteq> [] then chosen else allowed)
         in if length performance \<ge> 2
            then Inr \<lparr>pc_policy = policy, pc_source = source, pc_performance = performance,
              pc_main = butlast performance, pc_progress = [last performance]\<rparr>
            else Inr \<lparr>pc_policy = policy, pc_source = source, pc_performance = performance,
              pc_main = performance, pc_progress = filter (\<lambda>cpu. cpu \<notin> set performance) allowed\<rparr>)"

section \<open>Round trip of CPU lists\<close>

definition covers :: "(int \<times> int) list \<Rightarrow> int list \<Rightarrow> bool" where
  "covers runs cpus \<longleftrightarrow> (\<Union>(a, b)\<in>set runs. {a..b}) = set cpus \<and> (\<forall>(a, b)\<in>set runs. 0 \<le> a \<and> a \<le> b)"

definition run_list :: "(int \<times> int) option \<Rightarrow> (int \<times> int) list" where
  "run_list run = (case run of None \<Rightarrow> [] | Some r \<Rightarrow> [r])"

lemma format_step_covers:
  assumes "covers (runs @ run_list run) xs" "0 \<le> cpu"
  shows "\<exists>runs' run'. format_step (map run_text runs, run) cpu = (map run_text runs', run') \<and> covers (runs' @ run_list run') (xs @ [cpu])"
proof (cases run)
  case None
  then show ?thesis using assms by (intro exI [of _ runs] exI [of _ "Some (cpu, cpu)"]) (auto simp: covers_def run_list_def)
next
  case (Some r)
  obtain a b where r: "r = (a, b)" by (cases r)
  have ab: "0 \<le> a" "a \<le> b" using assms(1) Some r by (auto simp: covers_def run_list_def)
  show ?thesis
  proof (cases "cpu = b + 1")
    case True
    have "{a..cpu} = insert cpu {a..b}" using True ab by auto
    then have "covers (runs @ [(a, cpu)]) (xs @ [cpu])" using assms Some r True ab by (auto simp: covers_def run_list_def)
    then show ?thesis using Some r True by (intro exI [of _ runs] exI [of _ "Some (a, cpu)"]) (simp add: run_list_def)
  next
    case False
    have "covers ((runs @ [(a, b)]) @ [(cpu, cpu)]) (xs @ [cpu])" using assms Some r by (auto simp: covers_def run_list_def)
    then show ?thesis using Some r False
      by (intro exI [of _ "runs @ [(a, b)]"] exI [of _ "Some (cpu, cpu)"]) (simp add: run_list_def)
  qed
qed

lemma format_covers:
  assumes "\<forall>x\<in>set xs. 0 \<le> x"
  shows "\<exists>runs run. foldl format_step ([], None) xs = (map run_text runs, run) \<and> covers (runs @ run_list run) xs"
  using assms
proof (induction xs rule: rev_induct)
  case Nil
  show ?case by (intro exI [of _ "[]"] exI [of _ None]) (simp add: covers_def run_list_def)
next
  case (snoc x xs)
  then obtain runs run where "foldl format_step ([], None) xs = (map run_text runs, run)" "covers (runs @ run_list run) xs" by auto
  then show ?case using format_step_covers [of runs run xs x] snoc.prems by auto
qed

lemma str_of_int_digits: "0 \<le> n \<Longrightarrow> c \<in> set (str_of_int n) \<Longrightarrow> is_digit c"
  by (simp add: str_of_int_def str_of_nat_digits)

lemma run_text_plain: "0 \<le> a \<Longrightarrow> a \<le> b \<Longrightarrow> c \<in> set (run_text (a, b)) \<Longrightarrow> \<not> is_space c \<and> c \<noteq> CHR '',''"
  using str_of_int_digits [of a c] str_of_int_digits [of b c] is_digit_facts [of c] minus_not_space
  by (auto simp: run_text_def split: if_splits)

lemma run_text_ne [simp]: "0 \<le> a \<Longrightarrow> run_text (a, b) \<noteq> []"
  by (simp add: run_text_def str_of_int_def)

lemma partition_at_absent: "c \<notin> set w \<Longrightarrow> partition_at c w = (w, False, [])"
proof -
  assume "c \<notin> set w"
  then have "takeWhile (\<lambda>x. x \<noteq> c) w = w" "dropWhile (\<lambda>x. x \<noteq> c) w = []" by (induction w) auto
  then show ?thesis using \<open>c \<notin> set w\<close> by (simp only: partition_at_def) simp
qed

lemma add_run: "0 \<le> a \<Longrightarrow> a \<le> b \<Longrightarrow> add_cpus (run_text (a, b)) cpus = Inr (cpus @ [a..b])"
proof -
  assume ab: "0 \<le> a" "a \<le> b"
  have s: "strip (run_text (a, b)) = run_text (a, b)" using run_text_plain [OF ab] by (intro strip_plain) blast
  have d: "CHR ''-'' \<notin> set (str_of_int n)" if "0 \<le> n" for n
    using str_of_int_digits [OF that] is_digit_facts by blast
  have ne: "str_of_int b \<noteq> []" using ab by (simp add: str_of_int_def)
  show ?thesis
  proof (cases "a = b")
    case True
    have "partition_at (CHR ''-'') (str_of_int b) = (str_of_int b, False, [])"
      using d [of b] ab by (intro partition_at_absent) simp
    then show ?thesis using s ne True by (simp add: add_cpus_def Let_def run_text_def)
  next
    case False
    then have "partition_at (CHR ''-'') (run_text (a, b)) = (str_of_int a, True, str_of_int b)"
      using d [of a] ab by (simp add: run_text_def partition_at_append)
    then show ?thesis using s ne ab by (simp add: add_cpus_def Let_def)
  qed
qed

lemma add_runs:
  "\<forall>(a, b)\<in>set runs. 0 \<le> a \<and> a \<le> b \<Longrightarrow> fold_res add_cpus (map run_text runs) cpus = Inr (cpus @ concat (map (\<lambda>(a, b). [a..b]) runs))"
  by (induction runs arbitrary: cpus) (auto simp: add_run)

text \<open>A CPU list survives its text: parsing what was formatted gives the CPUs back, sorted and each once.\<close>

theorem cpu_list_roundtrip:
  assumes "\<forall>cpu\<in>set cpus. 0 \<le> cpu"
  shows "parse_cpu_list (format_cpu_list cpus) = Inr (sort (remdups cpus))"
proof -
  obtain runs run where r: "foldl format_step ([], None) (sort (remdups cpus)) = (map run_text runs, run)"
    "covers (runs @ run_list run) (sort (remdups cpus))" using format_covers [of "sort (remdups cpus)"] assms by auto
  let ?all = "runs @ run_list run"
  have ok: "\<forall>(a, b)\<in>set ?all. 0 \<le> a \<and> a \<le> b" and cover: "(\<Union>(a, b)\<in>set ?all. {a..b}) = set cpus"
    using r(2) by (simp_all add: covers_def)
  have f: "format_cpu_list cpus = join_with (CHR '','') (map run_text ?all)"
    using r(1) by (simp add: format_cpu_list_def run_list_def split: option.splits)
  have plain: "\<not> is_space c" if "c \<in> set (format_cpu_list cpus)" for c
  proof -
    have "c = CHR '','' \<or> (\<exists>r\<in>set ?all. c \<in> set (run_text r))" using that f set_join [of "CHR '',''" "map run_text ?all"] by auto
    then show ?thesis using ok run_text_plain by (fastforce simp: is_space_def)
  qed
  have "fold_res add_cpus (split_on (CHR '','') (strip (format_cpu_list cpus))) [] = Inr (concat (map (\<lambda>(a, b). [a..b]) ?all))"
  proof (cases "?all = []")
    case True
    have "format_cpu_list cpus = []" using True f by simp
    moreover have "strip [] = []" by (rule strip_plain) simp
    ultimately show ?thesis using True by (simp add: add_cpus_def Let_def)
  next
    case False
    have "CHR '','' \<notin> set w" if "w \<in> set (map run_text ?all)" for w using that ok run_text_plain by fastforce
    then have "split_on (CHR '','') (format_cpu_list cpus) = map run_text ?all" using split_join [of "map run_text ?all"] False f by simp
    then show ?thesis using strip_plain [of "format_cpu_list cpus"] plain add_runs [OF ok, of "[]"] by simp
  qed
  moreover have "set (concat (map (\<lambda>(a, b). [a..b]) rs)) = (\<Union>(a, b)\<in>set rs. {a..b})" for rs by (induction rs) auto
  then have "set (concat (map (\<lambda>(a, b). [a..b]) ?all)) = set cpus" using cover by (simp only:)
  then have "sort (remdups (concat (map (\<lambda>(a, b). [a..b]) ?all))) = sort (remdups cpus)"
    by (intro sorted_distinct_set_unique) auto
  ultimately show ?thesis by (simp add: parse_cpu_list_def)
qed

theorem cpu_list_roundtrip_witness: "parse_cpu_list (format_cpu_list [11, 0, 2, 1, 10, 8]) = Inr [0, 1, 2, 8, 10, 11]"
  using cpu_list_roundtrip [of "[11, 0, 2, 1, 10, 8]"] by simp

section \<open>Placement keeps apart\<close>

text \<open>
  The progress thread never shares a CPU with the launching threads: a placement uses only CPUs the process may use,
  leaves the launching threads at least one, and keeps the progress thread off them; with the performance policy and two
  fast cores or more, the progress thread has one of them to itself.
\<close>

theorem placement_apart:
  assumes "cpu_plan policy given affinity (online, fastest, source) = Inr p"
  defines "allowed \<equiv> set (case given of None \<Rightarrow> affinity | Some cpus \<Rightarrow> cpus)"
  shows "set (pc_main p) \<inter> set (pc_progress p) = {} \<and> set (pc_main p) \<union> set (pc_progress p) \<subseteq> allowed
    \<and> (allowed \<noteq> {} \<longrightarrow> pc_main p \<noteq> [])
    \<and> (policy = ''performance'' \<and> 2 \<le> card (allowed \<inter> set fastest) \<longrightarrow> dedicated_progress_core p)"
proof -
  define cs where "cs = sort (remdups (case given of None \<Rightarrow> affinity | Some cpus \<Rightarrow> cpus))"
  have a: "set cs = allowed" "distinct cs" by (simp_all add: cs_def allowed_def)
  let ?chosen = "filter (\<lambda>cpu. cpu \<in> set fastest) cs"
  define perf where "perf = (if ?chosen \<noteq> [] then ?chosen else cs)"
  have chosen: "length ?chosen = card (allowed \<inter> set fastest)"
    using distinct_card [of ?chosen] a by (simp add: Int_def conj_commute)
  have perf: "set perf \<subseteq> allowed" "distinct perf" "cs \<noteq> [] \<longrightarrow> perf \<noteq> []" using a by (auto simp: perf_def)
  consider "policy = ''none'' \<or> cs = []"
      "p = \<lparr>pc_policy = policy, pc_source = ''none'', pc_performance = cs, pc_main = cs, pc_progress = []\<rparr>"
    | "cs \<noteq> []" "length perf \<ge> 2" "p = \<lparr>pc_policy = policy, pc_source = source, pc_performance = perf,
        pc_main = butlast perf, pc_progress = [last perf]\<rparr>"
    | "cs \<noteq> []" "length perf < 2" "p = \<lparr>pc_policy = policy, pc_source = source, pc_performance = perf,
        pc_main = perf, pc_progress = filter (\<lambda>cpu. cpu \<notin> set perf) cs\<rparr>"
    using assms(1) unfolding cpu_plan_def Let_def cs_def [symmetric] prod.case perf_def [symmetric]
    by (auto split: if_splits)
  then show ?thesis
  proof cases
    case 1
    then show ?thesis using a chosen by auto
  next
    case 2
    obtain xs x where x: "perf = xs @ [x]" "xs \<noteq> []" using 2(2) by (cases perf rule: rev_cases) (auto simp: Suc_le_eq)
    then show ?thesis using 2 perf by (auto simp: dedicated_progress_core_def)
  next
    case 3
    then have "\<not> 2 \<le> length ?chosen" by (auto simp: perf_def split: if_splits)
    then show ?thesis using 3 perf a chosen by auto
  qed
qed

theorem placement_apart_witness:
  "\<exists>p. cpu_plan ''performance'' None [0, 1, 2, 3] ([0, 1, 2, 3], [2, 3], ''cpu_part'') = Inr p \<and> dedicated_progress_core p
    \<and> pc_main p = [2] \<and> pc_progress p = [3]"
proof -
  have e: "cpu_plan ''performance'' None [0, 1, 2, 3] ([0, 1, 2, 3], [2, 3], ''cpu_part'')
    = Inr \<lparr>pc_policy = ''performance'', pc_source = ''cpu_part'', pc_performance = [2, 3], pc_main = [2], pc_progress = [3]\<rparr>"
    by code_simp
  have "{0, 1, 2, 3} \<inter> {2, 3 :: int} = {2, 3}" by auto
  then show ?thesis using placement_apart [OF e] e by simp
qed

end
