(* ===== verification/Agreement.thy ===== *)
theory Agreement
  imports RouteMaps
begin

text \<open>
  The setup agreement of a session (\<open>spark_transport/sircl/sparkring_sircl/agreement.py\<close>): from every rank's error and
  settings, gathered over the group, the reasons construction must fail on every rank.  The settings the check reads by
  name are fields of a record; the other shared settings are a dictionary with values of any type.
\<close>

section \<open>Settings and failures\<close>

record 'v Setup =
  su_shared :: "(string, 'v) dict"
  su_subset_ring :: "bool option"
  su_lane_count :: "int option"
  su_lane_counts :: "int list"
  su_route_map :: route_map

type_synonym 'v status = "string option \<times> 'v Setup"

datatype failure =
  RankFailed nat string
| SubsetDiffers nat
| ConfigurationDiffers nat "string list"
| LaneCounts nat "int list"
| Unpaired pair_problem
| ClassesDiffer nat int int

text \<open>The names of the settings of rank 0 that a rank does not share; the rank-local ones are not compared.\<close>

definition differing :: "'v Setup \<Rightarrow> 'v Setup \<Rightarrow> string list" where
  "differing reference s = map fst (filter (\<lambda>(key, v). dget (su_shared s) key \<noteq> Some v) (su_shared reference))
    @ (if su_subset_ring reference \<noteq> None \<and> su_subset_ring s \<noteq> su_subset_ring reference then [''subset_ring''] else [])
    @ (if su_lane_count reference \<noteq> None \<and> su_lane_count s \<noteq> su_lane_count reference then [''lane_count''] else [])"

definition subset_of :: "'v Setup \<Rightarrow> bool" where
  "subset_of s = (case su_subset_ring s of None \<Rightarrow> False | Some b \<Rightarrow> b)"

definition expected_counts :: "int option \<Rightarrow> nat \<Rightarrow> nat \<Rightarrow> int option list" where
  "expected_counts lanes world index = map (\<lambda>peer. if peer = index then Some 0 else lanes) [0..<world]"

definition class_check ::
  "Role list \<Rightarrow> role_names \<Rightarrow> route_map list \<Rightarrow> nat \<Rightarrow> int \<times> string list \<Rightarrow> py_error + failure list" where
  "class_check R names maps rank e = bind_res (map_res (\<lambda>(lane, device).
      bind_res (py_index maps (fst e)) (\<lambda>back.
      (case dget back (int rank) of
         None \<Rightarrow> Inl (KeyErr ''rank'' [int rank])
       | Some devices \<Rightarrow> bind_res (py_index devices (int lane)) (\<lambda>theirs.
           (case (role_of R names device, role_of R names theirs) of
              (Some m, Some t) \<Rightarrow> Inr (if role_secondary m \<noteq> role_secondary t then [ClassesDiffer rank (fst e) (int lane)] else [])
            | _ \<Rightarrow> Inr [])))))
    (List.enumerate 0 (snd e))) (\<lambda>fs. Inr (concat fs))"

definition setting_failures :: "'v Setup list \<Rightarrow> failure list" where
  "setting_failures ss = (let reference = hd ss in
    map (\<lambda>(i, s). SubsetDiffers i) (filter (\<lambda>(i, s). subset_of s \<noteq> subset_of reference) (List.enumerate 0 ss))
    @ concat (map (\<lambda>(i, s). if differing reference s \<noteq> [] then [ConfigurationDiffers i (differing reference s)] else [])
        (List.enumerate 0 ss))
    @ map (\<lambda>(i, s). LaneCounts i (su_lane_counts s))
        (filter (\<lambda>(i, s). map Some (su_lane_counts s) \<noteq> expected_counts (su_lane_count reference) (length ss) i)
          (List.enumerate 0 ss)))"

definition rank_failures :: "'v status list \<Rightarrow> failure list" where
  "rank_failures statuses = concat (map (\<lambda>(i, e, s). case e of None \<Rightarrow> [] | Some t \<Rightarrow> [RankFailed i t]) (List.enumerate 0 statuses))"

definition agreement_failures ::
  "Role list \<Rightarrow> role_names \<Rightarrow> 'v status list \<Rightarrow> Layout option \<Rightarrow> py_error + failure list" where
  "agreement_failures R names statuses layout =
    (let failed = rank_failures statuses
     in if failed \<noteq> [] then Inr failed
     else if statuses = [] then Inl (IndexErr [0])
     else
       let ss = map snd statuses; failures = setting_failures ss; maps = map su_route_map ss
       in if failures \<noteq> [] then Inr failures
       else (case layout of
           Some L \<Rightarrow> bind_res (check_complementary R names L maps) (\<lambda>problems. Inr (map Unpaired problems))
         | None \<Rightarrow> bind_res (map_res (\<lambda>(rank, routes). map_res (class_check R names maps rank) routes) (List.enumerate 0 maps))
             (\<lambda>fs. Inr (concat (concat fs)))))"

section \<open>What an agreement means\<close>

lemma enumerate_all: "(\<forall>x\<in>set (List.enumerate 0 xs). P x) \<longleftrightarrow> (\<forall>i < length xs. P (i, xs ! i))"
  by (auto simp: in_set_enumerate_eq)

lemma differing_None:
  "differing reference s = [] \<longleftrightarrow> (\<forall>(key, v)\<in>set (su_shared reference). dget (su_shared s) key = Some v)
    \<and> (su_subset_ring reference \<noteq> None \<longrightarrow> su_subset_ring s = su_subset_ring reference)
    \<and> (su_lane_count reference \<noteq> None \<longrightarrow> su_lane_count s = su_lane_count reference)"
  by (auto simp: differing_def filter_empty_conv)

lemma concat_map_Nil: "concat (map f xs) = [] \<longleftrightarrow> (\<forall>x\<in>set xs. f x = [])"
  by (induction xs) auto

lemma setting_failures_None:
  "setting_failures ss = [] \<longleftrightarrow> (\<forall>i < length ss. subset_of (ss ! i) = subset_of (hd ss) \<and> differing (hd ss) (ss ! i) = []
    \<and> map Some (su_lane_counts (ss ! i)) = expected_counts (su_lane_count (hd ss)) (length ss) i)"
proof -
  have "setting_failures ss = [] \<longleftrightarrow>
      (\<forall>x\<in>set (List.enumerate 0 ss). subset_of (snd x) = subset_of (hd ss))
    \<and> (\<forall>x\<in>set (List.enumerate 0 ss). differing (hd ss) (snd x) = [])
    \<and> (\<forall>x\<in>set (List.enumerate 0 ss). map Some (su_lane_counts (snd x)) = expected_counts (su_lane_count (hd ss)) (length ss) (fst x))"
    by (simp add: setting_failures_def Let_def filter_empty_conv case_prod_beta concat_map_Nil del: concat_eq_Nil_conv)
  then show ?thesis unfolding enumerate_all by (simp only: fst_conv snd_conv) blast
qed

lemma rank_failures_None: "rank_failures statuses = [] \<longleftrightarrow> (\<forall>st\<in>set statuses. fst st = None)"
proof -
  have "rank_failures statuses = [] \<longleftrightarrow> (\<forall>x\<in>set (List.enumerate 0 statuses). fst (snd x) = None)"
    by (simp add: rank_failures_def case_prod_beta option.case_eq_if concat_map_Nil del: concat_eq_Nil_conv)
  then show ?thesis unfolding enumerate_all by (simp add: all_set_conv_all_nth)
qed


section \<open>Derived maps are agreed on\<close>

text \<open>The settings every rank of a group reports when they share them and take their maps from one derivation.\<close>

definition derived_status :: "GroupRoutes \<Rightarrow> (string, 'v) dict \<Rightarrow> int \<Rightarrow> nat \<Rightarrow> 'v status" where
  "derived_status G shared lanes rank = (None, \<lparr>su_shared = shared, su_subset_ring = None, su_lane_count = Some lanes,
    su_lane_counts = map (\<lambda>peer. if peer = rank then 0 else lanes) [0..<nat (group_world G)],
    su_route_map = route_map G (int rank)\<rparr>)"

text \<open>
  Ranks that derive their maps from one layout agree: with equal shared settings, and the lanes derived, the setup
  agreement of the whole group lists no failure.
\<close>

theorem derived_maps_agreed:
  assumes "layout_ok L" "roles_ok R" "derive_routes R L lanes = Inr G" "1 \<le> layout_world L" "distinct (map fst shared)"
  shows "agreement_failures R None (map (derived_status G shared lanes) [0..<nat (group_world G)]) (Some L) = Inr []"
proof -
  have g: "g_layout G = L" using assms(3) by (auto simp: derive_routes_def bind_res_Inr)
  let ?n = "nat (group_world G)"
  let ?statuses = "map (derived_status G shared lanes) [0..<?n]"
  have n: "0 < ?n" using assms(4) g by (simp add: group_world_def)
  have same: "dget shared key = Some v" if "(key, v) \<in> set shared" for key v
    using that assms(5) by (simp add: dget_def)
  have h: "hd (map snd ?statuses) = snd (derived_status G shared lanes 0)" using n by (simp add: hd_map upt_rec [of 0])
  have "setting_failures (map snd ?statuses) = []"
    unfolding setting_failures_None h using same by (auto simp: derived_status_def subset_of_def differing_None expected_counts_def)
  moreover have "map su_route_map (map snd ?statuses) = route_maps G"
    by (simp add: route_maps_def derived_status_def py_range_map comp_def)
  moreover have "\<forall>st\<in>set ?statuses. fst st = None" by (simp add: derived_status_def)
  ultimately show ?thesis using n maps_complementary [OF assms(1-3)] rank_failures_None [of ?statuses]
    by (simp add: agreement_failures_def Let_def)
qed


definition ring4_shared :: "(string, int) dict" where
  "ring4_shared = [(''max_size'', 2097152), (''dispatch'', 1048576)]"

lemma ring4_maps_agreed:
  assumes "derive_routes DEFAULT_ROLES ring4 2 = Inr G"
  shows "group_world G = 4 \<and> 1 \<le> layout_world ring4"
proof -
  have "g_layout G = ring4" using assms by (auto simp: derive_routes_def bind_res_Inr)
  moreover have "layout_world ring4 = 4" by code_simp
  ultimately show ?thesis by (simp add: group_world_def)
qed

theorem derived_maps_agreed_witness:
  "\<exists>G. derive_routes DEFAULT_ROLES ring4 2 = Inr G
    \<and> agreement_failures DEFAULT_ROLES None (map (derived_status G ring4_shared 2) [0..<4]) (Some ring4) = Inr []"
proof -
  obtain G where G: "derive_routes DEFAULT_ROLES ring4 2 = Inr G" using ring4_derives by (auto simp: is_ok_iff)
  have "distinct (map fst ring4_shared)" by (simp add: ring4_shared_def)
  then show ?thesis using derived_maps_agreed [OF ring4_ok roles_ok_default G] ring4_maps_agreed [OF G] G
    by (intro exI [of _ G]) simp
qed

definition lone_rank :: "int status" where
  "lone_rank = (None, \<lparr>su_shared = ring4_shared, su_subset_ring = None, su_lane_count = Some 2, su_lane_counts = [0], su_route_map = []\<rparr>)"


end
