(* ===== verification/Tuning.thy ===== *)
theory Tuning
  imports Text Lanes Complex_Main
begin

text \<open>
  The tuning table of a session (\<open>spark_transport/sircl/sparkring_sircl/tuning.py\<close>): the candidates of a collective,
  the table with its checks, the search for the interval of a size, the choice among several tables and the built-in
  plans.  A document is a JSON value; its reals are rationals.  The file a path names, and the digest of a document, are
  arguments.
\<close>

section \<open>Documents\<close>

datatype json = JNull | JBool bool | JNum int | JReal rat | JStr string | JList "json list" | JObj "(string \<times> json) list"

text \<open>
  \<open>int(v)\<close> and \<open>str(v)\<close>.  The text of a list, an object or a real is cut to a bracket or a point: it is only compared with names.
\<close>

definition json_int :: "json \<Rightarrow> py_error + int" where
  "json_int v = (case v of
     JNum n \<Rightarrow> Inr n
   | JBool b \<Rightarrow> Inr (if b then 1 else 0)
   | JReal r \<Rightarrow> Inr (if 0 \<le> r then floor r else ceiling r)
   | JStr s \<Rightarrow> (case py_int s of Some n \<Rightarrow> Inr n | None \<Rightarrow> Inl (ValueErr ''invalid literal for int'' []))
   | _ \<Rightarrow> Inl (TypeErr ''int() argument must be a string or a number'' []))"

definition json_str :: "json \<Rightarrow> string" where
  "json_str v = (case v of
     JStr s \<Rightarrow> s
   | JNum n \<Rightarrow> str_of_int n
   | JBool b \<Rightarrow> if b then ''True'' else ''False''
   | JNull \<Rightarrow> ''None''
   | JReal _ \<Rightarrow> ''.''
   | JList _ \<Rightarrow> ''[''
   | JObj _ \<Rightarrow> ''{'')"

text \<open>\<open>bool(v)\<close>.\<close>

definition json_bool :: "json \<Rightarrow> bool" where
  "json_bool v = (case v of
     JNull \<Rightarrow> False | JBool b \<Rightarrow> b | JNum n \<Rightarrow> n \<noteq> 0 | JReal r \<Rightarrow> r \<noteq> 0 | JStr s \<Rightarrow> s \<noteq> [] | JList vs \<Rightarrow> vs \<noteq> [] | JObj d \<Rightarrow> d \<noteq> [])"

text \<open>\<open>d[k]\<close> on a value of a document.\<close>

definition json_get :: "json \<Rightarrow> string \<Rightarrow> py_error + json" where
  "json_get v k = (case v of
     JObj d \<Rightarrow> (case dget d k of Some w \<Rightarrow> Inr w | None \<Rightarrow> Inl (KeyErr k []))
   | _ \<Rightarrow> Inl (TypeErr ''indices must be integers'' []))"

text \<open>\<open>isinstance(value, int) and not isinstance(value, bool) and value >= 1\<close>.\<close>

definition positive_int :: "json \<Rightarrow> bool" where
  "positive_int v = (case v of JNum n \<Rightarrow> 1 \<le> n | _ \<Rightarrow> False)"

section \<open>Names\<close>

definition SCHEMAS :: "string list" where "SCHEMAS = [''sircl-tuning-table/v1'', ''sircl-tuning-table/v2'']"
definition SCHEMA :: string where "SCHEMA = ''sircl-tuning-table/v2''"
definition CONDITIONS :: "string list" where "CONDITIONS = [''rotate_buffers'']"
definition COLLECTIVES :: "string list" where
  "COLLECTIVES = [''all_reduce'', ''all_gather'', ''reduce_scatter'', ''all_to_all'']"
definition MODES :: "string list" where "MODES = [''eager'', ''graph'']"
definition BACKENDS :: "string list" where "BACKENDS = [''sircl'', ''nccl'']"
definition ALGORITHMS :: "string list" where "ALGORITHMS = [''oneshot'', ''twoshot'', ''swing'']"
definition SCHEDULES :: "string list" where "SCHEDULES = [''pieces'', ''chain'', ''ring'']"
definition KEY_FIELDS :: "string list" where
  "KEY_FIELDS = [''shape'', ''world'', ''lanes'', ''max_relays'', ''native'', ''kernels'', ''sircl'']"
definition SETTINGS :: "string list" where
  "SETTINGS = [''SIRCL_LINK_SLOTS'', ''SIRCL_LINK_SLOT_BYTES'', ''SIRCL_CHAIN_SLOT_BYTES'', ''SIRCL_LARGE_PIECE_BYTES'']"

section \<open>Candidates\<close>

record Choice =
  ch_backend :: string
  ch_algorithm :: "string option"
  ch_schedule :: "string option"
  ch_grid :: "int option"
  ch_piece :: "int option"
  ch_stagger :: "int option"
  ch_gather_stagger :: "int option"
  ch_blocks :: "int option"

definition default_choice :: Choice where
  "default_choice = \<lparr>ch_backend = ''sircl'', ch_algorithm = None, ch_schedule = None, ch_grid = None, ch_piece = None,
    ch_stagger = None, ch_gather_stagger = None, ch_blocks = None\<rparr>"

definition when_given :: "('a \<Rightarrow> bool) \<Rightarrow> 'a option \<Rightarrow> bool" where
  "when_given P v = (case v of None \<Rightarrow> False | Some x \<Rightarrow> P x)"

definition bad_grid :: "int \<Rightarrow> bool" where
  "bad_grid g \<longleftrightarrow> g < 1 \<or> g AND (g - 1) \<noteq> 0 \<or> g > 1024"

text \<open>\<open>__post_init__\<close>: the checks in their order.\<close>

definition Choice_new :: "Choice \<Rightarrow> py_error + Choice" where
  "Choice_new c =
    (if ch_backend c \<notin> set BACKENDS then Inl (TuningError ''backend is unknown'' [])
     else if when_given (\<lambda>a. a \<notin> set ALGORITHMS) (ch_algorithm c) then Inl (TuningError ''algorithm is unknown'' [])
     else if when_given (\<lambda>s. s \<notin> set SCHEDULES) (ch_schedule c) then Inl (TuningError ''schedule is unknown'' [])
     else if ch_algorithm c \<noteq> None \<and> ch_schedule c \<noteq> None
     then Inl (TuningError ''a candidate names an algorithm or a schedule, not both'' [])
     else if when_given bad_grid (ch_grid c)
     then Inl (TuningError ''grid is not a power of two up to 1024'' [the (ch_grid c)])
     else if when_given (\<lambda>p. p < 16 \<or> p mod 16 \<noteq> 0) (ch_piece c)
     then Inl (TuningError ''piece is not a positive multiple of 16 bytes'' [the (ch_piece c)])
     else if when_given (\<lambda>s. \<not> (0 \<le> s \<and> s \<le> 4)) (ch_stagger c)
     then Inl (TuningError ''stagger is not 0 to 4'' [the (ch_stagger c)])
     else if when_given (\<lambda>s. \<not> (0 \<le> s \<and> s \<le> 4)) (ch_gather_stagger c)
     then Inl (TuningError ''all-gather stagger is not 0 to 4'' [the (ch_gather_stagger c)])
     else if when_given (\<lambda>b. \<not> (1 \<le> b \<and> b \<le> 64) \<or> ch_schedule c \<notin> {Some ''chain'', Some ''ring''}) (ch_blocks c)
     then Inl (TuningError ''blocks must be 1 to 64 and belong to a chain or ring schedule'' [the (ch_blocks c)])
     else if ch_backend c = ''nccl'' \<and> (ch_algorithm c \<noteq> None \<or> ch_schedule c \<noteq> None \<or> ch_grid c \<noteq> None
       \<or> ch_piece c \<noteq> None \<or> ch_stagger c \<noteq> None \<or> ch_gather_stagger c \<noteq> None \<or> ch_blocks c \<noteq> None)
     then Inl (TuningError ''an NCCL candidate names no SIRCL setting'' [])
     else Inr c)"

text \<open>\<open>to_json\<close>: the fields that are given, in the order of the class; the default backend is left out.\<close>

definition str_field :: "string \<Rightarrow> string option \<Rightarrow> (string \<times> json) list" where
  "str_field k v = (case v of None \<Rightarrow> [] | Some s \<Rightarrow> [(k, JStr s)])"

definition int_field :: "string \<Rightarrow> int option \<Rightarrow> (string \<times> json) list" where
  "int_field k v = (case v of None \<Rightarrow> [] | Some n \<Rightarrow> [(k, JNum n)])"

definition choice_json :: "Choice \<Rightarrow> json" where
  "choice_json c = JObj
    ((if ch_backend c \<noteq> ''sircl'' then [(''backend'', JStr (ch_backend c))] else [])
     @ str_field ''algorithm'' (ch_algorithm c) @ str_field ''schedule'' (ch_schedule c)
     @ int_field ''grid'' (ch_grid c) @ int_field ''piece'' (ch_piece c) @ int_field ''stagger'' (ch_stagger c)
     @ int_field ''gather_stagger'' (ch_gather_stagger c) @ int_field ''blocks'' (ch_blocks c))"

definition CHOICE_FIELDS :: "string list" where
  "CHOICE_FIELDS = [''backend'', ''algorithm'', ''schedule'', ''grid'', ''piece'', ''stagger'', ''gather_stagger'', ''blocks'']"

text \<open>\<open>from_json\<close>: unknown fields, then the conversions in the document's order, then the checks of the class.\<close>

definition set_field :: "string \<times> json \<Rightarrow> Choice \<Rightarrow> py_error + Choice" where
  "set_field e c = (let k = fst e in
    if k \<in> {''grid'', ''piece'', ''stagger'', ''gather_stagger'', ''blocks''}
    then bind_res (json_int (snd e)) (\<lambda>n. Inr (
      if k = ''grid'' then c\<lparr>ch_grid := Some n\<rparr>
      else if k = ''piece'' then c\<lparr>ch_piece := Some n\<rparr>
      else if k = ''stagger'' then c\<lparr>ch_stagger := Some n\<rparr>
      else if k = ''gather_stagger'' then c\<lparr>ch_gather_stagger := Some n\<rparr>
      else c\<lparr>ch_blocks := Some n\<rparr>))
    else Inr (
      if k = ''backend'' then c\<lparr>ch_backend := json_str (snd e)\<rparr>
      else if k = ''algorithm'' then c\<lparr>ch_algorithm := Some (json_str (snd e))\<rparr>
      else c\<lparr>ch_schedule := Some (json_str (snd e))\<rparr>))"

definition from_json :: "json \<Rightarrow> py_error + Choice" where
  "from_json v = (case v of
     JObj d \<Rightarrow>
       if list_ex (\<lambda>e. fst e \<notin> set CHOICE_FIELDS) d then Inl (TuningError ''unknown candidate fields'' [])
       else bind_res (fold_res set_field d default_choice) Choice_new
   | _ \<Rightarrow> Inl (TypeErr ''a candidate is a mapping'' []))"

definition number_part :: "string \<Rightarrow> int option \<Rightarrow> string list" where
  "number_part k v = (case v of None \<Rightarrow> [] | Some n \<Rightarrow> [k @ str_of_int n])"

definition given_name :: "string option \<Rightarrow> string option" where
  "given_name v = (if v = Some [] then None else v)"

definition label :: "Choice \<Rightarrow> string" where
  "label c = (if ch_backend c = ''nccl'' then ''nccl'' else join_with (CHR '' '')
    ([case given_name (ch_algorithm c) of Some a \<Rightarrow> a
      | None \<Rightarrow> (case given_name (ch_schedule c) of Some s \<Rightarrow> s | None \<Rightarrow> ''default'')]
     @ number_part ''piece '' (ch_piece c) @ number_part ''stagger '' (ch_stagger c)
     @ number_part ''gather stagger '' (ch_gather_stagger c) @ number_part ''blocks '' (ch_blocks c)
     @ number_part ''grid '' (ch_grid c)))"

definition choice_order :: "Choice \<Rightarrow> string \<Rightarrow> string" where
  "choice_order c collective =
    (if collective = ''all_gather'' \<or> collective = ''all_to_all'' then ''copy''
     else if ch_backend c = ''nccl'' then ''nccl''
     else if ch_schedule c = Some ''chain'' \<or> ch_schedule c = Some ''ring'' then the (ch_schedule c)
     else if ch_schedule c = Some ''pieces'' \<or> ch_algorithm c = Some ''oneshot'' \<or> ch_algorithm c = Some ''twoshot'' then ''rank''
     else if ch_algorithm c = Some ''swing'' then ''swing''
     else ''rules'')"

definition items :: "Choice \<Rightarrow> string \<Rightarrow> int \<Rightarrow> int \<Rightarrow> int" where
  "items c collective nbytes world = (case ch_piece c of
     None \<Rightarrow> 0
   | Some piece \<Rightarrow>
     if ch_backend c = ''nccl'' \<or> ch_schedule c = None \<or> piece = 0 then 0
     else if ch_schedule c = Some ''ring''
     then let block = (if collective = ''all_gather'' then nbytes else cdiv nbytes (max 1 world));
              per_link = (world - 1) * cdiv block piece
          in if collective = ''all_reduce'' then 2 * per_link else per_link
     else cdiv nbytes piece)"

section \<open>Keys and facts\<close>

definition kind_name :: "fabric_kind \<Rightarrow> string" where
  "kind_name k = (case k of Cycle \<Rightarrow> ''cycle'' | Path \<Rightarrow> ''path'')"

definition path_shape :: "int \<Rightarrow> string" where
  "path_shape n = (if n = 2 then ''pair'' else ''path:'' @ str_of_int n)"

text \<open>\<open>shape_of\<close> of a layout's identity: its kind, the size of its fabric and its positions.\<close>

definition consecutive_from :: "int \<Rightarrow> int list \<Rightarrow> int \<Rightarrow> bool" where
  "consecutive_from fabric_size ps start \<longleftrightarrow>
    list_all (\<lambda>step. (start + step) mod fabric_size \<in> set ps) (py_range (int (length ps)))"

definition shape_of :: "fabric_kind \<Rightarrow> int \<Rightarrow> int list \<Rightarrow> py_error + string" where
  "shape_of k fabric_size given =
    (let ps = sort given; n = int (length ps) in
     if n = fabric_size then Inr (if k = Cycle then ''cycle:'' @ str_of_int fabric_size else path_shape fabric_size)
     else if k = Cycle \<and> 2 * (n - 1) < fabric_size \<and> list_ex (consecutive_from fabric_size ps) ps then Inr (path_shape n)
     else case ps of [] \<Rightarrow> Inl (IndexErr [0])
       | p # _ \<Rightarrow> Inr (''strided:'' @ kind_name k @ CHR '':'' # str_of_int fabric_size @ CHR '':''
           # join_with (CHR '','') (map (\<lambda>q. str_of_int (q - p)) ps)))"

text \<open>\<open>facts\<close>; the hashes of the sources and the version of the build are arguments.\<close>

definition facts :: "string \<Rightarrow> int \<Rightarrow> int \<Rightarrow> int \<Rightarrow> string \<times> string \<times> string \<Rightarrow> (string, json) dict" where
  "facts shape world lanes relays builds = (case builds of (native, kernels, sircl) \<Rightarrow>
    [(''shape'', JStr shape), (''world'', JNum world), (''lanes'', JNum lanes), (''max_relays'', JNum relays),
     (''native'', JStr native), (''kernels'', JStr kernels), (''sircl'', JStr sircl)])"

definition layout_facts ::
  "Role list \<Rightarrow> string \<Rightarrow> int \<Rightarrow> string \<times> string \<times> string \<Rightarrow> py_error + (string, json) dict" where
  "layout_facts R given lanes builds =
    bind_res (Layout_parse given) (\<lambda>L.
    bind_res (derive_routes R L lanes) (\<lambda>G.
    case layout_identity L of (k, fabric_size, ps, _) \<Rightarrow>
    bind_res (shape_of k fabric_size ps) (\<lambda>shape.
    Inr (facts shape (layout_world L) lanes (max_relays G) builds))))"

section \<open>Tables\<close>

record Interval =
  iv_start :: int
  iv_choice :: Choice
  iv_nccl :: bool

record Table =
  tb_document :: json
  tb_key :: "(string, json) dict"
  tb_builtin :: bool
  tb_settings :: "(string, int) dict"
  tb_conditions :: "(string, int) dict"
  tb_intervals :: "(string \<times> string, Interval list) dict"
  tb_until :: "(string \<times> string, int) dict"

definition json_iter :: "json \<Rightarrow> py_error + json list" where
  "json_iter v = (case v of
     JList vs \<Rightarrow> Inr vs
   | JObj d \<Rightarrow> Inr (map (\<lambda>e. JStr (fst e)) d)
   | JStr s \<Rightarrow> Inr (map (\<lambda>c. JStr [c]) s)
   | _ \<Rightarrow> Inl (TypeErr ''object is not iterable'' []))"

definition json_num :: "json \<Rightarrow> int" where
  "json_num v = (case v of JNum n \<Rightarrow> n | _ \<Rightarrow> 0)"

text \<open>A dictionary of positive integers whose names are among \<open>names\<close>; None where the table is refused.\<close>

definition named_ints :: "string list \<Rightarrow> json \<Rightarrow> (string, int) dict option" where
  "named_ints names v = (case v of
     JObj d \<Rightarrow> if list_all (\<lambda>e. fst e \<in> set names \<and> positive_int (snd e)) d
       then Some (map (\<lambda>e. (fst e, json_num (snd e))) d) else None
   | _ \<Rightarrow> None)"

definition read_interval :: "json \<Rightarrow> py_error + Interval" where
  "read_interval item =
    bind_res (json_get item ''from'') (\<lambda>from. bind_res (json_int from) (\<lambda>start.
    bind_res (json_get item ''choice'') (\<lambda>c. bind_res (from_json c) (\<lambda>choice.
    Inr \<lparr>iv_start = start, iv_choice = choice,
      iv_nccl = (case json_get item ''nccl'' of Inr b \<Rightarrow> json_bool b | Inl _ \<Rightarrow> False)\<rparr>))))"

text \<open>The checks of the intervals of one collective and mode.\<close>

definition check_intervals :: "bool \<Rightarrow> Interval list \<Rightarrow> py_error + unit" where
  "check_intervals version_one ivs =
    (let starts = map iv_start ivs in
     if version_one \<and> list_ex (\<lambda>i. ch_blocks (iv_choice i) \<noteq> None) ivs
     then Inl (TuningError ''blocks need schema sircl-tuning-table/v2'' [])
     else if ivs = [] \<or> starts \<noteq> sort (remdups starts) \<or> hd starts < 1
     then Inl (TuningError ''intervals must start at increasing positive sizes'' [])
     else if list_ex (\<lambda>i. ch_backend (iv_choice i) \<noteq> ''sircl'') ivs
     then Inl (TuningError ''an interval's choice is SIRCL's'' [])
     else Inr ())"

type_synonym decisions = "(string \<times> string, Interval list) dict \<times> (string \<times> string, int) dict"

definition put_decision :: "string \<times> string \<Rightarrow> json \<Rightarrow> Interval list \<Rightarrow> decisions \<Rightarrow> py_error + decisions" where
  "put_decision k entry ivs found = (case found of (intervals, until) \<Rightarrow>
    if dget intervals k \<noteq> None then Inl (TuningError ''decisions appear twice'' [])
    else case json_get entry ''until'' of
        Inl _ \<Rightarrow> Inr (dset k ivs intervals, until)
      | Inr (JNum n) \<Rightarrow>
          if n < iv_start (last ivs)
          then Inl (TuningError ''until must be a size from the last interval's start on'' [])
          else Inr (dset k ivs intervals, dset k n until)
      | Inr _ \<Rightarrow> Inl (TuningError ''until must be a size from the last interval's start on'' []))"

definition add_decision :: "bool \<Rightarrow> json \<Rightarrow> decisions \<Rightarrow> py_error + decisions" where
  "add_decision version_one entry found =
    bind_res (json_get entry ''collective'') (\<lambda>c. bind_res (json_get entry ''mode'') (\<lambda>m.
    if json_str c \<notin> set COLLECTIVES \<or> json_str m \<notin> set MODES then Inl (TuningError ''unknown collective or mode'' [])
    else
      bind_res (json_get entry ''intervals'') (\<lambda>given. bind_res (json_iter given) (\<lambda>given_items.
      bind_res (map_res read_interval given_items) (\<lambda>ivs.
      bind_res (check_intervals version_one ivs) (\<lambda>_. put_decision (json_str c, json_str m) entry ivs found))))))"

text \<open>The constructor's checks of everything but the decisions.\<close>

definition table_head ::
  "(string, json) dict \<Rightarrow> py_error + (string, json) dict \<times> (string, int) dict \<times> (string, int) dict" where
  "table_head d =
    (if list_all (\<lambda>s. dget d ''schema'' \<noteq> Some (JStr s)) SCHEMAS
     then Inl (TuningError ''tuning table schema is unknown'' [])
     else case dget d ''key'' of
       Some (JObj key) \<Rightarrow>
         if list_ex (\<lambda>f. dget key f = None) KEY_FIELDS then Inl (TuningError ''tuning table key lacks a field'' [])
         else (case (named_ints SETTINGS (dget_or d ''settings'' (JObj [])),
                     named_ints CONDITIONS (dget_or d ''conditions'' (JObj []))) of
           (None, _) \<Rightarrow> Inl (TuningError ''tuning table settings are positive integers'' [])
         | (_, None) \<Rightarrow> Inl (TuningError ''tuning table conditions are positive integers'' [])
         | (Some settings, Some conditions) \<Rightarrow>
             if dget d ''schema'' = Some (JStr (hd SCHEMAS)) \<and> conditions \<noteq> []
             then Inl (TuningError ''tuning table conditions are positive integers'' [])
             else Inr (key, settings, conditions))
     | _ \<Rightarrow> Inl (TuningError ''tuning table key lacks a field'' []))"

definition Table_new :: "bool \<Rightarrow> json \<Rightarrow> py_error + Table" where
  "Table_new builtin document = (case document of
     JObj d \<Rightarrow>
       bind_res (table_head d) (\<lambda>(key, settings, conditions).
       bind_res (json_iter (dget_or d ''decisions'' (JList []))) (\<lambda>entries.
       bind_res (fold_res (add_decision (dget d ''schema'' = Some (JStr (hd SCHEMAS)))) entries ([], [])) (\<lambda>found.
       Inr \<lparr>tb_document = document, tb_key = key, tb_builtin = builtin, tb_settings = settings,
         tb_conditions = conditions, tb_intervals = fst found, tb_until = snd found\<rparr>)))
   | _ \<Rightarrow> Inl (TypeErr ''a tuning table is a mapping'' []))"

definition mismatches :: "Table \<Rightarrow> (string, json) dict \<Rightarrow> string list" where
  "mismatches t own = filter (\<lambda>f. dget (tb_key t) f \<noteq> dget own f) KEY_FIELDS"

text \<open>The binary search of \<open>_interval\<close>.\<close>

function search :: "Interval list \<Rightarrow> int \<Rightarrow> nat \<Rightarrow> nat \<Rightarrow> nat" where
  "search ivs nbytes low high =
    (if low < high
     then let middle = (low + high + 1) div 2 in
       if iv_start (ivs ! middle) \<le> nbytes then search ivs nbytes middle high else search ivs nbytes low (middle - 1)
     else low)"
  by auto
termination by (relation "measure (\<lambda>(_, _, low, high). high - low)") auto

declare search.simps [simp del]

definition table_interval :: "Table \<Rightarrow> string \<Rightarrow> int \<Rightarrow> string \<Rightarrow> Interval option" where
  "table_interval t collective nbytes mode =
    (let ivs = dget_or (tb_intervals t) (collective, mode) [] in
     if ivs = [] \<or> nbytes < iv_start (hd ivs) \<or> nbytes > dget_or (tb_until t) (collective, mode) nbytes then None
     else Some (ivs ! search ivs nbytes 0 (length ivs - 1)))"

definition decide :: "Table \<Rightarrow> string \<Rightarrow> int \<Rightarrow> string \<Rightarrow> Choice option" where
  "decide t collective nbytes mode = map_option iv_choice (table_interval t collective nbytes mode)"

definition chosen :: "Table \<Rightarrow> Choice list" where
  "chosen t = concat (map (\<lambda>e. map iv_choice (snd e)) (tb_intervals t))"

definition decided :: "Table \<Rightarrow> (string \<times> string \<times> Choice) list" where
  "decided t = concat (map (\<lambda>e. map (\<lambda>i. (fst (fst e), snd (fst e), iv_choice i)) (snd e)) (tb_intervals t))"

definition measured_backend :: "Table \<Rightarrow> string \<Rightarrow> int \<Rightarrow> string \<Rightarrow> string" where
  "measured_backend t collective nbytes mode = (case table_interval t collective nbytes mode of
     None \<Rightarrow> ''sircl'' | Some i \<Rightarrow> if iv_nccl i then ''nccl'' else ''sircl'')"

definition table_paths :: "string \<Rightarrow> string list" where
  "table_paths v = filter (\<lambda>w. w \<noteq> []) (map strip (split_on (CHR '','') v))"

text \<open>\<open>Table.load\<close>: \<open>read\<close> gives the document a path names, None when it cannot be read.\<close>

definition load_table :: "(string \<Rightarrow> json option) \<Rightarrow> string \<Rightarrow> py_error + Table" where
  "load_table read path = (case read path of
     None \<Rightarrow> Inl (TuningError ''cannot read the tuning table'' [])
   | Some document \<Rightarrow> Table_new False document)"

definition sort_table ::
  "(string, json) dict \<Rightarrow> string \<times> Table \<Rightarrow> Table list \<times> (string, string list) dict \<Rightarrow> Table list \<times> (string, string list) dict" where
  "sort_table own e found = (case found of (matching, unmatched) \<Rightarrow>
    let problems = mismatches (snd e) own in
    if problems \<noteq> [] then (matching, dset (fst e) problems unmatched) else (matching @ [snd e], unmatched))"

definition select_table ::
  "(string \<Rightarrow> json option) \<Rightarrow> (json \<Rightarrow> 'h) \<Rightarrow> string list \<Rightarrow> (string, json) dict
    \<Rightarrow> py_error + Table option \<times> (string, string list) dict" where
  "select_table read digest paths own =
    bind_res (map_res (\<lambda>p. bind_res (load_table read p) (\<lambda>t. Inr (p, t))) paths) (\<lambda>tables.
    let (matching, unmatched) = fold (sort_table own) tables ([], []) in
    if length (remdups (map (digest \<circ> tb_document) matching)) > 1
    then Inl (TuningError ''several different tuning tables match this group shape and build'' [])
    else Inr (case matching of [] \<Rightarrow> (None, unmatched) | t # _ \<Rightarrow> (Some t, unmatched)))"

section \<open>Built-in plans\<close>

definition ring_pieces :: "int \<Rightarrow> json" where
  "ring_pieces piece = JObj [(''schedule'', JStr ''ring''), (''piece'', JNum piece)]"

definition BUILTIN_PLANS :: "(string, (string, (int \<times> json) list) dict) dict" where
  "BUILTIN_PLANS =
    [(''pair'',
       [(''all_reduce'', [(3 * 2 ^ 20, ring_pieces (256 * 2 ^ 10))]),
        (''all_gather'', [(2 * 2 ^ 20, ring_pieces (256 * 2 ^ 10)), (16 * 2 ^ 20, ring_pieces (512 * 2 ^ 10))]),
        (''reduce_scatter'', [(8 * 2 ^ 20, ring_pieces (256 * 2 ^ 10)), (64 * 2 ^ 20, ring_pieces (512 * 2 ^ 10))])]),
     (''cycle:8'',
       [(''all_reduce'', [(2 * 2 ^ 20 + 16, ring_pieces (128 * 2 ^ 10)), (4 * 2 ^ 20, ring_pieces (256 * 2 ^ 10)),
          (16 * 2 ^ 20, ring_pieces (512 * 2 ^ 10))])])]"

text \<open>One step of a plan as an interval; a neighbour with an equal choice absorbs it.\<close>

definition plan_interval :: "bool \<Rightarrow> int \<times> json \<Rightarrow> py_error + json" where
  "plan_interval unpieced e =
    (let kept = (case snd e of JObj d \<Rightarrow> JObj (filter (\<lambda>f. \<not> (fst f = ''piece'' \<and> unpieced)) d) | v \<Rightarrow> v) in
     bind_res (from_json kept) (\<lambda>c.
     Inr (JObj [(''from'', JNum (fst e)), (''choice'', choice_json c), (''nccl'', JBool False)])))"

definition merge_interval :: "json \<Rightarrow> json list \<Rightarrow> json list" where
  "merge_interval i found =
    (if found = [] \<or> json_get (last found) ''choice'' \<noteq> json_get i ''choice'' then found @ [i] else found)"

definition plan_decisions :: "string list \<Rightarrow> string list \<Rightarrow> string \<times> (int \<times> json) list \<Rightarrow> py_error + json list" where
  "plan_decisions wanted unpieced e =
    (if fst e \<notin> set wanted then Inr []
     else bind_res (map_res (plan_interval (fst e \<in> set unpieced)) (snd e)) (\<lambda>ivs.
       let merged = fold merge_interval ivs [] in
       Inr (map (\<lambda>mode. JObj [(''collective'', JStr (fst e)), (''mode'', JStr mode), (''intervals'', JList merged)]) MODES)))"

definition builtin_document :: "(string, json) dict \<Rightarrow> string list \<Rightarrow> string list \<Rightarrow> py_error + json option" where
  "builtin_document own wanted unpieced = (case dget own ''shape'' of
     None \<Rightarrow> Inl (KeyErr ''shape'' [])
   | Some shape \<Rightarrow>
       bind_res (map_res (plan_decisions wanted unpieced) (dget_or BUILTIN_PLANS (json_str shape) [])) (\<lambda>parts.
       let decisions = concat parts in
       Inr (if decisions = [] then None
         else Some (JObj [(''schema'', JStr SCHEMA), (''key'', JObj (dset ''image'' (JStr []) own)),
           (''run_id'', JStr ''builtin''), (''created'', JStr []), (''measurements'', JList []),
           (''decisions'', JList decisions)]))))"

end
