(* ===== verification/TuningFacts.thy ===== *)
theory TuningFacts
  imports Tuning
begin

text \<open>
  Facts about tuning tables: a candidate survives its document, the binary search finds the interval a size lies in, a
  table that loads decides only for valid SIRCL candidates, the table selected matches, and the built-in plans load.
\<close>

section \<open>Candidates as documents\<close>

lemma fold_res_append: "fold_res f (xs @ ys) s = bind_res (fold_res f xs s) (fold_res f ys)"
proof (induction xs arbitrary: s)
  case (Cons x xs)
  then show ?case by (cases "f x s") auto
qed simp

lemma set_fields:
  "ch_algorithm c = None \<Longrightarrow> fold_res set_field (str_field ''algorithm'' a) c = Inr (c\<lparr>ch_algorithm := a\<rparr>)"
  "ch_schedule c = None \<Longrightarrow> fold_res set_field (str_field ''schedule'' a) c = Inr (c\<lparr>ch_schedule := a\<rparr>)"
  "ch_grid c = None \<Longrightarrow> fold_res set_field (int_field ''grid'' n) c = Inr (c\<lparr>ch_grid := n\<rparr>)"
  "ch_piece c = None \<Longrightarrow> fold_res set_field (int_field ''piece'' n) c = Inr (c\<lparr>ch_piece := n\<rparr>)"
  "ch_stagger c = None \<Longrightarrow> fold_res set_field (int_field ''stagger'' n) c = Inr (c\<lparr>ch_stagger := n\<rparr>)"
  "ch_gather_stagger c = None \<Longrightarrow> fold_res set_field (int_field ''gather_stagger'' n) c = Inr (c\<lparr>ch_gather_stagger := n\<rparr>)"
  "ch_blocks c = None \<Longrightarrow> fold_res set_field (int_field ''blocks'' n) c = Inr (c\<lparr>ch_blocks := n\<rparr>)"
  by (cases a; simp add: str_field_def set_field_def json_str_def Let_def; fail
     | cases n; simp add: int_field_def set_field_def json_int_def Let_def; fail)+

lemma fields_known:
  "list_ex (\<lambda>e. fst e \<notin> set CHOICE_FIELDS) (str_field k s) \<longleftrightarrow> s \<noteq> None \<and> k \<notin> set CHOICE_FIELDS"
  "list_ex (\<lambda>e. fst e \<notin> set CHOICE_FIELDS) (int_field k n) \<longleftrightarrow> n \<noteq> None \<and> k \<notin> set CHOICE_FIELDS"
  by (cases s; simp add: str_field_def) (cases n; simp add: int_field_def)

lemma from_choice_json: "from_json (choice_json c) = Choice_new c"
proof -
  let ?b = "if ch_backend c \<noteq> ''sircl'' then [(''backend'', JStr (ch_backend c))] else []"
  have b: "fold_res set_field ?b default_choice = Inr (default_choice\<lparr>ch_backend := ch_backend c\<rparr>)"
    by (simp add: set_field_def json_str_def Let_def default_choice_def)
  have k: "\<not> list_ex (\<lambda>e. fst e \<notin> set CHOICE_FIELDS) ?b" by (simp add: CHOICE_FIELDS_def)
  have f: "fold_res set_field (?b @ str_field ''algorithm'' (ch_algorithm c) @ str_field ''schedule'' (ch_schedule c)
     @ int_field ''grid'' (ch_grid c) @ int_field ''piece'' (ch_piece c) @ int_field ''stagger'' (ch_stagger c)
     @ int_field ''gather_stagger'' (ch_gather_stagger c) @ int_field ''blocks'' (ch_blocks c)) default_choice = Inr c"
    by (simp only: fold_res_append b bind_res.simps) (simp add: fold_res_append set_fields default_choice_def)
  show ?thesis
    unfolding choice_json_def from_json_def json.case list_ex_append f
    using k by (simp only: fields_known) (simp add: CHOICE_FIELDS_def)
qed

lemma Choice_new_same: "Choice_new c = Inr d \<Longrightarrow> d = c"
  unfolding Choice_new_def by (simp split: if_split_asm)

lemma from_json_accepted: "from_json v = Inr c \<Longrightarrow> Choice_new c = Inr c"
  using Choice_new_same by (cases v) (auto simp: from_json_def bind_res_Inr split: if_split_asm)

text \<open>
  A candidate survives its document: whatever candidate the class accepts, reading its document gives it back, and a
  document that is read at all gives a candidate the class accepts.
\<close>

theorem choice_roundtrip:
  "(Choice_new c = Inr c \<longrightarrow> from_json (choice_json c) = Inr c) \<and> (from_json v = Inr d \<longrightarrow> Choice_new d = Inr d)"
  by (simp add: from_choice_json from_json_accepted)


lemma choice_roundtrip_witness:
  "\<exists>c. ch_schedule c = Some ''ring'' \<and> Choice_new c = Inr c \<and> from_json (choice_json c) = Inr c"
proof -
  let ?c = "default_choice\<lparr>ch_schedule := Some ''ring'', ch_piece := Some 262144, ch_blocks := Some 4\<rparr>"
  have "Choice_new ?c = Inr ?c" by code_simp
  moreover have "from_json (choice_json ?c) = Inr ?c" using choice_roundtrip [of ?c] calculation by blast
  ultimately show ?thesis by (intro exI [of _ ?c]) (simp add: default_choice_def)
qed

section \<open>The interval of a size\<close>

text \<open>
  The search keeps two bounds: an interval at or below \<open>low\<close> starts at most at the size, and none above \<open>high\<close> does.
\<close>

lemma search_bounds:
  "low \<le> high \<Longrightarrow> iv_start (ivs ! low) \<le> n \<Longrightarrow> (\<And>j. high < j \<Longrightarrow> j < length ivs \<Longrightarrow> n < iv_start (ivs ! j)) \<Longrightarrow>
    sorted_wrt (<) (map iv_start ivs) \<Longrightarrow> high < length ivs \<Longrightarrow>
    search ivs n low high < length ivs \<and> iv_start (ivs ! search ivs n low high) \<le> n
    \<and> (\<forall>j. search ivs n low high < j \<longrightarrow> j < length ivs \<longrightarrow> n < iv_start (ivs ! j))"
proof (induction ivs n low high rule: search.induct)
  case (1 ivs n low high)
  let ?m = "(low + high + 1) div 2"
  show ?case
  proof (cases "low < high")
    case False
    then have h: "high = low" using 1(3) by simp
    have "search ivs n low high = low" using False by (subst search.simps) simp
    then show ?thesis using 1(4-7) h by simp
  next
    case True
    then have m: "low < ?m" "?m \<le> high" by auto
    show ?thesis
    proof (cases "iv_start (ivs ! ?m) \<le> n")
      case t: True
      have "search ivs n low high = search ivs n ?m high" using True t by (simp add: search.simps [of ivs n low high])
      then show ?thesis using 1(1) [OF True refl t] 1(5-7) m(2) t by simp
    next
      case f: False
      have a: "n < iv_start (ivs ! j)" if "?m - 1 < j" "j < length ivs" for j
      proof (cases "j = ?m")
        case False
        then have "?m < j" using that by simp
        then have "iv_start (ivs ! ?m) < iv_start (ivs ! j)" using 1(6) that(2) by (auto simp: sorted_wrt_iff_nth_less)
        then show ?thesis using f by simp
      qed (use f in simp)
      have "search ivs n low high = search ivs n low (?m - 1)" using True f by (simp add: search.simps [of ivs n low high])
      then show ?thesis using 1(2) [OF True refl f _ 1(4) a 1(6)] 1(7) m by simp
    qed
  qed
qed

lemma last_started:
  assumes "sorted_wrt (<) (map iv_start ivs)" "r < length ivs" "iv_start (ivs ! r) \<le> n"
    and "\<And>j. r < j \<Longrightarrow> j < length ivs \<Longrightarrow> n < iv_start (ivs ! j)"
  shows "last (filter (\<lambda>i. iv_start i \<le> n) ivs) = ivs ! r"
proof -
  have "ivs = take r ivs @ ivs ! r # drop (Suc r) ivs" using assms(2) by (rule id_take_nth_drop)
  moreover have "filter (\<lambda>i. iv_start i \<le> n) (drop (Suc r) ivs) = []"
    using assms(4) by (auto simp: filter_empty_conv in_set_conv_nth linorder_not_le)
  ultimately have "filter (\<lambda>i. iv_start i \<le> n) ivs = filter (\<lambda>i. iv_start i \<le> n) (take r ivs) @ [ivs ! r]"
    by (metis (no_types, lifting) assms(3) filter.simps filter_append)
  then show ?thesis by simp
qed

section \<open>What a loaded table holds\<close>

definition intervals_ok :: "Interval list \<Rightarrow> bool" where
  "intervals_ok ivs \<longleftrightarrow> ivs \<noteq> [] \<and> sorted_wrt (<) (map iv_start ivs) \<and> 1 \<le> iv_start (hd ivs)
    \<and> (\<forall>i\<in>set ivs. ch_backend (iv_choice i) = ''sircl'' \<and> Choice_new (iv_choice i) = Inr (iv_choice i))"

definition decisions_ok :: "decisions \<Rightarrow> bool" where
  "decisions_ok f \<longleftrightarrow>
    (\<forall>k ivs. dget (fst f) k = Some ivs \<longrightarrow> intervals_ok ivs \<and> fst k \<in> set COLLECTIVES \<and> snd k \<in> set MODES)
    \<and> (\<forall>k u. dget (snd f) k = Some u \<longrightarrow> (\<exists>ivs. dget (fst f) k = Some ivs \<and> iv_start (last ivs) \<le> u))"

lemma sorted_starts: "xs = sort (remdups xs) \<Longrightarrow> sorted_wrt (<) (xs :: int list)"
  by (metis distinct_remdups distinct_sort sorted_sort strict_sorted_iff)

lemma check_intervals_ok:
  assumes "check_intervals v ivs = Inr u" "\<And>i. i \<in> set ivs \<Longrightarrow> Choice_new (iv_choice i) = Inr (iv_choice i)"
  shows "intervals_ok ivs"
  using assms sorted_starts [of "map iv_start ivs"]
  by (simp add: check_intervals_def intervals_ok_def Let_def list_ex_iff hd_map split: if_split_asm)

lemma read_interval_accepted: "read_interval v = Inr i \<Longrightarrow> Choice_new (iv_choice i) = Inr (iv_choice i)"
  by (auto simp: read_interval_def bind_res_Inr from_json_accepted)

lemma put_decision_parts:
  "put_decision k e ivs (intervals, until) = Inr f \<Longrightarrow> dget intervals k = None
    \<and> (f = (dset k ivs intervals, until) \<or> (\<exists>n \<ge> iv_start (last ivs). f = (dset k ivs intervals, dset k n until)))"
  (is "_ \<Longrightarrow> ?goal")
proof (cases "json_get e ''until''")
  case (Inr j)
  then show "put_decision k e ivs (intervals, until) = Inr f \<Longrightarrow> ?goal"
    by (cases j) (auto simp: put_decision_def not_less split: if_split_asm)
qed (auto simp: put_decision_def split: if_split_asm)

lemma add_decision_parts:
  assumes "add_decision v e s = Inr f"
  shows "\<exists>k ivs. fst k \<in> set COLLECTIVES \<and> snd k \<in> set MODES \<and> intervals_ok ivs \<and> put_decision k e ivs s = Inr f"
proof -
  obtain c m gs ivs where s: "json_str c \<in> set COLLECTIVES" "json_str m \<in> set MODES"
    "map_res read_interval gs = Inr ivs" "check_intervals v ivs = Inr ()" "put_decision (json_str c, json_str m) e ivs s = Inr f"
    using assms by (auto simp: add_decision_def bind_res_Inr split: if_split_asm)
  have "intervals_ok ivs" using s(4) read_interval_accepted map_res_in [OF s(3)] check_intervals_ok by blast
  then show ?thesis using s(1,2,5) by (intro exI [of _ "(json_str c, json_str m)"] exI [of _ ivs]) simp
qed

lemma add_decision_ok: "decisions_ok s \<Longrightarrow> add_decision v e s = Inr f \<Longrightarrow> decisions_ok f"
proof (cases s)
  case (Pair intervals until)
  assume d: "decisions_ok s" and a: "add_decision v e s = Inr f"
  obtain k ivs where p: "fst k \<in> set COLLECTIVES" "snd k \<in> set MODES" "intervals_ok ivs" "put_decision k e ivs s = Inr f"
    using add_decision_parts [OF a] by blast
  note q = put_decision_parts [OF p(4) [unfolded Pair]]
  have u: "dget until k = None" using d conjunct1 [OF q] unfolding decisions_ok_def Pair by (metis fst_conv snd_conv not_None_eq)
  show ?thesis using conjunct2 [OF q] d p(1-3) u unfolding decisions_ok_def Pair by (elim disjE exE conjE) auto
qed

lemma Table_new_parts:
  assumes "Table_new b v = Inr t"
  obtains d es where "v = JObj d" "table_head d = Inr (tb_key t, tb_settings t, tb_conditions t)"
    "json_iter (dget_or d ''decisions'' (JList [])) = Inr es"
    "fold_res (add_decision (dget d ''schema'' = Some (JStr (hd SCHEMAS)))) es ([], []) = Inr (tb_intervals t, tb_until t)"
proof (cases v)
  case (JObj d)
  then show ?thesis using assms that by (auto simp: Table_new_def bind_res_Inr)
qed (use assms in \<open>simp_all add: Table_new_def\<close>)

lemma Table_new_decisions: "Table_new b v = Inr t \<Longrightarrow> decisions_ok (tb_intervals t, tb_until t)"
proof (erule Table_new_parts)
  fix d es
  assume "fold_res (add_decision (dget d ''schema'' = Some (JStr (hd SCHEMAS)))) es ([], []) = Inr (tb_intervals t, tb_until t)"
  then show ?thesis by (rule fold_res_invariant) (simp add: decisions_ok_def, rule add_decision_ok)
qed

section \<open>Decisions\<close>

lemma intervals_of: "Table_new b v = Inr t \<Longrightarrow> dget_or (tb_intervals t) k [] \<noteq> [] \<Longrightarrow> intervals_ok (dget_or (tb_intervals t) k [])"
  by (cases k, cases "dget (tb_intervals t) k") (use Table_new_decisions [of b v t] in \<open>simp_all add: decisions_ok_def dget_or_dget\<close>)

text \<open>
  The binary search gives what the table's documentation says: a size has the last interval that starts at or below
  it, unless it lies below the first interval or above the largest size the decisions hold for.
\<close>

theorem interval_of_size:
  assumes "Table_new b v = Inr t"
  shows "table_interval t collective n mode =
    (let ivs = dget_or (tb_intervals t) (collective, mode) []; begun = filter (\<lambda>i. iv_start i \<le> n) ivs
     in if begun = [] \<or> dget_or (tb_until t) (collective, mode) n < n then None else Some (last begun))"
proof -
  let ?ivs = "dget_or (tb_intervals t) (collective, mode) []"
  let ?s = "filter (\<lambda>i. iv_start i \<le> n) ?ivs"
  show ?thesis
  proof (cases "?ivs = []")
    case True
    then show ?thesis by (simp add: table_interval_def)
  next
    case False
    then have o: "sorted_wrt (<) (map iv_start ?ivs)" using intervals_of [OF assms] by (simp add: intervals_ok_def)
    obtain i rest where c: "?ivs = i # rest" using False by (cases ?ivs) auto
    have e: "?s = [] \<longleftrightarrow> n < iv_start (hd ?ivs)"
      using o unfolding c by (auto simp: filter_empty_conv linorder_not_le)
    show ?thesis
    proof (cases "?s = [] \<or> dget_or (tb_until t) (collective, mode) n < n")
      case True
      then show ?thesis using e by (auto simp: table_interval_def Let_def)
    next
      case f: False
      have "search ?ivs n 0 (length ?ivs - 1) < length ?ivs \<and> iv_start (?ivs ! search ?ivs n 0 (length ?ivs - 1)) \<le> n
        \<and> (\<forall>j. search ?ivs n 0 (length ?ivs - 1) < j \<longrightarrow> j < length ?ivs \<longrightarrow> n < iv_start (?ivs ! j))"
        by (rule search_bounds) (use o f e False in \<open>auto simp: hd_conv_nth\<close>)
      then have "last ?s = ?ivs ! search ?ivs n 0 (length ?ivs - 1)" using last_started [OF o] by blast
      then show ?thesis using e f False by (simp add: table_interval_def Let_def)
    qed
  qed
qed

text \<open>A decided size has a candidate of SIRCL's that the class accepts.\<close>

lemma decided_choice_valid:
  "Table_new b v = Inr t \<Longrightarrow> decide t collective n mode = Some c \<Longrightarrow> ch_backend c = ''sircl'' \<and> Choice_new c = Inr c"
  unfolding decide_def
proof (elim map_option_eq_Some [THEN iffD1, THEN exE] conjE)
  fix i
  assume a: "Table_new b v = Inr t" "table_interval t collective n mode = Some i" "iv_choice i = c"
  let ?ivs = "dget_or (tb_intervals t) (collective, mode) []"
  let ?s = "filter (\<lambda>i. iv_start i \<le> n) ?ivs"
  have "search ?ivs n 0 (length ?ivs - 1) < length ?ivs" if "?ivs \<noteq> []" "iv_start (hd ?ivs) \<le> n"
    using search_bounds [of 0 "length ?ivs - 1" ?ivs n] that intervals_of [OF a(1) that(1)]
    by (simp add: intervals_ok_def hd_conv_nth)
  then have "?ivs \<noteq> []" "i \<in> set ?ivs" using a(2) by (auto simp: table_interval_def Let_def split: if_split_asm)
  then show ?thesis using intervals_of [OF a(1)] a(3) by (auto simp: intervals_ok_def)
qed


definition pair_facts :: "(string, json) dict" where
  "pair_facts = facts ''pair'' 2 2 0 (''n'', ''k'', ''v'')"

definition pair_document :: json where
  "pair_document = (case builtin_document pair_facts COLLECTIVES [] of Inr (Some d) \<Rightarrow> d | _ \<Rightarrow> JNull)"

definition pair_table :: Table where
  "pair_table = (case Table_new True pair_document of Inr t \<Rightarrow> t | Inl _ \<Rightarrow> undefined)"

lemma pair_table: "Table_new True pair_document = Inr pair_table"
proof -
  have "is_ok (Table_new True pair_document)" by code_simp
  then show ?thesis by (auto simp: pair_table_def is_ok_iff)
qed

lemma interval_of_size_witness:
  "map_option iv_start (table_interval pair_table ''all_gather'' (17 * 2 ^ 20) ''eager'') = Some (16 * 2 ^ 20)
    \<and> map_option iv_start (table_interval pair_table ''all_gather'' (2 ^ 20) ''eager'') = None"
  unfolding interval_of_size [OF pair_table] by (rule conjI; code_simp)

section \<open>Built-in plans\<close>

lemma plan_decisions_flags:
  "plan_decisions wanted unpieced e
    = plan_decisions (if fst e \<in> set wanted then [fst e] else []) (if fst e \<in> set unpieced then [fst e] else []) e"
  by (simp add: plan_decisions_def)

text \<open>The parts of a built-in plan: a collective left out, with its pieces, or without them.\<close>

definition plan_parts :: "string \<times> (int \<times> json) list \<Rightarrow> json list list" where
  "plan_parts e = [[], projr (plan_decisions [fst e] [] e), projr (plan_decisions [fst e] [fst e] e)]"

lemma plan_decisions_parts:
  assumes "is_ok (plan_decisions [fst e] [] e)" "is_ok (plan_decisions [fst e] [fst e] e)"
  shows "\<exists>p\<in>set (plan_parts e). plan_decisions wanted unpieced e = Inr p"
proof -
  have n: "plan_decisions [] u e = Inr []" for u by (simp add: plan_decisions_def)
  show ?thesis
    using assms n unfolding plan_decisions_flags [of wanted unpieced] plan_parts_def
    by (cases "fst e \<in> set wanted"; cases "fst e \<in> set unpieced") (auto simp: is_ok_iff)
qed

definition ring_only :: "decisions \<Rightarrow> bool" where
  "ring_only f \<longleftrightarrow> snd f = [] \<and> list_all (\<lambda>e. list_all (\<lambda>i. ch_schedule (iv_choice i) = Some ''ring'') (snd e)) (fst f)"

definition plan_loads :: "(string \<times> (int \<times> json) list) list \<Rightarrow> bool" where
  "plan_loads plan \<longleftrightarrow> list_all (\<lambda>e. is_ok (plan_decisions [fst e] [] e) \<and> is_ok (plan_decisions [fst e] [fst e] e)) plan
    \<and> list_all (\<lambda>parts. case fold_res (add_decision False) (concat parts) ([], []) of Inl _ \<Rightarrow> False | Inr f \<Rightarrow> ring_only f)
        (product_lists (map plan_parts plan))"

lemma builtin_plans_load: "list_all (\<lambda>e. plan_loads (snd e)) BUILTIN_PLANS"
  by code_simp

lemma plan_loads_parts:
  assumes "plan_loads plan"
  shows "\<exists>parts f. map_res (plan_decisions wanted unpieced) plan = Inr parts
    \<and> fold_res (add_decision False) (concat parts) ([], []) = Inr f \<and> ring_only f"
proof -
  have e: "\<exists>p. p \<in> set (plan_parts e) \<and> plan_decisions wanted unpieced e = Inr p" if "e \<in> set plan" for e
    using plan_decisions_parts [of e wanted unpieced] that assms by (auto simp: plan_loads_def list_all_iff)
  then have "\<exists>parts. map_res (plan_decisions wanted unpieced) plan = Inr parts" by (intro map_res_defined) blast
  then obtain parts where parts: "map_res (plan_decisions wanted unpieced) plan = Inr parts" by blast
  have "list_all2 (\<lambda>p ps. p \<in> set ps) parts (map plan_parts plan)"
    using map_res_nth [OF parts] map_res_length [OF parts] e [OF nth_mem] by (fastforce simp: list_all2_conv_all_nth)
  then have "parts \<in> set (product_lists (map plan_parts plan))" by (simp add: product_lists_set)
  then have "case fold_res (add_decision False) (concat parts) ([], []) of Inl _ \<Rightarrow> False | Inr f \<Rightarrow> ring_only f"
    using assms by (simp add: plan_loads_def list_all_iff)
  then obtain f where "fold_res (add_decision False) (concat parts) ([], []) = Inr f" "ring_only f" by (auto split: sum.split_asm)
  then show ?thesis using parts by blast
qed

lemma plan_of_shape: "plan_loads (dget_or BUILTIN_PLANS shape [])"
proof (cases "dget BUILTIN_PLANS shape")
  case None
  then show ?thesis by (simp add: dget_or_dget plan_loads_def ring_only_def)
next
  case (Some plan)
  then show ?thesis using dget_Some_in [OF Some] builtin_plans_load by (auto simp: dget_or_dget list_all_iff)
qed

text \<open>
  A built-in plan is a table its own session accepts: for every set of collectives and of configured pieces, the
  document written for a session's facts passes every check of a table, matches those facts, asks for no settings and
  decides for ring schedules only.
\<close>

theorem builtin_plan_accepted:
  assumes "builtin_document own wanted unpieced = Inr (Some d)" "\<forall>f\<in>set KEY_FIELDS. dget own f \<noteq> None"
  shows "\<exists>t. Table_new True d = Inr t \<and> mismatches t own = [] \<and> tb_settings t = [] \<and> tb_conditions t = []
    \<and> (\<forall>c\<in>set (chosen t). ch_schedule c = Some ''ring'')"
proof -
  obtain shape where s: "dget own ''shape'' = Some shape" using assms(1) by (auto simp: builtin_document_def split: option.splits)
  obtain parts f where p: "map_res (plan_decisions wanted unpieced) (dget_or BUILTIN_PLANS (json_str shape) []) = Inr parts"
    "fold_res (add_decision False) (concat parts) ([], []) = Inr f" "ring_only f"
    using plan_loads_parts [OF plan_of_shape] by blast
  have d: "d = JObj [(''schema'', JStr SCHEMA), (''key'', JObj (dset ''image'' (JStr []) own)),
      (''run_id'', JStr ''builtin''), (''created'', JStr []), (''measurements'', JList []), (''decisions'', JList (concat parts))]"
    using assms(1) s p(1) by (simp add: builtin_document_def split: if_split_asm)
  have n: "f \<noteq> ''image''" if "f \<in> set KEY_FIELDS" for f using that by (auto simp: KEY_FIELDS_def)
  have k: "\<not> list_ex (\<lambda>f. dget (dset ''image'' (JStr []) own) f = None) KEY_FIELDS"
    using assms(2) n by (auto simp: list_ex_iff)
  have h: "table_head [(''schema'', JStr SCHEMA), (''key'', JObj (dset ''image'' (JStr []) own)),
      (''run_id'', JStr ''builtin''), (''created'', JStr []), (''measurements'', JList []), (''decisions'', JList (concat parts))]
    = Inr (dset ''image'' (JStr []) own, [], [])"
    using k by (simp add: table_head_def dget_def dget_or_def SCHEMA_def SCHEMAS_def named_ints_def)
  let ?t = "\<lparr>tb_document = d, tb_key = dset ''image'' (JStr []) own, tb_builtin = True, tb_settings = [],
         tb_conditions = [], tb_intervals = fst f, tb_until = snd f\<rparr>"
  have "Table_new True d = Inr ?t"
    unfolding d Table_new_def json.case h
    using p(2) by (simp add: json_iter_def dget_or_def dget_def SCHEMA_def SCHEMAS_def)
  moreover have "mismatches ?t own = []" using n by (auto simp: mismatches_def filter_empty_conv)
  moreover have "\<forall>c\<in>set (chosen ?t). ch_schedule c = Some ''ring''"
    using p(3) by (auto simp: chosen_def ring_only_def list_all_iff)
  ultimately show ?thesis by (intro exI [of _ ?t]) simp
qed


lemma builtin_plan_accepted_witness:
  "\<exists>t. Table_new True pair_document = Inr t \<and> mismatches t pair_facts = [] \<and> tb_settings t = [] \<and> tb_conditions t = []
    \<and> (\<forall>c\<in>set (chosen t). ch_schedule c = Some ''ring'')"
proof (rule builtin_plan_accepted)
  show "builtin_document pair_facts COLLECTIVES [] = Inr (Some pair_document)" by code_simp
  show "\<forall>f\<in>set KEY_FIELDS. dget pair_facts f \<noteq> None" by code_simp
qed

section \<open>The choice among tables\<close>

lemma sort_tables:
  "fold (sort_table own) tables (m, u) = (m', u') \<Longrightarrow>
    m' = m @ filter (\<lambda>t. mismatches t own = []) (map snd tables)
    \<and> (\<forall>p. dget u' p \<noteq> None \<longleftrightarrow> dget u p \<noteq> None \<or> (\<exists>t. (p, t) \<in> set tables \<and> mismatches t own \<noteq> []))"
proof (induction tables arbitrary: m u)
  case (Cons e tables)
  obtain p t where e: "e = (p, t)" by (cases e)
  show ?case
  proof (cases "mismatches t own = []")
    case True
    then show ?thesis using Cons.IH [of "m @ [t]" u] Cons.prems by (auto simp: e sort_table_def Let_def)
  next
    case False
    then show ?thesis using Cons.IH [of m "dset p (mismatches t own) u"] Cons.prems by (auto simp: e sort_table_def Let_def)
  qed
qed simp

lemma several_digests: "length (remdups (map g xs)) \<le> 1 \<longleftrightarrow> (\<forall>x\<in>set xs. \<forall>y\<in>set xs. g x = g y)"
proof -
  have "length (remdups (map g xs)) = card (g ` set xs)" by (simp add: length_remdups_card_conv)
  moreover have "card (g ` set xs) \<le> 1 \<longleftrightarrow> (\<forall>x\<in>set xs. \<forall>y\<in>set xs. g x = g y)"
    by (subst card_le_Suc0_iff_eq [unfolded One_nat_def [symmetric]]) auto
  ultimately show ?thesis by simp
qed

text \<open>
  The choice among the tables a process names: when every path loads, a table is refused exactly when two that match the
  session differ; the one taken matches the session and is one of those named, none is taken only when none matches, and
  every path whose table does not match is reported.
\<close>

theorem table_selected:
  assumes "map_res (load_table read) paths = Inr tables"
  shows "case select_table read digest paths own of
      Inl _ \<Rightarrow> \<exists>t\<in>set tables. \<exists>t'\<in>set tables. mismatches t own = [] \<and> mismatches t' own = []
        \<and> digest (tb_document t) \<noteq> digest (tb_document t')
    | Inr (chosen_table, unmatched) \<Rightarrow>
        (\<forall>t\<in>set tables. \<forall>t'\<in>set tables. mismatches t own = [] \<longrightarrow> mismatches t' own = []
          \<longrightarrow> digest (tb_document t) = digest (tb_document t'))
        \<and> (case chosen_table of None \<Rightarrow> \<forall>t\<in>set tables. mismatches t own \<noteq> [] | Some t \<Rightarrow> t \<in> set tables \<and> mismatches t own = [])
        \<and> (\<forall>i<length paths. mismatches (tables ! i) own \<noteq> [] \<longrightarrow> dget unmatched (paths ! i) \<noteq> None)"
proof -
  have l: "length tables = length paths" using map_res_length [OF assms] .
  have m: "map_res (\<lambda>p. bind_res (load_table read p) (\<lambda>t. Inr (p, t))) paths = Inr (zip paths tables)"
    using assms unfolding map_res_Inr by (auto simp: list_all2_conv_all_nth)
  obtain ms u where f: "fold (sort_table own) (zip paths tables) ([], []) = (ms, u)" by fastforce
  note s = sort_tables [OF f]
  have ms: "ms = filter (\<lambda>t. mismatches t own = []) tables" using s l by simp
  have u: "dget u (paths ! i) \<noteq> None" if "i < length paths" "mismatches (tables ! i) own \<noteq> []" for i
    using s that l nth_mem [of i "zip paths tables"] by auto
  have d: "length (remdups (map (digest \<circ> tb_document) ms)) > 1 \<longleftrightarrow>
      (\<exists>t\<in>set ms. \<exists>t'\<in>set ms. digest (tb_document t) \<noteq> digest (tb_document t'))"
    using several_digests [of "digest \<circ> tb_document" ms] by (auto simp: not_le [symmetric])
  show ?thesis
  proof (cases "length (remdups (map (digest \<circ> tb_document) ms)) > 1")
    case True
    then have "select_table read digest paths own
        = Inl (TuningError ''several different tuning tables match this group shape and build'' [])"
      by (simp only: select_table_def m bind_res.simps f prod.case Let_def if_True)
    moreover have "\<exists>t\<in>set tables. \<exists>t'\<in>set tables. mismatches t own = [] \<and> mismatches t' own = []
        \<and> digest (tb_document t) \<noteq> digest (tb_document t')"
      using d [THEN iffD1, OF True] unfolding ms by auto
    ultimately show ?thesis by simp
  next
    case False
    have r: "select_table read digest paths own = Inr (case ms of [] \<Rightarrow> (None, u) | t # _ \<Rightarrow> (Some t, u))"
      using False by (simp only: select_table_def m bind_res.simps f prod.case Let_def if_False)
    have n: "\<not> (\<exists>t\<in>set ms. \<exists>t'\<in>set ms. digest (tb_document t) \<noteq> digest (tb_document t'))"
      using False by (simp only: d not_False_eq_True)
    have in_ms: "t \<in> set ms" if "t \<in> set tables" "mismatches t own = []" for t
      unfolding ms by (simp add: that)
    have same: "\<forall>t\<in>set tables. \<forall>t'\<in>set tables. mismatches t own = [] \<longrightarrow> mismatches t' own = []
          \<longrightarrow> digest (tb_document t) = digest (tb_document t')"
      using n in_ms by blast
    have us: "\<forall>i<length paths. mismatches (tables ! i) own \<noteq> [] \<longrightarrow> dget u (paths ! i) \<noteq> None" using u by blast
    show ?thesis
    proof (cases ms)
      case Nil
      then have "\<forall>t\<in>set tables. mismatches t own \<noteq> []" using ms by (simp add: filter_empty_conv)
      then show ?thesis unfolding r Nil list.case sum.case prod.case option.case by (intro conjI same us)
    next
      case (Cons t ts)
      then have "t \<in> set (filter (\<lambda>t. mismatches t own = []) tables)" using ms by simp
      then have "t \<in> set tables" "mismatches t own = []" by simp_all
      then show ?thesis unfolding r Cons list.case sum.case prod.case option.case by (intro conjI same us)
    qed
  qed
qed

lemma table_selected_witness:
  "case select_table (\<lambda>_. Some pair_document) id [''a''] pair_facts of
      Inl _ \<Rightarrow> False
    | Inr (chosen_table, unmatched) \<Rightarrow> chosen_table \<noteq> None"
proof -
  obtain t where t: "Table_new False pair_document = Inr t" "mismatches t pair_facts = []"
  proof -
    have "(case Table_new False pair_document of Inl _ \<Rightarrow> False | Inr t \<Rightarrow> mismatches t pair_facts = [])" by code_simp
    then show thesis using that by (auto split: sum.split_asm)
  qed
  then have "map_res (load_table (\<lambda>_. Some pair_document)) [''a''] = Inr [t]" by (simp add: load_table_def)
  from table_selected [OF this, of pair_facts id] t(2) show ?thesis
    by (auto split: sum.splits option.splits)
qed

end
