(* ===== verification/TuningBuild.thy ===== *)
theory TuningBuild
  imports TuningFacts
begin

text \<open>
  How a tuning table is built from measurements (\<open>spark_transport/sircl/sparkring_sircl/tuning.py\<close>): the cost model of a
  candidate, the points at which candidates compete, the intervals and the settings of a document.  Times are rationals,
  where the source computes in floating point; the two places that use logarithms and exponentials are arguments:
  \<open>spread low high step\<close> is a geometric mean of two sizes in units of 16 bytes, rounded, and \<open>blend lower upper size\<close> mixes the ratios at
  two sizes.
\<close>

section \<open>The cost model\<close>

text \<open>\<open>_solve\<close>: least squares by the normal equations, Gauss-Jordan elimination with pivoting.\<close>

definition normal_matrix :: "rat list list \<Rightarrow> rat list list" where
  "normal_matrix rows = (let n = length (hd rows) in
    map (\<lambda>i. map (\<lambda>j. sum_list (map (\<lambda>r. r ! i * r ! j) rows)) [0..<n]) [0..<n])"

definition normal_vector :: "rat list list \<Rightarrow> rat list \<Rightarrow> rat list" where
  "normal_vector rows values = map (\<lambda>i. sum_list (map2 (\<lambda>r v. r ! i * v) rows values)) [0..<length (hd rows)]"

definition swapped :: "nat \<Rightarrow> nat \<Rightarrow> 'a list \<Rightarrow> 'a list" where
  "swapped i j xs = xs[i := xs ! j, j := xs ! i]"

definition pivot_row :: "rat list list \<Rightarrow> nat \<Rightarrow> nat" where
  "pivot_row matrix column = arg_min_list (\<lambda>row. - \<bar>matrix ! row ! column\<bar>) [column..<length matrix]"

definition clear_row :: "nat \<Rightarrow> nat \<Rightarrow> rat list list \<times> rat list \<Rightarrow> rat list list \<times> rat list" where
  "clear_row column row system = (case system of (matrix, vector) \<Rightarrow>
    if row = column then system
    else let factor = matrix ! row ! column / matrix ! column ! column in
      (matrix[row := map2 (\<lambda>a b. a - factor * b) (matrix ! row) (matrix ! column)],
       vector[row := vector ! row - factor * vector ! column]))"

definition eliminate :: "nat \<Rightarrow> rat list list \<times> rat list \<Rightarrow> (rat list list \<times> rat list) option" where
  "eliminate column system = (case system of (matrix, vector) \<Rightarrow>
    let pivot = pivot_row matrix column in
    if \<bar>matrix ! pivot ! column\<bar> < 1 / 10 ^ 12 then None
    else Some (fold (clear_row column) [0..<length matrix] (swapped column pivot matrix, swapped column pivot vector)))"

fun eliminate_all :: "nat list \<Rightarrow> rat list list \<times> rat list \<Rightarrow> (rat list list \<times> rat list) option" where
  "eliminate_all [] system = Some system"
| "eliminate_all (column # columns) system = (case eliminate column system of
     None \<Rightarrow> None | Some reduced \<Rightarrow> eliminate_all columns reduced)"

definition solve :: "rat list list \<Rightarrow> rat list \<Rightarrow> rat list option" where
  "solve rows values = (let n = length (hd rows) in
    case eliminate_all [0..<n] (normal_matrix rows, normal_vector rows values) of
      None \<Rightarrow> None
    | Some (matrix, vector) \<Rightarrow> Some (map (\<lambda>i. vector ! i / matrix ! i ! i) [0..<n]))"

text \<open>\<open>fit\<close>: the first set of terms whose coefficients are not negative; bytes count in MiB.\<close>

definition fit_terms :: "int list \<Rightarrow> rat list \<Rightarrow> int list \<Rightarrow> bool \<times> bool \<Rightarrow> (rat \<times> rat \<times> rat) option" where
  "fit_terms sizes ys its kept = (case kept of (b, c) \<Rightarrow>
    if c \<and> list_all (\<lambda>n. n = 0) its then None
    else let rows = map2 (\<lambda>s i. [1] @ (if b then [of_int s / 1048576] else []) @ (if c then [of_int i] else [])) sizes its in
      if length rows < length (hd rows) then None
      else case solve rows ys of
          None \<Rightarrow> None
        | Some x \<Rightarrow> if list_ex (\<lambda>v. v < 0) (tl x) then None
            else Some (hd x, if b then x ! 1 / 1048576 else 0, if c then x ! (if b then 2 else 1) else 0))"

fun first_some :: "('a \<Rightarrow> 'b option) \<Rightarrow> 'a list \<Rightarrow> 'b option" where
  "first_some f [] = None"
| "first_some f (x # xs) = (case f x of None \<Rightarrow> first_some f xs | Some y \<Rightarrow> Some y)"

record Candidate =
  cd_choice :: Choice
  cd_points :: "(int, rat) dict"
  cd_coefficients :: "rat \<times> rat \<times> rat"

definition point_at :: "Candidate \<Rightarrow> int \<Rightarrow> rat" where
  "point_at c s = dget_or (cd_points c) s 0"

definition fit :: "Candidate \<Rightarrow> string \<Rightarrow> int \<Rightarrow> rat \<times> rat \<times> rat" where
  "fit c collective world =
    (let sizes = sort (map fst (cd_points c)); ys = map (point_at c) sizes;
         its = map (\<lambda>s. items (cd_choice c) collective s world) sizes
     in if length sizes = 1 then (hd ys, 0, 0)
        else case first_some (fit_terms sizes ys its) [(True, True), (True, False), (False, True), (False, False)] of
            Some found \<Rightarrow> found
          | None \<Rightarrow> (sum_list ys / of_nat (length ys), 0, 0))"

definition cost_model :: "Candidate \<Rightarrow> string \<Rightarrow> int \<Rightarrow> int \<Rightarrow> rat" where
  "cost_model c collective s world = (case cd_coefficients c of (a, b, d) \<Rightarrow>
    max (a + b * of_int s + d * of_int (items (cd_choice c) collective s world)) (1 / 10 ^ 6))"

text \<open>\<open>_estimate\<close>: None outside the measured sizes.\<close>

definition estimate ::
  "(int \<Rightarrow> int \<Rightarrow> int \<Rightarrow> rat \<Rightarrow> rat \<Rightarrow> rat) \<Rightarrow> Candidate \<Rightarrow> string \<Rightarrow> int \<Rightarrow> int \<Rightarrow> rat option" where
  "estimate blend c collective s world = (case dget (cd_points c) s of
     Some time \<Rightarrow> Some time
   | None \<Rightarrow>
       let sizes = sort (map fst (cd_points c)) in
       if sizes = [] \<or> s < hd sizes \<or> s > last sizes then None
       else let upper = hd (filter (\<lambda>x. x > s) sizes); lower = Max (set (filter (\<lambda>x. x < s) sizes));
                low_ratio = point_at c lower / cost_model c collective lower world;
                high_ratio = point_at c upper / cost_model c collective upper world
         in Some (cost_model c collective s world * blend lower upper s low_ratio high_ratio))"

section \<open>Intervals\<close>

definition points :: "(int \<Rightarrow> int \<Rightarrow> int \<Rightarrow> int) \<Rightarrow> int list \<Rightarrow> int list" where
  "points spread sizes = sort (remdups (sizes
    @ concat (map2 (\<lambda>low high. filter (\<lambda>p. low < p \<and> p < high) (map (\<lambda>step. spread low high step * 16) [1..7]))
        sizes (tl sizes))))"

record Row =
  rw_collective :: string
  rw_mode :: string
  rw_bytes :: int
  rw_choice :: Choice
  rw_time :: rat

definition add_row :: "Row \<Rightarrow> (Choice, (int, rat) dict) dict \<Rightarrow> (Choice, (int, rat) dict) dict" where
  "add_row r found = dset (rw_choice r) (dset (rw_bytes r) (rw_time r) (dget_or found (rw_choice r) [])) found"

definition candidates :: "string \<Rightarrow> Row list \<Rightarrow> int \<Rightarrow> Candidate list" where
  "candidates collective rows world = map (\<lambda>(choice, measured).
      let c = \<lparr>cd_choice = choice, cd_points = measured, cd_coefficients = (0, 0, 0)\<rparr> in
      c\<lparr>cd_coefficients := fit c collective world\<rparr>)
    (fold add_row rows [])"

definition add_point :: "(rat \<times> Choice) list \<Rightarrow> int \<Rightarrow> Interval list \<Rightarrow> Interval list" where
  "add_point estimates point found =
    (let sircl = filter (\<lambda>e. ch_backend (snd e) = ''sircl'') estimates in
     if sircl = [] then found
     else let best = arg_min_list (\<lambda>e. (fst e, label (snd e))) sircl;
              nccl = list_ex (\<lambda>e. ch_backend (snd e) = ''nccl'' \<and> fst e < fst best) estimates;
              current = \<lparr>iv_start = point, iv_choice = snd best, iv_nccl = nccl\<rparr>
       in if found = [] \<or> iv_choice (last found) \<noteq> snd best \<or> iv_nccl (last found) \<noteq> nccl then found @ [current] else found)"

text \<open>The two arguments of the cost model's logarithms.\<close>

type_synonym curves = "(int \<Rightarrow> int \<Rightarrow> int \<Rightarrow> int) \<times> (int \<Rightarrow> int \<Rightarrow> int \<Rightarrow> rat \<Rightarrow> rat \<Rightarrow> rat)"

definition decide_intervals :: "curves \<Rightarrow> string \<Rightarrow> Row list \<Rightarrow> int \<Rightarrow> Interval list" where
  "decide_intervals curves collective rows world =
    (let cs = candidates collective rows world;
         sizes = sort (remdups (concat (map (\<lambda>c. map fst (cd_points c)) cs)))
     in fold (\<lambda>p. add_point (List.map_filter (\<lambda>c.
            map_option (\<lambda>v. (v, cd_choice c)) (estimate (snd curves) c collective p world)) cs) p)
          (points (fst curves) sizes) [])"

definition single_op_limit :: "string \<Rightarrow> Row list \<Rightarrow> Interval list \<Rightarrow> int option" where
  "single_op_limit collective rows ivs =
    (if collective \<noteq> ''all_reduce'' \<or> ivs = [] then None
     else if ch_algorithm (iv_choice (last ivs)) = None then None
     else let measured = map rw_bytes (filter (\<lambda>r. ch_algorithm (rw_choice r) \<noteq> None \<and> ch_backend (rw_choice r) = ''sircl'') rows)
       in if measured = [] then None else Some (Max (set measured)))"

section \<open>Settings\<close>

definition MINIMUM_SETTINGS :: "string list" where
  "MINIMUM_SETTINGS = [''SIRCL_LINK_SLOTS'', ''SIRCL_LINK_SLOT_BYTES'', ''SIRCL_CHAIN_SLOT_BYTES'']"

text \<open>\<open>str.isdigit\<close> for the digits of \<open>int\<close>.\<close>

definition all_digits :: "string \<Rightarrow> bool" where
  "all_digits s \<longleftrightarrow> s \<noteq> [] \<and> list_all is_digit s"

definition settings_conflicts :: "(string, int) dict \<Rightarrow> (string, string) dict \<Rightarrow> (string \<times> string \<times> int) list" where
  "settings_conflicts settings given = List.map_filter (\<lambda>name.
      let written = strip (dget_or given name []) in
      case dget settings name of
        None \<Rightarrow> None
      | Some v \<Rightarrow> if all_digits written \<and> int (digits_val written) < v then Some (name, written, v) else None)
    MINIMUM_SETTINGS"

definition slot_for :: "int \<Rightarrow> int \<Rightarrow> int" where
  "slot_for most usual = max usual (cdiv most 4096 * 4096)"

definition is_link :: "string \<Rightarrow> Choice \<Rightarrow> bool" where
  "is_link collective c \<longleftrightarrow> ch_schedule c = Some ''ring'' \<or> ch_schedule c = Some ''chain'' \<and> collective \<noteq> ''all_reduce''"

definition is_chain :: "string \<Rightarrow> Choice \<Rightarrow> bool" where
  "is_chain collective c \<longleftrightarrow> \<not> is_link collective c \<and> ch_schedule c = Some ''chain''"

definition is_pieces :: "string \<Rightarrow> Choice \<Rightarrow> bool" where
  "is_pieces collective c \<longleftrightarrow> ch_schedule c = Some ''pieces'' \<and> collective = ''all_reduce''"

text \<open>The pieces the choices of one kind name; a piece of 0 names none.\<close>

definition named_pieces :: "(string \<Rightarrow> Choice \<Rightarrow> bool) \<Rightarrow> (string \<times> Choice) list \<Rightarrow> int list" where
  "named_pieces sort_of cs = List.map_filter (\<lambda>(k, c). case ch_piece c of
      Some p \<Rightarrow> if sort_of k c \<and> p \<noteq> 0 then Some p else None | None \<Rightarrow> None) cs"

definition largest :: "int list \<Rightarrow> int" where
  "largest ps = (if ps = [] then 0 else Max (set ps))"

type_synonym decision = "string \<times> string \<times> Interval list \<times> int option"

definition decision_choices :: "decision list \<Rightarrow> (string \<times> Choice) list" where
  "decision_choices ds = concat (map (\<lambda>(collective, _, ivs, _). map (\<lambda>i. (collective, iv_choice i)) ivs) ds)"

text \<open>A field of the session's \<open>stats()\<close> that is given and not 0.\<close>

definition stat :: "(string, int) dict \<Rightarrow> string \<Rightarrow> int option" where
  "stat session k = (case dget session k of None \<Rightarrow> None | Some v \<Rightarrow> if v = 0 then None else Some v)"

definition setting_when :: "bool \<Rightarrow> string \<Rightarrow> int option \<Rightarrow> (int \<Rightarrow> int) \<Rightarrow> (string, int) dict" where
  "setting_when wanted name v f = (case v of None \<Rightarrow> [] | Some n \<Rightarrow> if wanted then [(name, f n)] else [])"

definition table_settings :: "decision list \<Rightarrow> (string, int) dict \<Rightarrow> (string, int) dict" where
  "table_settings ds session =
    (let cs = decision_choices ds;
         links = list_ex (\<lambda>(k, c). is_link k c) cs; chain = list_ex (\<lambda>(k, c). is_chain k c) cs;
         pieces = list_ex (\<lambda>(k, c). is_pieces k c) cs
     in setting_when links ''SIRCL_LINK_SLOTS'' (stat session ''link_slots'') (\<lambda>n. n)
      @ setting_when links ''SIRCL_LINK_SLOT_BYTES'' (stat session ''link_slot_bytes'')
          (\<lambda>n. min n (slot_for (largest (named_pieces is_link cs)) (512 * 2 ^ 10)))
      @ setting_when chain ''SIRCL_CHAIN_SLOT_BYTES'' (stat session ''chain_slot_bytes'')
          (\<lambda>n. min n (slot_for (largest (named_pieces is_chain cs)) (2 ^ 20)))
      @ setting_when pieces ''SIRCL_LARGE_PIECE_BYTES'' (stat session ''large_piece_bytes'') (\<lambda>n. n))"

section \<open>Documents\<close>

text \<open>\<open>round(x, 3)\<close>: to the nearest, ties to even.\<close>

definition round3 :: "rat \<Rightarrow> rat" where
  "round3 x = (let y = x * 1000; f = floor y in
    of_int (if y - of_int f < 1 / 2 \<or> y - of_int f = 1 / 2 \<and> even f then f else f + 1) / 1000)"

text \<open>\<open>json.dumps(row["choice"], sort_keys=True)\<close>.\<close>

definition field_text :: "string \<times> json \<Rightarrow> string" where
  "field_text e = CHR 0x22 # fst e @ [CHR 0x22, CHR '':'', CHR '' '']
    @ (case snd e of JStr s \<Rightarrow> CHR 0x22 # s @ [CHR 0x22] | v \<Rightarrow> json_str v)"

fun join_comma :: "string list \<Rightarrow> string" where
  "join_comma [] = []"
| "join_comma [w] = w"
| "join_comma (w # ws) = w @ '', '' @ join_comma ws"

definition choice_dump :: "Choice \<Rightarrow> string" where
  "choice_dump c = (case choice_json c of JObj d \<Rightarrow> CHR ''{'' # join_comma (map field_text (sort_key fst d)) @ ''}'' | _ \<Rightarrow> [])"

definition read_row :: "string \<times> string \<times> int \<times> json \<times> rat \<Rightarrow> py_error + Row" where
  "read_row r = (case r of (collective, mode, nbytes, choice, time) \<Rightarrow>
    bind_res (from_json choice) (\<lambda>c. Inr \<lparr>rw_collective = collective, rw_mode = mode, rw_bytes = nbytes, rw_choice = c,
      rw_time = round3 time\<rparr>))"

definition row_order :: "Row \<Rightarrow> string \<times> string \<times> int \<times> string" where
  "row_order r = (rw_collective r, rw_mode r, rw_bytes r, choice_dump (rw_choice r))"

definition row_json :: "Row \<Rightarrow> json" where
  "row_json r = JObj [(''collective'', JStr (rw_collective r)), (''mode'', JStr (rw_mode r)), (''bytes'', JNum (rw_bytes r)),
    (''choice'', choice_json (rw_choice r)), (''p50_us'', JReal (rw_time r))]"

definition interval_json :: "Interval \<Rightarrow> json" where
  "interval_json i = JObj [(''from'', JNum (iv_start i)), (''choice'', choice_json (iv_choice i)), (''nccl'', JBool (iv_nccl i))]"

definition decision_json :: "decision \<Rightarrow> json" where
  "decision_json d = (case d of (collective, mode, ivs, until) \<Rightarrow>
    JObj ([(''collective'', JStr collective), (''mode'', JStr mode), (''intervals'', JList (map interval_json ivs))]
      @ int_field ''until'' until))"

definition decision_for :: "curves \<Rightarrow> Row list \<Rightarrow> int \<Rightarrow> string \<times> string \<Rightarrow> decision list" where
  "decision_for curves rows world k =
    (let subset = filter (\<lambda>r. rw_collective r = fst k \<and> rw_mode r = snd k) rows;
         ivs = decide_intervals curves (fst k) subset world
     in if subset = [] \<or> ivs = [] then [] else [(fst k, snd k, ivs, single_op_limit (fst k) subset ivs)])"

definition ints_json :: "(string, int) dict \<Rightarrow> json" where
  "ints_json d = JObj (map (\<lambda>(k, n). (k, JNum n)) d)"

definition build_document ::
  "curves \<Rightarrow> (string, json) dict \<Rightarrow> (string \<times> string \<times> int \<times> json \<times> rat) list \<Rightarrow> string \<Rightarrow> string
    \<Rightarrow> (string, int) dict \<Rightarrow> (string, int) dict \<Rightarrow> py_error + json" where
  "build_document curves key rows run_id created session conditions =
    bind_res (json_get (JObj key) ''world'') (\<lambda>w. bind_res (json_int w) (\<lambda>world.
    bind_res (map_res read_row rows) (\<lambda>given.
    let measurements = sort_key row_order given;
        decisions = concat (map (decision_for curves measurements world) (List.product COLLECTIVES MODES));
        settings = table_settings decisions session;
        document = JObj ([(''schema'', JStr SCHEMA), (''key'', JObj key), (''run_id'', JStr run_id), (''created'', JStr created),
            (''measurements'', JList (map row_json measurements)), (''decisions'', JList (map decision_json decisions))]
          @ (if settings = [] then [] else [(''settings'', ints_json settings)])
          @ (if conditions = [] then [] else [(''conditions'', ints_json conditions)]))
    in bind_res (Table_new False document) (\<lambda>_. Inr document))))"

end
