(* ===== verification/TuningBuildFacts.thy ===== *)
theory TuningBuildFacts
  imports TuningBuild
begin

text \<open>
  Facts about the tables built from measurements: the coefficients of a fitted cost model are not negative, the choice in
  force at every point of the competition is the fastest there, and the document passes the table's own checks.
\<close>

section \<open>Points and intervals\<close>

lemma points_sorted: "sorted_wrt (<) (points spread sizes)"
  by (simp add: points_def strict_sorted_iff)

lemma points_positive:
  assumes "p \<in> set (points spread sizes)" "\<forall>s\<in>set sizes. 1 \<le> s"
  shows "1 \<le> p"
proof (cases "p \<in> set sizes")
  case False
  then obtain l h where "(l, h) \<in> set (zip sizes (tl sizes))" "l < p" using assms(1) by (auto simp: points_def)
  then show ?thesis using assms(2) set_zip_leftD by fastforce
qed (use assms in simp)

text \<open>Both the winner and whether NCCL beats it, of the estimates at one point.\<close>

definition winner :: "(rat \<times> Choice) list \<Rightarrow> (rat \<times> Choice) option" where
  "winner estimates = (let sircl = filter (\<lambda>e. ch_backend (snd e) = ''sircl'') estimates in
    if sircl = [] then None else Some (arg_min_list (\<lambda>e. (fst e, label (snd e))) sircl))"

definition nccl_faster :: "(rat \<times> Choice) list \<Rightarrow> rat \<Rightarrow> bool" where
  "nccl_faster estimates time = list_ex (\<lambda>e. ch_backend (snd e) = ''nccl'' \<and> fst e < time) estimates"

lemma winner_fastest:
  assumes "winner es = Some w"
  shows "w \<in> set es \<and> ch_backend (snd w) = ''sircl'' \<and> (\<forall>e\<in>set es. ch_backend (snd e) = ''sircl'' \<longrightarrow> fst w \<le> fst e)"
proof -
  let ?s = "filter (\<lambda>e. ch_backend (snd e) = ''sircl'') es" and ?f = "\<lambda>e. (fst e, label (snd e))"
  have ne: "?s \<noteq> []" and w: "w = arg_min_list ?f ?s" using assms by (auto simp: winner_def Let_def split: if_split_asm)
  have "w \<in> set ?s" unfolding w using ne by (rule arg_min_list_in)
  moreover have m: "?f w = Min (?f ` set ?s)" unfolding w by (rule f_arg_min_list_f [OF ne])
  have "?f w \<le> ?f e" if "e \<in> set ?s" for e
    unfolding m by (rule Min_le, rule finite_imageI, rule finite_set, rule imageI, rule that)
  then have "fst w \<le> fst e" if "e \<in> set ?s" for e using that by (fastforce simp: less_eq_prod_def)
  ultimately show ?thesis by simp
qed

lemma add_point_winner:
  "add_point es p ivs = (case winner es of None \<Rightarrow> ivs
    | Some w \<Rightarrow> if ivs = [] \<or> iv_choice (last ivs) \<noteq> snd w \<or> iv_nccl (last ivs) \<noteq> nccl_faster es (fst w)
        then ivs @ [\<lparr>iv_start = p, iv_choice = snd w, iv_nccl = nccl_faster es (fst w)\<rparr>] else ivs)"
  by (simp add: add_point_def winner_def nccl_faster_def Let_def)

definition compete :: "(int \<Rightarrow> (rat \<times> Choice) list) \<Rightarrow> int list \<Rightarrow> Interval list" where
  "compete es ps = fold (\<lambda>p. add_point (es p) p) ps []"

lemma compete_snoc: "compete es (ps @ [p]) = add_point (es p) p (compete es ps)"
  by (simp add: compete_def)

lemma compete_append: "\<exists>more. compete es (ps @ qs) = compete es ps @ more \<and> iv_start ` set more \<subseteq> set qs"
proof (induction qs rule: rev_induct)
  case (snoc q qs)
  then obtain more where m: "compete es (ps @ qs) = compete es ps @ more" "iv_start ` set more \<subseteq> set qs" by blast
  have "\<exists>x. compete es (ps @ qs @ [q]) = compete es (ps @ qs) @ x \<and> iv_start ` set x \<subseteq> {q}"
    using compete_snoc [of es "ps @ qs" q] by (auto simp: add_point_winner split: option.splits)
  then show ?case using m by fastforce
qed simp

lemma compete_starts: "iv_start ` set (compete es ps) \<subseteq> set ps"
  using compete_append [of es "[]" ps] by (auto simp: compete_def)

lemma compete_sorted: "sorted_wrt (<) ps \<Longrightarrow> sorted_wrt (<) (map iv_start (compete es ps))"
proof (induction ps rule: rev_induct)
  case (snoc p ps)
  then have "sorted_wrt (<) (map iv_start (compete es ps))" "\<forall>i\<in>set (compete es ps). iv_start i < p"
    using compete_starts [of es ps] by (auto simp: sorted_wrt_append)
  then show ?case by (auto simp: compete_snoc add_point_winner sorted_wrt_append split: option.splits)
qed (simp add: compete_def)

lemma compete_each:
  "i \<in> set (compete es ps) \<Longrightarrow> \<exists>w. iv_start i \<in> set ps \<and> winner (es (iv_start i)) = Some w \<and> iv_choice i = snd w"
proof (induction ps rule: rev_induct)
  case (snoc p ps)
  then consider "i \<in> set (compete es ps)" | w where "winner (es p) = Some w" "iv_start i = p" "iv_choice i = snd w"
    by (auto simp: compete_snoc add_point_winner split: option.split_asm if_split_asm)
  then show ?case using snoc.IH by cases auto
qed (simp add: compete_def)

lemma compete_in_force:
  assumes "winner (es p) = Some w" "p \<in> set ps" "sorted_wrt (<) ps"
  shows "\<exists>i. last (filter (\<lambda>i. iv_start i \<le> p) (compete es ps)) = i \<and> filter (\<lambda>i. iv_start i \<le> p) (compete es ps) \<noteq> []
    \<and> iv_choice i = snd w \<and> iv_nccl i = nccl_faster (es p) (fst w)"
proof -
  obtain us vs where ps: "ps = us @ p # vs" using assms(2) by (meson split_list)
  let ?r = "compete es (us @ [p])"
  obtain more where m: "compete es ps = ?r @ more" "iv_start ` set more \<subseteq> set vs"
    using compete_append [of es "us @ [p]" vs] ps by auto
  have "\<forall>i\<in>set ?r. iv_start i \<le> p" using compete_starts [of es "us @ [p]"] assms(3) ps by (fastforce simp: sorted_wrt_append)
  moreover have "\<forall>i\<in>set more. \<not> iv_start i \<le> p" using m(2) assms(3) ps by (fastforce simp: sorted_wrt_append)
  ultimately have f: "filter (\<lambda>i. iv_start i \<le> p) (compete es ps) = ?r" unfolding m(1) by (simp add: filter_id_conv filter_empty_conv)
  have "?r \<noteq> [] \<and> iv_choice (last ?r) = snd w \<and> iv_nccl (last ?r) = nccl_faster (es p) (fst w)"
    using assms(1) by (auto simp: compete_snoc add_point_winner)
  then show ?thesis unfolding f by blast
qed

section \<open>Candidates\<close>

lemma add_rows_measured:
  "\<exists>pts. (c, pts) \<in> set (fold add_row rows found) \<and> s \<in> fst ` set pts \<Longrightarrow>
    (\<exists>r\<in>set rows. rw_choice r = c \<and> rw_bytes r = s) \<or> (\<exists>pts. dget found c = Some pts \<and> s \<in> fst ` set pts) \<or> \<not> distinct (map fst found)"
proof (induction rows arbitrary: found)
  case Nil
  then show ?case by (cases "distinct (map fst found)") (auto dest: dget_in)
next
  case (Cons r rows)
  let ?f = "add_row r found"
  have "dget ?f c = (if c = rw_choice r then Some (dset (rw_bytes r) (rw_time r) (dget_or found c [])) else dget found c)"
    by (simp add: add_row_def)
  moreover have "distinct (map fst found) \<Longrightarrow> distinct (map fst ?f)" by (simp add: add_row_def)
  moreover have "s \<in> fst ` set (dget_or found c []) \<Longrightarrow> \<exists>pts. dget found c = Some pts \<and> s \<in> fst ` set pts"
    by (cases "dget found c") (simp_all add: dget_or_dget)
  ultimately show ?case using Cons.IH [of ?f] Cons.prems by (auto split: if_split_asm)
qed

lemma candidate_measured:
  assumes "c \<in> set (candidates collective rows world)" "s \<in> fst ` set (cd_points c)"
  shows "\<exists>r\<in>set rows. rw_choice r = cd_choice c \<and> rw_bytes r = s"
proof -
  have "(cd_choice c, cd_points c) \<in> set (fold add_row rows [])" using assms(1) by (auto simp: candidates_def Let_def)
  then have "\<exists>pts. (cd_choice c, pts) \<in> set (fold add_row rows []) \<and> s \<in> fst ` set pts" using assms(2) by blast
  from add_rows_measured [OF this] show ?thesis by simp
qed

lemma estimate_measured:
  assumes "estimate blend c collective p world = Some v"
  shows "\<exists>s\<in>fst ` set (cd_points c). p \<le> s"
proof (cases "dget (cd_points c) p")
  case None
  let ?k = "sort (map fst (cd_points c))"
  have "?k \<noteq> []" "p \<le> last ?k"
    using assms None unfolding estimate_def Let_def by (simp_all split: if_split_asm)
  then have "last ?k \<in> fst ` set (cd_points c)" using last_in_set [of ?k] by simp
  then show ?thesis using \<open>p \<le> last ?k\<close> by (rule_tac bexI)
next
  case (Some v)
  then show ?thesis using dget_Some_in by force
qed

definition estimates_at :: "curves \<Rightarrow> string \<Rightarrow> Row list \<Rightarrow> int \<Rightarrow> int \<Rightarrow> (rat \<times> Choice) list" where
  "estimates_at curves collective rows world p = List.map_filter (\<lambda>c.
     map_option (\<lambda>v. (v, cd_choice c)) (estimate (snd curves) c collective p world)) (candidates collective rows world)"

definition measured_sizes :: "string \<Rightarrow> Row list \<Rightarrow> int \<Rightarrow> int list" where
  "measured_sizes collective rows world
    = sort (remdups (concat (map (\<lambda>c. map fst (cd_points c)) (candidates collective rows world))))"

lemma decide_intervals_compete:
  "decide_intervals curves collective rows world
    = compete (estimates_at curves collective rows world) (points (fst curves) (measured_sizes collective rows world))"
  by (simp add: decide_intervals_def compete_def estimates_at_def [abs_def] measured_sizes_def Let_def)

lemma interval_measured:
  assumes "i \<in> set (decide_intervals curves collective rows world)"
  shows "ch_backend (iv_choice i) = ''sircl'' \<and> (\<exists>r\<in>set rows. rw_choice r = iv_choice i \<and> iv_start i \<le> rw_bytes r)"
proof -
  obtain w where w: "winner (estimates_at curves collective rows world (iv_start i)) = Some w" "iv_choice i = snd w"
    using compete_each assms unfolding decide_intervals_compete by blast
  note f = winner_fastest [OF w(1)]
  have "w \<in> set (estimates_at curves collective rows world (iv_start i))" using f by blast
  then have "\<exists>c\<in>set (candidates collective rows world).
      map_option (\<lambda>v. (v, cd_choice c)) (estimate (snd curves) c collective (iv_start i) world) = Some w"
    unfolding estimates_at_def set_map_filter by blast
  then obtain c v where c: "c \<in> set (candidates collective rows world)"
    "estimate (snd curves) c collective (iv_start i) world = Some v" "(v, cd_choice c) = w"
    unfolding map_option_eq_Some by blast
  obtain s where s: "s \<in> fst ` set (cd_points c)" "iv_start i \<le> s" using estimate_measured [OF c(2)] by blast
  obtain r where r: "r \<in> set rows" "rw_choice r = cd_choice c" "rw_bytes r = s" using candidate_measured [OF c(1) s(1)] by blast
  show ?thesis using conjunct1 [OF conjunct2 [OF f]] w(2) c(3) [symmetric] s(2) r
    by (intro conjI bexI [of _ r]) simp_all
qed

lemma decide_intervals_ok:
  assumes "\<forall>r\<in>set rows. 1 \<le> rw_bytes r \<and> Choice_new (rw_choice r) = Inr (rw_choice r)"
    "decide_intervals curves collective rows world \<noteq> []"
  shows "intervals_ok (decide_intervals curves collective rows world)"
proof -
  let ?d = "decide_intervals curves collective rows world" and ?s = "measured_sizes collective rows world"
  have "\<forall>s\<in>set ?s. 1 \<le> s" using assms(1) candidate_measured by (fastforce simp: measured_sizes_def)
  then have "1 \<le> iv_start i" if "i \<in> set ?d" for i
    using that points_positive compete_starts unfolding decide_intervals_compete by blast
  moreover have "sorted_wrt (<) (map iv_start ?d)"
    unfolding decide_intervals_compete by (rule compete_sorted [OF points_sorted])
  ultimately show ?thesis using assms interval_measured unfolding intervals_ok_def by (metis list.set_sel(1))
qed

lemma single_op_limit_ok:
  assumes "single_op_limit collective rows ivs = Some u" "ivs = decide_intervals curves collective rows world"
  shows "iv_start (last ivs) \<le> u"
proof -
  let ?m = "map rw_bytes (filter (\<lambda>r. ch_algorithm (rw_choice r) \<noteq> None \<and> ch_backend (rw_choice r) = ''sircl'') rows)"
  have u: "u = Max (set ?m)" "ivs \<noteq> []" "ch_algorithm (iv_choice (last ivs)) \<noteq> None"
    using assms(1) by (auto simp: single_op_limit_def Let_def split: if_split_asm)
  have "last ivs \<in> set (decide_intervals curves collective rows world)" using u(2) assms(2) by simp
  from interval_measured [OF this] obtain r where r: "r \<in> set rows" "rw_choice r = iv_choice (last ivs)"
    "iv_start (last ivs) \<le> rw_bytes r" "ch_backend (rw_choice r) = ''sircl''" by auto
  have "rw_bytes r \<in> set ?m" using r u(3) by simp
  then have "rw_bytes r \<le> u" unfolding u(1) by (rule Max_ge [OF finite_set])
  then show ?thesis using r(3) by linarith
qed


section \<open>The document passes the table's checks\<close>

lemma sorted_starts_iff: "xs = sort (remdups xs) \<longleftrightarrow> sorted_wrt (<) (xs :: int list)"
  by (metis sorted_starts strict_sorted_iff remdups_id_iff_distinct sorted_sort_id)

lemma read_interval_json: "Choice_new (iv_choice i) = Inr (iv_choice i) \<Longrightarrow> read_interval (interval_json i) = Inr i"
  by (simp add: read_interval_def interval_json_def json_get_def dget_def json_int_def json_bool_def from_choice_json)

definition decision_ok :: "decision \<Rightarrow> bool" where
  "decision_ok d = (case d of (collective, mode, ivs, until) \<Rightarrow> collective \<in> set COLLECTIVES \<and> mode \<in> set MODES
    \<and> intervals_ok ivs \<and> (case until of None \<Rightarrow> True | Some u \<Rightarrow> iv_start (last ivs) \<le> u))"

definition decision_key :: "decision \<Rightarrow> string \<times> string" where
  "decision_key d = (fst d, fst (snd d))"

lemma add_decision_json:
  assumes "decision_ok d" "dget intervals (decision_key d) = None"
  shows "\<exists>until'. add_decision False (decision_json d) (intervals, until) = Inr (dset (decision_key d) (fst (snd (snd d))) intervals, until')"
proof -
  obtain c m ivs u where d: "d = (c, m, ivs, u)" by (rule prod_cases4)
  have o: "c \<in> set COLLECTIVES" "m \<in> set MODES" "intervals_ok ivs" "u \<noteq> None \<Longrightarrow> iv_start (last ivs) \<le> the u"
    using assms(1) by (auto simp: decision_ok_def d)
  have r: "map_res read_interval (map interval_json ivs) = Inr ivs"
    using o(3) read_interval_json by (auto simp: intervals_ok_def map_res_Inr list_all2_conv_all_nth)
  have k: "check_intervals False ivs = Inr ()"
    using o(3) sorted_starts_iff [of "map iv_start ivs"]
    by (simp add: check_intervals_def intervals_ok_def Let_def list_ex_iff hd_map)
  have g: "json_get (decision_json d) ''collective'' = Inr (JStr c)" "json_get (decision_json d) ''mode'' = Inr (JStr m)"
    "json_get (decision_json d) ''intervals'' = Inr (JList (map interval_json ivs))"
    "json_get (decision_json d) ''until'' = (case u of None \<Rightarrow> Inl (KeyErr ''until'' []) | Some n \<Rightarrow> Inr (JNum n))"
    by (cases u; simp add: d decision_json_def json_get_def dget_def int_field_def)+
  have n: "dget intervals (c, m) = None" using assms(2) by (simp add: decision_key_def d)
  have p: "\<exists>until'. put_decision (c, m) (decision_json d) ivs (intervals, until) = Inr (dset (c, m) ivs intervals, until')"
    unfolding put_decision_def g prod.case n using o(4) by (cases u) simp_all
  show ?thesis
    using p o(1,2) unfolding add_decision_def g bind_res.simps by (simp add: json_str_def json_iter_def r k decision_key_def d)
qed

lemma add_decisions_json:
  assumes "\<forall>d\<in>set ds. decision_ok d" "distinct (map decision_key ds)" "\<forall>d\<in>set ds. dget intervals (decision_key d) = None"
  shows "\<exists>f. fold_res (add_decision False) (map decision_json ds) (intervals, until) = Inr f"
  using assms
proof (induction ds arbitrary: intervals until)
  case (Cons d ds)
  obtain until' where a: "add_decision False (decision_json d) (intervals, until)
      = Inr (dset (decision_key d) (fst (snd (snd d))) intervals, until')"
    using add_decision_json [of d intervals until] Cons.prems by auto
  have "\<forall>e\<in>set ds. decision_key e \<noteq> decision_key d" using Cons.prems(2) by (metis image_eqI list.set_map list.simps(9) distinct.simps(2))
  then show ?case using Cons.IH [of "dset (decision_key d) (fst (snd (snd d))) intervals" until'] Cons.prems a by simp
qed simp

lemma decision_for_ok:
  assumes "\<forall>r\<in>set rows. 1 \<le> rw_bytes r \<and> Choice_new (rw_choice r) = Inr (rw_choice r)"
    "k \<in> set (List.product COLLECTIVES MODES)" "d \<in> set (decision_for curves rows world k)"
  shows "decision_ok d \<and> decision_key d = k"
proof -
  obtain c m where k: "k = (c, m)" by (cases k)
  let ?s = "filter (\<lambda>r. rw_collective r = c \<and> rw_mode r = m) rows"
  let ?i = "decide_intervals curves c ?s world"
  have d: "?i \<noteq> []" "d = (c, m, ?i, single_op_limit c ?s ?i)"
    using assms(3) by (auto simp: decision_for_def Let_def k split: if_split_asm)
  have "intervals_ok ?i" using assms(1) d(1) by (intro decide_intervals_ok) auto
  moreover have "c \<in> set COLLECTIVES" "m \<in> set MODES" using assms(2) by (auto simp: k)
  ultimately show ?thesis
    using single_op_limit_ok [of c ?s ?i _ curves world] by (auto simp: decision_ok_def decision_key_def k d(2) split: option.splits)
qed

lemma decision_keys: "map decision_key (concat (map (decision_for curves rows world) ks))
    = filter (\<lambda>k. decision_for curves rows world k \<noteq> []) ks"
  by (induction ks) (auto simp: decision_for_def decision_key_def Let_def)

lemma named_ints_json: "named_ints names (ints_json d) = (if \<forall>e\<in>set d. fst e \<in> set names \<and> 1 \<le> snd e then Some d else None)"
  by (auto simp: named_ints_def ints_json_def list_all_iff positive_int_def json_num_def comp_def case_prod_beta)

lemma table_settings_valid:
  assumes "\<forall>e\<in>set session. 0 \<le> snd e" "e \<in> set (table_settings ds session)"
  shows "fst e \<in> set SETTINGS \<and> 1 \<le> snd e"
proof -
  have s: "1 \<le> n" if "stat session k = Some n" for k n
    using that assms(1) dget_Some_in [of session k] by (fastforce simp: stat_def split: option.split_asm if_split_asm)
  have w: "x \<in> set (setting_when b k v f) \<Longrightarrow> \<exists>n. v = Some n \<and> x = (k, f n)" for x b k v f
    by (auto simp: setting_when_def split: option.split_asm if_split_asm)
  have m: "1 \<le> slot_for a k" if "1 \<le> k" for a k using that by (auto simp: slot_for_def)
  show ?thesis
    using assms(2) unfolding table_settings_def Let_def set_append
    by (elim UnE) (drule w, elim exE conjE, simp add: SETTINGS_def s m)+
qed



definition sample_rows :: "(string \<times> string \<times> int \<times> json \<times> rat) list" where
  "sample_rows = [(''all_reduce'', ''eager'', 1024, JObj [(''algorithm'', JStr ''oneshot'')], 9),
    (''all_reduce'', ''eager'', 4096, JObj [(''algorithm'', JStr ''oneshot'')], 21),
    (''all_reduce'', ''eager'', 4096, JObj [(''schedule'', JStr ''ring''), (''piece'', JNum 1024)], 18)]"

definition sample_session :: "(string, int) dict" where
  "sample_session = [(''link_slots'', 16), (''link_slot_bytes'', 2 ^ 20)]"

definition sample_curves :: curves where
  "sample_curves = (\<lambda>low high step. (low + high) div 32, \<lambda>lower upper s low_ratio high_ratio. (low_ratio + high_ratio) / 2)"


section \<open>What a built table decides\<close>

lemma estimates_at_iff: "(v, c) \<in> set (estimates_at curves collective rows world p) \<longleftrightarrow>
    (\<exists>x\<in>set (candidates collective rows world). cd_choice x = c \<and> estimate (snd curves) x collective p world = Some v)"
  unfolding estimates_at_def set_map_filter by (auto simp: map_option_eq_Some)

lemma nccl_faster_iff: "nccl_faster es t \<longleftrightarrow> (\<exists>v c. (v, c) \<in> set es \<and> ch_backend c = ''nccl'' \<and> v < t)"
  by (force simp: nccl_faster_def list_ex_iff)


definition two_rows :: "Row list" where
  "two_rows = [\<lparr>rw_collective = ''all_reduce'', rw_mode = ''eager'', rw_bytes = 1024,
      rw_choice = default_choice\<lparr>ch_algorithm := Some ''oneshot''\<rparr>, rw_time = 9\<rparr>,
    \<lparr>rw_collective = ''all_reduce'', rw_mode = ''eager'', rw_bytes = 1024,
      rw_choice = default_choice\<lparr>ch_algorithm := Some ''twoshot''\<rparr>, rw_time = 7\<rparr>]"


text \<open>
  A recorded slot holds the chosen pieces: a link piece or a chain chunk of a decision that fits the slot of the session it was
  measured in fits the slot the table records, which is no larger than that session's.
\<close>

theorem recorded_slots_hold:
  assumes "(collective, mode, ivs, until) \<in> set ds" "i \<in> set ivs" "ch_piece (iv_choice i) = Some p" "0 < p" "p \<le> n"
  shows "(is_link collective (iv_choice i) \<and> dget session ''link_slot_bytes'' = Some n
      \<longrightarrow> (\<exists>s. dget (table_settings ds session) ''SIRCL_LINK_SLOT_BYTES'' = Some s \<and> p \<le> s \<and> s \<le> n))
    \<and> (is_chain collective (iv_choice i) \<and> dget session ''chain_slot_bytes'' = Some n
      \<longrightarrow> (\<exists>s. dget (table_settings ds session) ''SIRCL_CHAIN_SLOT_BYTES'' = Some s \<and> p \<le> s \<and> s \<le> n))"
proof -
  let ?cs = "decision_choices ds"
  have c: "(collective, iv_choice i) \<in> set ?cs" using assms(1,2) by (fastforce simp: decision_choices_def)
  have large: "p \<le> slot_for (largest (named_pieces k ?cs)) d" if "k collective (iv_choice i)" for k d
  proof -
    have "p \<in> set (named_pieces k ?cs)"
      unfolding named_pieces_def set_map_filter using c assms(3,4) that by (auto intro!: bexI [of _ "(collective, iv_choice i)"])
    then have "p \<le> largest (named_pieces k ?cs)" by (auto simp: largest_def)
    then show ?thesis using cdiv_bounds [of 4096 "largest (named_pieces k ?cs)"] by (simp add: slot_for_def le_max_iff_disj)
  qed
  have w: "list_ex (\<lambda>(k, c). f k c) ?cs" if "f collective (iv_choice i)" for f using c that by (auto simp: list_ex_iff)
  have st: "stat session field = Some n" if "dget session field = Some n" for field using that assms(4,5) by (simp add: stat_def)
  note simps = table_settings_def Let_def dget_def map_of_append setting_when_def
  show ?thesis
  proof (intro conjI impI; elim conjE)
    assume "is_link collective (iv_choice i)" "dget session ''link_slot_bytes'' = Some n"
    then show "\<exists>s. dget (table_settings ds session) ''SIRCL_LINK_SLOT_BYTES'' = Some s \<and> p \<le> s \<and> s \<le> n"
      using large [of is_link] w [of is_link] st assms(5) by (auto simp: simps split: option.splits)
  next
    assume "is_chain collective (iv_choice i)" "dget session ''chain_slot_bytes'' = Some n"
    then show "\<exists>s. dget (table_settings ds session) ''SIRCL_CHAIN_SLOT_BYTES'' = Some s \<and> p \<le> s \<and> s \<le> n"
      using large [of is_chain] w [of is_chain] st assms(5) by (auto simp: simps split: option.splits)
  qed
qed

lemma recorded_slots_hold_witness:
  "\<exists>s. dget (table_settings [(''all_gather'', ''eager'', [\<lparr>iv_start = 16,
        iv_choice = default_choice\<lparr>ch_schedule := Some ''ring'', ch_piece := Some 786432\<rparr>, iv_nccl = False\<rparr>], None)]
      sample_session) ''SIRCL_LINK_SLOT_BYTES'' = Some s \<and> 786432 \<le> s \<and> s \<le> 2 ^ 20"
proof -
  let ?i = "\<lparr>iv_start = 16, iv_choice = default_choice\<lparr>ch_schedule := Some ''ring'', ch_piece := Some 786432\<rparr>, iv_nccl = False\<rparr>"
  have "is_link ''all_gather'' (iv_choice ?i) \<and> dget sample_session ''link_slot_bytes'' = Some (2 ^ 20)" by code_simp
  then show ?thesis
    using recorded_slots_hold [of "''all_gather''" "''eager''" "[?i]" None "[(''all_gather'', ''eager'', [?i], None)]" ?i 786432 "2 ^ 20" sample_session]
    by simp
qed

section \<open>The fitted coefficients\<close>

lemma solve_length: "solve rows ys = Some x \<Longrightarrow> length x = length (hd rows)"
  by (auto simp: solve_def Let_def split: option.split_asm)

lemma fit_terms_nonneg:
  assumes "fit_terms sizes ys its kept = Some (a, b, c)" "sizes \<noteq> []" "its \<noteq> []"
  shows "0 \<le> b \<and> 0 \<le> c"
proof -
  obtain kb kc where k: "kept = (kb, kc)" by (cases kept)
  let ?row = "\<lambda>s i. [1] @ (if kb then [of_int s / 1048576] else []) @ (if kc then [of_int i :: rat] else [])"
  let ?rows = "map2 ?row sizes its"
  obtain x where x: "solve ?rows ys = Some x" "list_all (\<lambda>v. 0 \<le> v) (tl x)"
    "b = (if kb then x ! 1 / 1048576 else 0)" "c = (if kc then x ! (if kb then 2 else 1) else 0)"
    using assms(1) by (auto simp: fit_terms_def k Let_def list_all_iff list_ex_iff not_less split: if_split_asm option.split_asm)
  have "hd ?rows = ?row (hd sizes) (hd its)" using assms(2,3) by (cases sizes; cases its) simp_all
  then have l: "length x = 1 + of_bool kb + of_bool kc" using solve_length [OF x(1)] by simp
  have n: "0 \<le> x ! Suc j" if "Suc j < length x" for j
    using x(2) that by (cases x) (auto simp: list_all_length)
  show ?thesis using x(3,4) l n [of 0] n [of 1] by (auto simp: numeral_2_eq_2)
qed

lemma first_some_in: "first_some f xs = Some y \<Longrightarrow> \<exists>x\<in>set xs. f x = Some y"
  by (induction xs) (auto split: option.split_asm)

text \<open>The cost model's documentation: \<open>b\<close> and \<open>c\<close> are not negative, and no modelled time is below a millionth.\<close>

lemma fit_nonneg:
  assumes "fit c collective world = (a, b, d)" "cd_points c \<noteq> []"
  shows "0 \<le> b \<and> 0 \<le> d"
proof -
  let ?sizes = "sort (map fst (cd_points c))"
  let ?its = "map (\<lambda>s. items (cd_choice c) collective s world) ?sizes"
  have "length ?sizes \<noteq> 0" using assms(2) by simp
  then have ne: "?sizes \<noteq> []" "?its \<noteq> []" by (metis length_0_conv, metis length_0_conv length_map)
  show ?thesis
  proof (cases "first_some (fit_terms ?sizes (map (point_at c) ?sizes) ?its) [(True, True), (True, False), (False, True), (False, False)]")
    case None
    then show ?thesis using assms(1) unfolding fit_def Let_def by (simp split: if_split_asm)
  next
    case (Some found)
    then show ?thesis
      using assms(1) first_some_in [OF Some] fit_terms_nonneg [OF _ ne] unfolding fit_def Let_def
      by (simp only: option.case split: if_split_asm) (simp, metis)
  qed
qed

lemma cost_model_positive: "0 < cost_model c collective s world"
  by (auto simp: cost_model_def less_max_iff_disj split: prod.splits)

end
