(* ===== verification/InstancePlan.thy ===== *)
theory InstancePlan
  imports RankGroups Topology P2P_Wire BudgetFacts TopologyFacts
begin

text \<open>
  The point-to-point channels of a vLLM instance (\<open>spark_transport/sircl/sparkring_sircl/vllm/p2p.py\<close>, with the checks of
  \<open>p2p/settings.py\<close>): which groups get channels, on which fabric they route, and the windows all of them share.  The
  settings, which the source reads from the environment, are arguments.
\<close>

section \<open>Settings and sizes\<close>

record P2PSettings =
  ps_slots :: int
  ps_slot_bytes :: int
  ps_blocks :: int
  ps_threads :: int
  ps_unroll :: int
  ps_window_bytes :: int
  ps_chunk_bytes :: int
  ps_queue_bytes :: int
  ps_startup_wait :: rat
  ps_serving_wait :: rat
  ps_max_relays :: int

definition max_wait :: rat where
  "max_wait = 4294967295 / 1000000"

definition P2PSettings_new :: "P2PSettings \<Rightarrow> py_error + P2PSettings" where
  "P2PSettings_new s =
    bind_res (P2PLayout_new 2 1 (ps_slots s) (ps_slot_bytes s)) (\<lambda>_.
    if \<not> (1 \<le> ps_blocks s \<and> ps_blocks s \<le> 64) then Inl (ValueErr ''SIRCL_P2P_BLOCKS must be 1 to 64'' [ps_blocks s])
    else if ps_threads s mod 32 \<noteq> 0 \<or> \<not> (64 \<le> ps_threads s \<and> ps_threads s \<le> 1024)
    then Inl (ValueErr ''SIRCL_P2P_THREADS must be a multiple of 32 from 64 to 1024'' [ps_threads s])
    else if \<not> (1 \<le> ps_unroll s \<and> ps_unroll s \<le> 8) then Inl (ValueErr ''SIRCL_P2P_UNROLL must be 1 to 8'' [ps_unroll s])
    else if ps_chunk_bytes s < 16 \<or> ps_chunk_bytes s mod 16 \<noteq> 0
    then Inl (ValueErr ''SIRCL_P2P_CHUNK_BYTES must be a positive multiple of 16'' [ps_chunk_bytes s])
    else if ps_window_bytes s < 0 \<or> ps_window_bytes s \<noteq> 0 \<and> ps_window_bytes s < ps_chunk_bytes s
    then Inl (ValueErr ''SIRCL_P2P_WINDOW_BYTES must be 0 or at least one chunk'' [ps_window_bytes s, ps_chunk_bytes s])
    else if ps_queue_bytes s < 4096 then Inl (ValueErr ''SIRCL_HAIRPIN_QUEUE_BYTES must be at least 4096'' [])
    else if \<not> (0 < ps_serving_wait s \<and> ps_serving_wait s \<le> max_wait) \<or> \<not> (0 < ps_startup_wait s \<and> ps_startup_wait s \<le> max_wait)
    then Inl (ValueErr ''wait limits are positive seconds'' [])
    else if ps_max_relays s < 0 then Inl (ValueErr ''SIRCL_MAX_RELAYS must not be negative'' [])
    else Inr s)"

record Shape =
  sh_world :: int
  sh_tp :: int
  sh_pp :: int
  sh_dcp :: int
  sh_pcp :: int

definition Shape_new :: "Shape \<Rightarrow> py_error + Shape" where
  "Shape_new s =
    (if min (sh_world s) (min (sh_tp s) (min (sh_pp s) (min (sh_dcp s) (sh_pcp s)))) < 1
        \<or> sh_world s mod (sh_tp s * sh_pp s * sh_pcp s) \<noteq> 0
     then Inl (ValueErr ''vLLM sizes do not divide the world'' [sh_tp s, sh_pp s, sh_pcp s, sh_world s]) else Inr s)"

definition shape_dp :: "Shape \<Rightarrow> int" where
  "shape_dp s = sh_world s div (sh_tp s * sh_pp s * sh_pcp s)"

definition shape_tp_groups :: "Shape \<Rightarrow> py_error + int list list" where
  "shape_tp_groups s = tp_groups (sh_world s) (sh_tp s) (sh_pcp s) (sh_pp s) (shape_dp s)"

definition shape_dcp_groups :: "Shape \<Rightarrow> py_error + int list list" where
  "shape_dcp_groups s = (if sh_dcp s \<le> 1 then Inr []
    else dcp_groups (sh_world s) (sh_tp s) (sh_dcp s) (sh_pcp s) (sh_pp s) (shape_dp s))"

definition shape_pp_groups :: "Shape \<Rightarrow> py_error + int list list" where
  "shape_pp_groups s = (if sh_pp s \<le> 1 then Inr []
    else pp_groups (sh_world s) (sh_tp s) (sh_pp s) (sh_pcp s) (shape_dp s))"

section \<open>Groups with channels\<close>

fun ranks_text :: "int list \<Rightarrow> string" where
  "ranks_text [] = []"
| "ranks_text [r] = str_of_int r"
| "ranks_text (r # rs) = str_of_int r @ '', '' @ ranks_text rs"

definition name_of :: "string \<Rightarrow> int list \<Rightarrow> string" where
  "name_of k ranks = k @ CHR ''['' # ranks_text ranks @ [CHR '']'']"

record GroupChannels =
  gc_name :: string
  gc_kind :: string
  gc_ranks :: "int list"
  gc_topology :: GroupTopology
  gc_windows :: "int list list list"
  gc_unavailable :: "(int \<times> int, unavailable_reason) dict"
  gc_basis :: string

definition gc_layout_text :: "GroupChannels \<Rightarrow> string" where
  "gc_layout_text g = session_layout (gc_topology g)"

definition gc_route_map :: "Role list \<Rightarrow> GroupChannels \<Rightarrow> int \<Rightarrow> py_error + route_map" where
  "gc_route_map R g rank = topo_route_map R (gc_topology g) rank"

definition relayed_peers :: "GroupChannels \<Rightarrow> int \<Rightarrow> py_error + int set" where
  "relayed_peers g rank = bind_res (map_res (\<lambda>peer. if peer = rank then Inr []
      else bind_res (hops_between (gc_topology g) rank peer) (\<lambda>h. Inr (if h > 1 then [peer] else [])))
    (py_range (int (length (gc_ranks g))))) (\<lambda>ps. Inr (set (concat ps)))"

definition window_text :: "GroupChannels \<Rightarrow> string" where
  "window_text g = (let values = sort (remdups (filter (\<lambda>w. w \<noteq> 0) (concat (concat (gc_windows g))))) in
    if values = [] then ''direct''
    else if length values = 1 then ''windows='' @ str_of_int (hd values)
    else ''windows='' @ str_of_int (hd values) @ CHR ''-'' # str_of_int (last values))"

text \<open>Where a group's channels route; the lanes and the relay limit are the defaults of \<open>describe_group\<close>.\<close>

definition topology_for ::
  "string \<Rightarrow> PhysLayout \<Rightarrow> int list \<Rightarrow> int list \<Rightarrow> int list option \<Rightarrow> string \<Rightarrow> py_error + GroupTopology" where
  "topology_for k L members instance_positions parent route_scope =
    (if k = ''pp'' then describe_group L members (Some (sort (remdups instance_positions))) 2 3 route_scope
     else if k = ''dcp'' \<and> parent \<noteq> None then describe_group L members parent 2 3 route_scope
     else describe_group L members None 2 3 route_scope)"

definition topology_lanes :: "Role list \<Rightarrow> string \<Rightarrow> GroupTopology \<Rightarrow> py_error + LaneSet" where
  "topology_lanes R name T =
    bind_res (Layout_parse (session_layout T)) (\<lambda>L.
    bind_res (map_res (topo_route_map R T) (py_range (topo_world T))) (\<lambda>maps.
    Inr \<lparr>ls_name = name, ls_layout = L, ls_maps = maps, ls_pairs = set (topo_pairs T)\<rparr>))"

section \<open>The plan of an instance\<close>

record PlanInput =
  pi_layout :: PhysLayout
  pi_positions :: "int list"
  pi_session_groups :: "string list"
  pi_p2p_groups :: "string list"
  pi_shape :: "Shape option"
  pi_route_scope :: string
  pi_settings :: P2PSettings
  pi_session :: SessionSettings
  pi_only :: "(string \<times> int list \<times> int list option) option"

type_synonym placed = "string \<times> int list \<times> GroupTopology"

definition place :: "PlanInput \<Rightarrow> string \<Rightarrow> int list \<Rightarrow> int list option \<Rightarrow> py_error + placed" where
  "place P k ranks parent =
    bind_res (map_res (py_index (pi_positions P)) ranks) (\<lambda>members.
    bind_res (case parent of None \<Rightarrow> Inr None
      | Some rs \<Rightarrow> bind_res (map_res (py_index (pi_positions P)) rs) (\<lambda>ps. Inr (Some ps))) (\<lambda>parents.
    bind_res (topology_for k (pi_layout P) members (pi_positions P) parents (pi_route_scope P)) (\<lambda>T.
    Inr (k, ranks, T))))"

text \<open>\<open>tp_of[ranks[0]]\<close>: the tensor-parallel group that holds a rank; the last one when several would.\<close>

definition tp_of :: "int list list \<Rightarrow> int \<Rightarrow> py_error + int list" where
  "tp_of groups r = (case filter (\<lambda>g. r \<in> set g) groups of [] \<Rightarrow> Inl (KeyErr ''rank'' [r]) | gs \<Rightarrow> Inr (last gs))"

text \<open>The session groups and the pipeline groups of an instance.\<close>

definition instance_groups :: "PlanInput \<Rightarrow> Shape \<Rightarrow> py_error + placed list \<times> placed list" where
  "instance_groups P s =
    bind_res (shape_tp_groups s) (\<lambda>tps.
    bind_res (map_res (\<lambda>g. place P ''tp'' g None)
      (filter (\<lambda>g. length g > 1 \<and> ''tp'' \<in> set (pi_session_groups P)) tps)) (\<lambda>tp_sessions.
    bind_res (shape_dcp_groups s) (\<lambda>dcps.
    bind_res (map_res (\<lambda>g. bind_res (tp_of tps (hd g)) (\<lambda>parent. place P ''dcp'' g (Some parent)))
      (filter (\<lambda>g. length g > 1 \<and> ''dcp'' \<in> set (pi_session_groups P)) dcps)) (\<lambda>dcp_sessions.
    bind_res (if ''pp'' \<in> set (pi_p2p_groups P)
        then bind_res (shape_pp_groups s) (map_res (\<lambda>g. place P ''pp'' g None)) else Inr []) (\<lambda>stages.
    Inr (tp_sessions @ dcp_sessions, stages))))))"

text \<open>Without vLLM's sizes: the one group and its own session.\<close>

definition single_group :: "PlanInput \<Rightarrow> py_error + placed list \<times> placed list" where
  "single_group P = (case pi_only P of
     None \<Rightarrow> Inl (ValueErr ''an instance plan without the parallel sizes needs the group it plans'' [])
   | Some (k, ranks, parent) \<Rightarrow>
       bind_res (place P k ranks parent) (\<lambda>placed_group.
       Inr (if k \<in> {''tp'', ''dcp''} \<and> k \<in> set (pi_session_groups P) then [placed_group] else [],
            if k = ''pp'' \<and> ''pp'' \<in> set (pi_p2p_groups P) then [placed_group] else [])))"

definition placed_lanes :: "Role list \<Rightarrow> placed \<Rightarrow> py_error + LaneSet" where
  "placed_lanes R g = (case g of (k, ranks, T) \<Rightarrow> topology_lanes R (name_of k ranks) T)"

definition add_reserved :: "(queue_key, int) dict \<Rightarrow> (queue_key, int) dict \<Rightarrow> (queue_key, int) dict" where
  "add_reserved own reserved = foldl (\<lambda>d (k, v). dadd k v d) reserved own"

definition reserve_session ::
  "Role list \<Rightarrow> PlanInput \<Rightarrow> placed \<Rightarrow> (queue_key, int) dict \<Rightarrow> py_error + (queue_key, int) dict" where
  "reserve_session R P g reserved =
    bind_res (placed_lanes R g) (\<lambda>S.
    bind_res (session_reservation R S (pi_session P) (ps_queue_bytes (pi_settings P))) (\<lambda>own.
    Inr (add_reserved own reserved)))"

definition channels_of ::
  "Role list \<Rightarrow> Allocation \<Rightarrow> string \<Rightarrow> placed \<times> LaneSet \<Rightarrow> py_error + string \<times> GroupChannels" where
  "channels_of R A basis e = (case e of ((k, ranks, T), S) \<Rightarrow>
    bind_res (allocation_table A S (gt_lane_count T)) (\<lambda>table.
    Inr (name_of k ranks, \<lparr>gc_name = name_of k ranks, gc_kind = k, gc_ranks = ranks, gc_topology = T, gc_windows = table,
      gc_unavailable = unavailable_pairs A (name_of k ranks), gc_basis = basis\<rparr>)))"

record InstancePlan =
  ip_basis :: string
  ip_levels :: "(placed \<times> LaneSet) list list"
  ip_allocation :: Allocation
  ip_groups :: "(string, GroupChannels) dict"

definition level_sets :: "Role list \<Rightarrow> placed list \<Rightarrow> py_error + (placed \<times> LaneSet) list" where
  "level_sets R gs = map_res (\<lambda>g. bind_res (placed_lanes R g) (\<lambda>S. Inr (g, S))) gs"

definition InstancePlan_new :: "Role list \<Rightarrow> PlanInput \<Rightarrow> py_error + InstancePlan" where
  "InstancePlan_new R P =
    bind_res (case pi_shape P of None \<Rightarrow> single_group P | Some s \<Rightarrow> instance_groups P s) (\<lambda>(sessions, stages).
    let own = filter (\<lambda>(k, _). k \<in> set (pi_p2p_groups P)) sessions;
        basis = (case pi_shape P of None \<Rightarrow> ''group'' | Some _ \<Rightarrow> ''instance'') in
    bind_res (fold_res (reserve_session R P) sessions []) (\<lambda>reserved.
    bind_res (map_res (level_sets R) [stages, own]) (\<lambda>levels.
    bind_res (allocate R (map (map snd) levels) reserved (ps_window_bytes (pi_settings P)) (ps_chunk_bytes (pi_settings P))
      (ps_queue_bytes (pi_settings P))) (\<lambda>A.
    bind_res (map_res (channels_of R A basis) (concat levels)) (\<lambda>groups.
    Inr \<lparr>ip_basis = basis, ip_levels = levels, ip_allocation = A,
      ip_groups = foldl (\<lambda>d (name, g). dset name g d) [] groups\<rparr>)))))"

definition channels_for :: "InstancePlan \<Rightarrow> string \<Rightarrow> int list \<Rightarrow> GroupChannels option" where
  "channels_for I k ranks = dget (ip_groups I) (name_of k ranks)"

end
