(* ===== verification/InstanceFacts.thy ===== *)
theory InstanceFacts
  imports InstancePlan
begin

text \<open>
  Facts about the channel plan of an instance: its groups have names of their own, so the shares of the relay queues that
  \<open>Budget\<close> proves for named lane sets hold for all channels of the instance together.
\<close>

section \<open>Names\<close>

lemma digits_no_comma: "c \<in> set (str_of_int r) \<Longrightarrow> c \<noteq> CHR '','' \<and> c \<noteq> CHR ''[''"
  using str_of_int_plain [of c r] is_digit_facts [of c] by (auto simp: is_digit_def)

lemma str_of_int_inj: "str_of_int a = str_of_int b \<Longrightarrow> a = b"
  by (metis py_int_str option.inject)

lemma str_of_int_ne [simp]: "str_of_int a \<noteq> []"
  by (simp add: str_of_int_def)

lemma ranks_text_head: "takeWhile (\<lambda>c. c \<noteq> CHR '','') (ranks_text (r # rs)) = str_of_int r
    \<and> dropWhile (\<lambda>c. c \<noteq> CHR '','') (ranks_text (r # rs)) = (if rs = [] then [] else '', '' @ ranks_text rs)"
proof -
  have t: "takeWhile (\<lambda>c. c \<noteq> CHR '','') (str_of_int r @ s) = str_of_int r @ takeWhile (\<lambda>c. c \<noteq> CHR '','') s"
    "dropWhile (\<lambda>c. c \<noteq> CHR '','') (str_of_int r @ s) = dropWhile (\<lambda>c. c \<noteq> CHR '','') s" for s
    using digits_no_comma by (simp_all add: takeWhile_append2 dropWhile_append2)
  show ?thesis by (cases rs) (use t [of "[]"] in \<open>simp_all add: t\<close>)
qed

lemma ranks_text_inj: "ranks_text a = ranks_text b \<Longrightarrow> a = b"
proof (induction a arbitrary: b)
  case Nil
  then show ?case by (cases b rule: ranks_text.cases) (auto dest: sym)
next
  case (Cons r rs)
  obtain s ss where b: "b = s # ss" using Cons.prems by (cases b; cases rs) auto
  have "r = s" using ranks_text_head [of r rs] ranks_text_head [of s ss] Cons.prems b str_of_int_inj by metis
  moreover have "(if rs = [] then [] else '', '' @ ranks_text rs) = (if ss = [] then [] else '', '' @ ranks_text ss)"
    using ranks_text_head [of r rs] ranks_text_head [of s ss] Cons.prems b by metis
  then have "rs = ss" using Cons.IH by (auto split: if_split_asm)
  ultimately show ?case using b by simp
qed

lemma name_of_inj:
  assumes "name_of k a = name_of k' b" "CHR ''['' \<notin> set k" "CHR ''['' \<notin> set k'"
  shows "k = k' \<and> a = b"
proof -
  have t: "takeWhile (\<lambda>c. c \<noteq> CHR ''['') (name_of x y) = x" if "CHR ''['' \<notin> set x" for x y
    using that by (subst name_of_def, subst takeWhile_append2) auto
  have "k = k'" using assms t by metis
  then show ?thesis using assms(1) ranks_text_inj by (simp add: name_of_def)
qed

section \<open>Groups of their own\<close>

lemma distinct_parts: "distinct (concat gs) \<Longrightarrow> [] \<notin> set gs \<Longrightarrow> distinct gs"
  by (simp add: distinct_concat_iff removeAll_id)

lemma tp_groups_distinct: "tp_groups world tp pcp pp dp = Inr gs \<Longrightarrow> distinct gs"
proof -
  assume "tp_groups world tp pcp pp dp = Inr gs"
  then obtain layout where l: "rank_layout world tp pcp pp dp = Inr layout" "gs = concat (concat (concat layout))"
    by (auto simp: tp_groups_def bind_res_Inr)
  note p = rank_layout_parts [OF l(1)]
  have "concat gs = py_range world" "\<forall>g\<in>set gs. length g = nat tp"
    using p l(2) chop_each [of "nat tp" "py_range world"] by auto
  then show ?thesis using p by (intro distinct_parts) auto
qed

lemma dcp_groups_distinct: "dcp_groups world tp dcp pcp pp dp = Inr gs \<Longrightarrow> distinct gs"
proof -
  assume a: "dcp_groups world tp dcp pcp pp dp = Inr gs"
  then obtain layout where l: "rank_layout world tp pcp pp dp = Inr layout" by (auto simp: dcp_groups_def bind_res_Inr)
  let ?flat = "concat (map (stage_order tp pcp dcp) (concat (concat layout)))"
  have d: "1 \<le> dcp" "int (length ?flat) mod dcp = 0" "gs = chop (nat dcp) ?flat"
    using a l by (auto simp: dcp_groups_def Let_def split: if_splits)
  then have "nat dcp dvd length ?flat" by (simp add: nat_dvd_iff mod_0_imp_dvd)
  then have c: "concat gs = ?flat" "\<forall>g\<in>set gs. length g = nat dcp" using chop_each [of "nat dcp" ?flat] d(1,3) by auto
  have "distinct ?flat" using flat_mset [OF l] by (metis distinct_py_range mset_eq_imp_distinct_iff)
  then show ?thesis using c d(1) by (intro distinct_parts) auto
qed

lemma distinct_concat_map:
  "distinct xs \<Longrightarrow> (\<And>x. x \<in> set xs \<Longrightarrow> distinct (f x))
    \<Longrightarrow> (\<And>x y v. x \<in> set xs \<Longrightarrow> y \<in> set xs \<Longrightarrow> v \<in> set (f x) \<Longrightarrow> v \<in> set (f y) \<Longrightarrow> x = y) \<Longrightarrow> distinct (concat (map f xs))"
proof (induction xs)
  case (Cons x xs)
  have "set (f x) \<inter> (\<Union>y\<in>set xs. set (f y)) = {}" using Cons.prems(1) Cons.prems(3) [of x] by fastforce
  then show ?case using Cons by simp
qed simp

lemma distinct_triples:
  assumes "distinct xs" "distinct ys" "distinct zs"
    and inj: "\<And>a b c a' b' c'. F a b c = F a' b' c' \<Longrightarrow> b \<in> set ys \<Longrightarrow> b' \<in> set ys \<Longrightarrow> c \<in> set zs \<Longrightarrow> c' \<in> set zs
      \<Longrightarrow> a = a' \<and> b = b' \<and> c = c'"
  shows "distinct (concat (map (\<lambda>a. concat (map (\<lambda>b. map (F a b) zs) ys)) xs))"
proof (rule distinct_concat_map [OF assms(1)])
  fix a
  show "distinct (concat (map (\<lambda>b. map (F a b) zs) ys))"
    by (rule distinct_concat_map [OF assms(2)]) (use assms(3) inj in \<open>auto simp: distinct_map inj_on_def\<close>)
next
  fix a a' v
  assume "v \<in> set (concat (map (\<lambda>b. map (F a b) zs) ys))" "v \<in> set (concat (map (\<lambda>b. map (F a' b) zs) ys))"
  then show "a = a'" using inj by fastforce
qed

lemma distinct_firsts: "distinct (map hd gs) \<Longrightarrow> distinct gs"
  by (simp add: distinct_map)

lemma pp_groups_distinct:
  assumes "pp_groups world tp pp pcp dp = Inr gs"
  shows "distinct gs"
proof -
  let ?stage = "pcp * tp" and ?outer = "world div (dp * pp * pcp * tp)"
  let ?f = "\<lambda>outer data offset. map (\<lambda>s. (outer * dp + data) * pp * ?stage + s * ?stage + offset) (py_range pp)"
  have p: "1 \<le> tp" "1 \<le> pp" "1 \<le> pcp" "1 \<le> dp"
    and g: "gs = concat (map (\<lambda>outer. concat (map (\<lambda>data. map (?f outer data) (py_range ?stage)) (py_range dp))) (py_range ?outer))"
    using assms by (auto simp: pp_groups_def Let_def split: if_splits)
  have h: "hd (?f outer data offset) = (outer * dp + data) * pp * ?stage + offset" for outer data offset
  proof -
    obtain n where n: "nat pp = Suc n" using p by (cases "nat pp") auto
    have "py_range pp \<noteq> [] \<and> hd (py_range pp) = 0" using p by (simp add: py_range_map n upt_conv_Cons del: upt_Suc)
    then show ?thesis by (simp add: hd_map)
  qed
  have st: "1 \<le> ?stage" using p by (metis mult_mono' mult_1 zero_le_one)
  have inj: "outer = outer' \<and> data = data' \<and> offset = offset'"
    if "hd (?f outer data offset) = hd (?f outer' data' offset')" "data \<in> set (py_range dp)" "data' \<in> set (py_range dp)"
      "offset \<in> set (py_range ?stage)" "offset' \<in> set (py_range ?stage)" for outer outer' data data' offset offset'
  proof -
    have b: "0 \<le> offset" "offset < ?stage" "0 \<le> offset'" "offset' < ?stage" "0 \<le> data" "data < dp" "0 \<le> data'" "data' < dp"
      using that by auto
    have "(outer * dp + data) * pp = (outer' * dp + data') * pp \<and> offset = offset'"
      using radix_unique [OF b(1-4)] that(1) unfolding h by blast
    moreover then have "outer * dp + data = outer' * dp + data'" using p(2) by simp
    then have "outer = outer' \<and> data = data'" using radix_unique [OF b(5-8)] by blast
    ultimately show ?thesis by simp
  qed
  have "map hd gs = concat (map (\<lambda>outer. concat (map (\<lambda>data. map (\<lambda>offset. hd (?f outer data offset)) (py_range ?stage)) (py_range dp)))
      (py_range ?outer))"
    unfolding g map_concat map_map comp_def ..
  also have "distinct \<dots>" by (rule distinct_triples [OF distinct_py_range distinct_py_range distinct_py_range inj])
  finally show ?thesis by (rule distinct_firsts)
qed


section \<open>The instance's lane sets\<close>

definition group_key :: "placed \<Rightarrow> string \<times> int list" where
  "group_key g = (fst g, fst (snd g))"

definition group_name :: "placed \<Rightarrow> string" where
  "group_name g = name_of (fst g) (fst (snd g))"

lemma place_key: "place P k ranks parent = Inr g \<Longrightarrow> group_key g = (k, ranks)"
  by (auto simp: place_def group_key_def bind_res_Inr)

lemma places_keys:
  assumes "map_res f gs = Inr ps" "\<And>g p. g \<in> set gs \<Longrightarrow> f g = Inr p \<Longrightarrow> group_key p = (k, g)"
  shows "map group_key ps = map (Pair k) gs"
  using map_res_nth [OF assms(1)] map_res_length [OF assms(1)] assms(2) by (intro nth_equalityI) auto

lemma instance_groups_keys:
  assumes "instance_groups P s = Inr (sessions, stages)"
  shows "distinct (map group_key (stages @ sessions)) \<and> (\<forall>g\<in>set (stages @ sessions). fst g \<in> {''pp'', ''tp'', ''dcp''})"
proof -
  let ?tp = "filter (\<lambda>g. length g > 1 \<and> ''tp'' \<in> set (pi_session_groups P))"
    and ?dcp = "filter (\<lambda>g. length g > 1 \<and> ''dcp'' \<in> set (pi_session_groups P))"
  obtain tps tp_sessions dcps dcp_sessions where
    t: "shape_tp_groups s = Inr tps" "map_res (\<lambda>g. place P ''tp'' g None) (?tp tps) = Inr tp_sessions"
    and d: "shape_dcp_groups s = Inr dcps"
      "map_res (\<lambda>g. bind_res (tp_of tps (hd g)) (\<lambda>parent. place P ''dcp'' g (Some parent))) (?dcp dcps) = Inr dcp_sessions"
    and p: "(if ''pp'' \<in> set (pi_p2p_groups P)
        then bind_res (shape_pp_groups s) (map_res (\<lambda>g. place P ''pp'' g None)) else Inr []) = Inr stages"
    and e: "sessions = tp_sessions @ dcp_sessions"
    using assms by (auto simp: instance_groups_def bind_res_Inr)
  have kt: "map group_key tp_sessions = map (Pair ''tp'') (?tp tps)" using places_keys [OF t(2)] place_key by blast
  have kd: "map group_key dcp_sessions = map (Pair ''dcp'') (?dcp dcps)"
    by (rule places_keys [OF d(2)]) (auto simp: bind_res_Inr place_key)
  obtain pps where kp: "map group_key stages = map (Pair ''pp'') pps" "distinct pps"
  proof (cases "''pp'' \<in> set (pi_p2p_groups P)")
    case True
    then obtain pps where pps: "shape_pp_groups s = Inr pps" "map_res (\<lambda>g. place P ''pp'' g None) pps = Inr stages"
      using p by (auto simp: bind_res_Inr)
    have "distinct pps" using pps(1) pp_groups_distinct by (auto simp: shape_pp_groups_def split: if_split_asm)
    then show thesis using that places_keys [OF pps(2)] place_key by blast
  qed (use p that [of "[]"] in simp)
  have "distinct tps" "distinct dcps"
    using t(1) d(1) tp_groups_distinct dcp_groups_distinct by (auto simp: shape_tp_groups_def shape_dcp_groups_def split: if_split_asm)
  then have "distinct (map group_key (stages @ sessions))"
    unfolding e map_append kt kd kp(1) using kp(2) by (auto simp: distinct_map inj_on_def)
  moreover have "fst g \<in> {''pp'', ''tp'', ''dcp''}" if "g \<in> set (stages @ sessions)" for g
  proof -
    have "group_key g \<in> set (map group_key (stages @ sessions))" unfolding set_map by (rule imageI, rule that)
    then show ?thesis unfolding e map_append kt kd kp(1) by (auto simp: group_key_def)
  qed
  ultimately show ?thesis by blast
qed

lemma single_group_keys:
  assumes "single_group P = Inr (sessions, stages)"
  shows "distinct (map group_key (stages @ sessions)) \<and> (\<forall>g\<in>set (stages @ sessions). fst g \<in> {''pp'', ''tp'', ''dcp''})"
proof -
  obtain k ranks parent g where g: "place P k ranks parent = Inr g"
    and s: "sessions = (if k \<in> {''tp'', ''dcp''} \<and> k \<in> set (pi_session_groups P) then [g] else [])"
      "stages = (if k = ''pp'' \<and> ''pp'' \<in> set (pi_p2p_groups P) then [g] else [])"
    using assms by (auto simp: single_group_def bind_res_Inr split: option.split_asm prod.split_asm)
  have "fst g = k" using place_key [OF g] by (simp add: group_key_def)
  then show ?thesis unfolding s by auto
qed

lemma level_sets_names:
  assumes "level_sets R gs = Inr l"
  shows "map fst l = gs \<and> map (ls_name \<circ> snd) l = map group_name gs"
proof -
  have "fst (l ! i) = gs ! i \<and> ls_name (snd (l ! i)) = group_name (gs ! i)" if i: "i < length gs" for i
  proof -
    obtain S where "placed_lanes R (gs ! i) = Inr S" "l ! i = (gs ! i, S)"
      using map_res_nth [OF assms [unfolded level_sets_def] i] by (auto simp: bind_res_Inr)
    then show ?thesis by (cases "gs ! i") (auto simp: bind_res_Inr placed_lanes_def topology_lanes_def group_name_def)
  qed
  moreover have "length l = length gs" using map_res_length [OF assms [unfolded level_sets_def]] .
  ultimately show ?thesis by (auto intro: nth_equalityI)
qed

lemma group_names_distinct:
  assumes "distinct (map group_key gs)" "\<forall>g\<in>set gs. fst g \<in> {''pp'', ''tp'', ''dcp''}"
  shows "distinct (map group_name gs)"
proof -
  have "g = h" if "g \<in> set gs" "h \<in> set gs" "group_name g = group_name h" for g h
  proof -
    have "CHR ''['' \<notin> set (fst g)" "CHR ''['' \<notin> set (fst h)" using assms(2) that by auto
    then have "group_key g = group_key h" using name_of_inj that(3) unfolding group_name_def group_key_def by blast
    then show ?thesis using assms(1) that by (auto simp: distinct_map inj_on_def)
  qed
  then show ?thesis using assms(1) by (auto simp: distinct_map inj_on_def)
qed

lemma InstancePlan_parts:
  assumes "InstancePlan_new R P = Inr I"
  obtains reserved where
    "allocate R (map (map snd) (ip_levels I)) reserved (ps_window_bytes (pi_settings P)) (ps_chunk_bytes (pi_settings P))
      (ps_queue_bytes (pi_settings P)) = Inr (ip_allocation I)"
    "distinct (map ls_name (concat (map (map snd) (ip_levels I))))"
proof -
  obtain sessions stages where g: "(case pi_shape P of None \<Rightarrow> single_group P | Some s \<Rightarrow> instance_groups P s) = Inr (sessions, stages)"
    using assms by (auto simp: InstancePlan_new_def bind_res_Inr)
  let ?own = "filter (\<lambda>(k, _). k \<in> set (pi_p2p_groups P)) sessions"
  obtain reserved where a: "map_res (level_sets R) [stages, ?own] = Inr (ip_levels I)"
    "allocate R (map (map snd) (ip_levels I)) reserved (ps_window_bytes (pi_settings P)) (ps_chunk_bytes (pi_settings P))
      (ps_queue_bytes (pi_settings P)) = Inr (ip_allocation I)"
    using assms g by (auto simp: InstancePlan_new_def bind_res_Inr Let_def)
  have k: "distinct (map group_key (stages @ sessions)) \<and> (\<forall>g\<in>set (stages @ sessions). fst g \<in> {''pp'', ''tp'', ''dcp''})"
    using g instance_groups_keys single_group_keys by (cases "pi_shape P") auto
  then have "distinct (map group_key (stages @ ?own))" by (auto simp: distinct_map inj_on_def intro: inj_on_subset)
  then have d: "distinct (map group_name (stages @ ?own))" using k by (intro group_names_distinct) auto
  obtain l m where l: "level_sets R stages = Inr l" "level_sets R ?own = Inr m" "ip_levels I = [l, m]"
    using a(1) by (auto simp: bind_res_Inr)
  have "map ls_name (concat (map (map snd) (ip_levels I))) = map group_name (stages @ ?own)"
    using level_sets_names [OF l(1)] level_sets_names [OF l(2)] unfolding l(3) by (simp add: comp_def)
  then show thesis using that a(2) d by simp
qed



definition four_stages :: PlanInput where
  "four_stages = \<lparr>pi_layout = projr (PhysLayout_ring 4), pi_positions = [0, 1, 2, 3], pi_session_groups = [''tp''],
    pi_p2p_groups = [''pp'', ''tp''], pi_shape = Some \<lparr>sh_world = 4, sh_tp = 2, sh_pp = 2, sh_dcp = 1, sh_pcp = 1\<rparr>,
    pi_route_scope = ''group'',
    pi_settings = \<lparr>ps_slots = 4, ps_slot_bytes = 1048576, ps_blocks = 4, ps_threads = 256, ps_unroll = 4,
      ps_window_bytes = 131072, ps_chunk_bytes = 32768, ps_queue_bytes = 524288, ps_startup_wait = 600,
      ps_serving_wait = 20, ps_max_relays = 3\<rparr>,
    pi_session = \<lparr>forward_window = 131072, forward_chunk = 32768, ring_schedule = False, session_subset = False\<rparr>,
    pi_only = None\<rparr>"

text \<open>Pipeline stages two cables apart on a ring of four: their channels are relayed, and get windows.\<close>

lemma four_stages_planned:
  "case InstancePlan_new DEFAULT_ROLES four_stages of Inl _ \<Rightarrow> False
    | Inr I \<Rightarrow> is_ok (map_res (level_through DEFAULT_ROLES) (map (map snd) (ip_levels I)))
        \<and> map fst (ip_groups I) = [''pp[0, 2]'', ''pp[1, 3]'', ''tp[0, 1]'', ''tp[2, 3]'']
        \<and> list_ex (\<lambda>e. 0 < snd e) (a_windows (ip_allocation I))"
  by code_simp


end
