(* ===== verification/DcpRing.thy ===== *)
theory DcpRing
  imports RouteMaps Posting Topology
begin

text \<open>
  The torch-free part of the decode-context-parallel collectives (\<open>spark_transport/sircl/sparkring_sircl/vllm/dcp_collectives.py\<close>):
  the routes and posting order of the eight-Spark ring, the load of its relay queues, the settings of a group, and the ops
  each collective is split into.  A tensor enters by its shape, its element size and the facts the checks read; the setup of
  the session module is the argument \<open>unavailable\<close> (its reason not to serve, if any).
\<close>

section \<open>The eight-Spark ring\<close>

abbreviation (input) RING :: int where "RING \<equiv> 8"

datatype function_key = P0 | S0 | P1 | S1

definition FUNCTIONS :: "function_key \<Rightarrow> string \<times> int" where
  "FUNCTIONS f = (case f of P0 \<Rightarrow> (''rocep1s0f0'', 0) | S0 \<Rightarrow> (''roceP2p1s0f0'', 0)
    | P1 \<Rightarrow> (''rocep1s0f1'', 1) | S1 \<Rightarrow> (''roceP2p1s0f1'', 1))"

text \<open>\<open>key[0]\<close>: the class of a function.\<close>

definition function_class :: "function_key \<Rightarrow> char" where
  "function_class f = (case f of P0 \<Rightarrow> CHR ''P'' | P1 \<Rightarrow> CHR ''P'' | S0 \<Rightarrow> CHR ''S'' | S1 \<Rightarrow> CHR ''S'')"

definition route_functions :: "int \<Rightarrow> int \<Rightarrow> py_error + function_key list" where
  "route_functions src dst =
    (let d = (dst - src) mod RING in
     if d = 0 then Inl (ValueErr ''a rank has no route to itself'' [])
     else if d \<le> 3 then Inr [P0, S0]
     else if d \<ge> 5 then Inr [P1, S1]
     else Inr (if src mod RING < 4 then [P0, S1] else [P1, S0]))"

definition ring_distance :: "int \<Rightarrow> int \<Rightarrow> int" where
  "ring_distance a b = (let d = (b - a) mod RING in min d (RING - d))"

definition group_positions :: "int list \<Rightarrow> py_error + int list" where
  "group_positions global_ranks =
    (let ps = map (\<lambda>r. r mod RING) global_ranks in
     if \<not> distinct ps \<or> \<not> (2 \<le> length ps \<and> length ps \<le> 8)
     then Inl (ValueErr ''a DCP group must occupy 2-8 distinct ring positions'' global_ranks) else Inr ps)"

definition peer_routes :: "int \<Rightarrow> int list \<Rightarrow> py_error + route_map" where
  "peer_routes rank ps =
    map_res (\<lambda>peer. bind_res (py_index ps rank) (\<lambda>a. bind_res (py_index ps peer) (\<lambda>b.
      bind_res (route_functions a b) (\<lambda>fs. Inr (peer, map (fst \<circ> FUNCTIONS) fs)))))
    (filter (\<lambda>peer. peer \<noteq> rank) (py_range (int (length ps))))"

definition post_key :: "int list \<Rightarrow> int \<Rightarrow> int \<Rightarrow> int \<times> int" where
  "post_key ps src peer = (let dst = ps ! nat peer in
    (- ring_distance src dst, if (dst - src) mod RING \<le> RING div 2 then 0 else 1))"

definition posting_order :: "int \<Rightarrow> int list \<Rightarrow> py_error + int list" where
  "posting_order rank ps = bind_res (py_index ps rank) (\<lambda>src.
    Inr (sort_key (post_key ps src) (filter (\<lambda>peer. peer \<noteq> rank) (py_range (int (length ps))))))"

definition stripe_relays :: "int \<Rightarrow> int \<Rightarrow> function_key \<Rightarrow> int list" where
  "stripe_relays src dst f =
    (let port = snd (FUNCTIONS f); clockwise = (dst - src) mod RING;
         hops = (if port = 0 then clockwise else RING - clockwise); step = (if port = 0 then 1 else - 1)
     in map (\<lambda>k. (src + step * k) mod RING) [1..hops - 1])"

type_synonym ring_queue = "int \<times> int \<times> char"

definition pair_crossings :: "int \<times> int \<Rightarrow> py_error + ring_queue list" where
  "pair_crossings e = (case e of (src, dst) \<Rightarrow>
    if src = dst then Inr []
    else bind_res (route_functions src dst) (\<lambda>fs.
      Inr (concat (map (\<lambda>f. map (\<lambda>relay. (relay, snd (FUNCTIONS f), function_class f)) (stripe_relays src dst f)) fs))))"

definition relay_queue_loads :: "int list \<Rightarrow> int \<Rightarrow> py_error + (ring_queue, rat) dict" where
  "relay_queue_loads ps per_peer =
    bind_res (map_res pair_crossings (List.product ps ps)) (\<lambda>crossings.
    Inr (foldl (\<lambda>d q. dset q (dget_or d q 0 + of_int per_peer / 2) d) [] (concat crossings)))"

definition relay_queue_bytes :: "int list \<Rightarrow> int \<Rightarrow> py_error + int" where
  "relay_queue_bytes ps per_peer = bind_res (relay_queue_loads ps per_peer) (\<lambda>d.
    Inr (if d = [] then 0 else ceiling (Max (set (map snd d)))))"

definition relay_fill :: "int list \<Rightarrow> int \<Rightarrow> py_error + rat" where
  "relay_fill ps per_peer = bind_res (relay_queue_bytes ps per_peer) (\<lambda>n. Inr (of_int n / of_int (512 * 1024)))"

section \<open>Settings\<close>

definition env_int :: "environ \<Rightarrow> string \<Rightarrow> int \<Rightarrow> py_error + int" where
  "env_int env name usual = (let raw = strip (dget_or env name []) in
    if raw = [] then Inr usual
    else case py_int raw of
        None \<Rightarrow> Inl (ValueErr ''invalid literal for int'' [])
      | Some v \<Rightarrow> if v < 0 then Inl (ValueErr ''must not be negative'' [v]) else Inr v)"

definition RELAYED_PER_PEER_BYTES :: "(int, int) dict" where
  "RELAYED_PER_PEER_BYTES = [(4, 262144), (8, 131072)]"

definition gather_chunk_default :: "int \<Rightarrow> int \<Rightarrow> int option \<Rightarrow> int" where
  "gather_chunk_default world capacity per_peer = (case per_peer of
     Some n \<Rightarrow> min capacity n
   | None \<Rightarrow> min capacity (dget_or RELAYED_PER_PEER_BYTES world capacity))"

definition scatter_op_default :: "int \<Rightarrow> int \<Rightarrow> int option \<Rightarrow> int" where
  "scatter_op_default world capacity per_peer =
    (case (if per_peer = None then dget RELAYED_PER_PEER_BYTES world else per_peer) of
       None \<Rightarrow> capacity | Some n \<Rightarrow> min capacity (n * world))"

record Thresholds =
  th_gather :: int
  th_reduce_scatter :: int
  th_all_to_all :: int

definition THRESHOLD_DEFAULTS :: "(int, Thresholds) dict" where
  "THRESHOLD_DEFAULTS =
    [(2, \<lparr>th_gather = 2 * 1024 * 1024, th_reduce_scatter = 8 * 1024 * 1024, th_all_to_all = 8 * 1024 * 1024\<rparr>),
     (4, \<lparr>th_gather = 0, th_reduce_scatter = 0, th_all_to_all = 0\<rparr>),
     (8, \<lparr>th_gather = 458752, th_reduce_scatter = 3 * 1024 * 1024, th_all_to_all = 3 * 1024 * 1024\<rparr>)]"

definition threshold_defaults :: "int \<Rightarrow> Thresholds" where
  "threshold_defaults world = dget_or THRESHOLD_DEFAULTS world \<lparr>th_gather = 0, th_reduce_scatter = 0, th_all_to_all = 0\<rparr>"

definition within_threshold :: "int \<Rightarrow> int \<Rightarrow> bool" where
  "within_threshold nbytes limit \<longleftrightarrow> limit = 0 \<or> nbytes \<le> limit"

record DcpSettings =
  dc_capacity :: int
  dc_gather_max :: int
  dc_gather_chunk :: int
  dc_scatter_op :: int
  dc_thresholds :: Thresholds
  dc_spin_limit :: string
  dc_proxy_cpu :: string

definition threshold_of :: "int \<Rightarrow> int \<Rightarrow> string + int" where
  "threshold_of given usual = (if given < 0 then Inr usual
    else if given mod 16 \<noteq> 0 then Inl ''a threshold must be a multiple of 16'' else Inr given)"

text \<open>\<open>env_int(name, -1)\<close>: unset is told from 0.\<close>

definition env_settings :: "environ \<Rightarrow> py_error + int \<times> int \<times> int \<times> int \<times> int \<times> int \<times> int" where
  "env_settings env =
    bind_res (env_int env ''GLM_DCP_RDMA_CAPACITY_BYTES'' (2 * 1024 * 1024)) (\<lambda>capacity.
    bind_res (env_int env ''GLM_DCP_RDMA_GATHER_MAX_BYTES'' (2 * 1024 * 1024)) (\<lambda>gather_max.
    bind_res (env_int env ''GLM_DCP_RDMA_GATHER_CHUNK_BYTES'' 0) (\<lambda>gather_chunk.
    bind_res (env_int env ''GLM_DCP_RDMA_SCATTER_OP_BYTES'' 0) (\<lambda>scatter_op.
    bind_res (env_int env ''GLM_DCP_RDMA_MAX_BYTES_GATHER'' (- 1)) (\<lambda>g.
    bind_res (env_int env ''GLM_DCP_RDMA_MAX_BYTES_REDUCE_SCATTER'' (- 1)) (\<lambda>r.
    bind_res (env_int env ''GLM_DCP_RDMA_MAX_BYTES_ALL_TO_ALL'' (- 1)) (\<lambda>a.
    Inr (capacity, gather_max, gather_chunk, scatter_op, g, r, a))))))))"

definition local_settings :: "int \<Rightarrow> int option \<Rightarrow> environ \<Rightarrow> string option \<Rightarrow> string + DcpSettings" where
  "local_settings world per_peer env unavailable = (case env_settings env of
     Inl e \<Rightarrow> Inl ''a setting is not a non-negative integer''
   | Inr (capacity, gather_max, given_chunk, given_op, g, r, a) \<Rightarrow>
       if capacity < 16 \<or> capacity mod 16 \<noteq> 0 then Inl ''GLM_DCP_RDMA_CAPACITY_BYTES must be a positive multiple of 16''
       else if gather_max < 16 \<or> gather_max mod 16 \<noteq> 0 then Inl ''GLM_DCP_RDMA_GATHER_MAX_BYTES must be a positive multiple of 16''
       else if given_chunk mod 16 \<noteq> 0 \<or> given_chunk > gather_max
       then Inl ''GLM_DCP_RDMA_GATHER_CHUNK_BYTES must be a multiple of 16 up to GLM_DCP_RDMA_GATHER_MAX_BYTES''
       else if given_op mod (world * 16) \<noteq> 0 \<or> given_op > capacity
       then Inl ''GLM_DCP_RDMA_SCATTER_OP_BYTES must be whole chunks up to GLM_DCP_RDMA_CAPACITY_BYTES''
       else
         let usual = threshold_defaults world in
         bind_res (threshold_of g (th_gather usual)) (\<lambda>g.
         bind_res (threshold_of r (th_reduce_scatter usual)) (\<lambda>r.
         bind_res (threshold_of a (th_all_to_all usual)) (\<lambda>a.
         if dget_or env ''SIRCL_TOPOLOGY'' [] \<notin> {[], ''direct''} then Inl ''ring sessions have the single topology direct''
         else case unavailable of
           Some reason \<Rightarrow> Inl reason
         | None \<Rightarrow> Inr \<lparr>dc_capacity = capacity, dc_gather_max = gather_max,
             dc_gather_chunk = (if given_chunk = 0 then gather_chunk_default world gather_max per_peer else given_chunk),
             dc_scatter_op = (if given_op = 0 then scatter_op_default world capacity per_peer else given_op),
             dc_thresholds = \<lparr>th_gather = g, th_reduce_scatter = r, th_all_to_all = a\<rparr>,
             dc_spin_limit = (let own = dget_or env ''GLM_DCP_RDMA_SPIN_LIMIT'' [] in
               if own \<noteq> [] then own else dget_or env ''SIRCL_SPIN_LIMIT'' []),
             dc_proxy_cpu = dget_or env ''GLM_DCP_RDMA_PROXY_CPU'' []\<rparr>))))"

text \<open>\<open>vote\<close> over all ranks' reasons and settings: the ranks that failed, else those that differ from rank 0.\<close>

datatype verdict = Agreed | Failed "nat list" | Differing "nat list"

definition shared_settings :: "DcpSettings \<Rightarrow> DcpSettings" where
  "shared_settings s = s\<lparr>dc_proxy_cpu := []\<rparr>"

definition vote :: "(string + DcpSettings) list \<Rightarrow> verdict" where
  "vote votes =
    (let failures = map fst (filter (\<lambda>(i, v). \<not> is_ok v) (List.enumerate 0 votes)) in
     if failures \<noteq> [] then Failed failures
     else let differing = map fst (filter (\<lambda>(i, v). map_sum id shared_settings v \<noteq> map_sum id shared_settings (hd votes))
         (List.enumerate 0 votes))
       in if differing \<noteq> [] then Differing differing else Agreed)"

section \<open>Collectives as ops\<close>

text \<open>
  A tensor: its shape, element size and type, whether it is on the runtime's device, contiguous, and neither complex nor
  sparse, and the address its ops read (of the copy a reduce-scatter makes, when it does not scatter the first dimension).
\<close>

record Tensor =
  tn_shape :: "int list"
  tn_elem :: int
  tn_here :: bool
  tn_contiguous :: bool
  tn_dtype :: string
  tn_dense_real :: bool
  tn_pointer :: int

definition numel :: "Tensor \<Rightarrow> int" where
  "numel t = prod_list (tn_shape t)"

definition tensor_bytes :: "Tensor \<Rightarrow> int" where
  "tensor_bytes t = numel t * tn_elem t"

text \<open>The runtime of a session: its own limits, and the group's voted ones.\<close>

record DcpRuntime =
  dr_world :: int
  dr_max_gather :: int
  dr_max_size :: int
  dr_gather_chunk :: int
  dr_scatter_op :: int

definition check_tensor :: "Tensor \<Rightarrow> py_error + unit" where
  "check_tensor t =
    (if \<not> tn_here t then Inl (Declined ''tensor on another device'' [])
     else if \<not> tn_contiguous t then Inl (Declined ''non-contiguous input'' [])
     else if tn_shape t = [] \<or> numel t = 0 then Inl (Declined ''empty or scalar input'' [])
     else if \<not> tn_dense_real t \<or> tn_dtype t = ''bool'' then Inl (Declined ''dtype'' [])
     else Inr ())"

definition normalize_dim :: "Tensor \<Rightarrow> int \<Rightarrow> py_error + nat" where
  "normalize_dim t axis =
    (let d = (if axis < 0 then axis + int (length (tn_shape t)) else axis) in
     if \<not> (0 \<le> d \<and> d < int (length (tn_shape t))) then Inl (Declined ''all-gather: dim out of range'' [d]) else Inr (nat d))"

text \<open>
  The gathers of the runtime: the whole flat shard, a range of its elements, all rows through the padded path, or a range
  of whole rows.
\<close>

datatype gather_op = WholeShard | ElementRange int int | PaddedRows int int | RowRange int int

definition flat_per_op :: "int \<Rightarrow> int \<Rightarrow> int" where
  "flat_per_op elem limit = max (16 div elem) (limit div elem div (16 div elem) * (16 div elem))"

definition flat_pieces :: "int \<Rightarrow> int \<Rightarrow> int \<Rightarrow> gather_op list" where
  "flat_pieces n elem limit = map (\<lambda>p. ElementRange (fst p) (fst p + snd p)) (cut_every 0 n (flat_per_op elem limit))"

definition dcp_all_gather :: "DcpRuntime \<Rightarrow> Tensor \<Rightarrow> int \<Rightarrow> py_error + gather_op list" where
  "dcp_all_gather rt t axis =
    bind_res (check_tensor t) (\<lambda>_.
    bind_res (normalize_dim t axis) (\<lambda>d.
    let outer = prod_list (take d (tn_shape t)); inner = prod_list (drop d (tn_shape t));
        nbytes = tensor_bytes t; row_bytes = inner * tn_elem t; limit = min (dr_gather_chunk rt) (dr_max_gather rt)
    in if outer = 1
       then Inr (if nbytes \<le> limit then [WholeShard] else flat_pieces (numel t) (tn_elem t) limit)
       else if row_bytes mod 16 \<noteq> 0 \<or> nbytes mod 16 \<noteq> 0
       then (if nbytes > dr_max_gather rt then Inl (Declined ''all-gather: shard with rows that are not whole packs'' [nbytes, row_bytes])
         else Inr [PaddedRows 0 outer])
       else Inr (map (\<lambda>p. RowRange (fst p) (fst p + snd p)) (cut_every 0 outer (max 1 (min outer (limit div row_bytes)))))))"

definition scatter_limit :: "DcpRuntime \<Rightarrow> int" where
  "scatter_limit rt = min (dr_scatter_op rt) (dr_max_size rt)"

definition dcp_scatter_pieces :: "DcpRuntime \<Rightarrow> int \<Rightarrow> int \<Rightarrow> py_error + (int \<times> int) list" where
  "dcp_scatter_pieces rt rows row_bytes =
    (let per_op = scatter_limit rt div dr_world rt div 16 * 16 in
     if per_op < 16 then Inl (Declined ''scatter: op limit below one pack per rank'' [scatter_limit rt])
     else Inr (if row_bytes \<le> per_op
       then map (\<lambda>p. (fst p * row_bytes, snd p * row_bytes)) (cut_every 0 rows (per_op div row_bytes))
       else concat (map (\<lambda>r. map (\<lambda>p. (r * row_bytes + fst p, snd p)) (cut_every 0 row_bytes per_op)) (py_range rows))))"

text \<open>
  A scatter: one op of the whole message, or the pieces of every peer's block as \<open>(offset, chunk bytes)\<close> with the stride
  between blocks.
\<close>

datatype scatter_op = WholeMessage | BlockPieces int "(int \<times> int) list"

definition dcp_reduce_scatter :: "DcpRuntime \<Rightarrow> Tensor \<Rightarrow> int \<Rightarrow> py_error + scatter_op" where
  "dcp_reduce_scatter rt t axis =
    bind_res (check_tensor t) (\<lambda>_.
    if tn_dtype t \<noteq> ''bfloat16'' then Inl (Declined ''reduce-scatter: dtype not prepared'' [])
    else bind_res (normalize_dim t axis) (\<lambda>d.
    let extent = tn_shape t ! d; heads = extent div dr_world rt; row_bytes = numel t div extent * tn_elem t
    in if extent mod dr_world rt \<noteq> 0 then Inl (Declined ''reduce-scatter: extent not divisible by the group'' [extent])
       else if row_bytes mod 16 \<noteq> 0 \<or> tn_pointer t mod 16 \<noteq> 0
       then Inl (Declined ''reduce-scatter: rows that are not whole packs or an unaligned pointer'' [row_bytes])
       else if tensor_bytes t \<le> scatter_limit rt then Inr WholeMessage
       else bind_res (dcp_scatter_pieces rt heads row_bytes) (\<lambda>ps. Inr (BlockPieces (heads * row_bytes) ps))))"

definition dcp_all_to_all :: "DcpRuntime \<Rightarrow> Tensor \<Rightarrow> Tensor \<Rightarrow> py_error + scatter_op" where
  "dcp_all_to_all rt send recv =
    bind_res (check_tensor send) (\<lambda>_.
    if length (tn_shape send) < 2 \<or> hd (tn_shape send) \<noteq> dr_world rt \<or> tn_shape recv \<noteq> tn_shape send \<or> tn_dtype recv \<noteq> tn_dtype send
    then Inl (Declined ''all-to-all: send and recv must be [world, rows, ...]'' [])
    else if \<not> tn_contiguous recv \<or> tn_pointer send mod 16 \<noteq> 0 \<or> tn_pointer recv mod 16 \<noteq> 0
    then Inl (Declined ''all-to-all: non-contiguous receive buffer or unaligned pointers'' [])
    else
      let rows = tn_shape send ! 1; row_bytes = numel send div (dr_world rt * rows) * tn_elem send
      in if row_bytes mod 16 \<noteq> 0 then Inl (Declined ''all-to-all: rows that are not whole packs'' [row_bytes])
         else if tensor_bytes send \<le> scatter_limit rt then Inr WholeMessage
         else bind_res (dcp_scatter_pieces rt rows row_bytes) (\<lambda>ps. Inr (BlockPieces (rows * row_bytes) ps)))"

text \<open>\<open>all_to_all_single\<close>: above the op limit, the flat buffer is taken as rows of one pack.\<close>

definition dcp_all_to_all_single :: "DcpRuntime \<Rightarrow> Tensor \<Rightarrow> Tensor \<Rightarrow> py_error + scatter_op" where
  "dcp_all_to_all_single rt send recv =
    bind_res (check_tensor send) (\<lambda>_.
    let nbytes = tensor_bytes send in
    if numel recv \<noteq> numel send \<or> tn_dtype recv \<noteq> tn_dtype send \<or> \<not> tn_contiguous recv
    then Inl (Declined ''all-to-all: output must match the input'' [])
    else if nbytes mod (dr_world rt * 16) \<noteq> 0 \<or> tn_pointer send mod 16 \<noteq> 0 \<or> tn_pointer recv mod 16 \<noteq> 0
    then Inl (Declined ''all-to-all: not chunks of whole packs, or unaligned pointers'' [nbytes])
    else if nbytes > scatter_limit rt
    then let per_pack = 16 div tn_elem send;
             shape = [dr_world rt, numel send div (dr_world rt * per_pack), per_pack]
      in dcp_all_to_all rt (send\<lparr>tn_shape := shape\<rparr>) (recv\<lparr>tn_shape := shape\<rparr>)
    else Inr WholeMessage)"

end
