(* ===== verification/DcpFacts.thy ===== *)
theory DcpFacts
  imports DcpRing PiecesFacts
begin

text \<open>
  Facts about the decode-context-parallel collectives: the hand-written routes of the eight-Spark ring are the derived ones,
  the relay queues carry what the documentation says, and the ops of every collective carry each byte once within the
  group's limits.
\<close>

section \<open>Routes\<close>

definition ring8 :: Fabric where
  "ring8 = \<lparr>cables = map (\<lambda>i. \<lparr>ca = i, ca_port = 0, cb = (i + 1) mod 8, cb_port = 1\<rparr>) [0, 1, 2, 3, 4, 5, 6, 7]\<rparr>"

lemma ring8_is_ring: "Fabric_ring 8 = Inr ring8"
  by code_simp

definition pair_agrees :: "int \<Rightarrow> int \<Rightarrow> bool" where
  "pair_agrees a b = (case (derive_lanes DEFAULT_ROLES ring8 a b 2, route_functions a b) of
     (Inr ls, Inr fs) \<Rightarrow> map (\<lambda>l. role_device (r_local l)) ls = map (fst \<circ> FUNCTIONS) fs | _ \<Rightarrow> False)"

lemma pairs_agree: "list_all (\<lambda>a. list_all (\<lambda>b. a = b \<or> pair_agrees a b) [0, 1, 2, 3, 4, 5, 6, 7]) [0, 1, 2, 3, 4, 5, 6, 7]"
  by code_simp


lemma octet: "0 \<le> a \<Longrightarrow> a < 8 \<Longrightarrow> a \<in> set [0, 1, 2, 3, 4, 5, 6, 7 :: int]"
  by auto

lemma pair_routes:
  assumes "0 \<le> a" "a < 8" "0 \<le> b" "b < 8" "a \<noteq> b" "derive_lanes DEFAULT_ROLES ring8 a b 2 = Inr ls"
  shows "\<exists>fs. route_functions a b = Inr fs \<and> map (fst \<circ> FUNCTIONS) fs = map (\<lambda>l. role_device (r_local l)) ls"
proof -
  have "pair_agrees a b" using pairs_agree octet [OF assms(1,2)] octet [OF assms(3,4)] assms(5) unfolding list_all_iff by blast
  then show ?thesis using assms(6) by (auto simp: pair_agrees_def split: sum.split_asm)
qed

text \<open>
  C23: the hand-written rule and the derivation agree: for every group of distinct positions of the eight-Spark ring, the routes
  of a rank by clockwise distance are the route map derived from the ring's shortest paths, lane by lane.
\<close>

theorem ring_rule_derived:
  assumes "Fabric_ring 8 = Inr F" "set ps \<subseteq> {0..<8}" "distinct ps" "0 \<le> rank" "rank < int (length ps)"
    and "derive_routes DEFAULT_ROLES \<lparr>l_fabric = F, l_positions = ps\<rparr> 2 = Inr G"
  shows "peer_routes rank ps = Inr (route_map G rank)"
proof -
  let ?L = "\<lparr>l_fabric = F, l_positions = ps\<rparr>" and ?peers = "filter (\<lambda>peer. peer \<noteq> rank) (py_range (int (length ps)))"
  have F: "F = ring8" using assms(1) ring8_is_ring by simp
  have w: "layout_world ?L = int (length ps)" by (simp add: layout_world_def)
  have "rank_lanes DEFAULT_ROLES ?L 2 rank = Inr (g_ranks G ! nat rank)"
    using assms(4-6) map_res_nth [of "rank_lanes DEFAULT_ROLES ?L 2" "py_range (int (length ps))" _ "nat rank"]
    by (auto simp: derive_routes_def bind_res_Inr w)
  then have m: "map_res (\<lambda>peer. bind_res (derive_lanes DEFAULT_ROLES F (position_of ?L rank) (position_of ?L peer) 2)
      (\<lambda>ls. Inr (peer, ls))) ?peers = Inr (g_ranks G ! nat rank)"
    by (simp add: rank_lanes_def w)
  let ?d = "g_ranks G ! nat rank"
  have e: "\<exists>ls. ?d ! i = (?peers ! i, ls) \<and> derive_lanes DEFAULT_ROLES F (ps ! nat rank) (ps ! nat (?peers ! i)) 2 = Inr ls"
    if "i < length ?peers" for i
    using map_res_nth [OF m that] by (auto simp: bind_res_Inr position_of_def)
  have len: "length ?d = length ?peers" using map_res_length [OF m] .
  have "map fst ?d = ?peers" using e len by (intro nth_equalityI) force+
  then have "ditems ?d = ?d" by (intro ditems_sorted) (simp add: sorted_wrt_filter)
  then have r: "route_map G rank = map (\<lambda>(peer, lanes). (peer, map (\<lambda>l. role_device (r_local l)) lanes)) ?d"
    by (simp add: route_map_def)
  have "bind_res (py_index ps rank) (\<lambda>a. bind_res (py_index ps (?peers ! i)) (\<lambda>b.
      bind_res (route_functions a b) (\<lambda>fs. Inr (?peers ! i, map (fst \<circ> FUNCTIONS) fs)))) = Inr (route_map G rank ! i)"
    if i: "i < length ?peers" for i
  proof -
    have p: "?peers ! i \<in> set ?peers" using i by (rule nth_mem)
    then have q: "0 \<le> ?peers ! i" "?peers ! i < int (length ps)" "?peers ! i \<noteq> rank" by auto
    obtain ls where ls: "?d ! i = (?peers ! i, ls)" "derive_lanes DEFAULT_ROLES F (ps ! nat rank) (ps ! nat (?peers ! i)) 2 = Inr ls"
      using e [OF i] by blast
    have "ps ! nat rank \<in> set ps" "ps ! nat (?peers ! i) \<in> set ps" using assms(4,5) q by simp_all
    then have in_ps: "0 \<le> ps ! nat rank" "ps ! nat rank < 8" "0 \<le> ps ! nat (?peers ! i)" "ps ! nat (?peers ! i) < 8"
      using assms(2) by (auto simp: subset_iff)
    have "ps ! nat rank \<noteq> ps ! nat (?peers ! i)"
      using assms(3-5) q by (simp add: nth_eq_iff_index_eq)
    from pair_routes [OF in_ps this ls(2) [unfolded F]] obtain fs
      where f: "route_functions (ps ! nat rank) (ps ! nat (?peers ! i)) = Inr fs"
        "map (fst \<circ> FUNCTIONS) fs = map (\<lambda>l. role_device (r_local l)) ls" by blast
    have "route_map G rank ! i = (?peers ! i, map (\<lambda>l. role_device (r_local l)) ls)"
      unfolding r using len i by (simp add: ls(1))
    then show ?thesis using assms(4,5) q(1,2) by (simp only: py_index_nth bind_res.simps f)
  qed
  then show ?thesis
    unfolding peer_routes_def map_res_Inr using len r by (simp add: list_all2_conv_all_nth)
qed

lemma ring_rule_derived_witness:
  "\<exists>G. derive_routes DEFAULT_ROLES \<lparr>l_fabric = ring8, l_positions = [2, 3, 4, 7]\<rparr> 2 = Inr G
    \<and> peer_routes 1 [2, 3, 4, 7] = Inr (route_map G 1)"
proof -
  have "is_ok (derive_routes DEFAULT_ROLES \<lparr>l_fabric = ring8, l_positions = [2, 3, 4, 7]\<rparr> 2)" by code_simp
  then obtain G where "derive_routes DEFAULT_ROLES \<lparr>l_fabric = ring8, l_positions = [2, 3, 4, 7]\<rparr> 2 = Inr G" by (auto simp: is_ok_iff)
  moreover then have "peer_routes 1 [2, 3, 4, 7] = Inr (route_map G 1)" by (intro ring_rule_derived [OF ring8_is_ring]) auto
  ultimately show ?thesis by blast
qed

section \<open>Relay queues\<close>

definition crossing_counts :: "ring_queue list \<Rightarrow> (ring_queue, nat) dict" where
  "crossing_counts qs = foldl (\<lambda>d q. dset q (dget_or d q 0 + 1) d) [] qs"

definition scaled :: "rat \<Rightarrow> (ring_queue, nat) dict \<Rightarrow> (ring_queue, rat) dict" where
  "scaled r d = map (\<lambda>(q, n). (q, r * of_nat n)) d"

lemma scaled_dset: "dset q (r * of_nat n) (scaled r d) = scaled r (dset q n d)"
  unfolding scaled_def dset_def by (induction d) auto

lemma scaled_dget: "dget_or (scaled r d) q 0 = r * of_nat (dget_or d q 0)"
  unfolding scaled_def dget_or_def by (induction d) auto

text \<open>The load is the number of relayed stripes, each half of what a rank sends a peer.\<close>

lemma loads_count: "foldl (\<lambda>d q. dset q (dget_or d q 0 + r) d) (scaled r d) qs
    = scaled r (foldl (\<lambda>d q. dset q (dget_or d q 0 + 1) d) d qs)"
proof (induction qs arbitrary: d)
  case (Cons q qs)
  have "r * of_nat (dget_or d q 0) + r = r * of_nat (dget_or d q 0 + 1)" by (simp add: algebra_simps)
  then show ?case using Cons.IH by (simp add: scaled_dget scaled_dset del: of_nat_add of_nat_Suc)
qed simp

definition busiest :: "int list \<Rightarrow> nat option" where
  "busiest ps = (case map_res pair_crossings (List.product ps ps) of
     Inl _ \<Rightarrow> None
   | Inr cs \<Rightarrow> let d = crossing_counts (concat cs) in Some (if d = [] then 0 else Max (set (map snd d))))"

lemma relay_queue_bytes_busiest:
  assumes "busiest ps = Some n" "0 \<le> b"
  shows "relay_queue_bytes ps b = Inr (ceiling (of_int b / 2 * of_nat n :: rat))"
proof -
  obtain cs where c: "map_res pair_crossings (List.product ps ps) = Inr cs"
    using assms(1) by (auto simp: busiest_def split: sum.split_asm)
  let ?d = "crossing_counts (concat cs)" and ?r = "of_int b / 2 :: rat"
  have n: "n = (if ?d = [] then 0 else Max (set (map snd ?d)))" using assms(1) c by (simp add: busiest_def Let_def)
  have l: "relay_queue_loads ps b = Inr (scaled ?r ?d)"
    using c loads_count [of ?r "[]" "concat cs"] by (simp add: relay_queue_loads_def crossing_counts_def scaled_def)
  show ?thesis
  proof (cases "?d = []")
    case True
    then show ?thesis using l n by (simp add: relay_queue_bytes_def scaled_def)
  next
    case False
    have m: "mono (\<lambda>k. ?r * of_nat k)" using assms(2) by (auto intro!: monoI mult_left_mono)
    have "set (map snd (scaled ?r ?d)) = (\<lambda>k. ?r * of_nat k) ` set (map snd ?d)" by (simp add: scaled_def image_image case_prod_beta)
    then have M: "Max (set (map snd (scaled ?r ?d))) = ?r * of_nat (Max (set (map snd ?d)))"
      using mono_Max_commute [OF m, of "set (map snd ?d)"] False by simp
    have "scaled ?r ?d \<noteq> []" using False by (simp add: scaled_def)
    then show ?thesis unfolding relay_queue_bytes_def l bind_res.simps n using False by (simp only: if_False M)
  qed
qed

definition arc :: "int \<Rightarrow> int \<Rightarrow> int list" where
  "arc start n = map (\<lambda>k. (start + k) mod 8) (py_range n)"

lemma busiest_arcs:
  "busiest [0, 1, 2, 3, 4, 5, 6, 7] = Some 6"
  "list_all (\<lambda>s. busiest (arc s 4) = Some 2) [0, 1, 2, 3, 4, 5, 6, 7]"
  "list_all (\<lambda>s. busiest (arc s 2) = Some 0) [0, 1, 2, 3, 4, 5, 6, 7]"
  by code_simp+

text \<open>
  The relay load is what the module says: in one op in which every rank sends as many bytes to every peer, the busiest relay
  queue carries three times those bytes on the full ring, once on four consecutive Sparks wherever they start, and
  nothing between neighbours.
\<close>

theorem ring_relay_load:
  assumes "0 \<le> bytes" "0 \<le> start" "start < 8"
  shows "relay_queue_bytes [0, 1, 2, 3, 4, 5, 6, 7] bytes = Inr (3 * bytes) \<and> relay_queue_bytes (arc start 4) bytes = Inr bytes
    \<and> relay_queue_bytes (arc start 2) bytes = Inr 0"
proof -
  have "busiest (arc start 4) = Some 2" "busiest (arc start 2) = Some 0"
    using busiest_arcs(2,3) octet [OF assms(2,3)] by (auto simp: list_all_iff)
  moreover have "ceiling (of_int bytes / 2 * of_nat 6 :: rat) = 3 * bytes"
  proof -
    have "(of_int bytes / 2 * of_nat 6 :: rat) = of_int (3 * bytes)" by simp
    then show ?thesis by (simp only: ceiling_of_int)
  qed
  ultimately show ?thesis
    using relay_queue_bytes_busiest [OF busiest_arcs(1) assms(1)] relay_queue_bytes_busiest [of "arc start 4" 2 bytes]
      relay_queue_bytes_busiest [of "arc start 2" 0 bytes] assms(1) by simp
qed

lemma ring_relay_load_witness:
  "relay_queue_bytes [0, 1, 2, 3, 4, 5, 6, 7] (gather_chunk_default 8 2097152 None) = Inr (3 * 131072)
    \<and> relay_queue_bytes (arc 6 4) 262144 = Inr 262144"
  using ring_relay_load [of 131072 0] ring_relay_load [of 262144 6] by (simp add: gather_chunk_default_def RELAYED_PER_PEER_BYTES_def dget_or_def)

section \<open>Ops of a scatter\<close>

lemma tiles_shift: "tiles lo ps hi \<Longrightarrow> tiles (k + lo) (map (\<lambda>p. (k + fst p, snd p)) ps) (k + hi)"
  by (induction lo ps hi rule: tiles.induct) (auto simp: add.assoc)

lemma tiles_scale: "tiles lo ps hi \<Longrightarrow> 0 \<le> k \<Longrightarrow> tiles (lo * k) (map (\<lambda>p. (fst p * k, snd p * k)) ps) (hi * k)"
  by (induction lo ps hi rule: tiles.induct) (auto simp: distrib_right [symmetric])

lemma tiles_rows:
  assumes "tiles 0 ps w" "0 \<le> n"
  shows "tiles 0 (concat (map (\<lambda>r. map (\<lambda>p. (r * w + fst p, snd p)) ps) (py_range n))) (n * w)"
  using assms(2)
proof (induction n rule: int_ge_induct)
  case (step n)
  have "tiles (n * w) (map (\<lambda>p. (n * w + fst p, snd p)) ps) ((n + 1) * w)"
    using tiles_shift [OF assms(1), of "n * w"] by (simp add: algebra_simps)
  then show ?case
    unfolding py_range_snoc [OF step.hyps] map_append concat_append tiles_append using step.IH by auto
qed simp

definition per_rank :: "DcpRuntime \<Rightarrow> int" where
  "per_rank rt = scatter_limit rt div dr_world rt div 16 * 16"

lemma per_rank_fits: "0 < dr_world rt \<Longrightarrow> dr_world rt * per_rank rt \<le> scatter_limit rt"
proof -
  assume w: "0 < dr_world rt"
  let ?q = "scatter_limit rt div dr_world rt"
  have "?q div 16 * 16 + ?q mod 16 = ?q" "0 \<le> ?q mod 16" by simp_all
  then have "per_rank rt \<le> ?q" unfolding per_rank_def by linarith
  then have "dr_world rt * per_rank rt \<le> dr_world rt * ?q" using w by simp
  moreover have "dr_world rt * ?q + scatter_limit rt mod dr_world rt = scatter_limit rt" by simp
  moreover have "0 \<le> scatter_limit rt mod dr_world rt" using w by simp
  ultimately show ?thesis by linarith
qed

definition block_ok :: "DcpRuntime \<times> int \<times> int \<Rightarrow> bool" where
  "block_ok x = (case x of (rt, rows, w) \<Rightarrow> 0 \<le> rows \<and> 0 < w \<and> w mod 16 = 0 \<and> is_ok (dcp_scatter_pieces rt rows w))"

definition block_pieces :: "DcpRuntime \<times> int \<times> int \<Rightarrow> (int \<times> int) list" where
  "block_pieces x = (case x of (rt, rows, w) \<Rightarrow> case dcp_scatter_pieces rt rows w of Inl _ \<Rightarrow> [] | Inr ps \<Rightarrow> ps)"

definition block_size :: "DcpRuntime \<times> int \<times> int \<Rightarrow> int" where
  "block_size x = (case x of (rt, rows, w) \<Rightarrow> rows * w)"

lemma block_pieces_eq:
  assumes "dcp_scatter_pieces rt rows w = Inr ps"
  shows "16 \<le> per_rank rt" "ps = (if w \<le> per_rank rt
    then map (\<lambda>p. (fst p * w, snd p * w)) (cut_every 0 rows (per_rank rt div w))
    else concat (map (\<lambda>r. map (\<lambda>p. (r * w + fst p, snd p)) (cut_every 0 w (per_rank rt))) (py_range rows)))"
  using assms by (simp_all add: dcp_scatter_pieces_def per_rank_def Let_def split: if_splits)

interpretation block_tiling: piece_plan block_ok block_pieces block_size
proof
  fix x assume ok: "block_ok x"
  obtain rt rows w where x: "x = (rt, rows, w)" by (cases x)
  obtain ps where ps: "dcp_scatter_pieces rt rows w = Inr ps" and w: "0 \<le> rows" "0 < w"
    using ok x by (auto simp: block_ok_def is_ok_iff)
  note e = block_pieces_eq [OF ps]
  have "tiles 0 ps (rows * w)"
  proof (cases "w \<le> per_rank rt")
    case True
    then have "0 < per_rank rt div w" using w by (simp add: pos_imp_zdiv_pos_iff)
    then show ?thesis using tiles_scale [OF tiles_cut_every [OF _ w(1)], of _ w] True w e by simp
  next
    case False
    have "tiles 0 (cut_every 0 w (per_rank rt)) w" using e(1) w by (intro tiles_cut_every) simp_all
    from tiles_rows [OF this w(1)] show ?thesis unfolding e(2) using False by simp
  qed
  then show "tiles 0 (block_pieces x) (block_size x)" using ps x by (simp add: block_pieces_def block_size_def)
qed

lemma block_piece_shape:
  assumes "dcp_scatter_pieces rt rows w = Inr ps" "0 < w" "w mod 16 = 0" "0 < dr_world rt" "p \<in> set ps"
  shows "fst p mod 16 = 0 \<and> snd p mod 16 = 0 \<and> 0 < snd p \<and> dr_world rt * snd p \<le> scatter_limit rt"
proof -
  note e = block_pieces_eq [OF assms(1)]
  have d: "16 dvd w" "16 dvd per_rank rt" using assms(3) by (simp_all add: mod_eq_0_iff_dvd per_rank_def)
  have "fst p mod 16 = 0 \<and> snd p mod 16 = 0 \<and> 0 < snd p \<and> snd p \<le> per_rank rt"
  proof (cases "w \<le> per_rank rt")
    case True
    obtain q where q: "p = (fst q * w, snd q * w)" "q \<in> set (cut_every 0 rows (per_rank rt div w))"
      using assms(5) e True by auto
    have "0 < per_rank rt div w" using True assms by (simp add: pos_imp_zdiv_pos_iff)
    then have "0 < snd q" "snd q \<le> per_rank rt div w" using q(2) cut_every_pos cut_every_size by blast+
    moreover then have "snd q * w \<le> per_rank rt div w * w" using assms(2) by simp
    moreover have "per_rank rt div w * w + per_rank rt mod w = per_rank rt" "0 \<le> per_rank rt mod w" using assms(2) by simp_all
    ultimately have "snd q * w \<le> per_rank rt" by linarith
    then show ?thesis using q(1) d assms(2) \<open>0 < snd q\<close> by (simp add: mod_eq_0_iff_dvd)
  next
    case False
    obtain r q where q: "p = (r * w + fst q, snd q)" "q \<in> set (cut_every 0 w (per_rank rt))"
      using assms(5) e False by auto
    have "0 < per_rank rt" using e(1) by simp
    then have "0 < snd q" "snd q \<le> per_rank rt" using q(2) cut_every_pos cut_every_size by blast+
    moreover have "fst q mod 16 = 0 \<and> snd q mod 16 = 0"
      using q(2) e(1) d assms(3) by (intro cut_every_aligned) (auto simp: mod_eq_0_iff_dvd)
    ultimately show ?thesis using q(1) d by (simp add: mod_eq_0_iff_dvd)
  qed
  moreover then have "dr_world rt * snd p \<le> dr_world rt * per_rank rt" using assms(4) by simp
  ultimately show ?thesis using per_rank_fits [OF assms(4)] by linarith
qed

text \<open>What a scatter op promises: one op within the limit, or pieces that tile every peer's block.\<close>

definition scatter_sound :: "DcpRuntime \<Rightarrow> Tensor \<Rightarrow> scatter_op \<Rightarrow> bool" where
  "scatter_sound rt t op' = (case op' of
     WholeMessage \<Rightarrow> tensor_bytes t \<le> scatter_limit rt
   | BlockPieces stride ps \<Rightarrow> dr_world rt * stride = tensor_bytes t \<and> tiles 0 ps stride
       \<and> list_all (\<lambda>(off, bytes). off mod 16 = 0 \<and> bytes mod 16 = 0 \<and> 0 < bytes \<and> dr_world rt * bytes \<le> scatter_limit rt) ps)"

lemma block_pieces_sound:
  assumes "dcp_scatter_pieces rt rows w = Inr ps" "0 \<le> rows" "0 < w" "w mod 16 = 0" "0 < dr_world rt"
    and "dr_world rt * (rows * w) = tensor_bytes t"
  shows "scatter_sound rt t (BlockPieces (rows * w) ps)"
proof -
  have "tiles 0 ps (rows * w)"
    using block_tiling.plan_tiles [of "(rt, rows, w)"] assms by (simp add: block_ok_def block_pieces_def block_size_def)
  moreover have "list_all (\<lambda>(off, bytes). off mod 16 = 0 \<and> bytes mod 16 = 0 \<and> 0 < bytes \<and> dr_world rt * bytes \<le> scatter_limit rt) ps"
    using block_piece_shape [OF assms(1,3-5)] by (auto simp: list_all_iff)
  ultimately show ?thesis using assms(6) by (simp add: scatter_sound_def)
qed

definition tensor_ok :: "Tensor \<Rightarrow> bool" where
  "tensor_ok t \<longleftrightarrow> list_all (\<lambda>n. 0 \<le> n) (tn_shape t) \<and> 0 < tn_elem t \<and> tn_elem t dvd 16"

lemma prod_list_nonneg: "list_all (\<lambda>n. 0 \<le> n) ns \<Longrightarrow> 0 \<le> prod_list (ns :: int list)"
  by (induction ns) auto

lemma dvd_prod_list: "n \<in> set ns \<Longrightarrow> n dvd prod_list (ns :: int list)"
  by (induction ns) auto

lemma checked_tensor:
  assumes "check_tensor t = Inr u" "tensor_ok t"
  shows "0 < numel t" "0 < tensor_bytes t"
proof -
  have "numel t \<noteq> 0" using assms(1) by (simp add: check_tensor_def split: if_splits)
  then show "0 < numel t" using prod_list_nonneg [of "tn_shape t"] assms(2) by (simp add: numel_def tensor_ok_def)
  then show "0 < tensor_bytes t" using assms(2) by (simp add: tensor_bytes_def tensor_ok_def)
qed

text \<open>Rows of a tensor split over the ranks: \<open>n\<close> rows of \<open>elem\<close>-byte elements, \<open>k\<close> for every rank.\<close>

lemma block_bytes:
  assumes "n dvd total_elems" "world * k = n" "0 < total_elems" "0 < n" "0 < world" "0 < (elem :: int)"
  shows "world * (k * (total_elems div n * elem)) = total_elems * elem" "0 < total_elems div n * elem" "0 \<le> k"
proof -
  have "n * (total_elems div n) = total_elems" using assms(1) by simp
  then show "world * (k * (total_elems div n * elem)) = total_elems * elem" using assms(2) by (metis mult.assoc)
  show "0 < total_elems div n * elem" using assms by (simp add: pos_imp_zdiv_pos_iff zdvd_imp_le)
  have "0 < world * k" using assms by simp
  then show "0 \<le> k" using assms(5) by (simp add: zero_less_mult_iff)
qed

lemma reduce_scatter_sound:
  assumes "dcp_reduce_scatter rt t axis = Inr sc" "tensor_ok t" "0 < dr_world rt"
  shows "scatter_sound rt t sc"
proof -
  obtain u d where u: "check_tensor t = Inr u" and d: "normalize_dim t axis = Inr d"
    using assms(1) by (auto simp: dcp_reduce_scatter_def bind_res_Inr split: if_splits)
  define n where "n = tn_shape t ! d"
  define w where "w = numel t div n * tn_elem t"
  have ok: "n mod dr_world rt = 0" "w mod 16 = 0"
    and r: "tensor_bytes t \<le> scatter_limit rt \<and> sc = WholeMessage
      \<or> (\<exists>ps. dcp_scatter_pieces rt (n div dr_world rt) w = Inr ps \<and> sc = BlockPieces (n div dr_world rt * w) ps)"
    using assms(1) u d by (auto simp: dcp_reduce_scatter_def Let_def n_def w_def bind_res_Inr split: if_splits)
  have "d < length (tn_shape t)" using d by (auto simp: normalize_dim_def Let_def split: if_splits)
  then have "n \<in> set (tn_shape t)" by (simp add: n_def)
  then have n: "n dvd numel t" "0 \<le> n" using assms(2) by (simp_all add: numel_def dvd_prod_list tensor_ok_def list_all_iff)
  note pos = checked_tensor [OF u assms(2)]
  have "0 < n" using n pos by (cases "n = 0") auto
  moreover have "dr_world rt * (n div dr_world rt) = n" using ok(1) by auto
  ultimately have b: "dr_world rt * (n div dr_world rt * w) = tensor_bytes t" "0 < w" "0 \<le> n div dr_world rt"
    using block_bytes [OF n(1) _ pos(1) _ assms(3), of "n div dr_world rt" "tn_elem t"] assms(2)
    by (simp_all add: w_def tensor_bytes_def tensor_ok_def)
  show ?thesis
    using r block_pieces_sound [OF _ b(3,2) ok(2) assms(3) b(1)] by (auto simp: scatter_sound_def)
qed

lemma all_to_all_sound:
  assumes "dcp_all_to_all rt t recv = Inr sc" "tensor_ok t" "0 < dr_world rt"
  shows "scatter_sound rt t sc"
proof -
  obtain u where u: "check_tensor t = Inr u"
    using assms(1) by (auto simp: dcp_all_to_all_def bind_res_Inr)
  have l: "2 \<le> length (tn_shape t)" "hd (tn_shape t) = dr_world rt"
    using assms(1) u by (auto simp: dcp_all_to_all_def split: if_splits)
  define rows where "rows = tn_shape t ! 1"
  define w where "w = numel t div (dr_world rt * rows) * tn_elem t"
  have ok: "w mod 16 = 0"
    and r: "tensor_bytes t \<le> scatter_limit rt \<and> sc = WholeMessage
      \<or> (\<exists>ps. dcp_scatter_pieces rt rows w = Inr ps \<and> sc = BlockPieces (rows * w) ps)"
    using assms(1) u by (auto simp: dcp_all_to_all_def Let_def rows_def w_def bind_res_Inr split: if_splits)
  obtain ns where ns: "tn_shape t = dr_world rt # rows # ns"
    using l by (cases "tn_shape t"; cases "tl (tn_shape t)") (auto simp: rows_def)
  then have n: "dr_world rt * rows dvd numel t" "0 \<le> rows"
    using assms(2) by (simp_all add: numel_def tensor_ok_def mult.assoc [symmetric])
  note pos = checked_tensor [OF u assms(2)]
  have "0 < dr_world rt * rows" using n pos assms(3) by (cases "rows = 0") auto
  then have b: "dr_world rt * (rows * w) = tensor_bytes t" "0 < w"
    using block_bytes [OF n(1) refl pos(1) _ assms(3), of "tn_elem t"] assms(2)
    by (simp_all add: w_def tensor_bytes_def tensor_ok_def)
  show ?thesis
    using r block_pieces_sound [OF _ n(2) b(2) ok assms(3) b(1)] by (auto simp: scatter_sound_def)
qed

lemma all_to_all_single_sound:
  assumes "dcp_all_to_all_single rt t recv = Inr sc" "tensor_ok t" "0 < dr_world rt"
  shows "scatter_sound rt t sc"
proof (cases "tensor_bytes t \<le> scatter_limit rt")
  case True
  then have "sc = WholeMessage"
    using assms(1) by (auto simp: dcp_all_to_all_single_def bind_res_Inr Let_def split: if_splits)
  then show ?thesis using True by (simp add: scatter_sound_def)
next
  case False
  define k where "k = 16 div tn_elem t"
  define n where "n = numel t div (dr_world rt * k)"
  let ?t = "t\<lparr>tn_shape := [dr_world rt, n, k]\<rparr>" and ?r = "recv\<lparr>tn_shape := [dr_world rt, n, k]\<rparr>"
  obtain u where u: "check_tensor t = Inr u" using assms(1) by (auto simp: dcp_all_to_all_single_def bind_res_Inr)
  have b: "tensor_bytes t mod (dr_world rt * 16) = 0" and r: "dcp_all_to_all rt ?t ?r = Inr sc"
    using assms(1) u False by (auto simp: dcp_all_to_all_single_def Let_def n_def k_def split: if_splits)
  have e: "0 < tn_elem t" and ke: "tn_elem t * k = 16" using assms(2) by (simp_all add: tensor_ok_def k_def)
  have k: "0 < k" using e ke by (metis zero_less_mult_pos zero_less_numeral)
  have w: "dr_world rt * k * tn_elem t = dr_world rt * 16" using ke by (simp add: mult.assoc mult.commute [of k])
  have "dr_world rt * k * tn_elem t dvd numel t * tn_elem t"
    using b unfolding w by (simp add: tensor_bytes_def mod_eq_0_iff_dvd)
  then have "dr_world rt * k dvd numel t" using e by simp
  then have n: "dr_world rt * k * n = numel t" by (simp add: n_def)
  have same: "numel ?t = numel t" using n by (simp add: numel_def algebra_simps)
  have "0 < dr_world rt * k" using assms(3) k by simp
  then have "0 \<le> n" using n checked_tensor(1) [OF u assms(2)] by (metis less_imp_le zero_less_mult_pos)
  then have "tensor_ok ?t" using assms k by (simp add: tensor_ok_def)
  from all_to_all_sound [OF r this assms(3)] show ?thesis
    by (cases sc) (simp_all add: scatter_sound_def tensor_bytes_def same)
qed

text \<open>
  C24: a scatter carries every byte once: whenever a reduce-scatter, an all-to-all of rows or a flat all-to-all is taken, its
  message is one op within the scatter limit, or its ops tile the block of every peer, each a 16-byte-aligned chunk
  of whole packs whose message over the group fits the limit.
\<close>

theorem scatter_message_once:
  assumes "tensor_ok t" "0 < dr_world rt"
    and "dcp_reduce_scatter rt t axis = Inr sc \<or> dcp_all_to_all rt t recv = Inr sc \<or> dcp_all_to_all_single rt t recv = Inr sc"
  shows "scatter_sound rt t sc"
  using assms(3) reduce_scatter_sound [OF _ assms(1,2)] all_to_all_sound [OF _ assms(1,2)]
    all_to_all_single_sound [OF _ assms(1,2)] by blast

definition sample_runtime :: DcpRuntime where
  "sample_runtime = \<lparr>dr_world = 4, dr_max_gather = 4096, dr_max_size = 1024, dr_gather_chunk = 256, dr_scatter_op = 256\<rparr>"

definition sample_tensor :: "int list \<Rightarrow> Tensor" where
  "sample_tensor ns = \<lparr>tn_shape = ns, tn_elem = 2, tn_here = True, tn_contiguous = True, tn_dtype = ''bfloat16'',
    tn_dense_real = True, tn_pointer = 4096\<rparr>"

lemma scatter_message_once_witness:
  "scatter_sound sample_runtime (sample_tensor [8, 40]) (BlockPieces 160 [(0, 64), (64, 16), (80, 64), (144, 16)])
    \<and> scatter_sound sample_runtime (sample_tensor [512]) (BlockPieces 256 [(0, 64), (64, 64), (128, 64), (192, 64)])"
proof -
  have "tensor_ok (sample_tensor [8, 40])" "tensor_ok (sample_tensor [512])" by (simp_all add: tensor_ok_def sample_tensor_def)
  moreover have "0 < dr_world sample_runtime" by (simp add: sample_runtime_def)
  moreover have "dcp_reduce_scatter sample_runtime (sample_tensor [8, 40]) 0 = Inr (BlockPieces 160 [(0, 64), (64, 16), (80, 64), (144, 16)])"
    "dcp_all_to_all_single sample_runtime (sample_tensor [512]) (sample_tensor [512])
      = Inr (BlockPieces 256 [(0, 64), (64, 64), (128, 64), (192, 64)])" by code_simp+
  ultimately show ?thesis by (blast intro: scatter_message_once)
qed

section \<open>Ops of a gather\<close>

text \<open>
  What a gather promises over a shard seen as \<open>outer\<close> rows: its ops carry every element (or every row) once; an op above
  the sub-gather limit is a single row, or the padded path, which stays within the runtime's own limit.
\<close>

definition gather_limit :: "DcpRuntime \<Rightarrow> int" where
  "gather_limit rt = min (dr_gather_chunk rt) (dr_max_gather rt)"

definition rows_before :: "Tensor \<Rightarrow> nat \<Rightarrow> int" where
  "rows_before t d = prod_list (take d (tn_shape t))"

definition op_span :: "gather_op \<Rightarrow> int \<times> int" where
  "op_span op' = (case op' of WholeShard \<Rightarrow> (0, 0) | ElementRange a b \<Rightarrow> (a, b - a) | PaddedRows a b \<Rightarrow> (a, b - a)
    | RowRange a b \<Rightarrow> (a, b - a))"

definition op_bytes :: "Tensor \<Rightarrow> nat \<Rightarrow> gather_op \<Rightarrow> int" where
  "op_bytes t d op' = (case op' of WholeShard \<Rightarrow> tensor_bytes t
    | ElementRange a b \<Rightarrow> (b - a) * tn_elem t
    | PaddedRows a b \<Rightarrow> tensor_bytes t
    | RowRange a b \<Rightarrow> (b - a) * (prod_list (drop d (tn_shape t)) * tn_elem t))"

definition op_fits :: "DcpRuntime \<Rightarrow> Tensor \<Rightarrow> nat \<Rightarrow> gather_op \<Rightarrow> bool" where
  "op_fits rt t d op' \<longleftrightarrow> op_bytes t d op' \<le> gather_limit rt
    \<or> (case op' of PaddedRows a b \<Rightarrow> op_bytes t d op' \<le> dr_max_gather rt | RowRange a b \<Rightarrow> b = a + 1 | _ \<Rightarrow> False)"

definition gather_sound :: "DcpRuntime \<Rightarrow> Tensor \<Rightarrow> nat \<Rightarrow> gather_op list \<Rightarrow> bool" where
  "gather_sound rt t d gs \<longleftrightarrow> list_all (op_fits rt t d) gs
    \<and> (gs = [WholeShard] \<or> tiles 0 (map op_span gs) (if rows_before t d = 1 then numel t else rows_before t d))"

lemma flat_per_op_fits:
  assumes "0 < elem" "elem dvd 16" "16 \<le> limit"
  shows "0 < flat_per_op elem limit \<and> flat_per_op elem limit * elem \<le> limit"
proof -
  define k where "k = 16 div elem"
  have ke: "k * elem = 16" using assms(2) by (simp add: k_def)
  then have k: "0 < k" using assms(1) by (metis zero_less_mult_pos2 zero_less_numeral)
  let ?m = "limit div elem div k * k"
  have "?m + limit div elem mod k = limit div elem" "0 \<le> limit div elem mod k" using k by simp_all
  then have "?m \<le> limit div elem" by linarith
  then have "?m * elem \<le> limit div elem * elem" using assms(1) by simp
  moreover have "limit div elem * elem + limit mod elem = limit" "0 \<le> limit mod elem" using assms(1) by simp_all
  ultimately have "?m * elem \<le> limit" by linarith
  moreover have "k * elem \<le> limit" using ke assms(3) by simp
  ultimately show ?thesis unfolding flat_per_op_def k_def [symmetric] using k by (auto simp: max_def)
qed

lemma flat_sound:
  assumes "tensor_ok t" "0 < numel t" "16 \<le> gather_limit rt" "rows_before t d = 1"
  shows "gather_sound rt t d (flat_pieces (numel t) (tn_elem t) (gather_limit rt))"
proof -
  let ?s = "flat_per_op (tn_elem t) (gather_limit rt)"
  have s: "0 < ?s" "?s * tn_elem t \<le> gather_limit rt"
    using flat_per_op_fits [of "tn_elem t"] assms by (simp_all add: tensor_ok_def)
  have "map op_span (flat_pieces (numel t) (tn_elem t) (gather_limit rt)) = cut_every 0 (numel t) ?s"
    by (simp add: flat_pieces_def op_span_def o_def)
  moreover have "op_fits rt t d (ElementRange (fst p) (fst p + snd p))" if p: "p \<in> set (cut_every 0 (numel t) ?s)" for p
  proof -
    have "snd p * tn_elem t \<le> ?s * tn_elem t"
      using cut_every_size [OF p] assms(1) by (intro mult_right_mono) (simp_all add: tensor_ok_def)
    then show ?thesis using s by (simp add: op_fits_def op_bytes_def)
  qed
  ultimately show ?thesis
    using tiles_cut_every [OF s(1), of 0 "numel t"] assms(2,4)
    by (simp add: gather_sound_def flat_pieces_def list_all_iff)
qed

lemma rows_sound:
  assumes "0 < rows_before t d" "rows_before t d \<noteq> 1" "0 < row_bytes" "row_bytes = prod_list (drop d (tn_shape t)) * tn_elem t"
  shows "gather_sound rt t d (map (\<lambda>p. RowRange (fst p) (fst p + snd p))
    (cut_every 0 (rows_before t d) (max 1 (min (rows_before t d) (gather_limit rt div row_bytes)))))"
proof -
  let ?n = "rows_before t d"
  let ?s = "max 1 (min ?n (gather_limit rt div row_bytes))"
  have "op_fits rt t d (RowRange (fst p) (fst p + snd p))" if p: "p \<in> set (cut_every 0 ?n ?s)" for p
  proof (cases "?s = 1")
    case True
    moreover have "0 < snd p" "snd p \<le> ?s" using cut_every_pos [OF _ p] cut_every_size [OF p] by simp_all
    ultimately show ?thesis by (simp add: op_fits_def)
  next
    case False
    then have "?s \<le> gather_limit rt div row_bytes" by (simp add: max_def min_def split: if_splits)
    with cut_every_size [OF p] have "snd p * row_bytes \<le> gather_limit rt div row_bytes * row_bytes"
      using assms(3) by (intro mult_right_mono) simp_all
    moreover have "gather_limit rt div row_bytes * row_bytes + gather_limit rt mod row_bytes = gather_limit rt"
      "0 \<le> gather_limit rt mod row_bytes" using assms(3) by simp_all
    ultimately show ?thesis unfolding op_fits_def op_bytes_def assms(4) by simp
  qed
  moreover have "tiles 0 (cut_every 0 ?n ?s) ?n" using assms(1) by (intro tiles_cut_every) simp_all
  ultimately show ?thesis using assms(2) by (simp add: gather_sound_def list_all_iff op_span_def o_def)
qed

text \<open>
  C25: a gather carries every element once: when an all-gather is taken, it is one op of the whole shard or its ops tile the
  shard's elements (or its rows), and each op stays within the group's sub-gather limit unless it is one row or the
  padded path, which needs the runtime's own limit.
\<close>

theorem gather_shard_once:
  assumes "tensor_ok t" "16 \<le> gather_limit rt" "normalize_dim t axis = Inr d" "dcp_all_gather rt t axis = Inr gs"
  shows "gather_sound rt t d gs"
proof -
  obtain u where u: "check_tensor t = Inr u" using assms(4) by (auto simp: dcp_all_gather_def bind_res_Inr)
  define row_bytes where "row_bytes = prod_list (drop d (tn_shape t)) * tn_elem t"
  note pos = checked_tensor [OF u assms(1)]
  have n: "rows_before t d * prod_list (drop d (tn_shape t)) = numel t"
    unfolding rows_before_def numel_def by (metis append_take_drop_id prod_list.append)
  have nn: "0 \<le> rows_before t d" "0 \<le> prod_list (drop d (tn_shape t))"
    using assms(1) prod_list_nonneg [of "take d (tn_shape t)"] prod_list_nonneg [of "drop d (tn_shape t)"]
    by (auto simp: rows_before_def tensor_ok_def list_all_iff dest: in_set_takeD in_set_dropD)
  have p: "0 < rows_before t d" "0 < row_bytes"
    using n nn pos(1) assms(1) by (auto simp: row_bytes_def tensor_ok_def less_le)
  consider "rows_before t d = 1" "gs = (if tensor_bytes t \<le> gather_limit rt then [WholeShard]
      else flat_pieces (numel t) (tn_elem t) (gather_limit rt))"
    | "rows_before t d \<noteq> 1" "gs = [PaddedRows 0 (rows_before t d)]" "tensor_bytes t \<le> dr_max_gather rt"
    | "rows_before t d \<noteq> 1" "gs = map (\<lambda>p. RowRange (fst p) (fst p + snd p))
        (cut_every 0 (rows_before t d) (max 1 (min (rows_before t d) (gather_limit rt div row_bytes))))"
    using assms(4) u assms(3)
    by (auto simp: dcp_all_gather_def Let_def rows_before_def gather_limit_def row_bytes_def split: if_splits)
  then show ?thesis
  proof cases
    case 1
    then show ?thesis
      using flat_sound [OF assms(1) pos(1) assms(2) 1(1)] by (simp add: gather_sound_def op_fits_def op_bytes_def)
  next
    case 2
    then show ?thesis using p by (simp add: gather_sound_def op_fits_def op_bytes_def op_span_def)
  next
    case 3
    then show ?thesis using rows_sound [OF p(1) 3(1) p(2) row_bytes_def] by simp
  qed
qed

lemma gather_shard_once_witness:
  "gather_sound sample_runtime (sample_tensor [200]) 0 [ElementRange 0 128, ElementRange 128 200]
    \<and> gather_sound sample_runtime (sample_tensor [5, 48]) 1 [RowRange 0 2, RowRange 2 4, RowRange 4 5]"
proof -
  have t: "tensor_ok (sample_tensor [200])" "tensor_ok (sample_tensor [5, 48])" by (simp_all add: tensor_ok_def sample_tensor_def)
  have l: "16 \<le> gather_limit sample_runtime" by (simp add: gather_limit_def sample_runtime_def)
  have d: "normalize_dim (sample_tensor [200]) (- 1) = Inr 0" "normalize_dim (sample_tensor [5, 48]) (- 1) = Inr 1"
    by (simp_all add: normalize_dim_def sample_tensor_def)
  have "dcp_all_gather sample_runtime (sample_tensor [200]) (- 1) = Inr [ElementRange 0 128, ElementRange 128 200]"
    "dcp_all_gather sample_runtime (sample_tensor [5, 48]) (- 1) = Inr [RowRange 0 2, RowRange 2 4, RowRange 4 5]" by code_simp+
  from gather_shard_once [OF t(1) l d(1) this(1)] gather_shard_once [OF t(2) l d(2) this(2)] show ?thesis ..
qed

end
