(* ===== verification/AdapterSettings.thy ===== *)
theory AdapterSettings
  imports Topology
begin

text \<open>
  The environment settings of the vLLM adapter (\<open>vllm/settings.py\<close>), the configuration they make (\<open>AdapterConfig\<close> of
  \<open>vllm/adapter.py\<close>) and what they let NCCL do (\<open>ring_algorithm_enforced\<close>, \<open>effective_policy\<close> and \<open>environment_problems\<close> of
  \<open>vllm/guard.py\<close>).  The environment is the dictionary of the process's variables.
\<close>

section \<open>Reading a variable\<close>

abbreviation (input) lower :: "string \<Rightarrow> string" where "lower \<equiv> map lower_char"

definition setting_raw :: "string \<Rightarrow> environ \<Rightarrow> string option" where
  "setting_raw name env = (case dget env name of
     None \<Rightarrow> None | Some v \<Rightarrow> if strip v = [] then None else Some (strip v))"

definition setting_choice :: "string \<Rightarrow> string list \<Rightarrow> string \<Rightarrow> environ \<Rightarrow> py_error + string" where
  "setting_choice name choices usual env = (case setting_raw name env of
     None \<Rightarrow> Inr usual
   | Some raw \<Rightarrow> if lower raw \<notin> set choices then Inl (SettingError ''must be one of the choices'' []) else Inr (lower raw))"

text \<open>The items of a comma-separated list that are not blank.\<close>

definition listed :: "string \<Rightarrow> string list" where
  "listed raw = filter (\<lambda>item. item \<noteq> []) (map strip (split_on (CHR '','') raw))"

text \<open>\<open>int(s, 0)\<close>: the base by the prefix, and no leading zero in a decimal number other than zero.\<close>

definition base_digit :: "char \<Rightarrow> int option" where
  "base_digit c = (let n = (of_char (lower_char c) :: int) in
     if 48 \<le> n \<and> n \<le> 57 then Some (n - 48) else if 97 \<le> n \<and> n \<le> 122 then Some (n - 87) else None)"

definition is_base_digit :: "int \<Rightarrow> char \<Rightarrow> bool" where
  "is_base_digit b c = (case base_digit c of None \<Rightarrow> False | Some d \<Rightarrow> d < b)"

definition parse_base :: "int \<Rightarrow> string \<Rightarrow> int option" where
  "parse_base b s = (let parts = split_on (CHR ''_'') s in
    if list_all (\<lambda>g. g \<noteq> [] \<and> list_all (is_base_digit b) g) parts
    then Some (foldl (\<lambda>n c. b * n + the (base_digit c)) 0 (concat parts)) else None)"

definition parse_prefixed :: "string \<Rightarrow> int option" where
  "parse_prefixed s =
    (let digits = (\<lambda>b. let rest = drop 2 s in parse_base b (if take 1 rest = ''_'' then drop 1 rest else rest)) in
     if lower (take 2 s) = ''0x'' then digits 16
     else if lower (take 2 s) = ''0o'' then digits 8
     else if lower (take 2 s) = ''0b'' then digits 2
     else (case parse_base 10 s of None \<Rightarrow> None | Some n \<Rightarrow> if take 1 s = ''0'' \<and> n \<noteq> 0 then None else Some n))"

definition py_int0 :: "string \<Rightarrow> int option" where
  "py_int0 given = (case strip given of
     [] \<Rightarrow> None
   | c # s \<Rightarrow> if c = CHR ''-'' then map_option uminus (parse_prefixed s)
       else if c = CHR ''+'' then parse_prefixed s
       else parse_prefixed (c # s))"

section \<open>The settings\<close>

definition MODES :: "string list" where "MODES = [''custom'', ''disabled'']"
definition NCCL_MODES :: "string list" where "NCCL_MODES = [''never'', ''auto'']"
definition NCCL_MODE_ALIASES :: "(string, string) dict" where "NCCL_MODE_ALIASES = [(''topology'', ''auto'')]"
definition LARGE_ALLREDUCE_MODES :: "string list" where "LARGE_ALLREDUCE_MODES = [''auto'', ''sircl'', ''nccl'']"
definition DEFAULT_GROUPS :: "string list" where "DEFAULT_GROUPS = [''tp'', ''dcp'']"
definition DEFAULT_P2P_GROUPS :: "string list" where "DEFAULT_P2P_GROUPS = [''pp'', ''tp'', ''dcp'']"
definition DEFAULT_P2P_MODULE :: string where "DEFAULT_P2P_MODULE = ''sparkring_sircl.p2p''"
definition DEFAULT_SESSION_MODULES :: "string list" where "DEFAULT_SESSION_MODULES = [''sparkring_sircl.oneshot'']"

definition env_mode :: "environ \<Rightarrow> py_error + string" where
  "env_mode env = setting_choice ''SIRCL_MODE'' MODES ''disabled'' env"

definition env_route_scope :: "environ \<Rightarrow> py_error + string" where
  "env_route_scope env = setting_choice ''SIRCL_ROUTE_SCOPE'' [''group'', ''fabric''] ''group'' env"

definition env_enabled :: "environ \<Rightarrow> py_error + bool" where
  "env_enabled env = bind_res (env_mode env) (\<lambda>m. Inr (m = ''custom''))"

definition nccl_mode_name :: "string \<Rightarrow> string" where
  "nccl_mode_name given = dget_or NCCL_MODE_ALIASES given given"

definition env_nccl_mode :: "environ \<Rightarrow> py_error + string" where
  "env_nccl_mode env = bind_res (setting_choice ''SIRCL_NCCL'' (NCCL_MODES @ map fst NCCL_MODE_ALIASES) ''never'' env)
    (\<lambda>m. Inr (nccl_mode_name m))"

definition env_large_allreduce :: "environ \<Rightarrow> py_error + string" where
  "env_large_allreduce env = setting_choice ''SIRCL_LARGE_ALLREDUCE'' LARGE_ALLREDUCE_MODES ''auto'' env"

definition env_fabric_text :: "environ \<Rightarrow> py_error + string" where
  "env_fabric_text env = (case setting_raw ''SIRCL_FABRIC'' env of
     None \<Rightarrow> Inl (SettingError ''SIRCL_FABRIC is not set'' []) | Some raw \<Rightarrow> Inr raw)"

definition listed_ints :: "string \<Rightarrow> py_error + int list" where
  "listed_ints raw = map_res (\<lambda>item. case py_int item of
     None \<Rightarrow> Inl (SettingError ''SIRCL_RANK_POSITIONS must list integers'' []) | Some n \<Rightarrow> Inr n) (listed raw)"

definition env_rank_positions :: "int \<Rightarrow> environ \<Rightarrow> py_error + int list" where
  "env_rank_positions world env = (case setting_raw ''SIRCL_RANK_POSITIONS'' env of
     None \<Rightarrow> Inr (py_range world)
   | Some raw \<Rightarrow> bind_res (listed_ints raw) (\<lambda>ps.
       if int (length ps) \<noteq> world
       then Inl (SettingError ''SIRCL_RANK_POSITIONS must name one position per global rank'' [world, int (length ps)])
       else if \<not> distinct ps then Inl (SettingError ''SIRCL_RANK_POSITIONS must name distinct non-negative positions'' ps)
       else if ps = [] then Inl (ValueErr ''min of an empty sequence'' [])
       else if Min (set ps) < 0 then Inl (SettingError ''SIRCL_RANK_POSITIONS must name distinct non-negative positions'' ps)
       else Inr ps))"

definition env_groups :: "environ \<Rightarrow> py_error + string list" where
  "env_groups env = (case setting_raw ''SIRCL_GROUPS'' env of
     None \<Rightarrow> Inr DEFAULT_GROUPS
   | Some raw \<Rightarrow> let items = map lower (listed raw) in
       if items = [] \<or> \<not> distinct items then Inl (SettingError ''SIRCL_GROUPS must list distinct group kinds'' [])
       else Inr items)"

definition env_relay_per_peer_bytes :: "environ \<Rightarrow> py_error + int option" where
  "env_relay_per_peer_bytes env = (case setting_raw ''SIRCL_RELAY_PER_PEER_BYTES'' env of
     None \<Rightarrow> Inr None
   | Some raw \<Rightarrow> (case py_int0 raw of
       None \<Rightarrow> Inl (SettingError ''SIRCL_RELAY_PER_PEER_BYTES must be an integer'' [])
     | Some v \<Rightarrow> if v < 16 \<or> v mod 16 \<noteq> 0 then Inl (SettingError ''SIRCL_RELAY_PER_PEER_BYTES must be a positive multiple of 16'' [])
         else Inr (Some v)))"

definition env_p2p_groups :: "environ \<Rightarrow> py_error + string list" where
  "env_p2p_groups env = (case setting_raw ''SIRCL_P2P_GROUPS'' env of
     None \<Rightarrow> Inr DEFAULT_P2P_GROUPS
   | Some raw \<Rightarrow> let items = map lower (listed raw) in
       if items = [''none''] then Inr []
       else if items = [] \<or> \<not> list_all (\<lambda>item. item \<in> set DEFAULT_P2P_GROUPS) items \<or> \<not> distinct items
       then Inl (SettingError ''SIRCL_P2P_GROUPS must list distinct kinds, or none'' [])
       else Inr items)"

definition env_p2p_module :: "environ \<Rightarrow> string" where
  "env_p2p_module env = (case setting_raw ''SIRCL_P2P_MODULE'' env of None \<Rightarrow> DEFAULT_P2P_MODULE | Some raw \<Rightarrow> raw)"

definition env_receipt_dir :: "environ \<Rightarrow> string option" where
  "env_receipt_dir env = setting_raw ''SIRCL_RECEIPT_DIR'' env"

definition env_session_modules :: "environ \<Rightarrow> string list" where
  "env_session_modules env = (case setting_raw ''SIRCL_SESSION_MODULE'' env of
     None \<Rightarrow> DEFAULT_SESSION_MODULES | Some raw \<Rightarrow> listed raw)"

definition env_shims :: "environ \<Rightarrow> string list" where
  "env_shims env = (case setting_raw ''SIRCL_VLLM_SHIMS'' env of None \<Rightarrow> [] | Some raw \<Rightarrow> listed raw)"

definition env_fused_norm :: "environ \<Rightarrow> py_error + bool" where
  "env_fused_norm env = (case setting_raw ''SIRCL_FUSED_NORM'' env of
     None \<Rightarrow> Inr False
   | Some raw \<Rightarrow> if raw \<notin> {''0'', ''1''} then Inl (SettingError ''SIRCL_FUSED_NORM must be 0 or 1'' []) else Inr (raw = ''1''))"

definition env_byte_count :: "string \<Rightarrow> int \<Rightarrow> environ \<Rightarrow> py_error + int" where
  "env_byte_count name usual env = (case setting_raw name env of
     None \<Rightarrow> Inr usual
   | Some raw \<Rightarrow> (case py_int raw of
       None \<Rightarrow> Inl (SettingError ''must be an integer byte count'' [])
     | Some v \<Rightarrow> if v < 0 then Inl (SettingError ''must not be negative'' [v]) else Inr v))"

section \<open>The adapter's configuration\<close>

record AdapterConfig =
  ac_layout :: PhysLayout
  ac_positions :: "int list"
  ac_groups :: "string list"
  ac_nccl_mode :: string
  ac_large :: string
  ac_relay_override :: "int option"
  ac_receipt_dir :: "string option"
  ac_p2p_groups :: "string list"
  ac_p2p_module :: string
  ac_max_relays :: int
  ac_route_scope :: string

text \<open>\<open>__post_init__\<close>: a configuration names the mode itself, never its other name.\<close>

definition AdapterConfig_new :: "AdapterConfig \<Rightarrow> AdapterConfig" where
  "AdapterConfig_new c = c\<lparr>ac_nccl_mode := nccl_mode_name (ac_nccl_mode c)\<rparr>"

definition AdapterConfig_from_env :: "int \<Rightarrow> environ \<Rightarrow> py_error + AdapterConfig" where
  "AdapterConfig_from_env world env =
    bind_res (env_fabric_text env) (\<lambda>given.
    bind_res (PhysLayout_parse given) (\<lambda>L.
    bind_res (env_rank_positions world env) (\<lambda>positions.
    let outside = filter (\<lambda>p. p \<ge> ph_size L) positions in
    if outside \<noteq> [] then Inl (SettingError ''SIRCL_RANK_POSITIONS name positions outside the layout'' outside)
    else
      bind_res (env_groups env) (\<lambda>gs.
      bind_res (env_nccl_mode env) (\<lambda>nccl.
      bind_res (env_large_allreduce env) (\<lambda>large.
      bind_res (env_relay_per_peer_bytes env) (\<lambda>relay.
      bind_res (env_p2p_groups env) (\<lambda>p2p.
      bind_res (env_byte_count ''SIRCL_MAX_RELAYS'' 3 env) (\<lambda>relays.
      bind_res (env_route_scope env) (\<lambda>scope.
      Inr (AdapterConfig_new \<lparr>ac_layout = L, ac_positions = positions, ac_groups = gs, ac_nccl_mode = nccl, ac_large = large,
        ac_relay_override = relay, ac_receipt_dir = env_receipt_dir env, ac_p2p_groups = p2p,
        ac_p2p_module = env_p2p_module env, ac_max_relays = relays, ac_route_scope = scope\<rparr>))))))))))) "

definition config_cabled :: "AdapterConfig \<Rightarrow> int \<Rightarrow> int \<Rightarrow> py_error + bool" where
  "config_cabled c global_a global_b =
    bind_res (py_index (ac_positions c) global_a) (\<lambda>a. bind_res (py_index (ac_positions c) global_b) (\<lambda>b.
    Inr (list_ex (\<lambda>cable. {a, b} = {ca cable, cb cable}) (ph_cables (ac_layout c)))))"

section \<open>What NCCL may do, after the settings\<close>

definition ring_algorithm_enforced :: "environ \<Rightarrow> bool \<times> string" where
  "ring_algorithm_enforced env =
    (let algorithm = lower (strip (dget_or env ''NCCL_ALGO'' []));
         entries = listed algorithm;
         ring_only = entries \<noteq> [] \<and> list_all (\<lambda>item. item = ''ring'' \<or> take 5 (rev item) = rev '':ring'') entries;
         skip_tree = strip (dget_or env ''NCCL_SKIP_TREE_CONNECT'' []) = ''1'';
         given = dget_or env ''NCCL_ALGO'' [];
         first = ''NCCL_ALGO='' @ (if given = [] then ''(unset)'' else given) @ '' is not Ring'';
         second = ''NCCL_SKIP_TREE_CONNECT is not 1''
     in if ring_only \<and> skip_tree then (True, ''NCCL_ALGO=Ring and NCCL_SKIP_TREE_CONNECT=1'')
        else (False, if ring_only then second else if skip_tree then first else first @ '' and '' @ second))"

text \<open>The reason of an effective policy: the cabling's own, or what the settings made of it.\<close>

datatype policy_basis = ByCabling nccl_reason | NeverSet | TreesPossible nccl_reason string | RingLimited nccl_reason string
  | OffLayout

definition effective_policy :: "NcclPolicy \<Rightarrow> nccl_reason \<Rightarrow> string \<Rightarrow> environ \<Rightarrow> NcclPolicy \<times> policy_basis" where
  "effective_policy policy reason nccl_mode env =
    (if policy = NcclAll \<and> nccl_mode \<noteq> ''never'' then (policy, ByCabling reason)
     else if nccl_mode = ''never'' then (NcclNone, NeverSet)
     else if policy = NcclRing
     then (let (enforced, detail) = ring_algorithm_enforced env in
       if \<not> enforced then (NcclNone, TreesPossible reason detail) else (policy, RingLimited reason detail))
     else (policy, ByCabling reason))"

datatype startup_problem = SplitGroupNever | SplitGroupConnect

definition environment_problems :: "environ \<Rightarrow> startup_problem list" where
  "environment_problems env =
    (let split_group = strip (dget_or env ''VLLM_DISTRIBUTED_USE_SPLIT_GROUP'' ''0'') \<notin> {[], ''0''};
         runtime_connect = strip (dget_or env ''NCCL_RUNTIME_CONNECT'' []);
         nccl_mode = (case env_nccl_mode env of Inl _ \<Rightarrow> [] | Inr m \<Rightarrow> m)
     in if split_group \<and> nccl_mode = ''never'' then [SplitGroupNever]
        else if split_group \<and> runtime_connect = ''0'' then [SplitGroupConnect] else [])"

end
