(* ===== verification/NcclGuard.thy ===== *)
theory NcclGuard
  imports AdapterSettings
begin

text \<open>
  NCCL kept off Sparks that share no cable: where a group sits (\<open>GroupPlacement\<close> and \<open>resolver_for\<close> of \<open>vllm/adapter.py\<close>), the
  registry of groups and carriers, and the tripwire around the \<open>torch.distributed\<close> calls (\<open>vllm/guard.py\<close>).

  Of \<open>torch.distributed\<close> the model takes what the tripwire asks: the default group, a group's backend and ranks, and this
  process's rank, each absent where the call raises.  A process group is named by a number (its identity; the registry holds
  a reference, so identities are not reused), a carrier by a number, and what a carrier answers is an argument.
\<close>

section \<open>Guarded groups\<close>

definition POINT_TO_POINT :: "string list" where
  "POINT_TO_POINT = [''send'', ''recv'', ''isend'', ''irecv'', ''batch_isend_irecv'']"

datatype group_name = Named string | RanksNamed "int list"

datatype remedy = LetRingRun | UseCommunicator | GiveSession

record GuardedGroup =
  gg_name :: group_name
  gg_ranks :: "int list"
  gg_policy :: NcclPolicy
  gg_reason :: policy_basis
  gg_cabled :: "(int \<Rightarrow> int \<Rightarrow> py_error + bool) option"
  gg_remedy :: "remedy list"

definition gg_allows :: "GuardedGroup \<Rightarrow> string \<Rightarrow> (int \<times> int) option \<Rightarrow> py_error + bool" where
  "gg_allows g operation pair =
    (if gg_policy g = NcclAll then Inr True
     else case pair of
       Some (a, b) \<Rightarrow>
         if operation \<in> set POINT_TO_POINT
         then (if gg_policy g \<noteq> NcclRing then Inr False
               else case gg_cabled g of None \<Rightarrow> Inr False | Some f \<Rightarrow> f a b)
         else Inr (allows (gg_policy g) operation)
     | None \<Rightarrow> Inr (allows (gg_policy g) operation))"

definition gg_check :: "GuardedGroup \<Rightarrow> string \<Rightarrow> (int \<times> int) option \<Rightarrow> py_error + unit" where
  "gg_check g operation pair = bind_res (gg_allows g operation pair) (\<lambda>allowed.
    if allowed then Inr ()
    else Inl (NcclAcrossRelayError ''NCCL operation refused: NCCL cannot connect Sparks that share no cable''
      (case pair of None \<Rightarrow> [] | Some (a, b) \<Rightarrow> [a, b])))"

definition remedies :: "NcclPolicy \<Rightarrow> NcclPolicy \<Rightarrow> bool \<Rightarrow> remedy list" where
  "remedies raw effective carried =
    (if raw = NcclRing \<and> effective = NcclNone then [LetRingRun] else []) @ [if carried then UseCommunicator else GiveSession]"

section \<open>Where a group sits\<close>

record GroupPlacement =
  pc_name :: string
  pc_kind :: string
  pc_global_ranks :: "int list"
  pc_rank :: int
  pc_positions :: "int list"
  pc_topology :: "GroupTopology option"
  pc_policy :: NcclPolicy
  pc_reason :: policy_basis
  pc_session :: bool
  pc_raw_policy :: NcclPolicy

definition SESSION_KINDS :: "string list" where "SESSION_KINDS = [''tp'', ''dcp'']"
definition SUBGROUP_KINDS :: "string list" where "SUBGROUP_KINDS = [''dcp'']"

definition suppress_pynccl :: "GroupPlacement \<Rightarrow> bool" where
  "suppress_pynccl p \<longleftrightarrow> length (pc_global_ranks p) > 1 \<and> \<not> allows (pc_policy p) ''all_reduce''"

text \<open>The raw policy and topology of a group: of the session it gets, else of its positions alone.\<close>

definition placed_policy ::
  "AdapterConfig \<Rightarrow> string \<Rightarrow> int list \<Rightarrow> int list option \<Rightarrow> py_error + (GroupTopology option \<times> NcclPolicy \<times> nccl_reason) \<times> bool" where
  "placed_policy c sort_name ranks parent_ranks =
    bind_res (map_res (py_index (ac_positions c)) ranks) (\<lambda>positions.
    if sort_name \<in> set (ac_groups c) \<and> sort_name \<in> set SESSION_KINDS \<and> length ranks > 1
    then bind_res (if sort_name \<in> set SUBGROUP_KINDS
          then (case parent_ranks of
             None \<Rightarrow> Inl (SirclSetupError ''a subgroup needs its parent group ranks'' [])
           | Some rs \<Rightarrow> bind_res (map_res (py_index (ac_positions c)) rs) (\<lambda>ps. Inr (Some ps)))
          else Inr None) (\<lambda>parent.
        bind_res (describe_group (ac_layout c) positions parent 2 (ac_max_relays c) (ac_route_scope c)) (\<lambda>T.
        bind_res (topo_nccl T) (\<lambda>(raw, why). Inr ((Some T, raw, why), True))))
    else bind_res (nccl_policy_of (ac_layout c) positions) (\<lambda>(raw, why). Inr ((None, raw, why), False)))"

definition GroupPlacement_of ::
  "string \<Rightarrow> int list \<Rightarrow> int \<Rightarrow> AdapterConfig \<Rightarrow> int list option \<Rightarrow> environ \<Rightarrow> py_error + GroupPlacement" where
  "GroupPlacement_of unique_name ranks rank c parent_ranks env =
    (let sort_name = fst (partition_at (CHR '':'') unique_name) in
     if (if ranks = [] then 0 else Max (set ranks)) \<ge> int (length (ac_positions c))
     then Inl (SirclSetupError ''group has global ranks beyond the positions SIRCL knows'' ranks)
     else bind_res (placed_policy c sort_name ranks parent_ranks) (\<lambda>((topology, raw, why), session).
       bind_res (map_res (py_index (ac_positions c)) ranks) (\<lambda>positions.
       let (policy, reason) = effective_policy raw why (ac_nccl_mode c) env in
       Inr \<lparr>pc_name = unique_name, pc_kind = sort_name, pc_global_ranks = ranks, pc_rank = rank, pc_positions = positions,
         pc_topology = topology, pc_policy = policy, pc_reason = reason, pc_session = session, pc_raw_policy = raw\<rparr>)))"

definition guard_entry :: "GroupPlacement \<Rightarrow> AdapterConfig \<Rightarrow> bool option \<Rightarrow> GuardedGroup" where
  "guard_entry p c carried =
    \<lparr>gg_name = Named (pc_name p), gg_ranks = pc_global_ranks p, gg_policy = pc_policy p, gg_reason = pc_reason p,
     gg_cabled = Some (config_cabled c),
     gg_remedy = (if length (pc_global_ranks p) > 1
       then remedies (pc_raw_policy p) (pc_policy p) (case carried of None \<Rightarrow> pc_session p | Some b \<Rightarrow> b) else [])\<rparr>"

text \<open>\<open>resolver_for\<close>: an NCCL group SIRCL did not build, by its ranks; ranks off the layout (an \<open>IndexError\<close> or
  \<open>FabricError\<close>) allow nothing.\<close>

definition resolve_entry :: "AdapterConfig \<Rightarrow> environ \<Rightarrow> int list \<Rightarrow> GuardedGroup" where
  "resolve_entry c env ranks =
    (case bind_res (map_res (py_index (ac_positions c)) ranks) (nccl_policy_of (ac_layout c)) of
       Inl _ \<Rightarrow> \<lparr>gg_name = RanksNamed ranks, gg_ranks = ranks, gg_policy = NcclNone, gg_reason = OffLayout, gg_cabled = None,
         gg_remedy = []\<rparr>
     | Inr (raw, why) \<Rightarrow> let (policy, reason) = effective_policy raw why (ac_nccl_mode c) env in
         \<lparr>gg_name = RanksNamed ranks, gg_ranks = ranks, gg_policy = policy, gg_reason = reason,
          gg_cabled = Some (config_cabled c), gg_remedy = remedies raw policy False\<rparr>)"

section \<open>The registry\<close>

type_synonym group_id = nat

record Registry =
  rg_entries :: "(group_id, GuardedGroup) dict"
  rg_carriers :: "(group_id, nat) dict"
  rg_p2p :: "(group_id, nat) dict"
  rg_by_ranks :: "(int list, nat) dict"
  rg_resolver :: "(int list \<Rightarrow> GuardedGroup option) option"

definition reset :: "Registry \<Rightarrow> Registry" where
  "reset r = \<lparr>rg_entries = [], rg_carriers = [], rg_p2p = [], rg_by_ranks = [], rg_resolver = None\<rparr>"

definition configure :: "(int list \<Rightarrow> GuardedGroup option) option \<Rightarrow> Registry \<Rightarrow> Registry" where
  "configure resolver r = r\<lparr>rg_resolver := resolver\<rparr>"

definition dpop :: "'k \<Rightarrow> ('k, 'v) dict \<Rightarrow> ('k, 'v) dict" where
  "dpop k d = filter (\<lambda>e. fst e \<noteq> k) d"

definition register :: "group_id option \<Rightarrow> GuardedGroup \<Rightarrow> Registry \<Rightarrow> Registry" where
  "register grp entry r = (case grp of None \<Rightarrow> r | Some g \<Rightarrow> r\<lparr>rg_entries := dset g entry (rg_entries r)\<rparr>)"

definition unregister :: "group_id \<Rightarrow> Registry \<Rightarrow> Registry" where
  "unregister g r =
    r\<lparr>rg_entries := dpop g (rg_entries r), rg_carriers := dpop g (rg_carriers r), rg_p2p := dpop g (rg_p2p r),
      rg_by_ranks := (case dget (rg_p2p r) g of
          None \<Rightarrow> rg_by_ranks r
        | Some carrier \<Rightarrow> filter (\<lambda>e. snd e \<noteq> carrier) (rg_by_ranks r))\<rparr>"

definition register_carrier :: "group_id option \<Rightarrow> nat \<Rightarrow> Registry \<Rightarrow> Registry" where
  "register_carrier grp carrier r = (case grp of None \<Rightarrow> r | Some g \<Rightarrow> r\<lparr>rg_carriers := dset g carrier (rg_carriers r)\<rparr>)"

definition register_p2p_carrier :: "group_id option \<Rightarrow> int list \<Rightarrow> nat \<Rightarrow> Registry \<Rightarrow> Registry" where
  "register_p2p_carrier grp ranks carrier r = (case grp of
     None \<Rightarrow> r
   | Some g \<Rightarrow> r\<lparr>rg_p2p := dset g carrier (rg_p2p r),
       rg_by_ranks := (if dget (rg_by_ranks r) ranks = None then dset ranks carrier (rg_by_ranks r) else rg_by_ranks r)\<rparr>)"

section \<open>What the tripwire knows of a group\<close>

record World =
  wd_default :: "group_id option"
  wd_backend :: "group_id \<Rightarrow> string option"
  wd_ranks :: "group_id \<Rightarrow> int list option"
  wd_rank :: "int option"

fun contains :: "string \<Rightarrow> string \<Rightarrow> bool" where
  "contains w [] \<longleftrightarrow> w = []"
| "contains w (c # s) \<longleftrightarrow> take (length w) (c # s) = w \<or> contains w s"

definition is_nccl :: "World \<Rightarrow> group_id \<Rightarrow> bool" where
  "is_nccl w g = (case wd_backend w g of
     None \<Rightarrow> False
   | Some b \<Rightarrow> contains ''nccl'' (lower b) \<and> \<not> contains ''gloo'' (lower b))"

definition carrier_for :: "Registry \<Rightarrow> group_id \<Rightarrow> nat option" where
  "carrier_for r g = dget (rg_carriers r) g"

definition p2p_carrier_for :: "World \<Rightarrow> Registry \<Rightarrow> group_id \<Rightarrow> nat option" where
  "p2p_carrier_for w r g = (case dget (rg_p2p r) g of
     Some carrier \<Rightarrow> Some carrier
   | None \<Rightarrow>
       if rg_by_ranks r = [] \<or> \<not> is_nccl w g then None
       else (case wd_ranks w g of None \<Rightarrow> None | Some ranks \<Rightarrow> dget (rg_by_ranks r) ranks))"

definition entry_for :: "World \<Rightarrow> group_id \<Rightarrow> Registry \<Rightarrow> GuardedGroup option \<times> Registry" where
  "entry_for w g r = (case dget (rg_entries r) g of
     Some entry \<Rightarrow> (Some entry, r)
   | None \<Rightarrow> (case rg_resolver r of
       None \<Rightarrow> (None, r)
     | Some resolver \<Rightarrow>
         if \<not> is_nccl w g then (None, r)
         else (case wd_ranks w g of
             None \<Rightarrow> (None, r)
           | Some ranks \<Rightarrow> (case resolver ranks of
               None \<Rightarrow> (None, r)
             | Some entry \<Rightarrow> (Some entry, register (Some g) entry r)))))"

section \<open>The tripwire\<close>

text \<open>
  A call of a wrapped function: its operation, whether its signature is known and binds its arguments, the group argument and the
  argument its peer is taken from (absent where they are not given), and the group and peer of each op of a batch.
\<close>

record Call =
  cl_operation :: string
  cl_signature :: bool
  cl_binds :: bool
  cl_group :: "group_id option"
  cl_peer :: "int option"
  cl_ops :: "(group_id option \<times> int option) list"

definition PEER_OPERATIONS :: "string list" where
  "PEER_OPERATIONS = [''send'', ''isend'', ''recv'', ''irecv'', ''send_object_list'', ''recv_object_list'']"

definition call_pair :: "World \<Rightarrow> int option \<Rightarrow> (int \<times> int) option" where
  "call_pair w peer = (case peer of None \<Rightarrow> None
     | Some p \<Rightarrow> (case wd_rank w of None \<Rightarrow> None | Some rank \<Rightarrow> Some (rank, p)))"

definition or_default :: "World \<Rightarrow> group_id option \<Rightarrow> group_id option" where
  "or_default w grp = (case grp of None \<Rightarrow> wd_default w | Some g \<Rightarrow> Some g)"

definition check_one :: "World \<Rightarrow> string \<Rightarrow> group_id option \<Rightarrow> int option \<Rightarrow> Registry \<Rightarrow> (py_error + unit) \<times> Registry" where
  "check_one w operation grp peer r = (case or_default w grp of
     None \<Rightarrow> (Inr (), r)
   | Some g \<Rightarrow> (let (entry, r) = entry_for w g r in
       (case entry of None \<Rightarrow> Inr () | Some e \<Rightarrow> gg_check e operation (call_pair w peer), r)))"

fun check_ops :: "World \<Rightarrow> string \<Rightarrow> (group_id option \<times> int option) list \<Rightarrow> Registry \<Rightarrow> (py_error + unit) \<times> Registry" where
  "check_ops w operation [] r = (Inr (), r)"
| "check_ops w operation ((grp, peer) # ops) r =
    (case check_one w operation grp peer r of
       (Inl e, r') \<Rightarrow> (Inl e, r')
     | (Inr _, r') \<Rightarrow> check_ops w operation ops r')"

definition check_call :: "World \<Rightarrow> Call \<Rightarrow> Registry \<Rightarrow> (py_error + unit) \<times> Registry" where
  "check_call w cl r =
    (if cl_operation cl = ''batch_isend_irecv'' then check_ops w (cl_operation cl) (cl_ops cl) r
     else check_one w (cl_operation cl) (cl_group cl)
       (if cl_operation cl \<in> set PEER_OPERATIONS then cl_peer cl else None) r)"

text \<open>What a carrier does with a call: the result, None where it does not carry it, or an exception.\<close>

type_synonym 'r carrier_answer = "nat \<Rightarrow> Call \<Rightarrow> py_error + 'r option"

fun ask :: "'r carrier_answer \<Rightarrow> Call \<Rightarrow> nat list \<Rightarrow> py_error + 'r option" where
  "ask answer cl [] = Inr None"
| "ask answer cl (k # ks) = bind_res (answer k cl) (\<lambda>a. case a of None \<Rightarrow> ask answer cl ks | Some v \<Rightarrow> Inr (Some v))"

definition carry :: "'r carrier_answer \<Rightarrow> World \<Rightarrow> Call \<Rightarrow> Registry \<Rightarrow> py_error + 'r option" where
  "carry answer w cl r =
    (if \<not> cl_signature cl then Inr None
     else case or_default w (cl_group cl) of
       None \<Rightarrow> Inr None
     | Some g \<Rightarrow>
         let found = (case carrier_for r g of None \<Rightarrow> [] | Some k \<Rightarrow> [k])
               @ (case p2p_carrier_for w r g of None \<Rightarrow> [] | Some k \<Rightarrow> [k]) in
         if found = [] \<or> \<not> cl_binds cl then Inr None else ask answer cl found)"

text \<open>A batch is asked of the first op's group.\<close>

definition carry_p2p :: "'r carrier_answer \<Rightarrow> World \<Rightarrow> Call \<Rightarrow> Registry \<Rightarrow> py_error + 'r option" where
  "carry_p2p answer w cl r =
    (if \<not> cl_signature cl then Inr None
     else
       let first = (if cl_operation cl = ''batch_isend_irecv'' then (case cl_ops cl of [] \<Rightarrow> None | op' # _ \<Rightarrow> fst op')
                    else cl_group cl) in
       case or_default w first of
         None \<Rightarrow> Inr None
       | Some g \<Rightarrow> (case p2p_carrier_for w r g of
           None \<Rightarrow> Inr None
         | Some k \<Rightarrow> if \<not> cl_binds cl then Inr None else answer k cl))"

text \<open>What the wrapped function does: a carrier's result, an exception, or the original function (NCCL).\<close>

datatype 'r outcome = Carried 'r | Raised py_error | Original

fun is_across_relay :: "py_error \<Rightarrow> bool" where
  "is_across_relay (NcclAcrossRelayError m ns) = True"
| "is_across_relay e = False"

definition refused_call :: "'r carrier_answer \<Rightarrow> World \<Rightarrow> Call \<Rightarrow> py_error \<Rightarrow> Registry \<Rightarrow> 'r outcome" where
  "refused_call answer w cl e r = (case carry answer w cl r of
     Inl f \<Rightarrow> Raised f
   | Inr None \<Rightarrow> Raised e
   | Inr (Some v) \<Rightarrow> Carried v)"

definition checked_call :: "'r carrier_answer \<Rightarrow> World \<Rightarrow> Call \<Rightarrow> Registry \<Rightarrow> 'r outcome \<times> Registry" where
  "checked_call answer w cl r = (case check_call w cl r of
     (Inr _, r') \<Rightarrow> (Original, r')
   | (Inl e, r') \<Rightarrow> if is_across_relay e then (refused_call answer w cl e r', r') else (Raised e, r'))"

definition guarded :: "'r carrier_answer \<Rightarrow> World \<Rightarrow> Call \<Rightarrow> Registry \<Rightarrow> 'r outcome \<times> Registry" where
  "guarded answer w cl r =
    (if cl_operation cl \<notin> set POINT_TO_POINT then checked_call answer w cl r
     else case carry_p2p answer w cl r of
       Inl e \<Rightarrow> (Raised e, r)
     | Inr (Some v) \<Rightarrow> (Carried v, r)
     | Inr None \<Rightarrow> checked_call answer w cl r)"

end
