(* ===== verification/NcclGuardFacts.thy ===== *)
theory NcclGuardFacts
  imports NcclGuard TopologyFacts
begin

text \<open>
  Facts about the settings and the tripwire: a configuration read from the environment is well formed, the settings only
  narrow what the cabling allows, and whatever reaches NCCL through the tripwire runs over cables only.
\<close>

section \<open>Settings\<close>

lemma choice_in: "setting_choice name choices usual env = Inr v \<Longrightarrow> v = usual \<or> v \<in> set choices"
  by (auto simp: setting_choice_def split: option.splits if_splits)

lemma env_nccl_mode_in: "env_nccl_mode env = Inr m \<Longrightarrow> m \<in> set NCCL_MODES"
  by (auto simp: env_nccl_mode_def bind_res_Inr nccl_mode_name_def NCCL_MODES_def NCCL_MODE_ALIASES_def dget_or_def
      dest!: choice_in)

lemma nccl_mode_name_idem: "m \<in> set NCCL_MODES \<Longrightarrow> nccl_mode_name m = m"
  by (auto simp: NCCL_MODES_def nccl_mode_name_def NCCL_MODE_ALIASES_def dget_or_def)

lemma env_rank_positions_ok:
  assumes "env_rank_positions world env = Inr ps" "0 \<le> world"
  shows "int (length ps) = world \<and> distinct ps \<and> (\<forall>p\<in>set ps. 0 \<le> p)"
proof (cases "setting_raw ''SIRCL_RANK_POSITIONS'' env")
  case None
  then show ?thesis using assms by (auto simp: env_rank_positions_def)
next
  case (Some raw)
  then have l: "int (length ps) = world" "distinct ps" "ps \<noteq> []" "\<not> Min (set ps) < 0"
    using assms(1) by (auto simp: env_rank_positions_def bind_res_Inr split: if_splits)
  have "0 \<le> p" if "p \<in> set ps" for p using Min_le [OF finite_set that] l(4) by linarith
  then show ?thesis using l by blast
qed

definition config_ok :: "int \<Rightarrow> AdapterConfig \<Rightarrow> bool" where
  "config_ok world c \<longleftrightarrow> int (length (ac_positions c)) = world \<and> distinct (ac_positions c)
    \<and> list_all (\<lambda>p. 0 \<le> p \<and> p < ph_size (ac_layout c)) (ac_positions c)
    \<and> distinct (ac_groups c) \<and> ac_groups c \<noteq> [] \<and> ac_nccl_mode c \<in> set NCCL_MODES \<and> ac_large c \<in> set LARGE_ALLREDUCE_MODES
    \<and> (case ac_relay_override c of None \<Rightarrow> True | Some n \<Rightarrow> 16 \<le> n \<and> n mod 16 = 0)
    \<and> distinct (ac_p2p_groups c) \<and> set (ac_p2p_groups c) \<subseteq> set DEFAULT_P2P_GROUPS \<and> 0 \<le> ac_max_relays c
    \<and> ac_route_scope c \<in> {''group'', ''fabric''}"

lemma env_groups_ok: "env_groups env = Inr gs \<Longrightarrow> distinct gs \<and> gs \<noteq> []"
  by (auto simp: env_groups_def Let_def DEFAULT_GROUPS_def split: option.splits if_splits)

lemma env_p2p_groups_ok: "env_p2p_groups env = Inr gs \<Longrightarrow> distinct gs \<and> set gs \<subseteq> set DEFAULT_P2P_GROUPS"
  by (auto simp: env_p2p_groups_def Let_def list_all_iff DEFAULT_P2P_GROUPS_def split: option.splits if_splits)

lemma env_relay_ok: "env_relay_per_peer_bytes env = Inr (Some n) \<Longrightarrow> 16 \<le> n \<and> n mod 16 = 0"
  by (auto simp: env_relay_per_peer_bytes_def split: option.splits if_splits)

lemma env_byte_count_ok: "env_byte_count name usual env = Inr n \<Longrightarrow> 0 \<le> usual \<Longrightarrow> 0 \<le> n"
  by (auto simp: env_byte_count_def split: option.splits if_splits)

text \<open>
  C19: a configuration read from the environment is well formed: a position for every rank, all distinct and on the layout, a mode
  named by its own name, group kinds without repeats, and byte counts in range.
\<close>

theorem configuration_well_formed:
  assumes "AdapterConfig_from_env world env = Inr c" "0 \<le> world"
  shows "config_ok world c"
proof -
  obtain L ps gs nccl large relay p2p relays scope where
    ps: "env_rank_positions world env = Inr ps" and out: "filter (\<lambda>p. p \<ge> ph_size L) ps = []"
    and gs: "env_groups env = Inr gs" and nccl: "env_nccl_mode env = Inr nccl"
    and large: "env_large_allreduce env = Inr large" and relay: "env_relay_per_peer_bytes env = Inr relay"
    and p2p: "env_p2p_groups env = Inr p2p" and relays: "env_byte_count ''SIRCL_MAX_RELAYS'' 3 env = Inr relays"
    and scope: "env_route_scope env = Inr scope"
    and c: "c = AdapterConfig_new \<lparr>ac_layout = L, ac_positions = ps, ac_groups = gs, ac_nccl_mode = nccl, ac_large = large,
        ac_relay_override = relay, ac_receipt_dir = env_receipt_dir env, ac_p2p_groups = p2p,
        ac_p2p_module = env_p2p_module env, ac_max_relays = relays, ac_route_scope = scope\<rparr>"
    using assms(1) by (auto simp: AdapterConfig_from_env_def bind_res_Inr Let_def split: if_splits)
  note p = env_rank_positions_ok [OF ps assms(2)]
  have m: "nccl \<in> set NCCL_MODES" using env_nccl_mode_in [OF nccl] .
  have "large \<in> set LARGE_ALLREDUCE_MODES" using choice_in [OF large [unfolded env_large_allreduce_def]]
    by (auto simp: LARGE_ALLREDUCE_MODES_def)
  moreover have "scope \<in> {''group'', ''fabric''}" using choice_in [OF scope [unfolded env_route_scope_def]] by auto
  moreover have "0 \<le> relays" using env_byte_count_ok [OF relays] by simp
  moreover have "list_all (\<lambda>x. 0 \<le> x \<and> x < ph_size L) ps" using p out by (auto simp: list_all_iff filter_empty_conv not_le)
  moreover have "case relay of None \<Rightarrow> True | Some n \<Rightarrow> 16 \<le> n \<and> n mod 16 = 0"
    using env_relay_ok relay by (cases relay) auto
  ultimately show ?thesis
    using p m env_groups_ok [OF gs] env_p2p_groups_ok [OF p2p]
    by (simp add: config_ok_def c AdapterConfig_new_def nccl_mode_name_idem)
qed

definition sample_env :: environ where
  "sample_env = [(''SIRCL_FABRIC'', ''ring:8''), (''SIRCL_RANK_POSITIONS'', '' 4,5,6,7''), (''SIRCL_NCCL'', ''Topology''),
    (''SIRCL_RELAY_PER_PEER_BYTES'', ''0x2_0000''), (''NCCL_ALGO'', ''Ring''), (''NCCL_SKIP_TREE_CONNECT'', ''1'')]"

definition sample_config :: AdapterConfig where
  "sample_config = \<lparr>ac_layout = \<lparr>ph_kind = PhysRing, ph_size = 8,
      ph_cables = map (\<lambda>i. \<lparr>ca = i, ca_port = 0, cb = (i + 1) mod 8, cb_port = 1\<rparr>) [0, 1, 2, 3, 4, 5, 6, 7]\<rparr>,
    ac_positions = [4, 5, 6, 7], ac_groups = [''tp'', ''dcp''], ac_nccl_mode = ''auto'', ac_large = ''auto'',
    ac_relay_override = Some 131072, ac_receipt_dir = None, ac_p2p_groups = [''pp'', ''tp'', ''dcp''],
    ac_p2p_module = ''sparkring_sircl.p2p'', ac_max_relays = 3, ac_route_scope = ''group''\<rparr>"

lemma sample_config_read: "AdapterConfig_from_env 4 sample_env = Inr sample_config"
  by code_simp

lemma configuration_well_formed_witness: "config_ok 4 sample_config"
  by (rule configuration_well_formed [of 4 sample_env]) (rule sample_config_read, simp)

section \<open>Cables and policies\<close>

definition cable_between :: "PhysLayout \<Rightarrow> int \<Rightarrow> int \<Rightarrow> bool" where
  "cable_between L a b = list_ex (\<lambda>cable. {a, b} = {ca cable, cb cable}) (ph_cables L)"

definition all_cabled :: "PhysLayout \<Rightarrow> int list \<Rightarrow> bool" where
  "all_cabled L ps \<longleftrightarrow> (\<forall>i < length ps. \<forall>j < length ps. i \<noteq> j \<longrightarrow> cable_between L (ps ! i) (ps ! j))"

definition ring_cabled :: "PhysLayout \<Rightarrow> int list \<Rightarrow> bool" where
  "ring_cabled L ps \<longleftrightarrow> (\<forall>i < length ps. cable_between L (ps ! i) (ps ! ((i + 1) mod length ps)))"

lemma adjacent_cabled: "set (gf_cables G) \<subseteq> set (ph_cables L) \<Longrightarrow> adjacent G a b \<Longrightarrow> cable_between L a b"
  by (auto simp: adjacent_def cable_between_def list_ex_iff)

lemma all_adjacent_cabled:
  assumes "set (gf_cables G) \<subseteq> set (ph_cables L)" "all_adjacent G ps"
  shows "all_cabled L ps"
  unfolding all_cabled_def
proof (intro allI impI)
  fix i j assume "i < length ps" "j < length ps" "i \<noteq> j"
  then consider "i < j" | "j < i" by linarith
  then have "adjacent G (ps ! i) (ps ! j)"
    using assms(2) \<open>i < length ps\<close> \<open>j < length ps\<close> adjacent_sym unfolding all_adjacent_iff by cases blast+
  then show "cable_between L (ps ! i) (ps ! j)" by (rule adjacent_cabled [OF assms(1)])
qed

lemma missing_none_cabled:
  assumes "set (gf_cables G) \<subseteq> set (ph_cables L)" "missing_pairs G ps = []" "2 \<le> length ps"
  shows "ring_cabled L ps"
  using assms missing_pairs_none [OF assms(3), of G] adjacent_cabled [OF assms(1)] by (simp add: ring_cabled_def)

definition policy_sound :: "PhysLayout \<Rightarrow> int list \<Rightarrow> NcclPolicy \<Rightarrow> bool" where
  "policy_sound L ps policy = (case policy of NcclAll \<Rightarrow> all_cabled L ps | NcclRing \<Rightarrow> ring_cabled L ps | NcclNone \<Rightarrow> True)"

lemma short_cabled: "length ps < 2 \<Longrightarrow> all_cabled L ps"
  by (auto simp: all_cabled_def)

lemma nccl_policy_of_sound: "nccl_policy_of L ps = Inr (policy, why) \<Longrightarrow> policy_sound L ps policy"
proof -
  let ?G = "\<lparr>gf_kind = PathShape, gf_order = py_range (ph_size L), gf_cables = ph_cables L\<rparr>"
  have G: "set (gf_cables ?G) \<subseteq> set (ph_cables L)" by simp
  assume "nccl_policy_of L ps = Inr (policy, why)"
  then show ?thesis
    using all_adjacent_cabled [OF G] missing_none_cabled [OF G] short_cabled [of ps L]
    by (auto simp: nccl_policy_of_def policy_sound_def bind_res_Inr Let_def split: if_splits)
qed

lemma owned_fabric_cables: "owned_fabric L ps = Inr G \<Longrightarrow> set (gf_cables G) \<subseteq> set (ph_cables L)"
  by (auto simp: owned_fabric_def bind_res_Inr Let_def arc_fabric_def split: if_splits option.splits)

lemma described_cables:
  assumes "describe_group L ps parent n limit scope = Inr T"
  shows "gt_members T = ps \<and> set (gf_cables (gt_fabric T)) \<subseteq> set (ph_cables L)"
proof -
  obtain G H where G: "(case parent of
           None \<Rightarrow> owned_fabric L ps
         | Some qs \<Rightarrow> if \<not> set ps \<subseteq> set qs then Inl (FabricError ''subgroup positions are not inside the parent group'' [])
             else owned_fabric L qs) = Inr G"
    and H: "(if scope = ''fabric'' then owned_fabric L (py_range (ph_size L)) else Inr G) = Inr H"
    and T: "gt_members T = ps" "gt_fabric T = H"
    using assms by (auto simp: describe_group_def bind_res_Inr Let_def split: if_splits)
  have "set (gf_cables G) \<subseteq> set (ph_cables L)" using G owned_fabric_cables by (auto split: option.splits if_splits)
  then have "set (gf_cables H) \<subseteq> set (ph_cables L)" using H owned_fabric_cables by (auto split: if_splits)
  then show ?thesis using T by simp
qed

lemma topo_nccl_sound:
  assumes "describe_group L ps parent n limit scope = Inr T" "topo_nccl T = Inr (policy, why)"
  shows "policy_sound L ps policy"
proof -
  have T: "gt_members T = ps" and G: "set (gf_cables (gt_fabric T)) \<subseteq> set (ph_cables L)"
    using described_cables [OF assms(1)] by blast+
  show ?thesis
    using assms(2) T all_adjacent_cabled [OF G] missing_none_cabled [OF G] short_cabled [of ps L]
    by (auto simp: topo_nccl_def policy_sound_def uncabled_pairs_def bind_res_Inr Let_def split: if_splits)
qed

lemma placed_policy_sound:
  assumes "placed_policy c name ranks parent = Inr ((topology, raw, why), session)"
  shows "\<exists>ps. map_res (py_index (ac_positions c)) ranks = Inr ps \<and> policy_sound (ac_layout c) ps raw"
  using assms topo_nccl_sound nccl_policy_of_sound
  by (auto simp: placed_policy_def bind_res_Inr case_prod_beta split: if_splits option.splits)

text \<open>The settings narrow a policy and never widen it; the ring needs NCCL's own settings.\<close>

lemma effective_policy_narrows:
  assumes "effective_policy raw why mode env = (policy, reason)"
  shows "policy = NcclNone \<or> policy = raw \<and> mode \<noteq> ''never'' \<and> (raw = NcclRing \<longrightarrow> fst (ring_algorithm_enforced env))"
  using assms by (cases "ring_algorithm_enforced env") (auto simp: effective_policy_def split: if_splits)

text \<open>
  What NCCL may do on a group of ranks: any operation where every two members share a cable, the ring's operations where NCCL is
  limited to its ring over cabled neighbours, and point-to-point calls between cabled ranks of such a group.
\<close>

definition nccl_may :: "AdapterConfig \<Rightarrow> environ \<Rightarrow> int list \<Rightarrow> string \<Rightarrow> (int \<times> int) option \<Rightarrow> bool" where
  "nccl_may c env ranks operation pair \<longleftrightarrow> ac_nccl_mode c \<noteq> ''never'' \<and>
    (case map_res (py_index (ac_positions c)) ranks of Inl _ \<Rightarrow> False
     | Inr ps \<Rightarrow> all_cabled (ac_layout c) ps
       \<or> fst (ring_algorithm_enforced env) \<and> ring_cabled (ac_layout c) ps
         \<and> (operation \<in> set RING_OPERATIONS
            \<or> operation \<in> set POINT_TO_POINT \<and> (case pair of None \<Rightarrow> False | Some (a, b) \<Rightarrow> config_cabled c a b = Inr True)))"

definition entry_sound :: "(int list \<Rightarrow> string \<Rightarrow> (int \<times> int) option \<Rightarrow> bool) \<Rightarrow> GuardedGroup \<Rightarrow> bool" where
  "entry_sound may e \<longleftrightarrow> (\<forall>operation pair. gg_allows e operation pair = Inr True \<longrightarrow> may (gg_ranks e) operation pair)"

lemma policy_entry_sound:
  assumes "map_res (py_index (ac_positions c)) (gg_ranks e) = Inr ps" "policy_sound (ac_layout c) ps raw"
    and "effective_policy raw why (ac_nccl_mode c) env = (gg_policy e, reason)" "gg_cabled e = Some (config_cabled c)"
  shows "entry_sound (nccl_may c env) e"
  unfolding entry_sound_def
proof (intro allI impI)
  fix operation pair
  assume a: "gg_allows e operation pair = Inr True"
  have "gg_policy e \<noteq> NcclNone" using a by (auto simp: gg_allows_def split: option.splits if_splits)
  then have n: "gg_policy e = raw" "ac_nccl_mode c \<noteq> ''never''" "raw = NcclRing \<longrightarrow> fst (ring_algorithm_enforced env)"
    using effective_policy_narrows [OF assms(3)] by blast+
  show "nccl_may c env (gg_ranks e) operation pair"
    using a n assms(1,2,4) by (cases "gg_policy e") (auto simp: nccl_may_def policy_sound_def gg_allows_def split: option.splits if_splits)
qed

lemma placement_fields:
  assumes "GroupPlacement_of name ranks rank c parent env = Inr p"
  shows "\<exists>ps raw why reason. pc_global_ranks p = ranks \<and> map_res (py_index (ac_positions c)) ranks = Inr ps
    \<and> policy_sound (ac_layout c) ps raw \<and> effective_policy raw why (ac_nccl_mode c) env = (pc_policy p, reason)"
proof -
  obtain tp raw why session where p: "placed_policy c (fst (partition_at (CHR '':'') name)) ranks parent = Inr ((tp, raw, why), session)"
    and q: "pc_global_ranks p = ranks" "pc_policy p = fst (effective_policy raw why (ac_nccl_mode c) env)"
    using assms by (auto simp: GroupPlacement_of_def bind_res_Inr Let_def case_prod_beta split: if_splits)
  then show ?thesis using placed_policy_sound [OF p] by (metis prod.collapse)
qed

lemma guard_entry_sound:
  assumes "GroupPlacement_of name ranks rank c parent env = Inr p"
  shows "gg_ranks (guard_entry p c carried) = ranks" "entry_sound (nccl_may c env) (guard_entry p c carried)"
proof -
  obtain ps raw why reason where p: "pc_global_ranks p = ranks" "map_res (py_index (ac_positions c)) ranks = Inr ps"
    "policy_sound (ac_layout c) ps raw" "effective_policy raw why (ac_nccl_mode c) env = (pc_policy p, reason)"
    using placement_fields [OF assms] by blast
  then show "gg_ranks (guard_entry p c carried) = ranks" by (simp add: guard_entry_def)
  show "entry_sound (nccl_may c env) (guard_entry p c carried)"
    by (rule policy_entry_sound [where ps = ps and raw = raw and why = why and reason = reason])
      (use p in \<open>simp_all add: guard_entry_def\<close>)
qed

lemma resolve_entry_sound: "gg_ranks (resolve_entry c env ranks) = ranks" "entry_sound (nccl_may c env) (resolve_entry c env ranks)"
proof -
  consider e where "bind_res (map_res (py_index (ac_positions c)) ranks) (nccl_policy_of (ac_layout c)) = Inl e"
    | ps raw why where "map_res (py_index (ac_positions c)) ranks = Inr ps" "nccl_policy_of (ac_layout c) ps = Inr (raw, why)"
    by (cases "map_res (py_index (ac_positions c)) ranks"; cases "bind_res (map_res (py_index (ac_positions c)) ranks) (nccl_policy_of (ac_layout c))")
      auto
  then have "gg_ranks (resolve_entry c env ranks) = ranks \<and> entry_sound (nccl_may c env) (resolve_entry c env ranks)"
  proof cases
    case 1
    then show ?thesis by (auto simp: resolve_entry_def entry_sound_def gg_allows_def split: option.splits if_splits)
  next
    case 2
    obtain policy reason where e: "effective_policy raw why (ac_nccl_mode c) env = (policy, reason)" by (cases "effective_policy raw why (ac_nccl_mode c) env")
    let ?e = "resolve_entry c env ranks"
    have f: "gg_ranks ?e = ranks" "gg_policy ?e = policy" "gg_cabled ?e = Some (config_cabled c)"
      using 2 e by (simp_all add: resolve_entry_def)
    have "entry_sound (nccl_may c env) ?e"
      by (rule policy_entry_sound [where ps = ps and raw = raw and why = why and reason = reason])
        (use 2 e f nccl_policy_of_sound [OF 2(2)] in simp_all)
    then show ?thesis using f by simp
  qed
  then show "gg_ranks (resolve_entry c env ranks) = ranks" "entry_sound (nccl_may c env) (resolve_entry c env ranks)" by blast+
qed

section \<open>The tripwire\<close>

text \<open>
  The members of every process group never change; a world agrees with them where it knows them.  A registry is sound when every
  entry stands for the members of its group and allows only what may run on them.
\<close>

definition world_agrees :: "(group_id \<Rightarrow> int list) \<Rightarrow> World \<Rightarrow> bool" where
  "world_agrees members w \<longleftrightarrow> (\<forall>g ranks. wd_ranks w g = Some ranks \<longrightarrow> ranks = members g)"

definition entries_sound ::
  "(int list \<Rightarrow> string \<Rightarrow> (int \<times> int) option \<Rightarrow> bool) \<Rightarrow> (group_id \<Rightarrow> int list) \<Rightarrow> Registry \<Rightarrow> bool" where
  "entries_sound may members r \<longleftrightarrow>
    (\<forall>g e. dget (rg_entries r) g = Some e \<longrightarrow> gg_ranks e = members g \<and> entry_sound may e)"

text \<open>A group the tripwire classifies: registered, or NCCL's with ranks this process knows.\<close>

definition known :: "World \<Rightarrow> Registry \<Rightarrow> group_id \<Rightarrow> bool" where
  "known w r g \<longleftrightarrow> dget (rg_entries r) g \<noteq> None \<or> is_nccl w g \<and> wd_ranks w g \<noteq> None"

text \<open>The groups a call runs on, with the pair of ranks of a point-to-point one.\<close>

definition call_legs :: "World \<Rightarrow> Call \<Rightarrow> (group_id \<times> (int \<times> int) option) list" where
  "call_legs w cl =
    (if cl_operation cl = ''batch_isend_irecv''
     then concat (map (\<lambda>(grp, peer). case or_default w grp of None \<Rightarrow> [] | Some g \<Rightarrow> [(g, call_pair w peer)]) (cl_ops cl))
     else case or_default w (cl_group cl) of None \<Rightarrow> []
       | Some g \<Rightarrow> [(g, call_pair w (if cl_operation cl \<in> set PEER_OPERATIONS then cl_peer cl else None))])"

text \<open>
  The interface between the tripwire and the classification of groups: an entry resolved from ranks names them and allows only
  what may run on them.
\<close>

locale classifier =
  fixes resolver :: "int list \<Rightarrow> GuardedGroup" and may :: "int list \<Rightarrow> string \<Rightarrow> (int \<times> int) option \<Rightarrow> bool"
  assumes resolved_ranks: "gg_ranks (resolver ranks) = ranks"
    and resolved_sound: "entry_sound may (resolver ranks)"
begin

lemma entry_for_sound:
  assumes "entries_sound may members r" "rg_resolver r = Some (\<lambda>rs. Some (resolver rs))" "world_agrees members w"
    and "entry_for w g r = (entry, r')"
  shows "entries_sound may members r' \<and> rg_resolver r' = rg_resolver r \<and> (\<forall>h. known w r h \<longrightarrow> known w r' h)
    \<and> (known w r g \<longrightarrow> entry \<noteq> None) \<and> (\<forall>e. entry = Some e \<longrightarrow> gg_ranks e = members g \<and> entry_sound may e)"
proof (cases "dget (rg_entries r) g")
  case (Some e)
  then have "entry = Some e" "r' = r" using assms(4) by (simp_all add: entry_for_def)
  then show ?thesis using assms(1,2) Some by (simp add: entries_sound_def)
next
  case None
  show ?thesis
  proof (cases "is_nccl w g \<and> wd_ranks w g \<noteq> None")
    case True
    then obtain rs where rs: "wd_ranks w g = Some rs" by blast
    then have m: "rs = members g" using assms(3) by (simp add: world_agrees_def)
    have "entry = Some (resolver rs)" "r' = register (Some g) (resolver rs) r"
      using assms(2,4) None True rs by (simp_all add: entry_for_def)
    then show ?thesis
      using assms(1) m resolved_ranks resolved_sound by (auto simp: entries_sound_def register_def known_def)
  next
    case False
    then have "entry = None \<and> r' = r"
      using assms(2,4) None by (auto simp: entry_for_def split: option.splits if_splits)
    then show ?thesis using False None assms(1) by (simp add: known_def)
  qed
qed

lemma check_one_sound:
  assumes "entries_sound may members r" "rg_resolver r = Some (\<lambda>rs. Some (resolver rs))" "world_agrees members w"
    and "check_one w operation grp peer r = (out, r')"
  shows "entries_sound may members r' \<and> rg_resolver r' = rg_resolver r \<and> (\<forall>h. known w r h \<longrightarrow> known w r' h)
    \<and> (is_ok out \<longrightarrow> (\<forall>g. or_default w grp = Some g \<longrightarrow> known w r g \<longrightarrow> may (members g) operation (call_pair w peer)))"
proof (cases "or_default w grp")
  case None
  then show ?thesis using assms by (auto simp: check_one_def)
next
  case (Some g)
  obtain entry r1 where e: "entry_for w g r = (entry, r1)" by (cases "entry_for w g r")
  note s = entry_for_sound [OF assms(1-3) e]
  have r': "r' = r1" "out = (case entry of None \<Rightarrow> Inr () | Some x \<Rightarrow> gg_check x operation (call_pair w peer))"
    using assms(4) Some e by (auto simp: check_one_def)
  have "may (members g) operation (call_pair w peer)" if ok: "is_ok out" "known w r g"
  proof -
    obtain x where x: "entry = Some x" using s ok(2) by blast
    then have "gg_allows x operation (call_pair w peer) = Inr True"
      using ok(1) r'(2) by (auto simp: gg_check_def is_ok_iff bind_res_Inr split: if_splits)
    then show ?thesis using s x by (metis entry_sound_def)
  qed
  then show ?thesis using s r'(1) Some by auto
qed

lemma check_ops_sound:
  assumes "entries_sound may members r" "rg_resolver r = Some (\<lambda>rs. Some (resolver rs))" "world_agrees members w"
    and "check_ops w operation ops r = (out, r')"
  shows "entries_sound may members r' \<and> rg_resolver r' = rg_resolver r
    \<and> (is_ok out \<longrightarrow> (\<forall>(grp, peer)\<in>set ops. \<forall>g. or_default w grp = Some g \<longrightarrow> known w r g
        \<longrightarrow> may (members g) operation (call_pair w peer)))"
  using assms(1,2,4)
proof (induction ops arbitrary: r)
  case Nil
  then show ?case by auto
next
  case (Cons op' ops)
  obtain grp peer where o: "op' = (grp, peer)" by (cases op')
  obtain out1 r1 where c: "check_one w operation grp peer r = (out1, r1)" by (cases "check_one w operation grp peer r")
  note s = check_one_sound [OF Cons.prems(1,2) assms(3) c]
  show ?case
  proof (cases out1)
    case (Inl e)
    then show ?thesis using Cons.prems(3) c o s by auto
  next
    case (Inr u)
    have rest: "check_ops w operation ops r1 = (out, r')" using Cons.prems(3) c o Inr by simp
    have r1: "entries_sound may members r1" "rg_resolver r1 = Some (\<lambda>rs. Some (resolver rs))" using s Cons.prems(2) by simp_all
    note ih = Cons.IH [OF r1 rest]
    have first: "\<forall>g. or_default w grp = Some g \<longrightarrow> known w r g \<longrightarrow> may (members g) operation (call_pair w peer)"
      using s Inr by simp
    have k: "known w r1 h" if "known w r h" for h using s that by blast
    show ?thesis using ih first k s Cons.prems(2) unfolding o by auto
  qed
qed

lemma check_call_sound:
  assumes "entries_sound may members r" "rg_resolver r = Some (\<lambda>rs. Some (resolver rs))" "world_agrees members w"
    and "check_call w cl r = (out, r')"
  shows "entries_sound may members r' \<and> rg_resolver r' = rg_resolver r
    \<and> (is_ok out \<longrightarrow> (\<forall>(g, pair)\<in>set (call_legs w cl). known w r g \<longrightarrow> may (members g) (cl_operation cl) pair))"
proof (cases "cl_operation cl = ''batch_isend_irecv''")
  case True
  then have "check_ops w (cl_operation cl) (cl_ops cl) r = (out, r')" using assms(4) by (simp add: check_call_def)
  from check_ops_sound [OF assms(1-3) this] show ?thesis
    using True by (fastforce simp: call_legs_def split: option.splits)
next
  case False
  then have "check_one w (cl_operation cl) (cl_group cl) (if cl_operation cl \<in> set PEER_OPERATIONS then cl_peer cl else None) r = (out, r')"
    using assms(4) by (simp add: check_call_def)
  from check_one_sound [OF assms(1-3) this] show ?thesis
    using False by (auto simp: call_legs_def split: option.splits)
qed

end

interpretation layout_classes: classifier "resolve_entry c env" "nccl_may c env" for c env
  by unfold_locales (rule resolve_entry_sound)+

lemma guarded_original: "guarded answer w cl r = (Original, r') \<Longrightarrow> \<exists>u. check_call w cl r = (Inr u, r')"
  by (cases "check_call w cl r")
    (auto simp: guarded_def checked_call_def refused_call_def split: if_splits sum.splits option.splits)

section \<open>The life of the registry\<close>

text \<open>
  The registries of a process: configured with the layout's classification, then groups are registered by their placement, with
  their carriers (one point-to-point carrier per group), and unregistered, and calls pass the tripwire.
\<close>

inductive reachable_registry :: "AdapterConfig \<Rightarrow> environ \<Rightarrow> (group_id \<Rightarrow> int list) \<Rightarrow> Registry \<Rightarrow> bool"
  for c env members where
  configured: "reachable_registry c env members (configure (Some (\<lambda>ranks. Some (resolve_entry c env ranks))) (reset r))"
| placed: "reachable_registry c env members r \<Longrightarrow> GroupPlacement_of name (members g) rank c parent env = Inr p
    \<Longrightarrow> reachable_registry c env members (register (Some g) (guard_entry p c carried) r)"
| carrying: "reachable_registry c env members r \<Longrightarrow> reachable_registry c env members (register_carrier (Some g) k r)"
| channels: "reachable_registry c env members r \<Longrightarrow> dget (rg_p2p r) g = None
    \<Longrightarrow> reachable_registry c env members (register_p2p_carrier (Some g) ranks k r)"
| closed: "reachable_registry c env members r \<Longrightarrow> reachable_registry c env members (unregister g r)"
| called: "reachable_registry c env members r \<Longrightarrow> world_agrees members w \<Longrightarrow> reachable_registry c env members (snd (check_call w cl r))"

lemma dget_dpop [simp]: "dget (dpop k d) k' = (if k' = k then None else dget d k')"
  by (induction d) (auto simp: dpop_def dget_def)

lemma reachable_sound:
  assumes "reachable_registry c env members r"
  shows "entries_sound (nccl_may c env) members r \<and> rg_resolver r = Some (\<lambda>ranks. Some (resolve_entry c env ranks))"
  using assms
proof (induction rule: reachable_registry.induct)
  case (placed r name g rank parent p carried)
  then show ?case
    using guard_entry_sound [OF placed.hyps(2), of carried] by (auto simp: entries_sound_def register_def)
next
  case (called r w cl)
  obtain out r' where c: "check_call w cl r = (out, r')" by (cases "check_call w cl r")
  show ?case using layout_classes.check_call_sound [OF _ _ called.hyps(2) c] called.IH c by simp
qed (auto simp: entries_sound_def configure_def reset_def register_carrier_def register_p2p_carrier_def unregister_def)

text \<open>
  C6: NCCL stays on cables: in any registry a process can reach, a wrapped call that reaches the original function runs, on every
  classified group it names, only what NCCL may do there: anything where all members share cables, ring operations where NCCL is
  limited to a cabled ring, point-to-point between ranks that share a cable.
\<close>

theorem nccl_stays_on_cables:
  assumes "reachable_registry c env members r" "world_agrees members w" "guarded answer w cl r = (Original, r')"
    and "(g, pair) \<in> set (call_legs w cl)" "known w r g"
  shows "nccl_may c env (members g) (cl_operation cl) pair"
proof -
  obtain u where u: "check_call w cl r = (Inr u, r')" using guarded_original [OF assms(3)] by blast
  note s = reachable_sound [OF assms(1)]
  show ?thesis
    using layout_classes.check_call_sound [OF conjunct1 [OF s] conjunct2 [OF s] assms(2) u] assms(4,5) by fastforce
qed

definition sample_world :: World where
  "sample_world = \<lparr>wd_default = None, wd_backend = (\<lambda>g. if g = 7 then Some ''NCCL'' else None),
    wd_ranks = (\<lambda>g. if g = 7 then Some [0, 1] else None), wd_rank = Some 0\<rparr>"

definition sample_call :: Call where
  "sample_call = \<lparr>cl_operation = ''all_to_all'', cl_signature = True, cl_binds = True, cl_group = Some 7, cl_peer = None,
    cl_ops = []\<rparr>"

definition sample_registry :: Registry where
  "sample_registry = configure (Some (\<lambda>ranks. Some (resolve_entry sample_config sample_env ranks)))
    (reset \<lparr>rg_entries = [], rg_carriers = [], rg_p2p = [], rg_by_ranks = [], rg_resolver = None\<rparr>)"

definition no_answer :: "nat \<Rightarrow> Call \<Rightarrow> py_error + unit option" where
  "no_answer k cl = Inr None"

lemma sample_call_passes: "case fst (guarded no_answer sample_world sample_call sample_registry) of Original \<Rightarrow> True | _ \<Rightarrow> False"
  by code_simp

lemma nccl_stays_on_cables_witness: "nccl_may sample_config sample_env [0, 1] ''all_to_all'' None"
proof -
  let ?members = "\<lambda>g :: group_id. [0, 1 :: int]"
  have r: "reachable_registry sample_config sample_env ?members sample_registry"
    unfolding sample_registry_def by (rule configured)
  have w: "world_agrees ?members sample_world" by (auto simp: world_agrees_def sample_world_def split: if_splits)
  obtain r' where g: "guarded no_answer sample_world sample_call sample_registry = (Original, r')"
    using sample_call_passes
    by (cases "guarded no_answer sample_world sample_call sample_registry") (auto split: outcome.splits)
  have "(7, None) \<in> set (call_legs sample_world sample_call)"
    by (simp add: call_legs_def sample_call_def or_default_def PEER_OPERATIONS_def call_pair_def)
  moreover have "is_nccl sample_world 7" by code_simp
  then have "known sample_world sample_registry 7" by (simp add: known_def sample_world_def)
  ultimately have "nccl_may sample_config sample_env (?members 7) (cl_operation sample_call) None"
    by (rule nccl_stays_on_cables [OF r w g])
  then show ?thesis by (simp add: sample_call_def)
qed

section \<open>Carriers\<close>

definition carriers_owned :: "Registry \<Rightarrow> bool" where
  "carriers_owned r \<longleftrightarrow> (\<forall>(ranks, k)\<in>set (rg_by_ranks r). \<exists>h. dget (rg_p2p r) h = Some k)"

lemma entry_for_carriers: "rg_p2p (snd (entry_for w g r)) = rg_p2p r \<and> rg_by_ranks (snd (entry_for w g r)) = rg_by_ranks r"
  by (auto simp: entry_for_def register_def split: option.splits)

lemma check_one_carriers:
  "rg_p2p (snd (check_one w operation grp peer r)) = rg_p2p r \<and> rg_by_ranks (snd (check_one w operation grp peer r)) = rg_by_ranks r"
  using entry_for_carriers by (auto simp: check_one_def case_prod_beta Let_def split: option.splits)

lemma check_ops_carriers:
  "rg_p2p (snd (check_ops w operation ops r)) = rg_p2p r \<and> rg_by_ranks (snd (check_ops w operation ops r)) = rg_by_ranks r"
proof (induction ops arbitrary: r)
  case (Cons op' ops)
  obtain grp peer where o: "op' = (grp, peer)" by (cases op')
  obtain out r1 where c: "check_one w operation grp peer r = (out, r1)" by (cases "check_one w operation grp peer r")
  then show ?case using Cons.IH [of r1] check_one_carriers [of w operation grp peer r] o by (cases out) simp_all
qed simp

lemma check_call_carriers: "carriers_owned (snd (check_call w cl r)) = carriers_owned r"
  using check_one_carriers check_ops_carriers by (simp add: carriers_owned_def check_call_def)

lemma unregister_owned:
  assumes "carriers_owned r"
  shows "carriers_owned (unregister g r)"
  unfolding carriers_owned_def
proof clarify
  fix ranks k
  assume m: "(ranks, k) \<in> set (rg_by_ranks (unregister g r))"
  then have "(ranks, k) \<in> set (rg_by_ranks r)" and n: "dget (rg_p2p r) g \<noteq> Some k"
    by (auto simp: unregister_def split: option.splits)
  then obtain h where h: "dget (rg_p2p r) h = Some k" using assms by (auto simp: carriers_owned_def)
  then have "h \<noteq> g" using n by blast
  then show "\<exists>h. dget (rg_p2p (unregister g r)) h = Some k" using h by (auto simp: unregister_def)
qed

lemma register_owned:
  assumes "carriers_owned r" "dget (rg_p2p r) g = None"
  shows "carriers_owned (register_p2p_carrier (Some g) ranks k r)"
  unfolding carriers_owned_def
proof clarify
  let ?r = "register_p2p_carrier (Some g) ranks k r"
  fix qs j
  assume "(qs, j) \<in> set (rg_by_ranks ?r)"
  then have "(qs, j) \<in> set (rg_by_ranks r) \<or> j = k"
    using dset_new [of ranks "rg_by_ranks r" k]
    by (auto simp: register_p2p_carrier_def dget_def map_of_eq_None_iff split: if_splits)
  then show "\<exists>h. dget (rg_p2p ?r) h = Some j"
  proof
    assume "(qs, j) \<in> set (rg_by_ranks r)"
    then obtain h where h: "dget (rg_p2p r) h = Some j" using assms(1) by (auto simp: carriers_owned_def)
    then have "h \<noteq> g" using assms(2) by auto
    then have "dget (rg_p2p ?r) h = Some j" using h by (simp add: register_p2p_carrier_def)
    then show ?thesis ..
  next
    assume "j = k"
    then have "dget (rg_p2p ?r) g = Some j" by (simp add: register_p2p_carrier_def)
    then show ?thesis ..
  qed
qed

lemma reachable_owned: "reachable_registry c env members r \<Longrightarrow> carriers_owned r"
proof (induction rule: reachable_registry.induct)
  case (configured r)
  then show ?case by (simp add: carriers_owned_def configure_def reset_def)
next
  case (placed r name g rank parent p carried)
  then show ?case by (simp add: carriers_owned_def register_def)
next
  case (carrying r g k)
  then show ?case by (simp add: carriers_owned_def register_carrier_def)
next
  case (channels r g ranks k)
  then show ?case by (intro register_owned)
next
  case (closed r g)
  then show ?case by (intro unregister_owned)
next
  case (called r w cl)
  then show ?case by (simp add: check_call_carriers)
qed



section \<open>Construction\<close>

text \<open>
  PyNccl, whose constructor all-reduces over the whole group, is built only where NCCL may all-reduce: a placed group of
  several ranks that does not suppress it has all its members cabled, or neighbours cabled and NCCL limited to its ring.
\<close>

theorem pynccl_built_on_cables:
  assumes "GroupPlacement_of name ranks rank c parent env = Inr p" "\<not> suppress_pynccl p" "1 < length ranks"
  shows "nccl_may c env ranks ''all_reduce'' None"
proof -
  note g = guard_entry_sound [OF assms(1), of None]
  have "allows (pc_policy p) ''all_reduce''"
    using assms placement_fields [OF assms(1)] by (auto simp: suppress_pynccl_def)
  then have "gg_allows (guard_entry p c None) ''all_reduce'' None = Inr True"
    by (simp add: gg_allows_def guard_entry_def)
  then show ?thesis using g unfolding entry_sound_def by metis
qed

definition sample_placement :: "py_error + GroupPlacement" where
  "sample_placement = GroupPlacement_of ''pp:1'' [1, 2] 0 sample_config None sample_env"

lemma pynccl_built_on_cables_witness: "nccl_may sample_config sample_env [1, 2] ''all_reduce'' None"
proof -
  have "case sample_placement of Inl _ \<Rightarrow> False | Inr p \<Rightarrow> \<not> suppress_pynccl p" by code_simp
  then obtain p where "sample_placement = Inr p" "\<not> suppress_pynccl p" by (auto split: sum.splits)
  then show ?thesis by (intro pynccl_built_on_cables [of "''pp:1''" _ 0 _ None]) (simp_all add: sample_placement_def)
qed

end
