(* ===== verification/Executor.thy ===== *)
theory Executor
  imports Planner
begin

text \<open>
  Plans carried out (\<open>vllm/executor.py\<close>).  A collective is seen from all ranks at once: \<open>xs\<close> holds the flat data of every rank in
  rank order, as cells (bytes, or whole elements where a tensor is summed), and an operation returns what one rank is left
  with.  The ring session enters as the record of its operations (\<open>oneshot\<close>); an output taken uninitialised is the
  argument \<open>junk\<close>.  Streams, graph captures and the layout of memory have no part in the values.
\<close>

section \<open>Slices and writes\<close>

definition slice :: "nat \<Rightarrow> nat \<Rightarrow> 'c list \<Rightarrow> 'c list" where
  "slice off n x = take n (drop off x)"

definition write_at :: "nat \<times> 'c list \<Rightarrow> 'c list \<Rightarrow> 'c list" where
  "write_at e buf = take (fst e) buf @ snd e @ drop (fst e + length (snd e)) buf"

definition assemble :: "'c list \<Rightarrow> (nat \<times> 'c list) list \<Rightarrow> 'c list" where
  "assemble junk ws = fold write_at ws junk"

text \<open>\<open>_ranges(total, step)\<close>.\<close>

definition ranges :: "nat \<Rightarrow> nat \<Rightarrow> (nat \<times> nat) list" where
  "ranges n step = (let step = max 1 step in
    map (\<lambda>i. (i * step, min step (n - i * step))) [0..<(n + step - 1) div step])"

definition ends_with :: "string \<Rightarrow> string \<Rightarrow> bool" where
  "ends_with s w = (take (length w) (rev s) = rev w)"

section \<open>The session's operations\<close>

text \<open>
  \<open>se_gather rows row xs\<close> is \<open>all_gather\<close> of every rank's matrix of \<open>rows\<close> rows of \<open>row\<close> cells along its last
  dimension, \<open>se_reduce\<close> is \<open>all_reduce\<close>, \<open>se_scatter rank chunk stride xs\<close> is \<open>reduce_scatter\<close> with chunks at a stride, and
  \<open>se_exchange\<close> is \<open>all_to_all\<close> of one chunk of every peer's block.  The large operations may be absent.
\<close>

record 'c Session =
  se_gather :: "nat \<Rightarrow> nat \<Rightarrow> 'c list list \<Rightarrow> 'c list"
  se_gather_large :: "(nat \<Rightarrow> nat \<Rightarrow> 'c list list \<Rightarrow> 'c list) option"
  se_reduce :: "'c list list \<Rightarrow> 'c list"
  se_reduce_large :: "('c list list \<Rightarrow> 'c list) option"
  se_scatter :: "nat \<Rightarrow> nat \<Rightarrow> nat \<Rightarrow> 'c list list \<Rightarrow> 'c list"
  se_exchange :: "nat \<Rightarrow> nat \<Rightarrow> nat \<Rightarrow> 'c list list \<Rightarrow> 'c list list"

section \<open>All-gather\<close>

definition rows_before :: "int list \<Rightarrow> nat \<Rightarrow> nat" where
  "rows_before shape d = nat (prod_list (take d shape))"

definition row_elems :: "int list \<Rightarrow> nat \<Rightarrow> nat" where
  "row_elems shape d = nat (prod_list (drop d shape))"

text \<open>
  The parts of one gathered tile, one for each rank, at the rank's columns of its row.  A single row is gathered along dimension 0:
  the same tiles of its row 0.
\<close>

definition tile_writes :: "nat \<Rightarrow> nat \<Rightarrow> nat \<Rightarrow> nat \<Rightarrow> nat \<Rightarrow> 'c list \<Rightarrow> (nat \<times> 'c list) list" where
  "tile_writes world row r off n part = map (\<lambda>w. (r * (world * row) + (w * row + off), slice (w * n) n part)) [0..<world]"

definition gather_writes :: "'c Session \<Rightarrow> string \<Rightarrow> nat \<Rightarrow> nat \<Rightarrow> nat \<Rightarrow> nat \<Rightarrow> 'c list list \<Rightarrow> py_error + (nat \<times> 'c list) list" where
  "gather_writes s method outer inner u piece xs =
    (let row = inner * u; world = length xs in
     if method = ''direct'' then Inr [(0, se_gather s outer row xs)]
     else if method = ''rows''
     then Inr (map (\<lambda>(off, n). (off * (world * row), se_gather s n row (map (slice (off * row) (n * row)) xs))) (ranges outer piece))
     else if method = ''tiles''
     then Inr (concat (map (\<lambda>r. concat (map (\<lambda>(off, n).
         tile_writes world row r (off * u) (n * u) (se_gather s 1 (n * u) (map (slice (r * row + off * u) (n * u)) xs)))
         (ranges inner piece))) [0..<outer]))
     else Inl (PlanError ''unknown all-gather method'' []))"

definition exec_all_gather :: "'c Session \<Rightarrow> Plan \<Rightarrow> int list \<Rightarrow> int \<Rightarrow> nat \<Rightarrow> 'c list list \<Rightarrow> 'c list \<Rightarrow> py_error + 'c list" where
  "exec_all_gather s p shape axis item xs junk =
    (let d = axis_of axis shape; outer = rows_before shape d; inner = row_elems shape d; method = pl_method p in
     if method = ''empty'' then Inr []
     else if ends_with method ''large'' \<or> (ends_with method ''rows'' \<or> ends_with method ''tiles'') \<and> se_gather_large s \<noteq> None
     then (case se_gather_large s of
         None \<Rightarrow> Inl (PlanError ''plan needs the session's all_gather_large'' [])
       | Some f \<Rightarrow> Inr (f outer (inner * item) xs))
     else
       let by_bytes = (take 6 method = ''bytes_'') in
       bind_res (if by_bytes then gather_writes s (drop 6 method) outer (inner * item) 1 (nat (pl_piece p)) xs
                 else gather_writes s method outer inner item (nat (pl_piece p)) xs) (\<lambda>ws.
       Inr (assemble junk ws)))"

text \<open>
  Column gathers: one gather of the whole shards along dimension 0 into staging, then row \<open>o\<close> of every rank's block to row \<open>o\<close>
  of the output.
\<close>

definition interleave_rows :: "'c list \<Rightarrow> nat \<Rightarrow> nat \<Rightarrow> nat \<Rightarrow> 'c list" where
  "interleave_rows staging world outer inner =
    concat (map (\<lambda>r. concat (map (\<lambda>w. slice (w * (outer * inner) + r * inner) inner staging) [0..<world])) [0..<outer])"

definition column_gather_route :: "'c Session \<Rightarrow> Plan \<Rightarrow> int list \<Rightarrow> int \<Rightarrow> bool \<Rightarrow> bool \<Rightarrow> string option" where
  "column_gather_route s p shape axis by_ring by_chain =
    (if se_gather_large s = None then None
     else if \<not> list_ex (ends_with (pl_method p)) [''large'', ''rows'', ''tiles''] then None
     else if shape = [] \<or> prod_list shape = 0 \<or> prod_list (take (axis_of axis shape) shape) \<le> 1 then None
     else if by_ring then Some ''ring'' else if by_chain then Some ''chain'' else None)"

definition gather_columns :: "('c Session) \<Rightarrow> int list \<Rightarrow> int \<Rightarrow> nat \<Rightarrow> 'c list list \<Rightarrow> py_error + 'c list" where
  "gather_columns s shape axis item xs = (case se_gather_large s of
     None \<Rightarrow> Inl (PlanError ''all_gather_large'' [])
   | Some f \<Rightarrow>
       let d = axis_of axis shape; outer = rows_before shape d; shard = nat (prod_list shape) * item in
       Inr (interleave_rows (f 1 shard xs) (length xs) outer (shard div outer)))"

definition exec_column_gather ::
  "'c Session \<Rightarrow> Plan \<Rightarrow> int list \<Rightarrow> int \<Rightarrow> nat \<Rightarrow> bool \<Rightarrow> bool \<Rightarrow> bool \<Rightarrow> 'c list list \<Rightarrow> 'c list \<Rightarrow> py_error + 'c list" where
  "exec_column_gather s p shape axis item enabled by_ring by_chain xs junk =
    (if pl_method p = ''empty'' then Inr []
     else case (if enabled then column_gather_route s p shape axis by_ring by_chain else None) of
       Some r \<Rightarrow> gather_columns s shape axis item xs
     | None \<Rightarrow> exec_all_gather s p shape axis item xs junk)"

section \<open>All-reduce\<close>

text \<open>The cells are elements here, of \<open>item\<close> bytes; \<open>zero\<close> fills the padding.\<close>

definition padded_elems :: "nat \<Rightarrow> nat \<Rightarrow> nat" where
  "padded_elems n item = (n * item + 15) div 16 * 16 div item"

definition padded_reduce :: "'c Session \<Rightarrow> 'c \<Rightarrow> nat \<Rightarrow> 'c list list \<Rightarrow> 'c list" where
  "padded_reduce s zero item xs =
    take (length (hd xs)) (se_reduce s (map (\<lambda>x. x @ replicate (padded_elems (length x) item - length x) zero) xs))"

text \<open>The local sum of a column in rank order: from the accumulator's zero, each value converted, rounded once at the end.\<close>

record ('c, 'a) Accumulator =
  ac_zero :: 'a
  ac_of :: "'c \<Rightarrow> 'a"
  ac_add :: "'a \<Rightarrow> 'a \<Rightarrow> 'a"
  ac_round :: "'a \<Rightarrow> 'c"

definition rank_ordered_sum :: "('c, 'a) Accumulator \<Rightarrow> 'c list \<Rightarrow> 'c" where
  "rank_ordered_sum acc vs = ac_round acc (foldl (\<lambda>t v. ac_add acc t (ac_of acc v)) (ac_zero acc) vs)"

definition column :: "'c list list \<Rightarrow> nat \<Rightarrow> 'c list" where
  "column xs i = map (\<lambda>x. x ! i) xs"

definition flat_meta :: "TensorMeta \<Rightarrow> TensorMeta" where
  "flat_meta t = \<lparr>tm_shape = [numel t], tm_dtype = tm_dtype t, tm_itemsize = tm_itemsize t, tm_contiguous = True\<rparr>"

definition exec_gather_sum ::
  "'c Session \<Rightarrow> ('c, 'a) Accumulator \<Rightarrow> TensorMeta \<Rightarrow> SessionLimits \<Rightarrow> Policy \<Rightarrow> bool \<Rightarrow> 'c list list \<Rightarrow> 'c list \<Rightarrow> py_error + 'c list" where
  "exec_gather_sum s acc t l P capturing xs junk =
    bind_res (plan_all_gather (flat_meta t) 0 (Some l) (internal P) capturing) (\<lambda>inner.
    bind_res (exec_all_gather s inner [numel t] 0 1 xs junk) (\<lambda>gathered.
    let n = nat (numel t); rows = map (\<lambda>w. slice (w * n) n gathered) [0..<length xs] in
    Inr (map (\<lambda>i. rank_ordered_sum acc (column rows i)) [0..<n])))"

definition chunk_writes :: "'c Session \<Rightarrow> 'c \<Rightarrow> nat \<Rightarrow> nat \<Rightarrow> 'c list list \<Rightarrow> (nat \<times> 'c list) list" where
  "chunk_writes s zero item piece xs = map (\<lambda>(off, n).
     let part = map (slice off n) xs in
     (off, if n * item mod 16 \<noteq> 0 then padded_reduce s zero item part else se_reduce s part)) (ranges (length (hd xs)) (piece div item))"

definition exec_all_reduce ::
  "'c Session \<Rightarrow> ('c, 'a) Accumulator \<Rightarrow> 'c \<Rightarrow> Plan \<Rightarrow> TensorMeta \<Rightarrow> SessionLimits \<Rightarrow> Policy \<Rightarrow> bool \<Rightarrow> 'c list list \<Rightarrow> 'c list \<Rightarrow>
    'c list \<Rightarrow> py_error + 'c list" where
  "exec_all_reduce s acc zero p t l P capturing xs junk gathered_junk =
    (let method = pl_method p; item = nat (tm_itemsize t) in
     if method = ''empty'' then Inr (hd xs)
     else if method = ''direct'' then Inr (se_reduce s xs)
     else if method = ''padded'' then Inr (padded_reduce s zero item xs)
     else if method = ''large'' \<or> method = ''chunked'' \<and> se_reduce_large s \<noteq> None
     then (case se_reduce_large s of None \<Rightarrow> Inl (RuntimeErr ''AttributeError: all_reduce_large'' []) | Some f \<Rightarrow> Inr (f xs))
     else if method = ''chunked'' then Inr (assemble junk (chunk_writes s zero item (nat (pl_piece p)) xs))
     else if method = ''gather_sum'' then exec_gather_sum s acc t l P capturing xs gathered_junk
     else Inl (PlanError ''unknown all-reduce method'' []))"

section \<open>Reduce-scatter\<close>

text \<open>
  \<open>movedim\<close>: a tensor of \<open>outer\<close> times \<open>extent\<close> blocks of \<open>rest\<close> elements with its middle dimension first, and a result of
  \<open>kept\<close> times \<open>outer\<close> blocks with it back in place; \<open>narrow\<close>: the blocks of a range of the middle dimension.
\<close>

definition move_front :: "nat \<Rightarrow> nat \<Rightarrow> nat \<Rightarrow> 'c list \<Rightarrow> 'c list" where
  "move_front outer extent rest x =
    concat (map (\<lambda>e. concat (map (\<lambda>r. slice ((r * extent + e) * rest) rest x) [0..<outer])) [0..<extent])"

definition move_back :: "nat \<Rightarrow> nat \<Rightarrow> nat \<Rightarrow> 'c list \<Rightarrow> 'c list" where
  "move_back outer kept rest x =
    concat (map (\<lambda>r. concat (map (\<lambda>c. slice ((c * outer + r) * rest) rest x) [0..<kept])) [0..<outer])"

definition narrow :: "nat \<Rightarrow> nat \<Rightarrow> nat \<Rightarrow> nat \<Rightarrow> nat \<Rightarrow> 'c list \<Rightarrow> 'c list" where
  "narrow outer extent rest first n x = concat (map (\<lambda>r. slice ((r * extent + first) * rest) (n * rest) x) [0..<outer])"

text \<open>The extent of the scattered dimension, and the elements behind it.\<close>

definition extent_of :: "int list \<Rightarrow> nat \<Rightarrow> nat" where
  "extent_of shape d = nat (shape ! d)"

definition rest_of :: "int list \<Rightarrow> nat \<Rightarrow> nat" where
  "rest_of shape d = nat (prod_list (drop (Suc d) shape))"

definition scatter_writes :: "'c Session \<Rightarrow> nat \<Rightarrow> nat \<Rightarrow> nat \<Rightarrow> nat \<Rightarrow> 'c list list \<Rightarrow> (nat \<times> 'c list) list" where
  "scatter_writes s rank item piece block xs = map (\<lambda>(off, n).
     (off div item, se_scatter s rank (n div item) block (map (drop (off div item)) xs))) (ranges (block * item) piece)"

definition exec_reduce_scatter ::
  "'c Session \<Rightarrow> ('c, 'a) Accumulator \<Rightarrow> 'c \<Rightarrow> Plan \<Rightarrow> TensorMeta \<Rightarrow> int \<Rightarrow> nat \<Rightarrow> SessionLimits \<Rightarrow> Policy \<Rightarrow> bool \<Rightarrow> 'c list list \<Rightarrow>
    'c list \<Rightarrow> 'c list \<Rightarrow> py_error + 'c list" where
  "exec_reduce_scatter s acc zero p t axis rank l P capturing xs junk gathered_junk =
    (let shape = tm_shape t; d = axis_of axis shape; outer = rows_before shape d; extent = extent_of shape d;
         rest = rest_of shape d; kept = extent div nat (li_world l); item = nat (tm_itemsize t); method = pl_method p
     in if method = ''empty'' then Inr []
        else if method = ''allreduce_slice''
        then bind_res (plan_all_reduce t (Some l) (internal P) capturing) (\<lambda>r.
          bind_res (exec_all_reduce s acc zero r t l P capturing xs junk gathered_junk) (\<lambda>summed.
          Inr (narrow outer extent rest (rank * kept) kept summed)))
        else if method \<noteq> ''scatter'' then Inl (PlanError ''unknown reduce-scatter method'' [])
        else
          let moved = map (move_front outer extent rest) xs; block = kept * (outer * rest);
              out = (if pl_ops p = 1 then se_scatter s rank block block moved
                     else assemble (take block junk) (scatter_writes s rank item (nat (pl_piece p)) block moved))
          in Inr (if d = 0 then out else move_back outer kept rest out))"

text \<open>
  \<open>reduce_scatterv\<close>: with uneven sizes the tensor is all-reduced by a plan of its own and the rank keeps its rows;
  \<open>narrow\<close> raises past the end of the dimension.
\<close>

definition exec_reduce_scatterv ::
  "'c Session \<Rightarrow> ('c, 'a) Accumulator \<Rightarrow> 'c \<Rightarrow> Plan \<Rightarrow> TensorMeta \<Rightarrow> int \<Rightarrow> int list option \<Rightarrow> nat \<Rightarrow> SessionLimits \<Rightarrow> Policy \<Rightarrow> bool \<Rightarrow>
    'c list list \<Rightarrow> 'c list \<Rightarrow> 'c list \<Rightarrow> py_error + 'c list" where
  "exec_reduce_scatterv s acc zero p t axis sizes rank l P capturing xs junk gathered_junk =
    (if even_sizes sizes then exec_reduce_scatter s acc zero p t axis rank l P capturing xs junk gathered_junk
     else
       bind_res (plan_all_reduce t (Some l) (internal P) capturing) (\<lambda>r.
       bind_res (exec_all_reduce s acc zero r t l P capturing xs junk gathered_junk) (\<lambda>summed.
       let shape = tm_shape t; d = axis_of axis shape; ns = the sizes; offset = sum_list (take rank ns) in
       if length ns \<le> rank then Inl (IndexErr [])
       else if offset < 0 \<or> ns ! rank < 0 \<or> int (extent_of shape d) < offset + ns ! rank then Inl (RuntimeErr ''narrow'' [])
       else Inr (narrow (rows_before shape d) (extent_of shape d) (rest_of shape d) (nat offset) (nat (ns ! rank)) summed))))"

section \<open>Uneven gathers\<close>

definition padded_inner :: "Plan \<Rightarrow> Plan" where
  "padded_inner p = p\<lparr>pl_method := drop 7 (pl_method p)\<rparr>"

text \<open>\<open>xs\<close> holds every rank's own rows, \<open>sizes\<close> of them with \<open>rest\<close> elements each.\<close>

definition exec_all_gatherv ::
  "'c Session \<Rightarrow> 'c \<Rightarrow> Plan \<Rightarrow> TensorMeta \<Rightarrow> int list \<Rightarrow> nat \<Rightarrow> 'c list list \<Rightarrow> 'c list \<Rightarrow> py_error + 'c list" where
  "exec_all_gatherv s zero p t sizes item xs junk =
    (if take 7 (pl_method p) \<noteq> ''padded_'' then exec_all_gather s p (tm_shape t) 0 item xs junk
     else
       let longest = Max (set sizes); rest = nat (prod_list (tl (tm_shape t))) * item;
           staged = map (\<lambda>x. x @ replicate (nat longest * rest - length x) zero) xs
       in bind_res (exec_all_gather s (padded_inner p) (longest # tl (tm_shape t)) 0 item staged junk) (\<lambda>gathered.
         Inr (concat (map (\<lambda>w. slice (w * (nat longest * rest)) (nat (sizes ! w) * rest) gathered) [0..<length xs]))))"

section \<open>Gathers of bytes\<close>

definition gather_all_bytes ::
  "'c Session \<Rightarrow> TensorMeta \<Rightarrow> SessionLimits \<Rightarrow> Policy \<Rightarrow> bool \<Rightarrow> 'c list list \<Rightarrow> 'c list \<Rightarrow> py_error + 'c list list" where
  "gather_all_bytes s t l P capturing xs junk =
    bind_res (plan_all_gather (flat_bytes t) 0 (Some l) (internal P) capturing) (\<lambda>inner.
    if pl_backend inner \<noteq> Sircl then Inl (PlanError ''the byte gather is not carried by the session'' [])
    else bind_res (exec_all_gather s inner [nbytes t] 0 1 xs junk) (\<lambda>gathered.
      let n = nat (nbytes t) in Inr (map (\<lambda>w. slice (w * n) n gathered) [0..<length xs])))"

definition exec_broadcast ::
  "'c Session \<Rightarrow> Plan \<Rightarrow> TensorMeta \<Rightarrow> nat \<Rightarrow> nat \<Rightarrow> SessionLimits \<Rightarrow> Policy \<Rightarrow> bool \<Rightarrow> 'c list list \<Rightarrow> 'c list \<Rightarrow> py_error + 'c list" where
  "exec_broadcast s p t src rank l P capturing xs junk =
    (if pl_method p = ''empty'' then Inr (xs ! rank)
     else bind_res (gather_all_bytes s t l P capturing xs junk) (\<lambda>rows. Inr (rows ! src)))"

text \<open>\<open>torch.cat\<close> of the ranks' parts along a dimension.\<close>

definition cat_along :: "nat \<Rightarrow> nat \<Rightarrow> 'c list list \<Rightarrow> 'c list" where
  "cat_along outer row parts = concat (map (\<lambda>r. concat (map (slice (r * row) row) parts)) [0..<outer])"

definition exec_gather ::
  "'c Session \<Rightarrow> Plan \<Rightarrow> TensorMeta \<Rightarrow> int \<Rightarrow> nat \<Rightarrow> nat \<Rightarrow> SessionLimits \<Rightarrow> Policy \<Rightarrow> bool \<Rightarrow> 'c list list \<Rightarrow> 'c list \<Rightarrow>
    py_error + 'c list option" where
  "exec_gather s p t axis dst rank l P capturing xs junk =
    (if pl_method p = ''empty'' then Inr (if rank = dst then Some [] else None)
     else bind_res (gather_all_bytes s t l P capturing xs junk) (\<lambda>rows.
       let d = axis_of axis (tm_shape t) in
       Inr (if rank \<noteq> dst then None
         else Some (cat_along (rows_before (tm_shape t) d) (row_elems (tm_shape t) d * nat (tm_itemsize t)) rows))))"

section \<open>All-to-all\<close>

definition exchange_writes :: "'c Session \<Rightarrow> nat \<Rightarrow> nat \<Rightarrow> nat \<Rightarrow> 'c list list \<Rightarrow> (nat \<times> 'c list) list" where
  "exchange_writes s rank step block xs = concat (map (\<lambda>(off, n).
     map (\<lambda>(w, part). (off + w * block, part)) (List.enumerate 0 (se_exchange s rank n block (map (drop off) xs)))) (ranges block step))"

definition exec_all_to_all ::
  "'c Session \<Rightarrow> Plan \<Rightarrow> TensorMeta \<Rightarrow> nat \<Rightarrow> SessionLimits \<Rightarrow> Policy \<Rightarrow> bool \<Rightarrow> 'c list list \<Rightarrow> 'c list \<Rightarrow> 'c list \<Rightarrow> py_error + 'c list" where
  "exec_all_to_all s p t rank l P capturing xs junk gathered_junk =
    (let method = pl_method p; world = nat (li_world l) in
     if method = ''empty'' then Inr junk
     else if method = ''scatter''
     then (let block = nat (nbytes t) div world in
       if pl_ops p = 1 then Inr (concat (se_exchange s rank block block xs))
       else bind_res (scatter_op_bytes l) (\<lambda>op_bytes.
         let step = nat (max PACK_BYTES (op_bytes div li_world l div PACK_BYTES * PACK_BYTES)) in
         Inr (assemble junk (exchange_writes s rank step block xs))))
     else if method \<noteq> ''gather_pick'' then Inl (PlanError ''unknown all-to-all method'' [])
     else bind_res (gather_all_bytes s t l P capturing xs gathered_junk) (\<lambda>rows.
       let per = nat (nbytes t) div world in Inr (concat (map (slice (rank * per) per) rows))))"

end
