(* ===== verification/ExecutorFacts.thy ===== *)
theory ExecutorFacts
  imports Executor PlanFits
begin

text \<open>
  Executing a plan gives the collective's result: whatever plan the planner makes for a call the session carries, the executor
  returns the concatenation, the sum, the rank's block or the exchange, as one operation of the whole message would.
\<close>

section \<open>Slices\<close>

lemma length_slice [simp]: "off + n \<le> length x \<Longrightarrow> length (slice off n x) = n"
  by (simp add: slice_def)

lemma nth_slice [simp]: "off + n \<le> length x \<Longrightarrow> i < n \<Longrightarrow> slice off n x ! i = x ! (off + i)"
  by (simp add: slice_def)

lemma slice_slice: "a + b \<le> d \<Longrightarrow> slice a b (slice c d x) = slice (c + a) b x"
  by (simp add: slice_def take_drop drop_drop min_def add.commute)

lemma slice_all [simp]: "slice 0 (length x) x = x"
  by (simp add: slice_def)

lemma slice_drop [simp]: "slice a n (drop b x) = slice (b + a) n x"
  by (simp add: slice_def add.commute)

lemma slice_map: "slice a n (map f x) = map f (slice a n x)"
  by (simp add: slice_def take_map drop_map)

text \<open>A list of blocks of one length.\<close>

definition blocks :: "nat \<Rightarrow> (nat \<Rightarrow> 'c list) \<Rightarrow> 'c list" where
  "blocks n f = concat (map f [0..<n])"

lemma length_blocks: "(\<And>i. i < n \<Longrightarrow> length (f i) = k) \<Longrightarrow> length (blocks n f) = n * k"
  by (induction n) (simp_all add: blocks_def)

lemma blocks_Suc: "blocks (Suc n) f = blocks n f @ f n"
  by (simp add: blocks_def)

lemma slice_block:
  assumes "\<And>i. i < n \<Longrightarrow> length (f i) = k" "i < n"
  shows "slice (i * k) k (blocks n f) = f i"
  using assms
proof (induction n)
  case (Suc n)
  have l: "length (blocks n f) = n * k" using Suc.prems(1) by (intro length_blocks) simp
  show ?case
  proof (cases "i = n")
    case True
    then show ?thesis using l Suc.prems by (simp add: blocks_Suc slice_def)
  next
    case False
    then have i: "i < n" using Suc.prems(2) by simp
    then have "Suc i * k \<le> n * k" by (intro mult_le_mono1) simp
    then have "i * k + k \<le> length (blocks n f)" using l by simp
    then have "slice (i * k) k (blocks (Suc n) f) = slice (i * k) k (blocks n f)"
      by (simp add: blocks_Suc slice_def)
    then show ?thesis using Suc.IH [OF _ i] Suc.prems(1) by simp
  qed
qed simp

lemma slice_in_block:
  assumes "\<And>i. i < n \<Longrightarrow> length (f i) = k" "i < n" "a + b \<le> k"
  shows "slice (i * k + a) b (blocks n f) = slice a b (f i)"
  using slice_slice [OF assms(3), of "i * k" "blocks n f"] slice_block [OF assms(1,2)] by simp

lemma slice_blocks:
  assumes "\<And>i. i < n \<Longrightarrow> length (f i) = k" "i + m \<le> n"
  shows "slice (i * k) (m * k) (blocks n f) = blocks m (\<lambda>j. f (i + j))"
proof (rule nth_equalityI)
  have l: "length (blocks n f) = n * k" by (rule length_blocks) (rule assms(1))
  have "(i + m) * k \<le> n * k" using assms(2) by (rule mult_le_mono1)
  then have fit: "i * k + m * k \<le> length (blocks n f)" using l by (simp add: distrib_right)
  have r: "length (blocks m (\<lambda>j. f (i + j))) = m * k" using assms by (intro length_blocks) simp
  show "length (slice (i * k) (m * k) (blocks n f)) = length (blocks m (\<lambda>j. f (i + j)))" using fit r by simp
  fix c assume "c < length (slice (i * k) (m * k) (blocks n f))"
  then have c: "c < m * k" using fit by simp
  then have k: "0 < k" by (cases k) auto
  define j where "j = c div k"
  have j: "j < m" using c k by (simp add: j_def div_less_iff_less_mult mult.commute)
  have e: "c = j * k + c mod k" "c mod k < k" using k by (simp_all add: j_def)
  have le: "Suc (i + j) * k \<le> n * k" using j assms(2) by (intro mult_le_mono1) simp
  have "slice (i * k) (m * k) (blocks n f) ! c = blocks n f ! ((i + j) * k + c mod k)"
    using fit c e(1) by (simp add: distrib_right add.assoc)
  also have "\<dots> = slice ((i + j) * k) k (blocks n f) ! (c mod k)"
    using le l e(2) by simp
  also have "\<dots> = f (i + j) ! (c mod k)" using slice_block [of n f k "i + j"] j assms by simp
  also have "\<dots> = slice (j * k) k (blocks m (\<lambda>j. f (i + j))) ! (c mod k)"
    using slice_block [of m "\<lambda>j. f (i + j)" k j] assms j by simp
  also have "\<dots> = blocks m (\<lambda>j. f (i + j)) ! c"
  proof -
    have "Suc j * k \<le> m * k" using j by (intro mult_le_mono1) simp
    then show ?thesis using r e by simp
  qed
  finally show "slice (i * k) (m * k) (blocks n f) ! c = blocks m (\<lambda>j. f (i + j)) ! c" .
qed

lemma blocks_cong: "(\<And>i. i < n \<Longrightarrow> f i = g i) \<Longrightarrow> blocks n f = blocks n g"
  unfolding blocks_def by (intro arg_cong [where f = concat] map_cong) auto

lemma concat_map_blocks: "concat (map f xs) = blocks (length xs) (\<lambda>w. f (xs ! w))"
  unfolding blocks_def by (intro arg_cong [where f = concat] nth_equalityI) simp_all

lemma blocks_slices: "length x = n * k \<Longrightarrow> blocks n (\<lambda>i. slice (i * k) k x) = x"
proof (induction n arbitrary: x)
  case (Suc n)
  have "blocks n (\<lambda>i. slice (i * k) k x) = blocks n (\<lambda>i. slice (i * k) k (take (n * k) x))"
  proof (rule blocks_cong)
    fix i assume "i < n"
    then have "Suc i * k \<le> n * k" by (intro mult_le_mono1) simp
    then show "slice (i * k) k x = slice (i * k) k (take (n * k) x)" by (simp add: slice_def drop_take)
  qed
  also have "\<dots> = take (n * k) x" using Suc.prems by (intro Suc.IH) simp
  finally show ?case using Suc.prems by (simp add: blocks_Suc slice_def)
qed (simp add: blocks_def)

section \<open>Writes\<close>

lemma length_write_at: "fst e + length (snd e) \<le> length buf \<Longrightarrow> length (write_at e buf) = length buf"
  by (simp add: write_at_def)

lemma nth_write_at:
  "fst e + length (snd e) \<le> length buf \<Longrightarrow> i < length buf \<Longrightarrow>
    write_at e buf ! i = (if fst e \<le> i \<and> i < fst e + length (snd e) then snd e ! (i - fst e) else buf ! i)"
  by (auto simp: write_at_def nth_append min_def)

definition agrees :: "'c list \<Rightarrow> nat \<times> 'c list \<Rightarrow> bool" where
  "agrees T e \<longleftrightarrow> fst e + length (snd e) \<le> length T \<and> snd e = slice (fst e) (length (snd e)) T"

definition covers :: "nat \<times> 'c list \<Rightarrow> nat \<Rightarrow> bool" where
  "covers e i \<longleftrightarrow> fst e \<le> i \<and> i < fst e + length (snd e)"

text \<open>Writes that agree with a list and cover it make it, in any order and whatever the buffer held.\<close>

lemma writes_make:
  assumes "\<And>e. e \<in> set ws \<Longrightarrow> agrees T e" "length junk = length T"
  shows "length (assemble junk ws) = length T
    \<and> (\<forall>i < length T. assemble junk ws ! i = (if \<exists>e\<in>set ws. covers e i then T ! i else junk ! i))"
  using assms
proof (induction ws arbitrary: junk)
  case Nil
  then show ?case by (simp add: assemble_def)
next
  case (Cons e ws)
  have a: "fst e + length (snd e) \<le> length T" "snd e = slice (fst e) (length (snd e)) T"
    using Cons.prems(1) [of e] by (simp_all add: agrees_def)
  have l: "length (write_at e junk) = length T" using a Cons.prems(2) by (simp add: length_write_at)
  have n: "write_at e junk ! i = (if covers e i then T ! i else junk ! i)" if i: "i < length T" for i
  proof (cases "covers e i")
    case True
    then have c: "fst e \<le> i" "i - fst e < length (snd e)" by (auto simp: covers_def)
    have "snd e ! (i - fst e) = slice (fst e) (length (snd e)) T ! (i - fst e)" by (subst a(2)) (rule refl)
    also have "\<dots> = T ! i" using a(1) c by simp
    finally show ?thesis using nth_write_at [of e junk i] a(1) Cons.prems(2) i True by (simp add: covers_def)
  next
    case False
    then show ?thesis using nth_write_at [of e junk i] a(1) Cons.prems(2) i by (auto simp: covers_def)
  qed
  have "assemble junk (e # ws) = assemble (write_at e junk) ws" by (simp add: assemble_def)
  then show ?case using Cons.IH [OF _ l] Cons.prems(1) n by auto
qed

lemma assemble_is:
  assumes "\<And>e. e \<in> set ws \<Longrightarrow> agrees T e" "length junk = length T" "\<And>i. i < length T \<Longrightarrow> \<exists>e\<in>set ws. covers e i"
  shows "assemble junk ws = T"
  using writes_make [OF assms(1,2)] assms(3) by (intro nth_equalityI) auto

section \<open>Ranges\<close>

lemma ranges_by: "max 1 step = k \<Longrightarrow> ranges m step = map (\<lambda>i. (i * k, min k (m - i * k))) [0..<(m + k - 1) div k]"
  unfolding ranges_def Let_def by (rule ssubst [where s = k]) simp_all

lemma ranges_in:
  assumes "(off, n) \<in> set (ranges m step)"
  shows "0 < n \<and> off + n \<le> m \<and> n \<le> max 1 step \<and> max 1 step dvd off"
proof -
  define k where "k = max 1 step"
  have k: "0 < k" by (simp add: k_def)
  obtain i where i: "i < (m + k - 1) div k" "off = i * k" "n = min k (m - i * k)"
    using assms unfolding ranges_by [OF k_def [symmetric]] by auto
  have "Suc i * k \<le> (m + k - 1) div k * k" using i(1) by (intro mult_le_mono1) simp
  also have "\<dots> \<le> m + k - 1" by simp
  finally have "i * k < m" using k by simp
  then show ?thesis using i k unfolding k_def [symmetric] by auto
qed

lemma ranges_cover:
  assumes "i < m"
  shows "\<exists>(off, n)\<in>set (ranges m step). off \<le> i \<and> i < off + n"
proof -
  define k where "k = max 1 step"
  have k: "0 < k" by (simp add: k_def)
  define j where "j = i div k"
  have e: "i = j * k + i mod k" "i mod k < k" using k by (simp_all add: j_def)
  then have "Suc j * k \<le> m + k - 1" using assms k by simp
  then have "j < (m + k - 1) div k" using k by (simp add: less_eq_div_iff_mult_less_eq Suc_le_eq [symmetric])
  then have "(j * k, min k (m - j * k)) \<in> set (ranges m step)" unfolding ranges_by [OF k_def [symmetric]] by auto
  moreover have "j * k \<le> i" "i < j * k + min k (m - j * k)" using e assms by linarith+
  ultimately show ?thesis by blast
qed

section \<open>What the session promises of a gather\<close>

text \<open>
  A gather within the session's limit is the concatenation of every rank's rows; a cell stands for \<open>weight\<close> bytes.  The session's
  own large gather has no limit.
\<close>

definition gather_contract :: "'c Session \<Rightarrow> nat \<Rightarrow> int \<Rightarrow> bool" where
  "gather_contract s weight limit \<longleftrightarrow>
    (\<forall>rows row xs. (\<forall>x\<in>set xs. length x = rows * row) \<longrightarrow> int (weight * (rows * row)) \<le> limit
      \<longrightarrow> se_gather s rows row xs = cat_along rows row xs)
    \<and> (\<forall>f. se_gather_large s = Some f \<longrightarrow> (\<forall>rows row xs. (\<forall>x\<in>set xs. length x = rows * row) \<longrightarrow> f rows row xs = cat_along rows row xs))"

lemma cat_along_blocks: "cat_along outer row xs = blocks outer (\<lambda>r. blocks (length xs) (\<lambda>w. slice (r * row) row (xs ! w)))"
  by (simp only: cat_along_def concat_map_blocks [where xs = xs] blocks_def [where n = outer])

lemma row_inside: "length x = outer * row \<Longrightarrow> r < outer \<Longrightarrow> r * row + row \<le> length (x :: 'c list)"
proof -
  assume "length x = outer * row" "r < outer"
  then have "Suc r * row \<le> outer * row" by (intro mult_le_mono1) simp
  then show ?thesis using \<open>length x = outer * row\<close> by simp
qed

lemma piece_length: "(\<And>x. x \<in> set xs \<Longrightarrow> length x = outer * row) \<Longrightarrow> r < outer \<Longrightarrow> w < length xs \<Longrightarrow> length (slice (r * row) row (xs ! w)) = row"
  using row_inside by (metis length_slice nth_mem)

lemma gathered_row_length:
  "(\<And>x. x \<in> set xs \<Longrightarrow> length x = outer * row) \<Longrightarrow> r < outer \<Longrightarrow> length (blocks (length xs) (\<lambda>w. slice (r * row) row (xs ! w))) = length xs * row"
  by (intro length_blocks piece_length)

lemma length_cat_along: "(\<And>x. x \<in> set xs \<Longrightarrow> length x = outer * row) \<Longrightarrow> length (cat_along outer row xs) = outer * (length xs * row)"
  unfolding cat_along_blocks by (rule length_blocks) (rule gathered_row_length)

lemma cat_slice:
  assumes sized: "\<And>x. x \<in> set xs \<Longrightarrow> length x = outer * row" and "r < outer" "w < length xs" "off + n \<le> row"
  shows "slice (r * (length xs * row) + (w * row + off)) n (cat_along outer row xs) = slice (r * row + off) n (xs ! w)"
proof -
  have "Suc w * row \<le> length xs * row" using assms(3) by (intro mult_le_mono1) simp
  then have fit: "w * row + off + n \<le> length xs * row" using assms(4) by simp
  have "slice (r * (length xs * row) + (w * row + off)) n (cat_along outer row xs)
      = slice (w * row + off) n (blocks (length xs) (\<lambda>w. slice (r * row) row (xs ! w)))"
    unfolding cat_along_blocks using assms(2) fit by (intro slice_in_block gathered_row_length [OF sized])
  also have "\<dots> = slice off n (slice (r * row) row (xs ! w))"
    using assms(2-4) piece_length [OF sized] by (intro slice_in_block) auto
  also have "\<dots> = slice (r * row + off) n (xs ! w)" using assms(4) by (rule slice_slice)
  finally show ?thesis .
qed

lemma cat_rows:
  assumes sized: "\<And>x. x \<in> set xs \<Longrightarrow> length x = outer * row" and "off + n \<le> outer"
  shows "slice (off * (length xs * row)) (n * (length xs * row)) (cat_along outer row xs)
    = cat_along n row (map (slice (off * row) (n * row)) xs)"
proof -
  have "slice (off * (length xs * row)) (n * (length xs * row)) (cat_along outer row xs)
      = blocks n (\<lambda>r. blocks (length xs) (\<lambda>w. slice ((off + r) * row) row (xs ! w)))"
    unfolding cat_along_blocks using assms(2) by (intro slice_blocks gathered_row_length [OF sized])
  also have "\<dots> = blocks n (\<lambda>r. blocks (length xs) (\<lambda>w. slice (r * row) row (map (slice (off * row) (n * row)) xs ! w)))"
  proof (intro blocks_cong)
    fix r w assume r: "r < n" and w: "w < length xs"
    have "Suc r * row \<le> n * row" using r by (intro mult_le_mono1) simp
    then have "slice (r * row) row (slice (off * row) (n * row) (xs ! w)) = slice (off * row + r * row) row (xs ! w)"
      by (intro slice_slice) simp
    then show "slice ((off + r) * row) row (xs ! w) = slice (r * row) row (map (slice (off * row) (n * row)) xs ! w)"
      using w by (simp add: distrib_right)
  qed
  finally show ?thesis by (simp add: cat_along_blocks)
qed

text \<open>The cell \<open>i\<close> of a gathered matrix is a column of a rank's part of a row.\<close>

lemma cell_place:
  assumes "\<And>x. x \<in> set xs \<Longrightarrow> length x = outer * row" and "i < outer * (length xs * row)"
  obtains r w c where "r < outer" "w < length xs" "c < row" "i = r * (length xs * row) + (w * row + c)"
proof -
  let ?n = "length xs * row"
  have n: "0 < ?n" using assms(2) by (cases "?n = 0") auto
  then have row: "0 < row" by simp
  let ?r = "i div ?n" and ?j = "i mod ?n"
  have "?r < outer" using assms(2) n by (simp add: div_less_iff_less_mult)
  moreover have j: "?j < ?n" using n by simp
  then have "?j div row < length xs" using row by (simp add: div_less_iff_less_mult)
  moreover have "?j mod row < row" using row by simp
  moreover have "i = ?r * ?n + (?j div row * row + ?j mod row)" by (simp only: div_mult_mod_eq)
  ultimately show ?thesis by (rule that)
qed

lemma one_row: "(\<And>x. x \<in> set xs \<Longrightarrow> length x = n) \<Longrightarrow> cat_along 1 n xs = blocks (length xs) (\<lambda>w. xs ! w)"
  unfolding cat_along_blocks by (simp add: blocks_def) (intro arg_cong [where f = concat] map_cong, auto simp: slice_def)

section \<open>All-gather\<close>

lemma rows_writes:
  assumes "gather_contract s weight limit" "\<And>x. x \<in> set xs \<Longrightarrow> length x = outer * row"
    and "\<And>n. n \<le> max 1 piece \<Longrightarrow> n \<le> outer \<Longrightarrow> int (weight * (n * row)) \<le> limit"
    and e: "e \<in> set (map (\<lambda>(off, n). (off * (length xs * row), se_gather s n row (map (slice (off * row) (n * row)) xs))) (ranges outer piece))"
  shows "agrees (cat_along outer row xs) e"
proof -
  obtain off n where r: "(off, n) \<in> set (ranges outer piece)"
    and e: "e = (off * (length xs * row), se_gather s n row (map (slice (off * row) (n * row)) xs))" using e by auto
  note b = ranges_in [OF r]
  have le: "(off + n) * row \<le> outer * row" using b by (intro mult_le_mono1) simp
  have l: "length y = n * row" if "y \<in> set (map (slice (off * row) (n * row)) xs)" for y
    using that assms(2) le by (auto simp: distrib_right)
  have lim: "int (weight * (n * row)) \<le> limit" using b by (intro assms(3)) auto
  have g: "se_gather s n row (map (slice (off * row) (n * row)) xs) = cat_along n row (map (slice (off * row) (n * row)) xs)"
    using assms(1) l lim unfolding gather_contract_def by blast
  have len: "length (cat_along n row (map (slice (off * row) (n * row)) xs)) = n * (length xs * row)"
    using length_cat_along [of "map (slice (off * row) (n * row)) xs" n row, OF l] by simp
  have "(off + n) * (length xs * row) \<le> outer * (length xs * row)" using b by (intro mult_le_mono1) simp
  then have "off * (length xs * row) + n * (length xs * row) \<le> length (cat_along outer row xs)"
    using length_cat_along [OF assms(2)] by (simp add: distrib_right)
  then show ?thesis
    using cat_rows [OF assms(2), where off = off and n = n] b unfolding agrees_def e fst_conv snd_conv g len by simp
qed

lemma rows_cover:
  assumes "gather_contract s weight limit" "\<And>x. x \<in> set xs \<Longrightarrow> length x = outer * row"
    and "\<And>n. n \<le> max 1 piece \<Longrightarrow> n \<le> outer \<Longrightarrow> int (weight * (n * row)) \<le> limit" "i < outer * (length xs * row)"
  shows "\<exists>e\<in>set (map (\<lambda>(off, n). (off * (length xs * row), se_gather s n row (map (slice (off * row) (n * row)) xs))) (ranges outer piece)).
    covers e i"
proof -
  obtain r w c where p: "r < outer" "w < length xs" "c < row" "i = r * (length xs * row) + (w * row + c)"
    using cell_place [OF assms(2,4)] by blast
  obtain off n where o: "(off, n) \<in> set (ranges outer piece)" "off \<le> r" "r < off + n" using ranges_cover [OF p(1)] by blast
  note b = ranges_in [OF o(1)]
  let ?e = "(off * (length xs * row), se_gather s n row (map (slice (off * row) (n * row)) xs))"
  have le: "(off + n) * row \<le> outer * row" using b by (intro mult_le_mono1) simp
  have l: "length y = n * row" if "y \<in> set (map (slice (off * row) (n * row)) xs)" for y
    using that assms(2) le by (auto simp: distrib_right)
  have "int (weight * (n * row)) \<le> limit" using b by (intro assms(3)) auto
  then have "se_gather s n row (map (slice (off * row) (n * row)) xs) = cat_along n row (map (slice (off * row) (n * row)) xs)"
    using assms(1) l unfolding gather_contract_def by blast
  then have len: "length (snd ?e) = n * (length xs * row)" using length_cat_along [of "map (slice (off * row) (n * row)) xs" n row, OF l] by simp
  have "Suc w * row \<le> length xs * row" using p(2) by (intro mult_le_mono1) simp
  then have c: "w * row + c < length xs * row" using p(3) by simp
  have "off * (length xs * row) \<le> r * (length xs * row)" "Suc r * (length xs * row) \<le> (off + n) * (length xs * row)"
    using o(2,3) by (intro mult_le_mono1, simp)+
  then have "off * (length xs * row) \<le> i" "i < off * (length xs * row) + n * (length xs * row)"
    using c p(4) by (simp_all only: distrib_right mult_Suc)
  then have "covers ?e i" unfolding covers_def len fst_conv by blast
  then show ?thesis using o(1) by force
qed


text \<open>Tiles: \<open>inner\<close> units of \<open>u\<close> cells in every row, some units of every rank's row in one op.\<close>

definition tiles_of :: "'c Session \<Rightarrow> nat \<Rightarrow> nat \<Rightarrow> nat \<Rightarrow> nat \<Rightarrow> 'c list list \<Rightarrow> (nat \<times> 'c list) list" where
  "tiles_of s outer inner u piece xs = concat (map (\<lambda>r. concat (map (\<lambda>(off, n).
     tile_writes (length xs) (inner * u) r (off * u) (n * u)
       (se_gather s 1 (n * u) (map (slice (r * (inner * u) + off * u) (n * u)) xs))) (ranges inner piece))) [0..<outer])"

lemma tile_part:
  assumes "gather_contract s weight limit" "\<And>x. x \<in> set xs \<Longrightarrow> length x = outer * (inner * u)"
    and "\<And>n. n \<le> max 1 piece \<Longrightarrow> n \<le> inner \<Longrightarrow> int (weight * (n * u)) \<le> limit"
    and "r < outer" "(off, n) \<in> set (ranges inner piece)" "w < length xs"
  shows "slice (w * (n * u)) (n * u) (se_gather s 1 (n * u) (map (slice (r * (inner * u) + off * u) (n * u)) xs))
      = slice (r * (inner * u) + off * u) (n * u) (xs ! w)"
    and "off * u + n * u \<le> inner * u"
    and "length (slice (r * (inner * u) + off * u) (n * u) (xs ! w)) = n * u"
proof -
  let ?ys = "map (slice (r * (inner * u) + off * u) (n * u)) xs"
  note b = ranges_in [OF assms(5)]
  have "(off + n) * u \<le> inner * u" using b by (intro mult_le_mono1) simp
  then show fit: "off * u + n * u \<le> inner * u" by (simp add: distrib_right)
  have inside: "r * (inner * u) + off * u + n * u \<le> length x" if "x \<in> set xs" for x
    using row_inside [of x outer "inner * u" r] assms(2) [OF that] assms(4) fit by simp
  then have l: "length y = n * u" if "y \<in> set ?ys" for y using that by auto
  then show "length (slice (r * (inner * u) + off * u) (n * u) (xs ! w)) = n * u" using assms(6) by simp
  have "int (weight * (1 * (n * u))) \<le> limit" using assms(3) [of n] b by simp
  then have "se_gather s 1 (n * u) ?ys = cat_along 1 (n * u) ?ys"
    using assms(1) l unfolding gather_contract_def by (metis mult_1)
  also have "\<dots> = blocks (length ?ys) (\<lambda>w. ?ys ! w)" by (rule one_row) (rule l)
  finally have "slice (w * (n * u)) (n * u) (se_gather s 1 (n * u) ?ys) = ?ys ! w"
    using assms(6) l slice_block [of "length ?ys" "\<lambda>w. ?ys ! w" "n * u" w] by simp
  then show "slice (w * (n * u)) (n * u) (se_gather s 1 (n * u) ?ys) = slice (r * (inner * u) + off * u) (n * u) (xs ! w)"
    using assms(6) by simp
qed

lemma tiles_agree:
  assumes "gather_contract s weight limit" "\<And>x. x \<in> set xs \<Longrightarrow> length x = outer * (inner * u)"
    and "\<And>n. n \<le> max 1 piece \<Longrightarrow> n \<le> inner \<Longrightarrow> int (weight * (n * u)) \<le> limit" "e \<in> set (tiles_of s outer inner u piece xs)"
  shows "agrees (cat_along outer (inner * u) xs) e"
proof -
  let ?row = "inner * u"
  obtain r off n w where r: "r < outer" "(off, n) \<in> set (ranges inner piece)" "w < length xs"
    and e: "e = (r * (length xs * ?row) + (w * ?row + off * u),
      slice (w * (n * u)) (n * u) (se_gather s 1 (n * u) (map (slice (r * ?row + off * u) (n * u)) xs)))"
    using assms(4) by (auto simp: tiles_of_def tile_writes_def)
  note t = tile_part [OF assms(1,2,3) r]
  have s: "snd e = slice (r * ?row + off * u) (n * u) (xs ! w)" "length (snd e) = n * u" using t e by simp_all
  have c: "slice (fst e) (n * u) (cat_along outer ?row xs) = slice (r * ?row + off * u) (n * u) (xs ! w)"
    using cat_slice [OF assms(2) r(1,3) t(2)] e by simp
  have "Suc w * ?row \<le> length xs * ?row" "Suc r * (length xs * ?row) \<le> outer * (length xs * ?row)"
    using r by (intro mult_le_mono1, simp)+
  then have "fst e + n * u \<le> length (cat_along outer ?row xs)"
    using t(2) e length_cat_along [of xs outer ?row] assms(2) by simp
  then show ?thesis using s c by (simp add: agrees_def)
qed

lemma tile_covers:
  assumes "gather_contract s weight limit" "\<And>x. x \<in> set xs \<Longrightarrow> length x = outer * (inner * u)"
    and "\<And>n. n \<le> max 1 piece \<Longrightarrow> n \<le> inner \<Longrightarrow> int (weight * (n * u)) \<le> limit" "i < outer * (length xs * (inner * u))"
  shows "\<exists>e\<in>set (tiles_of s outer inner u piece xs). covers e i"
proof -
  let ?row = "inner * u"
  obtain r w c where p: "r < outer" "w < length xs" "c < ?row" "i = r * (length xs * ?row) + (w * ?row + c)"
    using cell_place [OF assms(2,4)] by blast
  have u: "0 < u" using p(3) by (cases u) auto
  define k where "k = c div u"
  have cu: "c = k * u + c mod u" "c mod u < u" using u by (simp_all add: k_def)
  have "k < inner" using p(3) u by (simp add: k_def div_less_iff_less_mult)
  from ranges_cover [OF this] obtain off n where o: "(off, n) \<in> set (ranges inner piece)" "off \<le> k" "k < off + n" by blast
  note t = tile_part [OF assms(1,2,3) p(1) o(1) p(2)]
  let ?e = "(r * (length xs * ?row) + (w * ?row + off * u),
      slice (w * (n * u)) (n * u) (se_gather s 1 (n * u) (map (slice (r * ?row + off * u) (n * u)) xs)))"
  have l: "length (snd ?e) = n * u" using t by simp
  have "off * u \<le> k * u" "Suc k * u \<le> (off + n) * u" using o(2,3) by (intro mult_le_mono1, simp)+
  then have m: "off * u \<le> k * u" "u + k * u \<le> off * u + n * u" by (simp_all only: distrib_right mult_Suc)
  then have "off * u \<le> c" "c < off * u + n * u" using cu by linarith+
  then have "covers ?e i" unfolding covers_def l fst_conv p(4) by linarith
  moreover have "?e \<in> set (tiles_of s outer inner u piece xs)"
    unfolding tiles_of_def tile_writes_def using p(1,2) o(1) by force
  ultimately show ?thesis by blast
qed

text \<open>Every way of gathering makes the concatenation.\<close>

definition gather_fits :: "string \<Rightarrow> nat \<Rightarrow> nat \<Rightarrow> nat \<Rightarrow> nat \<Rightarrow> nat \<Rightarrow> int \<Rightarrow> bool" where
  "gather_fits method outer inner u piece weight limit \<longleftrightarrow>
    (if method = ''direct'' then int (weight * (outer * (inner * u))) \<le> limit
     else if method = ''rows'' then (\<forall>n. n \<le> max 1 piece \<longrightarrow> n \<le> outer \<longrightarrow> int (weight * (n * (inner * u))) \<le> limit)
     else method = ''tiles'' \<and> (\<forall>n. n \<le> max 1 piece \<longrightarrow> n \<le> inner \<longrightarrow> int (weight * (n * u)) \<le> limit))"

lemma gather_writes_make:
  assumes "gather_contract s weight limit" "\<And>x. x \<in> set xs \<Longrightarrow> length x = outer * (inner * u)"
    and "gather_fits method outer inner u piece weight limit" "length junk = outer * (length xs * (inner * u))"
  shows "\<exists>ws. gather_writes s method outer inner u piece xs = Inr ws \<and> assemble junk ws = cat_along outer (inner * u) xs"
proof -
  let ?T = "cat_along outer (inner * u) xs"
  have l: "length ?T = outer * (length xs * (inner * u))" using length_cat_along [OF assms(2)] .
  consider "method = ''direct''" | "method = ''rows''" | "method = ''tiles''"
    using assms(3) unfolding gather_fits_def by metis
  then show ?thesis
  proof cases
    case 1
    then have "se_gather s outer (inner * u) xs = ?T"
      using assms(1-3) by (simp add: gather_contract_def gather_fits_def)
    then show ?thesis using 1 l assms(4) by (simp add: gather_writes_def assemble_def write_at_def Let_def)
  next
    case 2
    then have fit: "n \<le> max 1 piece \<Longrightarrow> n \<le> outer \<Longrightarrow> int (weight * (n * (inner * u))) \<le> limit" for n
      using assms(3) by (simp add: gather_fits_def)
    let ?ws = "map (\<lambda>(off, n). (off * (length xs * (inner * u)), se_gather s n (inner * u) (map (slice (off * (inner * u)) (n * (inner * u))) xs)))
      (ranges outer piece)"
    have "gather_writes s method outer inner u piece xs = Inr ?ws" using 2 by (simp add: gather_writes_def Let_def)
    moreover have "assemble junk ?ws = ?T"
    proof (rule assemble_is)
      show "agrees ?T e" if "e \<in> set ?ws" for e using rows_writes [OF assms(1,2) fit that] .
      show "\<exists>e\<in>set ?ws. covers e i" if "i < length ?T" for i
        by (rule rows_cover [OF assms(1,2) fit]) (use that l in simp_all)
    qed (simp add: l assms(4))
    ultimately show ?thesis by blast
  next
    case 3
    then have fit: "n \<le> max 1 piece \<Longrightarrow> n \<le> inner \<Longrightarrow> int (weight * (n * u)) \<le> limit" for n
      using assms(3) by (simp add: gather_fits_def)
    have "gather_writes s method outer inner u piece xs = Inr (tiles_of s outer inner u piece xs)"
      using 3 by (simp add: gather_writes_def tiles_of_def Let_def)
    moreover have "assemble junk (tiles_of s outer inner u piece xs) = ?T"
      using tiles_agree [OF assms(1,2) fit] tile_covers [OF assms(1,2) fit] l assms(4) by (intro assemble_is) simp_all
    ultimately show ?thesis by blast
  qed
qed

section \<open>The planner's gathers\<close>

definition gather_prefix :: "bool \<Rightarrow> string" where
  "gather_prefix by_bytes = (if by_bytes then ''bytes_'' else [])"

lemma exec_gather_method:
  assumes "pl_method p = gather_prefix by_bytes @ m" "m \<in> {''direct'', ''rows'', ''tiles''}"
  shows "exec_all_gather s p shape axis item xs junk =
    (let d = axis_of axis shape; outer = rows_before shape d; inner = row_elems shape d in
     if m \<noteq> ''direct'' \<and> se_gather_large s \<noteq> None then Inr (the (se_gather_large s) outer (inner * item) xs)
     else bind_res (gather_writes s m outer (if by_bytes then inner * item else inner) (if by_bytes then 1 else item) (nat (pl_piece p)) xs)
       (\<lambda>ws. Inr (assemble junk ws)))"
  using assms by (cases by_bytes) (auto simp: exec_all_gather_def gather_prefix_def ends_with_def Let_def)

lemma exec_gather_native:
  assumes "pl_method p = gather_prefix by_bytes @ ''large''" "se_gather_large s = Some f"
  shows "exec_all_gather s p shape axis item xs junk = Inr (f (rows_before shape (axis_of axis shape)) (row_elems shape (axis_of axis shape) * item) xs)"
  using assms by (cases by_bytes) (auto simp: exec_all_gather_def gather_prefix_def ends_with_def Let_def)

text \<open>A session serves the limits it reports: its gathers are the concatenation, and it has the large gather whose piece it reports.\<close>

definition serves_gathers :: "'c Session \<Rightarrow> nat \<Rightarrow> SessionLimits \<Rightarrow> bool" where
  "serves_gathers s weight l \<longleftrightarrow> gather_contract s weight (gather_op_bytes l)
    \<and> (truthy (li_gather_piece l) \<noteq> None \<longrightarrow> se_gather_large s \<noteq> None)"

definition gathered :: "int list \<Rightarrow> int \<Rightarrow> nat \<Rightarrow> 'c list list \<Rightarrow> 'c list" where
  "gathered shape axis item xs = cat_along (rows_before shape (axis_of axis shape)) (row_elems shape (axis_of axis shape) * item) xs"

lemma exec_planned_gather:
  assumes plan: "plan_all_gather t axis (Some l) P k = Inr p" "pl_backend p = Sircl" and t: "tensor_ok t"
    and s: "serves_gathers s weight l" "item * weight = nat (tm_itemsize t)" "tm_itemsize t \<le> gather_op_bytes l"
    and x: "\<And>x. x \<in> set xs \<Longrightarrow> length x = nat (numel t) * item" and j: "length junk = length xs * (nat (numel t) * item)"
  shows "exec_all_gather s p (tm_shape t) axis item xs junk = Inr (gathered (tm_shape t) axis item xs)"
proof (cases "nbytes t = 0")
  case True
  have "numel t = 0" using True t by (simp add: nbytes_def tensor_ok_def)
  then have n: "rows_before (tm_shape t) d = 0 \<or> row_elems (tm_shape t) d = 0" for d
    unfolding rows_before_def row_elems_def numel_def by (metis append_take_drop_id mult_eq_0_iff nat_0 prod_list.append)
  have "pl_method p = ''empty''" using plan True t by (auto simp: plan_all_gather_def by_sircl_def tensor_ok_def)
  moreover have "gathered (tm_shape t) axis item xs = []"
    using n [of "axis_of axis (tm_shape t)"] by (auto simp: gathered_def cat_along_def slice_def)
  ultimately show ?thesis by (simp add: exec_all_gather_def Let_def)
next
  case False
  let ?d = "axis_of axis (tm_shape t)"
  obtain outer inner z where v: "shard_view t axis = (outer, inner, z)" by (cases "shard_view t axis")
  have z: "z = tm_itemsize t" and o: "rows_before (tm_shape t) ?d = nat outer" and i: "row_elems (tm_shape t) ?d = nat inner"
    using v by (auto simp: shard_view_def Let_def rows_before_def row_elems_def)
  have pos: "0 < outer" "0 < inner" "0 < z" "0 < nbytes t" using view_pos [OF t False v] by simp_all
  have nb: "nbytes t = outer * (inner * z)" using nbytes_view [OF v] .
  then have ne: "numel t = outer * inner" using pos z by (simp add: nbytes_def mult.assoc [symmetric])
  have w: "int (item * weight) = z" using s(2) pos z by simp
  have xl: "length x = nat outer * (nat inner * item)" if "x \<in> set xs" for x
    using x [OF that] ne pos by (simp add: nat_mult_distrib)
  have jl: "length junk = nat outer * (length xs * (nat inner * item))" using j ne pos by (simp add: nat_mult_distrib)
  have out: "gathered (tm_shape t) axis item xs = cat_along (nat outer) (nat inner * item) xs" by (simp add: gathered_def o i)
  have gc: "gather_contract s weight (gather_op_bytes l)" using s(1) by (simp add: serves_gathers_def)
  have native: "f (nat outer) (nat inner * item) xs = cat_along (nat outer) (nat inner * item) xs" if "se_gather_large s = Some f" for f
    using gc that xl unfolding gather_contract_def by blast
  have fits: "exec_all_gather s p (tm_shape t) axis item xs junk = Inr (gathered (tm_shape t) axis item xs)"
    if m: "pl_method p = gather_prefix by_bytes @ m" "m \<in> {''direct'', ''rows'', ''tiles''}"
      and f: "gather_fits m (nat outer) (if by_bytes then nat inner * item else nat inner) (if by_bytes then 1 else item)
        (nat (pl_piece p)) weight (gather_op_bytes l)" for by_bytes m
  proof (cases "m \<noteq> ''direct'' \<and> se_gather_large s \<noteq> None")
    case True
    then show ?thesis using native unfolding exec_gather_method [OF m] Let_def o i out by auto
  next
    case False
    let ?inner = "if by_bytes then nat inner * item else nat inner" and ?u = "if by_bytes then 1 else item"
    have r: "?inner * ?u = nat inner * item" by simp
    obtain ws where "gather_writes s m (nat outer) ?inner ?u (nat (pl_piece p)) xs = Inr ws"
      "assemble junk ws = cat_along (nat outer) (?inner * ?u) xs"
      using gather_writes_make [OF gc _ f, of xs junk] xl jl unfolding r by blast
    then show ?thesis unfolding exec_gather_method [OF m] Let_def o i out r if_not_P [OF False] by simp
  qed
  consider (whole) by_bytes where "pl_method p = gather_prefix by_bytes @ ''direct''" "nbytes t \<le> gather_op_bytes l"
    | (large) by_bytes where "pl_method p = gather_prefix by_bytes @ ''large''" "truthy (li_gather_piece l) \<noteq> None"
    | (rows) by_bytes where "pl_method p = gather_prefix by_bytes @ ''rows''" "inner * z \<le> gather_op_bytes l"
        "pl_piece p = gather_op_bytes l div (inner * z)"
    | (tiles) by_bytes where "pl_method p = gather_prefix by_bytes @ ''tiles''" "pl_piece p = max 1 (gather_op_bytes l div z)"
  proof -
    have pre: "(if tm_dtype t \<in> set BYTE_VIEW_DTYPES then ''bytes_'' else []) = gather_prefix (tm_dtype t \<in> set BYTE_VIEW_DTYPES)"
      by (simp add: gather_prefix_def)
    from gather_session_cases [OF plan t False]
    show ?thesis
    proof (elim disjE conjE)
      assume "split_gather t axis l = Inr p"
      then show ?thesis
        using that(2-4) unfolding split_gather_def Let_def v prod.case pre
        by (auto simp: bind_res_Inr split: option.splits if_splits)
    qed (use that(1) pre in simp)
  qed
  then show ?thesis
  proof cases
    case (whole by_bytes)
    have "int (weight * (nat outer * (nat inner * item))) = outer * (inner * int (item * weight))"
      using pos by (simp add: mult.left_commute mult.commute [of "int weight"])
    then have "int (weight * (nat outer * (nat inner * item))) \<le> gather_op_bytes l" using whole(2) nb w by (simp only:)
    then show ?thesis using whole(1) by (intro fits [of by_bytes "''direct''"]) (simp_all add: gather_fits_def del: of_nat_mult)
  next
    case (large by_bytes)
    then obtain f where f: "se_gather_large s = Some f" using s(1) by (auto simp: serves_gathers_def)
    show ?thesis unfolding exec_gather_native [OF large(1) f] o i native [OF f] out ..
  next
    case (rows by_bytes)
    let ?p = "gather_op_bytes l div (inner * z)"
    have iz: "0 < inner * z" using pos by simp
    then have "0 < ?p" using rows(2) by (simp add: pos_imp_zdiv_pos_iff)
    then have m: "max 1 (nat (pl_piece p)) = nat ?p" using rows(3) by simp
    have "int (weight * (n * (nat inner * item))) \<le> gather_op_bytes l" if n: "n \<le> nat ?p" for n
    proof -
      have "int n * (inner * z) \<le> ?p * (inner * z)" using n \<open>0 < ?p\<close> iz by (intro mult_right_mono) linarith+
      also have "\<dots> \<le> gather_op_bytes l" using div_floor_le [OF iz] .
      finally have "int n * (inner * int (item * weight)) \<le> gather_op_bytes l" using w by simp
      moreover have "int (weight * (n * (nat inner * item))) = int n * (inner * int (item * weight))"
        using pos by (simp add: mult.left_commute mult.commute [of "int weight"])
      ultimately show ?thesis by (simp only:)
    qed
    then show ?thesis using rows(1) m by (intro fits [of by_bytes "''rows''"]) (simp_all add: gather_fits_def)
  next
    case (tiles by_bytes)
    let ?p = "gather_op_bytes l div z"
    have "0 < ?p" using s(3) pos z by (simp add: pos_imp_zdiv_pos_iff)
    then have m: "max 1 (nat (pl_piece p)) = nat ?p" using tiles(2) by simp
    have "int (weight * (n * c)) \<le> gather_op_bytes l" if n: "n \<le> nat ?p" and c: "c \<le> item" for n c
    proof -
      have "int n * z \<le> ?p * z" using n \<open>0 < ?p\<close> pos by (intro mult_right_mono) linarith+
      also have "\<dots> \<le> gather_op_bytes l" using div_floor_le [OF pos(3)] .
      finally have "int n * int (item * weight) \<le> gather_op_bytes l" using w by simp
      moreover have "weight * (n * c) \<le> n * (item * weight)" using c by (simp add: mult.commute mult.left_commute)
      then have "int (weight * (n * c)) \<le> int n * int (item * weight)" by (metis of_nat_le_iff of_nat_mult)
      ultimately show ?thesis by linarith
    qed
    moreover have "0 < item" using w pos by (cases item) auto
    ultimately show ?thesis using tiles(1) m by (intro fits [of by_bytes "''tiles''"]) (simp_all add: gather_fits_def)
  qed
qed

text \<open>The staged gather of whole shards along dimension 0 ends in the same bytes.\<close>

lemma columns_gathered:
  assumes "gather_contract s weight limit" "se_gather_large s = Some f" "tensor_ok t" "numel t \<noteq> 0"
    and x: "\<And>x. x \<in> set xs \<Longrightarrow> length x = nat (numel t) * item"
  shows "gather_columns s (tm_shape t) axis item xs = Inr (gathered (tm_shape t) axis item xs)"
proof -
  let ?d = "axis_of axis (tm_shape t)"
  define outer where "outer = rows_before (tm_shape t) ?d"
  define row where "row = row_elems (tm_shape t) ?d * item"
  have "list_all (\<lambda>n. 0 \<le> n) (take ?d (tm_shape t))" "list_all (\<lambda>n. 0 \<le> n) (drop ?d (tm_shape t))"
    using assms(3) by (auto simp: tensor_ok_def list_all_iff dest: in_set_takeD in_set_dropD)
  moreover have n: "numel t = prod_list (take ?d (tm_shape t)) * prod_list (drop ?d (tm_shape t))"
    unfolding numel_def by (metis append_take_drop_id prod_list.append)
  ultimately have p: "0 < prod_list (take ?d (tm_shape t))" "0 < prod_list (drop ?d (tm_shape t))"
    using assms(4) prod_list_pos by auto
  have whole: "nat (numel t) * item = outer * row"
    using n p by (simp add: outer_def row_def rows_before_def row_elems_def nat_mult_distrib)
  have "0 < outer" using p by (simp add: outer_def rows_before_def)
  then have row_is: "nat (prod_list (tm_shape t)) * item div outer = row" using whole by (simp add: numel_def)
  have l: "length y = outer * row" if "y \<in> set xs" for y using x [OF that] whole by simp
  have "f 1 (outer * row) xs = cat_along 1 (outer * row) xs" using assms(1,2) l unfolding gather_contract_def by (metis mult_1)
  then have staged: "f 1 (outer * row) xs = blocks (length xs) (\<lambda>w. xs ! w)" using one_row [OF l] by simp
  have "interleave_rows (blocks (length xs) (\<lambda>w. xs ! w)) (length xs) outer row = cat_along outer row xs"
  proof -
    have "slice (w * (outer * row) + r * row) row (blocks (length xs) (\<lambda>w. xs ! w)) = slice (r * row) row (xs ! w)"
      if "r < outer" "w < length xs" for r w
    proof (rule slice_in_block)
      show "length (xs ! i) = outer * row" if "i < length xs" for i using l that by simp
      have "Suc r * row \<le> outer * row" using that(1) by (intro mult_le_mono1) simp
      then show "r * row + row \<le> outer * row" by simp
    qed (rule that(2))
    then show ?thesis
      unfolding cat_along_blocks interleave_rows_def blocks_def [symmetric] by (intro blocks_cong) blast
  qed
  then show ?thesis
    using assms(2) whole row_is staged
    by (simp add: gather_columns_def gathered_def Let_def numel_def outer_def [symmetric] row_def [symmetric])
qed

text \<open>
  C9: carrying out a planned all-gather delivers it: whatever the planner chose for a shard the session carries, whole, by rows, by
  tiles, as bytes, through the session's large gather or staged as one column gather, the output is every rank's rows side by
  side, whatever the output buffer held.
\<close>

theorem planned_gather_delivers:
  assumes "plan_all_gather t axis (Some l) P capturing = Inr p" "pl_backend p = Sircl" "tensor_ok t"
    and "serves_gathers s 1 l" "tm_itemsize t \<le> gather_op_bytes l"
    and "\<forall>x\<in>set xs. int (length x) = nbytes t" "length junk = length xs * nat (nbytes t)"
  shows "exec_column_gather s p (tm_shape t) axis (nat (tm_itemsize t)) enabled by_ring by_chain xs junk
    = Inr (gathered (tm_shape t) axis (nat (tm_itemsize t)) xs)"
proof -
  have nb: "nat (nbytes t) = nat (numel t) * nat (tm_itemsize t)"
    using assms(3) by (simp add: nbytes_def tensor_ok_def nat_mult_distrib mult.commute)
  have x: "length x = nat (numel t) * nat (tm_itemsize t)" if "x \<in> set xs" for x
    using assms(6) that nb by (metis nat_int)
  have e: "exec_all_gather s p (tm_shape t) axis (nat (tm_itemsize t)) xs junk = Inr (gathered (tm_shape t) axis (nat (tm_itemsize t)) xs)"
    using assms nb by (intro exec_planned_gather [where weight = 1, OF assms(1,2,3,4) _ assms(5) x]) simp_all
  show ?thesis
  proof (cases "if enabled then column_gather_route s p (tm_shape t) axis by_ring by_chain else None")
    case None
    then show ?thesis using e by (cases "pl_method p = ''empty''") (simp_all add: exec_column_gather_def exec_all_gather_def Let_def)
  next
    case (Some r)
    then have "se_gather_large s \<noteq> None" "numel t \<noteq> 0" and m: "pl_method p \<noteq> ''empty''"
      by (auto simp: column_gather_route_def numel_def ends_with_def split: if_splits)
    then obtain f where f: "se_gather_large s = Some f" by blast
    have "gather_contract s 1 (gather_op_bytes l)" using assms(4) by (simp add: serves_gathers_def)
    from columns_gathered [OF this f assms(3) \<open>numel t \<noteq> 0\<close> x, where axis = axis] show ?thesis
      using Some m by (simp add: exec_column_gather_def)
  qed
qed

text \<open>A session that serves every limit: its operations are the collectives themselves.\<close>

definition summed :: "('c list \<Rightarrow> 'c) \<Rightarrow> 'c list list \<Rightarrow> 'c list" where
  "summed red xs = map (\<lambda>i. red (column xs i)) [0..<length (hd xs)]"

definition ideal_session :: "('c list \<Rightarrow> 'c) \<Rightarrow> bool \<Rightarrow> 'c Session" where
  "ideal_session red native = \<lparr>se_gather = cat_along, se_gather_large = (if native then Some cat_along else None),
    se_reduce = summed red, se_reduce_large = (if native then Some (summed red) else None),
    se_scatter = (\<lambda>rank n stride xs. summed red (map (slice (rank * stride) n) xs)),
    se_exchange = (\<lambda>rank n stride xs. map (slice (rank * stride) n) xs)\<rparr>"

lemma ideal_gathers: "native \<or> truthy (li_gather_piece l) = None \<Longrightarrow> serves_gathers (ideal_session red native) weight l"
  by (auto simp: serves_gathers_def gather_contract_def ideal_session_def)

definition four_rows :: TensorMeta where
  "four_rows = \<lparr>tm_shape = [4, 10], tm_dtype = ''float16'', tm_itemsize = 2, tm_contiguous = True\<rparr>"

lemma planned_gather_delivers_witness:
  "\<exists>p. plan_all_gather four_rows 1 (Some small_session) ring_policy True = Inr p \<and> pl_method p = ''rows'' \<and> pl_piece p = 2
    \<and> exec_column_gather (ideal_session hd False) p (tm_shape four_rows) 1 2 True True True [[0..<80], [80..<160]] (replicate 160 0)
      = Inr (gathered [4, 10] 1 2 [[0..<80], [80..<160]])"
proof -
  have "case plan_all_gather four_rows 1 (Some small_session) ring_policy True of Inl _ \<Rightarrow> False
    | Inr p \<Rightarrow> pl_backend p = Sircl \<and> pl_method p = ''rows'' \<and> pl_piece p = 2" by code_simp
  then obtain p where p: "plan_all_gather four_rows 1 (Some small_session) ring_policy True = Inr p"
    "pl_backend p = Sircl" "pl_method p = ''rows''" "pl_piece p = 2" by (auto split: sum.splits)
  have h: "tensor_ok four_rows" "tm_itemsize four_rows \<le> gather_op_bytes small_session" "nbytes four_rows = 80"
    "nat (tm_itemsize four_rows) = 2" "tm_shape four_rows = [4, 10]" "truthy (li_gather_piece small_session) = None" by code_simp+
  have s: "serves_gathers (ideal_session hd False) 1 small_session" by (rule ideal_gathers) (simp add: h)
  have "exec_column_gather (ideal_session hd False) p (tm_shape four_rows) 1 (nat (tm_itemsize four_rows)) True True True
      [[0..<80], [80..<160]] (replicate 160 0)
    = Inr (gathered (tm_shape four_rows) 1 (nat (tm_itemsize four_rows)) [[0..<80], [80..<160]])"
    by (rule planned_gather_delivers [OF p(1,2) h(1) s h(2)]) (simp_all add: h(3))
  then show ?thesis using p h(4,5) by auto
qed

section \<open>Gathers of bytes\<close>

lemma flat_bytes_facts: "0 < nbytes t \<Longrightarrow> tensor_ok (flat_bytes t) \<and> numel (flat_bytes t) = nbytes t \<and> nbytes (flat_bytes t) = nbytes t"
  by (simp add: tensor_ok_def flat_bytes_def numel_def nbytes_def)

lemma flat_gathered: "(\<And>x. x \<in> set xs \<Longrightarrow> length x = nat n) \<Longrightarrow> 0 < n \<Longrightarrow> gathered [n] 0 1 xs = blocks (length xs) (\<lambda>w. xs ! w)"
  using one_row [of xs "nat n"] by (simp add: gathered_def axis_of_def rows_before_def row_elems_def)

lemma bytes_gathered:
  assumes "plan_all_gather (flat_bytes t) 0 (Some l) (internal P) k = Inr inner" "pl_backend inner = Sircl"
    and "serves_gathers s 1 l" "1 \<le> gather_op_bytes l" "0 < nbytes t"
    and x: "\<And>x. x \<in> set xs \<Longrightarrow> length x = nat (nbytes t)" and j: "length junk = length xs * nat (nbytes t)"
  shows "gather_all_bytes s t l P k xs junk = Inr xs"
proof -
  note f = flat_bytes_facts [OF assms(5)]
  have "exec_all_gather s inner (tm_shape (flat_bytes t)) 0 1 xs junk = Inr (gathered (tm_shape (flat_bytes t)) 0 1 xs)"
    by (rule exec_planned_gather [OF assms(1,2) _ assms(3)]) (use f assms x j in \<open>simp_all add: flat_bytes_def\<close>)
  then have "exec_all_gather s inner [nbytes t] 0 1 xs junk = Inr (blocks (length xs) (\<lambda>w. xs ! w))"
    using flat_gathered [OF x assms(5)] by (simp add: flat_bytes_def)
  moreover have "map (\<lambda>w. slice (w * nat (nbytes t)) (nat (nbytes t)) (blocks (length xs) (\<lambda>w. xs ! w))) [0..<length xs] = xs"
    using x by (intro nth_equalityI) (simp_all add: slice_block)
  ultimately show ?thesis using assms(1,2) by (simp add: gather_all_bytes_def)
qed

lemma of_bytes_inner:
  assumes "gather_of_bytes c m t (Some l) P k why = Inr p" "pl_backend p = Sircl"
  shows "\<exists>inner. plan_all_gather (flat_bytes t) 0 (Some l) (internal P) k = Inr inner \<and> pl_backend inner = Sircl \<and> pl_method p = m"
  using assms by (auto simp: gather_of_bytes_def bind_res_Inr refuse_def by_sircl_def split: if_splits)

lemma bytes_gather_inner:
  assumes "plan_bytes_gather c t (Some l) P k operation = Inr p" "pl_backend p = Sircl" "nbytes t \<noteq> 0"
  shows "\<exists>inner. plan_all_gather (flat_bytes t) 0 (Some l) (internal P) k = Inr inner \<and> pl_backend inner = Sircl
    \<and> pl_method p = ''gather_bytes''"
  using assms of_bytes_inner by (auto simp: plan_bytes_gather_def by_nccl_def split: if_splits)

text \<open>
  C13: a broadcast and a gather the session carries deliver: with the plan the planner made, every rank ends the broadcast with the
  source's bytes, and the destination of a gather, and no other rank, with every rank's rows side by side.
\<close>

theorem broadcast_and_gather_deliver:
  assumes "plan_bytes_gather c t (Some l) P capturing operation = Inr p" "pl_backend p = Sircl" "tensor_ok t" "nbytes t \<noteq> 0"
    and "serves_gathers s 1 l" "1 \<le> gather_op_bytes l"
    and "\<forall>x\<in>set xs. int (length x) = nbytes t" "length junk = length xs * nat (nbytes t)" "src < length xs"
  shows "exec_broadcast s p t src rank l P capturing xs junk = Inr (xs ! src)
    \<and> exec_gather s p t axis src rank l P capturing xs junk
      = Inr (if rank = src then Some (gathered (tm_shape t) axis (nat (tm_itemsize t)) xs) else None)"
proof -
  obtain inner where i: "plan_all_gather (flat_bytes t) 0 (Some l) (internal P) capturing = Inr inner" "pl_backend inner = Sircl"
    "pl_method p = ''gather_bytes''" using bytes_gather_inner [OF assms(1,2,4)] by blast
  have "0 < nbytes t" using view_pos [OF assms(3,4)] by (cases "shard_view t 0") blast
  moreover have "length x = nat (nbytes t)" if "x \<in> set xs" for x using assms(7) that by (metis nat_int)
  ultimately have "gather_all_bytes s t l P capturing xs junk = Inr xs"
    using assms(5,6,8) i by (intro bytes_gathered)
  then show ?thesis using i(3) by (simp add: exec_broadcast_def exec_gather_def gathered_def Let_def)
qed

lemma broadcast_and_gather_deliver_witness:
  "\<exists>p. plan_bytes_gather ''broadcast'' four_rows (Some small_session) ring_policy True ''broadcast'' = Inr p
    \<and> exec_broadcast (ideal_session hd False) p four_rows 1 0 small_session ring_policy True [[0..<80], [80..<160]] (replicate 160 0)
      = Inr [80..<160]"
proof -
  have "case plan_bytes_gather ''broadcast'' four_rows (Some small_session) ring_policy True ''broadcast'' of Inl _ \<Rightarrow> False
    | Inr p \<Rightarrow> pl_backend p = Sircl" by code_simp
  then obtain p where p: "plan_bytes_gather ''broadcast'' four_rows (Some small_session) ring_policy True ''broadcast'' = Inr p"
    "pl_backend p = Sircl" by (auto split: sum.splits)
  have h: "tensor_ok four_rows" "nbytes four_rows \<noteq> 0" "1 \<le> gather_op_bytes small_session" "nbytes four_rows = 80"
    "truthy (li_gather_piece small_session) = None" by code_simp+
  have s: "serves_gathers (ideal_session hd False) 1 small_session" by (rule ideal_gathers) (simp add: h)
  have "exec_broadcast (ideal_session hd False) p four_rows 1 0 small_session ring_policy True [[0..<80], [80..<160]] (replicate 160 0)
      = Inr ([[0..<80], [80..<160]] ! 1)"
    by (rule conjunct1 [OF broadcast_and_gather_deliver [OF p h(1,2) s h(3)]]) (simp_all add: h(4))
  then show ?thesis using p by auto
qed

end
