(* ===== verification/ExecutorSums.thy ===== *)
theory ExecutorSums
  imports ExecutorFacts
begin

text \<open>
  Executing the planner's all-reduces, reduce-scatters, all-to-alls and uneven gathers: the sums, blocks, exchanges and rows of
  the whole message, whatever the plan cut it into.
\<close>

section \<open>Sums\<close>

definition equal_lengths :: "'c list list \<Rightarrow> nat \<Rightarrow> bool" where
  "equal_lengths xs n \<longleftrightarrow> xs \<noteq> [] \<and> (\<forall>x\<in>set xs. length x = n)"

lemma length_summed: "equal_lengths xs n \<Longrightarrow> length (summed red xs) = n"
  by (cases xs) (auto simp: equal_lengths_def summed_def)

lemma nth_summed: "equal_lengths xs n \<Longrightarrow> i < n \<Longrightarrow> summed red xs ! i = red (column xs i)"
  by (cases xs) (auto simp: equal_lengths_def summed_def)

lemma equal_slices: "equal_lengths xs n \<Longrightarrow> off + m \<le> n \<Longrightarrow> equal_lengths (map (slice off m) xs) m"
  by (auto simp: equal_lengths_def)

lemma column_slice: "equal_lengths xs n \<Longrightarrow> off + m \<le> n \<Longrightarrow> i < m \<Longrightarrow> column (map (slice off m) xs) i = column xs (off + i)"
  by (auto simp: column_def equal_lengths_def)

lemma summed_slice:
  assumes "equal_lengths xs n" "off + m \<le> n"
  shows "summed red (map (slice off m) xs) = slice off m (summed red xs)"
proof (rule nth_equalityI)
  have l: "length (summed red xs) = n" using length_summed [OF assms(1)] .
  note s = equal_slices [OF assms]
  show "length (summed red (map (slice off m) xs)) = length (slice off m (summed red xs))"
    using length_summed [OF s] l assms(2) by simp
  fix i assume "i < length (summed red (map (slice off m) xs))"
  then have i: "i < m" using length_summed [OF s] by simp
  have "summed red (map (slice off m) xs) ! i = red (column xs (off + i))"
    using nth_summed [OF s i] column_slice [OF assms i] by simp
  also have "\<dots> = slice off m (summed red xs) ! i" using nth_summed [OF assms(1), of "off + i"] i assms(2) l by simp
  finally show "summed red (map (slice off m) xs) ! i = slice off m (summed red xs) ! i" .
qed

lemma summed_append:
  assumes "equal_lengths (map f xs) n" "equal_lengths (map g xs) m"
  shows "summed red (map (\<lambda>x. f x @ g x) xs) = summed red (map f xs) @ summed red (map g xs)"
proof (rule nth_equalityI)
  have a: "equal_lengths (map (\<lambda>x. f x @ g x) xs) (n + m)" using assms by (auto simp: equal_lengths_def)
  note la = length_summed [OF a] and lf = length_summed [OF assms(1)] and lg = length_summed [OF assms(2)]
  show "length (summed red (map (\<lambda>x. f x @ g x) xs)) = length (summed red (map f xs) @ summed red (map g xs))"
    using la lf lg by simp
  fix i assume "i < length (summed red (map (\<lambda>x. f x @ g x) xs))"
  then have i: "i < n + m" using la by simp
  have fl: "length (f x) = n" if "x \<in> set xs" for x using assms(1) that by (simp add: equal_lengths_def)
  show "summed red (map (\<lambda>x. f x @ g x) xs) ! i = (summed red (map f xs) @ summed red (map g xs)) ! i"
  proof (cases "i < n")
    case True
    then have "column (map (\<lambda>x. f x @ g x) xs) i = column (map f xs) i" using fl by (auto simp: column_def nth_append)
    then show ?thesis using nth_summed [OF a i] nth_summed [OF assms(1) True] lf True by (simp add: nth_append)
  next
    case False
    then have "column (map (\<lambda>x. f x @ g x) xs) i = column (map g xs) (i - n)" using fl by (auto simp: column_def nth_append)
    then show ?thesis using nth_summed [OF a i] nth_summed [OF assms(2), of "i - n"] lf False i by (simp add: nth_append)
  qed
qed

lemma summed_blocks:
  assumes "\<And>i. i < n \<Longrightarrow> equal_lengths (map (F i) xs) k" "xs \<noteq> []"
  shows "summed red (map (\<lambda>x. blocks n (\<lambda>i. F i x)) xs) = blocks n (\<lambda>i. summed red (map (F i) xs))"
  using assms(1)
proof (induction n)
  case 0
  then show ?case using assms(2) by (cases xs) (simp_all add: blocks_def summed_def)
next
  case (Suc n)
  have e: "equal_lengths (map (\<lambda>x. blocks n (\<lambda>i. F i x)) xs) (n * k)"
    using Suc.prems assms(2) by (auto simp: equal_lengths_def intro!: length_blocks)
  show ?case
    unfolding blocks_Suc using summed_append [OF e, of "F n" k] Suc by simp
qed

section \<open>What the session promises of a sum\<close>

text \<open>
  An all-reduce of whole packs within the dispatch ceiling is the sum \<open>red\<close> of every column; the session's own large all-reduce has
  no ceiling.  A session has it when it reports its piece.
\<close>

definition serves_sums :: "'c Session \<Rightarrow> ('c list \<Rightarrow> 'c) \<Rightarrow> nat \<Rightarrow> SessionLimits \<Rightarrow> bool" where
  "serves_sums s red item l \<longleftrightarrow>
    (\<forall>xs n. equal_lengths xs n \<longrightarrow> n * item mod 16 = 0 \<longrightarrow> int (n * item) \<le> li_dispatch l \<longrightarrow> se_reduce s xs = summed red xs)
    \<and> (\<forall>f xs n. se_reduce_large s = Some f \<longrightarrow> equal_lengths xs n \<longrightarrow> f xs = summed red xs)
    \<and> (truthy (li_large_piece l) \<noteq> None \<longrightarrow> se_reduce_large s \<noteq> None)"

lemma serves_reduce:
  assumes "serves_sums s red item l" "equal_lengths xs n" "n * item mod 16 = 0" "int (n * item) \<le> li_dispatch l"
  shows "se_reduce s xs = summed red xs"
  by (rule conjunct1 [OF assms(1) [unfolded serves_sums_def], rule_format, OF assms(2-4)])

lemma serves_large:
  assumes "serves_sums s red item l" "equal_lengths xs n" "se_reduce_large s = Some f"
  shows "f xs = summed red xs"
  by (rule conjunct1 [OF conjunct2 [OF assms(1) [unfolded serves_sums_def]], rule_format, OF assms(3,2)])

lemma pack_le: "(a :: nat) \<le> b \<Longrightarrow> b mod 16 = 0 \<Longrightarrow> (a + 15) div 16 * 16 \<le> b"
proof -
  assume "a \<le> b" "b mod 16 = 0"
  then obtain c where c: "b = 16 * c" by auto
  have "(a + 15) div 16 \<le> (b + 15) div 16" using \<open>a \<le> b\<close> by (intro div_le_mono) simp
  also have "\<dots> = c" unfolding c by simp
  finally show ?thesis using c by simp
qed

lemma pack_ge: "(a :: nat) \<le> (a + 15) div 16 * 16"
proof -
  have "(a + 15) div 16 * 16 + (a + 15) mod 16 = a + 15" "(a + 15) mod 16 < 16" by simp_all
  then show ?thesis by linarith
qed

lemma padded_size:
  assumes "item dvd 16" "0 < item"
  shows "padded_elems n item * item = (n * item + 15) div 16 * 16" "n \<le> padded_elems n item"
proof -
  have "item dvd (n * item + 15) div 16 * 16" using assms(1) by (rule dvd_mult)
  then show e: "padded_elems n item * item = (n * item + 15) div 16 * 16" by (simp add: padded_elems_def)
  have "n * item \<le> padded_elems n item * item" unfolding e by (rule pack_ge)
  then show "n \<le> padded_elems n item" using assms(2) by simp
qed

lemma padded_reduce_sums:
  assumes "serves_sums s red item l" "equal_lengths xs n" "item dvd 16" "0 < item"
    and "int ((n * item + 15) div 16 * 16) \<le> li_dispatch l"
  shows "padded_reduce s zero item xs = summed red xs"
proof -
  let ?m = "padded_elems n item"
  let ?ys = "map (\<lambda>x. x @ replicate (?m - n) zero) xs"
  note p = padded_size [OF assms(3,4), of n]
  have len: "length x = n" if "x \<in> set xs" for x using assms(2) that by (simp add: equal_lengths_def)
  have ys: "map (\<lambda>x. x @ replicate (padded_elems (length x) item - length x) zero) xs = ?ys" using len by (intro map_cong) auto
  have e: "equal_lengths ?ys ?m" using assms(2) p(2) by (auto simp: equal_lengths_def)
  have "se_reduce s ?ys = summed red ?ys"
    by (rule serves_reduce [OF assms(1) e]) (use p(1) assms(5) in simp_all)
  moreover have f: "equal_lengths (map (\<lambda>x. x) xs) n" using assms(2) by simp
  have "equal_lengths (map (\<lambda>x. replicate (?m - n) zero) xs) (?m - n)" using assms(2) by (auto simp: equal_lengths_def)
  from summed_append [OF f this, of red]
  have "summed red ?ys = summed red xs @ summed red (map (\<lambda>x. replicate (?m - n) zero) xs)" by simp
  moreover have "length (hd xs) = n" using assms(2) by (simp add: equal_lengths_def)
  ultimately show ?thesis using length_summed [OF assms(2), of red] by (simp add: padded_reduce_def ys)
qed

lemma chunk_writes_make:
  assumes "serves_sums s red item l" "equal_lengths xs n" "item dvd 16" "0 < item" "16 \<le> piece" "piece mod 16 = 0"
    and "int piece \<le> li_dispatch l" "length junk = n"
  shows "assemble junk (chunk_writes s zero item piece xs) = summed red xs"
proof -
  let ?T = "summed red xs"
  have l: "length ?T = n" using length_summed [OF assms(2)] .
  have hd: "length (hd xs) = n" using assms(2) by (simp add: equal_lengths_def)
  have step: "max 1 (piece div item) = piece div item" "piece div item * item = piece"
  proof -
    have "item \<le> 16" using assms(3) by (intro dvd_imp_le) simp_all
    then show "max 1 (piece div item) = piece div item" using assms(4,5) by (simp add: max_def div_greater_zero_iff Suc_le_eq)
    have "item dvd piece" using assms(3,6) by (meson dvd_trans mod_eq_0_iff_dvd)
    then show "piece div item * item = piece" by simp
  qed
  have each: "agrees ?T e \<and> length (snd e) = m \<and> fst e = off"
    if r: "(off, m) \<in> set (ranges n (piece div item))"
      and e: "e = (let part = map (slice off m) xs in
        (off, if m * item mod 16 \<noteq> 0 then padded_reduce s zero item part else se_reduce s part))" for e off m
  proof -
    note b = ranges_in [OF r, unfolded step(1)]
    have part: "equal_lengths (map (slice off m) xs) m" using b by (intro equal_slices [OF assms(2)]) simp
    have "m * item \<le> piece div item * item" using b by (intro mult_le_mono1) simp
    then have mi: "m * item \<le> piece" using step(2) by simp
    have "(if m * item mod 16 \<noteq> 0 then padded_reduce s zero item (map (slice off m) xs) else se_reduce s (map (slice off m) xs))
        = summed red (map (slice off m) xs)"
    proof (cases "m * item mod 16 = 0")
      case True
      have "int (m * item) \<le> int piece" using mi by (simp only: of_nat_le_iff)
      then have "int (m * item) \<le> li_dispatch l" using assms(7) by (rule order_trans)
      from serves_reduce [OF assms(1) part True this]
      have "se_reduce s (map (slice off m) xs) = summed red (map (slice off m) xs)" .
      then show ?thesis using True by simp
    next
      case False
      have "(m * item + 15) div 16 * 16 \<le> piece" by (rule pack_le [OF mi assms(6)])
      then have "int ((m * item + 15) div 16 * 16) \<le> li_dispatch l" using assms(7) by linarith
      then show ?thesis using padded_reduce_sums [OF assms(1) part assms(3,4)] False by simp
    qed
    then have "e = (off, slice off m ?T)" using e summed_slice [OF assms(2), of off m red] b by simp
    then show ?thesis using b l by (simp add: agrees_def)
  qed
  show ?thesis
  proof (rule assemble_is)
    show "agrees ?T e" if e: "e \<in> set (chunk_writes s zero item piece xs)" for e
    proof -
      obtain off m where r: "(off, m) \<in> set (ranges n (piece div item))" and "e = (let part = map (slice off m) xs in
          (off, if m * item mod 16 \<noteq> 0 then padded_reduce s zero item part else se_reduce s part))"
        using e unfolding chunk_writes_def hd set_map by (elim imageE) (simp add: case_prod_beta, metis prod.collapse)
      from each [OF this] show ?thesis by blast
    qed
    show "length junk = length ?T" using assms(8) l by simp
    show "\<exists>e\<in>set (chunk_writes s zero item piece xs). covers e i" if i: "i < length ?T" for i
    proof -
      obtain off m where r: "(off, m) \<in> set (ranges n (piece div item))" "off \<le> i" "i < off + m"
        using ranges_cover [OF i [unfolded l], of "piece div item"] by blast
      define e where "e = (let part = map (slice off m) xs in
        (off, if m * item mod 16 \<noteq> 0 then padded_reduce s zero item part else se_reduce s part))"
      have "covers e i" using each [OF r(1) e_def] r(2,3) by (simp add: covers_def)
      moreover have "e \<in> set (chunk_writes s zero item piece xs)"
        unfolding chunk_writes_def hd set_map using r(1) by (rule rev_image_eqI) (simp add: e_def)
      ultimately show ?thesis by blast
    qed
  qed
qed

section \<open>All-reduce\<close>

text \<open>The sum of a dtype: the session's own where it prepared the dtype, else the local sum in rank order.\<close>

definition sum_of :: "('c list \<Rightarrow> 'c) \<Rightarrow> ('c, 'a) Accumulator \<Rightarrow> SessionLimits \<Rightarrow> TensorMeta \<Rightarrow> 'c list \<Rightarrow> 'c" where
  "sum_of red acc l t = (if tm_dtype t \<in> set (li_reduce_dtypes l) then red else rank_ordered_sum acc)"

lemma flat_meta_facts: "0 < nbytes t \<Longrightarrow> 0 < tm_itemsize t \<Longrightarrow> tensor_ok (flat_meta t) \<and> numel (flat_meta t) = numel t"
  by (simp add: tensor_ok_def flat_meta_def numel_def nbytes_def zero_less_mult_iff)

lemma gather_sum_makes:
  assumes "plan_all_gather (flat_meta t) 0 (Some l) (internal P) k = Inr inner" "pl_backend inner = Sircl"
    and "serves_gathers s (nat (tm_itemsize t)) l" "tm_itemsize t \<le> gather_op_bytes l" "0 < nbytes t" "0 < tm_itemsize t"
    and "equal_lengths xs (nat (numel t))" "length junk = length xs * nat (numel t)"
  shows "exec_gather_sum s acc t l P k xs junk = Inr (summed (rank_ordered_sum acc) xs)"
proof -
  let ?n = "nat (numel t)"
  note f = flat_meta_facts [OF assms(5,6)]
  have x: "length x = ?n" if "x \<in> set xs" for x using assms(7) that by (simp add: equal_lengths_def)
  have n: "0 < numel t" using assms(5,6) by (simp add: nbytes_def zero_less_mult_iff)
  have "exec_all_gather s inner (tm_shape (flat_meta t)) 0 1 xs junk = Inr (gathered (tm_shape (flat_meta t)) 0 1 xs)"
    by (rule exec_planned_gather [OF assms(1,2) _ assms(3)]) (use f assms x in \<open>simp_all add: flat_meta_def\<close>)
  then have g: "exec_all_gather s inner [numel t] 0 1 xs junk = Inr (blocks (length xs) (\<lambda>w. xs ! w))"
    using flat_gathered [OF x n] by (simp add: flat_meta_def)
  have rows: "map (\<lambda>w. slice (w * ?n) ?n (blocks (length xs) (\<lambda>w. xs ! w))) [0..<length xs] = xs"
    using x by (intro nth_equalityI) (simp_all add: slice_block)
  have "length (hd xs) = ?n" using assms(7) by (simp add: equal_lengths_def)
  then show ?thesis using assms(1) g rows by (simp add: exec_gather_sum_def summed_def Let_def)
qed

lemma reduce_cases:
  assumes "plan_all_reduce t (Some l) P k = Inr p" "pl_backend p = Sircl" "0 < nbytes t"
  shows "(tm_dtype t \<notin> set (li_reduce_dtypes l) \<and> pl_method p = ''gather_sum''
        \<and> (\<exists>inner. plan_all_gather (flat_meta t) 0 (Some l) (internal P) k = Inr inner \<and> pl_backend inner = Sircl))
    \<or> tm_dtype t \<in> set (li_reduce_dtypes l)
      \<and> (pl_method p = ''direct'' \<and> cdiv (nbytes t) 16 * 16 = nbytes t \<and> nbytes t \<le> li_dispatch l
        \<or> pl_method p = ''padded'' \<and> cdiv (nbytes t) 16 * 16 \<le> li_dispatch l
        \<or> pl_method p = ''large'' \<and> truthy (li_large_piece l) \<noteq> None
        \<or> pl_method p = ''chunked'' \<and> 16 \<le> pl_piece p \<and> pl_piece p mod 16 = 0 \<and> pl_piece p \<le> li_dispatch l)"
proof (cases "tm_dtype t \<in> set (li_reduce_dtypes l)")
  case False
  then have "gather_sum t l P k = Inr p"
    using assms by (auto simp: plan_all_reduce_def by_nccl_def refuse_def Let_def split: if_splits)
  then show ?thesis
    using False assms(2) by (auto simp: gather_sum_def flat_meta_def bind_res_Inr refuse_def by_sircl_def split: if_splits)
next
  case True
  let ?padded = "cdiv (nbytes t) 16 * 16" and ?u = "max 16 (tm_itemsize t)"
  have "p = by_sircl ''all_reduce'' (if ?padded = nbytes t then ''direct'' else ''padded'') 1 ?padded
        ''within the dispatch ceiling'' (\<not> tm_contiguous t) \<and> ?padded \<le> li_dispatch l \<or> p = split_reduce t l"
    using True assms by (auto simp: plan_all_reduce_def by_nccl_def refuse_def Let_def split: if_splits)
  then show ?thesis
  proof
    assume "p = by_sircl ''all_reduce'' (if ?padded = nbytes t then ''direct'' else ''padded'') 1 ?padded
        ''within the dispatch ceiling'' (\<not> tm_contiguous t) \<and> ?padded \<le> li_dispatch l"
    then show ?thesis using True by (auto simp: by_sircl_def)
  next
    assume p: "p = split_reduce t l"
    show ?thesis
    proof (cases "truthy (li_large_piece l)")
      case None
      let ?piece = "li_dispatch l div ?u * ?u div 16 * 16"
      have "pl_method p = ''chunked''" "pl_piece p = ?piece" "16 \<le> ?piece"
        using p None assms(2) by (auto simp: split_reduce_def Let_def by_sircl_def refuse_def split: if_splits)
      moreover have "?piece \<le> li_dispatch l"
      proof -
      have "?piece \<le> li_dispatch l div ?u * ?u" using div_floor_le [of 16] by simp
      moreover have "0 < ?u" by simp
      from div_floor_le [OF this, of "li_dispatch l"] have "li_dispatch l div ?u * ?u \<le> li_dispatch l" .
      ultimately show ?thesis by (rule order_trans)
      qed
      ultimately show ?thesis using True by simp
    next
      case (Some piece)
      then show ?thesis using True p by (auto simp: split_reduce_def Let_def by_sircl_def)
    qed
  qed
qed

lemma internal_idem: "internal (internal P) = internal P"
  by (simp add: internal_def)

lemma packs_bytes: "int ((a + 15) div 16 * 16) = cdiv (int a) 16 * 16"
proof -
  let ?b = "int a" and ?q = "(int a + 15) div 16"
  have "?b + 15 = 16 * ?q + (?b + 15) mod 16" "0 \<le> (?b + 15) mod 16" "(?b + 15) mod 16 < 16" by simp_all
  then have "- ?b = 16 * (- ?q) + (15 - (?b + 15) mod 16)" "0 \<le> 15 - (?b + 15) mod 16" "15 - (?b + 15) mod 16 < 16" by linarith+
  then have "- ?b div 16 = - ?q" by (metis add.commute div_mult_self4 div_pos_pos_trivial add_0_right zero_neq_numeral)
  then show ?thesis by (simp add: cdiv_def zdiv_int)
qed

lemma exec_planned_reduce:
  assumes plan: "plan_all_reduce t (Some l) P k = Inr p" "pl_backend p = Sircl" and t: "0 < tm_itemsize t" "tm_itemsize t dvd 16"
    and s: "serves_sums s red (nat (tm_itemsize t)) l" "serves_gathers s (nat (tm_itemsize t)) l" "tm_itemsize t \<le> gather_op_bytes l"
    and x: "equal_lengths xs (nat (numel t))" and q: "internal Q = internal P" and n: "0 < nbytes t"
    and j: "length junk = nat (numel t)" "length gathered_junk = length xs * nat (numel t)"
  shows "exec_all_reduce s acc zero p t l Q k xs junk gathered_junk = Inr (summed (sum_of red acc l t) xs)"
proof -
  let ?item = "nat (tm_itemsize t)" and ?n = "nat (numel t)"
  have item: "?item dvd 16" "0 < ?item" using t by (simp_all add: nat_dvd_iff)
  have "0 < numel t" using n t by (simp add: nbytes_def zero_less_mult_iff)
  then have nb: "int (?n * ?item) = nbytes t" using t by (simp add: nbytes_def)
  have cd: "int ((?n * ?item + 15) div 16 * 16) = cdiv (nbytes t) 16 * 16" unfolding packs_bytes nb ..
  have hd: "length (hd xs) = ?n" using x by (simp add: equal_lengths_def)
  from reduce_cases [OF plan n] consider
      (gathered) inner where "tm_dtype t \<notin> set (li_reduce_dtypes l)" "pl_method p = ''gather_sum''"
        "plan_all_gather (flat_meta t) 0 (Some l) (internal P) k = Inr inner" "pl_backend inner = Sircl"
    | (direct) "tm_dtype t \<in> set (li_reduce_dtypes l)" "pl_method p = ''direct''" "cdiv (nbytes t) 16 * 16 = nbytes t" "nbytes t \<le> li_dispatch l"
    | (padded) "tm_dtype t \<in> set (li_reduce_dtypes l)" "pl_method p = ''padded''" "cdiv (nbytes t) 16 * 16 \<le> li_dispatch l"
    | (large) "tm_dtype t \<in> set (li_reduce_dtypes l)" "pl_method p = ''large''" "truthy (li_large_piece l) \<noteq> None"
    | (chunked) "tm_dtype t \<in> set (li_reduce_dtypes l)" "pl_method p = ''chunked''" "16 \<le> pl_piece p" "pl_piece p mod 16 = 0"
        "pl_piece p \<le> li_dispatch l"
    by blast
  then show ?thesis
  proof cases
    case gathered
    have "plan_all_gather (flat_meta t) 0 (Some l) (internal Q) k = Inr inner" using gathered(3) q by simp
    from gather_sum_makes [OF this gathered(4) s(2,3) n t(1) x j(2)] show ?thesis
      using gathered(1,2) by (simp add: exec_all_reduce_def sum_of_def)
  next
    case direct
    have "?n * ?item mod 16 = 0"
    proof -
      have "nbytes t mod 16 = 0" using direct(3) by (metis mod_mult_self2_is_0)
      then show ?thesis unfolding nb [symmetric] by presburger
    qed
    then have "se_reduce s xs = summed red xs" using direct(4) nb by (intro serves_reduce [OF s(1) x]) simp_all
    then show ?thesis using direct(1,2) by (simp add: exec_all_reduce_def sum_of_def)
  next
    case padded
    have "padded_reduce s zero ?item xs = summed red xs"
      by (rule padded_reduce_sums [OF s(1) x item]) (use padded(3) cd in simp)
    then show ?thesis using padded(1,2) by (simp add: exec_all_reduce_def sum_of_def)
  next
    case large
    then obtain f where f: "se_reduce_large s = Some f" using s(1) unfolding serves_sums_def by blast
    then show ?thesis using large(1,2) serves_large [OF s(1) x f] by (simp add: exec_all_reduce_def sum_of_def)
  next
    case chunked
    show ?thesis
    proof (cases "se_reduce_large s")
      case None
      have "nat (pl_piece p) mod 16 = 0" using chunked(3,4) by (simp add: nat_mod_as_int)
      then have "assemble junk (chunk_writes s zero ?item (nat (pl_piece p)) xs) = summed red xs"
        by (rule_tac chunk_writes_make [OF s(1) x item])
          (use chunked(3-5) j(1) in \<open>simp_all add: le_nat_iff\<close>)
      then show ?thesis using None chunked(1,2) by (simp add: exec_all_reduce_def sum_of_def)
    next
      case (Some f)
      then show ?thesis using chunked(1,2) serves_large [OF s(1) x Some] by (simp add: exec_all_reduce_def sum_of_def)
    qed
  qed
qed



lemma ideal_sums: "truthy (li_large_piece l) = None \<Longrightarrow> serves_sums (ideal_session red False) red item l"
  by (auto simp: serves_sums_def ideal_session_def)

definition whole_numbers :: "(int, int) Accumulator" where
  "whole_numbers = \<lparr>ac_zero = 0, ac_of = (\<lambda>v. v), ac_add = (+), ac_round = (\<lambda>v. v)\<rparr>"


end
