(* ===== verification/ExecutorBlocks.thy ===== *)
theory ExecutorBlocks
  imports ExecutorSums
begin

text \<open>
  Executing the planner's reduce-scatters, all-to-alls and uneven gathers: every rank is left with its block of the sum, with its
  chunk of every rank's buffer, or with every rank's own rows.
\<close>

section \<open>Moved dimensions\<close>

lemma move_front_blocks:
  "move_front outer extent rest x = blocks extent (\<lambda>e. blocks outer (\<lambda>r. slice ((r * extent + e) * rest) rest x))"
  by (simp add: move_front_def blocks_def)

lemma move_back_blocks:
  "move_back outer kept rest x = blocks outer (\<lambda>r. blocks kept (\<lambda>c. slice ((c * outer + r) * rest) rest x))"
  by (simp add: move_back_def blocks_def)

lemma narrow_blocks:
  "narrow outer extent rest first n x = blocks outer (\<lambda>r. slice ((r * extent + first) * rest) (n * rest) x)"
  by (simp add: narrow_def blocks_def)

lemma cell_inside:
  assumes "r < outer" "e + k \<le> extent"
  shows "(r * extent + e) * rest + k * rest \<le> outer * extent * (rest :: nat)"
proof -
  have "Suc r * extent \<le> outer * extent" using assms(1) by (intro mult_le_mono1) simp
  then have "r * extent + e + k \<le> outer * extent" using assms(2) by simp
  then have "(r * extent + e + k) * rest \<le> outer * extent * rest" by (rule mult_le_mono1)
  then show ?thesis by (simp add: distrib_right)
qed

lemma moved_lengths:
  assumes "length x = outer * extent * rest" "e < extent"
  shows "length (blocks outer (\<lambda>r. slice ((r * extent + e) * rest) rest x)) = outer * rest"
  using cell_inside [of _ outer e 1 extent rest] assms by (intro length_blocks) simp

lemma length_move_front: "length x = outer * extent * rest \<Longrightarrow> length (move_front outer extent rest x) = extent * (outer * rest)"
  unfolding move_front_blocks by (rule length_blocks) (rule moved_lengths)

lemma summed_moved:
  assumes "equal_lengths xs (outer * extent * rest)"
  shows "summed red (map (move_front outer extent rest) xs) = move_front outer extent rest (summed red xs)"
proof -
  have x: "length x = outer * extent * rest" if "x \<in> set xs" for x using assms that by (simp add: equal_lengths_def)
  have ne: "xs \<noteq> []" using assms by (simp add: equal_lengths_def)
  have inside: "(r * extent + e) * rest + rest \<le> outer * extent * rest" if "r < outer" "e < extent" for r e
    using cell_inside [OF that(1), of e 1 extent rest] that(2) by simp
  have block: "equal_lengths (map (\<lambda>x. blocks outer (\<lambda>r. slice ((r * extent + e) * rest) rest x)) xs) (outer * rest)" if "e < extent" for e
    unfolding equal_lengths_def using ne moved_lengths [OF x that] by auto
  have cell: "equal_lengths (map (\<lambda>x. slice ((r * extent + e) * rest) rest x) xs) rest" if "r < outer" "e < extent" for r e
    using equal_slices [OF assms inside [OF that]] by simp
  have "summed red (map (move_front outer extent rest) xs)
      = blocks extent (\<lambda>e. summed red (map (\<lambda>x. blocks outer (\<lambda>r. slice ((r * extent + e) * rest) rest x)) xs))"
    unfolding move_front_blocks by (rule summed_blocks [OF block ne])
  also have "\<dots> = blocks extent (\<lambda>e. blocks outer (\<lambda>r. summed red (map (\<lambda>x. slice ((r * extent + e) * rest) rest x) xs)))"
    by (rule blocks_cong) (rule summed_blocks [OF cell ne])
  also have "\<dots> = move_front outer extent rest (summed red xs)"
    unfolding move_front_blocks by (intro blocks_cong summed_slice [OF assms] inside)
  finally show ?thesis .
qed

lemma slice_moved:
  assumes "length y = outer * extent * rest" "first + kept \<le> extent"
  shows "slice (first * (outer * rest)) (kept * (outer * rest)) (move_front outer extent rest y)
    = blocks kept (\<lambda>c. blocks outer (\<lambda>r. slice ((r * extent + (first + c)) * rest) rest y))"
  unfolding move_front_blocks by (rule slice_blocks [OF moved_lengths [OF assms(1)] assms(2)])

lemma moved_back:
  assumes "length y = outer * extent * rest" "first + kept \<le> extent"
  shows "move_back outer kept rest (blocks kept (\<lambda>c. blocks outer (\<lambda>r. slice ((r * extent + (first + c)) * rest) rest y)))
    = narrow outer extent rest first kept y"
  unfolding move_back_blocks narrow_blocks
proof (rule blocks_cong)
  fix r assume r: "r < outer"
  let ?B = "\<lambda>c. blocks outer (\<lambda>r. slice ((r * extent + (first + c)) * rest) rest y)"
  have b: "length (?B c) = outer * rest" if "c < kept" for c using assms that by (intro moved_lengths) simp_all
  have "slice ((c * outer + r) * rest) rest (blocks kept ?B) = slice ((r * extent + (first + c)) * rest) rest y" if c: "c < kept" for c
  proof -
    have "Suc r * rest \<le> outer * rest" using r by (intro mult_le_mono1) simp
    then have "r * rest + rest \<le> outer * rest" by simp
    from slice_in_block [OF b c this]
    have "slice ((c * outer + r) * rest) rest (blocks kept ?B) = slice (r * rest) rest (?B c)"
      by (simp add: distrib_right mult.assoc)
    also have "\<dots> = slice ((r * extent + (first + c)) * rest) rest y"
      using cell_inside [of _ outer "first + c" 1 extent rest] assms c by (intro slice_block [OF _ r]) simp
    finally show ?thesis .
  qed
  then have "blocks kept (\<lambda>c. slice ((c * outer + r) * rest) rest (blocks kept ?B))
      = blocks kept (\<lambda>c. slice ((r * extent + (first + c)) * rest) rest y)" by (rule blocks_cong)
  also have "\<dots> = blocks kept (\<lambda>c. slice (c * rest) rest (slice ((r * extent + first) * rest) (kept * rest) y))"
  proof (rule blocks_cong)
    fix c assume "c < kept"
    then have "Suc c * rest \<le> kept * rest" by (intro mult_le_mono1) simp
    then have "slice (c * rest) rest (slice ((r * extent + first) * rest) (kept * rest) y)
        = slice ((r * extent + first) * rest + c * rest) rest y" by (intro slice_slice) simp
    then show "slice ((r * extent + (first + c)) * rest) rest y = slice (c * rest) rest (slice ((r * extent + first) * rest) (kept * rest) y)"
      by (simp add: distrib_right add.assoc)
  qed
  also have "\<dots> = slice ((r * extent + first) * rest) (kept * rest) y"
    using cell_inside [OF r assms(2), of rest] assms(1) by (intro blocks_slices) simp
  finally show "blocks kept (\<lambda>c. slice ((c * outer + r) * rest) rest (blocks kept ?B)) = slice ((r * extent + first) * rest) (kept * rest) y" .
qed

lemma first_dimension:
  assumes "length y = extent * rest" "first + kept \<le> extent"
  shows "blocks kept (\<lambda>c. blocks 1 (\<lambda>r. slice ((r * extent + (first + c)) * rest) rest y)) = narrow 1 extent rest first kept y"
proof -
  have o: "blocks 1 f = f 0" for f :: "nat \<Rightarrow> 'a list" by (simp add: blocks_def)
  have "blocks kept (\<lambda>c. slice ((first + c) * rest) rest y) = blocks kept (\<lambda>c. slice (c * rest) rest (slice (first * rest) (kept * rest) y))"
  proof (rule blocks_cong)
    fix c assume "c < kept"
    then have "Suc c * rest \<le> kept * rest" by (intro mult_le_mono1) simp
    then have "slice (c * rest) rest (slice (first * rest) (kept * rest) y) = slice (first * rest + c * rest) rest y"
      by (intro slice_slice) simp
    then show "slice ((first + c) * rest) rest y = slice (c * rest) rest (slice (first * rest) (kept * rest) y)"
      by (simp add: distrib_right)
  qed
  also have "\<dots> = slice (first * rest) (kept * rest) y"
  proof -
    have "(first + kept) * rest \<le> extent * rest" using assms(2) by (rule mult_le_mono1)
    then show ?thesis using assms(1) by (intro blocks_slices) (simp add: distrib_right)
  qed
  finally show ?thesis unfolding narrow_blocks o by simp
qed

section \<open>Reduce-scatter\<close>

text \<open>
  A scatter of whole packs within the scatter limit leaves a rank with the sum of its chunk of every rank's block; a session that
  reports a scatter piece cuts whole messages itself.
\<close>

definition serves_scatters :: "'c Session \<Rightarrow> ('c list \<Rightarrow> 'c) \<Rightarrow> nat \<Rightarrow> SessionLimits \<Rightarrow> bool" where
  "serves_scatters s red item l \<longleftrightarrow>
    (\<forall>rank n stride xs m. equal_lengths xs m \<longrightarrow> rank < length xs \<longrightarrow> (length xs - 1) * stride + n \<le> m \<longrightarrow> n * item mod 16 = 0
      \<longrightarrow> truthy (li_scatter_piece l) \<noteq> None \<or> (\<exists>b. scatter_op_bytes l = Inr b \<and> int (length xs * (n * item)) \<le> b)
      \<longrightarrow> se_scatter s rank n stride xs = summed red (map (slice (rank * stride) n) xs))"

lemma serves_scatter:
  assumes "serves_scatters s red item l" "equal_lengths xs m" "rank < length xs" "(length xs - 1) * stride + n \<le> m" "n * item mod 16 = 0"
    and "truthy (li_scatter_piece l) \<noteq> None \<or> (\<exists>b. scatter_op_bytes l = Inr b \<and> int (length xs * (n * item)) \<le> b)"
  shows "se_scatter s rank n stride xs = slice (rank * stride) n (summed red xs)"
proof -
  have "rank * stride \<le> (length xs - 1) * stride" using assms(3) by (intro mult_le_mono1) simp
  then have "rank * stride + n \<le> m" using assms(4) by linarith
  from summed_slice [OF assms(2) this] show ?thesis
    using assms(1) [unfolded serves_scatters_def, rule_format, OF assms(2-6)] by simp
qed

lemma scatter_writes_make:
  assumes s: "serves_scatters s red item l" and e: "equal_lengths xs (length xs * block)" and rank: "rank < length xs"
    and item: "item dvd 16" "0 < item" and b: "scatter_op_bytes l = Inr b"
    and piece: "16 \<le> piece" "16 dvd piece" "int (length xs * piece) \<le> b" and block: "16 dvd block * item" and j: "length junk = block"
  shows "assemble junk (scatter_writes s rank item piece block xs) = slice (rank * block) block (summed red xs)"
proof -
  let ?T = "slice (rank * block) block (summed red xs)"
  have "Suc rank * block \<le> length xs * block" using rank by (intro mult_le_mono1) simp
  then have inside: "rank * block + block \<le> length (summed red xs)" using length_summed [OF e, of red] by simp
  then have l: "length ?T = block" by simp
  have each: "agrees ?T w \<and> fst w * item = off \<and> length (snd w) * item = n"
    if r: "(off, n) \<in> set (ranges (block * item) piece)"
      and w: "w = (off div item, se_scatter s rank (n div item) block (map (drop (off div item)) xs))" for w off n
  proof -
    have step: "max 1 piece = piece" using piece(1) by simp
    note q = ranges_in [OF r, unfolded step]
    have "16 dvd off" using q piece(2) by (meson dvd_trans)
    have "n = min piece (block * item - off)"
    proof -
      obtain i where "off = i * piece" "n = min piece (block * item - i * piece)"
        using r unfolding ranges_by [OF step] by auto
      then show ?thesis by simp
    qed
    then have "16 dvd n" using piece(2) block \<open>16 dvd off\<close> by (auto simp: min_def dvd_diff_nat)
    define o' where "o' = off div item"
    define m where "m = n div item"
    have oi: "o' * item = off" using \<open>16 dvd off\<close> item(1) unfolding o'_def by (meson dvd_div_mult_self dvd_trans)
    have mi: "m * item = n" using \<open>16 dvd n\<close> item(1) unfolding m_def by (meson dvd_div_mult_self dvd_trans)
    have "(o' + m) * item \<le> block * item" using q oi mi by (simp add: distrib_right)
    then have om: "o' + m \<le> block" using item(2) by simp
    have d: "equal_lengths (map (drop o') xs) (length xs * block - o')" using e by (auto simp: equal_lengths_def)
    have "(length xs - 1) * block + block = length xs * block" using rank by (cases "length xs") simp_all
    then have fit: "(length (map (drop o') xs) - 1) * block + m \<le> length xs * block - o'" using om by simp
    have "length xs * n \<le> length xs * piece" using q by simp
    then have "int (length xs * n) \<le> b" using piece(3) by linarith
    then have lim: "int (length (map (drop o') xs) * (m * item)) \<le> b" unfolding mi by simp
    have m16: "m * item mod 16 = 0" unfolding mi using \<open>16 dvd n\<close> by simp
    have "se_scatter s rank m block (map (drop o') xs) = slice (rank * block) m (summed red (map (drop o') xs))"
      by (rule serves_scatter [OF s d _ fit m16]) (use rank b lim in auto)
    also have "summed red (map (drop o') xs) = drop o' (summed red xs)"
    proof -
      have dl: "length x = length xs * block" if "x \<in> set xs" for x using e that by (simp add: equal_lengths_def)
      have "block \<le> length xs * block" using rank by (cases "length xs") simp_all
      then have o_le: "o' \<le> length xs * block" using om by linarith
      have md: "map (drop o') xs = map (slice o' (length xs * block - o')) xs" using dl by (simp add: slice_def)
      show ?thesis
        unfolding md using summed_slice [OF e, of o' "length xs * block - o'" red] o_le length_summed [OF e, of red] by (simp add: slice_def)
    qed
    also have "slice (rank * block) m (drop o' (summed red xs)) = slice o' m ?T"
      using slice_slice [OF om, of "rank * block" "summed red xs"] by (simp add: add.commute)
    finally have "w = (o', slice o' m ?T)" using w by (simp add: o'_def m_def)
    then show ?thesis using om l oi mi by (simp add: agrees_def)
  qed
  show ?thesis
  proof (rule assemble_is)
    show "agrees ?T w" if w: "w \<in> set (scatter_writes s rank item piece block xs)" for w
    proof -
      obtain off n where "(off, n) \<in> set (ranges (block * item) piece)"
        "w = (off div item, se_scatter s rank (n div item) block (map (drop (off div item)) xs))"
        using w unfolding scatter_writes_def set_map by (elim imageE) (simp add: case_prod_beta, metis prod.collapse)
      from each [OF this] show ?thesis by blast
    qed
    show "length junk = length ?T" using j l by simp
    show "\<exists>w\<in>set (scatter_writes s rank item piece block xs). covers w i" if i: "i < length ?T" for i
    proof -
      have "i * item < block * item" using i l item(2) by simp
      from ranges_cover [OF this, of piece] obtain off n
        where r: "(off, n) \<in> set (ranges (block * item) piece)" "off \<le> i * item" "i * item < off + n" by blast
      define w where "w = (off div item, se_scatter s rank (n div item) block (map (drop (off div item)) xs))"
      have q: "fst w * item = off" "length (snd w) * item = n" using each [OF r(1) w_def] by blast+
      have "fst w * item \<le> i * item" "i * item < (fst w + length (snd w)) * item" using r(2,3) q by (simp_all add: distrib_right)
      then have "covers w i" using item(2) by (simp add: covers_def)
      moreover have "w \<in> set (scatter_writes s rank item piece block xs)"
        unfolding scatter_writes_def set_map using r(1) by (rule rev_image_eqI) (simp add: w_def)
      ultimately show ?thesis by blast
    qed
  qed
qed

lemma reduce_scatter_cases:
  assumes "plan_reduce_scatter t axis (Some l) P k = Inr p" "pl_backend p = Sircl" "nbytes t \<noteq> 0" "0 < li_world l" "scatter_op_bytes l = Inr b"
  shows "tm_shape t ! axis_of axis (tm_shape t) mod li_world l = 0
    \<and> (pl_method p = ''scatter'' \<and> tm_dtype t \<in> set (li_scatter_dtypes l)
        \<and> (nbytes t div (tm_shape t ! axis_of axis (tm_shape t))) mod 16 = 0
        \<and> (pl_ops p = 1 \<and> (truthy (li_scatter_piece l) \<noteq> None \<or> nbytes t \<le> b)
          \<or> b \<noteq> 0 \<and> \<not> nbytes t \<le> b
            \<and> (let block = tm_shape t ! axis_of axis (tm_shape t) div li_world l * (nbytes t div (tm_shape t ! axis_of axis (tm_shape t)))
               in pl_ops p = cdiv block (b div li_world l) \<and> pl_piece p = min block (b div li_world l)))
      \<or> pl_method p = ''allreduce_slice'' \<and> (\<exists>r. plan_all_reduce t (Some l) (internal P) k = Inr r \<and> pl_backend r = Sircl))"
proof -
  let ?e = "tm_shape t ! axis_of axis (tm_shape t)"
  let ?row = "nbytes t div ?e"
  let ?prepared = "tm_dtype t \<in> set (li_scatter_dtypes l) \<and> ?row mod PACK_BYTES = 0"
  let ?block = "?e div li_world l * ?row"
  have w: "li_world l \<noteq> 0" using assms(4) by simp
  have ne: "tm_shape t \<noteq> []" and m: "?e mod li_world l = 0"
    using assms(1,2) w by (auto simp: plan_reduce_scatter_def refuse_def Let_def split: if_split_asm)
  then have p: "(if prefers_nccl P ''reduce_scatter'' (nbytes t) b k
      then Inr (by_nccl ''reduce_scatter'' ''above the group's SIRCL reduce-scatter threshold'')
      else if ?prepared \<and> truthy (li_scatter_piece l) \<noteq> None
      then Inr (by_sircl ''reduce_scatter'' ''scatter'' 1 (nbytes t) ''session reduce-scatter of the whole message''
        (\<not> tm_contiguous t \<or> axis_of axis (tm_shape t) \<noteq> 0))
      else if ?prepared \<and> b \<noteq> 0
      then Inr (by_sircl ''reduce_scatter'' ''scatter'' (if nbytes t \<le> b then 1 else cdiv ?block (b div li_world l))
        (min ?block (b div li_world l)) ''session reduce-scatter'' (\<not> tm_contiguous t \<or> axis_of axis (tm_shape t) \<noteq> 0))
      else slice_of_reduce ''reduce_scatter'' t l P k) = Inr p"
    using assms(1,3,5) w unfolding plan_reduce_scatter_def Let_def by simp
  have np: "\<not> prefers_nccl P ''reduce_scatter'' (nbytes t) b k"
  proof
    assume "prefers_nccl P ''reduce_scatter'' (nbytes t) b k"
    then have "pl_backend p = Nccl" using p by (auto simp: by_nccl_def)
    then show False using assms(2) by simp
  qed
  show ?thesis
  proof (cases "?prepared \<and> truthy (li_scatter_piece l) \<noteq> None")
    case True
    then have "p = by_sircl ''reduce_scatter'' ''scatter'' 1 (nbytes t) ''session reduce-scatter of the whole message''
        (\<not> tm_contiguous t \<or> axis_of axis (tm_shape t) \<noteq> 0)"
      using p unfolding if_not_P [OF np] if_P [OF True] by simp
    then show ?thesis using m True by (simp add: by_sircl_def)
  next
    case False
    note p = p [unfolded if_not_P [OF np] if_not_P [OF False]]
    show ?thesis
    proof (cases "?prepared \<and> b \<noteq> 0")
      case True
      then have "p = by_sircl ''reduce_scatter'' ''scatter'' (if nbytes t \<le> b then 1 else cdiv ?block (b div li_world l))
        (min ?block (b div li_world l)) ''session reduce-scatter'' (\<not> tm_contiguous t \<or> axis_of axis (tm_shape t) \<noteq> 0)"
        using p unfolding if_P [OF True] by simp
      then show ?thesis using m True by (simp add: by_sircl_def Let_def)
    next
      case False
      then have "slice_of_reduce ''reduce_scatter'' t l P k = Inr p" using p [unfolded if_not_P [OF False]] by (simp only:)
      then have "pl_method p = ''allreduce_slice'' \<and> (\<exists>r. plan_all_reduce t (Some l) (internal P) k = Inr r \<and> pl_backend r = Sircl)"
        using assms(2) by (auto simp: slice_of_reduce_def bind_res_Inr by_sircl_def by_nccl_def refuse_def split: if_split_asm)
      then show ?thesis using m by blast
    qed
  qed
qed

definition own_block :: "TensorMeta \<Rightarrow> int \<Rightarrow> nat \<Rightarrow> nat \<Rightarrow> 'c list \<Rightarrow> 'c list" where
  "own_block t axis world rank x =
    (let d = axis_of axis (tm_shape t); extent = extent_of (tm_shape t) d; kept = extent div world in
     narrow (rows_before (tm_shape t) d) extent (rest_of (tm_shape t) d) (rank * kept) kept x)"

lemma shape_split:
  assumes "tensor_ok t" "d < length (tm_shape t)" "0 < numel t"
  shows "nat (numel t) = rows_before (tm_shape t) d * extent_of (tm_shape t) d * rest_of (tm_shape t) d"
    "0 < rows_before (tm_shape t) d" "0 < extent_of (tm_shape t) d" "0 < rest_of (tm_shape t) d"
    "int (extent_of (tm_shape t) d) = tm_shape t ! d"
proof -
  have s: "tm_shape t = take d (tm_shape t) @ tm_shape t ! d # drop (Suc d) (tm_shape t)" using assms(2) by (rule id_take_nth_drop)
  have ok: "list_all (\<lambda>n. 0 \<le> n) (take d (tm_shape t))" "list_all (\<lambda>n. 0 \<le> n) (drop (Suc d) (tm_shape t))" "0 \<le> tm_shape t ! d"
    using assms(1,2) by (auto simp: tensor_ok_def list_all_iff dest: in_set_takeD in_set_dropD)
  have n: "numel t = prod_list (take d (tm_shape t)) * (tm_shape t ! d * prod_list (drop (Suc d) (tm_shape t)))"
    unfolding numel_def by (subst s) simp
  have p: "0 < prod_list (take d (tm_shape t))" "0 < prod_list (drop (Suc d) (tm_shape t))" "0 < tm_shape t ! d"
    using n assms(3) ok prod_list_pos by (auto simp: zero_less_mult_iff order_less_le)
  then show "nat (numel t) = rows_before (tm_shape t) d * extent_of (tm_shape t) d * rest_of (tm_shape t) d"
    "0 < rows_before (tm_shape t) d" "0 < extent_of (tm_shape t) d" "0 < rest_of (tm_shape t) d"
    "int (extent_of (tm_shape t) d) = tm_shape t ! d"
    using n by (simp_all add: rows_before_def extent_of_def rest_of_def nat_mult_distrib mult.assoc)
qed

lemma scatter_ops_sum:
  assumes s: "serves_scatters s red item l" and item: "item dvd 16" "0 < item" and b: "scatter_op_bytes l = Inr b" "0 \<le> b"
    and W: "li_world l = int (length xs)" "rank < length xs" and m: "equal_lengths xs (length xs * block)"
    and b16: "16 dvd block * item" and j: "length junk = block" and whole: "n = int (length xs * (block * item))"
    and c: "ops = 1 \<and> (truthy (li_scatter_piece l) \<noteq> None \<or> n \<le> b) \<or> b \<noteq> 0 \<and> \<not> n \<le> b
      \<and> ops = cdiv (int (block * item)) (b div li_world l) \<and> piece = min (int (block * item)) (b div li_world l)"
  shows "(if ops = 1 then se_scatter s rank block block xs else assemble junk (scatter_writes s rank item (nat piece) block xs))
    = slice (rank * block) block (summed red xs)"
proof -
  let ?x = "int (block * item)" and ?y = "b div li_world l"
  have W0: "0 < length xs" "0 < li_world l" using W by linarith+
  have "li_world l * 16 dvd b" using scatter_op_bytes_bounds [OF b(1) W0(2)] by simp
  then obtain q where q: "b = li_world l * 16 * q" by blast
  have y: "?y = 16 * q" "li_world l * ?y = b" using q W0(2) by simp_all
  have more: "?y < ?x" if "\<not> n \<le> b"
  proof -
    have "li_world l * ?y < li_world l * ?x" using that y(2) whole W(1) by simp
    then show ?thesis using W0(2) by simp
  qed
  have pos: "16 \<le> ?y" if "b \<noteq> 0"
  proof -
    have "0 < q" using that b(2) q W0(2) by (simp add: zero_less_mult_iff order_le_less)
    then show ?thesis using y(1) by simp
  qed
  have one: "truthy (li_scatter_piece l) \<noteq> None \<or> n \<le> b" if o: "ops = 1"
  proof (rule ccontr)
    assume a: "\<not> (truthy (li_scatter_piece l) \<noteq> None \<or> n \<le> b)"
    then have "b \<noteq> 0" "cdiv ?x ?y = 1" using c o by auto
    then have "?x \<le> ?y" using cdiv_ops [of ?y ?x] pos more a by auto
    then show False using more a by simp
  qed
  show ?thesis
  proof (cases "ops = 1")
    case True
    have "truthy (li_scatter_piece l) \<noteq> None \<or> (\<exists>b. scatter_op_bytes l = Inr b \<and> int (length xs * (block * item)) \<le> b)"
      using one [OF True] whole b(1) by auto
    moreover have "(length xs - 1) * block + block \<le> length xs * block" using W0(1) by (cases "length xs") simp_all
    ultimately have "se_scatter s rank block block xs = slice (rank * block) block (summed red xs)"
      using W(2) b16 by (intro serves_scatter [OF s m]) simp_all
    then show ?thesis using True by simp
  next
    case False
    then have f: "b \<noteq> 0" "\<not> n \<le> b" "piece = min ?x ?y" using c by auto
    then have "piece = ?y" using more [OF f(2)] by simp
    then have "16 \<le> nat piece" "16 dvd nat piece" "int (length xs * nat piece) \<le> b"
      using pos [OF f(1)] y W(1) by (simp_all add: nat_mult_distrib le_nat_iff)
    from scatter_writes_make [OF s m W(2) item b(1) this b16 j] show ?thesis using False by simp
  qed
qed

text \<open>A rank's block of the moved sum, moved back, is its part of the scattered dimension.\<close>

lemma moved_block:
  assumes x: "equal_lengths xs (outer * extent * rest)" and first: "rank * kept + kept \<le> extent" and front: "front \<Longrightarrow> outer = 1"
    and block: "block = kept * (outer * rest)"
  shows "(let part = slice (rank * block) block (summed red (map (move_front outer extent rest) xs)) in
      if front then part else move_back outer kept rest part) = narrow outer extent rest (rank * kept) kept (summed red xs)"
proof -
  have part: "slice (rank * block) block (summed red (map (move_front outer extent rest) xs))
      = blocks kept (\<lambda>c. blocks outer (\<lambda>r. slice ((r * extent + (rank * kept + c)) * rest) rest (summed red xs)))"
    unfolding summed_moved [OF x] block using slice_moved [OF length_summed [OF x] first] by (simp add: mult.assoc)
  show ?thesis
  proof (cases front)
    case True
    then show ?thesis
      using front first_dimension [of "summed red xs" extent rest "rank * kept" kept] length_summed [OF x, of red] first part by simp
  next
    case False
    then show ?thesis unfolding part using moved_back [OF length_summed [OF x] first] by simp
  qed
qed

lemma planned_scatter_moved:
  assumes "tensor_ok t" "tm_itemsize t dvd 16" "pl_method p = ''scatter''" "d = axis_of axis (tm_shape t)"
    and "serves_scatters s red (nat (tm_itemsize t)) l" "scatter_op_bytes l = Inr b" "0 \<le> b"
    and "li_world l = int (length xs)" "rank < length xs" "\<forall>x\<in>set xs. int (length x) = numel t" "0 < numel t"
    and "int (length junk) = numel t" "(tm_shape t ! d) mod li_world l = 0" "(nbytes t div (tm_shape t ! d)) mod 16 = 0"
    and c: "let block = tm_shape t ! d div li_world l * (nbytes t div (tm_shape t ! d)) in
      pl_ops p = 1 \<and> (truthy (li_scatter_piece l) \<noteq> None \<or> nbytes t \<le> b) \<or> b \<noteq> 0 \<and> \<not> nbytes t \<le> b
        \<and> pl_ops p = cdiv block (b div li_world l) \<and> pl_piece p = min block (b div li_world l)"
  shows "exec_reduce_scatter s acc zero p t axis rank l P capturing xs junk gathered_junk = Inr (own_block t axis (length xs) rank (summed red xs))"
proof -
  let ?W = "length xs"
  define outer where "outer = rows_before (tm_shape t) d"
  define extent where "extent = extent_of (tm_shape t) d"
  define rest where "rest = rest_of (tm_shape t) d"
  define kept where "kept = extent div ?W"
  define item where "item = nat (tm_itemsize t)"
  define block where "block = kept * (outer * rest)"
  let ?moved = "map (move_front outer extent rest) xs"
  have "0 < length (tm_shape t)" using assms(1) by (simp add: tensor_ok_def)
  then have d: "d < length (tm_shape t)" by (simp add: assms(4) axis_of_def nat_less_iff)
  note sp = shape_split [OF assms(1) d assms(11), folded outer_def extent_def rest_def]
  have item: "item dvd 16" "0 < item" and it: "int item = tm_itemsize t"
    using assms(1,2) by (simp_all add: item_def tensor_ok_def nat_dvd_iff)
  have nb: "nbytes t = int (outer * extent * rest * item)"
    using sp(1) assms(11) it unfolding nbytes_def by (metis int_nat_eq less_imp_le of_nat_mult)
  have x: "equal_lengths xs (outer * extent * rest)" using assms(9,10) sp(1) by (auto simp: equal_lengths_def dest: bspec)
  have W: "0 < ?W" "0 < li_world l" using assms(8,9) by linarith+
  have "?W dvd extent" using assms(8,13) sp(5) by (metis mod_eq_0_iff_dvd of_nat_dvd_iff)
  then have kW: "kept * ?W = extent" by (simp add: kept_def)
  have "Suc rank * kept \<le> ?W * kept" using assms(9) by (intro mult_le_mono1) simp
  then have first: "rank * kept + kept \<le> extent" using kW by (simp add: mult.commute)
  have ext: "extent * (outer * rest) = ?W * block" unfolding block_def kW [symmetric] by (simp add: mult.assoc mult.left_commute)
  have m: "equal_lengths ?moved (length ?moved * block)"
    using x length_move_front [of _ outer extent rest] ext by (auto simp: equal_lengths_def)
  have row: "nbytes t div (tm_shape t ! d) = int (outer * rest * item)"
  proof -
    have "nbytes t = int extent * int (outer * rest * item)" unfolding nb by (simp add: mult.assoc mult.left_commute)
    then show ?thesis using sp(3,5) by (metis nonzero_mult_div_cancel_left of_nat_0_less_iff less_irrefl)
  qed
  have "16 dvd outer * rest * item" using assms(14) unfolding row by (metis mod_eq_0_iff_dvd int_dvd_int_iff of_nat_numeral)
  then have b16: "16 dvd block * item" unfolding block_def by (metis dvd_mult mult.assoc)
  have "outer * extent * rest * item = ?W * (block * item)" using ext by (simp add: mult.assoc mult.left_commute)
  then have whole: "nbytes t = int (length ?moved * (block * item))" using nb by (simp only: length_map)
  have bl: "tm_shape t ! d div li_world l * (nbytes t div (tm_shape t ! d)) = int (block * item)"
    unfolding row unfolding sp(5) [symmetric] assms(8) block_def kept_def by (simp add: zdiv_int mult.assoc)
  have len: "length (take block junk) = block" using ext sp(1) assms(12) W(1) by (cases ?W) (simp_all add: mult.assoc mult.left_commute)
  have out: "(if pl_ops p = 1 then se_scatter s rank block block ?moved
      else assemble (take block junk) (scatter_writes s rank item (nat (pl_piece p)) block ?moved)) = slice (rank * block) block (summed red ?moved)"
    using assms(8,9) c [unfolded Let_def bl] by (intro scatter_ops_sum [OF assms(5) [folded item_def] item assms(6,7) _ _ m b16 len whole]) simp_all
  have kw: "extent div nat (li_world l) = kept" by (simp add: assms(8) kept_def)
  have "exec_reduce_scatter s acc zero p t axis rank l P capturing xs junk gathered_junk
      = Inr (let part = slice (rank * block) block (summed red ?moved) in if d = 0 then part else move_back outer kept rest part)"
    unfolding exec_reduce_scatter_def Let_def assms(4) [symmetric] outer_def [symmetric] extent_def [symmetric] rest_def [symmetric]
      item_def [symmetric] kw block_def [symmetric] out assms(3) by simp
  also have "\<dots> = Inr (narrow outer extent rest (rank * kept) kept (summed red xs))"
    by (subst moved_block [OF x first _ block_def]) (simp_all add: outer_def rows_before_def)
  finally show ?thesis
    by (simp add: own_block_def outer_def extent_def rest_def kept_def assms(4) Let_def)
qed


definition half_matrix :: TensorMeta where
  "half_matrix = \<lparr>tm_shape = [4, 16], tm_dtype = ''float16'', tm_itemsize = 2, tm_contiguous = True\<rparr>"

lemma ideal_scatters: "serves_scatters (ideal_session red False) red item l"
  by (auto simp: serves_scatters_def ideal_session_def)


section \<open>All-to-all\<close>

text \<open>An exchange of whole packs within the scatter limit leaves a rank with its chunk of every rank's buffer, in rank order.\<close>

definition serves_exchanges :: "'c Session \<Rightarrow> SessionLimits \<Rightarrow> bool" where
  "serves_exchanges s l \<longleftrightarrow>
    (\<forall>rank n stride xs m. equal_lengths xs m \<longrightarrow> rank < length xs \<longrightarrow> (length xs - 1) * stride + n \<le> m \<longrightarrow> n mod 16 = 0
      \<longrightarrow> truthy (li_scatter_piece l) \<noteq> None \<or> (\<exists>b. scatter_op_bytes l = Inr b \<and> int (length xs * n) \<le> b)
      \<longrightarrow> se_exchange s rank n stride xs = map (slice (rank * stride) n) xs)"

lemma serves_exchange:
  assumes "serves_exchanges s l" "equal_lengths xs m" "rank < length xs" "(length xs - 1) * stride + n \<le> m" "n mod 16 = 0"
    and "truthy (li_scatter_piece l) \<noteq> None \<or> (\<exists>b. scatter_op_bytes l = Inr b \<and> int (length xs * n) \<le> b)"
  shows "se_exchange s rank n stride xs = map (slice (rank * stride) n) xs"
  by (rule assms(1) [unfolded serves_exchanges_def, rule_format, OF assms(2-6)])

definition exchanged :: "nat \<Rightarrow> nat \<Rightarrow> 'c list list \<Rightarrow> 'c list" where
  "exchanged rank block xs = concat (map (slice (rank * block) block) xs)"

lemma exchanged_blocks: "exchanged rank block xs = blocks (length xs) (\<lambda>w. slice (rank * block) block (xs ! w))"
  unfolding exchanged_def by (rule concat_map_blocks)

lemma own_length:
  assumes "equal_lengths xs (length xs * block)" "rank < length xs" "w < length xs"
  shows "length (slice (rank * block) block (xs ! w)) = block"
proof -
  have "Suc rank * block \<le> length xs * block" using assms(2) by (intro mult_le_mono1) simp
  then show ?thesis using assms(1,3) by (auto simp: equal_lengths_def)
qed

lemma exchange_writes_make:
  assumes s: "serves_exchanges s l" and e: "equal_lengths xs (length xs * block)" and rank: "rank < length xs"
    and b: "scatter_op_bytes l = Inr b" and step: "16 \<le> step" "16 dvd step" "int (length xs * step) \<le> b"
    and block: "16 dvd block" and j: "length junk = length xs * block"
  shows "assemble junk (exchange_writes s rank step block xs) = exchanged rank block xs"
proof -
  let ?T = "exchanged rank block xs"
  have l: "length ?T = length xs * block" unfolding exchanged_blocks using own_length [OF e rank] by (rule length_blocks)
  have ex: "se_exchange s rank n block (map (drop off) xs) = map (slice (off + rank * block) n) xs"
    if r: "(off, n) \<in> set (ranges block step)" for off n
  proof -
    have st: "max 1 step = step" using step(1) by simp
    note q = ranges_in [OF r, unfolded st]
    have "16 dvd off" using q step(2) by (meson dvd_trans)
    obtain i where "off = i * step" "n = min step (block - i * step)" using r unfolding ranges_by [OF st] by auto
    then have "n = min step (block - off)" by simp
    then have "16 dvd n" using step(2) block \<open>16 dvd off\<close> by (auto simp: min_def dvd_diff_nat)
    then have n16: "n mod 16 = 0" by simp
    have d: "equal_lengths (map (drop off) xs) (length xs * block - off)" using e by (auto simp: equal_lengths_def)
    have "(length xs - 1) * block + block = length xs * block" using rank by (cases "length xs") simp_all
    then have fit: "(length (map (drop off) xs) - 1) * block + n \<le> length xs * block - off"
      using q unfolding length_map by linarith
    have "int (length xs * n) \<le> int (length xs * step)" using q by (intro of_nat_mono mult_le_mono2) simp
    then have "int (length xs * n) \<le> b" using step(3) by (rule order_trans)
    then have "int (length (map (drop off) xs) * n) \<le> b" unfolding length_map .
    then have "se_exchange s rank n block (map (drop off) xs) = map (slice (rank * block) n) (map (drop off) xs)"
      using rank b by (intro serves_exchange [OF s d _ fit n16]) auto
    then show ?thesis by (simp add: o_def)
  qed
  have each: "agrees ?T (off + w * block, slice (off + rank * block) n (xs ! w)) \<and> length (slice (off + rank * block) n (xs ! w)) = n"
    if r: "(off, n) \<in> set (ranges block step)" and w: "w < length xs" for off n w
  proof -
    have fit: "off + n \<le> block" using ranges_in [OF r] by simp
    have own: "length (slice (rank * block) block (xs ! v)) = block" if "v < length xs" for v using own_length [OF e rank that] .
    have "slice (w * block + off) n ?T = slice off n (slice (rank * block) block (xs ! w))"
      unfolding exchanged_blocks by (rule slice_in_block [OF own w fit])
    also have "\<dots> = slice (rank * block + off) n (xs ! w)" by (rule slice_slice [OF fit])
    finally have sl: "slice (off + w * block) n ?T = slice (off + rank * block) n (xs ! w)" by (simp add: add.commute)
    have "Suc w * block \<le> length xs * block" using w by (intro mult_le_mono1) simp
    then have "off + w * block + n \<le> length ?T" using fit l by simp
    then show ?thesis using sl by (metis agrees_def fst_conv length_slice snd_conv)
  qed
  have ws: "exchange_writes s rank step block xs = concat (map (\<lambda>(off, n).
      map (\<lambda>(w, part). (off + w * block, part)) (List.enumerate 0 (map (slice (off + rank * block) n) xs))) (ranges block step))"
    unfolding exchange_writes_def using ex by (intro arg_cong [where f = concat] map_cong) auto
  have mem: "v \<in> set (exchange_writes s rank step block xs) \<longleftrightarrow>
      (\<exists>(off, n)\<in>set (ranges block step). \<exists>w < length xs. v = (off + w * block, slice (off + rank * block) n (xs ! w)))" for v
    unfolding ws by (force simp: in_set_enumerate_eq)
  show ?thesis
  proof (rule assemble_is)
    show "agrees ?T v" if "v \<in> set (exchange_writes s rank step block xs)" for v using that each unfolding mem by blast
    show "length junk = length ?T" using j l by simp
    show "\<exists>v\<in>set (exchange_writes s rank step block xs). covers v i" if i: "i < length ?T" for i
    proof -
      have bp: "0 < block" using i l by (cases block) simp_all
      define w where "w = i div block"
      have w: "w < length xs" and c: "i = w * block + i mod block" "i mod block < block"
        using i l bp by (simp_all add: w_def div_less_iff_less_mult)
      obtain off n where r: "(off, n) \<in> set (ranges block step)" "off \<le> i mod block" "i mod block < off + n"
        using ranges_cover [OF c(2), of step] by blast
      let ?v = "(off + w * block, slice (off + rank * block) n (xs ! w))"
      have "length (snd ?v) = n" using each [OF r(1) w] by simp
      then have "covers ?v i" unfolding covers_def using r(2,3) c(1) by simp
      moreover have "?v \<in> set (exchange_writes s rank step block xs)" unfolding mem using r(1) w by blast
      ultimately show ?thesis by blast
    qed
  qed
qed

lemma exchange_cases:
  assumes "plan_all_to_all t (Some l) P k = Inr p" "pl_backend p = Sircl" "nbytes t \<noteq> 0" "scatter_op_bytes l = Inr b"
  shows "(pl_method p = ''scatter'' \<and> nbytes t mod (li_world l * 16) = 0
      \<and> (pl_ops p = 1 \<and> truthy (li_scatter_piece l) \<noteq> None \<or> b \<noteq> 0 \<and> pl_ops p = max 1 (cdiv (nbytes t) b)))
    \<or> pl_method p = ''gather_pick''
      \<and> (\<exists>inner. plan_all_gather (flat_bytes t) 0 (Some l) (internal P) k = Inr inner \<and> pl_backend inner = Sircl)"
proof -
  let ?prepared = "nbytes t mod (li_world l * PACK_BYTES) = 0 \<and> li_all_to_all l"
  let ?copy = "\<not> tm_contiguous t"
  have p: "(if prefers_nccl P ''all_to_all'' (nbytes t) b k
      then Inr (by_nccl ''all_to_all'' ''above the group's SIRCL all-to-all threshold'')
      else if ?prepared \<and> truthy (li_scatter_piece l) \<noteq> None
      then Inr (by_sircl ''all_to_all'' ''scatter'' 1 (nbytes t) ''session all-to-all of the whole message'' ?copy)
      else if ?prepared \<and> b \<noteq> 0
      then Inr (by_sircl ''all_to_all'' ''scatter'' (max 1 (cdiv (nbytes t) b)) (min (nbytes t) b) ''session all-to-all'' ?copy)
      else if nccl_allows P ''all_to_all'' \<and> \<not> k
      then Inr (by_nccl ''all_to_all'' ''the group's cabling connects every pair of ranks'')
      else gather_of_bytes ''all_to_all'' ''gather_pick'' t (Some l) P k
           ''all-gather of every rank's send buffer, then this rank's chunks'') = Inr p"
    using assms(1,3,4) unfolding plan_all_to_all_def Let_def by simp
  have np: "\<not> prefers_nccl P ''all_to_all'' (nbytes t) b k"
  proof
    assume "prefers_nccl P ''all_to_all'' (nbytes t) b k"
    then have "pl_backend p = Nccl" using p by (auto simp: by_nccl_def)
    then show False using assms(2) by simp
  qed
  show ?thesis
  proof (cases "?prepared \<and> truthy (li_scatter_piece l) \<noteq> None")
    case True
    then have "p = by_sircl ''all_to_all'' ''scatter'' 1 (nbytes t) ''session all-to-all of the whole message'' ?copy"
      using p unfolding if_not_P [OF np] if_P [OF True] by simp
    then show ?thesis using True by (simp add: by_sircl_def)
  next
    case False
    note p = p [unfolded if_not_P [OF np] if_not_P [OF False]]
    show ?thesis
    proof (cases "?prepared \<and> b \<noteq> 0")
      case True
      then have "p = by_sircl ''all_to_all'' ''scatter'' (max 1 (cdiv (nbytes t) b)) (min (nbytes t) b) ''session all-to-all'' ?copy"
        using p unfolding if_P [OF True] by simp
      then show ?thesis using True by (simp add: by_sircl_def)
    next
      case False
      note p = p [unfolded if_not_P [OF False]]
      show ?thesis
      proof (cases "nccl_allows P ''all_to_all'' \<and> \<not> k")
        case True
        then have "pl_backend p = Nccl" using p unfolding if_P [OF True] by (auto simp: by_nccl_def)
        then show ?thesis using assms(2) by simp
      next
        case False
        from of_bytes_inner [OF p [unfolded if_not_P [OF False]] assms(2)] show ?thesis by blast
      qed
    qed
  qed
qed

lemma exchange_ops_deliver:
  assumes s: "serves_exchanges s l" and b: "scatter_op_bytes l = Inr b" "0 \<le> b" and W: "li_world l = int (length xs)" "rank < length xs"
    and e: "equal_lengths xs (length xs * block)" and b16: "16 dvd block" and j: "length junk = length xs * block"
    and n: "n = int (length xs * block)" "n \<noteq> 0"
    and c: "ops = 1 \<and> truthy (li_scatter_piece l) \<noteq> None \<or> b \<noteq> 0 \<and> ops = max 1 (cdiv n b)"
  shows "(if ops = 1 then concat (se_exchange s rank block block xs)
      else assemble junk (exchange_writes s rank (nat (max PACK_BYTES (b div li_world l div PACK_BYTES * PACK_BYTES))) block xs))
    = exchanged rank block xs"
proof -
  have W0: "0 < length xs" "0 < li_world l" using W by linarith+
  have "li_world l * 16 dvd b" using scatter_op_bytes_bounds [OF b(1) W0(2)] by simp
  then obtain q where q: "b = li_world l * 16 * q" by blast
  show ?thesis
  proof (cases "ops = 1")
    case True
    have "truthy (li_scatter_piece l) \<noteq> None \<or> n \<le> b"
    proof (rule ccontr)
      assume a: "\<not> (truthy (li_scatter_piece l) \<noteq> None \<or> n \<le> b)"
      then have "0 < b" "cdiv n b \<le> 1" using c True b(2) by auto
      then have "n \<le> 1 * b" using cdiv_le_iff [of b n 1] by simp
      then show False using a by simp
    qed
    then have "truthy (li_scatter_piece l) \<noteq> None \<or> (\<exists>b. scatter_op_bytes l = Inr b \<and> int (length xs * block) \<le> b)"
      using b(1) n(1) by auto
    moreover have "(length xs - 1) * block + block \<le> length xs * block" using W0(1) by (cases "length xs") simp_all
    ultimately have "se_exchange s rank block block xs = map (slice (rank * block) block) xs"
      using b16 by (intro serves_exchange [OF s e W(2)]) simp_all
    then show ?thesis using True by (simp add: exchanged_def)
  next
    case False
    then have "0 < b" using c b(2) by auto
    then have "0 < q" using q W0(2) by (simp add: zero_less_mult_iff)
    have "b div li_world l = 16 * q" using q W0(2) by simp
    then have st: "max PACK_BYTES (b div li_world l div PACK_BYTES * PACK_BYTES) = 16 * q" using \<open>0 < q\<close> by simp
    have "assemble junk (exchange_writes s rank (nat (16 * q)) block xs) = exchanged rank block xs"
    proof (rule exchange_writes_make [OF s e W(2) b(1)])
      show "16 \<le> nat (16 * q)" "16 dvd nat (16 * q)" "int (length xs * nat (16 * q)) \<le> b"
        using \<open>0 < q\<close> q W(1) by (simp_all add: nat_mult_distrib le_nat_iff)
    qed (use b16 j in simp_all)
    then show ?thesis using False st by simp
  qed
qed

text \<open>
  C12: carrying out a planned all-to-all exchanges: through session scatters of whole packs, one or many, or a gather of all bytes of
  which every rank picks its chunks, the output of a rank is its chunk of every rank's buffer, in rank order.
\<close>

theorem planned_exchange_delivers:
  assumes "plan_all_to_all t (Some l) P capturing = Inr p" "pl_backend p = Sircl" "tensor_ok t" "nbytes t \<noteq> 0"
    and "serves_exchanges s l" "serves_gathers s 1 l" "1 \<le> gather_op_bytes l" "scatter_op_bytes l = Inr b" "0 \<le> b"
    and "li_world l = int (length xs)" "rank < length xs" "nbytes t = int (length xs * block)"
    and "\<forall>x\<in>set xs. int (length x) = nbytes t" "length junk = length xs * block" "length gathered_junk = length xs * length junk"
  shows "exec_all_to_all s p t rank l P capturing xs junk gathered_junk = Inr (exchanged rank block xs)"
proof -
  have W: "0 < length xs" using assms(11) by linarith
  have nb: "nat (nbytes t) = length xs * block" using assms(12) by (metis nat_int)
  then have per: "nat (nbytes t) div nat (li_world l) = block" using assms(10) W by simp
  have xl: "length x = length xs * block" if "x \<in> set xs" for x using assms(13) that nb by (metis nat_int)
  have e: "equal_lengths xs (length xs * block)" using xl W by (auto simp: equal_lengths_def)
  consider (scatter) "pl_method p = ''scatter''" "nbytes t mod (li_world l * 16) = 0"
      "pl_ops p = 1 \<and> truthy (li_scatter_piece l) \<noteq> None \<or> b \<noteq> 0 \<and> pl_ops p = max 1 (cdiv (nbytes t) b)"
    | (pick) inner where "pl_method p = ''gather_pick''" "plan_all_gather (flat_bytes t) 0 (Some l) (internal P) capturing = Inr inner"
      "pl_backend inner = Sircl"
    using exchange_cases [OF assms(1,2,4,8)] by blast
  then show ?thesis
  proof cases
    case scatter
    have "int (length xs) * 16 dvd int (length xs) * int block"
      using scatter(2) assms(10,12) by (simp add: mod_eq_0_iff_dvd)
    then have "16 dvd int block" using W by simp
    then have b16: "16 dvd block" by (metis int_dvd_int_iff of_nat_numeral)
    from exchange_ops_deliver [OF assms(5,8,9,10,11) e b16 assms(14,12,4) scatter(3)] show ?thesis
      using scatter(1) assms(8) per by (simp add: exec_all_to_all_def Let_def split: if_splits)
  next
    case pick
    have "gather_all_bytes s t l P capturing xs gathered_junk = Inr xs"
    proof (rule bytes_gathered [OF pick(2,3) assms(6,7)])
      show "0 < nbytes t" using assms(4,12) by simp
      show "length gathered_junk = length xs * nat (nbytes t)" using assms(14,15) nb by simp
    qed (use xl nb in simp)
    then show ?thesis using pick(1) per by (simp add: exec_all_to_all_def exchanged_def)
  qed
qed


lemma ideal_exchanges: "serves_exchanges (ideal_session red native) l"
  by (auto simp: serves_exchanges_def ideal_session_def)

lemma planned_exchange_delivers_witness:
  "\<exists>p. plan_all_to_all half_matrix (Some small_session) ring_policy True = Inr p \<and> pl_method p = ''scatter'' \<and> pl_ops p = 2
    \<and> exec_all_to_all (ideal_session hd False) p half_matrix 1 small_session ring_policy True
        [[0..<128], [128..<256]] (replicate 128 0) (replicate 256 0)
      = Inr (exchanged 1 64 [[0..<128], [128..<256]])"
proof -
  have "case plan_all_to_all half_matrix (Some small_session) ring_policy True of Inl _ \<Rightarrow> False
    | Inr p \<Rightarrow> pl_backend p = Sircl \<and> pl_method p = ''scatter'' \<and> pl_ops p = 2" by code_simp
  then obtain p where p: "plan_all_to_all half_matrix (Some small_session) ring_policy True = Inr p"
    "pl_backend p = Sircl" "pl_method p = ''scatter''" "pl_ops p = 2" by (auto split: sum.splits)
  have h: "tensor_ok half_matrix" "nbytes half_matrix = 128" "1 \<le> gather_op_bytes small_session"
    "truthy (li_gather_piece small_session) = None" "scatter_op_bytes small_session = Inr 96" "li_world small_session = 2"
    by code_simp+
  let ?s = "ideal_session hd False"
  have "exec_all_to_all ?s p half_matrix 1 small_session ring_policy True [[0..<128], [128..<256]] (replicate 128 0) (replicate 256 0)
    = Inr (exchanged 1 64 [[0..<128], [128..<256]])"
  proof (rule planned_exchange_delivers [OF p(1,2) h(1)])
    show "serves_exchanges ?s small_session" by (rule ideal_exchanges)
    show "serves_gathers ?s 1 small_session" by (rule ideal_gathers) (simp add: h(4))
    show "scatter_op_bytes small_session = Inr 96" by (rule h(5))
  qed (simp_all add: h(2,3,6))
  then show ?thesis using p by auto
qed

end
