(* ===== verification/ExecutorUneven.thy ===== *)
theory ExecutorUneven
  imports ExecutorBlocks
begin

text \<open>
  What the uneven collectives of \<open>vllm/executor.py\<close> deliver: a gather of shards of different lengths, each padded to the longest
  and cut back, and the reduce-scatter with sizes.
\<close>

section \<open>Uneven gathers\<close>

lemma exec_all_gather_cong: "pl_method p = pl_method q \<Longrightarrow> pl_piece p = pl_piece q \<Longrightarrow> exec_all_gather s p = exec_all_gather s q"
  by (intro ext) (simp only: exec_all_gather_def)

lemma gather_methods:
  assumes "plan_all_gather t axis (Some l) P k = Inr p" "pl_backend p = Sircl" "tensor_ok t"
  shows "take 7 (pl_method p) \<noteq> ''padded_''"
proof (cases "nbytes t = 0")
  case True
  then show ?thesis using assms by (auto simp: plan_all_gather_def by_sircl_def tensor_ok_def)
next
  case False
  from gather_session_cases [OF assms False] show ?thesis
    by (auto simp: split_gather_def Let_def bind_res_Inr by_sircl_def split: option.splits if_splits prod.splits)
qed

definition padded_meta :: "TensorMeta \<Rightarrow> int \<Rightarrow> TensorMeta" where
  "padded_meta t longest =
    \<lparr>tm_shape = longest # tl (tm_shape t), tm_dtype = tm_dtype t, tm_itemsize = tm_itemsize t, tm_contiguous = True\<rparr>"

lemma gatherv_inner:
  assumes "plan_all_gatherv t (Some ns) (Some l) P k = Inr p" "pl_backend p = Sircl" "\<not> even_sizes (Some ns)"
  obtains inner where "plan_all_gather (padded_meta t (Max (set ns))) 0 (Some l) P k = Inr inner" "pl_backend inner = Sircl"
    "pl_method p = ''padded_'' @ pl_method inner" "pl_piece p = pl_piece inner" "ns \<noteq> []"
proof -
  have n: "ns \<noteq> []" using assms(1,3) by (auto simp: plan_all_gatherv_def)
  note e = assms(1) [unfolded plan_all_gatherv_def Let_def if_not_P [OF assms(3)] option.sel if_not_P [OF n] padded_meta_def [symmetric]]
  then obtain inner where g: "plan_all_gather (padded_meta t (Max (set ns))) 0 (Some l) P k = Inr inner"
    by (cases "plan_all_gather (padded_meta t (Max (set ns))) 0 (Some l) P k") simp_all
  have p: "(if pl_backend inner \<noteq> Sircl then Inr (named ''all_gatherv'' inner)
      else Inr (by_sircl ''all_gatherv'' (''padded_'' @ pl_method inner) (pl_ops inner) (pl_piece inner)
        ''uneven sizes padded to the longest'' True)) = (Inr p :: py_error + Plan)" using e unfolding g bind_res.simps .
  have b: "pl_backend inner = Sircl" using p assms(2) by (auto simp: named_def split: if_splits)
  then have "p = by_sircl ''all_gatherv'' (''padded_'' @ pl_method inner) (pl_ops inner) (pl_piece inner)
    ''uneven sizes padded to the longest'' True" using p by simp
  then show thesis using that [OF g b _ _ n] by (simp add: by_sircl_def)
qed

lemma gatherv_even:
  assumes "plan_all_gatherv t (Some ns) (Some l) P k = Inr p" "pl_backend p = Sircl" "even_sizes (Some ns)"
  obtains inner where "plan_all_gather t 0 (Some l) P k = Inr inner" "pl_backend inner = Sircl"
    "pl_method p = pl_method inner" "pl_piece p = pl_piece inner"
  using assms unfolding plan_all_gatherv_def by (cases "plan_all_gather t 0 (Some l) P k") (auto simp: named_def)

lemma even_sizes_same: "even_sizes (Some ns) \<Longrightarrow> n \<in> set ns \<Longrightarrow> n' \<in> set ns \<Longrightarrow> n = n'"
proof -
  assume "even_sizes (Some ns)" and n: "n \<in> set ns" "n' \<in> set ns"
  then obtain a where "remdups ns = [a]" by (auto simp: even_sizes_def length_Suc_conv)
  then have "set ns = {a}" by (metis list.set(1,2) set_remdups)
  then show ?thesis using n by simp
qed

lemma first_axis:
  assumes "tm_shape t = n # ms"
  shows "gathered (tm_shape t) 0 item xs = cat_along 1 (nat (n * prod_list ms) * item) xs" "numel t = n * prod_list ms"
  using assms by (simp_all add: gathered_def axis_of_def rows_before_def row_elems_def numel_def)

lemma cut_padded:
  assumes "\<And>w. w < length xs \<Longrightarrow> length (xs ! w) = nat (ns ! w) * rest" "\<And>w. w < length xs \<Longrightarrow> nat (ns ! w) \<le> longest"
  shows "concat (map (\<lambda>w. slice (w * (longest * rest)) (nat (ns ! w) * rest)
      (blocks (length xs) (\<lambda>w. xs ! w @ replicate (longest * rest - length (xs ! w)) zero))) [0..<length xs]) = concat xs"
proof -
  let ?f = "\<lambda>w. xs ! w @ replicate (longest * rest - length (xs ! w)) zero"
  have m: "nat (ns ! w) * rest \<le> longest * rest" if "w < length xs" for w using assms(2) [OF that] by simp
  have "slice (w * (longest * rest)) (nat (ns ! w) * rest) (blocks (length xs) ?f) = xs ! w" if w: "w < length xs" for w
  proof -
    have "slice (w * (longest * rest) + 0) (nat (ns ! w) * rest) (blocks (length xs) ?f) = slice 0 (nat (ns ! w) * rest) (?f w)"
      using m [OF w] assms(1) m by (intro slice_in_block w) simp_all
    then show ?thesis using assms(1) [OF w] by (simp add: slice_def)
  qed
  then have "map (\<lambda>w. slice (w * (longest * rest)) (nat (ns ! w) * rest) (blocks (length xs) ?f)) [0..<length xs] = xs"
    by (intro nth_equalityI) simp_all
  then show ?thesis by simp
qed

lemma blocks_of_map: "blocks (length (map f xs)) ((!) (map f xs)) = blocks (length xs) (\<lambda>w. f (xs ! w))"
  unfolding length_map by (intro blocks_cong) simp

text \<open>Shards of \<open>ns ! w\<close> rows of \<open>rest\<close> cells: the whole gather where the sizes are even, the padded one where they are not.\<close>

lemma even_gather:
  assumes plan: "plan_all_gatherv t (Some ns) (Some l) P k = Inr p" "pl_backend p = Sircl" "even_sizes (Some ns)" "tensor_ok t"
    and s: "serves_gathers s 1 l" "tm_itemsize t \<le> gather_op_bytes l"
    and sh: "tm_shape t = n # ms" "n = ns ! rank" "length ns = length xs" "rank < length xs" "0 \<le> n"
    and rest: "rest = nat (prod_list ms) * nat (tm_itemsize t)"
    and len: "\<And>w. w < length xs \<Longrightarrow> length (xs ! w) = nat (ns ! w) * rest"
    and j: "length junk = length xs * (nat (Max (set ns)) * rest)"
  shows "exec_all_gatherv s zero p t ns (nat (tm_itemsize t)) xs junk = Inr (concat xs)"
proof -
  let ?item = "nat (tm_itemsize t)"
  from gatherv_even [OF plan(1-3)] obtain inner where
    inner: "plan_all_gather t 0 (Some l) P k = Inr inner" "pl_backend inner = Sircl"
    "pl_method p = pl_method inner" "pl_piece p = pl_piece inner" by blast
  have same: "m = n" if "m \<in> set ns" for m using even_sizes_same [OF plan(3) that] sh(2-4) by simp
  have "Max (set ns) \<in> set ns" using sh(3,4) by (intro Max_in) auto
  from same [OF this] have mx: "Max (set ns) = n" .
  have rows: "nat (numel t) * ?item = nat n * rest" using first_axis(2) [OF sh(1)] sh(5) rest by (simp add: nat_mult_distrib)
  have each: "length x = nat (numel t) * ?item" if x: "x \<in> set xs" for x
  proof -
    obtain w where w: "w < length xs" "x = xs ! w" using x unfolding in_set_conv_nth by blast
    then have "ns ! w = n" using sh(3) by (intro same) simp
    then show ?thesis using len [OF w(1)] w(2) rows by simp
  qed
  have "exec_all_gather s p (tm_shape t) 0 ?item xs junk = exec_all_gather s inner (tm_shape t) 0 ?item xs junk"
    by (simp only: exec_all_gather_cong [OF inner(3,4)])
  also have "\<dots> = Inr (gathered (tm_shape t) 0 ?item xs)"
    by (rule exec_planned_gather [where weight = 1, OF inner(1,2) plan(4) s(1) _ s(2) each]) (simp_all add: j mx rows)
  also have "gathered (tm_shape t) 0 ?item xs = concat xs"
    unfolding first_axis(1) [OF sh(1)] first_axis(2) [OF sh(1), symmetric] using one_row [of xs, OF each]
    by (simp add: blocks_def map_nth)
  finally show ?thesis using gather_methods [OF inner(1,2) plan(4)] inner(3) by (simp add: exec_all_gatherv_def)
qed

lemma padded_gather:
  assumes plan: "plan_all_gatherv t (Some ns) (Some l) P k = Inr p" "pl_backend p = Sircl" "\<not> even_sizes (Some ns)"
    and s: "serves_gathers s 1 l" "tm_itemsize t \<le> gather_op_bytes l" and i: "0 < tm_itemsize t"
    and sh: "tm_shape t = n # ms" "list_all (\<lambda>n. 0 \<le> n) ms" "0 \<le> Max (set ns)" and ns: "length ns = length xs"
    and rest: "rest = nat (prod_list ms) * nat (tm_itemsize t)"
    and len: "\<And>w. w < length xs \<Longrightarrow> length (xs ! w) = nat (ns ! w) * rest"
    and j: "length junk = length xs * (nat (Max (set ns)) * rest)"
  shows "exec_all_gatherv s zero p t ns (nat (tm_itemsize t)) xs junk = Inr (concat xs)"
proof -
  let ?item = "nat (tm_itemsize t)" and ?m = "Max (set ns)"
  let ?pad = "\<lambda>x. x @ replicate (nat ?m * rest - length x) zero"
  have top: "nat (ns ! w) \<le> nat ?m" if "w < length xs" for w using that ns by (intro nat_mono) simp
  from gatherv_inner [OF plan] obtain inner where
    inner: "plan_all_gather (padded_meta t ?m) 0 (Some l) P k = Inr inner" "pl_backend inner = Sircl"
    "pl_method p = ''padded_'' @ pl_method inner" "pl_piece p = pl_piece inner" by blast
  have pm: "tm_shape (padded_meta t ?m) = ?m # ms" "tm_itemsize (padded_meta t ?m) = tm_itemsize t"
    using sh(1) by (simp_all add: padded_meta_def)
  have tok: "tensor_ok (padded_meta t ?m)" using pm sh(2,3) i by (simp add: tensor_ok_def)
  have mr: "nat (?m * prod_list ms) * ?item = nat ?m * rest" using sh(3) rest by (simp add: nat_mult_distrib)
  have each: "length y = nat ?m * rest" if y: "y \<in> set (map ?pad xs)" for y
  proof -
    obtain x where "x \<in> set xs" "y = ?pad x" using y by auto
    then obtain w where w: "w < length xs" "y = ?pad (xs ! w)" unfolding in_set_conv_nth by blast
    have "nat (ns ! w) * rest \<le> nat ?m * rest" using top [OF w(1)] by (rule mult_le_mono1)
    then show ?thesis using len [OF w(1)] w(2) by simp
  qed
  have "exec_all_gather s (padded_inner p) = exec_all_gather s inner"
    using inner(3,4) by (intro exec_all_gather_cong) (simp_all add: padded_inner_def)
  then have "exec_all_gather s (padded_inner p) (?m # tl (tm_shape t)) 0 ?item (map ?pad xs) junk
    = exec_all_gather s inner (tm_shape (padded_meta t ?m)) 0 ?item (map ?pad xs) junk" using pm sh(1) by simp
  also have "\<dots> = Inr (gathered (tm_shape (padded_meta t ?m)) 0 ?item (map ?pad xs))"
  proof (rule exec_planned_gather [where weight = 1, OF inner(1,2) tok s(1)])
    show "?item * 1 = nat (tm_itemsize (padded_meta t ?m))" "tm_itemsize (padded_meta t ?m) \<le> gather_op_bytes l"
      using pm s(2) by simp_all
    show "length x = nat (numel (padded_meta t ?m)) * ?item" if "x \<in> set (map ?pad xs)" for x
      using each [OF that] first_axis(2) [OF pm(1)] mr by simp
    show "length junk = length (map ?pad xs) * (nat (numel (padded_meta t ?m)) * ?item)"
      using j first_axis(2) [OF pm(1)] mr by simp
  qed
  also have "gathered (tm_shape (padded_meta t ?m)) 0 ?item (map ?pad xs) = blocks (length xs) (\<lambda>w. ?pad (xs ! w))"
    unfolding first_axis(1) [OF pm(1)] mr using one_row [of "map ?pad xs", OF each] unfolding blocks_of_map by simp
  finally have g: "exec_all_gather s (padded_inner p) (?m # tl (tm_shape t)) 0 ?item (map ?pad xs) junk
    = Inr (blocks (length xs) (\<lambda>w. ?pad (xs ! w)))" .
  have "concat (map (\<lambda>w. slice (w * (nat ?m * rest)) (nat (ns ! w) * rest) (blocks (length xs) (\<lambda>w. ?pad (xs ! w)))) [0..<length xs])
    = concat xs" using top by (intro cut_padded len)
  then show ?thesis using g inner(3) sh(1) by (simp add: exec_all_gatherv_def Let_def rest)
qed

text \<open>
  C14: an uneven gather delivers: carried out with the plan the planner made, shards of any lengths, padded to the longest where they
  differ, come out one after the other in rank order, without their padding, whatever the output buffer held.
\<close>

theorem uneven_gather_delivers:
  assumes "plan_all_gatherv t (Some ns) (Some l) P capturing = Inr p" "pl_backend p = Sircl" "tensor_ok t"
    and "serves_gathers s 1 l" "tm_itemsize t \<le> gather_op_bytes l"
    and "length ns = length xs" "rank < length xs" "hd (tm_shape t) = ns ! rank" "\<forall>n\<in>set ns. 0 \<le> n"
    and "\<forall>w<length xs. int (length (xs ! w)) = ns ! w * (prod_list (tl (tm_shape t)) * tm_itemsize t)"
    and "int (length junk) = int (length xs) * (Max (set ns) * (prod_list (tl (tm_shape t)) * tm_itemsize t))"
  shows "exec_all_gatherv s zero p t ns (nat (tm_itemsize t)) xs junk = Inr (concat xs)"
proof -
  let ?m = "Max (set ns)"
  have "tm_shape t \<noteq> []" using assms(3) by (simp add: tensor_ok_def)
  then obtain ms where sh: "tm_shape t = ns ! rank # ms" using assms(8) by (cases "tm_shape t") simp_all
  have P0: "0 \<le> prod_list ms" and i0: "0 < tm_itemsize t" and ok: "list_all (\<lambda>n. 0 \<le> n) ms"
    using assms(3) sh prod_list_pos [of ms] by (auto simp: tensor_ok_def order_le_less)
  define rest where "rest = nat (prod_list ms) * nat (tm_itemsize t)"
  have rest: "int rest = prod_list (tl (tm_shape t)) * tm_itemsize t" using P0 i0 sh by (simp add: rest_def)
  have pos: "0 \<le> ns ! w" if "w < length xs" for w using assms(6,9) that by simp
  have len: "length (xs ! w) = nat (ns ! w) * rest" if "w < length xs" for w
    using assms(10) that pos [OF that] rest by (metis int_nat_eq of_nat_eq_iff of_nat_mult)
  have "ns ! rank \<le> ?m" using assms(6,7) by simp
  then have m0: "0 \<le> ?m" using pos [OF assms(7)] by linarith
  have jl: "length junk = length xs * (nat ?m * rest)"
    using assms(11) m0 rest by (metis int_nat_eq of_nat_eq_iff of_nat_mult)
  show ?thesis
  proof (cases "even_sizes (Some ns)")
    case True
    show ?thesis
      by (rule even_gather [OF assms(1,2) True assms(3,4,5) sh refl assms(6,7) pos [OF assms(7)] rest_def len jl])
  next
    case False
    show ?thesis by (rule padded_gather [OF assms(1,2) False assms(4,5) i0 sh ok m0 assms(6) rest_def len jl])
  qed
qed

definition own_row :: TensorMeta where
  "own_row = \<lparr>tm_shape = [1, 20], tm_dtype = ''float16'', tm_itemsize = 2, tm_contiguous = True\<rparr>"

lemma uneven_gather_delivers_witness:
  "\<exists>p. plan_all_gatherv own_row (Some [1, 2]) (Some small_session) ring_policy True = Inr p \<and> pl_method p = ''padded_tiles''
    \<and> exec_all_gatherv (ideal_session hd False) 0 p own_row [1, 2] 2 [[0..<40], [40..<120]] (replicate 160 0)
      = Inr ([0..<40] @ [40..<120])"
proof -
  have "case plan_all_gatherv own_row (Some [1, 2]) (Some small_session) ring_policy True of Inl _ \<Rightarrow> False
    | Inr p \<Rightarrow> pl_backend p = Sircl \<and> pl_method p = ''padded_tiles''" by code_simp
  then obtain p where p: "plan_all_gatherv own_row (Some [1, 2]) (Some small_session) ring_policy True = Inr p"
    "pl_backend p = Sircl" "pl_method p = ''padded_tiles''" by (auto split: sum.splits)
  have h: "tensor_ok own_row" "tm_itemsize own_row \<le> gather_op_bytes small_session" "tm_itemsize own_row = 2"
    "tm_shape own_row = [1, 20]" "truthy (li_gather_piece small_session) = None" by code_simp+
  have s: "serves_gathers (ideal_session hd False) 1 small_session" by (rule ideal_gathers) (simp add: h)
  have "exec_all_gatherv (ideal_session hd False) 0 p own_row [1, 2] (nat (tm_itemsize own_row)) [[0..<40], [40..<120]] (replicate 160 0)
    = Inr (concat [[0..<40], [40..<120]])"
    by (rule uneven_gather_delivers [where rank = 0, OF p(1,2) h(1) s h(2)]) (simp_all add: h(3,4) less_Suc_eq All_less_Suc)
  then show ?thesis using p h(3) by auto
qed

section \<open>Reduce-scatter with sizes\<close>

text \<open>
  With uneven sizes a rank keeps its own rows of the sum: those behind the rows of the ranks before it, along whatever dimension.
\<close>

lemma uneven_scatter_sums:
  assumes "plan_reduce_scatterv t (Some ns) (Some l) P k = Inr p" "pl_backend p = Sircl" "\<not> even_sizes (Some ns)"
    and "tensor_ok t" "tm_itemsize t dvd 16" "serves_sums s red (nat (tm_itemsize t)) l"
    and "serves_gathers s (nat (tm_itemsize t)) l" "tm_itemsize t \<le> gather_op_bytes l"
    and "xs \<noteq> []" "\<forall>x\<in>set xs. int (length x) = numel t" "0 < numel t" "int (length junk) = numel t"
    and "length gathered_junk = length xs * length junk"
    and "rank < length ns" "\<forall>n\<in>set ns. 0 \<le> n" "sum_list ns = int (extent_of (tm_shape t) (axis_of axis (tm_shape t)))"
  shows "exec_reduce_scatterv s acc zero p t axis (Some ns) rank l P k xs junk gathered_junk
    = Inr (narrow (rows_before (tm_shape t) (axis_of axis (tm_shape t))) (extent_of (tm_shape t) (axis_of axis (tm_shape t)))
        (rest_of (tm_shape t) (axis_of axis (tm_shape t))) (nat (sum_list (take rank ns))) (nat (ns ! rank))
        (summed (sum_of red acc l t) xs))"
proof -
  have "\<exists>r. plan_all_reduce t (Some l) (internal P) k = Inr r \<and> pl_backend r = Sircl"
    using assms(1,2,3) unfolding plan_reduce_scatterv_def
    by (cases "plan_all_reduce t (Some l) (internal P) k") (auto simp: by_nccl_def refuse_def split: if_splits)
  then obtain r where r: "plan_all_reduce t (Some l) (internal P) k = Inr r" "pl_backend r = Sircl" by blast
  have i: "0 < tm_itemsize t" using assms(4) by (simp add: tensor_ok_def)
  have "exec_all_reduce s acc zero r t l P k xs junk gathered_junk = Inr (summed (sum_of red acc l t) xs)"
  proof (rule exec_planned_reduce [OF r i assms(5,6,7,8)])
    show "equal_lengths xs (nat (numel t))" using assms(9,10) by (auto simp: equal_lengths_def)
    show "0 < nbytes t" using i assms(11) by (simp add: nbytes_def)
    show "length junk = nat (numel t)" "length gathered_junk = length xs * nat (numel t)" using assms(12,13) by auto
  qed (simp add: internal_def)
  moreover have "ns = take rank ns @ ns ! rank # drop (Suc rank) ns" using assms(14) by (rule id_take_nth_drop)
  then have "sum_list (take rank ns) + ns ! rank + sum_list (drop (Suc rank) ns) = sum_list ns"
    by (metis add.assoc sum_list.Cons sum_list.append)
  moreover have "0 \<le> sum_list (take rank ns)" "0 \<le> sum_list (drop (Suc rank) ns)" "0 \<le> ns ! rank"
    using assms(14,15) by (auto intro!: sum_list_nonneg dest: in_set_takeD in_set_dropD)
  ultimately show ?thesis using assms(3,14,16) r(1) by (simp add: exec_reduce_scatterv_def Let_def)
qed

text \<open>
  \<open>SparkRingCommunicator.reduce_scatterv\<close> passes its \<open>dim\<close>, the last one unless told otherwise, to the executor, while the planner
  plans dimension 0.  Nine columns over two ranks are refused by \<open>reduce_scatter\<close>; here they are cut to four each and the ninth
  column reaches no rank.
\<close>

definition nine_columns :: TensorMeta where
  "nine_columns = \<lparr>tm_shape = [2, 9], tm_dtype = ''float16'', tm_itemsize = 2, tm_contiguous = True\<rparr>"

definition scattered_columns :: "nat \<Rightarrow> py_error + int list" where
  "scattered_columns rank = bind_res (plan_reduce_scatterv nine_columns None (Some small_session) ring_policy True) (\<lambda>p.
     exec_reduce_scatterv (ideal_session sum_list False) whole_numbers 0 p nine_columns (-1) None rank small_session ring_policy True
       [[0, 1, 2, 3, 4, 5, 6, 7, 8, 0, 1, 2, 3, 4, 5, 6, 7, 8], replicate 18 0] (replicate 18 0) (replicate 36 0))"

lemma scatterv_cuts_another_dimension:
  "scattered_columns 0 = Inr [0, 1, 2, 3, 0, 1, 2, 3]" "scattered_columns 1 = Inr [4, 5, 6, 7, 4, 5, 6, 7]"
  "map_sum (\<lambda>_. ()) pl_backend (plan_reduce_scatter nine_columns (-1) (Some small_session) ring_policy True) = Inr Refuse"
  by code_simp+

end
