(* ===== verification/Divergences.thy ===== *)
theory Divergences
  imports TuningBuildFacts DcpFacts Wire Fabric
begin

text \<open>
  Concrete inputs where the code and its documentation differ: a flag line of a lane the group does not have, two separate
  loops of cables that are reported as one cycle, a candidate chosen at a size where it was not measured, and collectives
  of a decode-context-parallel group that decide by pointer values or exceed the sub-gather limit.
\<close>

text \<open>
  \<open>flag_index\<close> checks the lane against the most lanes any group has and not against the group's own lanes, so with one
  lane per peer it gives lane 1 of slot 0 and lane 0 of slot 1 the same line.
\<close>

lemma absent_lane_shares_line:
  "flag_index 0 0 0 1 2 1 = Inr 1 \<and> flag_index 0 0 1 0 2 1 = Inr 1"
  by code_simp

lemma absent_lane_leaves_array:
  "flag_index 1 1 1 1 2 1 = Inr 8 \<and> (2 :: int) * 2 * 2 * 1 = 8"
  by code_simp

text \<open>\<open>Fabric.kind\<close> reports \<open>cycle\<close> for cables that close two loops, of three Sparks each.\<close>

definition two_loops :: Fabric where
  "two_loops = \<lparr>cables = map (\<lambda>(a, b). \<lparr>ca = a, ca_port = 0, cb = b, cb_port = 1\<rparr>)
    [(0, 1), (1, 2), (2, 0), (3, 4), (4, 5), (5, 3)]\<rparr>"

lemma two_loops_reported_cycle:
  "Fabric_new (cables two_loops) = Inr two_loops \<and> kind two_loops = Cycle \<and> shortest_paths two_loops 0 3 = Inr []"
  by code_simp

section \<open>The fastest measured candidate\<close>

text \<open>
  \<open>tuning.py\<close> says that at a measured size the fastest candidate measured there is chosen.  A candidate measured at a
  smaller and at a larger size competes there as well, by its cost model: here the one-shot algorithm, measured at 1 KiB and
  4 KiB only, is chosen at 2 KiB, where only the two-shot algorithm was measured.
\<close>

definition sparse_row :: "string \<Rightarrow> int \<Rightarrow> rat \<Rightarrow> Row" where
  "sparse_row algorithm nbytes time = \<lparr>rw_collective = ''all_reduce'', rw_mode = ''eager'', rw_bytes = nbytes,
     rw_choice = default_choice\<lparr>ch_algorithm := Some algorithm\<rparr>, rw_time = time\<rparr>"

definition sparse_rows :: "Row list" where
  "sparse_rows = [sparse_row ''oneshot'' 1024 1, sparse_row ''twoshot'' 2048 5, sparse_row ''oneshot'' 4096 1]"

lemma unmeasured_candidate_chosen:
  "map (\<lambda>i. (iv_start i, ch_algorithm (iv_choice i))) (decide_intervals sample_curves ''all_reduce'' sparse_rows 2)
    = [(1024, Some ''oneshot'')]
  \<and> map (\<lambda>r. ch_algorithm (rw_choice r)) (filter (\<lambda>r. rw_bytes r = 2048) sparse_rows) = [Some ''twoshot'']"
  by (rule conjI; code_simp)

section \<open>Decode-context-parallel collectives\<close>

text \<open>
  \<open>dcp_collectives.py\<close> says that a dispatch decision never depends on pointer values, so that all ranks route a collective the
  same way.  A reduce-scatter of the same shape and type is taken at one address and declined at another.
\<close>

lemma pointer_decides_dispatch:
  "is_ok (dcp_reduce_scatter sample_runtime (sample_tensor [8, 8]) 0)
    \<and> \<not> is_ok (dcp_reduce_scatter sample_runtime ((sample_tensor [8, 8])\<lparr>tn_pointer := 4098\<rparr>) 0)"
  by code_simp

text \<open>
  Shards above the sub-gather limit are said to be gathered in row ranges within it.  Rows wider than the limit are gathered
  one per op, each above the limit: with 256-byte sub-gathers, three 512-byte rows make three 512-byte ops.
\<close>

lemma wide_rows_exceed_limit:
  "dcp_all_gather sample_runtime (sample_tensor [3, 256]) (- 1) = Inr [RowRange 0 1, RowRange 1 2, RowRange 2 3]
    \<and> op_bytes (sample_tensor [3, 256]) 1 (RowRange 0 1) = 512 \<and> gather_limit sample_runtime = 256"
  by code_simp

end
