(* ===== verification/Spec2Isabelle.thy ===== *)
theory Spec2Isabelle
  imports Layouts Links ChainFacts BudgetFacts P2P_Wire SwingFacts PostingFacts PiecesFacts RelayPlanFacts PlanFits TeardownGroup RankGroups Cpus Agreement TuningBuildFacts InstanceFacts DcpFacts NcclGuardFacts ExecutorUneven Divergences
begin

text \<open>
  A verification development for the planning core of \<open>sparkring_sircl\<close>, the Python package under
  \<open>src/spark_transport/sircl/sparkring_sircl/\<close> (file names below are relative to it).  SIRCL carries the collectives of
  a language model between DGX Sparks that are cabled directly to each other.  Before any byte moves, Python code that
  needs neither torch nor a GPU decides everything the native layer and the kernels rely on: which cables a lane
  crosses, which Spark relays it, how the shared memory of a session is laid out, in which order its rounds run, how
  large an op may be, and whether a collective may leave SIRCL for NCCL at all.  That code is modelled here.

  \<^bold>\<open>Parts and theories.\<close>

  \<^item> \<open>Prelude\<close>: errors as values (\<open>py_error + 'a\<close>, one constructor per exception class), dictionaries in insertion
    order, ranges, ceiling division and tilings.  \<open>Text\<close>: the string methods the parsers use.
  \<^item> \<open>Wire\<close>, \<open>Layouts\<close>, \<open>Links\<close> (\<open>protocol.py\<close>): the packed words of the control protocol and their decoders; the byte
    offsets of the arena, the chain area, the link area and the device counters, with the checks of their constructors;
    the rounds of the chain and ring collectives and the source of every item they move.
  \<^item> \<open>Fabric\<close>, \<open>Lanes\<close>, \<open>RouteMaps\<close> (\<open>routes.py\<close>): cables and crossings, all shortest paths by breadth-first search, the two
    lanes of a pair of positions (path A and path B), the route maps of all ranks, their text and their checks.
    \<open>Paths\<close> and \<open>Bfs\<close> hold the facts about crossings and distances.
  \<^item> \<open>Relays\<close> (\<open>routes.py\<close>, \<open>subset.py\<close>): the relay queues lanes share, forward windows, packet bounds, chain orders,
    isolation of groups on one fabric.  Facts: \<open>RelayFacts\<close>, \<open>ChainFacts\<close>.
  \<^item> \<open>FabricLayout\<close>, \<open>RelayPlan\<close> (\<open>fabric/layouts.py\<close>, \<open>fabric/plan.py\<close>, \<open>ring/plan.py\<close>): groups of a cabled fabric, the tags, origin
    routes and relay filters every Spark gets, the plan's own trace of a frame, and its isolation check.
    Facts: \<open>RelayPlanFacts\<close>, with the inductive relation \<open>relayed\<close> of the frames a Spark may hold.
  \<^item> \<open>P2P_Wire\<close>, \<open>Budget\<close> (\<open>p2p/protocol.py\<close>, \<open>p2p/budget.py\<close>): the area of a point-to-point channel, its headers and items; the
    allocation of relay queue shares to sessions, level by level.  Facts: \<open>BudgetFacts\<close>.
  \<^item> \<open>Swing\<close>, \<open>Posting\<close>, \<open>Pieces\<close> (\<open>swing_plan.py\<close>, \<open>posting.py\<close>, \<open>pieces.py\<close>, \<open>scatter_plan.py\<close>): the Swing all-reduce, the order a
    rank posts to its peers in, and the cuts of large messages.  Facts: \<open>SwingFacts\<close>, \<open>PostingFacts\<close>, \<open>PiecesFacts\<close>.
  \<^item> \<open>Topology\<close>, \<open>Planner\<close> (\<open>vllm/fabric.py\<close>, \<open>vllm/planner.py\<close>): a vLLM group placed on the fabric, what NCCL may do on its
    cabling, its relay load, and the plan of every collective.  Facts: \<open>TopologyFacts\<close>, \<open>PlannerFacts\<close>, \<open>PlanFits\<close>.
  \<^item> \<open>Teardown\<close>, \<open>TeardownGroup\<close> (\<open>teardown.py\<close>): the notes of a close as bytes, the rounds of one rank and what it stops,
    destroys and keeps; then the ranks of a group, whose interleavings are the inductive relations \<open>rank_step\<close> (one rank's
    next step) and \<open>group_step\<close>, with \<open>reached\<close> their reachable states.
  \<^item> \<open>Agreement\<close> (\<open>agreement.py\<close>): the checks every rank makes of all ranks' settings and route maps before a session connects.
  \<^item> \<open>RankGroups\<close>, \<open>Cpus\<close> (\<open>groups.py\<close>, \<open>cpus.py\<close>): the rank groups of vLLM, and the CPUs of the launching and progress threads.
  \<^item> \<open>Tuning\<close>, \<open>TuningBuild\<close> (\<open>tuning.py\<close>): candidates and their documents, tables and their checks, the interval a size lies in, the
    built-in plans; the cost model fitted to measurements, the intervals decided from it and the document they make.
    Facts: \<open>TuningFacts\<close>, \<open>TuningBuildFacts\<close>.
  \<^item> \<open>InstancePlan\<close> (\<open>vllm/p2p.py\<close>, \<open>p2p/settings.py\<close>): the channels of every group of an instance, with the windows that the sessions'
    reservations leave them.  Facts: \<open>InstanceFacts\<close>.
  \<^item> \<open>DcpRing\<close> (\<open>vllm/dcp_collectives.py\<close>): the hand-written routes of decode-context-parallel groups on the ring of eight, their relay
    load, the settings every rank votes on, and the ops of gathers, scatters and exchanges.  Facts: \<open>DcpFacts\<close>.
  \<^item> \<open>AdapterSettings\<close>, \<open>NcclGuard\<close> (\<open>vllm/settings.py\<close>, \<open>vllm/guard.py\<close>, the configuration and placement of \<open>vllm/adapter.py\<close>): the
    settings read from the environment, the policy the guard enforces, its registry of groups and carriers, and the
    tripwire around \<open>torch.distributed\<close>.  Facts: \<open>NcclGuardFacts\<close>, with \<open>reachable_registry\<close> the registries a process can reach.
  \<^item> \<open>Executor\<close> (\<open>vllm/executor.py\<close>): every plan of \<open>Planner\<close> carried out over the data of all ranks.  Facts: \<open>ExecutorFacts\<close> (gathers),
    \<open>ExecutorSums\<close> (sums), \<open>ExecutorBlocks\<close> (scatters and exchanges), \<open>ExecutorUneven\<close> (shards of different lengths).
  \<^item> \<open>Divergences\<close>: concrete inputs where the code and its documentation differ.

  \<^bold>\<open>How the code is translated.\<close>  A dataclass is a record, an enum a datatype, and an unbounded Python integer an
  \<open>int\<close>; a function that may raise returns \<open>Inl\<close> of the exception with its fixed text and the integers it formats.
  A mutable object of the source (the plan builder's tables, the distances of a search) is state that each step returns.
  Loops that end by construction are structural recursion; \<open>bfs\<close>, \<open>link_bfs\<close> and \<open>descend\<close> have termination proofs whose
  measures are the positions not yet seen and the distance left.  The one bounded loop is the trace of a frame, whose
  fuel is the source's own: \<open>trace\<close> follows a frame over at most 14 cables, and every frame meets its end within eight,
  since each relay lowers the tag (\<open>RelayPlanFacts\<close>).  The role table of the source (\<open>ROLES\<close>) is an argument
  \<open>R\<close>, under the hypothesis \<open>roles_ok R\<close> that it lists both classes of both ports, each on a device of its own;
  \<open>DEFAULT_ROLES\<close> satisfies it.  The digest of a plan is a function argument.

  \<^bold>\<open>What is shown.\<close>

  \<^item> Routing: the lanes derived for all ranks are shortest, agree end to end, pass the program's own checks, and
    survive their text form; the second derivation, in the vLLM adapter, gives the same lanes.
  \<^item> Choice of transport: NCCL only where the cabling allows it, captured calls stay where they were captured, every op
    of a split is within the session's limits and the ops cover the message, and well-formed calls never raise.
  \<^item> Guard: a call that reaches NCCL runs only between ranks whose cables carry it, in every registry the operations of the
    guard can reach, and no carrier outlives its group; a configuration that loads is well formed.
  \<^item> Data: a plan carried out gives what the collective promises, whatever the planner chose and whatever the buffers held:
    gathered rows side by side, the sum of every column, a rank's own block of it, every rank's chunk.
  \<^item> Tables: a table built from measurements loads, and the choice in force at a size is the fastest candidate's.
  \<^item> Relays: windows fit the queues they share, budgets keep every queue within its share and leave no lane out, also
    for all groups of an instance together; relay plans deliver every frame to its port, keep it inside its group, and end.
  \<^item> Schedules: every rank ends with every block of an all-gather and with the sum of all inputs of an all-reduce;
    pieces, tiles and ops carry every byte once; posting orders name every peer.
  \<^item> Memory: the uses of a session's areas are disjoint and inside them; words decode to what was encoded.

  \<^bold>\<open>Interfaces.\<close>  Locales state the contracts that several components share, each interpreted on the definitions of the
  theory that provides them: \<open>piece_plan\<close> (consecutive pieces that carry every unit once), provided by stripes, chunks, link pieces,
  all-reduce pieces, scatter ops and the blocks of a flat exchange; \<open>cell_area\<close> (uses of an area that stay apart), provided by the
  chain area, the link area, the counters and the channel area; \<open>cabling\<close> (a crossing that its reverse undoes), provided by the
  fabric's \<open>cross\<close>; \<open>classifier\<close> (a resolver whose entries allow no more than the cables do), provided by the placement of groups.  What
  the executor relies on of a session, which is device code, is not a locale but the hypotheses \<open>serves_gathers\<close>, \<open>serves_sums\<close>,
  \<open>serves_scatters\<close> and \<open>serves_exchanges\<close>: an op within the limits the session reports does what its name says.

  \<^bold>\<open>Not modelled.\<close>  Device kernels, RDMA verbs, CUDA streams and the native proxies (\<open>oneshot/\<close>, \<open>fused_norm/\<close>, \<open>p2p/session.py\<close>)
  rest on hardware and libraries the repository does not define.  The harness, the fabric commands and the installer
  (\<open>ring/\<close>, \<open>fabric/cli.py\<close>, \<open>src/scripts/\<close>) run processes on remote hosts.  The rest of the adapter
  (\<open>vllm/adapter.py\<close>, \<open>communicator.py\<close>, \<open>hooks.py\<close>) patches vLLM objects.  Of the modelled files, the JSON forms other than
  those of tuning tables, printed reports and digests are left out, and the reading of environment variables other than
  the adapter's and the decode-context-parallel ones, as is the time model of the Swing plan, whose floating point
  estimates decide nothing about correctness.  Reasons of plans and errors keep their fixed text and not the numbers
  formatted into it.
\<close>

end
